(* ===== verification/Prelude.thy ===== *)
theory Prelude imports Complex_Main "HOL-Library.Word" "HOL-Library.AList" begin

text \<open>
  Shared vocabulary of the development: results of code that may throw, bytes and byte
  buffers, the insertion-ordered \<open>Map\<close> of the JavaScript standard library, decimal printing of
  numbers inside template strings, and two interfaces the components instantiate: a keyed
  store and a transition system with an invariant.
\<close>

unbundle bit_operations_syntax

section \<open>Collections of facts\<close>

named_theorems map_simps \<open>lookups after updates of the keyed stores\<close>
named_theorems inv_intros \<open>an operation keeps the invariant of its component\<close>

section \<open>Results, bytes, maps\<close>

text \<open>A call that may throw: \<open>Inl\<close> carries the message of the \<open>Error\<close>.\<close>

type_synonym 'a result = "string + 'a"

abbreviation throw :: "string \<Rightarrow> 'a result" where
  "throw msg \<equiv> Inl msg"

abbreviation ok :: "'a \<Rightarrow> 'a result" where
  "ok x \<equiv> Inr x"

definition rbind :: "'a result \<Rightarrow> ('a \<Rightarrow> 'b result) \<Rightarrow> 'b result" where
  "rbind r f = (case r of Inl e \<Rightarrow> Inl e | Inr x \<Rightarrow> f x)"

lemma rbind_simps [simp]:
  "rbind (Inl e) f = Inl e"
  "rbind (Inr x) f = f x"
  by (simp_all add: rbind_def)

lemma rbind_eq_Inr: "rbind r f = Inr y \<longleftrightarrow> (\<exists>x. r = Inr x \<and> f x = Inr y)"
  by (cases r) auto

lemma rbind_eq_Inl: "rbind r f = Inl e \<longleftrightarrow> r = Inl e \<or> (\<exists>x. r = Inr x \<and> f x = Inl e)"
  by (cases r) auto

text \<open>A loop whose body may throw: the first throw ends it.\<close>

fun rfold :: "('a \<Rightarrow> 's \<Rightarrow> 's result) \<Rightarrow> 'a list \<Rightarrow> 's \<Rightarrow> 's result" where
  "rfold f [] s = Inr s"
| "rfold f (x # xs) s = rbind (f x s) (rfold f xs)"

lemma rfold_append: "rfold f (xs @ ys) s = rbind (rfold f xs s) (rfold f ys)"
  by (induction xs arbitrary: s) (auto simp: rbind_def split: sum.splits)

lemma rfold_ok_fold:
  "(\<And>x s. x \<in> set xs \<Longrightarrow> P s \<Longrightarrow> f x s = Inr (g x s) \<and> P (g x s)) \<Longrightarrow> P s
    \<Longrightarrow> rfold f xs s = Inr (fold g xs s)"
  by (induction xs arbitrary: s) auto

text \<open>Mapping a function that may throw over a list, in order.\<close>

fun rmap :: "('a \<Rightarrow> 'b result) \<Rightarrow> 'a list \<Rightarrow> 'b list result" where
  "rmap f [] = Inr []"
| "rmap f (x # xs) = rbind (f x) (\<lambda>y. rbind (rmap f xs) (\<lambda>ys. Inr (y # ys)))"

lemma rmap_ok: "(\<And>x. x \<in> set xs \<Longrightarrow> f x = Inr (g x)) \<Longrightarrow> rmap f xs = Inr (map g xs)"
  by (induction xs) auto

type_synonym byte = "8 word"
type_synonym bytes = "byte list"

lemma unat_byte_lt: "unat a < 256" for a :: byte
  using unsigned_less [of a] by simp

lemma xor_eq_0_byte: "a XOR b = 0 \<longleftrightarrow> a = b" for a b :: byte
proof
  assume "a XOR b = 0"
  then have "(a XOR b) XOR b = b" by simp
  then show "a = b" by (simp add: xor.assoc)
qed simp

text \<open>
  The JavaScript \<open>Map\<close>: keys in insertion order, each once; \<open>set\<close> of a present key keeps its
  place, \<open>set\<close> of a new key appends it. These are exactly the association-list operations
  of the library.
\<close>

type_synonym ('k, 'v) jmap = "('k \<times> 'v) list"

abbreviation jm_get :: "('k, 'v) jmap \<Rightarrow> 'k \<Rightarrow> 'v option" where
  "jm_get m k \<equiv> map_of m k"

abbreviation jm_has :: "('k, 'v) jmap \<Rightarrow> 'k \<Rightarrow> bool" where
  "jm_has m k \<equiv> map_of m k \<noteq> None"

abbreviation jm_set :: "('k, 'v) jmap \<Rightarrow> 'k \<Rightarrow> 'v \<Rightarrow> ('k, 'v) jmap" where
  "jm_set m k v \<equiv> AList.update k v m"

abbreviation jm_del :: "('k, 'v) jmap \<Rightarrow> 'k \<Rightarrow> ('k, 'v) jmap" where
  "jm_del m k \<equiv> AList.delete k m"

abbreviation jm_keys :: "('k, 'v) jmap \<Rightarrow> 'k list" where
  "jm_keys m \<equiv> map fst m"

abbreviation jm_values :: "('k, 'v) jmap \<Rightarrow> 'v list" where
  "jm_values m \<equiv> map snd m"

abbreviation jm_wf :: "('k, 'v) jmap \<Rightarrow> bool" where
  "jm_wf m \<equiv> distinct (map fst m)"

lemma jm_get_set [simp, map_simps]:
  "map_of (AList.update k v m) k' = (if k' = k then Some v else map_of m k')"
  by (simp add: update_conv')

lemma jm_get_del [simp, map_simps]:
  "map_of (AList.delete k m) k' = (if k' = k then None else map_of m k')"
  by (simp add: delete_conv')

lemma jm_wf_set [simp, inv_intros]: "jm_wf m \<Longrightarrow> jm_wf (AList.update k v m)"
  by (rule distinct_update)

lemma jm_wf_del [simp, inv_intros]: "jm_wf m \<Longrightarrow> jm_wf (AList.delete k m)"
  by (rule distinct_delete)

lemma jm_set_new: "map_of m k = None \<Longrightarrow> AList.update k v m = m @ [(k, v)]"
  by (induction m) (auto split: if_splits)

lemma jm_size_set:
  "jm_wf m \<Longrightarrow> length (AList.update k v m) = (if jm_has m k then length m else Suc (length m))"
  by (induction m) (auto split: if_splits)

lemma jm_in_set_iff: "jm_wf m \<Longrightarrow> (k, v) \<in> set m \<longleftrightarrow> map_of m k = Some v"
  by simp

lemma jm_set_del: "set (AList.delete k m) = {p \<in> set m. fst p \<noteq> k}"
  by (induction m) auto

lemma jm_set_set:
  "jm_wf m \<Longrightarrow> set (AList.update k v m) = insert (k, v) {p \<in> set m. fst p \<noteq> k}"
  by (induction m) (auto, force+)

section \<open>Interfaces\<close>

text \<open>
  A keyed store as its clients see it: what a lookup returns after each update, and that
  every update keeps the representation invariant.
\<close>

locale keyed_store =
  fixes empty :: 'm
    and get :: "'m \<Rightarrow> 'k \<Rightarrow> 'v option"
    and put :: "'m \<Rightarrow> 'k \<Rightarrow> 'v \<Rightarrow> 'm"
    and del :: "'m \<Rightarrow> 'k \<Rightarrow> 'm"
    and invar :: "'m \<Rightarrow> bool"
  assumes get_empty: "get empty k = None"
    and get_put: "invar m \<Longrightarrow> get (put m k v) k' = (if k' = k then Some v else get m k')"
    and get_del: "invar m \<Longrightarrow> get (del m k) k' = (if k' = k then None else get m k')"
    and invar_empty: "invar empty"
    and invar_put: "invar m \<Longrightarrow> invar (put m k v)"
    and invar_del: "invar m \<Longrightarrow> invar (del m k)"
begin

lemma put_same: "invar m \<Longrightarrow> get (put m k v) k = Some v"
  by (simp add: get_put)

lemma put_overwrites: "invar m \<Longrightarrow> get (put (put m k v) k w) k' = get (put m k w) k'"
  by (simp add: get_put invar_put)

lemma puts_commute:
  "invar m \<Longrightarrow> k \<noteq> l \<Longrightarrow> get (put (put m k v) l w) x = get (put (put m l w) k v) x"
  by (simp add: get_put invar_put)

lemma invar_puts: "invar m \<Longrightarrow> invar (fold (\<lambda>(k, v) m. put m k v) kvs m)"
  by (induction kvs arbitrary: m) (auto simp: invar_put)

lemma get_puts_notin:
  "invar m \<Longrightarrow> k \<notin> fst ` set kvs \<Longrightarrow> get (fold (\<lambda>(k, v) m. put m k v) kvs m) k = get m k"
  by (induction kvs arbitrary: m) (auto simp: get_put invar_put)

lemma get_puts_in:
  "invar m \<Longrightarrow> distinct (map fst kvs) \<Longrightarrow> (k, v) \<in> set kvs
    \<Longrightarrow> get (fold (\<lambda>(k, v) m. put m k v) kvs m) k = Some v"
proof (induction kvs arbitrary: m)
  case (Cons p kvs)
  show ?case
  proof (cases "p = (k, v)")
    case True
    with Cons.prems show ?thesis by (simp add: get_puts_notin invar_put get_put)
  next
    case False
    with Cons.prems have "(k, v) \<in> set kvs" by auto
    with Cons show ?thesis by (auto simp: invar_put split: prod.splits)
  qed
qed simp

end

interpretation jm: keyed_store "[]" map_of "\<lambda>m k v. AList.update k v m" "\<lambda>m k. AList.delete k m" jm_wf
  by unfold_locales auto

text \<open>
  A component that moves by steps: states reachable from an initial state by any
  finite sequence of steps satisfy every invariant that the steps keep.
\<close>

locale step_system =
  fixes init :: "'s \<Rightarrow> bool"
    and step :: "'s \<Rightarrow> 's \<Rightarrow> bool"
    and good :: "'s \<Rightarrow> bool"
  assumes init_good: "init s \<Longrightarrow> good s"
    and step_good: "good s \<Longrightarrow> step s t \<Longrightarrow> good t"
begin

lemma steps_good: "step\<^sup>*\<^sup>* s t \<Longrightarrow> good s \<Longrightarrow> good t"
  by (induction rule: rtranclp_induct) (auto intro: step_good)

lemma reachable_good: "init s \<Longrightarrow> step\<^sup>*\<^sup>* s t \<Longrightarrow> good t"
  by (blast intro: steps_good init_good)

end

text \<open>The same for a machine run by a function over a list of events.\<close>

locale event_machine =
  fixes act :: "'e \<Rightarrow> 's \<Rightarrow> 's"
    and good :: "'s \<Rightarrow> bool"
  assumes act_good: "good s \<Longrightarrow> good (act e s)"
begin

lemma run_good: "good s \<Longrightarrow> good (fold act es s)"
  by (induction es arbitrary: s) (auto intro: act_good)

end

section \<open>Lists\<close>

lemma nth_map_upt [simp]: "i < n \<Longrightarrow> map f [0..<n] ! i = f i"
  by simp

lemma list_eq_nthI: "length xs = length ys \<Longrightarrow> (\<And>i. i < length ys \<Longrightarrow> xs ! i = ys ! i) \<Longrightarrow> xs = ys"
  by (simp add: list_eq_iff_nth_eq)

lemma find_SomeD: "find P xs = Some x \<Longrightarrow> x \<in> set xs \<and> P x"
  by (auto simp: find_Some_iff)

section \<open>Sorting with a comparator\<close>

text \<open>
  \<open>Array.prototype.sort\<close> with a comparison function is stable; on a comparison that agrees with
  an order of keys the result is the stable sort by those keys.
\<close>

fun cmp_insert :: "('a \<Rightarrow> 'a \<Rightarrow> int) \<Rightarrow> 'a \<Rightarrow> 'a list \<Rightarrow> 'a list" where
  "cmp_insert cmp x [] = [x]"
| "cmp_insert cmp x (y # ys) = (if cmp x y \<le> 0 then x # y # ys else y # cmp_insert cmp x ys)"

definition cmp_sort :: "('a \<Rightarrow> 'a \<Rightarrow> int) \<Rightarrow> 'a list \<Rightarrow> 'a list" where
  "cmp_sort cmp xs = foldr (cmp_insert cmp) xs []"

lemma set_cmp_insert [simp]: "set (cmp_insert cmp x ys) = insert x (set ys)"
  by (induction ys) auto

lemma set_cmp_sort [simp]: "set (cmp_sort cmp xs) = set xs"
  by (induction xs) (auto simp: cmp_sort_def)

lemma length_cmp_insert [simp]: "length (cmp_insert cmp x ys) = Suc (length ys)"
  by (induction ys) auto

lemma length_cmp_sort [simp]: "length (cmp_sort cmp xs) = length xs"
  by (induction xs) (auto simp: cmp_sort_def)

lemma distinct_map_cmp_insert: "distinct (map f (cmp_insert cmp x ys)) = distinct (map f (x # ys))"
  by (induction ys) auto

lemma distinct_map_cmp_sort [simp]: "distinct (map f (cmp_sort cmp xs)) = distinct (map f xs)"
proof (induction xs)
  case (Cons x xs)
  have "cmp_sort cmp (x # xs) = cmp_insert cmp x (cmp_sort cmp xs)" by (simp add: cmp_sort_def)
  with Cons show ?case by (simp add: distinct_map_cmp_insert)
qed (simp add: cmp_sort_def)

locale comparator =
  fixes cmp :: "'a \<Rightarrow> 'a \<Rightarrow> int" and key :: "'a \<Rightarrow> 'k::linorder" and ok_item :: "'a \<Rightarrow> bool"
  assumes cmp_key: "ok_item x \<Longrightarrow> ok_item y \<Longrightarrow> cmp x y \<le> 0 \<longleftrightarrow> key x \<le> key y"
begin

lemma cmp_insert_key: "ok_item x \<Longrightarrow> \<forall>y \<in> set ys. ok_item y \<Longrightarrow> cmp_insert cmp x ys = insort_key key x ys"
  by (induction ys) (auto simp: cmp_key)

lemma cmp_sort_key: "\<forall>x \<in> set xs. ok_item x \<Longrightarrow> cmp_sort cmp xs = sort_key key xs"
proof (induction xs)
  case (Cons x xs)
  then have "cmp_sort cmp xs = sort_key key xs" by simp
  with Cons.prems show ?case by (simp add: cmp_sort_def cmp_insert_key)
qed (simp add: cmp_sort_def)

lemma cmp_sort_sorted: "\<forall>x \<in> set xs. ok_item x \<Longrightarrow> sorted (map key (cmp_sort cmp xs))"
  by (simp add: cmp_sort_key)

text \<open>The first \<open>n\<close> after sorting are nearest: nothing left out has a smaller key.\<close>

lemma take_nearest:
  assumes "\<forall>x \<in> set xs. ok_item x" and "x \<in> set (take n (cmp_sort cmp xs))" and "y \<in> set (drop n (cmp_sort cmp xs))"
  shows "key x \<le> key y"
proof -
  have "sorted (map key (take n (cmp_sort cmp xs)) @ map key (drop n (cmp_sort cmp xs)))"
    using cmp_sort_sorted [OF assms(1)] by (simp flip: map_append)
  with assms(2,3) show ?thesis by (auto simp: sorted_append)
qed

end

section \<open>Numbers in template strings\<close>

text \<open>Decimal digits of a natural number, as \<open>String(n)\<close> prints it.\<close>

definition digit_char :: "nat \<Rightarrow> char" where
  "digit_char d = char_of (48 + d)"

fun nat_str :: "nat \<Rightarrow> string" where
  "nat_str n = (if n < 10 then [digit_char n] else nat_str (n div 10) @ [digit_char (n mod 10)])"

declare nat_str.simps [simp del]

lemma digit_char_inj: "a < 10 \<Longrightarrow> b < 10 \<Longrightarrow> digit_char a = digit_char b \<Longrightarrow> a = b"
proof -
  assume a: "a < 10" and b: "b < 10" and eq: "digit_char a = digit_char b"
  from eq have "of_char (digit_char a) = (of_char (digit_char b) :: nat)" by simp
  with a b show ?thesis by (simp add: digit_char_def)
qed

lemma nat_str_nonempty [simp]: "nat_str n \<noteq> []" "[] \<noteq> nat_str n"
  by (subst nat_str.simps, simp)+

lemma nat_str_inj: "nat_str m = nat_str n \<Longrightarrow> m = n"
proof (induction m arbitrary: n rule: nat_str.induct)
  case (1 m)
  show ?case
  proof (cases "m < 10")
    case True
    show ?thesis
    proof (cases "n < 10")
      case True
      with \<open>m < 10\<close> "1.prems" show ?thesis
        by (simp add: nat_str.simps [of m] nat_str.simps [of n] digit_char_inj)
    next
      case False
      with \<open>m < 10\<close> "1.prems" show ?thesis
        by (simp add: nat_str.simps [of m] nat_str.simps [of n] nat_str_nonempty)
    qed
  next
    case False
    show ?thesis
    proof (cases "n < 10")
      case True
      with False "1.prems" show ?thesis
        by (simp add: nat_str.simps [of m] nat_str.simps [of n] nat_str_nonempty)
    next
      case n: False
      with False "1.prems" have "nat_str (m div 10) = nat_str (n div 10)"
        and d: "digit_char (m mod 10) = digit_char (n mod 10)"
        by (simp_all add: nat_str.simps [of m] nat_str.simps [of n])
      with False "1.IH" have "m div 10 = n div 10" by simp
      moreover from d have "m mod 10 = n mod 10" by (simp add: digit_char_inj)
      ultimately show ?thesis by (metis div_mult_mod_eq)
    qed
  qed
qed

lemma nat_str_digits: "c \<in> set (nat_str n) \<Longrightarrow> \<exists>d < 10. c = digit_char d"
proof (induction n rule: nat_str.induct)
  case (1 n)
  show ?case
  proof (cases "n < 10")
    case True
    with "1.prems" show ?thesis by (auto simp: nat_str.simps [of n])
  next
    case False
    with 1 show ?thesis
      by (auto simp: nat_str.simps [of n] intro: exI [of _ "n mod 10"])
  qed
qed

lemma digit_char_not_colon: "d < 10 \<Longrightarrow> digit_char d \<noteq> CHR '':''"
proof
  assume "d < 10" "digit_char d = CHR '':''"
  then have "of_char (digit_char d) = (of_char (CHR '':'') :: nat)" by simp
  with \<open>d < 10\<close> show False by (simp add: digit_char_def)
qed

lemma colon_notin_nat_str: "CHR '':'' \<notin> set (nat_str n)"
  using digit_char_not_colon nat_str_digits by metis

end
