(* ===== verification/GF256.thy ===== *)
theory GF256 imports Prelude begin

text \<open>
  The finite field of \<open>frontend/src/lib/erasure/gf256.ts\<close>: the log and antilog tables as the
  module's start-up loop fills them, the table-driven operations, their equality with
  polynomial arithmetic modulo \<open>0x11d\<close>, and the field laws, stated by making the byte values
  an instance of the library's class \<open>field\<close>.
\<close>

unbundle bit_operations_syntax

section \<open>The tables\<close>

definition FIELD_SIZE :: nat where
  "FIELD_SIZE = 256"

definition PRIMITIVE :: "32 word" where
  "PRIMITIVE = 0x11d"

text \<open>
  One turn of \<open>for (let i = 0; i < 255; i++)\<close>: \<open>x\<close> is a 32-bit integer as JavaScript's shift and
  bit operations make it, the tables are byte arrays, so a store keeps the low byte.
\<close>

definition build_step :: "nat \<Rightarrow> 32 word \<times> bytes \<times> bytes \<Rightarrow> 32 word \<times> bytes \<times> bytes" where
  "build_step i st =
    (case st of (x, exps, logs) \<Rightarrow>
      let exps' = exps[i := ucast x];
          logs' = logs[unat x := word_of_nat i];
          x1 = push_bit 1 x;
          x2 = (if x1 AND 0x100 \<noteq> 0 then x1 XOR PRIMITIVE else x1)
      in (x2, exps', logs'))"

definition mirror_step :: "nat \<Rightarrow> bytes \<Rightarrow> bytes" where
  "mirror_step i exps = exps[i := exps ! (i - 255)]"

definition buildTables :: "bytes \<times> bytes" where
  "buildTables =
    (case fold build_step [0..<255] (1, replicate (FIELD_SIZE * 2) 0, replicate FIELD_SIZE 0) of
      (x, exps, logs) \<Rightarrow> (fold mirror_step [255..<510] exps, logs))"

definition EXP :: bytes where
  "EXP = fst buildTables"

definition LOG :: bytes where
  "LOG = snd buildTables"

section \<open>The operations\<close>

text \<open>Every argument the code passes is a byte (a matrix entry or an element of a byte array).\<close>

definition gf_mul :: "byte \<Rightarrow> byte \<Rightarrow> byte" where
  "gf_mul a b =
    (if a = 0 \<or> b = 0 then 0
     else EXP ! (unat (LOG ! unat a) + unat (LOG ! unat b)))"

definition gf_div :: "byte \<Rightarrow> byte \<Rightarrow> byte result" where
  "gf_div a b =
    (if b = 0 then throw ''GF256: divide by zero''
     else if a = 0 then ok 0
     else ok (EXP ! ((unat (LOG ! unat a) + 255 - unat (LOG ! unat b)) mod 255)))"

definition gf_inv :: "byte \<Rightarrow> byte result" where
  "gf_inv a =
    (if a = 0 then throw ''GF256: inverse of zero''
     else ok (EXP ! (255 - unat (LOG ! unat a))))"

definition gf_add :: "byte \<Rightarrow> byte \<Rightarrow> byte" where
  "gf_add a b = a XOR b"

definition mulAddRow :: "byte \<Rightarrow> bytes \<Rightarrow> bytes \<Rightarrow> bytes result" where
  "mulAddRow c src dst =
    (if length src \<noteq> length dst then throw ''GF256: row length mismatch''
     else if c = 0 then ok dst
     else ok (map2 (\<lambda>s d. if s \<noteq> 0
                        then d XOR EXP ! (unat (LOG ! unat c) + unat (LOG ! unat s))
                        else d) src dst))"

section \<open>Multiplication by the generator\<close>

definition xtime :: "byte \<Rightarrow> byte" where
  "xtime b = (if bit b 7 then push_bit 1 b XOR 0x1d else push_bit 1 b)"

abbreviation gpow :: "nat \<Rightarrow> byte" where
  "gpow n \<equiv> (xtime ^^ n) 1"

lemma xtime_0 [simp]: "xtime 0 = 0"
  by (simp add: xtime_def)

lemma xtime_xor: "xtime (a XOR b) = xtime a XOR xtime b"
  by (auto simp: xtime_def bit_xor_iff push_bit_xor xor.assoc xor.left_commute xor.commute)

lemma xtimes_0 [simp]: "(xtime ^^ n) 0 = 0"
  by (induction n) auto

lemma xtimes_xor: "(xtime ^^ n) (a XOR b) = (xtime ^^ n) a XOR (xtime ^^ n) b"
  by (induction n) (auto simp: xtime_xor)

text \<open>The two tables written out, as a device for the proofs below and for evaluation.\<close>

definition antilogs :: bytes where
  "antilogs =
    [1, 2, 4, 8, 16, 32, 64, 128, 29, 58, 116, 232, 205, 135, 19, 38, 76, 152, 45, 90, 180,
     117, 234, 201, 143, 3, 6, 12, 24, 48, 96, 192, 157, 39, 78, 156, 37, 74, 148, 53, 106,
     212, 181, 119, 238, 193, 159, 35, 70, 140, 5, 10, 20, 40, 80, 160, 93, 186, 105, 210,
     185, 111, 222, 161, 95, 190, 97, 194, 153, 47, 94, 188, 101, 202, 137, 15, 30, 60, 120,
     240, 253, 231, 211, 187, 107, 214, 177, 127, 254, 225, 223, 163, 91, 182, 113, 226, 217,
     175, 67, 134, 17, 34, 68, 136, 13, 26, 52, 104, 208, 189, 103, 206, 129, 31, 62, 124,
     248, 237, 199, 147, 59, 118, 236, 197, 151, 51, 102, 204, 133, 23, 46, 92, 184, 109,
     218, 169, 79, 158, 33, 66, 132, 21, 42, 84, 168, 77, 154, 41, 82, 164, 85, 170, 73, 146,
     57, 114, 228, 213, 183, 115, 230, 209, 191, 99, 198, 145, 63, 126, 252, 229, 215, 179,
     123, 246, 241, 255, 227, 219, 171, 75, 150, 49, 98, 196, 149, 55, 110, 220, 165, 87,
     174, 65, 130, 25, 50, 100, 200, 141, 7, 14, 28, 56, 112, 224, 221, 167, 83, 166, 81,
     162, 89, 178, 121, 242, 249, 239, 195, 155, 43, 86, 172, 69, 138, 9, 18, 36, 72, 144,
     61, 122, 244, 245, 247, 243, 251, 235, 203, 139, 11, 22, 44, 88, 176, 125, 250, 233,
     207, 131, 27, 54, 108, 216, 173, 71, 142]"

definition dlogs :: "nat list" where
  "dlogs =
    [0, 0, 1, 25, 2, 50, 26, 198, 3, 223, 51, 238, 27, 104, 199, 75, 4, 100, 224, 14, 52,
     141, 239, 129, 28, 193, 105, 248, 200, 8, 76, 113, 5, 138, 101, 47, 225, 36, 15, 33, 53,
     147, 142, 218, 240, 18, 130, 69, 29, 181, 194, 125, 106, 39, 249, 185, 201, 154, 9, 120,
     77, 228, 114, 166, 6, 191, 139, 98, 102, 221, 48, 253, 226, 152, 37, 179, 16, 145, 34,
     136, 54, 208, 148, 206, 143, 150, 219, 189, 241, 210, 19, 92, 131, 56, 70, 64, 30, 66,
     182, 163, 195, 72, 126, 110, 107, 58, 40, 84, 250, 133, 186, 61, 202, 94, 155, 159, 10,
     21, 121, 43, 78, 212, 229, 172, 115, 243, 167, 87, 7, 112, 192, 247, 140, 128, 99, 13,
     103, 74, 222, 237, 49, 197, 254, 24, 227, 165, 153, 119, 38, 184, 180, 124, 17, 68, 146,
     217, 35, 32, 137, 46, 55, 63, 209, 91, 149, 188, 207, 205, 144, 135, 151, 178, 220, 252,
     190, 97, 242, 86, 211, 171, 20, 42, 93, 158, 132, 60, 57, 83, 71, 109, 65, 162, 31, 45,
     67, 216, 183, 123, 164, 118, 196, 23, 73, 236, 127, 12, 111, 246, 108, 161, 59, 82, 41,
     157, 85, 170, 251, 96, 134, 177, 187, 204, 62, 90, 203, 89, 95, 176, 156, 169, 160, 81,
     11, 245, 22, 235, 122, 117, 44, 215, 79, 174, 213, 233, 230, 231, 173, 232, 116, 214,
     244, 234, 168, 80, 88, 175]"

lemma length_antilogs [simp]: "length antilogs = 255"
  by (simp add: antilogs_def)

lemma length_dlogs [simp]: "length dlogs = 256"
  by (simp add: dlogs_def)

lemma antilogs_step: "map xtime antilogs = tl antilogs @ [1]"
  by (simp add: antilogs_def xtime_def)

lemma antilogs_0: "antilogs ! 0 = 1"
  by (simp add: antilogs_def)

lemma antilogs_nth: "n < 255 \<Longrightarrow> antilogs ! n = gpow n"
proof (induction n)
  case (Suc n)
  then have "antilogs ! Suc n = (tl antilogs @ [1]) ! n"
    by (simp add: nth_append nth_tl)
  also have "\<dots> = xtime (antilogs ! n)"
    using Suc.prems by (simp flip: antilogs_step)
  finally show ?case using Suc by simp
qed (simp add: antilogs_0)

lemma gpow_255: "gpow 255 = 1"
proof -
  have "gpow (Suc 254) = xtime (antilogs ! 254)"
    by (simp only: antilogs_nth funpow.simps o_apply)
  then have "gpow 255 = xtime (antilogs ! 254)"
    by simp
  also have "\<dots> = map xtime antilogs ! 254"
    by simp
  also have "\<dots> = 1"
    by (simp only: antilogs_step) (simp add: nth_append)
  finally show ?thesis .
qed

lemma dlogs_antilogs: "map (\<lambda>b. dlogs ! unat b) antilogs = [0..<255]"
  by (simp add: antilogs_def dlogs_def upt_rec)

lemma antilogs_dlogs: "map (\<lambda>d. antilogs ! d) (tl dlogs) = map word_of_nat [1..<256]"
  by (simp add: antilogs_def dlogs_def upt_rec)


section \<open>What the start-up loop computes\<close>

lemma gpow_inj: "i < 255 \<Longrightarrow> j < 255 \<Longrightarrow> gpow i = gpow j \<Longrightarrow> i = j"
proof -
  assume i: "i < 255" and j: "j < 255" and eq: "gpow i = gpow j"
  have "map (\<lambda>b. dlogs ! unat b) antilogs ! i = map (\<lambda>b. dlogs ! unat b) antilogs ! j"
    using i j eq by (simp add: antilogs_nth)
  then show ?thesis using i j by (simp add: dlogs_antilogs)
qed

lemma gpow_surj: "a \<noteq> 0 \<Longrightarrow> \<exists>n < 255. a = gpow n"
proof -
  assume "a \<noteq> 0"
  then have pos: "0 < unat a" by (simp add: unat_gt_0)
  have lt: "unat a < 256" by (rule unat_byte_lt)
  let ?d = "tl dlogs ! (unat a - 1)"
  have "map (\<lambda>d. antilogs ! d) (tl dlogs) ! (unat a - 1) = word_of_nat (unat a)"
    using pos lt by (simp add: antilogs_dlogs)
  then have a: "antilogs ! ?d = a"
    using pos lt by simp
  have "?d \<in> set (tl dlogs)"
    using pos lt by (intro nth_mem) simp
  moreover have "list_all (\<lambda>d. d < 255) (tl dlogs)"
    by (simp add: dlogs_def)
  ultimately have "?d < 255" by (simp add: list_all_iff)
  with a show ?thesis by (auto simp: antilogs_nth intro!: exI [of _ ?d])
qed

text \<open>The 32-bit loop variable always holds the current power as a byte.\<close>

definition shift32 :: "32 word \<Rightarrow> 32 word" where
  "shift32 x = (let x1 = push_bit 1 x in if x1 AND 0x100 \<noteq> 0 then x1 XOR PRIMITIVE else x1)"

lemma shift32_antilogs: "map (\<lambda>b. shift32 (ucast b)) antilogs = map (\<lambda>b. ucast (xtime b)) antilogs"
  by (simp add: antilogs_def shift32_def PRIMITIVE_def xtime_def)

lemma shift32_gpow: "n < 255 \<Longrightarrow> shift32 (ucast (gpow n)) = ucast (gpow (Suc n))"
  using arg_cong [OF shift32_antilogs, of "\<lambda>xs. xs ! n"] by (simp add: antilogs_nth)

lemma unat_ucast_byte: "unat (ucast b :: 32 word) = unat b" for b :: byte
  using unat_byte_lt [of b] by (simp add: unsigned_ucast_eq take_bit_word_eq_self take_bit_nat_eq_self)

lemma ucast_ucast_byte: "ucast (ucast b :: 32 word) = b" for b :: byte
  by (rule word_unat_eq_iff [THEN iffD2])
    (simp add: unsigned_ucast_eq take_bit_word_eq_self take_bit_nat_eq_self order.strict_trans [OF unat_byte_lt])

definition exps_at :: "nat \<Rightarrow> bytes" where
  "exps_at n = map (\<lambda>i. if i < n then gpow i else 0) [0..<512]"

lemma exps_at_Suc: "n < 512 \<Longrightarrow> (exps_at n)[n := gpow n] = exps_at (Suc n)"
  by (rule list_eq_nthI) (auto simp: exps_at_def nth_list_update less_Suc_eq)

lemma build_loop:
  "n \<le> 255 \<Longrightarrow>
    \<exists>logs. fold build_step [0..<n] (1, replicate 512 0, replicate 256 0) = (ucast (gpow n), exps_at n, logs)
      \<and> length logs = 256 \<and> (\<forall>i < n. logs ! unat (gpow i) = word_of_nat i)"
proof (induction n)
  case 0
  show ?case by (auto simp: exps_at_def map_replicate_const)
next
  case (Suc n)
  then obtain logs where st:
      "fold build_step [0..<n] (1, replicate 512 0, replicate 256 0) = (ucast (gpow n), exps_at n, logs)"
    and len: "length logs = 256" and logs: "\<forall>i < n. logs ! unat (gpow i) = word_of_nat i"
    by auto
  have new: "unat (gpow i) \<noteq> unat (gpow n)" if "i < n" for i
    using gpow_inj [of i n] that Suc.prems by (auto simp flip: word_unat_eq_iff)
  have "fold build_step [0..<Suc n] (1, replicate 512 0, replicate 256 0)
      = build_step n (ucast (gpow n), exps_at n, logs)"
    using st by simp
  also have "\<dots> = (shift32 (ucast (gpow n)), exps_at (Suc n), logs[unat (gpow n) := word_of_nat n])"
    using Suc.prems by (simp add: build_step_def shift32_def Let_def ucast_ucast_byte unat_ucast_byte exps_at_Suc)
  also have "shift32 (ucast (gpow n)) = ucast (gpow (Suc n))"
    using Suc.prems by (intro shift32_gpow) simp
  finally show ?case
    using logs len unat_byte_lt new new [THEN not_sym] by (auto simp: less_Suc_eq nth_list_update)
qed

lemma mirror_loop:
  "255 + n \<le> 510 \<Longrightarrow> length e = 512 \<Longrightarrow> fold mirror_step [255..<255 + n] e
     = map (\<lambda>i. if 255 \<le> i \<and> i < 255 + n then e ! (i - 255) else e ! i) [0..<512]"
proof (induction n)
  case 0
  then show ?case by (auto intro!: list_eq_nthI)
next
  case (Suc n)
  then have "fold mirror_step [255..<255 + Suc n] e = mirror_step (255 + n)
      (map (\<lambda>i. if 255 \<le> i \<and> i < 255 + n then e ! (i - 255) else e ! i) [0..<512])"
    by (simp only: add_Suc_right upt_Suc_append le_add1 fold_append) simp
  also have "\<dots> = map (\<lambda>i. if 255 \<le> i \<and> i < 255 + Suc n then e ! (i - 255) else e ! i) [0..<512]"
    using Suc.prems by (intro list_eq_nthI) (auto simp: mirror_step_def nth_list_update)
  finally show ?case .
qed

lemma gpow_period: "gpow (255 + n) = gpow n"
  by (simp add: funpow_add gpow_255 add.commute [of 255])

lemma buildTables_spec:
  "EXP = map (\<lambda>i. if i < 510 then gpow i else 0) [0..<512]"
  "length LOG = 256" "i < 255 \<Longrightarrow> LOG ! unat (gpow i) = word_of_nat i"
proof -
  obtain logs where st:
      "fold build_step [0..<255] (1, replicate 512 0, replicate 256 0) = (ucast (gpow 255), exps_at 255, logs)"
    and logs: "length logs = 256" "\<forall>i < 255. logs ! unat (gpow i) = word_of_nat i"
    using build_loop [of 255] by auto
  have bt: "buildTables = (fold mirror_step [255..<255 + 255] (exps_at 255), logs)"
    by (simp add: buildTables_def FIELD_SIZE_def st)
  have per: "gpow (i - 255) = gpow i" if "255 \<le> i" for i
    using gpow_period [of "i - 255"] that by simp
  have "fold mirror_step [255..<255 + 255] (exps_at 255)
      = map (\<lambda>i. if 255 \<le> i \<and> i < 255 + 255 then exps_at 255 ! (i - 255) else exps_at 255 ! i) [0..<512]"
    by (rule mirror_loop) (simp_all add: exps_at_def)
  also have "\<dots> = map (\<lambda>i. if i < 510 then gpow i else 0) [0..<512]"
    by (rule map_cong) (auto simp: exps_at_def per)
  finally show "EXP = map (\<lambda>i. if i < 510 then gpow i else 0) [0..<512]"
    by (simp add: EXP_def bt)
  show "length LOG = 256" "i < 255 \<Longrightarrow> LOG ! unat (gpow i) = word_of_nat i"
    using logs by (simp_all add: LOG_def bt)
qed

lemma EXP_nth: "n < 510 \<Longrightarrow> EXP ! n = gpow n"
  by (simp add: buildTables_spec(1))

abbreviation dlog :: "byte \<Rightarrow> nat" where
  "dlog a \<equiv> unat (LOG ! unat a)"

lemma dlog_gpow: "n < 255 \<Longrightarrow> dlog (gpow n) = n"
  by (simp add: buildTables_spec(3) unat_of_nat)

lemma dlog_lt: "a \<noteq> 0 \<Longrightarrow> dlog a < 255"
  using gpow_surj [of a] by (auto simp: dlog_gpow)

lemma gpow_dlog: "a \<noteq> 0 \<Longrightarrow> gpow (dlog a) = a"
  using gpow_surj [of a] by (auto simp: dlog_gpow)

lemma gpow_nonzero [simp]: "gpow n \<noteq> 0"
proof
  assume "gpow n = 0"
  then have "(xtime ^^ (255 * n - n)) (gpow n) = 0" by simp
  then have "gpow (255 * n) = 0"
    by (simp add: funpow_add [symmetric, THEN fun_cong, unfolded o_apply])
  moreover have "gpow (255 * m) = 1" for m
    by (induction m) (simp_all add: gpow_period)
  ultimately show False by simp
qed

section \<open>The field laws\<close>

lemma gf_mul_0 [simp]: "gf_mul 0 b = 0" "gf_mul a 0 = 0"
  by (simp_all add: gf_mul_def)

text \<open>Multiplying by \<open>a\<close> is multiplying by the generator \<open>log a\<close> times.\<close>

lemma gf_mul_xtime: "a \<noteq> 0 \<Longrightarrow> gf_mul a b = (xtime ^^ dlog a) b"
proof (cases "b = 0")
  case False
  assume a: "a \<noteq> 0"
  with False have "gf_mul a b = gpow (dlog a + dlog b)"
    using dlog_lt [of a] dlog_lt [of b] by (simp add: gf_mul_def EXP_nth)
  also have "\<dots> = (xtime ^^ dlog a) b"
    by (simp add: funpow_add gpow_dlog False)
  finally show ?thesis .
qed simp

lemma gf_mul_commute: "gf_mul a b = gf_mul b a"
  by (simp add: gf_mul_def add.commute)

lemma gf_mul_eq_0 [simp]: "gf_mul a b = 0 \<longleftrightarrow> a = 0 \<or> b = 0"
  using dlog_lt [of a] dlog_lt [of b] by (auto simp: gf_mul_def EXP_nth)

lemma gf_mul_assoc: "gf_mul (gf_mul a b) c = gf_mul a (gf_mul b c)"
proof (cases "a = 0 \<or> b = 0 \<or> c = 0")
  case False
  then have ab: "gf_mul a b \<noteq> 0" and "a \<noteq> 0" "b \<noteq> 0" "c \<noteq> 0" by simp_all
  have "gf_mul (gf_mul a b) c = gf_mul c (gf_mul a b)"
    by (rule gf_mul_commute)
  also have "\<dots> = (xtime ^^ (dlog c + dlog a)) b"
    using False by (simp add: gf_mul_xtime funpow_add)
  also have "\<dots> = (xtime ^^ dlog a) ((xtime ^^ dlog c) b)"
    by (simp add: funpow_add add.commute [of "dlog c"])
  also have "\<dots> = gf_mul a (gf_mul c b)"
    using False by (simp add: gf_mul_xtime)
  also have "gf_mul c b = gf_mul b c"
    by (rule gf_mul_commute)
  finally show ?thesis .
qed auto

lemma gf_mul_xor_right: "gf_mul a (b XOR c) = gf_mul a b XOR gf_mul a c"
  by (cases "a = 0") (simp_all add: gf_mul_xtime xtimes_xor)

lemma gf_mul_1 [simp]: "gf_mul 1 b = b" "gf_mul b 1 = b"
proof -
  have "dlog 1 = 0" using dlog_gpow [of 0] by simp
  then show "gf_mul 1 b = b" by (simp add: gf_mul_xtime)
  then show "gf_mul b 1 = b" by (simp add: gf_mul_commute)
qed

lemma gf_inv_spec: "a \<noteq> 0 \<Longrightarrow> \<exists>b. gf_inv a = ok b \<and> b \<noteq> 0 \<and> gf_mul a b = 1"
proof -
  assume a: "a \<noteq> 0"
  let ?b = "EXP ! (255 - dlog a)"
  have b: "?b = gpow (255 - dlog a)" by (simp add: EXP_nth)
  have "gf_mul a ?b = (xtime ^^ dlog a) (gpow (255 - dlog a))"
    using a by (simp add: gf_mul_xtime b)
  also have "\<dots> = gpow (dlog a + (255 - dlog a))"
    by (simp only: funpow_add o_apply)
  also have "\<dots> = 1"
    using dlog_lt [OF a] gpow_255 by simp
  finally show ?thesis using a b by (auto simp: gf_inv_def)
qed

lemma gpow_mod: "gpow (n mod 255) = gpow n"
proof -
  have "gpow (255 * q + r) = gpow r" for q r
    by (induction q) (simp_all add: gpow_period add.assoc)
  from this [of "n div 255" "n mod 255"] show ?thesis by simp
qed

lemma gf_div_spec: "b \<noteq> 0 \<Longrightarrow> \<exists>q. gf_div a b = ok q \<and> gf_mul q b = a"
proof (cases "a = 0")
  case False
  assume b: "b \<noteq> 0"
  let ?n = "dlog a + 255 - dlog b"
  have q: "EXP ! (?n mod 255) = gpow ?n"
    using gpow_mod [of ?n] by (simp add: EXP_nth)
  have "gf_mul (gpow ?n) b = (xtime ^^ dlog b) (gpow ?n)"
    using b by (simp add: gf_mul_commute [of "gpow ?n"] gf_mul_xtime)
  also have "\<dots> = gpow (dlog b + ?n)"
    by (simp only: funpow_add o_apply)
  also have "dlog b + ?n = 255 + dlog a"
    using dlog_lt [OF b] by simp
  also have "gpow (255 + dlog a) = a"
    using False by (simp only: gpow_period gpow_dlog [OF False])
  finally show ?thesis
    using b False q by (simp add: gf_div_def)
qed (simp add: gf_div_def)

section \<open>The byte values as a field\<close>

text \<open>
  The class \<open>field\<close> of the library, on a copy of the bytes: its operations are the code's, so
  the library's ring and field automation applies to matrices of bytes.
\<close>

datatype gf = GF (gbyte: byte)

instantiation gf :: field
begin

definition "0 = GF 0"
definition "1 = GF 1"
definition "a + b = GF (gf_add (gbyte a) (gbyte b))" for a b :: gf
definition "- a = a" for a :: gf
definition "a - b = GF (gf_add (gbyte a) (gbyte b))" for a b :: gf
definition "a * b = GF (gf_mul (gbyte a) (gbyte b))" for a b :: gf
definition "inverse a = (case gf_inv (gbyte a) of Inl _ \<Rightarrow> GF 0 | Inr b \<Rightarrow> GF b)" for a :: gf
definition "a div b = a * inverse b" for a b :: gf

instance
proof
  fix a b c :: gf
  show "a + b + c = a + (b + c)" "a + b = b + a" "0 + a = a" "- a + a = 0" "a - b = a + - b"
    by (simp_all add: plus_gf_def zero_gf_def uminus_gf_def minus_gf_def gf_add_def ac_simps)
  show "a * b * c = a * (b * c)" "1 * a = a" "(0 :: gf) \<noteq> 1"
    by (simp_all add: times_gf_def one_gf_def zero_gf_def gf_mul_assoc)
  show "a * b = b * a"
    by (simp only: times_gf_def gf_mul_commute [of "gbyte a"])
  show "(a + b) * c = a * c + b * c"
    by (simp add: times_gf_def plus_gf_def gf_add_def gf_mul_commute [of _ "gbyte c"] gf_mul_xor_right)
  show "a \<noteq> 0 \<Longrightarrow> inverse a * a = 1"
    using gf_inv_spec [of "gbyte a"]
    by (cases a) (auto simp: inverse_gf_def times_gf_def zero_gf_def one_gf_def gf_mul_commute)
  show "a div b = a * inverse b" by (rule divide_gf_def)
  show "inverse (0 :: gf) = 0"
    by (simp add: inverse_gf_def zero_gf_def gf_inv_def)
qed

end

lemma GF_hom:
  "GF (gf_add a b) = GF a + GF b" "GF (gf_mul a b) = GF a * GF b" "GF (a XOR b) = GF a + GF b"
  "GF 0 = 0" "GF 1 = 1"
  by (simp_all add: plus_gf_def times_gf_def gf_add_def zero_gf_def one_gf_def)

lemma GF_inv: "gf_inv a = ok b \<Longrightarrow> GF b = inverse (GF a)"
  by (simp add: inverse_gf_def)

lemma GF_eq_iff [simp]: "GF a = 0 \<longleftrightarrow> a = 0" "GF a = 1 \<longleftrightarrow> a = 1"
  by (simp_all add: zero_gf_def one_gf_def)

lemma gf_char2 [simp]: "x + x = 0" for x :: gf
  by (simp add: plus_gf_def gf_add_def zero_gf_def)

lemma gf_minus [simp]: "- x = x" for x :: gf
  by (rule uminus_gf_def)

lemma gf_inv_ok: "a \<noteq> 0 \<Longrightarrow> gf_inv a = ok (gbyte (inverse (GF a)))"
  using gf_inv_spec [of a] by (auto simp: inverse_gf_def)

lemma mulAddRow_ok:
  "length src = length dst \<Longrightarrow>
    mulAddRow c src dst = ok (map2 (\<lambda>s d. gf_add d (gf_mul c s)) src dst)"
proof -
  assume len: "length src = length dst"
  show ?thesis
  proof (cases "c = 0")
    case True
    with len show ?thesis
      by (auto simp: mulAddRow_def gf_add_def intro!: list_eq_nthI)
  next
    case False
    have "map2 (\<lambda>s d. if s \<noteq> 0 then d XOR EXP ! (dlog c + dlog s) else d) src dst
        = map2 (\<lambda>s d. gf_add d (gf_mul c s)) src dst"
      using False by (auto simp: gf_add_def gf_mul_def)
    with len False show ?thesis by (simp add: mulAddRow_def)
  qed
qed


section \<open>The table-driven product is the product of polynomials modulo 0x11d\<close>

text \<open>
  Reference definition: shift-and-add multiplication of polynomials over GF(2), reducing
  with \<open>0x11d\<close> after each shift.
\<close>

definition poly_mul :: "byte \<Rightarrow> byte \<Rightarrow> byte" where
  "poly_mul a b = fold (\<lambda>i acc. if bit a i then acc XOR (xtime ^^ i) b else acc) [0..<8] 0"

lemma gpow_small: "i < 8 \<Longrightarrow> gpow i = 2 ^ i"
proof -
  have "list_all (\<lambda>i. gpow i = 2 ^ i) [0, 1, 2, 3, 4, 5, 6, 7]"
    by (simp add: xtime_def numeral_eq_Suc)
  moreover assume "i < 8"
  then have "i \<in> set [0, 1, 2, 3, 4, 5, 6, 7]" by auto
  ultimately show ?thesis unfolding list_all_iff by blast
qed

lemma byte_bits: "a = fold (\<lambda>i acc. if bit a i then acc XOR 2 ^ i else acc) [0..<8] 0" for a :: byte
proof -
  have fold_bits: "bit (fold (\<lambda>i acc. if bit a i then acc XOR 2 ^ i else acc) [0..<n] (0 :: byte)) k
      = (k < n \<and> bit a k)" if "n \<le> 8" "k < 8" for n k
    using that
  proof (induction n)
    case (Suc n)
    then show ?case by (auto simp: bit_simps less_Suc_eq)
  qed simp
  show ?thesis
    by (rule bit_word_eqI) (use fold_bits [of 8] in simp)
qed

lemma gf_mul_poly_mul: "gf_mul a b = poly_mul a b"
proof -
  let ?f = "\<lambda>i acc. if bit a i then acc XOR 2 ^ i else acc :: byte"
  let ?g = "\<lambda>i acc. if bit a i then acc XOR (xtime ^^ i) b else acc"
  have step: "gf_mul (2 ^ i) b = (xtime ^^ i) b" if "i < 8" for i
    using that gf_mul_xtime [of "gpow i" b] dlog_gpow [of i] by (simp add: gpow_small)
  have "gf_mul (fold ?f xs acc) b = fold ?g xs (gf_mul acc b)" if "set xs \<subseteq> {..<8}" for xs acc
    using that
    by (induction xs arbitrary: acc)
      (auto simp: step gf_mul_xor_right gf_mul_commute [of "_ XOR _"] gf_mul_commute [of b])
  from this [of "[0..<8]" 0] have "gf_mul (fold ?f [0..<8] 0) b = fold ?g [0..<8] 0"
    by (simp add: subset_iff)
  then show ?thesis
    using byte_bits [of a] by (simp only: poly_mul_def)
qed

section \<open>Evaluation\<close>

lemma dlogs_nth: "a \<noteq> 0 \<Longrightarrow> dlogs ! unat a = dlog a"
proof -
  assume "a \<noteq> 0"
  then obtain n where n: "n < 255" "a = gpow n" using gpow_surj by blast
  then show ?thesis
    using arg_cong [OF dlogs_antilogs, of "\<lambda>xs. xs ! n"] by (simp add: antilogs_nth dlog_gpow)
qed

lemma antilogs_mod: "antilogs ! (n mod 255) = gpow n"
  by (simp add: antilogs_nth gpow_mod)

lemma gf_mul_code [code]:
  "gf_mul a b = (if a = 0 \<or> b = 0 then 0
     else antilogs ! ((dlogs ! unat a + dlogs ! unat b) mod 255))"
  using dlog_lt [of a] dlog_lt [of b] by (auto simp: gf_mul_def antilogs_mod dlogs_nth EXP_nth)

lemma gf_inv_code [code]:
  "gf_inv a = (if a = 0 then throw ''GF256: inverse of zero''
     else ok (antilogs ! ((255 - dlogs ! unat a) mod 255)))"
  by (auto simp: gf_inv_def antilogs_mod dlogs_nth EXP_nth)

end
