(* ===== verification/Linear.thy ===== *)
theory Linear imports Main begin

text \<open>
  Linear algebra over any field, for square matrices given as functions of a row and a column:
  the elementary row operations of Gauss-Jordan elimination and what they keep, and the
  nonsingularity of Cauchy matrices. Nothing here is about the program yet.
\<close>

section \<open>Cauchy matrices are nonsingular\<close>

text \<open>
  A combination of the functions \<open>1 / (x - y)\<close>, \<open>y \<in> Y\<close>, that vanishes at \<open>card Y\<close> points is
  trivial: eliminate one pole and one root at a time.
\<close>

lemma cauchy_independent:
  fixes v :: "'a::field \<Rightarrow> 'a"
  assumes "finite Y" "finite X" "card Y \<le> card X" "X \<inter> Y = {}"
    and "\<forall>x \<in> X. (\<Sum>y \<in> Y. v y / (x - y)) = 0"
  shows "\<forall>y \<in> Y. v y = 0"
  using assms
proof (induction Y arbitrary: X v rule: finite_induct)
  case empty
  then show ?case by simp
next
  case (insert y0 Y)
  from insert.prems insert.hyps have "X \<noteq> {}" by auto
  then obtain x0 where x0: "x0 \<in> X" by blast
  let ?w = "\<lambda>y. v y * (y - y0) / (x0 - y)"
  have root: "v y0 + (\<Sum>y \<in> Y. v y * (x - y0) / (x - y)) = 0" if "x \<in> X" for x
  proof -
    have "x - y0 \<noteq> 0" using that insert.prems by auto
    moreover have "v y0 / (x - y0) + (\<Sum>y \<in> Y. v y / (x - y)) = 0"
      using insert.prems(4) that insert.hyps by simp
    then have "(x - y0) * (v y0 / (x - y0) + (\<Sum>y \<in> Y. v y / (x - y))) = 0" by simp
    ultimately show ?thesis
      by (simp add: distrib_left sum_distrib_left mult.commute)
  qed
  have "(\<Sum>y \<in> Y. ?w y / (x - y)) = 0" if x: "x \<in> X - {x0}" for x
  proof -
    have nz: "x - y \<noteq> 0" "x0 - y \<noteq> 0" if "y \<in> Y" for y
      using that x x0 insert.prems by auto
    have "(x0 - x) * (?w y / (x - y)) = v y * (x - y0) / (x - y) - v y * (x0 - y0) / (x0 - y)"
      if "y \<in> Y" for y
    proof -
      have "v y * (x - y0) / (x - y) - v y * (x0 - y0) / (x0 - y)
          = (v y * (x - y0) * (x0 - y) - v y * (x0 - y0) * (x - y)) / ((x - y) * (x0 - y))"
        using nz [OF that] by (simp add: diff_frac_eq)
      also have "v y * (x - y0) * (x0 - y) - v y * (x0 - y0) * (x - y) = (x0 - x) * (v y * (y - y0))"
        by (simp add: algebra_simps)
      finally show ?thesis by (simp add: mult.commute)
    qed
    then have "(\<Sum>y \<in> Y. (x0 - x) * (?w y / (x - y)))
        = (\<Sum>y \<in> Y. v y * (x - y0) / (x - y) - v y * (x0 - y0) / (x0 - y))"
      by (intro sum.cong refl)
    then have "(x0 - x) * (\<Sum>y \<in> Y. ?w y / (x - y))
        = (\<Sum>y \<in> Y. v y * (x - y0) / (x - y)) - (\<Sum>y \<in> Y. v y * (x0 - y0) / (x0 - y))"
      by (simp only: sum_distrib_left sum_subtractf)
    also have "\<dots> = 0"
    proof -
      have "(\<Sum>y \<in> Y. v y * (x - y0) / (x - y)) = - v y0" if "x \<in> X" for x
        using root [OF that] by (simp only: add_eq_0_iff)
      from this [of x] this [OF x0] x show ?thesis by simp
    qed
    finally have "(x0 - x) * (\<Sum>y \<in> Y. ?w y / (x - y)) = 0" .
    moreover have "x0 - x \<noteq> 0" using x by auto
    ultimately show ?thesis by (simp only: mult_eq_0_iff simp_thms)
  qed
  then have "\<forall>y \<in> Y. ?w y = 0"
    using insert.prems x0 insert.hyps by (intro insert.IH [of "X - {x0}"]) (auto simp: card_Diff_singleton)
  moreover have "y - y0 \<noteq> 0" "x0 - y \<noteq> 0" if "y \<in> Y" for y
    using that x0 insert.hyps insert.prems by auto
  ultimately have Y0: "\<forall>y \<in> Y. v y = 0" by simp
  then have "v y0 = 0" using root [OF x0] by simp
  with Y0 show ?case by simp
qed

text \<open>The same with poles and points named by indices.\<close>

lemma cauchy_indexed:
  fixes X :: "'i \<Rightarrow> 'a::field"
  assumes fin: "finite J" "finite I" and card: "card J \<le> card I" and disj: "J \<inter> I = {}"
    and inj: "inj_on X (J \<union> I)"
    and zero: "\<And>i. i \<in> I \<Longrightarrow> (\<Sum>j \<in> J. v j / (X i - X j)) = 0"
    and j: "j \<in> J"
  shows "v j = 0"
proof -
  let ?g = "the_inv_into J X"
  have injJ: "inj_on X J" and injI: "inj_on X I" using inj by (auto intro: inj_on_subset)
  have g: "?g (X l) = l" if "l \<in> J" for l using that injJ by (simp add: the_inv_into_f_f)
  have "\<forall>y \<in> X ` J. v (?g y) = 0"
  proof (rule cauchy_independent [of "X ` J" "X ` I"])
    show "card (X ` J) \<le> card (X ` I)" using card injJ injI by (simp add: card_image)
    show "X ` I \<inter> X ` J = {}" using inj disj by (auto simp: inj_on_def)
    show "\<forall>x \<in> X ` I. (\<Sum>y \<in> X ` J. v (?g y) / (x - y)) = 0"
      using zero injJ by (auto simp: sum.reindex g)
  qed (use fin in auto)
  with j g show ?thesis by auto
qed

section \<open>Row operations\<close>

type_synonym 'a mat = "nat \<Rightarrow> nat \<Rightarrow> 'a"

definition mulv :: "nat \<Rightarrow> 'a::field mat \<Rightarrow> (nat \<Rightarrow> 'a) \<Rightarrow> nat \<Rightarrow> 'a" where
  "mulv n M v i = (\<Sum>j < n. M i j * v j)"

definition trivial_kernel :: "nat \<Rightarrow> 'a::field mat \<Rightarrow> bool" where
  "trivial_kernel n M \<longleftrightarrow> (\<forall>v. (\<forall>i < n. mulv n M v i = 0) \<longrightarrow> (\<forall>j < n. v j = 0))"

definition row_swap :: "nat \<Rightarrow> nat \<Rightarrow> 'a mat \<Rightarrow> 'a mat" where
  "row_swap p q M = (\<lambda>i. M (if i = p then q else if i = q then p else i))"

definition row_scale :: "nat \<Rightarrow> 'a::field \<Rightarrow> 'a mat \<Rightarrow> 'a mat" where
  "row_scale p s M = (\<lambda>i j. if i = p then M i j * s else M i j)"

definition row_elim :: "nat \<Rightarrow> (nat \<Rightarrow> 'a::field) \<Rightarrow> 'a mat \<Rightarrow> 'a mat" where
  "row_elim p f M = (\<lambda>i j. if i = p then M i j else M i j + f i * M p j)"

text \<open>\<open>M\<close> is the product of \<open>N\<close> and \<open>A\<close>, and solves no more equations than \<open>A\<close>.\<close>

definition reduces :: "nat \<Rightarrow> 'a::field mat \<Rightarrow> 'a mat \<Rightarrow> 'a mat \<Rightarrow> bool" where
  "reduces n A M N \<longleftrightarrow>
    (\<forall>i < n. \<forall>j < n. M i j = (\<Sum>s < n. N i s * A s j)) \<and>
    (\<forall>v. (\<forall>i < n. mulv n M v i = 0) \<longrightarrow> (\<forall>i < n. mulv n A v i = 0))"

lemma reduces_refl: "reduces n A A (\<lambda>i j. if i = j then 1 else 0)"
  by (auto simp: reduces_def if_distrib [of "\<lambda>x. x * _"] sum.delta cong: if_cong)

lemma mulv_cong: "(\<And>j. j < n \<Longrightarrow> M i j = M' i j) \<Longrightarrow> mulv n M v i = mulv n M' v i"
  by (simp add: mulv_def)

lemma reduces_cong:
  assumes "\<And>i j. i < n \<Longrightarrow> j < n \<Longrightarrow> M' i j = M i j" "\<And>i j. i < n \<Longrightarrow> j < n \<Longrightarrow> N' i j = N i j"
    and "reduces n A M N"
  shows "reduces n A M' N'"
proof -
  have "mulv n M' v i = mulv n M v i" if "i < n" for v i
    using assms(1) that by (intro mulv_cong) auto
  with assms show ?thesis by (simp add: reduces_def)
qed

lemma mulv_row_swap: "mulv n (row_swap p q M) v i = mulv n M v (if i = p then q else if i = q then p else i)"
  by (simp add: mulv_def row_swap_def)

lemma mulv_row_scale: "mulv n (row_scale p s M) v i = (if i = p then s * mulv n M v i else mulv n M v i)"
  by (simp add: mulv_def row_scale_def sum_distrib_left mult_ac)

lemma mulv_row_elim:
  "mulv n (row_elim p f M) v i = (if i = p then mulv n M v i else mulv n M v i + f i * mulv n M v p)"
  by (simp add: mulv_def row_elim_def sum_distrib_left distrib_right sum.distrib mult.assoc)

lemma reduces_swap:
  "p < n \<Longrightarrow> q < n \<Longrightarrow> reduces n A M N \<Longrightarrow> reduces n A (row_swap p q M) (row_swap p q N)"
proof -
  assume pq: "p < n" "q < n" and red: "reduces n A M N"
  let ?t = "\<lambda>i. if i = p then q else if i = q then p else i"
  have tn: "?t i < n" if "i < n" for i using that pq by simp
  have "\<forall>i < n. mulv n M v i = 0" if z: "\<forall>i < n. mulv n (row_swap p q M) v i = 0" for v
  proof (intro allI impI)
    fix i assume "i < n"
    with z tn have "mulv n (row_swap p q M) v (?t i) = 0" by blast
    then show "mulv n M v i = 0" by (auto simp: mulv_row_swap split: if_splits)
  qed
  with red tn show ?thesis by (simp add: reduces_def row_swap_def)
qed

lemma reduces_scale:
  "s \<noteq> 0 \<Longrightarrow> reduces n A M N \<Longrightarrow> reduces n A (row_scale p s M) (row_scale p s N)"
proof -
  assume s: "s \<noteq> 0" and red: "reduces n A M N"
  have "\<forall>i < n. mulv n M v i = 0" if z: "\<forall>i < n. mulv n (row_scale p s M) v i = 0" for v
    using z s by (auto simp: mulv_row_scale split: if_splits)
  moreover have "row_scale p s M i j = (\<Sum>k < n. row_scale p s N i k * A k j)" if "i < n" "j < n" for i j
  proof -
    have "M i j * s = (\<Sum>k < n. N i k * s * A k j)"
      using red that by (simp add: reduces_def sum_distrib_left mult.assoc mult.commute [of _ s] mult.left_commute [of _ s])
    then show ?thesis using red that by (auto simp: reduces_def row_scale_def)
  qed
  ultimately show ?thesis using red by (simp add: reduces_def)
qed

lemma reduces_elim:
  assumes p: "p < n" and red: "reduces n A M N"
  shows "reduces n A (row_elim p f M) (row_elim p f N)"
proof -
  have "\<forall>i < n. mulv n M v i = 0" if z: "\<forall>i < n. mulv n (row_elim p f M) v i = 0" for v
  proof -
    have zp: "mulv n M v p = 0" using z p by (auto simp: mulv_row_elim)
    show ?thesis
    proof (intro allI impI)
      fix i assume "i < n"
      with z zp show "mulv n M v i = 0" by (auto simp: mulv_row_elim split: if_splits)
    qed
  qed
  moreover have "row_elim p f M i j = (\<Sum>s < n. row_elim p f N i s * A s j)" if "i < n" "j < n" for i j
    using red that p
    by (simp add: reduces_def row_elim_def distrib_right sum.distrib sum_distrib_left mult.assoc)
  ultimately show ?thesis using red by (simp add: reduces_def)
qed

text \<open>Columns below \<open>c\<close> are already those of the identity.\<close>

definition unit_cols :: "nat \<Rightarrow> nat \<Rightarrow> 'a::field mat \<Rightarrow> bool" where
  "unit_cols n c M \<longleftrightarrow> (\<forall>j < c. \<forall>i < n. M i j = (if i = j then 1 else 0))"

lemma singular_kernel:
  assumes "c < n" "unit_cols n c M" "\<And>r. c \<le> r \<Longrightarrow> r < n \<Longrightarrow> M r c = 0" "reduces n A M N"
  shows "\<not> trivial_kernel n A"
proof
  assume triv: "trivial_kernel n A"
  let ?v = "\<lambda>j. if j < c then - M j c else if j = c then 1 else 0"
  have "mulv n M ?v i = 0" if i: "i < n" for i
  proof -
    have split: "{..<n} = {..<c} \<union> {c} \<union> {c<..<n}" using assms(1) by auto
    have "mulv n M ?v i = (\<Sum>j < c. M i j * ?v j) + M i c * ?v c + (\<Sum>j \<in> {c<..<n}. M i j * ?v j)"
      unfolding mulv_def split by (subst sum.union_disjoint; auto)+
    also have "(\<Sum>j \<in> {c<..<n}. M i j * ?v j) = 0" by (rule sum.neutral) auto
    also have "(\<Sum>j < c. M i j * ?v j) = (\<Sum>j < c. if i = j then - M j c else 0)"
      using assms(2) i by (intro sum.cong) (auto simp: unit_cols_def)
    also have "\<dots> = (if i < c then - M i c else 0)" by (simp add: sum.delta')
    finally show ?thesis using assms(3) [of i] i by auto
  qed
  then have "\<forall>i < n. mulv n A ?v i = 0" using assms(4) by (auto simp: reduces_def)
  with triv have "\<forall>j < n. ?v j = 0" unfolding trivial_kernel_def by (elim allE [of _ ?v]) simp
  with assms(1) show False by (auto dest: spec [of _ c])
qed

text \<open>A matrix whose inverse is on the left undoes a product with a vector.\<close>

definition left_inverse :: "nat \<Rightarrow> 'a::field mat \<Rightarrow> 'a mat \<Rightarrow> bool" where
  "left_inverse n N A \<longleftrightarrow>
    (\<forall>i < n. \<forall>j < n. (\<Sum>s < n. N i s * A s j) = (if i = j then 1 else 0))"

lemma left_inverse_mulv:
  assumes "left_inverse n N A" and "i < n"
  shows "(\<Sum>s < n. N i s * mulv n A d s) = d i"
proof -
  have "(\<Sum>s < n. N i s * mulv n A d s) = (\<Sum>s < n. \<Sum>j < n. N i s * A s j * d j)"
    by (simp add: mulv_def sum_distrib_left mult.assoc)
  also have "\<dots> = (\<Sum>j < n. (\<Sum>s < n. N i s * A s j) * d j)"
    by (subst sum.swap) (simp add: sum_distrib_right)
  also have "\<dots> = (\<Sum>j < n. if i = j then d j else 0)"
    using assms by (intro sum.cong) (auto simp: left_inverse_def)
  finally show ?thesis using assms(2) by (simp add: sum.delta)
qed

end
