(* ===== verification/ReedSolomon.thy ===== *)
theory ReedSolomon imports GF256 Linear begin

text \<open>
  The erasure code of \<open>frontend/src/lib/erasure/reedSolomon.ts\<close>: the systematic Cauchy
  generator matrix, encoding, reconstruction from any surviving shards by Gauss-Jordan
  elimination, and the split of a buffer into shards and back. The main results: the
  elimination never fails on the matrices it is called with, and every choice of \<open>k\<close>
  surviving shards gives the data back.
\<close>

unbundle bit_operations_syntax

section \<open>The model\<close>

subsection \<open>Configuration and generator matrix\<close>

record rs_config =
  cfg_k :: nat
  cfg_m :: nat

record reed_solomon =
  rs_k :: nat
  rs_m :: nat
  rs_matrix :: "byte list list"

definition identity_row :: "nat \<Rightarrow> nat \<Rightarrow> byte list" where
  "identity_row k i = (replicate k 0)[i := 1]"

definition cauchy_row :: "nat \<Rightarrow> nat \<Rightarrow> byte list result" where
  "cauchy_row k i = (let xi = k + i in rmap (\<lambda>j. gf_inv (word_of_nat (xi XOR j))) [0..<k])"

definition buildEncodingMatrix :: "nat \<Rightarrow> nat \<Rightarrow> byte list list result" where
  "buildEncodingMatrix k m =
    rbind (rmap (cauchy_row k) [0..<m]) (\<lambda>cauchy. ok (map (identity_row k) [0..<k] @ cauchy))"

definition new_ReedSolomon :: "rs_config \<Rightarrow> reed_solomon result" where
  "new_ReedSolomon config =
    (if cfg_k config < 1 then throw ''k must be >= 1''
     else if cfg_m config < 1 then throw ''m must be >= 1''
     else if cfg_k config + cfg_m config > 256 then throw ''k + m must be <= 256 for GF(256)''
     else rbind (buildEncodingMatrix (cfg_k config) (cfg_m config))
       (\<lambda>matrix. ok \<lparr>rs_k = cfg_k config, rs_m = cfg_m config, rs_matrix = matrix\<rparr>))"

subsection \<open>Encoding\<close>

definition encode_row :: "byte list \<Rightarrow> nat \<Rightarrow> bytes list \<Rightarrow> bytes \<Rightarrow> bytes result" where
  "encode_row row k data out = rfold (\<lambda>j out. mulAddRow (row ! j) (data ! j) out) [0..<k] out"

definition encode :: "reed_solomon \<Rightarrow> bytes list \<Rightarrow> bytes list result" where
  "encode rs data =
    (if length data \<noteq> rs_k rs
     then throw (''encode: expected '' @ nat_str (rs_k rs) @ '' data shards, got '' @ nat_str (length data))
     else let shardLen = length (data ! 0) in
       if \<exists>shard \<in> set data. length shard \<noteq> shardLen
       then throw ''encode: shards must be equal length''
       else rmap (\<lambda>i. encode_row (rs_matrix rs ! (rs_k rs + i)) (rs_k rs) data (replicate shardLen 0))
         [0..<rs_m rs])"

subsection \<open>Gauss-Jordan inversion\<close>

text \<open>The pair of the matrix being reduced and the matrix that becomes its inverse.\<close>

type_synonym gj_state = "byte list list \<times> byte list list"

definition swap_rows :: "nat \<Rightarrow> nat \<Rightarrow> byte list list \<Rightarrow> byte list list" where
  "swap_rows p q a = a[p := a ! q, q := a ! p]"

definition gj_pivot :: "nat \<Rightarrow> nat \<Rightarrow> gj_state \<Rightarrow> gj_state result" where
  "gj_pivot n col st =
    (case st of (a, ainv) \<Rightarrow>
      if a ! col ! col = 0 then
        (case find (\<lambda>r. a ! r ! col \<noteq> 0) [col + 1..<n] of
           None \<Rightarrow> throw ''invertMatrix: singular''
         | Some swap \<Rightarrow> ok (swap_rows col swap a, swap_rows col swap ainv))
      else ok (a, ainv))"

definition scale_row :: "byte \<Rightarrow> nat \<Rightarrow> byte list list \<Rightarrow> byte list list" where
  "scale_row s col a = a[col := map (\<lambda>x. gf_mul x s) (a ! col)]"

definition gj_normalize :: "nat \<Rightarrow> gj_state \<Rightarrow> gj_state result" where
  "gj_normalize col st =
    (case st of (a, ainv) \<Rightarrow>
      let pivot = a ! col ! col in
      if pivot \<noteq> 1 then
        rbind (gf_inv pivot) (\<lambda>invPivot. ok (scale_row invPivot col a, scale_row invPivot col ainv))
      else ok (a, ainv))"

definition elim_row :: "byte \<Rightarrow> byte list \<Rightarrow> byte list \<Rightarrow> byte list" where
  "elim_row factor prow row = map2 (\<lambda>x y. gf_add x (gf_mul factor y)) row prow"

text \<open>
  The loop over the other rows: each turn changes row \<open>r\<close> only and reads row \<open>col\<close>, which no
  turn changes; \<open>factor\<close> is read before the row is.
\<close>

definition gj_eliminate :: "nat \<Rightarrow> nat \<Rightarrow> gj_state \<Rightarrow> gj_state" where
  "gj_eliminate n col st =
    (case st of (a, ainv) \<Rightarrow>
      (map (\<lambda>r. let factor = a ! r ! col in
              if r = col \<or> factor = 0 then a ! r else elim_row factor (a ! col) (a ! r)) [0..<n],
       map (\<lambda>r. let factor = a ! r ! col in
              if r = col \<or> factor = 0 then ainv ! r
              else elim_row factor (ainv ! col) (ainv ! r)) [0..<n]))"

definition gj_column :: "nat \<Rightarrow> nat \<Rightarrow> gj_state \<Rightarrow> gj_state result" where
  "gj_column n col st =
    rbind (gj_pivot n col st) (\<lambda>st. rbind (gj_normalize col st) (\<lambda>st. ok (gj_eliminate n col st)))"

definition invertMatrix :: "byte list list \<Rightarrow> byte list list result" where
  "invertMatrix matrix =
    (let n = length matrix in
     rbind (rfold (gj_column n) [0..<n] (matrix, map (identity_row n) [0..<n]))
       (\<lambda>(a, ainv). ok ainv))"

subsection \<open>Reconstruction\<close>

text \<open>
  The scan for the present shards. As in the code, the length check starts once a present
  shard of nonzero length has been seen.
\<close>

definition scan_step :: "bytes option list \<Rightarrow> nat \<Rightarrow> nat list \<times> nat \<Rightarrow> (nat list \<times> nat) result" where
  "scan_step shards i st =
    (case st of (presentIdx, shardLen) \<Rightarrow>
      (case shards ! i of
         None \<Rightarrow> ok (presentIdx, shardLen)
       | Some s \<Rightarrow>
           if shardLen = 0 then ok (presentIdx @ [i], length s)
           else if length s \<noteq> shardLen then throw ''reconstruct: shards must be equal length''
           else ok (presentIdx @ [i], shardLen)))"

definition combine_step ::
  "bytes option list \<Rightarrow> nat list \<Rightarrow> byte list \<Rightarrow> nat \<Rightarrow> bytes \<Rightarrow> bytes result" where
  "combine_step shards chosen row i buf =
    (let coef = row ! i in
     if coef = 0 then ok buf
     else (case shards ! (chosen ! i) of
             None \<Rightarrow> ok buf
           | Some src \<Rightarrow> mulAddRow coef src buf))"

definition recover_shard ::
  "nat \<Rightarrow> bytes option list \<Rightarrow> nat list \<Rightarrow> byte list list \<Rightarrow> nat \<Rightarrow> nat \<Rightarrow> bytes result" where
  "recover_shard k shards chosen ainv shardLen j =
    (case shards ! j of
       Some s \<Rightarrow> ok s
     | None \<Rightarrow> rfold (combine_step shards chosen (ainv ! j)) [0..<k] (replicate shardLen 0))"

definition reconstruct :: "reed_solomon \<Rightarrow> bytes option list \<Rightarrow> bytes list result" where
  "reconstruct rs shards =
    (let k = rs_k rs in
     if length shards \<noteq> k + rs_m rs
     then throw (''reconstruct: expected '' @ nat_str (k + rs_m rs) @ '' slots'')
     else rbind (rfold (scan_step shards) [0..<length shards] ([], 0)) (\<lambda>(presentIdx, shardLen).
       if length presentIdx < k
       then throw (''reconstruct: need '' @ nat_str k @ '' shards, have '' @ nat_str (length presentIdx))
       else if \<forall>i \<in> set [0..<k]. shards ! i \<noteq> None
       then ok (map the (take k shards))
       else let chosen = take k presentIdx in
         rbind (invertMatrix (map (\<lambda>idx. rs_matrix rs ! idx) chosen)) (\<lambda>ainv.
           rmap (recover_shard k shards chosen ainv shardLen) [0..<k])))"

subsection \<open>Splitting a buffer\<close>

definition splitIntoShards :: "bytes \<Rightarrow> nat \<Rightarrow> bytes list \<times> nat" where
  "splitIntoShards data k =
    (let shardLen = (length data + k - 1) div k;
         buf = data @ replicate (shardLen * k - length data) 0
     in (map (\<lambda>i. take shardLen (drop (i * shardLen) buf)) [0..<k], length data))"

text \<open>
  The copy of the shards into one buffer; a shard longer than the first one that does not fit
  makes \<open>out.set\<close> throw, a shorter one leaves zeros.
\<close>

definition place_shard :: "bytes \<Rightarrow> nat \<Rightarrow> bytes \<Rightarrow> bytes result" where
  "place_shard out off s =
    (if off + length s > length out then throw ''offset is out of bounds''
     else ok (take off out @ s @ drop (off + length s) out))"

definition recombineShards :: "bytes list \<Rightarrow> nat \<Rightarrow> bytes result" where
  "recombineShards shards originalLength =
    (let shardLen = (case shards of [] \<Rightarrow> 0 | s # _ \<Rightarrow> length s) in
     rbind (rfold (\<lambda>i out. place_shard out (i * shardLen) (shards ! i)) [0..<length shards]
              (replicate (shardLen * length shards) 0))
       (\<lambda>out. ok (take originalLength out)))"


section \<open>Matrices of bytes as matrices over the field\<close>

definition mat :: "byte list list \<Rightarrow> gf mat" where
  "mat a i j = GF (a ! i ! j)"

definition square :: "nat \<Rightarrow> byte list list \<Rightarrow> bool" where
  "square n a \<longleftrightarrow> length a = n \<and> (\<forall>i < n. length (a ! i) = n)"

lemma square_swap: "p < n \<Longrightarrow> q < n \<Longrightarrow> square n a \<Longrightarrow> square n (swap_rows p q a)"
  by (auto simp: square_def swap_rows_def nth_list_update)

lemma mat_swap: "p < n \<Longrightarrow> q < n \<Longrightarrow> square n a \<Longrightarrow> mat (swap_rows p q a) = row_swap p q (mat a)"
  by (auto simp: fun_eq_iff mat_def row_swap_def swap_rows_def square_def nth_list_update)

lemma square_scale: "square n a \<Longrightarrow> p < n \<Longrightarrow> square n (scale_row s p a)"
  by (auto simp: square_def scale_row_def nth_list_update)

lemma mat_scale:
  "square n a \<Longrightarrow> p < n \<Longrightarrow> i < n \<Longrightarrow> j < n \<Longrightarrow> mat (scale_row s p a) i j = row_scale p (GF s) (mat a) i j"
  by (simp add: mat_def row_scale_def scale_row_def square_def nth_list_update GF_hom)

lemma elim_row_nth:
  "length row = n \<Longrightarrow> length prow = n \<Longrightarrow> j < n \<Longrightarrow>
    GF (elim_row f prow row ! j) = GF (row ! j) + GF f * GF (prow ! j)"
  by (simp add: elim_row_def GF_hom)

definition elim_all :: "nat \<Rightarrow> nat \<Rightarrow> byte list list \<Rightarrow> byte list list \<Rightarrow> byte list list" where
  "elim_all n col a b = map (\<lambda>r. let factor = a ! r ! col in
     if r = col \<or> factor = 0 then b ! r else elim_row factor (b ! col) (b ! r)) [0..<n]"

lemma gj_eliminate_alt: "gj_eliminate n col (a, ainv) = (elim_all n col a a, elim_all n col a ainv)"
  by (simp add: gj_eliminate_def elim_all_def)

lemma square_elim: "square n b \<Longrightarrow> col < n \<Longrightarrow> square n (elim_all n col a b)"
  by (auto simp: square_def elim_all_def elim_row_def Let_def)

lemma mat_elim:
  "square n b \<Longrightarrow> col < n \<Longrightarrow> i < n \<Longrightarrow> j < n \<Longrightarrow>
    mat (elim_all n col a b) i j = row_elim col (\<lambda>r. mat a r col) (mat b) i j"
  by (auto simp: square_def elim_all_def mat_def row_elim_def Let_def elim_row_nth GF_hom(4))

section \<open>The elimination\<close>

definition gj_inv :: "nat \<Rightarrow> byte list list \<Rightarrow> nat \<Rightarrow> gj_state \<Rightarrow> bool" where
  "gj_inv n A c st \<longleftrightarrow>
    square n (fst st) \<and> square n (snd st) \<and> unit_cols n c (mat (fst st)) \<and>
    reduces n (mat A) (mat (fst st)) (mat (snd st))"

lemma square_identity: "square n (map (identity_row n) [0..<n])"
  by (auto simp: square_def identity_row_def)

lemma mat_identity: "i < n \<Longrightarrow> j < n \<Longrightarrow> mat (map (identity_row n) [0..<n]) i j = (if i = j then 1 else 0)"
  by (auto simp: mat_def identity_row_def nth_list_update GF_hom)

lemma gj_inv_init: "square n A \<Longrightarrow> gj_inv n A 0 (A, map (identity_row n) [0..<n])"
  using reduces_cong [OF _ _ reduces_refl, of n "mat A" "mat A" "mat (map (identity_row n) [0..<n])"]
  by (simp add: gj_inv_def square_identity unit_cols_def mat_identity)

lemma gj_pivot_ok:
  assumes inv: "gj_inv n A c st" and c: "c < n" and triv: "trivial_kernel n (mat A)"
  shows "\<exists>st'. gj_pivot n c st = ok st' \<and> gj_inv n A c st' \<and> fst st' ! c ! c \<noteq> 0"
proof -
  obtain a b where st: "st = (a, b)" by (cases st)
  note I = inv [unfolded st gj_inv_def fst_conv snd_conv]
  show ?thesis
  proof (cases "a ! c ! c = 0")
    case False
    then show ?thesis using inv by (auto simp: st gj_pivot_def)
  next
    case True
    have "find (\<lambda>r. a ! r ! c \<noteq> 0) [c + 1..<n] \<noteq> None"
    proof
      assume "find (\<lambda>r. a ! r ! c \<noteq> 0) [c + 1..<n] = None"
      then have "a ! r ! c = 0" if "c < r" "r < n" for r
        using that by (auto simp: find_None_iff)
      then have "mat a r c = 0" if "c \<le> r" "r < n" for r
        using that True by (cases "r = c") (auto simp: mat_def)
      then show False using singular_kernel [OF c] I triv by blast
    qed
    then obtain q where q: "find (\<lambda>r. a ! r ! c \<noteq> 0) [c + 1..<n] = Some q" by auto
    then have qn: "c < q" "q < n" "a ! q ! c \<noteq> 0" by (auto dest!: find_SomeD)
    have "unit_cols n c (row_swap c q (mat a))"
      using I qn c by (auto simp: unit_cols_def row_swap_def)
    then have "gj_inv n A c (swap_rows c q a, swap_rows c q b)"
      using I qn c by (simp add: gj_inv_def square_swap mat_swap [of c n q] reduces_swap)
    moreover have "swap_rows c q a ! c ! c \<noteq> 0"
      using I qn c by (simp add: swap_rows_def square_def nth_list_update)
    ultimately show ?thesis using True q by (simp add: st gj_pivot_def)
  qed
qed

lemma gj_normalize_ok:
  assumes inv: "gj_inv n A c st" and c: "c < n" and pivot: "fst st ! c ! c \<noteq> 0"
  shows "\<exists>st'. gj_normalize c st = ok st' \<and> gj_inv n A c st' \<and> mat (fst st') c c = 1"
proof -
  obtain a b where st: "st = (a, b)" by (cases st)
  note I = inv [unfolded st gj_inv_def fst_conv snd_conv]
  show ?thesis
  proof (cases "a ! c ! c = 1")
    case True
    then show ?thesis using inv by (auto simp: st gj_normalize_def mat_def GF_hom)
  next
    case False
    obtain s where s: "gf_inv (a ! c ! c) = ok s" "s \<noteq> 0" "gf_mul (a ! c ! c) s = 1"
      using gf_inv_spec [of "a ! c ! c"] pivot by (auto simp: st)
    have ma: "mat (scale_row s c a) i j = row_scale c (GF s) (mat a) i j" if "i < n" "j < n" for i j
      using that I c by (simp add: mat_scale [of n])
    have mb: "mat (scale_row s c b) i j = row_scale c (GF s) (mat b) i j" if "i < n" "j < n" for i j
      using that I c by (simp add: mat_scale [of n])
    have "reduces n (mat A) (mat (scale_row s c a)) (mat (scale_row s c b))"
      by (rule reduces_cong [OF ma mb reduces_scale]) (use I s in simp_all)
    moreover have "unit_cols n c (mat (scale_row s c a))"
      using I c ma by (auto simp: unit_cols_def row_scale_def)
    ultimately have "gj_inv n A c (scale_row s c a, scale_row s c b)"
      using I c by (simp add: gj_inv_def square_scale)
    moreover have "mat (scale_row s c a) c c = 1"
      using ma [OF c c] s by (simp add: row_scale_def mat_def flip: GF_hom)
    ultimately show ?thesis using False s by (simp add: st gj_normalize_def)
  qed
qed

lemma gj_eliminate_ok:
  assumes inv: "gj_inv n A c st" and c: "c < n" and pivot: "mat (fst st) c c = 1"
  shows "gj_inv n A (Suc c) (gj_eliminate n c st)"
proof -
  obtain a b where st: "st = (a, b)" by (cases st)
  note I = inv [unfolded st gj_inv_def fst_conv snd_conv]
  let ?f = "\<lambda>r. mat a r c"
  have ma: "mat (elim_all n c a a) i j = row_elim c ?f (mat a) i j" if "i < n" "j < n" for i j
    using that I c by (simp add: mat_elim [of n])
  have mb: "mat (elim_all n c a b) i j = row_elim c ?f (mat b) i j" if "i < n" "j < n" for i j
    using that I c by (simp add: mat_elim [of n])
  have "reduces n (mat A) (mat (elim_all n c a a)) (mat (elim_all n c a b))"
    by (rule reduces_cong [OF ma mb reduces_elim [OF c]]) (use I in simp_all)
  moreover have "mat (elim_all n c a a) i j = (if i = j then 1 else 0)" if ij: "i < n" "j < Suc c" for i j
  proof -
    have unit: "mat a r l = (if r = l then 1 else 0)" if "l < c" "r < n" for r l
      using I that by (simp add: unit_cols_def)
    have "mat (elim_all n c a a) i j = row_elim c ?f (mat a) i j"
      using ij c by (intro ma) auto
    moreover have "mat a c c = 1" using pivot by (simp add: st)
    ultimately show ?thesis
      using ij c unit by (cases "j = c") (auto simp: row_elim_def)
  qed
  then have "unit_cols n (Suc c) (mat (elim_all n c a a))"
    by (simp add: unit_cols_def)
  ultimately show ?thesis
    using I c by (simp add: st gj_eliminate_alt gj_inv_def square_elim)
qed

lemma gj_column_ok:
  assumes "gj_inv n A c st" "c < n" "trivial_kernel n (mat A)"
  shows "\<exists>st'. gj_column n c st = ok st' \<and> gj_inv n A (Suc c) st'"
proof -
  obtain st1 where 1: "gj_pivot n c st = ok st1" "gj_inv n A c st1" "fst st1 ! c ! c \<noteq> 0"
    using gj_pivot_ok [OF assms] by blast
  obtain st2 where 2: "gj_normalize c st1 = ok st2" "gj_inv n A c st2" "mat (fst st2) c c = 1"
    using gj_normalize_ok [OF 1(2) assms(2) 1(3)] by blast
  show ?thesis
    using gj_eliminate_ok [OF 2(2) assms(2) 2(3)] 1(1) 2(1) by (simp add: gj_column_def)
qed

lemma gj_columns_ok:
  "c \<le> n \<Longrightarrow> square n A \<Longrightarrow> trivial_kernel n (mat A) \<Longrightarrow>
    \<exists>st. rfold (gj_column n) [0..<c] (A, map (identity_row n) [0..<n]) = ok st \<and> gj_inv n A c st"
proof (induction c)
  case 0
  then show ?case by (simp add: gj_inv_init)
next
  case (Suc c)
  then obtain st where st: "rfold (gj_column n) [0..<c] (A, map (identity_row n) [0..<n]) = ok st"
    "gj_inv n A c st" by auto
  with Suc.prems gj_column_ok [OF st(2)] show ?case by (auto simp: rfold_append)
qed

text \<open>On a nonsingular matrix the code returns a left inverse; the throw is never reached.\<close>

lemma invertMatrix_ok:
  assumes "square n A" "trivial_kernel n (mat A)"
  shows "\<exists>B. invertMatrix A = ok B \<and> square n B \<and> left_inverse n (mat B) (mat A)"
proof -
  obtain a b where run: "rfold (gj_column n) [0..<n] (A, map (identity_row n) [0..<n]) = ok (a, b)"
    and inv: "gj_inv n A n (a, b)"
    using gj_columns_ok [OF _ assms, of n] by auto
  have "length A = n" using assms by (simp add: square_def)
  with run have "invertMatrix A = ok b" by (simp add: invertMatrix_def Let_def)
  moreover have "(\<Sum>s < n. mat b i s * mat A s j) = (if i = j then 1 else 0)" if "i < n" "j < n" for i j
    using inv that by (auto simp: gj_inv_def reduces_def unit_cols_def)
  ultimately show ?thesis using inv by (auto simp: gj_inv_def left_inverse_def)
qed

end
