(* ===== verification/ErasureCode.thy ===== *)
theory ErasureCode imports ReedSolomon begin

text \<open>
  Correctness of the Reed-Solomon coder of \<open>reedSolomon.ts\<close>: what the constructor builds, that
  encoding is total, that any \<open>k\<close> surviving shards reconstruct the data, what too few shards
  give, and the interface of an erasure code the drive is a client of.
\<close>

unbundle bit_operations_syntax

section \<open>The generator matrix\<close>

text \<open>The field element that names row or column \<open>i\<close> of the Cauchy matrix.\<close>

definition node :: "nat \<Rightarrow> gf" where
  "node i = GF (word_of_nat i)"

lemma node_xor: "GF (word_of_nat (i XOR j)) = node i - node j"
proof -
  have "(word_of_nat (i XOR j) :: byte) = word_of_nat i XOR word_of_nat j"
    by (rule bit_word_eqI) (simp add: bit_simps)
  then show ?thesis by (simp add: node_def GF_hom)
qed

lemma node_inj: "i < 256 \<Longrightarrow> j < 256 \<Longrightarrow> node i = node j \<Longrightarrow> i = j"
proof -
  assume lt: "i < 256" "j < 256" and "node i = node j"
  then have "unat (word_of_nat i :: byte) = unat (word_of_nat j :: byte)"
    by (simp add: node_def)
  with lt show ?thesis by (simp add: unat_of_nat)
qed

definition gen_row :: "nat \<Rightarrow> nat \<Rightarrow> byte list" where
  "gen_row k i = (if i < k then identity_row k i
     else map (\<lambda>j. gbyte (inverse (node i - node j))) [0..<k])"

lemma length_gen_row [simp]: "length (gen_row k i) = k"
  by (simp add: gen_row_def identity_row_def)

lemma gen_row_nth:
  "j < k \<Longrightarrow> GF (gen_row k i ! j) = (if i < k then (if i = j then 1 else 0) else 1 / (node i - node j))"
  by (simp add: gen_row_def identity_row_def nth_list_update GF_hom divide_inverse)

lemma cauchy_row_ok: "k + i < 256 \<Longrightarrow> cauchy_row k i = ok (gen_row k (k + i))"
proof -
  assume lt: "k + i < 256"
  have "gf_inv (word_of_nat ((k + i) XOR j)) = ok (gbyte (inverse (node (k + i) - node j)))"
    if j: "j < k" for j
  proof -
    have "node (k + i) - node j \<noteq> 0"
      using node_inj [of "k + i" j] lt j by auto
    then have "(word_of_nat ((k + i) XOR j) :: byte) \<noteq> 0"
      using node_xor [of "k + i" j] by (auto simp: GF_hom)
    then show ?thesis by (simp add: gf_inv_ok node_xor)
  qed
  then have "rmap (\<lambda>j. gf_inv (word_of_nat ((k + i) XOR j))) [0..<k]
      = ok (map (\<lambda>j. gbyte (inverse (node (k + i) - node j))) [0..<k])"
    by (intro rmap_ok) simp
  then show ?thesis
    by (simp add: cauchy_row_def gen_row_def)
qed

lemma buildEncodingMatrix_ok:
  "k + m \<le> 256 \<Longrightarrow> buildEncodingMatrix k m = ok (map (gen_row k) [0..<k + m])"
proof -
  assume km: "k + m \<le> 256"
  have rows: "rmap (cauchy_row k) [0..<m] = ok (map (\<lambda>i. gen_row k (k + i)) [0..<m])"
    using km by (intro rmap_ok) (simp add: cauchy_row_ok)
  have "map (identity_row k) [0..<k] @ map (\<lambda>i. gen_row k (k + i)) [0..<m] = map (gen_row k) [0..<k + m]"
    by (intro list_eq_nthI) (auto simp: nth_append gen_row_def)
  with rows show ?thesis by (simp add: buildEncodingMatrix_def)
qed

definition valid_config :: "rs_config \<Rightarrow> bool" where
  "valid_config c \<longleftrightarrow> 1 \<le> cfg_k c \<and> 1 \<le> cfg_m c \<and> cfg_k c + cfg_m c \<le> 256"

lemma new_ReedSolomon_ok_iff:
  "new_ReedSolomon c = ok rs \<longleftrightarrow>
    valid_config c \<and>
    rs = \<lparr>rs_k = cfg_k c, rs_m = cfg_m c, rs_matrix = map (gen_row (cfg_k c)) [0..<cfg_k c + cfg_m c]\<rparr>"
  by (auto simp: new_ReedSolomon_def valid_config_def buildEncodingMatrix_ok split: if_splits)

section \<open>Encoding\<close>

lemma rfold_mulAddRow:
  assumes "\<And>j buf. j < n \<Longrightarrow> length buf = L \<Longrightarrow> f j buf = mulAddRow (c j) (src j) buf"
    and "\<And>j. j < n \<Longrightarrow> length (src j) = L" and "length out = L"
  shows "rfold f [0..<n] out
    = ok (map (\<lambda>p. gbyte (GF (out ! p) + (\<Sum>j < n. GF (c j) * GF (src j ! p)))) [0..<L])"
  using assms
proof (induction n)
  case 0
  then show ?case by (auto intro: list_eq_nthI)
next
  case (Suc n)
  let ?acc = "map (\<lambda>p. gbyte (GF (out ! p) + (\<Sum>j < n. GF (c j) * GF (src j ! p)))) [0..<L]"
  have "rfold f [0..<Suc n] out = f n ?acc"
    using Suc by (simp add: rfold_append rbind_def split: sum.splits)
  also have "\<dots> = mulAddRow (c n) (src n) ?acc" using Suc.prems by simp
  also have "\<dots> = ok (map2 (\<lambda>s d. gf_add d (gf_mul (c n) s)) (src n) ?acc)"
    using Suc.prems by (simp add: mulAddRow_ok)
  also have "map2 (\<lambda>s d. gf_add d (gf_mul (c n) s)) (src n) ?acc
      = map (\<lambda>p. gbyte (GF (out ! p) + (\<Sum>j < Suc n. GF (c j) * GF (src j ! p)))) [0..<L]"
    using Suc.prems
    by (intro list_eq_nthI) (auto simp: plus_gf_def times_gf_def gf_add_def xor.assoc)
  finally show ?case .
qed

text \<open>Byte \<open>p\<close> of shard \<open>i\<close> of the codeword of \<open>data\<close>.\<close>

definition code_byte :: "nat \<Rightarrow> bytes list \<Rightarrow> nat \<Rightarrow> nat \<Rightarrow> gf" where
  "code_byte k data i p = mulv k (\<lambda>i j. GF (gen_row k i ! j)) (\<lambda>j. GF (data ! j ! p)) i"

definition equal_shards :: "nat \<Rightarrow> nat \<Rightarrow> bytes list \<Rightarrow> bool" where
  "equal_shards k L data \<longleftrightarrow> length data = k \<and> (\<forall>s \<in> set data. length s = L)"

lemma code_byte_data: "i < k \<Longrightarrow> code_byte k data i p = GF (data ! i ! p)"
  by (simp add: code_byte_def mulv_def gen_row_nth if_distrib [of "\<lambda>x. x * _"] sum.delta cong: if_cong)

lemma encode_ok:
  assumes rs: "new_ReedSolomon \<lparr>cfg_k = k, cfg_m = m\<rparr> = ok rs" and data: "equal_shards k L data"
  shows "encode rs data = ok (map (\<lambda>i. map (\<lambda>p. gbyte (code_byte k data (k + i) p)) [0..<L]) [0..<m])"
proof -
  have k: "1 \<le> k" and rs_eq: "rs = \<lparr>rs_k = k, rs_m = m, rs_matrix = map (gen_row k) [0..<k + m]\<rparr>"
    using rs by (simp_all add: new_ReedSolomon_ok_iff valid_config_def)
  have len: "length (data ! j) = L" if "j < k" for j
    using data that by (simp add: equal_shards_def)
  then have L0: "length (data ! 0) = L" using k by simp
  have row: "encode_row (rs_matrix rs ! (k + i)) k data (replicate L 0)
      = ok (map (\<lambda>p. gbyte (code_byte k data (k + i) p)) [0..<L])" if "i < m" for i
    using that len
    by (simp add: encode_row_def rfold_mulAddRow [where L = L] rs_eq code_byte_def mulv_def GF_hom(4))
  then have "rmap (\<lambda>i. encode_row (rs_matrix rs ! (k + i)) k data (replicate L 0)) [0..<m]
      = ok (map (\<lambda>i. map (\<lambda>p. gbyte (code_byte k data (k + i) p)) [0..<L]) [0..<m])"
    by (intro rmap_ok) simp
  then show ?thesis
    using data L0 by (auto simp: encode_def rs_eq equal_shards_def Let_def)
qed

lemma codeword_nth:
  assumes "equal_shards k L data" "i < k + m" "p < L"
    and par: "parity = map (\<lambda>i. map (\<lambda>p. gbyte (code_byte k data (k + i) p)) [0..<L]) [0..<m]"
  shows "length ((data @ parity) ! i) = L" "GF ((data @ parity) ! i ! p) = code_byte k data i p"
  using assms by (auto simp: equal_shards_def nth_append code_byte_data)

section \<open>Any choice of rows is nonsingular\<close>

lemma chosen_rows_independent:
  assumes k: "k + m \<le> 256" and ch: "distinct chosen" "length chosen = k" "\<forall>i \<in> set chosen. i < k + m"
  shows "trivial_kernel k (mat (map (gen_row k) chosen))"
  unfolding trivial_kernel_def
proof (intro allI impI)
  fix v j assume z: "\<forall>i < k. mulv k (mat (map (gen_row k) chosen)) v i = 0" and j: "j < k"
  have rowz: "(\<Sum>l < k. GF (gen_row k i ! l) * v l) = 0" if "i \<in> set chosen" for i
  proof -
    from that obtain r where "r < k" "chosen ! r = i" using ch by (auto simp: in_set_conv_nth)
    with z ch show ?thesis by (auto simp: mulv_def mat_def dest!: spec [of _ r])
  qed
  have known: "v i = 0" if "i \<in> set chosen" "i < k" for i
    using rowz [OF that(1)] that(2)
    by (simp add: gen_row_nth if_distrib [of "\<lambda>x. x * _"] sum.delta cong: if_cong)
  let ?J = "{l. l < k \<and> l \<notin> set chosen}" and ?I = "{i \<in> set chosen. k \<le> i}"
  show "v j = 0"
  proof (cases "j \<in> set chosen")
    case True
    with j known show ?thesis by simp
  next
    case False
    let ?K = "{..<k} \<inter> set chosen"
    have "card (?K \<union> ?J) = card ?K + card ?J" "card (?K \<union> ?I) = card ?K + card ?I"
      by (rule card_Un_disjoint; auto)+
    moreover have "?K \<union> ?J = {..<k}" "?K \<union> ?I = set chosen" by auto
    ultimately have card: "card ?J \<le> card ?I"
      using ch distinct_card [of chosen] by simp
    have "inj_on node {..<256}"
      by (auto intro!: inj_onI node_inj)
    then have inj: "inj_on node (?J \<union> ?I)"
      using k ch by (elim inj_on_subset) auto
    have zero: "(\<Sum>l \<in> ?J. v l / (node i - node l)) = 0" if i: "i \<in> ?I" for i
    proof -
      have "(\<Sum>l \<in> ?J. v l / (node i - node l)) = (\<Sum>l < k. GF (gen_row k i ! l) * v l)"
        using i known by (intro sum.mono_neutral_cong_left) (auto simp: gen_row_nth)
      with i rowz show ?thesis by simp
    qed
    show ?thesis
      using cauchy_indexed [OF _ _ card _ inj zero, of j] False j by auto
  qed
qed

section \<open>Reconstruction\<close>

definition present :: "'a option list \<Rightarrow> nat list" where
  "present shards = filter (\<lambda>i. shards ! i \<noteq> None) [0..<length shards]"

lemma scan_step_simps:
  "shards ! i = None \<Longrightarrow> scan_step shards i st = ok st"
  "shards ! i = Some s \<Longrightarrow> scan_step shards i (p, 0) = ok (p @ [i], length s)"
  "shards ! i = Some s \<Longrightarrow> scan_step shards i (p, length s) = ok (p @ [i], length s)"
  by (simp_all add: scan_step_def split: prod.splits)

lemma scan_ok:
  assumes "\<And>i s. i < n \<Longrightarrow> shards ! i = Some s \<Longrightarrow> length s = L"
  shows "rfold (scan_step shards) [0..<n] ([], 0)
    = ok (filter (\<lambda>i. shards ! i \<noteq> None) [0..<n], if \<exists>i < n. shards ! i \<noteq> None then L else 0)"
  using assms
proof (induction n)
  case (Suc n)
  have IH: "rfold (scan_step shards) [0..<n] ([], 0)
      = ok (filter (\<lambda>i. shards ! i \<noteq> None) [0..<n], if \<exists>i < n. shards ! i \<noteq> None then L else 0)"
    by (rule Suc.IH, rule Suc.prems) simp_all
  show ?case
  proof (cases "shards ! n")
    case None
    then have "(\<exists>i < Suc n. shards ! i \<noteq> None) \<longleftrightarrow> (\<exists>i < n. shards ! i \<noteq> None)"
      by (auto simp: less_Suc_eq)
    with None show ?thesis by (simp add: rfold_append IH scan_step_simps)
  next
    case (Some s)
    then have "\<exists>i < Suc n. shards ! i \<noteq> None" by auto
    moreover have "length s = L" using Some by (intro Suc.prems [of n]) simp_all
    ultimately show ?thesis
      using Some by (auto simp: rfold_append IH scan_step_simps simp del: not_None_eq)
  qed
qed simp

lemma recover_ok:
  assumes rows: "\<And>i. i < k \<Longrightarrow> \<exists>s. shards ! (chosen ! i) = Some s \<and> length s = L
      \<and> (\<forall>p < L. GF (s ! p) = code_byte k data (chosen ! i) p)"
    and data: "equal_shards k L data" and j: "j < k"
    and left: "left_inverse k (mat B) (mat (map (gen_row k) chosen))"
    and ch: "length chosen = k"
  shows "rfold (combine_step shards chosen (B ! j)) [0..<k] (replicate L 0) = ok (data ! j)"
proof -
  let ?src = "\<lambda>i. the (shards ! (chosen ! i))"
  have src: "shards ! (chosen ! i) = Some (?src i)" "length (?src i) = L"
    "p < L \<Longrightarrow> GF (?src i ! p) = code_byte k data (chosen ! i) p" if "i < k" for i p
    using rows [OF that] by auto
  have step: "combine_step shards chosen (B ! j) i buf = mulAddRow (B ! j ! i) (?src i) buf"
    if i: "i < k" and lb: "length buf = L" for i buf
  proof -
    obtain s where s: "shards ! (chosen ! i) = Some s" "length s = L" using rows [OF i] by blast
    with lb show ?thesis by (simp add: combine_step_def mulAddRow_def)
  qed
  have "rfold (combine_step shards chosen (B ! j)) [0..<k] (replicate L 0)
      = ok (map (\<lambda>p. gbyte (GF (replicate L 0 ! p) + (\<Sum>i < k. GF (B ! j ! i) * GF (?src i ! p)))) [0..<L])"
    by (rule rfold_mulAddRow) (use step src in auto)
  also have "map (\<lambda>p. gbyte (GF (replicate L 0 ! p) + (\<Sum>i < k. GF (B ! j ! i) * GF (?src i ! p)))) [0..<L]
      = data ! j"
  proof (rule list_eq_nthI)
    show "length (map (\<lambda>p. gbyte (GF (replicate L 0 ! p) + (\<Sum>i < k. GF (B ! j ! i) * GF (?src i ! p)))) [0..<L])
        = length (data ! j)"
      using data j by (simp add: equal_shards_def)
  next
    fix p assume "p < length (data ! j)"
    then have p: "p < L" using data j by (simp add: equal_shards_def)
    let ?d = "\<lambda>l. GF (data ! l ! p)"
    have "(\<Sum>i < k. GF (B ! j ! i) * GF (?src i ! p))
        = (\<Sum>i < k. mat B j i * mulv k (mat (map (gen_row k) chosen)) ?d i)"
      using src p ch by (intro sum.cong) (auto simp: mat_def code_byte_def mulv_def)
    also have "\<dots> = ?d j"
      using left j by (rule left_inverse_mulv)
    finally show "map (\<lambda>p. gbyte (GF (replicate L 0 ! p) + (\<Sum>i < k. GF (B ! j ! i) * GF (?src i ! p)))) [0..<L] ! p
        = data ! j ! p"
      using p by (simp add: GF_hom)
  qed
  finally show ?thesis .
qed

text \<open>Every present slot holds the shard of the codeword.\<close>

definition survivors :: "'a list \<Rightarrow> 'a option list \<Rightarrow> bool" where
  "survivors word shards \<longleftrightarrow> length shards = length word \<and>
    (\<forall>i < length word. shards ! i = None \<or> shards ! i = Some (word ! i))"

text \<open>The shards that survive are codewords, and the scan finds exactly them.\<close>

lemma survivor_code:
  assumes data: "equal_shards k L data" and par: "parity = map (\<lambda>i. map (\<lambda>p. gbyte (code_byte k data (k + i) p)) [0..<L]) [0..<m]"
    and surv: "survivors (data @ parity) shards" and i: "shards ! i = Some s" "i < k + m"
  shows "length s = L \<and> (\<forall>p < L. GF (s ! p) = code_byte k data i p)"
proof -
  have "length (data @ parity) = k + m" using data par by (simp add: equal_shards_def)
  with i surv have "s = (data @ parity) ! i" by (auto simp: survivors_def)
  then show ?thesis using codeword_nth [OF data i(2) _ par] data par i by (cases "i < k") (auto simp: nth_append equal_shards_def)
qed

lemma scan_survivors:
  assumes "\<And>i s. shards ! i = Some s \<Longrightarrow> i < k + m \<Longrightarrow> length s = L \<and> (\<forall>p < L. GF (s ! p) = code_byte k data i p)"
    and "length shards = k + m" "1 \<le> k" "k \<le> length (present shards)"
  shows "rfold (scan_step shards) [0..<length shards] ([], 0) = ok (present shards, L)"
proof -
  have "present shards \<noteq> []" using assms(3,4) by auto
  then obtain i0 where "i0 \<in> set (present shards)" by (cases "present shards") auto
  then have "\<exists>i < k + m. shards ! i \<noteq> None" by (auto simp: present_def assms(2))
  then show ?thesis using scan_ok [of "k + m" shards L] assms(1) by (simp add: present_def assms(2))
qed

text \<open>With a data shard missing, the rows of the first \<open>k\<close> shards present are inverted.\<close>

lemma recover_all_ok:
  assumes km: "k + m \<le> 256" and data: "equal_shards k L data"
    and code: "\<And>i s. shards ! i = Some s \<Longrightarrow> i < k + m \<Longrightarrow> length s = L \<and> (\<forall>p < L. GF (s ! p) = code_byte k data i p)"
    and known: "\<And>j s. j < k \<Longrightarrow> shards ! j = Some s \<Longrightarrow> s = data ! j"
    and ch: "distinct ch" "length ch = k" "\<forall>i \<in> set ch. i < k + m \<and> shards ! i \<noteq> None"
  shows "\<exists>B. invertMatrix (map (gen_row k) ch) = ok B \<and> rmap (recover_shard k shards ch B L) [0..<k] = ok data"
proof -
  have "square k (map (gen_row k) ch)" using ch by (simp add: square_def)
  moreover have "trivial_kernel k (mat (map (gen_row k) ch))"
    by (rule chosen_rows_independent [OF km]) (use ch in auto)
  ultimately obtain B where B: "invertMatrix (map (gen_row k) ch) = ok B"
    and left: "left_inverse k (mat B) (mat (map (gen_row k) ch))"
    using invertMatrix_ok by blast
  have rows: "\<exists>s. shards ! (ch ! i) = Some s \<and> length s = L \<and> (\<forall>p < L. GF (s ! p) = code_byte k data (ch ! i) p)" if "i < k" for i
  proof -
    have "ch ! i \<in> set ch" using that ch(2) nth_mem [of i ch] by (simp only:)
    with ch(3) obtain s where "shards ! (ch ! i) = Some s" "ch ! i < k + m" by blast
    with code show ?thesis by blast
  qed
  have "recover_shard k shards ch B L j = ok (data ! j)" if j: "j < k" for j
    using recover_ok [OF rows data j left ch(2)] known [OF j] by (cases "shards ! j") (simp_all add: recover_shard_def)
  then have "rmap (recover_shard k shards ch B L) [0..<k] = ok (map (\<lambda>j. data ! j) [0..<k])"
    by (intro rmap_ok) simp
  also have "map (\<lambda>j. data ! j) [0..<k] = data"
    using data by (metis equal_shards_def map_nth)
  finally show ?thesis using B by blast
qed

lemma reconstruct_ok:
  assumes rs: "new_ReedSolomon \<lparr>cfg_k = k, cfg_m = m\<rparr> = ok rs" and data: "equal_shards k L data"
    and enc: "encode rs data = ok parity" and surv: "survivors (data @ parity) shards"
    and enough: "k \<le> length (present shards)"
  shows "reconstruct rs shards = ok data"
proof -
  have k: "1 \<le> k" and km: "k + m \<le> 256"
    and rs_eq: "rs = \<lparr>rs_k = k, rs_m = m, rs_matrix = map (gen_row k) [0..<k + m]\<rparr>"
    using rs by (simp_all add: new_ReedSolomon_ok_iff valid_config_def)
  have par: "parity = map (\<lambda>i. map (\<lambda>p. gbyte (code_byte k data (k + i) p)) [0..<L]) [0..<m]"
    using encode_ok [OF rs data] enc by simp
  have lens: "length data = k" "length parity = m" "length shards = k + m"
    using data par surv by (simp_all add: equal_shards_def survivors_def)
  note code = survivor_code [OF data par surv]
  have scan: "rfold (scan_step shards) [0..<length shards] ([], 0) = ok (present shards, L)"
    by (rule scan_survivors [OF code lens(3) k enough])
  have known: "s = data ! j" if "j < k" "shards ! j = Some s" for j s
    using surv lens that by (auto simp: survivors_def nth_append dest!: spec [of _ j])
  show ?thesis
  proof (cases "\<forall>i \<in> set [0..<k]. shards ! i \<noteq> None")
    case True
    have "map the (take k shards) = data"
      by (rule list_eq_nthI) (use True known lens in \<open>force+\<close>)
    with True scan enough lens show ?thesis by (simp add: reconstruct_def rs_eq Let_def)
  next
    case False
    let ?ch = "take k (present shards)"
    have ch: "distinct ?ch" "length ?ch = k" "\<forall>i \<in> set ?ch. i < k + m \<and> shards ! i \<noteq> None"
      using enough by (auto simp: present_def lens dest: in_set_takeD)
    have sub: "map (\<lambda>idx. rs_matrix rs ! idx) ?ch = map (gen_row k) ?ch" using ch(3) by (auto simp: rs_eq)
    obtain B where "invertMatrix (map (gen_row k) ?ch) = ok B" "rmap (recover_shard k shards ?ch B L) [0..<k] = ok data"
      using recover_all_ok [OF km data code known ch] by blast
    moreover have "rs_k rs = k" "rs_m rs = m" by (simp_all add: rs_eq)
    ultimately show ?thesis
      using False scan enough lens by (auto simp: reconstruct_def Let_def sub simp del: not_None_eq set_upt)
  qed
qed

section \<open>The interface of an erasure code\<close>

text \<open>
  A client encodes \<open>k\<close> shards into \<open>m\<close> more and later hands back whatever slots it still has.
  The laws: encoding succeeds and gives \<open>m\<close> shards, and any \<open>k\<close> surviving slots decode.
\<close>

definition lose :: "nat set \<Rightarrow> 'a list \<Rightarrow> 'a option list" where
  "lose lost word = map (\<lambda>i. if i \<in> lost then None else Some (word ! i)) [0..<length word]"

lemma survivors_lose: "survivors word (lose lost word)"
  by (simp add: survivors_def lose_def)

lemma length_present_lose:
  "finite lost \<Longrightarrow> length word \<le> length (present (lose lost word)) + card lost"
proof -
  assume fin: "finite lost"
  have pres: "present (lose lost word) = filter (\<lambda>i. i \<notin> lost) [0..<length word]"
    unfolding present_def by (intro filter_cong) (auto simp: lose_def)
  have "length (present (lose lost word)) = card (set (present (lose lost word)))"
    by (rule distinct_card [symmetric]) (simp add: present_def)
  also have "set (present (lose lost word)) = {..<length word} - lost"
    unfolding pres by auto
  finally show ?thesis
    using diff_card_le_card_Diff [OF fin, of "{..<length word}"] by simp
qed

locale erasure_code =
  fixes valid :: "nat \<Rightarrow> nat \<Rightarrow> bool"
    and wf :: "nat \<Rightarrow> 's list \<Rightarrow> bool"
    and enc :: "nat \<Rightarrow> nat \<Rightarrow> 's list \<Rightarrow> 's list result"
    and dec :: "nat \<Rightarrow> nat \<Rightarrow> 's option list \<Rightarrow> 's list result"
  assumes wf_length: "wf k data \<Longrightarrow> length data = k"
    and enc_ok: "valid k m \<Longrightarrow> wf k data \<Longrightarrow> \<exists>parity. enc k m data = ok parity \<and> length parity = m"
    and dec_ok: "valid k m \<Longrightarrow> wf k data \<Longrightarrow> enc k m data = ok parity \<Longrightarrow>
      survivors (data @ parity) shards \<Longrightarrow> k \<le> length (present shards) \<Longrightarrow> dec k m shards = ok data"
begin

lemma dec_lose:
  assumes "valid k m" "wf k data" "enc k m data = ok parity" "finite lost" "card lost \<le> m"
  shows "dec k m (lose lost (data @ parity)) = ok data"
proof -
  have "length parity = m" using enc_ok [OF assms(1,2)] assms(3) by auto
  then have "k \<le> length (present (lose lost (data @ parity)))"
    using length_present_lose [OF assms(4), of "data @ parity"] wf_length [OF assms(2)] assms(5) by simp
  then show ?thesis by (rule dec_ok [OF assms(1,2,3) survivors_lose])
qed

text \<open>Two sets of losses agree on the result, whichever shards are left.\<close>

lemma dec_agree:
  assumes "valid k m" "wf k data" "enc k m data = ok parity"
    and "survivors (data @ parity) s" "survivors (data @ parity) t"
    and "k \<le> length (present s)" "k \<le> length (present t)"
  shows "dec k m s = dec k m t"
  using assms dec_ok by metis

end

text \<open>How the clients call it: a fresh coder per call.\<close>

definition rs_encode :: "nat \<Rightarrow> nat \<Rightarrow> bytes list \<Rightarrow> bytes list result" where
  "rs_encode k m data = rbind (new_ReedSolomon \<lparr>cfg_k = k, cfg_m = m\<rparr>) (\<lambda>rs. encode rs data)"

definition rs_reconstruct :: "nat \<Rightarrow> nat \<Rightarrow> bytes option list \<Rightarrow> bytes list result" where
  "rs_reconstruct k m shards = rbind (new_ReedSolomon \<lparr>cfg_k = k, cfg_m = m\<rparr>) (\<lambda>rs. reconstruct rs shards)"

abbreviation valid_km :: "nat \<Rightarrow> nat \<Rightarrow> bool" where
  "valid_km k m \<equiv> valid_config \<lparr>cfg_k = k, cfg_m = m\<rparr>"

definition even_shards :: "nat \<Rightarrow> bytes list \<Rightarrow> bool" where
  "even_shards k data \<longleftrightarrow> equal_shards k (length (hd data)) data"

lemma new_rs_ok: "valid_km k m \<Longrightarrow> \<exists>rs. new_ReedSolomon \<lparr>cfg_k = k, cfg_m = m\<rparr> = ok rs"
  by (simp add: new_ReedSolomon_ok_iff)

interpretation rs: erasure_code valid_km even_shards rs_encode rs_reconstruct
proof unfold_locales
  fix k data assume "even_shards k data"
  then show "length data = k" by (simp add: even_shards_def equal_shards_def)
next
  fix k m data assume v: "valid_km k m" and e: "even_shards k data"
  then obtain rs where "new_ReedSolomon \<lparr>cfg_k = k, cfg_m = m\<rparr> = ok rs" using new_rs_ok by blast
  with e show "\<exists>parity. rs_encode k m data = ok parity \<and> length parity = m"
    by (simp add: rs_encode_def even_shards_def encode_ok [of k m])
next
  fix k m data parity and shards :: "bytes option list"
  assume v: "valid_km k m" and e: "even_shards k data" and enc: "rs_encode k m data = ok parity"
    and s: "survivors (data @ parity) shards" and n: "k \<le> length (present shards)"
  obtain rs where rs: "new_ReedSolomon \<lparr>cfg_k = k, cfg_m = m\<rparr> = ok rs" using new_rs_ok v by blast
  have "reconstruct rs shards = ok data"
    by (rule reconstruct_ok [OF rs e [unfolded even_shards_def] _ s n]) (use enc rs in \<open>simp add: rs_encode_def\<close>)
  with rs show "rs_reconstruct k m shards = ok data" by (simp add: rs_reconstruct_def)
qed

section \<open>Split and recombine\<close>

abbreviation shard_len :: "bytes \<Rightarrow> nat \<Rightarrow> nat" where
  "shard_len d k \<equiv> (length d + k - 1) div k"

lemma shard_len_enough: "1 \<le> k \<Longrightarrow> length d \<le> shard_len d k * k"
proof -
  assume k: "1 \<le> k"
  have "length d + k - 1 = shard_len d k * k + (length d + k - 1) mod k" by simp
  moreover have "(length d + k - 1) mod k < k" using k by simp
  ultimately show ?thesis using k by linarith
qed

lemma length_piece: "length buf = n * L \<Longrightarrow> i < n \<Longrightarrow> length (take L (drop (i * L) buf)) = L" for buf :: bytes
proof -
  assume b: "length buf = n * L" and i: "i < n"
  then have "Suc i * L \<le> n * L" by (intro mult_le_mono1) simp
  with b show ?thesis by simp
qed

lemma splitIntoShards_pieces:
  "1 \<le> k \<Longrightarrow> \<exists>buf. fst (splitIntoShards d k) = map (\<lambda>i. take (shard_len d k) (drop (i * shard_len d k) buf)) [0..<k]
    \<and> length buf = k * shard_len d k \<and> take (length d) buf = d"
  using shard_len_enough [of k d]
  by (intro exI [of _ "d @ replicate (shard_len d k * k - length d) 0"])
    (simp add: splitIntoShards_def Let_def mult.commute)

lemma place_shards:
  assumes "length buf = n * L" "i \<le> n"
  shows "rfold (\<lambda>i out. place_shard out (i * L) (map (\<lambda>i. take L (drop (i * L) buf)) [0..<n] ! i))
      [0..<i] (replicate (n * L) 0) = ok (take (i * L) buf @ replicate ((n - i) * L) 0)"
  using assms(2)
proof (induction i)
  case (Suc i)
  let ?f = "\<lambda>i out. place_shard out (i * L) (map (\<lambda>i. take L (drop (i * L) buf)) [0..<n] ! i)"
  have iL: "Suc i * L \<le> n * L" using Suc.prems by (rule mult_le_mono1)
  then have lens: "length (take L (drop (i * L) buf)) = L" "length (take (i * L) buf) = i * L"
    using assms(1) by simp_all
  have eq: "(n - i) * L = L + (n - Suc i) * L"
    using Suc.prems by (simp add: algebra_simps flip: Suc_diff_Suc)
  have len: "length (take (i * L) buf @ replicate ((n - i) * L) (0 :: byte)) = n * L"
    using lens Suc.prems by (simp flip: distrib_right)
  have "?f i (take (i * L) buf @ replicate ((n - i) * L) 0)
      = ok (take (i * L) buf @ take L (drop (i * L) buf) @ replicate ((n - Suc i) * L) 0)"
    using lens iL Suc.prems len by (simp add: place_shard_def eq add.commute [of "i * L"])
  also have "take (i * L) buf @ take L (drop (i * L) buf) = take (Suc i * L) buf"
    by (simp add: take_add add.commute [of L])
  then have "take (i * L) buf @ take L (drop (i * L) buf) @ replicate ((n - Suc i) * L) 0
      = take (Suc i * L) buf @ replicate ((n - Suc i) * L) 0" by (metis append.assoc)
  finally show ?case using Suc by (simp add: rfold_append)
qed simp

lemma splitIntoShards_even: "1 \<le> k \<Longrightarrow> equal_shards k (shard_len d k) (fst (splitIntoShards d k))"
proof -
  assume "1 \<le> k"
  then obtain buf where "fst (splitIntoShards d k) = map (\<lambda>i. take (shard_len d k) (drop (i * shard_len d k) buf)) [0..<k]"
    and "length buf = k * shard_len d k" using splitIntoShards_pieces by blast
  then show ?thesis using length_piece [of buf k "shard_len d k"] by (auto simp: equal_shards_def simp del: length_take)
qed

lemma recombine_split: "1 \<le> k \<Longrightarrow> recombineShards (fst (splitIntoShards d k)) (length d) = ok d"
proof -
  assume k: "1 \<le> k"
  let ?L = "shard_len d k" and ?s = "fst (splitIntoShards d k)"
  obtain buf where sh: "?s = map (\<lambda>i. take ?L (drop (i * ?L) buf)) [0..<k]"
    and buf: "length buf = k * ?L" and d: "take (length d) buf = d"
    using splitIntoShards_pieces [OF k] by blast
  have len: "length ?s = k" by (simp add: sh)
  have "length (?s ! 0) = ?L"
    using splitIntoShards_even [OF k, of d] k by (simp add: equal_shards_def)
  then have hd: "(case ?s of [] \<Rightarrow> 0 | s # _ \<Rightarrow> length s) = ?L"
    using k len by (cases ?s) simp_all
  have "rfold (\<lambda>i out. place_shard out (i * ?L) (?s ! i)) [0..<k] (replicate (k * ?L) 0) = ok buf"
    unfolding sh using place_shards [OF buf order_refl] buf by simp
  then show ?thesis
    unfolding recombineShards_def Let_def hd len using d by (simp add: mult.commute [of k])
qed

section \<open>Properties\<close>

text \<open>
  C2. With any legal \<open>k\<close> and \<open>m\<close>, encoding \<open>k\<close> shards of equal length succeeds and gives \<open>m\<close>
  parity shards, and after the loss of any set of at most \<open>m\<close> of the \<open>k + m\<close> shards, data and
  parity alike, the coder returns exactly the data.
\<close>

theorem any_k_shards_recover:
  assumes "1 \<le> k" "1 \<le> m" "k + m \<le> 256"
    and "length data = k" "\<forall>s \<in> set data. length s = L"
    and "finite lost" "card lost \<le> m"
  shows "\<exists>parity. rs_encode k m data = ok parity \<and> length parity = m \<and>
    rs_reconstruct k m (lose lost (data @ parity)) = ok data"
proof -
  have v: "valid_km k m" using assms by (simp add: valid_config_def)
  have "hd data \<in> set data" using assms by (cases data) auto
  then have e: "even_shards k data" using assms by (simp add: even_shards_def equal_shards_def)
  with rs.enc_ok [OF v e] rs.dec_lose [OF v e] assms show ?thesis by blast
qed

theorem any_k_shards_recover_witness:
  "\<exists>parity. rs_encode 2 2 [[1, 2, 3], [4, 5, 6]] = ok parity \<and> length parity = 2 \<and>
    rs_reconstruct 2 2 (lose {0, 2} ([[1, 2, 3], [4, 5, 6]] @ parity)) = ok [[1, 2, 3], [4, 5, 6]]"
  by (rule any_k_shards_recover [where L = 3]) simp_all

lemma too_few_shards:
  assumes "valid_km k m" and "length shards = k + m"
    and "\<forall>s. Some s \<in> set shards \<longrightarrow> length s = L" and "length (present shards) < k"
  shows "rs_reconstruct k m shards
    = throw (''reconstruct: need '' @ nat_str k @ '' shards, have '' @ nat_str (length (present shards)))"
proof -
  obtain rs where rs: "new_ReedSolomon \<lparr>cfg_k = k, cfg_m = m\<rparr> = ok rs" using new_rs_ok assms(1) by blast
  then have km: "rs_k rs = k" "rs_m rs = m" by (auto simp: new_ReedSolomon_ok_iff)
  have "rfold (scan_step shards) [0..<length shards] ([], 0)
      = ok (present shards, if \<exists>i < length shards. shards ! i \<noteq> None then L else 0)"
    unfolding present_def
  proof (rule scan_ok)
    fix i s assume "i < length shards" "shards ! i = Some s"
    then have "Some s \<in> set shards" using nth_mem by metis
    with assms(3) show "length s = L" by blast
  qed
  then show ?thesis
    using rs km assms(2,4) by (simp add: rs_reconstruct_def reconstruct_def Let_def)
qed

text \<open>
  Fewer than \<open>k\<close> present shards, all of one length, never give a wrong answer: the call
  throws and names how many shards it has.
\<close>

theorem too_few_shards_throw:
  assumes "valid_km k m" and "length shards = k + m"
    and "\<forall>s. Some s \<in> set shards \<longrightarrow> length s = L" and "length (present shards) < k"
  shows "rs_reconstruct k m shards
    = throw (''reconstruct: need '' @ nat_str k @ '' shards, have '' @ nat_str (length (present shards)))"
  using assms by (rule too_few_shards)

theorem too_few_shards_throw_witness:
  "rs_reconstruct 2 1 [None, Some [7, 8], None]
    = throw (''reconstruct: need '' @ nat_str 2 @ '' shards, have '' @ nat_str 1)"
  using too_few_shards_throw [of 2 1 "[None, Some [7, 8], None]" 2]
  by (auto simp: present_def upt_rec valid_config_def)

text \<open>
  Splitting a buffer of any length, empty included, into \<open>k \<ge> 1\<close> shards gives \<open>k\<close> shards of
  equal length, and recombining them with the recorded length gives the buffer back.
\<close>

theorem split_recombine_roundtrip:
  assumes "1 \<le> k" and "splitIntoShards d k = (shards, originalLength)"
  shows "length shards = k \<and> (\<forall>s \<in> set shards. length s = (length d + k - 1) div k)
    \<and> recombineShards shards originalLength = ok d"
proof -
  have "originalLength = length d" "shards = fst (splitIntoShards d k)"
    using assms(2) by (auto simp: splitIntoShards_def Let_def)
  with splitIntoShards_even [OF assms(1), of d] recombine_split [OF assms(1), of d]
  show ?thesis by (simp add: equal_shards_def)
qed

theorem split_recombine_roundtrip_witness:
  "length [[1, 2], [3, 0 :: byte]] = 2 \<and> recombineShards [[1, 2], [3, 0]] 3 = ok [1, 2, 3]"
  using split_recombine_roundtrip [of 2 "[1, 2, 3]" "[[1, 2], [3, 0]]" 3]
  by (simp add: splitIntoShards_def upt_rec Let_def)

text \<open>
  C21. The table-driven product is the product of polynomials over the two-element field modulo
  \<open>x^8 + x^4 + x^3 + x^2 + 1\<close> (the constant \<open>0x11d\<close>), for every pair of bytes; division and
  inversion agree with it, and throw on zero only.
\<close>

theorem tables_are_polynomial_arithmetic:
  "gf_mul a b = poly_mul a b \<and>
   (case gf_inv a of Inl e \<Rightarrow> a = 0 \<and> e = ''GF256: inverse of zero'' | Inr c \<Rightarrow> a \<noteq> 0 \<and> poly_mul a c = 1) \<and>
   (case gf_div a b of Inl e \<Rightarrow> b = 0 \<and> e = ''GF256: divide by zero'' | Inr q \<Rightarrow> b \<noteq> 0 \<and> poly_mul q b = a)"
proof (intro conjI)
  show "gf_mul a b = poly_mul a b" by (rule gf_mul_poly_mul)
  show "case gf_inv a of Inl e \<Rightarrow> a = 0 \<and> e = ''GF256: inverse of zero'' | Inr c \<Rightarrow> a \<noteq> 0 \<and> poly_mul a c = 1"
    using gf_inv_spec [of a] by (cases "a = 0") (auto simp: gf_inv_def simp flip: gf_mul_poly_mul)
  show "case gf_div a b of Inl e \<Rightarrow> b = 0 \<and> e = ''GF256: divide by zero'' | Inr q \<Rightarrow> b \<noteq> 0 \<and> poly_mul q b = a"
    using gf_div_spec [of b a] by (cases "b = 0") (auto simp: gf_div_def simp flip: gf_mul_poly_mul)
qed

end
