(* ===== verification/ArpProtocol.thy ===== *)
theory ArpProtocol imports Prelude begin

text \<open>
  The reliable transport of \<open>frontend/src/lib/arpProtocol.ts\<close>: the frame codec, the sender with
  its sliding window, congestion control and timers, and the receiver with its reordering
  buffer. Sequence numbers and counters are natural numbers, as the code's numbers are until
  \<open>2 ^ 53\<close>; only the codec cuts them to 32 and 16 bits. Windows, times and estimates are
  rationals in place of floating point. One clock value serves all reads of a handler.

  The calls a handler makes on \<open>io\<close> are returned as a list of effects, in order.
\<close>

section \<open>Constants and frames\<close>

definition ARP_HEADER_BYTES :: nat where "ARP_HEADER_BYTES = 11"
definition ARP_FRAME_DATA :: nat where "ARP_FRAME_DATA = 0"
definition ARP_FRAME_ACK :: nat where "ARP_FRAME_ACK = 1"
definition ARP_MSS :: nat where "ARP_MSS = 1024"
definition ARP_INITIAL_CWND :: rat where "ARP_INITIAL_CWND = 1"
definition ARP_INITIAL_SSTHRESH :: rat where "ARP_INITIAL_SSTHRESH = 64"
definition ARP_INITIAL_RTO_MS :: rat where "ARP_INITIAL_RTO_MS = 1000"
definition ARP_MIN_RTO_MS :: rat where "ARP_MIN_RTO_MS = 100"
definition ARP_MAX_RTO_MS :: rat where "ARP_MAX_RTO_MS = 30000"
definition ARP_DUP_ACK_THRESHOLD :: nat where "ARP_DUP_ACK_THRESHOLD = 3"
definition ARP_DEFAULT_RWND :: nat where "ARP_DEFAULT_RWND = 256"

lemmas arp_consts = ARP_HEADER_BYTES_def ARP_FRAME_DATA_def ARP_FRAME_ACK_def ARP_MSS_def
  ARP_INITIAL_CWND_def ARP_INITIAL_SSTHRESH_def ARP_INITIAL_RTO_MS_def ARP_MIN_RTO_MS_def
  ARP_MAX_RTO_MS_def ARP_DUP_ACK_THRESHOLD_def ARP_DEFAULT_RWND_def

record arp_frame =
  af_type :: nat
  af_seq :: nat
  af_ack :: nat
  af_window :: nat
  af_payload :: bytes

subsection \<open>The codec\<close>

text \<open>\<open>DataView.setUint16\<close> and \<open>setUint32\<close>, big-endian; a store keeps the low bits.\<close>

definition put_u16 :: "nat \<Rightarrow> bytes" where
  "put_u16 n = [word_of_nat (n div 256), word_of_nat n]"

definition put_u32 :: "nat \<Rightarrow> bytes" where
  "put_u32 n = [word_of_nat (n div 16777216), word_of_nat (n div 65536), word_of_nat (n div 256), word_of_nat n]"

definition get_u16 :: "bytes \<Rightarrow> nat \<Rightarrow> nat" where
  "get_u16 b i = unat (b ! i) * 256 + unat (b ! (i + 1))"

definition get_u32 :: "bytes \<Rightarrow> nat \<Rightarrow> nat" where
  "get_u32 b i = unat (b ! i) * 16777216 + unat (b ! (i + 1)) * 65536
     + unat (b ! (i + 2)) * 256 + unat (b ! (i + 3))"

definition encodeFrame :: "arp_frame \<Rightarrow> bytes" where
  "encodeFrame f = word_of_nat (af_type f) # put_u32 (af_seq f) @ put_u32 (af_ack f)
     @ put_u16 (af_window f) @ af_payload f"

definition decodeFrame :: "bytes \<Rightarrow> arp_frame option" where
  "decodeFrame buf =
    (if length buf < ARP_HEADER_BYTES then None
     else Some \<lparr>af_type = unat (buf ! 0), af_seq = get_u32 buf 1, af_ack = get_u32 buf 5,
                af_window = get_u16 buf 9, af_payload = drop ARP_HEADER_BYTES buf\<rparr>)"

lemma unat_byte_of_nat: "unat (word_of_nat n :: byte) = n mod 256"
  by (simp add: unat_of_nat)

lemma u32_digits: "n div 16777216 mod 256 * 16777216 + n div 65536 mod 256 * 65536 + n div 256 mod 256 * 256 + n mod 256
    = n mod 4294967296" for n :: nat
proof -
  have "n mod 4294967296 = n mod (16777216 * 256)" by simp
  also have "\<dots> = 16777216 * (n div 16777216 mod 256) + n mod 16777216" by (rule mod_mult2_eq)
  also have "n mod 16777216 = n mod (65536 * 256)" by simp
  also have "\<dots> = 65536 * (n div 65536 mod 256) + n mod 65536" by (rule mod_mult2_eq)
  also have "n mod 65536 = n mod (256 * 256)" by simp
  also have "\<dots> = 256 * (n div 256 mod 256) + n mod 256" by (rule mod_mult2_eq)
  finally show ?thesis by simp
qed

lemma u16_digits: "n div 256 mod 256 * 256 + n mod 256 = n mod 65536" for n :: nat
  using mod_mult2_eq [of n 256 256] by simp

lemma decode_encode: "decodeFrame (encodeFrame f) = Some
    \<lparr>af_type = af_type f mod 256, af_seq = af_seq f mod 4294967296, af_ack = af_ack f mod 4294967296,
     af_window = af_window f mod 65536, af_payload = af_payload f\<rparr>"
  by (simp add: decodeFrame_def encodeFrame_def put_u32_def put_u16_def get_u32_def get_u16_def
      ARP_HEADER_BYTES_def unat_byte_of_nat u32_digits u16_digits)

section \<open>The sender\<close>

subsection \<open>State\<close>

datatype log_dir = TX | RX
datatype log_type = DATA | ACK

record packet_log_entry =
  pl_t :: rat
  pl_dir :: log_dir
  pl_type :: log_type
  pl_seq :: nat
  pl_ack :: nat
  pl_bytes :: nat
  pl_retransmit :: bool
  pl_drop :: bool

text \<open>What a handler does through \<open>io\<close>; \<open>Emit\<close> carries what \<open>send\<close> returned.\<close>

datatype arp_effect = Emit arp_frame bool | Log packet_log_entry | Deliver bytes

text \<open>
  The outside of one handler call: the clock, and whether \<open>io.send\<close> gets a frame out. The
  frames of one call have different sequence numbers, so this is any sequence of answers.
\<close>

record arp_env =
  env_now :: rat
  env_send :: "arp_frame \<Rightarrow> bool"

record in_flight =
  fl_seq :: nat
  fl_payload :: bytes
  fl_sentAt :: rat
  fl_retransmitted :: bool

datatype sender_mode = SlowStart | CongAvoid | FastRecovery

record sender =
  cwnd :: rat
  ssthresh :: rat
  rttSrtt :: rat
  rttVar :: rat
  rto :: rat
  mode :: sender_mode
  bytesAcked :: nat
  bytesSent :: nat
  retransmits :: nat
  fastRetransmits :: nat
  rtoExpiries :: nat
  dupAcks :: nat
  inFlight :: "(nat, in_flight) jmap"
  sendQueue :: "bytes list"
  nextSeq :: nat
  highestAck :: nat
  lastDupAckSeq :: int
  rwnd :: nat

definition new_sender :: sender where
  "new_sender = \<lparr>cwnd = ARP_INITIAL_CWND, ssthresh = ARP_INITIAL_SSTHRESH, rttSrtt = 0, rttVar = 0,
    rto = ARP_INITIAL_RTO_MS, mode = SlowStart, bytesAcked = 0, bytesSent = 0, retransmits = 0,
    fastRetransmits = 0, rtoExpiries = 0, dupAcks = 0, inFlight = [], sendQueue = [], nextSeq = 0,
    highestAck = 0, lastDupAckSeq = -1, rwnd = ARP_DEFAULT_RWND\<rparr>"

subsection \<open>Operations\<close>

definition data_frame :: "nat \<Rightarrow> bytes \<Rightarrow> arp_frame" where
  "data_frame seq payload = \<lparr>af_type = ARP_FRAME_DATA, af_seq = seq, af_ack = 0,
    af_window = ARP_DEFAULT_RWND, af_payload = payload\<rparr>"

text \<open>One turn of the loop of \<open>pump\<close>, for the payload shifted off the queue.\<close>

definition pump_one :: "arp_env \<Rightarrow> bytes \<Rightarrow> sender \<Rightarrow> sender \<times> arp_effect list" where
  "pump_one env payload s =
    (let seq = nextSeq s;
         frame = data_frame seq payload;
         now = env_now env;
         sent = env_send env frame;
         seg = \<lparr>fl_seq = seq, fl_payload = payload, fl_sentAt = now, fl_retransmitted = False\<rparr>
     in (s\<lparr>nextSeq := seq + 1, inFlight := jm_set (inFlight s) seq seg,
           bytesSent := bytesSent s + length payload\<rparr>,
         [Emit frame sent,
          Log \<lparr>pl_t = now, pl_dir = TX, pl_type = DATA, pl_seq = seq, pl_ack = 0,
               pl_bytes = length payload, pl_retransmit = False, pl_drop = \<not> sent\<rparr>]))"

fun pump_loop :: "arp_env \<Rightarrow> rat \<Rightarrow> bytes list \<Rightarrow> sender \<Rightarrow> sender \<times> arp_effect list" where
  "pump_loop env window [] s = (s\<lparr>sendQueue := []\<rparr>, [])"
| "pump_loop env window (payload # queue) s =
    (if of_nat (length (inFlight s)) < window then
       (let (s1, es1) = pump_one env payload s;
            (s2, es2) = pump_loop env window queue s1
        in (s2, es1 @ es2))
     else (s\<lparr>sendQueue := payload # queue\<rparr>, []))"

definition pump :: "arp_env \<Rightarrow> sender \<Rightarrow> sender \<times> arp_effect list" where
  "pump env s = pump_loop env (min (cwnd s) (of_nat (rwnd s))) (sendQueue s) s"

definition enqueue :: "arp_env \<Rightarrow> bytes \<Rightarrow> sender \<Rightarrow> sender \<times> arp_effect list" where
  "enqueue env payload s =
    (if length payload = 0 then (s, [])
     else pump env (s\<lparr>sendQueue := sendQueue s @ [payload]\<rparr>))"

definition updateRtt :: "rat \<Rightarrow> sender \<Rightarrow> sender" where
  "updateRtt sample s =
    (let s1 = (if rttSrtt s = 0 then s\<lparr>rttSrtt := sample, rttVar := sample / 2\<rparr>
               else s\<lparr>rttVar := (1 - 1 / 4) * rttVar s + 1 / 4 * \<bar>rttSrtt s - sample\<bar>,
                      rttSrtt := (1 - 1 / 8) * rttSrtt s + 1 / 8 * sample\<rparr>)
     in s1\<lparr>rto := min ARP_MAX_RTO_MS (max ARP_MIN_RTO_MS (rttSrtt s1 + 4 * rttVar s1))\<rparr>)"

definition retransmitSegment :: "arp_env \<Rightarrow> in_flight \<Rightarrow> sender \<Rightarrow> sender \<times> arp_effect list" where
  "retransmitSegment env seg s =
    (let now = env_now env;
         frame = data_frame (fl_seq seg) (fl_payload seg);
         sent = env_send env frame
     in (s\<lparr>inFlight := jm_set (inFlight s) (fl_seq seg) (seg\<lparr>fl_sentAt := now, fl_retransmitted := True\<rparr>),
           retransmits := retransmits s + 1\<rparr>,
         [Emit frame sent,
          Log \<lparr>pl_t = now, pl_dir = TX, pl_type = DATA, pl_seq = fl_seq seg, pl_ack = 0,
               pl_bytes = length (fl_payload seg), pl_retransmit = True, pl_drop = \<not> sent\<rparr>]))"

text \<open>\<open>Math.max(Math.floor(this.cwnd / 2), 2)\<close>.\<close>

definition half_window :: "rat \<Rightarrow> rat" where
  "half_window w = max (of_int \<lfloor>w / 2\<rfloor>) 2"

definition fastRetransmit :: "arp_env \<Rightarrow> nat \<Rightarrow> sender \<Rightarrow> sender \<times> arp_effect list" where
  "fastRetransmit env cumAck s =
    (case jm_get (inFlight s) cumAck of
       None \<Rightarrow> (s, [])
     | Some seg \<Rightarrow>
         retransmitSegment env seg
           (s\<lparr>ssthresh := half_window (cwnd s),
              cwnd := half_window (cwnd s) + of_nat ARP_DUP_ACK_THRESHOLD,
              mode := FastRecovery, fastRetransmits := fastRetransmits s + 1\<rparr>))"

definition accept_one :: "rat \<Rightarrow> nat \<Rightarrow> nat \<Rightarrow> sender \<times> nat \<Rightarrow> sender \<times> nat" where
  "accept_one now cumAck seq st =
    (case st of (s, acked) \<Rightarrow>
      if seq < cumAck then
        (case jm_get (inFlight s) seq of
           None \<Rightarrow> (s, acked)
         | Some seg \<Rightarrow>
             let s1 = (if \<not> fl_retransmitted seg then updateRtt (now - fl_sentAt seg) s else s)
             in (s1\<lparr>bytesAcked := bytesAcked s1 + length (fl_payload seg),
                    inFlight := jm_del (inFlight s1) seq\<rparr>, acked + 1))
      else (s, acked))"

definition acceptCumulativeAck :: "arp_env \<Rightarrow> nat \<Rightarrow> sender \<Rightarrow> sender \<times> nat" where
  "acceptCumulativeAck env cumAck s =
    (if cumAck \<le> highestAck s then (s, 0)
     else (case fold (accept_one (env_now env) cumAck) (jm_keys (inFlight s)) (s, 0) of
        (s1, acked) \<Rightarrow> (s1\<lparr>highestAck := cumAck\<rparr>, acked)))"

text \<open>The window after newly acknowledged data: leave fast recovery, then grow.\<close>

definition leave_recovery :: "sender \<Rightarrow> sender" where
  "leave_recovery s =
    (if mode s = FastRecovery
     then s\<lparr>cwnd := ssthresh s, mode := (if ssthresh s < ssthresh s then SlowStart else CongAvoid)\<rparr>
     else s)"

definition grow_window :: "nat \<Rightarrow> sender \<Rightarrow> sender" where
  "grow_window newly s =
    (if cwnd s < ssthresh s then s\<lparr>mode := SlowStart, cwnd := cwnd s + of_nat newly\<rparr>
     else s\<lparr>mode := CongAvoid, cwnd := cwnd s + of_nat newly / max (cwnd s) 1\<rparr>)"

definition onAck :: "arp_env \<Rightarrow> nat \<Rightarrow> nat \<Rightarrow> sender \<Rightarrow> sender \<times> arp_effect list" where
  "onAck env cumulativeAck advertisedWindow s0 =
    (let s1 = s0\<lparr>rwnd := (if advertisedWindow > 0 then advertisedWindow else ARP_DEFAULT_RWND)\<rparr>;
         (s, newly) = acceptCumulativeAck env cumulativeAck s1
     in if newly > 0 then
          pump env (grow_window newly
            ((leave_recovery s)\<lparr>dupAcks := 0, lastDupAckSeq := int cumulativeAck\<rparr>))
        else if length (inFlight s) = 0 then (s, [])
        else
          let s = (if int cumulativeAck = lastDupAckSeq s then s\<lparr>dupAcks := dupAcks s + 1\<rparr>
                   else s\<lparr>dupAcks := 1, lastDupAckSeq := int cumulativeAck\<rparr>)
          in if dupAcks s = ARP_DUP_ACK_THRESHOLD then fastRetransmit env cumulativeAck s else (s, []))"

definition older :: "in_flight \<Rightarrow> in_flight option \<Rightarrow> in_flight option" where
  "older seg best =
    (case best of None \<Rightarrow> Some seg | Some b \<Rightarrow> if fl_sentAt seg < fl_sentAt b then Some seg else best)"

definition tick :: "arp_env \<Rightarrow> sender \<Rightarrow> sender \<times> arp_effect list" where
  "tick env s =
    (case fold older (jm_values (inFlight s)) None of
       None \<Rightarrow> (s, [])
     | Some oldest \<Rightarrow>
         if env_now env - fl_sentAt oldest < rto s then (s, [])
         else retransmitSegment env oldest
           (s\<lparr>ssthresh := half_window (cwnd s), cwnd := ARP_INITIAL_CWND, mode := SlowStart,
              rtoExpiries := rtoExpiries s + 1, dupAcks := 0,
              rto := min (rto s * 2) ARP_MAX_RTO_MS\<rparr>))"

record sender_snapshot =
  ss_cwnd :: rat
  ss_ssthresh :: rat
  ss_inFlight :: nat
  ss_sendQueue :: nat
  ss_rttSrtt :: rat
  ss_rttVar :: rat
  ss_rto :: rat
  ss_mode :: sender_mode
  ss_bytesAcked :: nat
  ss_bytesSent :: nat
  ss_retransmits :: nat
  ss_fastRetransmits :: nat
  ss_rtoExpiries :: nat
  ss_dupAcks :: nat
  ss_highestAck :: nat
  ss_nextSeq :: nat
  ss_rwnd :: nat

definition sender_snapshot_of :: "sender \<Rightarrow> sender_snapshot" where
  "sender_snapshot_of s = \<lparr>ss_cwnd = cwnd s, ss_ssthresh = ssthresh s, ss_inFlight = length (inFlight s),
    ss_sendQueue = length (sendQueue s), ss_rttSrtt = rttSrtt s, ss_rttVar = rttVar s, ss_rto = rto s,
    ss_mode = mode s, ss_bytesAcked = bytesAcked s, ss_bytesSent = bytesSent s,
    ss_retransmits = retransmits s, ss_fastRetransmits = fastRetransmits s,
    ss_rtoExpiries = rtoExpiries s, ss_dupAcks = dupAcks s, ss_highestAck = highestAck s,
    ss_nextSeq = nextSeq s, ss_rwnd = rwnd s\<rparr>"

section \<open>The receiver\<close>

record receiver =
  expectedSeq :: nat
  bytesDelivered :: nat
  duplicates :: nat
  outOfOrder :: "(nat, bytes) jmap"
  rx_rwnd :: nat

definition new_receiver :: receiver where
  "new_receiver = \<lparr>expectedSeq = 0, bytesDelivered = 0, duplicates = 0, outOfOrder = [], rx_rwnd = ARP_DEFAULT_RWND\<rparr>"

lemma length_delete_less: "map_of m k \<noteq> None \<Longrightarrow> length (AList.delete k m) < length m"
proof -
  assume "map_of m k \<noteq> None"
  then have "k \<in> fst ` set m" by (simp add: map_of_eq_None_iff)
  then show ?thesis
    by (induction m) (auto simp: length_delete_le le_imp_less_Suc)
qed

text \<open>\<open>deliver\<close> and the advance of \<open>expectedSeq\<close> that follows each call of it.\<close>

definition deliver_next :: "bytes \<Rightarrow> receiver \<Rightarrow> receiver" where
  "deliver_next payload r =
    r\<lparr>bytesDelivered := bytesDelivered r + length payload, expectedSeq := expectedSeq r + 1\<rparr>"

function drain :: "receiver \<Rightarrow> receiver \<times> arp_effect list" where
  "drain r =
    (case jm_get (outOfOrder r) (expectedSeq r) of
       None \<Rightarrow> (r, [])
     | Some buffered \<Rightarrow>
         (case drain (deliver_next buffered (r\<lparr>outOfOrder := jm_del (outOfOrder r) (expectedSeq r)\<rparr>)) of
            (r', es) \<Rightarrow> (r', Deliver buffered # es)))"
  by auto

termination
  by (relation "measure (\<lambda>r. length (outOfOrder r))")
    (auto simp: deliver_next_def intro!: length_delete_less)

declare drain.simps [simp del]

definition accept_data :: "arp_frame \<Rightarrow> receiver \<Rightarrow> receiver \<times> arp_effect list" where
  "accept_data frame r =
    (if af_seq frame < expectedSeq r then (r\<lparr>duplicates := duplicates r + 1\<rparr>, [])
     else if af_seq frame = expectedSeq r then
       (case drain (deliver_next (af_payload frame) r) of
          (r', es) \<Rightarrow> (r', Deliver (af_payload frame) # es))
     else if \<not> jm_has (outOfOrder r) (af_seq frame)
     then (r\<lparr>outOfOrder := jm_set (outOfOrder r) (af_seq frame) (af_payload frame)\<rparr>, [])
     else (r, []))"

definition ack_frame :: "receiver \<Rightarrow> arp_frame" where
  "ack_frame r = \<lparr>af_type = ARP_FRAME_ACK, af_seq = 0, af_ack = expectedSeq r, af_window = rx_rwnd r,
    af_payload = []\<rparr>"

definition onData :: "arp_env \<Rightarrow> arp_frame \<Rightarrow> receiver \<Rightarrow> receiver \<times> arp_effect list" where
  "onData env frame r =
    (case accept_data frame r of (r', es) \<Rightarrow>
      (r',
       Log \<lparr>pl_t = env_now env, pl_dir = RX, pl_type = DATA, pl_seq = af_seq frame, pl_ack = 0,
            pl_bytes = length (af_payload frame), pl_retransmit = False, pl_drop = False\<rparr> # es
       @ [Emit (ack_frame r') (env_send env (ack_frame r')),
          Log \<lparr>pl_t = env_now env, pl_dir = TX, pl_type = ACK, pl_seq = 0, pl_ack = expectedSeq r',
               pl_bytes = 0, pl_retransmit = False, pl_drop = False\<rparr>]))"

record receiver_snapshot =
  rs_expectedSeq :: nat
  rs_outOfOrder :: nat
  rs_bytesDelivered :: nat
  rs_duplicates :: nat

definition receiver_snapshot_of :: "receiver \<Rightarrow> receiver_snapshot" where
  "receiver_snapshot_of r = \<lparr>rs_expectedSeq = expectedSeq r, rs_outOfOrder = length (outOfOrder r),
    rs_bytesDelivered = bytesDelivered r, rs_duplicates = duplicates r\<rparr>"

end
