(* ===== verification/ArpSender.thy ===== *)
theory ArpSender imports ArpProtocol begin

text \<open>
  What the operations of the sender keep: the bounds of the congestion control, that a
  nonempty queue always has a segment in flight to wake it, and that the segments in flight
  are those of the enqueued sequence, so that every frame sent carries the payload its number
  stands for.
\<close>

section \<open>Invariants\<close>

definition ctl_inv :: "sender \<Rightarrow> bool" where
  "ctl_inv s \<longleftrightarrow> 1 \<le> cwnd s \<and> 2 \<le> ssthresh s \<and> ARP_MIN_RTO_MS \<le> rto s \<and> rto s \<le> ARP_MAX_RTO_MS
    \<and> 0 < rwnd s"

definition no_stall :: "sender \<Rightarrow> bool" where
  "no_stall s \<longleftrightarrow> (sendQueue s \<noteq> [] \<longrightarrow> inFlight s \<noteq> [])"

text \<open>\<open>segs\<close> is the sequence of all segments enqueued so far.\<close>

definition snd_inv :: "bytes list \<Rightarrow> sender \<Rightarrow> bool" where
  "snd_inv segs s \<longleftrightarrow>
    nextSeq s \<le> length segs \<and> sendQueue s = drop (nextSeq s) segs \<and> jm_wf (inFlight s) \<and>
    (\<forall>(q, f) \<in> set (inFlight s). fl_seq f = q \<and> q < nextSeq s \<and> fl_payload f = segs ! q)"

text \<open>Segments below the next number that are not in flight lie below \<open>n\<close>.\<close>

definition acked_below :: "nat \<Rightarrow> sender \<Rightarrow> bool" where
  "acked_below n s \<longleftrightarrow> highestAck s \<le> n \<and> (\<forall>q < nextSeq s. q \<notin> fst ` set (inFlight s) \<longrightarrow> q < n)"

fun emits_ok :: "bytes list \<Rightarrow> nat \<Rightarrow> arp_effect \<Rightarrow> bool" where
  "emits_ok segs n (Emit f _) \<longleftrightarrow> (\<exists>q < n. f = data_frame q (segs ! q))"
| "emits_ok segs n (Log e) \<longleftrightarrow> True"
| "emits_ok segs n (Deliver p) \<longleftrightarrow> False"

lemma emits_ok_mono: "emits_ok segs n e \<Longrightarrow> n \<le> n' \<Longrightarrow> emits_ok segs n' e"
  by (cases e) (auto intro: less_le_trans)

lemmas sender_invs = ctl_inv_def snd_inv_def acked_below_def

section \<open>The start\<close>

lemma new_sender_inv: "ctl_inv new_sender" "no_stall new_sender" "snd_inv [] new_sender" "acked_below 0 new_sender"
  by (simp_all add: new_sender_def sender_invs no_stall_def arp_consts)

section \<open>Pumping\<close>

lemma pump_one_simps:
  "cwnd (fst (pump_one env p s)) = cwnd s" "ssthresh (fst (pump_one env p s)) = ssthresh s"
  "rto (fst (pump_one env p s)) = rto s" "rwnd (fst (pump_one env p s)) = rwnd s"
  "highestAck (fst (pump_one env p s)) = highestAck s" "nextSeq (fst (pump_one env p s)) = Suc (nextSeq s)"
  "inFlight (fst (pump_one env p s)) = jm_set (inFlight s) (nextSeq s)
     \<lparr>fl_seq = nextSeq s, fl_payload = p, fl_sentAt = env_now env, fl_retransmitted = False\<rparr>"
  by (simp_all add: pump_one_def Let_def)

lemma pump_loop_Cons:
  "pump_loop env w (p # q) s =
    (if of_nat (length (inFlight s)) < w
     then (fst (pump_loop env w q (fst (pump_one env p s))),
           snd (pump_one env p s) @ snd (pump_loop env w q (fst (pump_one env p s))))
     else (s\<lparr>sendQueue := p # q\<rparr>, []))"
  by (simp split: prod.splits)

lemma pump_loop_ctl: "ctl_inv s \<Longrightarrow> ctl_inv (fst (pump_loop env w q s))"
proof (induction q arbitrary: s)
  case (Cons p q)
  then have "ctl_inv (fst (pump_one env p s))" by (simp add: ctl_inv_def pump_one_simps)
  with Cons show ?case by (simp add: pump_loop_Cons del: pump_loop.simps) (simp add: ctl_inv_def)
qed (simp add: ctl_inv_def)

lemma pump_loop_stall: "1 \<le> w \<Longrightarrow> no_stall (fst (pump_loop env w q s))"
proof (induction q arbitrary: s)
  case (Cons p q)
  then show ?case by (auto simp: pump_loop_Cons no_stall_def simp del: pump_loop.simps)
qed (simp add: no_stall_def)

lemma snd_inv_pump_one:
  assumes inv: "snd_inv segs (s\<lparr>sendQueue := p # q\<rparr>)"
  shows "snd_inv segs ((fst (pump_one env p s))\<lparr>sendQueue := q\<rparr>)"
    and "\<forall>e \<in> set (snd (pump_one env p s)). emits_ok segs (Suc (nextSeq s)) e"
    and "acked_below n s \<Longrightarrow> acked_below n (fst (pump_one env p s))"
proof -
  have q: "p # q = drop (nextSeq s) segs" "nextSeq s \<le> length segs" using inv by (simp_all add: snd_inv_def)
  then have lt: "nextSeq s < length segs" by (cases "nextSeq s = length segs") auto
  with q have p: "p = segs ! nextSeq s" "q = drop (Suc (nextSeq s)) segs"
    by (simp_all add: Cons_nth_drop_Suc [symmetric])
  show "snd_inv segs ((fst (pump_one env p s))\<lparr>sendQueue := q\<rparr>)"
    using inv lt p by (auto simp: snd_inv_def pump_one_simps jm_set_set)
  show "\<forall>e \<in> set (snd (pump_one env p s)). emits_ok segs (Suc (nextSeq s)) e"
    using p by (auto simp: pump_one_def Let_def)
  have "fst ` set (jm_set (inFlight s) (nextSeq s) f) = insert (nextSeq s) (fst ` set (inFlight s))" for f
    by (auto simp: dom_update)
  then show "acked_below n s \<Longrightarrow> acked_below n (fst (pump_one env p s))"
    by (auto simp: acked_below_def pump_one_simps less_Suc_eq)
qed

lemma acked_below_queue [simp]: "acked_below n (s\<lparr>sendQueue := q\<rparr>) = acked_below n s"
  by (simp add: acked_below_def)

lemma pump_loop_safe:
  assumes "snd_inv segs (s\<lparr>sendQueue := q\<rparr>)" and "pump_loop env w q s = (s', es)"
  shows "snd_inv segs s' \<and> nextSeq s \<le> nextSeq s' \<and> (\<forall>e \<in> set es. emits_ok segs (nextSeq s') e)
    \<and> (acked_below n s \<longrightarrow> acked_below n s')"
  using assms
proof (induction q arbitrary: s s' es)
  case Nil
  then show ?case by auto
next
  case (Cons p q)
  note one = snd_inv_pump_one [where env = env, OF Cons.prems(1)]
  let ?s1 = "fst (pump_one env p s)"
  show ?case
  proof (cases "of_nat (length (inFlight s)) < w")
    case True
    obtain s2 es2 where l: "pump_loop env w q ?s1 = (s2, es2)" by fastforce
    have res: "s' = s2" "es = snd (pump_one env p s) @ es2"
      using Cons.prems(2) True l by (simp_all add: pump_loop_Cons del: pump_loop.simps)
    have n1: "nextSeq ?s1 = Suc (nextSeq s)" by (rule pump_one_simps)
    note IH = Cons.IH [OF one(1) l]
    have "\<forall>e \<in> set (snd (pump_one env p s)). emits_ok segs (nextSeq s2) e"
      using one(2) n1 IH by (auto elim!: emits_ok_mono)
    with IH one(3) n1 res show ?thesis by auto
  next
    case False
    with Cons.prems show ?thesis by auto
  qed
qed

lemma pump_safe:
  "snd_inv segs s \<Longrightarrow> pump env s = (s', es) \<Longrightarrow>
    snd_inv segs s' \<and> nextSeq s \<le> nextSeq s' \<and> (\<forall>e \<in> set es. emits_ok segs (nextSeq s') e)
    \<and> (acked_below n s \<longrightarrow> acked_below n s')"
  unfolding pump_def by (rule pump_loop_safe) simp_all

lemma pump_ctl: "ctl_inv s \<Longrightarrow> ctl_inv (fst (pump env s))"
  unfolding pump_def by (rule pump_loop_ctl)

lemma pump_stall: "ctl_inv s \<Longrightarrow> no_stall (fst (pump env s))"
  unfolding pump_def by (rule pump_loop_stall) (simp add: ctl_inv_def)

section \<open>Enqueue\<close>

lemma enqueue_safe:
  assumes inv: "snd_inv segs s" and run: "enqueue env p s = (s', es)"
  defines "segs' \<equiv> (if p = [] then segs else segs @ [p])"
  shows "snd_inv segs' s' \<and> nextSeq s \<le> nextSeq s' \<and> (\<forall>e \<in> set es. emits_ok segs' (nextSeq s') e)
    \<and> (acked_below n s \<longrightarrow> acked_below n s')"
proof (cases "p = []")
  case True
  then show ?thesis using inv run by (auto simp: enqueue_def segs'_def)
next
  case False
  have "snd_inv (segs @ [p]) (s\<lparr>sendQueue := sendQueue s @ [p]\<rparr>)"
    using inv by (auto simp: snd_inv_def nth_append split: prod.splits dest!: bspec)
  then show ?thesis
    using pump_safe run False by (fastforce simp: enqueue_def segs'_def)
qed

lemma enqueue_ctl: "ctl_inv s \<Longrightarrow> ctl_inv (fst (enqueue env p s))"
  by (auto simp: enqueue_def intro!: pump_ctl) (simp add: ctl_inv_def)

lemma enqueue_stall: "ctl_inv s \<Longrightarrow> no_stall s \<Longrightarrow> no_stall (fst (enqueue env p s))"
  by (auto simp: enqueue_def intro!: pump_stall) (simp add: ctl_inv_def)

section \<open>Acknowledgements\<close>

lemma updateRtt_simps [simp]:
  "cwnd (updateRtt x s) = cwnd s" "ssthresh (updateRtt x s) = ssthresh s" "rwnd (updateRtt x s) = rwnd s"
  "inFlight (updateRtt x s) = inFlight s" "nextSeq (updateRtt x s) = nextSeq s"
  "sendQueue (updateRtt x s) = sendQueue s" "highestAck (updateRtt x s) = highestAck s"
  "lastDupAckSeq (updateRtt x s) = lastDupAckSeq s" "dupAcks (updateRtt x s) = dupAcks s"
  "mode (updateRtt x s) = mode s"
  by (simp_all add: updateRtt_def Let_def)

lemma rto_updateRtt: "ARP_MIN_RTO_MS \<le> rto (updateRtt x s) \<and> rto (updateRtt x s) \<le> ARP_MAX_RTO_MS"
  by (simp add: updateRtt_def Let_def arp_consts)

lemma ctl_updateRtt: "ctl_inv s \<Longrightarrow> ctl_inv (updateRtt x s)"
  using rto_updateRtt [of x s] by (simp add: ctl_inv_def)

text \<open>The fields an acknowledgement's walk over the flight leaves alone.\<close>

definition same_window :: "sender \<Rightarrow> sender \<Rightarrow> bool" where
  "same_window s s' \<longleftrightarrow> cwnd s' = cwnd s \<and> ssthresh s' = ssthresh s \<and> rwnd s' = rwnd s \<and> nextSeq s' = nextSeq s
    \<and> sendQueue s' = sendQueue s \<and> lastDupAckSeq s' = lastDupAckSeq s \<and> dupAcks s' = dupAcks s \<and> mode s' = mode s
    \<and> highestAck s' = highestAck s"

lemma accept_one_ok:
  "jm_wf (inFlight s) \<Longrightarrow> accept_one now c q (s, k) = (s', k') \<Longrightarrow>
    same_window s s' \<and> (ctl_inv s \<longrightarrow> ctl_inv s') \<and>
    inFlight s' = (if q < c then jm_del (inFlight s) q else inFlight s) \<and>
    k' = (if q < c \<and> jm_has (inFlight s) q then Suc k else k)"
  by (auto simp: accept_one_def same_window_def Let_def ctl_inv_def rto_updateRtt AList.delete_idem map_of_eq_None_iff
      split: if_splits option.splits dest: sym intro: rev_image_eqI)

lemma accept_fold_ok:
  "jm_wf (inFlight s) \<Longrightarrow> distinct ks \<Longrightarrow> fold (accept_one now c) ks (s, k) = (s', k') \<Longrightarrow>
    same_window s s' \<and> (ctl_inv s \<longrightarrow> ctl_inv s') \<and>
    inFlight s' = filter (\<lambda>(q, _). \<not> (q \<in> set ks \<and> q < c)) (inFlight s) \<and>
    k' = k + length (filter (\<lambda>q. q < c \<and> jm_has (inFlight s) q) ks)"
proof (induction ks arbitrary: s k)
  case Nil
  then show ?case by (auto simp: same_window_def)
next
  case (Cons q ks)
  obtain s1 k1 where one: "accept_one now c q (s, k) = (s1, k1)" by fastforce
  note O = accept_one_ok [OF Cons.prems(1) one]
  have wf1: "jm_wf (inFlight s1)" using O Cons.prems(1) by simp
  have rest: "fold (accept_one now c) ks (s1, k1) = (s', k')" using Cons.prems(3) one by simp
  note R = Cons.IH [OF wf1 _ rest]
  have has: "jm_has (inFlight s1) r = jm_has (inFlight s) r" if "r \<in> set ks" for r
    using O that Cons.prems(2) by auto
  have "filter (\<lambda>r. r < c \<and> jm_has (inFlight s1) r) ks = filter (\<lambda>r. r < c \<and> jm_has (inFlight s) r) ks"
    using has by (intro filter_cong) auto
  moreover have "filter (\<lambda>(r, _). \<not> (r \<in> set ks \<and> r < c)) (inFlight s1)
      = filter (\<lambda>(r, _). \<not> (r \<in> set (q # ks) \<and> r < c)) (inFlight s)"
    using O Cons.prems(2) by (auto simp: AList.delete_eq intro!: filter_cong)
  ultimately show ?case
    using R O Cons.prems(2) by (auto simp: same_window_def)
qed

lemma accept_ok:
  assumes wf: "jm_wf (inFlight s)" and run: "acceptCumulativeAck env c s = (s', newly)"
  shows "same_window (s\<lparr>highestAck := max (highestAck s) c\<rparr>) s' \<and> (ctl_inv s \<longrightarrow> ctl_inv s') \<and>
    inFlight s' = (if c \<le> highestAck s then inFlight s else filter (\<lambda>(q, _). \<not> q < c) (inFlight s)) \<and>
    newly = (if c \<le> highestAck s then 0 else length (filter (\<lambda>(q, _). q < c) (inFlight s)))"
proof (cases "c \<le> highestAck s")
  case True
  then show ?thesis using run by (auto simp: acceptCumulativeAck_def same_window_def)
next
  case False
  obtain s1 k1 where f: "fold (accept_one (env_now env) c) (jm_keys (inFlight s)) (s, 0) = (s1, k1)" by fastforce
  note A = accept_fold_ok [OF wf wf f]
  have res: "s' = s1\<lparr>highestAck := c\<rparr>" "newly = k1" using run False f by (auto simp: acceptCumulativeAck_def)
  have "filter (\<lambda>(q, _). \<not> (q \<in> set (jm_keys (inFlight s)) \<and> q < c)) (inFlight s)
      = filter (\<lambda>(q, _). \<not> q < c) (inFlight s)"
    by (rule filter_cong) force+
  moreover have "filter (\<lambda>q. q < c \<and> jm_has (inFlight s) q) (jm_keys (inFlight s))
      = filter (\<lambda>q. q < c) (jm_keys (inFlight s))"
    by (rule filter_cong) (auto simp: map_of_eq_None_iff weak_map_of_SomeI)
  moreover have "length (filter (\<lambda>q. q < c) (jm_keys m)) = length (filter (\<lambda>(q, _). q < c) m)" for m :: "(nat, in_flight) jmap"
    by (induction m) auto
  ultimately show ?thesis
    using A res False by (simp add: same_window_def ctl_inv_def)
qed

lemma accept_safe:
  assumes inv: "snd_inv segs s" and run: "acceptCumulativeAck env c s = (s', newly)"
  shows "snd_inv segs s'" "c \<le> n \<Longrightarrow> acked_below n s \<Longrightarrow> acked_below n s'" "nextSeq s' = nextSeq s"
proof -
  have wf: "jm_wf (inFlight s)" using inv by (simp add: snd_inv_def)
  note A = accept_ok [OF wf run]
  have sub: "set (inFlight s') \<subseteq> set (inFlight s)" using A by (auto split: if_splits)
  have "jm_wf (inFlight s')" using A wf by (auto simp: distinct_map_filter split: if_splits)
  then show "snd_inv segs s'"
    using inv A sub by (auto simp: snd_inv_def same_window_def)
  show "nextSeq s' = nextSeq s" using A by (simp add: same_window_def)
  have gone: "q < c" if "q \<in> fst ` set (inFlight s)" "q \<notin> fst ` set (inFlight s')" for q
    using A that by (force split: if_splits)
  then show "c \<le> n \<Longrightarrow> acked_below n s \<Longrightarrow> acked_below n s'"
    using A by (fastforce simp: acked_below_def same_window_def)
qed

section \<open>Retransmission\<close>

text \<open>What a change of windows and counters leaves alone.\<close>

definition same_flight :: "sender \<Rightarrow> sender \<Rightarrow> bool" where
  "same_flight s s' \<longleftrightarrow> inFlight s' = inFlight s \<and> sendQueue s' = sendQueue s \<and> nextSeq s' = nextSeq s
    \<and> highestAck s' = highestAck s"

lemma same_flight_invs:
  "same_flight s s' \<Longrightarrow> snd_inv segs s' = snd_inv segs s"
  "same_flight s s' \<Longrightarrow> acked_below n s' = acked_below n s"
  "same_flight s s' \<Longrightarrow> no_stall s' = no_stall s"
  by (simp_all add: same_flight_def snd_inv_def acked_below_def no_stall_def)

lemma retransmit_safe:
  assumes inv: "snd_inv segs s" and seg: "(q, seg) \<in> set (inFlight s)"
    and run: "retransmitSegment env seg s = (s', es)"
  shows "snd_inv segs s'" "acked_below n s \<Longrightarrow> acked_below n s'" "nextSeq s' = nextSeq s"
    "\<forall>e \<in> set es. emits_ok segs (nextSeq s') e" "no_stall s'" "ctl_inv s \<Longrightarrow> ctl_inv s'"
proof -
  have q: "fl_seq seg = q" "q < nextSeq s" "fl_payload seg = segs ! q" and wf: "jm_wf (inFlight s)"
    using inv seg by (auto simp: snd_inv_def)
  have s': "s' = s\<lparr>inFlight := jm_set (inFlight s) q (seg\<lparr>fl_sentAt := env_now env, fl_retransmitted := True\<rparr>),
      retransmits := retransmits s + 1\<rparr>"
    using run q by (auto simp: retransmitSegment_def Let_def)
  have keys: "fst ` set (inFlight s') = fst ` set (inFlight s)"
    using seg by (force simp: s' dom_update)
  show "snd_inv segs s'" using inv q wf by (auto simp: s' snd_inv_def jm_set_set)
  show "acked_below n s \<Longrightarrow> acked_below n s'" using keys by (simp add: s' acked_below_def)
  show "nextSeq s' = nextSeq s" by (simp add: s')
  show "\<forall>e \<in> set es. emits_ok segs (nextSeq s') e"
    using run q by (auto simp: retransmitSegment_def Let_def intro!: exI [of _ q])
  show "no_stall s'" using seg by (auto simp: s' no_stall_def update_nonempty)
  show "ctl_inv s \<Longrightarrow> ctl_inv s'" by (simp add: s' ctl_inv_def)
qed

lemma half_window_ge: "2 \<le> half_window w"
  by (simp add: half_window_def)

lemma fastRetransmit_safe:
  assumes inv: "snd_inv segs s" and run: "fastRetransmit env c s = (s', es)"
  shows "snd_inv segs s' \<and> nextSeq s \<le> nextSeq s' \<and> (\<forall>e \<in> set es. emits_ok segs (nextSeq s') e)
    \<and> (acked_below n s \<longrightarrow> acked_below n s') \<and> (no_stall s \<longrightarrow> no_stall s') \<and> (ctl_inv s \<longrightarrow> ctl_inv s')"
proof (cases "jm_get (inFlight s) c")
  case None
  with run inv show ?thesis by (auto simp: fastRetransmit_def)
next
  case (Some seg)
  let ?w = "s\<lparr>ssthresh := half_window (cwnd s), cwnd := half_window (cwnd s) + of_nat ARP_DUP_ACK_THRESHOLD,
      mode := FastRecovery, fastRetransmits := fastRetransmits s + 1\<rparr>"
  have same: "same_flight s ?w" by (simp add: same_flight_def)
  have inv': "snd_inv segs ?w" using inv same_flight_invs(1) [OF same] by simp
  have mem: "(c, seg) \<in> set (inFlight ?w)" using Some by (simp add: map_of_SomeD)
  have "retransmitSegment env seg ?w = (s', es)" using run Some by (simp add: fastRetransmit_def)
  note R = retransmit_safe [OF inv' mem this]
  have "ctl_inv s \<longrightarrow> ctl_inv ?w" using half_window_ge [of "cwnd s"] by (simp add: ctl_inv_def arp_consts)
  with R same_flight_invs(2) [OF same] show ?thesis by auto
qed

lemma onAck_cases:
  assumes "onAck env c w s0 = (s', es)"
  obtains s newly where "acceptCumulativeAck env c
      (s0\<lparr>rwnd := (if w > 0 then w else ARP_DEFAULT_RWND)\<rparr>) = (s, newly)"
    and "0 < newly \<Longrightarrow> pump env (grow_window newly
            ((leave_recovery s)\<lparr>dupAcks := 0, lastDupAckSeq := int c\<rparr>)) = (s', es)"
    and "newly = 0 \<Longrightarrow> inFlight s = [] \<Longrightarrow> s' = s \<and> es = []"
    and "newly = 0 \<Longrightarrow> inFlight s \<noteq> [] \<Longrightarrow>
      \<exists>d. let s1 = s\<lparr>dupAcks := d, lastDupAckSeq := int c\<rparr>
          in if d = ARP_DUP_ACK_THRESHOLD then fastRetransmit env c s1 = (s', es) else s' = s1 \<and> es = []"
proof -
  obtain s newly where a: "acceptCumulativeAck env c
      (s0\<lparr>rwnd := (if w > 0 then w else ARP_DEFAULT_RWND)\<rparr>) = (s, newly)" by fastforce
  show ?thesis
  proof (rule that [OF a])
    show "0 < newly \<Longrightarrow> pump env (grow_window newly
            ((leave_recovery s)\<lparr>dupAcks := 0, lastDupAckSeq := int c\<rparr>)) = (s', es)"
      using assms a by (simp add: onAck_def Let_def)
    show "newly = 0 \<Longrightarrow> inFlight s = [] \<Longrightarrow> s' = s \<and> es = []"
      using assms a by (auto simp: onAck_def Let_def)
    assume n0: "newly = 0" "inFlight s \<noteq> []"
    show "\<exists>d. let s1 = s\<lparr>dupAcks := d, lastDupAckSeq := int c\<rparr>
          in if d = ARP_DUP_ACK_THRESHOLD then fastRetransmit env c s1 = (s', es) else s' = s1 \<and> es = []"
    proof (cases "int c = lastDupAckSeq s")
      case True
      then have "s\<lparr>dupAcks := d, lastDupAckSeq := int c\<rparr> = s\<lparr>dupAcks := d\<rparr>" for d by simp
      with True assms a n0 show ?thesis
        by (intro exI [of _ "dupAcks s + 1"]) (auto simp: onAck_def Let_def split: if_splits)
    next
      case False
      with assms a n0 show ?thesis
        by (intro exI [of _ 1]) (auto simp: onAck_def Let_def split: if_splits)
    qed
  qed
qed

lemma ctl_grow: "ctl_inv s \<Longrightarrow> ctl_inv (grow_window n ((leave_recovery s)\<lparr>dupAcks := d, lastDupAckSeq := l\<rparr>))"
  by (auto simp: ctl_inv_def grow_window_def leave_recovery_def intro: add_increasing2)

lemma same_flight_grow:
  "same_flight s (grow_window n ((leave_recovery s)\<lparr>dupAcks := d, lastDupAckSeq := l\<rparr>))"
  by (simp add: same_flight_def grow_window_def leave_recovery_def)

lemma onAck_ok:
  assumes inv: "snd_inv segs s0" and run: "onAck env c w s0 = (s', es)"
  shows "snd_inv segs s' \<and> nextSeq s0 \<le> nextSeq s' \<and> (\<forall>e \<in> set es. emits_ok segs (nextSeq s') e)
    \<and> (c \<le> n \<and> acked_below n s0 \<longrightarrow> acked_below n s') \<and> (ctl_inv s0 \<longrightarrow> ctl_inv s')
    \<and> (ctl_inv s0 \<and> no_stall s0 \<longrightarrow> no_stall s')"
  using run
proof (cases rule: onAck_cases)
  case (1 s newly)
  let ?s1 = "s0\<lparr>rwnd := (if w > 0 then w else ARP_DEFAULT_RWND)\<rparr>"
  have same: "same_flight s0 ?s1" by (simp add: same_flight_def)
  have inv1: "snd_inv segs ?s1" using inv same_flight_invs(1) [OF same] by simp
  have wf1: "jm_wf (inFlight ?s1)" using inv1 by (simp add: snd_inv_def)
  note S = accept_safe [OF inv1 1(1)] note A = accept_ok [OF wf1 1(1)]
  have ctl1: "ctl_inv s0 \<longrightarrow> ctl_inv ?s1" by (simp add: ctl_inv_def arp_consts)
  have ctl: "ctl_inv s0 \<longrightarrow> ctl_inv s" using A ctl1 by blast
  have next_eq: "nextSeq s = nextSeq s0" using S(3) by simp
  have below: "c \<le> n \<and> acked_below n s0 \<longrightarrow> acked_below n s"
    using S(2) same_flight_invs(2) [OF same] by simp
  show ?thesis
  proof (cases "newly = 0")
    case False
    let ?g = "grow_window newly ((leave_recovery s)\<lparr>dupAcks := 0, lastDupAckSeq := int c\<rparr>)"
    have p: "pump env ?g = (s', es)" using 1(2) False by simp
    have sg: "same_flight s ?g" by (rule same_flight_grow)
    have "snd_inv segs ?g" using S(1) same_flight_invs(1) [OF sg] by simp
    note P = pump_safe [OF this p]
    have "ctl_inv s0 \<longrightarrow> ctl_inv s' \<and> no_stall s'"
      using ctl ctl_grow pump_ctl [of ?g env] pump_stall [of ?g env] p by auto
    then show ?thesis
      using P below same_flight_invs(2) [OF sg] sg next_eq by (auto simp: same_flight_def)
  next
    case True
    have "inFlight s = inFlight s0"
    proof (cases "c \<le> highestAck ?s1")
      case False
      then have "filter (\<lambda>(q, _). q < c) (inFlight s0) = []" using A True by simp
      then have "filter (\<lambda>(q, _). \<not> q < c) (inFlight s0) = inFlight s0"
        by (simp add: filter_empty_conv case_prod_unfold)
      with A False show ?thesis by simp
    qed (use A in simp)
    then have stall: "no_stall s0 \<longrightarrow> no_stall s" using A by (simp add: no_stall_def same_window_def)
    show ?thesis
    proof (cases "inFlight s = []")
      case fl: True
      then show ?thesis using 1(3) True S(1) next_eq below ctl stall by auto
    next
      case fl: False
      obtain d where d: "let s1 = s\<lparr>dupAcks := d, lastDupAckSeq := int c\<rparr>
          in if d = ARP_DUP_ACK_THRESHOLD then fastRetransmit env c s1 = (s', es) else s' = s1 \<and> es = []"
        using 1(4) True fl by blast
      let ?d = "s\<lparr>dupAcks := d, lastDupAckSeq := int c\<rparr>"
      have sd: "same_flight s ?d" by (simp add: same_flight_def)
      have dinv: "snd_inv segs ?d" "ctl_inv s \<longrightarrow> ctl_inv ?d"
        using S(1) same_flight_invs(1) [OF sd] by (simp_all add: ctl_inv_def)
      show ?thesis
        using fastRetransmit_safe [OF dinv(1), of env c s' es n] d dinv next_eq below ctl stall
          same_flight_invs(2,3) [OF sd] by (auto simp: Let_def split: if_splits)
    qed
  qed
qed

section \<open>The retransmission timer\<close>

lemma fold_older_mem: "fold older segs b = Some o1 \<Longrightarrow> o1 \<in> set segs \<or> b = Some o1"
  by (induction segs arbitrary: b) (fastforce simp: older_def split: option.splits if_splits)+

lemma fold_older_least:
  "fold older segs b = Some o1 \<Longrightarrow> (\<forall>f \<in> set segs. fl_sentAt o1 \<le> fl_sentAt f)
    \<and> (\<forall>f. b = Some f \<longrightarrow> fl_sentAt o1 \<le> fl_sentAt f)"
  by (induction segs arbitrary: b) (force simp: older_def split: option.splits if_splits)+

lemma fold_older_None: "fold older segs b = None \<longleftrightarrow> segs = [] \<and> b = None"
proof (induction segs arbitrary: b)
  case (Cons f segs)
  have "older f b \<noteq> None" by (auto simp: older_def split: option.splits)
  with Cons show ?case by auto
qed simp

lemma tick_safe:
  assumes inv: "snd_inv segs s" and run: "tick env s = (s', es)"
  shows "snd_inv segs s' \<and> nextSeq s \<le> nextSeq s' \<and> (\<forall>e \<in> set es. emits_ok segs (nextSeq s') e)
    \<and> (acked_below n s \<longrightarrow> acked_below n s') \<and> (no_stall s \<longrightarrow> no_stall s') \<and> (ctl_inv s \<longrightarrow> ctl_inv s')"
proof (cases "fold older (jm_values (inFlight s)) None")
  case None
  with run inv show ?thesis by (auto simp: tick_def)
next
  case (Some oldest)
  then have "oldest \<in> set (jm_values (inFlight s))" by (auto dest: fold_older_mem)
  then obtain q where mem: "(q, oldest) \<in> set (inFlight s)" by auto
  show ?thesis
  proof (cases "env_now env - fl_sentAt oldest < rto s")
    case True
    with run inv Some show ?thesis by (auto simp: tick_def)
  next
    case False
    let ?w = "s\<lparr>ssthresh := half_window (cwnd s), cwnd := ARP_INITIAL_CWND, mode := SlowStart,
              rtoExpiries := rtoExpiries s + 1, dupAcks := 0, rto := min (rto s * 2) ARP_MAX_RTO_MS\<rparr>"
    have same: "same_flight s ?w" by (simp add: same_flight_def)
    have inv': "snd_inv segs ?w" using inv same_flight_invs(1) [OF same] by simp
    have "retransmitSegment env oldest ?w = (s', es)" using run Some False by (simp add: tick_def)
    note R = retransmit_safe [OF inv' _ this]
    have "ctl_inv s \<longrightarrow> ctl_inv ?w"
      using half_window_ge [of "cwnd s"] by (auto simp: ctl_inv_def arp_consts)
    with R mem same_flight_invs(2) [OF same] show ?thesis by auto
  qed
qed

end
