(* ===== verification/ArpSession.thy ===== *)
theory ArpSession imports ArpSender begin

text \<open>
  The session of \<open>frontend/src/lib/arpSession.ts\<close> that binds sender and receiver to a data
  channel, and two sessions connected by a network that may lose, duplicate and reorder
  everything. The main result: what a peer's \<open>onMessage\<close> has received is at every moment a
  prefix of what the other side passed to \<open>send\<close>.
\<close>

section \<open>The session\<close>

definition PACKET_LOG_MAX :: nat where "PACKET_LOG_MAX = 200"
definition TICK_INTERVAL_MS :: nat where "TICK_INTERVAL_MS = 20"

text \<open>
  \<open>ses_wire\<close> is every buffer handed to \<open>dc.send\<close> so far and \<open>ses_messages\<close> every payload handed
  to \<open>onMessage\<close>: what the outside has seen of the session. \<open>ses_open\<close> is
  \<open>dc.readyState = 'open'\<close>, \<open>ses_timer\<close> whether the interval runs, \<open>ses_listening\<close> whether the
  channel's listeners are attached.
\<close>

record arp_session =
  ses_sender :: sender
  ses_receiver :: receiver
  ses_timer :: bool
  ses_packetLog :: "packet_log_entry list"
  ses_lossPct :: rat
  ses_open :: bool
  ses_listening :: bool
  ses_wire :: "bytes list"
  ses_messages :: "bytes list"

definition new_ArpSession :: "bool \<Rightarrow> arp_session" where
  "new_ArpSession dc_open = \<lparr>ses_sender = new_sender, ses_receiver = new_receiver, ses_timer = False,
    ses_packetLog = [], ses_lossPct = 0, ses_open = dc_open, ses_listening = True, ses_wire = [], ses_messages = []\<rparr>"

definition push_log :: "packet_log_entry \<Rightarrow> packet_log_entry list \<Rightarrow> packet_log_entry list" where
  "push_log e plog =
    (let l = plog @ [e] in if length l > PACKET_LOG_MAX then drop (length l - PACKET_LOG_MAX) l else l)"

text \<open>
  What one handler sees of the outside: the clock, the draw of \<open>Math.random\<close> for a frame, and
  whether \<open>dc.send\<close> throws on it.
\<close>

record session_env =
  se_now :: rat
  se_random :: "arp_frame \<Rightarrow> rat"
  se_throws :: "arp_frame \<Rightarrow> bool"

definition transmit :: "session_env \<Rightarrow> arp_session \<Rightarrow> arp_frame \<Rightarrow> bool" where
  "transmit w ses frame =
    (if \<not> ses_open ses then False
     else if af_type frame = ARP_FRAME_DATA \<and> se_random w frame < ses_lossPct ses then False
     else \<not> se_throws w frame)"

definition session_io :: "session_env \<Rightarrow> arp_session \<Rightarrow> arp_env" where
  "session_io w ses = \<lparr>env_now = se_now w, env_send = transmit w ses\<rparr>"

fun apply_effect :: "arp_effect \<Rightarrow> arp_session \<Rightarrow> arp_session" where
  "apply_effect (Emit frame sent) ses =
    (if sent then ses\<lparr>ses_wire := ses_wire ses @ [encodeFrame frame]\<rparr> else ses)"
| "apply_effect (Log e) ses = ses\<lparr>ses_packetLog := push_log e (ses_packetLog ses)\<rparr>"
| "apply_effect (Deliver p) ses = ses\<lparr>ses_messages := ses_messages ses @ [p]\<rparr>"

definition on_sender ::
  "session_env \<Rightarrow> (arp_env \<Rightarrow> sender \<Rightarrow> sender \<times> arp_effect list) \<Rightarrow> arp_session \<Rightarrow> arp_session" where
  "on_sender w f ses =
    (case f (session_io w ses) (ses_sender ses) of
      (s, es) \<Rightarrow> fold apply_effect es (ses\<lparr>ses_sender := s\<rparr>))"

definition on_receiver ::
  "session_env \<Rightarrow> (arp_env \<Rightarrow> receiver \<Rightarrow> receiver \<times> arp_effect list) \<Rightarrow> arp_session \<Rightarrow> arp_session" where
  "on_receiver w f ses =
    (case f (session_io w ses) (ses_receiver ses) of
      (r, es) \<Rightarrow> fold apply_effect es (ses\<lparr>ses_receiver := r\<rparr>))"

text \<open>The slices of \<open>send\<close>: \<open>ARP_MSS\<close> bytes each, the last one what is left.\<close>

function segments :: "bytes \<Rightarrow> bytes list" where
  "segments bs = (if bs = [] then [] else take ARP_MSS bs # segments (drop ARP_MSS bs))"
  by auto

termination
  by (relation "measure length") (auto simp: ARP_MSS_def)

declare segments.simps [simp del]

definition session_send :: "session_env \<Rightarrow> bytes \<Rightarrow> arp_session \<Rightarrow> arp_session" where
  "session_send w bs ses = fold (\<lambda>seg. on_sender w (\<lambda>env. enqueue env seg)) (segments bs) ses"

definition session_tick :: "session_env \<Rightarrow> arp_session \<Rightarrow> arp_session" where
  "session_tick w ses = (if ses_timer ses then on_sender w tick ses else ses)"

definition session_start :: "arp_session \<Rightarrow> arp_session" where
  "session_start ses = (if ses_timer ses then ses else ses\<lparr>ses_timer := True\<rparr>)"

definition session_stop :: "arp_session \<Rightarrow> arp_session" where
  "session_stop ses = (if ses_timer ses then ses\<lparr>ses_timer := False\<rparr> else ses)"

definition session_destroy :: "arp_session \<Rightarrow> arp_session" where
  "session_destroy ses = (session_stop ses)\<lparr>ses_listening := False\<rparr>"

text \<open>The data of a channel message: an array buffer or something else.\<close>

datatype dc_data = Buffer bytes | OtherData

definition handleMessage :: "session_env \<Rightarrow> dc_data \<Rightarrow> arp_session \<Rightarrow> arp_session" where
  "handleMessage w data ses =
    (case data of
       OtherData \<Rightarrow> ses
     | Buffer buf \<Rightarrow>
         (case decodeFrame buf of
            None \<Rightarrow> ses
          | Some frame \<Rightarrow>
              if af_type frame = ARP_FRAME_DATA
              then on_receiver w (\<lambda>env. onData env frame) ses
              else if af_type frame = ARP_FRAME_ACK
              then on_sender w (\<lambda>env. onAck env (af_ack frame) (af_window frame)) ses
              else ses))"

record arp_session_snapshot =
  sn_sender :: sender_snapshot
  sn_receiver :: receiver_snapshot
  sn_packetLog :: "packet_log_entry list"
  sn_lossPct :: rat
  sn_open :: bool

definition session_snapshot :: "arp_session \<Rightarrow> arp_session_snapshot" where
  "session_snapshot ses = \<lparr>sn_sender = sender_snapshot_of (ses_sender ses),
    sn_receiver = receiver_snapshot_of (ses_receiver ses), sn_packetLog = ses_packetLog ses,
    sn_lossPct = ses_lossPct ses, sn_open = ses_open ses\<rparr>"

section \<open>Segments\<close>

lemma concat_segments: "concat (segments bs) = bs"
  by (induction bs rule: segments.induct) (subst segments.simps, auto)

lemma segments_bounds: "seg \<in> set (segments bs) \<Longrightarrow> seg \<noteq> [] \<and> length seg \<le> ARP_MSS"
proof (induction bs rule: segments.induct)
  case (1 bs)
  then show ?case by (subst (asm) (2) segments.simps) (auto split: if_splits simp: ARP_MSS_def)
qed

section \<open>The receiver's invariant\<close>

text \<open>Everything buffered is the segment its number names, among the first \<open>n\<close>.\<close>

definition rcv_inv :: "bytes list \<Rightarrow> nat \<Rightarrow> receiver \<Rightarrow> bool" where
  "rcv_inv segs n r \<longleftrightarrow> expectedSeq r \<le> n \<and> n \<le> length segs \<and> jm_wf (outOfOrder r) \<and>
    (\<forall>(q, p) \<in> set (outOfOrder r). q < n \<and> p = segs ! q)"

definition deliveries :: "arp_effect list \<Rightarrow> bytes list" where
  "deliveries es = concat (map (\<lambda>e. case e of Deliver p \<Rightarrow> [p] | _ \<Rightarrow> []) es)"

lemma deliveries_simps [simp]:
  "deliveries [] = []" "deliveries (Deliver p # es) = p # deliveries es"
  "deliveries (Emit f b # es) = deliveries es" "deliveries (Log l # es) = deliveries es"
  "deliveries (es @ es') = deliveries es @ deliveries es'"
  by (simp_all add: deliveries_def)

fun is_deliver :: "arp_effect \<Rightarrow> bool" where
  "is_deliver (Deliver p) = True"
| "is_deliver _ = False"

lemma drain_ok:
  "rcv_inv segs n r \<Longrightarrow> drain r = (r', es) \<Longrightarrow>
    rcv_inv segs n r' \<and> expectedSeq r \<le> expectedSeq r' \<and>
    take (expectedSeq r') segs = take (expectedSeq r) segs @ deliveries es \<and> list_all is_deliver es"
proof (induction r arbitrary: r' es rule: drain.induct)
  case (1 r)
  show ?case
  proof (cases "jm_get (outOfOrder r) (expectedSeq r)")
    case None
    with 1 show ?thesis by (simp add: drain.simps [of r])
  next
    case (Some p)
    let ?r = "deliver_next p (r\<lparr>outOfOrder := jm_del (outOfOrder r) (expectedSeq r)\<rparr>)"
    obtain r2 es2 where d: "drain ?r = (r2, es2)" by fastforce
    have res: "r' = r2" "es = Deliver p # es2" using "1.prems"(2) Some d by (simp_all add: drain.simps [of r])
    have mem: "(expectedSeq r, p) \<in> set (outOfOrder r)" using Some by (rule map_of_SomeD)
    then have e: "expectedSeq r < n" "p = segs ! expectedSeq r" using "1.prems"(1) by (auto simp: rcv_inv_def)
    have inv: "rcv_inv segs n ?r"
      using "1.prems"(1) e by (auto simp: rcv_inv_def deliver_next_def jm_set_del)
    have n: "n \<le> length segs" using "1.prems"(1) by (simp add: rcv_inv_def)
    have "take (Suc (expectedSeq r)) segs = take (expectedSeq r) segs @ [p]"
      using e n by (simp add: take_Suc_conv_app_nth)
    with "1.IH" [OF Some inv d] res show ?thesis by (auto simp: deliver_next_def)
  qed
qed

lemma onData_ok:
  assumes inv: "rcv_inv segs n r" and frame: "af_seq f < n" "af_payload f = segs ! af_seq f"
    and run: "onData env f r = (r', es)"
  shows "rcv_inv segs n r' \<and> expectedSeq r \<le> expectedSeq r' \<and>
    take (expectedSeq r') segs = take (expectedSeq r) segs @ deliveries es \<and>
    (\<forall>g b. Emit g b \<in> set es \<longrightarrow> g = ack_frame r')"
proof -
  obtain r1 es1 where a: "accept_data f r = (r1, es1)" by fastforce
  have "rcv_inv segs n r1 \<and> expectedSeq r \<le> expectedSeq r1 \<and>
    take (expectedSeq r1) segs = take (expectedSeq r) segs @ deliveries es1 \<and> list_all is_deliver es1"
  proof (cases "af_seq f = expectedSeq r")
    case True
    obtain r2 es2 where d: "drain (deliver_next (af_payload f) r) = (r2, es2)" by fastforce
    have "rcv_inv segs n (deliver_next (af_payload f) r)"
      using inv frame True by (auto simp: rcv_inv_def deliver_next_def)
    note D = drain_ok [OF this d]
    have "take (Suc (expectedSeq r)) segs = take (expectedSeq r) segs @ [af_payload f]"
      using frame True inv by (simp add: take_Suc_conv_app_nth rcv_inv_def)
    then show ?thesis using a d D True by (auto simp: accept_data_def deliver_next_def)
  next
    case False
    then show ?thesis
      using a inv frame by (auto simp: accept_data_def rcv_inv_def jm_set_set split: if_splits)
  qed
  moreover have "r' = r1" "deliveries es = deliveries es1"
    "Emit g b \<in> set es \<Longrightarrow> Emit g b \<in> set es1 \<or> g = ack_frame r1" for g b
    using run a by (auto simp: onData_def)
  ultimately show ?thesis by (fastforce simp: list_all_iff)
qed

end
