(* ===== verification/ArpSystem.thy ===== *)
theory ArpSystem imports ArpSession begin

text \<open>
  Two sessions of \<open>arpSession.ts\<close> over a channel that is neither ordered nor reliable: any
  buffer one side has ever handed to \<open>dc.send\<close> may arrive at the other side at any time, any
  number of times, or never. Invariants over all interleavings of the events of both sides.
\<close>

section \<open>Events of one side\<close>

datatype side_event =
    AppSend bytes
  | TimerTick
  | Start
  | Stop
  | Destroy
  | SetLoss rat
  | ChannelState bool
  | ChannelClosed
  | Message dc_data

fun side_act :: "session_env \<Rightarrow> side_event \<Rightarrow> arp_session \<Rightarrow> arp_session" where
  "side_act w (AppSend bs) ses = session_send w bs ses"
| "side_act w TimerTick ses = session_tick w ses"
| "side_act w Start ses = session_start ses"
| "side_act w Stop ses = session_stop ses"
| "side_act w Destroy ses = session_destroy ses"
| "side_act w (SetLoss pct) ses = ses\<lparr>ses_lossPct := pct\<rparr>"
| "side_act w (ChannelState b) ses = ses\<lparr>ses_open := b\<rparr>"
| "side_act w ChannelClosed ses = (if ses_listening ses then session_stop ses else ses)"
| "side_act w (Message d) ses = (if ses_listening ses then handleMessage w d ses else ses)"

section \<open>What the effects of a handler change\<close>

lemma apply_effects_simps [simp]:
  "ses_sender (fold apply_effect es ses) = ses_sender ses"
  "ses_receiver (fold apply_effect es ses) = ses_receiver ses"
  "ses_timer (fold apply_effect es ses) = ses_timer ses"
  "ses_lossPct (fold apply_effect es ses) = ses_lossPct ses"
  "ses_open (fold apply_effect es ses) = ses_open ses"
  "ses_listening (fold apply_effect es ses) = ses_listening ses"
proof (induction es arbitrary: ses)
  case (Cons e es)
  { case 1 then show ?case using Cons by (cases e) simp_all }
  { case 2 then show ?case using Cons by (cases e) simp_all }
  { case 3 then show ?case using Cons by (cases e) simp_all }
  { case 4 then show ?case using Cons by (cases e) simp_all }
  { case 5 then show ?case using Cons by (cases e) simp_all }
  { case 6 then show ?case using Cons by (cases e) simp_all }
qed simp_all

lemma apply_effects_messages [simp]:
  "ses_messages (fold apply_effect es ses) = ses_messages ses @ deliveries es"
  by (induction es rule: rev_induct) (auto elim!: apply_effect.elims simp: deliveries_def split: arp_effect.splits)

lemma apply_effects_wire:
  "m \<in> set (ses_wire (fold apply_effect es ses)) \<Longrightarrow>
    m \<in> set (ses_wire ses) \<or> (\<exists>f. Emit f True \<in> set es \<and> m = encodeFrame f)"
proof (induction es arbitrary: ses)
  case (Cons e es)
  then have "m \<in> set (ses_wire (apply_effect e ses)) \<or> (\<exists>f. Emit f True \<in> set es \<and> m = encodeFrame f)"
    by simp
  moreover have "m \<in> set (ses_wire (apply_effect e ses)) \<Longrightarrow>
      m \<in> set (ses_wire ses) \<or> (\<exists>f. e = Emit f True \<and> m = encodeFrame f)"
    by (cases "(e, ses)" rule: apply_effect.cases) (auto split: if_splits)
  ultimately show ?case by auto
qed simp

lemma push_log_bound: "length (push_log e l) \<le> PACKET_LOG_MAX"
  by (simp add: push_log_def Let_def PACKET_LOG_MAX_def)

lemma apply_effects_log:
  "length (ses_packetLog ses) \<le> PACKET_LOG_MAX \<Longrightarrow>
    length (ses_packetLog (fold apply_effect es ses)) \<le> PACKET_LOG_MAX"
proof (induction es arbitrary: ses)
  case (Cons e es)
  show ?case
    by (simp, rule Cons.IH, cases e) (use Cons.prems push_log_bound in auto)
qed simp

section \<open>One side alone, whatever the other side sends\<close>

definition side_good :: "arp_session \<Rightarrow> bool" where
  "side_good ses \<longleftrightarrow> ctl_inv (ses_sender ses) \<and> no_stall (ses_sender ses) \<and>
    (\<exists>segs. snd_inv segs (ses_sender ses)) \<and> length (ses_packetLog ses) \<le> PACKET_LOG_MAX"

lemma side_good_on_sender:
  assumes good: "side_good ses"
    and keep: "\<And>segs s' es. snd_inv segs (ses_sender ses) \<Longrightarrow> f (session_io w ses) (ses_sender ses) = (s', es)
      \<Longrightarrow> \<exists>segs'. snd_inv segs' s' \<and> ctl_inv s' \<and> no_stall s'"
  shows "side_good (on_sender w f ses)"
proof -
  obtain s' es where f: "f (session_io w ses) (ses_sender ses) = (s', es)" by fastforce
  from good obtain segs where "snd_inv segs (ses_sender ses)" by (auto simp: side_good_def)
  from keep [OF this f] good f show ?thesis
    by (auto simp: side_good_def on_sender_def intro: apply_effects_log)
qed

lemma side_good_enqueue: "side_good ses \<Longrightarrow> side_good (on_sender w (\<lambda>env. enqueue env seg) ses)"
proof (rule side_good_on_sender)
  fix segs s' es
  assume good: "side_good ses" and inv: "snd_inv segs (ses_sender ses)"
    and run: "enqueue (session_io w ses) seg (ses_sender ses) = (s', es)"
  have "ctl_inv s'" "no_stall s'"
    using good run enqueue_ctl [of "ses_sender ses" "session_io w ses" seg]
      enqueue_stall [of "ses_sender ses" "session_io w ses" seg] by (simp_all add: side_good_def)
  with enqueue_safe [OF inv run] show "\<exists>segs'. snd_inv segs' s' \<and> ctl_inv s' \<and> no_stall s'" by blast
qed

lemma side_good_tick: "side_good ses \<Longrightarrow> side_good (on_sender w tick ses)"
  by (rule side_good_on_sender) (use tick_safe in \<open>fastforce simp: side_good_def\<close>)+

lemma side_good_onAck: "side_good ses \<Longrightarrow> side_good (on_sender w (\<lambda>env. onAck env c v) ses)"
  by (rule side_good_on_sender) (use onAck_ok in \<open>fastforce simp: side_good_def\<close>)+

lemma side_good_on_receiver: "side_good ses \<Longrightarrow> side_good (on_receiver w f ses)"
  by (auto simp: side_good_def on_receiver_def intro: apply_effects_log split: prod.splits)

lemma side_good_act: "side_good ses \<Longrightarrow> side_good (side_act w ev ses)"
proof (induction w ev ses rule: side_act.induct)
  case (1 w bs ses)
  have "side_good (fold (\<lambda>seg. on_sender w (\<lambda>env. enqueue env seg)) segs ses)" for segs
    using 1 by (induction segs arbitrary: ses) (simp_all add: side_good_enqueue)
  then show ?case by (simp add: session_send_def)
next
  case (2 w ses)
  then show ?case by (simp add: session_tick_def side_good_tick)
next
  case (9 w d ses)
  then show ?case
    by (auto simp: handleMessage_def side_good_on_receiver side_good_onAck split: dc_data.splits option.splits)
qed (simp_all add: session_start_def session_stop_def session_destroy_def side_good_def)

interpretation arp_side: event_machine "\<lambda>(w, ev). side_act w ev" side_good
  by unfold_locales (auto simp: side_good_act)

lemma new_side_good: "side_good (new_ArpSession b)"
  using new_sender_inv by (auto simp: side_good_def new_ArpSession_def)

section \<open>Two sides and the network between them\<close>

text \<open>\<open>sent_a\<close> and \<open>sent_b\<close> record what each application passed to \<open>send\<close>.\<close>

record arp_net =
  side_a :: arp_session
  side_b :: arp_session
  sent_a :: "bytes list"
  sent_b :: "bytes list"

fun sends :: "side_event \<Rightarrow> bytes list" where
  "sends (AppSend bs) = [bs]"
| "sends _ = []"

text \<open>A message event can only carry something the other side has put on its wire.\<close>

fun allowed :: "side_event \<Rightarrow> bytes list \<Rightarrow> bool" where
  "allowed (Message (Buffer m)) wire \<longleftrightarrow> m \<in> set wire"
| "allowed _ wire \<longleftrightarrow> True"

inductive net_step :: "arp_net \<Rightarrow> arp_net \<Rightarrow> bool" where
  step_a: "allowed ev (ses_wire (side_b n)) \<Longrightarrow>
    net_step n (n\<lparr>side_a := side_act w ev (side_a n), sent_a := sent_a n @ sends ev\<rparr>)"
| step_b: "allowed ev (ses_wire (side_a n)) \<Longrightarrow>
    net_step n (n\<lparr>side_b := side_act w ev (side_b n), sent_b := sent_b n @ sends ev\<rparr>)"

inductive_cases net_stepE: "net_step n n'"

definition net_start :: "arp_net \<Rightarrow> bool" where
  "net_start n \<longleftrightarrow> (\<exists>p q. side_a n = new_ArpSession p \<and> side_b n = new_ArpSession q) \<and> sent_a n = [] \<and> sent_b n = []"

abbreviation all_segments :: "bytes list \<Rightarrow> bytes list" where
  "all_segments sent \<equiv> concat (map segments sent)"

section \<open>The invariant of one direction\<close>

definition dir_inv :: "bytes list \<Rightarrow> arp_session \<Rightarrow> arp_session \<Rightarrow> bool" where
  "dir_inv segs x y \<longleftrightarrow>
    snd_inv segs (ses_sender x) \<and> acked_below (expectedSeq (ses_receiver y)) (ses_sender x) \<and>
    rcv_inv segs (nextSeq (ses_sender x)) (ses_receiver y) \<and>
    ses_messages y = take (expectedSeq (ses_receiver y)) segs \<and>
    (\<forall>m \<in> set (ses_wire x). (\<exists>q < nextSeq (ses_sender x). m = encodeFrame (data_frame q (segs ! q)))
      \<or> (\<exists>r. m = encodeFrame (ack_frame r))) \<and>
    (\<forall>m \<in> set (ses_wire y). (\<exists>q p. m = encodeFrame (data_frame q p))
      \<or> (\<exists>r. expectedSeq r \<le> expectedSeq (ses_receiver y) \<and> m = encodeFrame (ack_frame r)))"

lemma decode_data: "decodeFrame (encodeFrame (data_frame q p)) = Some (data_frame (q mod 4294967296) p)"
  by (simp add: decode_encode data_frame_def arp_consts)

lemma data_frame_simps [simp]:
  "af_type (data_frame q p) = ARP_FRAME_DATA" "af_seq (data_frame q p) = q" "af_payload (data_frame q p) = p"
  by (simp_all add: data_frame_def)

lemma decode_ack: "\<exists>f. decodeFrame (encodeFrame (ack_frame r)) = Some f \<and> af_type f = ARP_FRAME_ACK
    \<and> af_ack f = expectedSeq r mod 4294967296"
  by (simp add: decode_encode ack_frame_def arp_consts)

lemma rcv_inv_mono: "rcv_inv segs n r \<Longrightarrow> n \<le> n' \<Longrightarrow> n' \<le> length (segs @ added) \<Longrightarrow> rcv_inv (segs @ added) n' r"
  by (auto simp: rcv_inv_def nth_append)

text \<open>A step of the sending side's sender.\<close>

lemma dir_on_sender:
  assumes inv: "dir_inv segs x y"
    and f: "\<And>s' es. f (session_io w x) (ses_sender x) = (s', es) \<Longrightarrow>
      snd_inv (segs @ added) s' \<and> nextSeq (ses_sender x) \<le> nextSeq s' \<and>
      (\<forall>e \<in> set es. emits_ok (segs @ added) (nextSeq s') e) \<and> acked_below (expectedSeq (ses_receiver y)) s'"
  shows "dir_inv (segs @ added) (on_sender w f x) y"
proof -
  obtain s' es where run: "f (session_io w x) (ses_sender x) = (s', es)" by fastforce
  note F = f [OF run]
  let ?x = "fold apply_effect es (x\<lparr>ses_sender := s'\<rparr>)"
  have x: "on_sender w f x = ?x" by (simp add: on_sender_def run)
  have old: "nextSeq (ses_sender x) \<le> length segs" "expectedSeq (ses_receiver y) \<le> length segs"
    using inv by (auto simp: dir_inv_def snd_inv_def rcv_inv_def)
  have wire: "(\<exists>q < nextSeq s'. m = encodeFrame (data_frame q ((segs @ added) ! q))) \<or> (\<exists>r. m = encodeFrame (ack_frame r))"
    if "m \<in> set (ses_wire ?x)" for m
  proof -
    from apply_effects_wire [OF that] consider "m \<in> set (ses_wire x)"
      | g where "Emit g True \<in> set es" "m = encodeFrame g" by auto
    then show ?thesis
    proof cases
      case 1
      then have "(\<exists>q < nextSeq (ses_sender x). m = encodeFrame (data_frame q (segs ! q))) \<or> (\<exists>r. m = encodeFrame (ack_frame r))"
        using inv by (simp add: dir_inv_def)
      then show ?thesis
      proof
        assume "\<exists>q < nextSeq (ses_sender x). m = encodeFrame (data_frame q (segs ! q))"
        then obtain q where q: "q < nextSeq (ses_sender x)" "m = encodeFrame (data_frame q (segs ! q))" by blast
        with F old show ?thesis by (intro disjI1 exI [of _ q]) (simp add: nth_append)
      qed simp
    next
      case 2
      with F have "emits_ok (segs @ added) (nextSeq s') (Emit g True)" by blast
      with 2 show ?thesis by auto
    qed
  qed
  have "rcv_inv (segs @ added) (nextSeq s') (ses_receiver y)"
    using inv F by (intro rcv_inv_mono [of segs "nextSeq (ses_sender x)"]) (auto simp: dir_inv_def snd_inv_def)
  with inv F wire old show ?thesis
    unfolding x dir_inv_def by simp
qed

text \<open>A step of the receiving side's own sender, or of the sending side's receiver.\<close>

lemma dir_other_sender:
  assumes inv: "dir_inv segs x y"
    and f: "\<And>s' es e. f (session_io w y) (ses_sender y) = (s', es) \<Longrightarrow> e \<in> set es \<Longrightarrow> \<exists>segs n. emits_ok segs n e"
  shows "dir_inv segs x (on_sender w f y)"
proof -
  obtain s' es where run: "f (session_io w y) (ses_sender y) = (s', es)" by fastforce
  have y: "on_sender w f y = fold apply_effect es (y\<lparr>ses_sender := s'\<rparr>)" by (simp add: on_sender_def run)
  have no_del: "deliveries es = []"
  proof -
    have "(case e of Deliver p \<Rightarrow> [p] | _ \<Rightarrow> []) = []" if "e \<in> set es" for e
      using f [OF run that] by (cases e) auto
    then show ?thesis by (simp add: deliveries_def)
  qed
  have new: "\<exists>q p. g = data_frame q p" if "Emit g True \<in> set es" for g
    using f [OF run that] by auto
  have "(\<exists>q p. m = encodeFrame (data_frame q p))
      \<or> (\<exists>r. expectedSeq r \<le> expectedSeq (ses_receiver y) \<and> m = encodeFrame (ack_frame r))"
    if "m \<in> set (ses_wire (fold apply_effect es (y\<lparr>ses_sender := s'\<rparr>)))" for m
    using apply_effects_wire [OF that] inv new by (fastforce simp: dir_inv_def)
  with inv no_del show ?thesis unfolding y dir_inv_def by simp
qed

lemma dir_sender_receiver:
  assumes inv: "dir_inv segs x y"
    and f: "\<And>r' es g b. f (session_io w x) (ses_receiver x) = (r', es) \<Longrightarrow> Emit g b \<in> set es \<Longrightarrow> \<exists>r. g = ack_frame r"
  shows "dir_inv segs (on_receiver w f x) y"
proof -
  obtain r' es where run: "f (session_io w x) (ses_receiver x) = (r', es)" by fastforce
  have x: "on_receiver w f x = fold apply_effect es (x\<lparr>ses_receiver := r'\<rparr>)" by (simp add: on_receiver_def run)
  have "(\<exists>q < nextSeq (ses_sender x). m = encodeFrame (data_frame q (segs ! q))) \<or> (\<exists>r. m = encodeFrame (ack_frame r))"
    if "m \<in> set (ses_wire (fold apply_effect es (x\<lparr>ses_receiver := r'\<rparr>)))" for m
    using apply_effects_wire [OF that] inv f [OF run] by (fastforce simp: dir_inv_def)
  with inv show ?thesis unfolding x dir_inv_def by simp
qed

lemma emits_acks: "onData env f r = (r', es) \<Longrightarrow> Emit g b \<in> set es \<Longrightarrow> g = ack_frame r'"
proof -
  assume run: "onData env f r = (r', es)" and e: "Emit g b \<in> set es"
  obtain r1 es1 where a: "accept_data f r = (r1, es1)" by fastforce
  have drain: "drain r0 = (r2, es2) \<Longrightarrow> list_all is_deliver es2" for r0 r2 es2
    by (induction r0 arbitrary: r2 es2 rule: drain.induct)
      (subst (asm) (2) drain.simps, auto split: option.splits prod.splits)
  have "list_all is_deliver es1"
    using a drain by (auto simp: accept_data_def split: if_splits prod.splits)
  then have "Emit g b \<notin> set es1" by (auto simp: list_all_iff)
  with run a e show ?thesis by (auto simp: onData_def)
qed

text \<open>Delivery of a data frame to the receiving side.\<close>

lemma dir_receive_data:
  assumes inv: "dir_inv segs x y" and q: "q < nextSeq (ses_sender x)"
  shows "dir_inv segs x (on_receiver w (\<lambda>env. onData env (data_frame q (segs ! q))) y)"
proof -
  obtain r' es where run: "onData (session_io w y) (data_frame q (segs ! q)) (ses_receiver y) = (r', es)" by fastforce
  have y: "on_receiver w (\<lambda>env. onData env (data_frame q (segs ! q))) y = fold apply_effect es (y\<lparr>ses_receiver := r'\<rparr>)"
    by (simp add: on_receiver_def run)
  have D: "rcv_inv segs (nextSeq (ses_sender x)) r' \<and> expectedSeq (ses_receiver y) \<le> expectedSeq r' \<and>
      take (expectedSeq r') segs = take (expectedSeq (ses_receiver y)) segs @ deliveries es \<and>
      (\<forall>g b. Emit g b \<in> set es \<longrightarrow> g = ack_frame r')"
    by (rule onData_ok [OF _ _ _ run]) (use inv q in \<open>simp_all add: dir_inv_def data_frame_def\<close>)
  have wire: "(\<exists>q p. m = encodeFrame (data_frame q p)) \<or> (\<exists>r. expectedSeq r \<le> expectedSeq r' \<and> m = encodeFrame (ack_frame r))"
    if "m \<in> set (ses_wire (fold apply_effect es (y\<lparr>ses_receiver := r'\<rparr>)))" for m
  proof -
    from apply_effects_wire [OF that] consider "m \<in> set (ses_wire y)"
      | g where "Emit g True \<in> set es" "m = encodeFrame g" by auto
    then show ?thesis
    proof cases
      case 1
      with inv have "(\<exists>q p. m = encodeFrame (data_frame q p))
          \<or> (\<exists>r. expectedSeq r \<le> expectedSeq (ses_receiver y) \<and> m = encodeFrame (ack_frame r))"
        by (simp add: dir_inv_def)
      moreover have "expectedSeq r \<le> expectedSeq r'" if "expectedSeq r \<le> expectedSeq (ses_receiver y)" for r :: receiver
        using that D by simp
      ultimately show ?thesis by blast
    next
      case 2
      with D show ?thesis by blast
    qed
  qed
  have "acked_below (expectedSeq r') (ses_sender x)"
    using inv D by (auto simp: dir_inv_def acked_below_def intro: less_le_trans)
  with inv D wire show ?thesis unfolding y dir_inv_def by simp
qed

section \<open>Events of the two sides\<close>

lemma dir_inv_updates [simp]:
  "dir_inv segs (x\<lparr>ses_timer := t\<rparr>) y = dir_inv segs x y"
  "dir_inv segs (x\<lparr>ses_lossPct := l\<rparr>) y = dir_inv segs x y"
  "dir_inv segs (x\<lparr>ses_open := t\<rparr>) y = dir_inv segs x y"
  "dir_inv segs (x\<lparr>ses_listening := t\<rparr>) y = dir_inv segs x y"
  "dir_inv segs x (y\<lparr>ses_timer := t\<rparr>) = dir_inv segs x y"
  "dir_inv segs x (y\<lparr>ses_lossPct := l\<rparr>) = dir_inv segs x y"
  "dir_inv segs x (y\<lparr>ses_open := t\<rparr>) = dir_inv segs x y"
  "dir_inv segs x (y\<lparr>ses_listening := t\<rparr>) = dir_inv segs x y"
  by (simp_all add: dir_inv_def)

lemma dir_sends:
  "dir_inv segs x y \<Longrightarrow> \<forall>seg \<in> set new. seg \<noteq> [] \<Longrightarrow>
    dir_inv (segs @ new) (fold (\<lambda>seg. on_sender w (\<lambda>env. enqueue env seg)) new x) y"
proof (induction new arbitrary: segs x)
  case (Cons seg new)
  have "dir_inv (segs @ [seg]) (on_sender w (\<lambda>env. enqueue env seg) x) y"
  proof (rule dir_on_sender [OF Cons.prems(1)])
    fix s' es assume run: "enqueue (session_io w x) seg (ses_sender x) = (s', es)"
    have "snd_inv segs (ses_sender x)" "acked_below (expectedSeq (ses_receiver y)) (ses_sender x)"
      using Cons.prems(1) by (simp_all add: dir_inv_def)
    with enqueue_safe [OF _ run, of segs "expectedSeq (ses_receiver y)"] Cons.prems(2)
    show "snd_inv (segs @ [seg]) s' \<and> nextSeq (ses_sender x) \<le> nextSeq s' \<and>
      (\<forall>e \<in> set es. emits_ok (segs @ [seg]) (nextSeq s') e) \<and> acked_below (expectedSeq (ses_receiver y)) s'" by simp
  qed
  from Cons.IH [OF this] Cons.prems(2) show ?case by simp
qed simp

lemma side_x_message:
  assumes inv: "dir_inv segs x y" and m: "m \<in> set (ses_wire y)"
  shows "dir_inv segs (handleMessage w (Buffer m) x) y"
proof -
  consider q p where "m = encodeFrame (data_frame q p)"
    | r where "expectedSeq r \<le> expectedSeq (ses_receiver y)" "m = encodeFrame (ack_frame r)"
    using inv m by (auto simp: dir_inv_def)
  then show ?thesis
  proof cases
    case 1
    have "dir_inv segs (on_receiver w (\<lambda>env. onData env (data_frame (q mod 4294967296) p)) x) y"
      by (rule dir_sender_receiver [OF inv]) (blast dest: emits_acks)
    with 1 show ?thesis by (simp add: handleMessage_def decode_data)
  next
    case 2
    obtain f where f: "decodeFrame m = Some f" "af_type f = ARP_FRAME_ACK" "af_ack f = expectedSeq r mod 4294967296"
      using decode_ack [of r] 2 by blast
    have "expectedSeq r mod 4294967296 \<le> expectedSeq r" by (rule mod_less_eq_dividend)
    with 2 f have le: "af_ack f \<le> expectedSeq (ses_receiver y)" by linarith
    have "dir_inv (segs @ []) (on_sender w (\<lambda>env. onAck env (af_ack f) (af_window f)) x) y"
    proof (rule dir_on_sender [OF inv])
      fix s' es assume run: "onAck (session_io w x) (af_ack f) (af_window f) (ses_sender x) = (s', es)"
      have "snd_inv segs (ses_sender x)" "acked_below (expectedSeq (ses_receiver y)) (ses_sender x)"
        using inv by (simp_all add: dir_inv_def)
      with onAck_ok [OF _ run, of segs "expectedSeq (ses_receiver y)"] le
      show "snd_inv (segs @ []) s' \<and> nextSeq (ses_sender x) \<le> nextSeq s' \<and>
        (\<forall>e \<in> set es. emits_ok (segs @ []) (nextSeq s') e) \<and> acked_below (expectedSeq (ses_receiver y)) s'" by simp
    qed
    with f show ?thesis by (simp add: handleMessage_def arp_consts)
  qed
qed

lemma dir_tick: "dir_inv segs x y \<Longrightarrow> dir_inv segs (on_sender w tick x) y"
proof -
  assume inv: "dir_inv segs x y"
  have "dir_inv (segs @ []) (on_sender w tick x) y"
  proof (rule dir_on_sender [OF inv])
    fix s' es assume run: "tick (session_io w x) (ses_sender x) = (s', es)"
    have "snd_inv segs (ses_sender x)" "acked_below (expectedSeq (ses_receiver y)) (ses_sender x)"
      using inv by (simp_all add: dir_inv_def)
    with tick_safe [OF _ run, of segs "expectedSeq (ses_receiver y)"]
    show "snd_inv (segs @ []) s' \<and> nextSeq (ses_sender x) \<le> nextSeq s' \<and>
      (\<forall>e \<in> set es. emits_ok (segs @ []) (nextSeq s') e) \<and> acked_below (expectedSeq (ses_receiver y)) s'" by simp
  qed
  then show ?thesis by simp
qed

lemma dir_x_act:
  assumes inv: "dir_inv segs x y" and ok: "allowed ev (ses_wire y)"
  shows "dir_inv (segs @ all_segments (sends ev)) (side_act w ev x) y"
proof (cases ev)
  case (AppSend bs)
  have "\<forall>seg \<in> set (segments bs). seg \<noteq> []" using segments_bounds by blast
  from dir_sends [OF inv this] AppSend show ?thesis by (simp add: session_send_def)
next
  case (Message d)
  with inv ok show ?thesis by (cases d) (simp_all add: side_x_message, simp add: handleMessage_def)
qed (use inv in \<open>simp_all add: session_tick_def dir_tick session_start_def session_stop_def session_destroy_def\<close>)

lemma y_effects:
  assumes "\<exists>segs. snd_inv segs (ses_sender y)"
  shows "enqueue env seg (ses_sender y) = (s', es) \<Longrightarrow> e \<in> set es \<Longrightarrow> \<exists>segs n. emits_ok segs n e"
    and "onAck env c v (ses_sender y) = (s', es) \<Longrightarrow> e \<in> set es \<Longrightarrow> \<exists>segs n. emits_ok segs n e"
    and "tick env (ses_sender y) = (s', es) \<Longrightarrow> e \<in> set es \<Longrightarrow> \<exists>segs n. emits_ok segs n e"
proof -
  obtain segs where inv: "snd_inv segs (ses_sender y)" using assms by blast
  show "enqueue env seg (ses_sender y) = (s', es) \<Longrightarrow> e \<in> set es \<Longrightarrow> \<exists>segs n. emits_ok segs n e"
    using enqueue_safe [OF inv] by blast
  show "onAck env c v (ses_sender y) = (s', es) \<Longrightarrow> e \<in> set es \<Longrightarrow> \<exists>segs n. emits_ok segs n e"
    using onAck_ok [OF inv] by blast
  show "tick env (ses_sender y) = (s', es) \<Longrightarrow> e \<in> set es \<Longrightarrow> \<exists>segs n. emits_ok segs n e"
    using tick_safe [OF inv] by blast
qed

lemma dir_y_sends:
  "dir_inv segs x y \<Longrightarrow> side_good y \<Longrightarrow>
    dir_inv segs x (fold (\<lambda>seg. on_sender w (\<lambda>env. enqueue env seg)) new y)"
proof (induction new arbitrary: y)
  case (Cons seg new)
  have "dir_inv segs x (on_sender w (\<lambda>env. enqueue env seg) y)"
    by (rule dir_other_sender [OF Cons.prems(1)], rule y_effects(1))
      (use Cons.prems in \<open>auto simp: side_good_def\<close>)
  from Cons.IH [OF this side_good_enqueue [OF Cons.prems(2)]] show ?case by simp
qed simp

lemma side_y_message:
  assumes inv: "dir_inv segs x y" and m: "m \<in> set (ses_wire x)" and good: "side_good y"
    and bound: "length segs \<le> 4294967296"
  shows "dir_inv segs x (handleMessage w (Buffer m) y)"
proof -
  consider q where "q < nextSeq (ses_sender x)" "m = encodeFrame (data_frame q (segs ! q))"
    | r where "m = encodeFrame (ack_frame r)"
    using inv m by (auto simp: dir_inv_def)
  then show ?thesis
  proof cases
    case 1
    have "nextSeq (ses_sender x) \<le> length segs" using inv by (simp add: dir_inv_def snd_inv_def)
    with 1 bound have "q mod 4294967296 = q" by simp
    with 1 have "decodeFrame m = Some (data_frame q (segs ! q))" by (simp add: decode_data)
    then have "handleMessage w (Buffer m) y = on_receiver w (\<lambda>env. onData env (data_frame q (segs ! q))) y"
      by (simp add: handleMessage_def)
    with dir_receive_data [OF inv 1(1)] show ?thesis by simp
  next
    case 2
    obtain f where f: "decodeFrame m = Some f" "af_type f = ARP_FRAME_ACK"
      using decode_ack [of r] 2 by blast
    have "dir_inv segs x (on_sender w (\<lambda>env. onAck env (af_ack f) (af_window f)) y)"
      by (rule dir_other_sender [OF inv], rule y_effects(2)) (use good in \<open>auto simp: side_good_def\<close>)
    with f show ?thesis by (simp add: handleMessage_def arp_consts)
  qed
qed

lemma dir_y_act:
  assumes inv: "dir_inv segs x y" and ok: "allowed ev (ses_wire x)" and good: "side_good y"
    and bound: "length segs \<le> 4294967296"
  shows "dir_inv segs x (side_act w ev y)"
proof (cases ev)
  case (AppSend bs)
  from dir_y_sends [OF inv good] AppSend show ?thesis by (simp add: session_send_def)
next
  case TimerTick
  have "dir_inv segs x (on_sender w tick y)"
    by (rule dir_other_sender [OF inv], rule y_effects(3)) (use good in \<open>auto simp: side_good_def\<close>)
  with inv TimerTick show ?thesis by (simp add: session_tick_def)
next
  case (Message d)
  with inv ok good bound show ?thesis
    by (cases d) (simp_all add: side_y_message, simp add: handleMessage_def)
qed (use inv in \<open>simp_all add: session_start_def session_stop_def session_destroy_def\<close>)

section \<open>The system\<close>

text \<open>
  The 32-bit sequence numbers of the wire are the segment numbers as long as one side has
  enqueued at most \<open>2 ^ 32\<close> segments (4 TiB of full ones); the code has no wrap-around.
\<close>

definition dir_good :: "bytes list \<Rightarrow> arp_session \<Rightarrow> arp_session \<Rightarrow> bool" where
  "dir_good sent x y \<longleftrightarrow> (length (all_segments sent) \<le> 4294967296 \<longrightarrow> dir_inv (all_segments sent) x y)"

definition net_good :: "arp_net \<Rightarrow> bool" where
  "net_good n \<longleftrightarrow> side_good (side_a n) \<and> side_good (side_b n) \<and>
    dir_good (sent_a n) (side_a n) (side_b n) \<and> dir_good (sent_b n) (side_b n) (side_a n)"

lemma dir_good_x: "dir_good sent x y \<Longrightarrow> allowed ev (ses_wire y) \<Longrightarrow>
    dir_good (sent @ sends ev) (side_act w ev x) y"
  by (auto simp: dir_good_def intro!: dir_x_act)

lemma dir_good_y: "dir_good sent x y \<Longrightarrow> allowed ev (ses_wire x) \<Longrightarrow> side_good y \<Longrightarrow>
    dir_good sent x (side_act w ev y)"
  by (auto simp: dir_good_def intro!: dir_y_act)

lemma dir_good_start: "dir_good [] (new_ArpSession p) (new_ArpSession q)"
proof -
  have "nextSeq new_sender = 0" by (simp add: new_sender_def)
  then have "rcv_inv [] (nextSeq new_sender) new_receiver" by (simp add: rcv_inv_def new_receiver_def)
  moreover have "expectedSeq new_receiver = 0" by (simp add: new_receiver_def)
  ultimately show ?thesis
    using new_sender_inv by (simp add: dir_good_def dir_inv_def new_ArpSession_def)
qed

lemma net_start_good: "net_start n \<Longrightarrow> net_good n"
  by (auto simp: net_start_def net_good_def new_side_good dir_good_start)

lemma net_step_good: "net_good n \<Longrightarrow> net_step n n' \<Longrightarrow> net_good n'"
  by (erule net_stepE) (simp_all add: net_good_def side_good_act dir_good_x dir_good_y)

interpretation arp: step_system net_start net_step net_good
  by unfold_locales (auto intro: net_start_good net_step_good)

section \<open>Properties\<close>

text \<open>
  C25. Encoding a frame and decoding the buffer gives the frame back, for every frame whose
  fields fit the 8, 32, 32 and 16 bits of the header.
\<close>

theorem arp_codec_roundtrip:
  assumes "af_type f < 256" "af_seq f < 2 ^ 32" "af_ack f < 2 ^ 32" "af_window f < 2 ^ 16"
  shows "decodeFrame (encodeFrame f) = Some f"
  using assms by (simp add: decode_encode)

theorem arp_codec_roundtrip_witness:
  "decodeFrame (encodeFrame \<lparr>af_type = 0, af_seq = 70000, af_ack = 3, af_window = 256, af_payload = [1, 2]\<rparr>)
    = Some \<lparr>af_type = 0, af_seq = 70000, af_ack = 3, af_window = 256, af_payload = [1, 2]\<rparr>"
  by (rule arp_codec_roundtrip) simp_all

text \<open>
  C3. End to end: in every state two sessions can reach over a channel that loses, duplicates
  and reorders at will, with losses injected and timers firing at any time, the bytes
  delivered to one application are a prefix of the bytes the other application has passed to
  \<open>send\<close>, as long as at most \<open>2 ^ 32\<close> segments were enqueued.
\<close>

theorem arp_delivers_a_prefix:
  assumes "net_start n0" and "net_step\<^sup>*\<^sup>* n0 n" and "length (all_segments (sent_a n)) \<le> 2 ^ 32"
  shows "\<exists>rest. concat (sent_a n) = concat (ses_messages (side_b n)) @ rest"
proof -
  have "dir_good (sent_a n) (side_a n) (side_b n)"
    using arp.reachable_good [OF assms(1,2)] by (simp add: net_good_def)
  then have "ses_messages (side_b n) = take (expectedSeq (ses_receiver (side_b n))) (all_segments (sent_a n))"
    using assms(3) by (simp add: dir_good_def dir_inv_def)
  then have "concat (all_segments (sent_a n)) = concat (ses_messages (side_b n))
      @ concat (drop (expectedSeq (ses_receiver (side_b n))) (all_segments (sent_a n)))"
    by (metis append_take_drop_id concat_append)
  moreover have "concat (all_segments sent) = concat sent" for sent
    by (induction sent) (simp_all add: concat_segments)
  ultimately show ?thesis by metis
qed

text \<open>A run of two steps: one side sends three bytes and its frame arrives.\<close>

definition demo_env :: session_env where
  "demo_env = \<lparr>se_now = 5, se_random = (\<lambda>_. 1), se_throws = (\<lambda>_. False)\<rparr>"

definition demo_start :: arp_net where
  "demo_start = \<lparr>side_a = new_ArpSession True, side_b = new_ArpSession True, sent_a = [], sent_b = []\<rparr>"

definition demo_sent :: arp_net where
  "demo_sent = demo_start\<lparr>side_a := side_act demo_env (AppSend [1, 2, 3]) (side_a demo_start), sent_a := [[1, 2, 3]]\<rparr>"

definition demo_arrived :: arp_net where
  "demo_arrived = demo_sent\<lparr>side_b := side_act demo_env (Message (Buffer (hd (ses_wire (side_a demo_sent))))) (side_b demo_sent)\<rparr>"

lemma segments_short: "bs \<noteq> [] \<Longrightarrow> length bs \<le> 1024 \<Longrightarrow> segments bs = [bs]"
  by (subst segments.simps, subst segments.simps) (simp add: ARP_MSS_def)

lemma demo_sent_eval: "ses_wire (side_a demo_sent) = [encodeFrame (data_frame 0 [1, 2, 3])]"
  "side_b demo_sent = new_ArpSession True" "sent_a demo_sent = [[1, 2, 3]]" "sent_b demo_sent = []"
  by (simp_all add: demo_sent_def demo_start_def session_send_def segments_short on_sender_def enqueue_def
      pump_def pump_one_def Let_def new_ArpSession_def new_sender_def session_io_def transmit_def demo_env_def arp_consts)

lemma demo_arrived_eval: "ses_messages (side_b demo_arrived) = [[1, 2, 3]]" "sent_a demo_arrived = [[1, 2, 3]]"
  by (simp_all add: demo_arrived_def demo_sent_eval handleMessage_def decode_data on_receiver_def
      onData_def accept_data_def drain.simps deliver_next_def new_ArpSession_def new_receiver_def)

lemma demo_keep: "demo_sent\<lparr>side_b := y, sent_b := []\<rparr> = demo_sent\<lparr>side_b := y\<rparr>"
  using demo_sent_eval(4) by (cases demo_sent) simp

lemma demo_reachable: "net_start demo_start" "net_step\<^sup>*\<^sup>* demo_start demo_arrived"
proof -
  show "net_start demo_start" by (auto simp: net_start_def demo_start_def)
  have "net_step demo_start demo_sent"
    using step_a [of "AppSend [1, 2, 3]" demo_start demo_env] by (simp add: demo_sent_def demo_start_def)
  moreover have "net_step demo_sent demo_arrived"
    using step_b [of "Message (Buffer (hd (ses_wire (side_a demo_sent))))" demo_sent demo_env]
    by (simp add: demo_arrived_def demo_sent_eval demo_keep del: side_act.simps)
  ultimately show "net_step\<^sup>*\<^sup>* demo_start demo_arrived" by (meson converse_rtranclp_into_rtranclp rtranclp.rtrancl_refl)
qed

theorem arp_delivers_a_prefix_witness:
  "concat (ses_messages (side_b demo_arrived)) = [1, 2, 3] \<and>
    (\<exists>rest. concat (sent_a demo_arrived) = concat (ses_messages (side_b demo_arrived)) @ rest)"
  using arp_delivers_a_prefix [OF demo_reachable] by (simp add: demo_arrived_eval segments_short)

text \<open>
  C22. Nothing is forgotten: in every reachable state each segment the sender has numbered is
  still held for retransmission or has been delivered to the other application.
\<close>

theorem arp_holds_what_is_not_delivered:
  assumes "net_start n0" and "net_step\<^sup>*\<^sup>* n0 n" and "length (all_segments (sent_a n)) \<le> 2 ^ 32"
    and "q < nextSeq (ses_sender (side_a n))"
  shows "(q < length (ses_messages (side_b n)) \<and> ses_messages (side_b n) ! q = all_segments (sent_a n) ! q)
    \<or> (\<exists>seg. jm_get (inFlight (ses_sender (side_a n))) q = Some seg \<and> fl_payload seg = all_segments (sent_a n) ! q)"
proof -
  let ?segs = "all_segments (sent_a n)" and ?s = "ses_sender (side_a n)" and ?e = "expectedSeq (ses_receiver (side_b n))"
  have "dir_good (sent_a n) (side_a n) (side_b n)"
    using arp.reachable_good [OF assms(1,2)] by (simp add: net_good_def)
  then have inv: "dir_inv ?segs (side_a n) (side_b n)" using assms(3) by (simp add: dir_good_def)
  show ?thesis
  proof (cases "q \<in> fst ` set (inFlight ?s)")
    case True
    then obtain seg where "(q, seg) \<in> set (inFlight ?s)" by auto
    with inv show ?thesis by (intro disjI2 exI [of _ seg]) (auto simp: dir_inv_def snd_inv_def)
  next
    case False
    then have "q < ?e" using inv assms(4) by (simp add: dir_inv_def acked_below_def)
    moreover have "?e \<le> length ?segs" "ses_messages (side_b n) = take ?e ?segs"
      using inv by (auto simp: dir_inv_def rcv_inv_def)
    ultimately show ?thesis by (intro disjI1) simp
  qed
qed

theorem arp_holds_what_is_not_delivered_witness:
  "(0 < length (ses_messages (side_b demo_arrived)) \<and> ses_messages (side_b demo_arrived) ! 0 = all_segments (sent_a demo_arrived) ! 0)
    \<or> (\<exists>seg. jm_get (inFlight (ses_sender (side_a demo_arrived))) 0 = Some seg \<and> fl_payload seg = all_segments (sent_a demo_arrived) ! 0)"
proof (rule arp_holds_what_is_not_delivered [OF demo_reachable])
  show "length (all_segments (sent_a demo_arrived)) \<le> 2 ^ 32" by (simp add: demo_arrived_eval segments_short)
  show "0 < nextSeq (ses_sender (side_a demo_arrived))"
    by (simp add: demo_arrived_def demo_sent_def demo_start_def session_send_def segments_short on_sender_def enqueue_def
      pump_def pump_one_def Let_def new_ArpSession_def new_sender_def session_io_def transmit_def demo_env_def arp_consts)
qed

text \<open>
  C23. Whatever a peer sends and whenever timers fire, the sender of a session keeps a window of
  at least one packet, a threshold of at least two, a retransmission timeout between 100 ms and
  30 s, and never has data queued with nothing in flight to wake it; the packet log stays at
  200 entries.
\<close>

theorem arp_control_bounds:
  "let ses = fold (\<lambda>(w, ev). side_act w ev) evs (new_ArpSession b); s = ses_sender ses in
    1 \<le> cwnd s \<and> 2 \<le> ssthresh s \<and> 100 \<le> rto s \<and> rto s \<le> 30000 \<and> 0 < rwnd s \<and>
    (sendQueue s = [] \<or> 0 < length (inFlight s)) \<and> length (ses_packetLog ses) \<le> 200"
proof -
  have "side_good (fold (\<lambda>(w, ev). side_act w ev) evs (new_ArpSession b))"
    by (rule arp_side.run_good [OF new_side_good])
  then show ?thesis
    by (auto simp: side_good_def ctl_inv_def no_stall_def arp_consts PACKET_LOG_MAX_def Let_def)
qed

text \<open>
  C24. The third duplicate acknowledgement for a segment in flight retransmits exactly that
  segment, halves the window into the threshold (never below two), inflates it by three and
  enters fast recovery; an expired timer retransmits exactly the segment sent longest ago,
  falls back to a window of one and doubles the timeout up to 30 s.
\<close>

theorem arp_loss_recovery:
  assumes "snd_inv segs s" and "jm_get (inFlight s) c = Some seg"
  shows "(c \<le> highestAck s \<and> lastDupAckSeq s = int c \<and> dupAcks s = 2 \<longrightarrow>
      (\<exists>s' b e. onAck env c w s = (s', [Emit (data_frame c (segs ! c)) b, Log e]) \<and> mode s' = FastRecovery \<and>
        ssthresh s' = max (of_int \<lfloor>cwnd s / 2\<rfloor>) 2 \<and> cwnd s' = ssthresh s' + 3))
    \<and> ((\<forall>f \<in> snd ` set (inFlight s). env_now env - fl_sentAt f < rto s) \<longrightarrow> tick env s = (s, []))
    \<and> (rto s \<le> env_now env - fl_sentAt seg \<and> (\<forall>f \<in> snd ` set (inFlight s). f = seg \<or> fl_sentAt seg < fl_sentAt f) \<longrightarrow>
      (\<exists>s' b e. tick env s = (s', [Emit (data_frame c (segs ! c)) b, Log e]) \<and> mode s' = SlowStart \<and>
        cwnd s' = 1 \<and> ssthresh s' = max (of_int \<lfloor>cwnd s / 2\<rfloor>) 2 \<and> rto s' = min (2 * rto s) 30000))"
proof -
  have mem: "(c, seg) \<in> set (inFlight s)" using assms(2) by (rule map_of_SomeD)
  then have q: "fl_seq seg = c" "fl_payload seg = segs ! c" using assms(1) by (auto simp: snd_inv_def)
  have ne: "inFlight s \<noteq> []" using mem by auto
  have dup: "c \<le> highestAck s \<and> lastDupAckSeq s = int c \<and> dupAcks s = 2 \<longrightarrow>
      (\<exists>s' b e. onAck env c w s = (s', [Emit (data_frame c (segs ! c)) b, Log e]) \<and> mode s' = FastRecovery \<and>
        ssthresh s' = max (of_int \<lfloor>cwnd s / 2\<rfloor>) 2 \<and> cwnd s' = ssthresh s' + 3)"
    using assms(2) q ne
    by (auto simp: onAck_def acceptCumulativeAck_def fastRetransmit_def retransmitSegment_def Let_def
        half_window_def arp_consts)
  have quiet: "(\<forall>f \<in> snd ` set (inFlight s). env_now env - fl_sentAt f < rto s) \<longrightarrow> tick env s = (s, [])"
    by (auto simp: tick_def split: option.splits dest!: fold_older_mem)
  have expired: "rto s \<le> env_now env - fl_sentAt seg \<and> (\<forall>f \<in> snd ` set (inFlight s). f = seg \<or> fl_sentAt seg < fl_sentAt f) \<longrightarrow>
      (\<exists>s' b e. tick env s = (s', [Emit (data_frame c (segs ! c)) b, Log e]) \<and> mode s' = SlowStart \<and>
        cwnd s' = 1 \<and> ssthresh s' = max (of_int \<lfloor>cwnd s / 2\<rfloor>) 2 \<and> rto s' = min (2 * rto s) 30000)"
  proof
    assume old: "rto s \<le> env_now env - fl_sentAt seg \<and> (\<forall>f \<in> snd ` set (inFlight s). f = seg \<or> fl_sentAt seg < fl_sentAt f)"
    obtain o1 where o1: "fold older (jm_values (inFlight s)) None = Some o1"
      using fold_older_None [of "jm_values (inFlight s)" None] ne by (cases "fold older (jm_values (inFlight s)) None") auto
    have "o1 \<in> snd ` set (inFlight s)" "fl_sentAt o1 \<le> fl_sentAt seg"
      using fold_older_mem [OF o1] fold_older_least [OF o1] mem by force+
    with old have "o1 = seg" by fastforce
    with o1 old q show "\<exists>s' b e. tick env s = (s', [Emit (data_frame c (segs ! c)) b, Log e]) \<and> mode s' = SlowStart \<and>
        cwnd s' = 1 \<and> ssthresh s' = max (of_int \<lfloor>cwnd s / 2\<rfloor>) 2 \<and> rto s' = min (2 * rto s) 30000"
      by (simp add: tick_def retransmitSegment_def Let_def half_window_def arp_consts mult.commute)
  qed
  show ?thesis using dup quiet expired by (intro conjI)
qed

definition demo_flight :: sender where
  "demo_flight = new_sender\<lparr>inFlight := [(0, \<lparr>fl_seq = 0, fl_payload = [7], fl_sentAt = 10, fl_retransmitted = False\<rparr>)],
    nextSeq := 1, cwnd := 9, dupAcks := 2, lastDupAckSeq := 0\<rparr>"

theorem arp_loss_recovery_witness:
  "(\<exists>s' b e. onAck (session_io demo_env (new_ArpSession True)) 0 256 demo_flight = (s', [Emit (data_frame 0 [7]) b, Log e])
      \<and> mode s' = FastRecovery \<and> ssthresh s' = 4 \<and> cwnd s' = 7)
    \<and> (\<exists>s' b e. tick \<lparr>env_now = 2000, env_send = (\<lambda>_. True)\<rparr> demo_flight = (s', [Emit (data_frame 0 [7]) b, Log e])
      \<and> cwnd s' = 1 \<and> ssthresh s' = 4 \<and> rto s' = 2000)"
proof -
  have inv: "snd_inv [[7]] demo_flight"
    "jm_get (inFlight demo_flight) 0 = Some \<lparr>fl_seq = 0, fl_payload = [7], fl_sentAt = 10, fl_retransmitted = False\<rparr>"
    by (simp_all add: demo_flight_def snd_inv_def new_sender_def)
  have half: "max (of_int \<lfloor>cwnd demo_flight / 2\<rfloor>) 2 = (4 :: rat)"
    by (simp add: demo_flight_def floor_eq_iff)
  have vals: "0 \<le> highestAck demo_flight \<and> lastDupAckSeq demo_flight = int 0 \<and> dupAcks demo_flight = 2"
    "rto demo_flight = 1000"
    by (simp_all add: demo_flight_def new_sender_def arp_consts)
  note L = arp_loss_recovery [OF inv, unfolded half vals(2)]
  let ?late = "\<lparr>env_now = 2000, env_send = (\<lambda>_. True)\<rparr> :: arp_env"
  have expired: "1000 \<le> env_now ?late - 10 \<and> (\<forall>f \<in> snd ` set (inFlight demo_flight).
      f = \<lparr>fl_seq = 0, fl_payload = [7], fl_sentAt = 10, fl_retransmitted = False\<rparr> \<or> 10 < fl_sentAt f)"
    by (simp add: demo_flight_def)
  have "\<exists>s' b e. onAck (session_io demo_env (new_ArpSession True)) 0 256 demo_flight = (s', [Emit (data_frame 0 ([[7]] ! 0)) b, Log e])
      \<and> mode s' = FastRecovery \<and> ssthresh s' = 4 \<and> cwnd s' = ssthresh s' + 3"
    using L vals(1) by blast
  moreover have "\<exists>s' b e. tick ?late demo_flight = (s', [Emit (data_frame 0 ([[7]] ! 0)) b, Log e])
      \<and> mode s' = SlowStart \<and> cwnd s' = 1 \<and> ssthresh s' = 4 \<and> rto s' = min (2 * 1000) 30000"
    using L [of ?late] expired by simp
  ultimately show ?thesis by (elim exE conjE) simp
qed

end
