(* ===== verification/NodeId.thy ===== *)
theory NodeId imports Prelude begin

text \<open>
  Node identifiers of \<open>frontend/src/lib/dht/nodeId.ts\<close>: hexadecimal text, the XOR distance,
  the comparison of distances and the bucket of a node, with the numeric reading that makes
  them a metric. The SHA-256 digest is a parameter. Strings are lists of 8-bit characters.
\<close>

unbundle bit_operations_syntax

section \<open>The model\<close>

definition NODE_ID_BYTES :: nat where "NODE_ID_BYTES = 20"
definition NODE_ID_BITS :: nat where "NODE_ID_BITS = NODE_ID_BYTES * 8"

type_synonym node_id = bytes

definition isNodeId :: "bytes \<Rightarrow> bool" where
  "isNodeId v \<longleftrightarrow> length v = NODE_ID_BYTES"

definition nodeIdFromString :: "(string \<Rightarrow> bytes) \<Rightarrow> string \<Rightarrow> node_id" where
  "nodeIdFromString sha256 handle = take NODE_ID_BYTES (sha256 handle)"

definition hex_char :: "nat \<Rightarrow> char" where
  "hex_char d = (if d < 10 then char_of (48 + d) else char_of (87 + d))"

text \<open>\<open>b.toString(16).padStart(2, '0')\<close>.\<close>

definition byte_hex :: "byte \<Rightarrow> string" where
  "byte_hex b = [hex_char (unat b div 16), hex_char (unat b mod 16)]"

definition bytesToHex :: "bytes \<Rightarrow> string" where
  "bytesToHex b = concat (map byte_hex b)"

text \<open>
  \<open>parseInt(s, 16)\<close> as JavaScript defines it: leading white space, a sign, an \<open>0x\<close> prefix, then
  the longest run of digits; no digit is not a number.
\<close>

definition hex_val :: "char \<Rightarrow> nat option" where
  "hex_val c = (let n = of_char c :: nat in
    if 48 \<le> n \<and> n \<le> 57 then Some (n - 48)
    else if 97 \<le> n \<and> n \<le> 102 then Some (n - 87)
    else if 65 \<le> n \<and> n \<le> 70 then Some (n - 55) else None)"

definition js_space :: "char \<Rightarrow> bool" where
  "js_space c \<longleftrightarrow> of_char c \<in> {9, 10, 11, 12, 13, 32, 160 :: nat}"

fun hex_digits :: "string \<Rightarrow> nat list" where
  "hex_digits [] = []"
| "hex_digits (c # cs) = (case hex_val c of None \<Rightarrow> [] | Some d \<Rightarrow> d # hex_digits cs)"

definition strip_0x :: "string \<Rightarrow> string" where
  "strip_0x s = (if take 2 s = ''0x'' \<or> take 2 s = ''0X'' then drop 2 s else s)"

definition parseInt16 :: "string \<Rightarrow> int option" where
  "parseInt16 str =
    (let s = dropWhile js_space str;
         neg = (take 1 s = ''-'');
         s = (if take 1 s = ''-'' \<or> take 1 s = ''+'' then drop 1 s else s);
         ds = hex_digits (strip_0x s);
         v = int (fold (\<lambda>d a. a * 16 + d) ds 0)
     in if ds = [] then None else Some (if neg then - v else v))"

text \<open>Storing into a byte array takes the value modulo 256, and a non-number as zero.\<close>

definition hex_byte :: "string \<Rightarrow> byte" where
  "hex_byte s = (case parseInt16 s of None \<Rightarrow> 0 | Some v \<Rightarrow> word_of_int v)"

definition hexToBytes :: "string \<Rightarrow> bytes result" where
  "hexToBytes hex =
    (if length hex mod 2 \<noteq> 0 then throw ''hex must be even length''
     else ok (map (\<lambda>i. hex_byte (take 2 (drop (i * 2) hex))) [0..<length hex div 2]))"

definition xorDistance :: "node_id \<Rightarrow> node_id \<Rightarrow> node_id result" where
  "xorDistance a b =
    (if length a \<noteq> length b then throw ''xorDistance: length mismatch'' else ok (map2 (XOR) a b))"

text \<open>The loop shared by the comparison functions, over the common indices.\<close>

fun byteCmp :: "bytes \<Rightarrow> bytes \<Rightarrow> int" where
  "byteCmp (a # as) (b # bs) = (if a < b then -1 else if a > b then 1 else byteCmp as bs)"
| "byteCmp _ _ = 0"

definition compareDistance :: "node_id \<Rightarrow> node_id \<Rightarrow> int result" where
  "compareDistance a b =
    (if length a \<noteq> length b then throw ''compareDistance: length mismatch'' else ok (byteCmp a b))"

definition msb_of :: "byte \<Rightarrow> nat" where
  "msb_of b = (case find (\<lambda>n. bit b n) [7, 6, 5, 4, 3, 2, 1, 0] of None \<Rightarrow> 0 | Some n \<Rightarrow> n)"

definition bucketIndex :: "node_id \<Rightarrow> node_id \<Rightarrow> int result" where
  "bucketIndex self target =
    rbind (xorDistance self target) (\<lambda>dist.
      ok (case find (\<lambda>i. dist ! i \<noteq> 0) [0..<length dist] of
            None \<Rightarrow> -1
          | Some i \<Rightarrow> int NODE_ID_BITS - 1 - (int i * 8 + (7 - int (msb_of (dist ! i))))))"

section \<open>Hexadecimal text\<close>

lemma hex_val_char: "d < 16 \<Longrightarrow> hex_val (hex_char d) = Some d"
  by (simp add: hex_val_def hex_char_def Let_def)

lemma hex_char_plain: "d < 16 \<Longrightarrow> \<not> js_space (hex_char d) \<and> hex_char d \<noteq> CHR ''-'' \<and> hex_char d \<noteq> CHR ''+''
    \<and> hex_char d \<noteq> CHR ''x'' \<and> hex_char d \<noteq> CHR ''X''"
proof -
  assume d: "d < 16"
  have "hex_val CHR ''-'' = None" "hex_val CHR ''+'' = None" "hex_val CHR ''x'' = None" "hex_val CHR ''X'' = None"
    by (simp_all add: hex_val_def)
  moreover have "js_space c \<Longrightarrow> hex_val c = None" for c
    by (auto simp: js_space_def hex_val_def Let_def)
  ultimately show ?thesis using hex_val_char [OF d] by (metis option.distinct(1))
qed

lemma hex_byte_pair: "d < 16 \<Longrightarrow> e < 16 \<Longrightarrow> hex_byte [hex_char d, hex_char e] = word_of_nat (d * 16 + e)"
proof -
  assume lt: "d < 16" "e < 16"
  have "parseInt16 [hex_char d, hex_char e] = Some (int (d * 16 + e))"
    using hex_char_plain [OF lt(1)] hex_char_plain [OF lt(2)] hex_val_char lt
    by (simp add: parseInt16_def strip_0x_def Let_def)
  then show ?thesis by (simp add: hex_byte_def)
qed

lemma hex_byte_byte_hex: "hex_byte (byte_hex b) = b"
proof -
  have "unat b < 256" by (rule unat_byte_lt)
  then have "hex_byte (byte_hex b) = word_of_nat (unat b div 16 * 16 + unat b mod 16)"
    unfolding byte_hex_def by (intro hex_byte_pair) simp_all
  then show ?thesis by simp
qed

lemma length_bytesToHex [simp]: "length (bytesToHex b) = 2 * length b"
  by (induction b) (simp_all add: bytesToHex_def byte_hex_def)

lemma bytesToHex_piece: "i < length b \<Longrightarrow> take 2 (drop (i * 2) (bytesToHex b)) = byte_hex (b ! i)"
proof (induction b arbitrary: i)
  case (Cons x b)
  have step: "bytesToHex (x # b) = byte_hex x @ bytesToHex b" by (simp add: bytesToHex_def)
  have two: "length (byte_hex x) = 2" by (simp add: byte_hex_def)
  show ?case
  proof (cases i)
    case 0
    then show ?thesis using two by (simp add: step)
  next
    case (Suc j)
    with Cons two show ?thesis by (simp add: step)
  qed
qed simp

lemma hexToBytes_bytesToHex: "hexToBytes (bytesToHex b) = ok b"
  by (auto simp: hexToBytes_def bytesToHex_piece hex_byte_byte_hex intro!: nth_equalityI)

lemma bytesToHex_inj: "bytesToHex a = bytesToHex b \<Longrightarrow> a = b"
  using hexToBytes_bytesToHex by (metis sum.inject(2))

section \<open>Distances as numbers\<close>

fun be_val :: "bytes \<Rightarrow> nat" where
  "be_val [] = 0"
| "be_val (b # bs) = unat b * 256 ^ length bs + be_val bs"

lemma be_val_less: "be_val bs < 256 ^ length bs"
proof (induction bs)
  case (Cons b bs)
  have "unat b \<le> 255" using unat_byte_lt [of b] by simp
  then have "unat b * 256 ^ length bs \<le> 255 * 256 ^ length bs" by (rule mult_le_mono1)
  with Cons.IH have "be_val (b # bs) < 256 * 256 ^ length bs" by (simp only: be_val.simps)
  then show ?case by simp
qed simp

lemma byteCmp_spec:
  "length a = length b \<Longrightarrow>
    byteCmp a b = (if be_val a < be_val b then -1 else if be_val b < be_val a then 1 else 0)"
proof (induction a b rule: byteCmp.induct)
  case (1 x as y bs)
  then have len: "length as = length bs" by simp
  have lt: "be_val as < 256 ^ length bs" "be_val bs < 256 ^ length bs"
    using be_val_less [of as] be_val_less [of bs] len by simp_all
  have less: "u * 256 ^ length bs + p < v * 256 ^ length bs + q" if "u < v" "p < 256 ^ length bs" for u v p q :: nat
  proof -
    have "Suc u * 256 ^ length bs \<le> v * 256 ^ length bs" using that by (intro mult_le_mono1) simp
    with that show ?thesis by simp
  qed
  consider "unat x < unat y" | "unat y < unat x" | "x = y"
    by (metis linorder_neqE_nat unsigned_word_eqI)
  then show ?case
  proof cases
    case 1
    with less [OF 1 lt(1), of "be_val bs"] len show ?thesis by (simp add: word_less_nat_alt)
  next
    case 2
    with less [OF 2 lt(2), of "be_val as"] len show ?thesis by (simp add: word_less_nat_alt)
  next
    case 3
    with "1.IH" len show ?thesis by simp
  qed
qed simp_all

lemma be_val_inj: "length a = length b \<Longrightarrow> be_val a = be_val b \<Longrightarrow> a = b"
proof (induction a arbitrary: b)
  case (Cons x as)
  then obtain y bs where b: "b = y # bs" by (cases b) auto
  with Cons.prems have len: "length as = length bs" by simp
  let ?m = "256 ^ length bs :: nat"
  have eq: "unat x * ?m + be_val as = unat y * ?m + be_val bs" using Cons.prems b len by simp
  have lt: "be_val as < ?m" "be_val bs < ?m" using be_val_less [of as] be_val_less [of bs] len by simp_all
  have "unat x = (unat x * ?m + be_val as) div ?m" "unat y = (unat y * ?m + be_val bs) div ?m"
    using lt by simp_all
  with eq have "unat x = unat y" by simp
  then have "x = y" by (rule unsigned_word_eqI)
  with Cons b len eq show ?case by simp
qed simp

section \<open>The bucket of a distance\<close>

lemma msb_bounds: "b \<noteq> 0 \<Longrightarrow> 2 ^ msb_of b \<le> unat b \<and> unat b < 2 ^ Suc (msb_of b) \<and> msb_of b \<le> 7"
proof -
  assume b: "b \<noteq> 0"
  have "\<exists>n < 8. bit b n"
  proof (rule ccontr)
    assume "\<not> (\<exists>n < 8. bit b n)"
    then have "b = 0" by (intro bit_word_eqI) auto
    with b show False by simp
  qed
  then have "find (\<lambda>n. bit b n) [7, 6, 5, 4, 3, 2, 1, 0] \<noteq> None"
    by (auto simp: find_None_iff numeral_eq_Suc less_Suc_eq)
  then obtain m where m: "find (\<lambda>n. bit b n) [7, 6, 5, 4, 3, 2, 1, 0] = Some m" by auto
  then have msb: "msb_of b = m" by (simp add: msb_of_def)
  have top: "bit b m \<and> m \<le> 7 \<and> (\<forall>n. m < n \<and> n < 8 \<longrightarrow> \<not> bit b n)"
    using m by (simp split: if_splits) (auto simp: numeral_eq_Suc less_Suc_eq)
  have "take_bit (Suc m) b = b"
    by (rule bit_word_eqI) (use top in \<open>auto simp: bit_simps not_less_eq\<close>)
  then have "unat b = take_bit (Suc m) (unat b)"
    by (metis unsigned_take_bit_eq)
  then have hi: "unat b < 2 ^ Suc m" by (metis take_bit_nat_less_exp)
  have "bit (unat b) m" using top by (simp add: bit_unsigned_iff)
  then have "odd (unat b div 2 ^ m)" by (simp add: bit_iff_odd)
  then have "unat b div 2 ^ m \<noteq> 0" by (metis even_zero)
  then have "2 ^ m \<le> unat b" by (metis div_less not_le)
  with hi msb top show ?thesis by simp
qed

lemma be_val_top:
  assumes "find (\<lambda>i. d ! i \<noteq> 0) [0..<length d] = Some i"
  shows "i < length d \<and> d ! i \<noteq> 0 \<and>
    unat (d ! i) * 256 ^ (length d - 1 - i) \<le> be_val d \<and> be_val d < (unat (d ! i) + 1) * 256 ^ (length d - 1 - i)"
proof -
  have i: "i < length d" "d ! i \<noteq> 0" "\<forall>j < i. d ! j = 0"
    using assms by (auto simp: find_Some_iff)
  have split: "d = take i d @ d ! i # drop (Suc i) d" using i by (simp add: id_take_nth_drop)
  have zeros: "be_val (take i d @ r) = be_val r" for r
  proof -
    have "take i d = replicate i 0" using i by (intro nth_equalityI) auto
    moreover have "be_val (replicate i 0 @ r) = be_val r" by (induction i) simp_all
    ultimately show ?thesis by simp
  qed
  have "be_val d = be_val (d ! i # drop (Suc i) d)" using split zeros by metis
  moreover have "be_val (drop (Suc i) d) < 256 ^ (length d - 1 - i)"
    using be_val_less [of "drop (Suc i) d"] by (simp add: Suc_diff_Suc)
  ultimately show ?thesis using i by (simp add: Suc_diff_Suc)
qed

lemma map2_xor_zero: "length a = length b \<Longrightarrow> (\<forall>i < length a. map2 (XOR) a b ! i = (0 :: byte)) \<longleftrightarrow> a = b"
  by (auto simp: list_eq_iff_nth_eq xor_eq_0_byte)

lemma bucket_of_distance:
  assumes len: "length d = 20" and some: "find (\<lambda>i. d ! i \<noteq> 0) [0..<length d] = Some i"
  shows "\<exists>n < 160. int NODE_ID_BITS - 1 - (int i * 8 + (7 - int (msb_of (d ! i)))) = int n \<and>
    2 ^ n \<le> be_val d \<and> be_val d < 2 ^ Suc n"
proof -
  let ?m = "msb_of (d ! i)"
  note T = be_val_top [OF some]
  note M = msb_bounds [of "d ! i"]
  have i: "i < 20" "?m \<le> 7" using T M len by auto
  let ?n = "8 * (19 - i) + ?m"
  have idx: "int NODE_ID_BITS - 1 - (int i * 8 + (7 - int ?m)) = int ?n"
    using i by (simp add: NODE_ID_BITS_def NODE_ID_BYTES_def of_nat_diff)
  have pow: "(256 :: nat) ^ (19 - i) = 2 ^ (8 * (19 - i))" by (simp add: power_mult)
  have "2 ^ ?m * 2 ^ (8 * (19 - i)) \<le> unat (d ! i) * 2 ^ (8 * (19 - i))"
    using M T by (intro mult_le_mono1) simp
  moreover have "(unat (d ! i) + 1) * 2 ^ (8 * (19 - i)) \<le> 2 ^ Suc ?m * 2 ^ (8 * (19 - i))"
    using M T by (intro mult_le_mono1) simp
  moreover have "2 ^ Suc ?m * 2 ^ (8 * (19 - i)) = (2 :: nat) ^ Suc ?n" "2 ^ ?m * 2 ^ (8 * (19 - i)) = (2 :: nat) ^ ?n"
    by (simp_all add: power_add mult.commute)
  moreover have "unat (d ! i) * 2 ^ (8 * (19 - i)) \<le> be_val d" "be_val d < (unat (d ! i) + 1) * 2 ^ (8 * (19 - i))"
    using T len by (simp_all add: pow)
  ultimately have "2 ^ ?n \<le> be_val d \<and> be_val d < 2 ^ Suc ?n" by linarith
  moreover have "?n < 160" using i by simp
  ultimately show ?thesis using idx by blast
qed

lemma bucketIndex_spec:
  assumes "isNodeId a" "isNodeId b"
  shows "\<exists>i. bucketIndex a b = ok i \<and>
    (if a = b then i = -1
     else 0 \<le> i \<and> i < int NODE_ID_BITS \<and> 2 ^ nat i \<le> be_val (map2 (XOR) a b) \<and> be_val (map2 (XOR) a b) < 2 ^ Suc (nat i))"
proof -
  have len: "length a = 20" "length b = 20"
    using assms by (simp_all add: isNodeId_def NODE_ID_BYTES_def)
  obtain d where d: "d = map2 (XOR) a b" by blast
  then have ld: "length d = 20" using len by simp
  have same: "(\<forall>i < length d. d ! i = 0) \<longleftrightarrow> a = b" using map2_xor_zero [of a b] len by (simp add: d)
  have run: "bucketIndex a b = ok (case find (\<lambda>i. d ! i \<noteq> 0) [0..<length d] of
            None \<Rightarrow> -1
          | Some i \<Rightarrow> int NODE_ID_BITS - 1 - (int i * 8 + (7 - int (msb_of (d ! i)))))"
    using len by (simp add: bucketIndex_def xorDistance_def flip: d)
  show ?thesis
  proof (cases "find (\<lambda>i. d ! i \<noteq> 0) [0..<length d]")
    case None
    then have "a = b" unfolding same [symmetric] by (simp add: find_None_iff)
    with run None show ?thesis by simp
  next
    case (Some i)
    then have "a \<noteq> b" unfolding same [symmetric] using find_SomeD [OF Some] by auto
    moreover obtain n where "n < 160" "bucketIndex a b = ok (int n)" "2 ^ n \<le> be_val d" "be_val d < 2 ^ Suc n"
      using bucket_of_distance [OF ld Some] run Some by auto
    ultimately show ?thesis
      unfolding d [symmetric] by (simp add: NODE_ID_BITS_def NODE_ID_BYTES_def)
  qed
qed

end
