(* ===== verification/RoutingTable.thy ===== *)
theory RoutingTable imports NodeId begin

text \<open>
  The Kademlia routing table of \<open>frontend/src/lib/dht/kbucket.ts\<close>: 160 buckets of at most \<open>k\<close>
  contacts, kept in order of the last sighting.
\<close>

section \<open>The model\<close>

record contact =
  ct_id :: node_id
  ct_handle :: string
  ct_lastSeen :: nat

record routing_table =
  rt_self :: node_id
  rt_k :: nat
  rt_buckets :: "contact list list"

definition new_RoutingTable :: "node_id \<Rightarrow> nat \<Rightarrow> routing_table" where
  "new_RoutingTable self k = \<lparr>rt_self = self, rt_k = k, rt_buckets = replicate NODE_ID_BITS []\<rparr>"

definition sameId :: "node_id \<Rightarrow> node_id \<Rightarrow> bool" where
  "sameId a b \<longleftrightarrow> length a = length b \<and> (\<forall>i \<in> set [0..<length a]. a ! i = b ! i)"

text \<open>The index of the first element that satisfies a test, as \<open>findIndex\<close> gives it.\<close>

definition findIndex :: "('a \<Rightarrow> bool) \<Rightarrow> 'a list \<Rightarrow> nat option" where
  "findIndex P xs = find (\<lambda>i. P (xs ! i)) [0..<length xs]"

definition remove_at :: "nat \<Rightarrow> 'a list \<Rightarrow> 'a list" where
  "remove_at i xs = take i xs @ drop (Suc i) xs"

definition observe :: "nat \<Rightarrow> node_id \<Rightarrow> string \<Rightarrow> routing_table \<Rightarrow> (bool \<times> routing_table) result" where
  "observe now cid handle rt =
    (if sameId cid (rt_self rt) then ok (False, rt)
     else rbind (bucketIndex (rt_self rt) cid) (\<lambda>idx.
       if idx < 0 then ok (False, rt)
       else
         let bucket = rt_buckets rt ! nat idx in
         (case findIndex (\<lambda>c. ct_handle c = handle \<or> sameId (ct_id c) cid) bucket of
            Some existingIdx \<Rightarrow>
              ok (False, rt\<lparr>rt_buckets := (rt_buckets rt)[nat idx :=
                 remove_at existingIdx bucket @ [(bucket ! existingIdx)\<lparr>ct_lastSeen := now\<rparr>]]\<rparr>)
          | None \<Rightarrow>
              if length bucket \<ge> rt_k rt then ok (False, rt)
              else ok (True, rt\<lparr>rt_buckets := (rt_buckets rt)[nat idx :=
                 bucket @ [\<lparr>ct_id = cid, ct_handle = handle, ct_lastSeen = now\<rparr>]]\<rparr>))))"

fun remove_from :: "string \<Rightarrow> contact list list \<Rightarrow> bool \<times> contact list list" where
  "remove_from handle [] = (False, [])"
| "remove_from handle (bucket # buckets) =
    (case findIndex (\<lambda>c. ct_handle c = handle) bucket of
       Some idx \<Rightarrow> (True, remove_at idx bucket # buckets)
     | None \<Rightarrow> (case remove_from handle buckets of (r, bs) \<Rightarrow> (r, bucket # bs)))"

definition rt_remove :: "string \<Rightarrow> routing_table \<Rightarrow> bool \<times> routing_table" where
  "rt_remove handle rt = (case remove_from handle (rt_buckets rt) of (r, bs) \<Rightarrow> (r, rt\<lparr>rt_buckets := bs\<rparr>))"

definition bucketSizes :: "routing_table \<Rightarrow> nat list" where
  "bucketSizes rt = map length (rt_buckets rt)"

definition rt_size :: "routing_table \<Rightarrow> nat" where
  "rt_size rt = fold (\<lambda>b n. n + length b) (rt_buckets rt) 0"

definition allContacts :: "routing_table \<Rightarrow> contact list" where
  "allContacts rt = concat (rt_buckets rt)"

text \<open>\<open>xor\<close> of \<open>kbucket.ts\<close>: a missing byte of the second argument counts as zero.\<close>

definition xor_pad :: "bytes \<Rightarrow> bytes \<Rightarrow> bytes" where
  "xor_pad a b = map (\<lambda>i. if i < length b then a ! i XOR b ! i else a ! i) [0..<length a]"

definition by_distance :: "node_id \<Rightarrow> node_id \<Rightarrow> node_id \<Rightarrow> int" where
  "by_distance target a b = byteCmp (xor_pad a target) (xor_pad b target)"

definition closest :: "node_id \<Rightarrow> nat \<Rightarrow> routing_table \<Rightarrow> contact list" where
  "closest target count rt =
    take count (cmp_sort (\<lambda>a b. by_distance target (ct_id a) (ct_id b)) (allContacts rt))"

section \<open>Small facts\<close>

lemma sameId_eq [simp]: "sameId a b \<longleftrightarrow> a = b"
proof -
  have "a = b \<longleftrightarrow> length a = length b \<and> (\<forall>i < length a. a ! i = b ! i)" by (rule list_eq_iff_nth_eq)
  then show ?thesis by (simp add: sameId_def Ball_def)
qed

lemma xor_pad_eq: "length a = length b \<Longrightarrow> xor_pad a b = map2 (XOR) a b"
  by (intro nth_equalityI) (simp_all add: xor_pad_def)

lemma length_xor_pad [simp]: "length (xor_pad a b) = length a"
  by (simp add: xor_pad_def)

lemma findIndex_Some: "findIndex P xs = Some i \<Longrightarrow> i < length xs \<and> P (xs ! i) \<and> (\<forall>j < i. \<not> P (xs ! j))"
  by (auto simp: findIndex_def find_Some_iff)

lemma findIndex_None: "findIndex P xs = None \<longleftrightarrow> (\<forall>x \<in> set xs. \<not> P x)"
  by (simp add: findIndex_def find_None_iff all_set_conv_all_nth)

lemma remove_at_split: "i < length xs \<Longrightarrow> xs = take i xs @ xs ! i # drop (Suc i) xs"
  by (simp add: id_take_nth_drop)

lemma set_remove_at: "i < length xs \<Longrightarrow> insert (xs ! i) (set (remove_at i xs)) = set xs"
  using arg_cong [OF remove_at_split, of i xs set] by (auto simp: remove_at_def)

lemma remove_at_distinct:
  "i < length xs \<Longrightarrow> distinct (map f xs) \<Longrightarrow> distinct (map f (remove_at i xs)) \<and> f (xs ! i) \<notin> f ` set (remove_at i xs)"
proof -
  assume i: "i < length xs" and "distinct (map f xs)"
  then have "distinct (map f (take i xs @ xs ! i # drop (Suc i) xs))" by (simp flip: remove_at_split)
  then show ?thesis by (auto simp: remove_at_def)
qed

lemma length_remove_at: "i < length xs \<Longrightarrow> length (remove_at i xs) = length xs - 1"
  by (simp add: remove_at_def)

interpretation dist: comparator "\<lambda>a b. by_distance target (ct_id a) (ct_id b)"
  "\<lambda>c. be_val (xor_pad (ct_id c) target)" "\<lambda>c. isNodeId (ct_id c)" for target
  by unfold_locales (auto simp: by_distance_def isNodeId_def byteCmp_spec)

section \<open>The invariant\<close>

definition bucket_ok :: "node_id \<Rightarrow> nat \<Rightarrow> nat \<Rightarrow> contact list \<Rightarrow> bool" where
  "bucket_ok self k i b \<longleftrightarrow> length b \<le> k \<and> distinct (map ct_id b) \<and> distinct (map ct_handle b) \<and>
    (\<forall>c \<in> set b. isNodeId (ct_id c) \<and> bucketIndex self (ct_id c) = ok (int i))"

definition table_ok :: "routing_table \<Rightarrow> bool" where
  "table_ok rt \<longleftrightarrow> isNodeId (rt_self rt) \<and> length (rt_buckets rt) = NODE_ID_BITS \<and>
    (\<forall>i < NODE_ID_BITS. bucket_ok (rt_self rt) (rt_k rt) i (rt_buckets rt ! i))"

lemma table_ok_new: "isNodeId self \<Longrightarrow> table_ok (new_RoutingTable self k)"
  by (simp add: table_ok_def new_RoutingTable_def bucket_ok_def)

lemma table_ok_update:
  "table_ok rt \<Longrightarrow> bucket_ok (rt_self rt) (rt_k rt) i b \<Longrightarrow> table_ok (rt\<lparr>rt_buckets := (rt_buckets rt)[i := b]\<rparr>)"
proof -
  assume ok: "table_ok rt" and b: "bucket_ok (rt_self rt) (rt_k rt) i b"
  have "bucket_ok (rt_self rt) (rt_k rt) j ((rt_buckets rt)[i := b] ! j)" if "j < NODE_ID_BITS" for j
    using that ok b by (cases "j = i") (simp_all add: table_ok_def)
  with ok show ?thesis by (simp add: table_ok_def)
qed

lemma bucket_ok_move:
  assumes ok: "bucket_ok self k i b" and j: "j < length b"
  shows "bucket_ok self k i (remove_at j b @ [(b ! j)\<lparr>ct_lastSeen := now\<rparr>])"
proof -
  have "distinct (map ct_id b)" "distinct (map ct_handle b)" using ok by (simp_all add: bucket_ok_def)
  note d = this [THEN remove_at_distinct [OF j]]
  have "b ! j \<in> set b" using j by simp
  moreover have "set (remove_at j b) \<subseteq> set b" using set_remove_at [OF j] by blast
  ultimately show ?thesis
    using ok d j by (auto simp: bucket_ok_def length_remove_at)
qed

text \<open>The cases of a sighting of a well-formed identifier.\<close>

lemma observe_cases:
  assumes ok: "table_ok rt" and cid: "isNodeId cid"
  obtains (self) "cid = rt_self rt" "observe now cid h rt = ok (False, rt)"
  | (known) i j where "i < NODE_ID_BITS" "bucketIndex (rt_self rt) cid = ok (int i)" "j < length (rt_buckets rt ! i)"
      "ct_handle (rt_buckets rt ! i ! j) = h \<or> ct_id (rt_buckets rt ! i ! j) = cid"
      "observe now cid h rt = ok (False, rt\<lparr>rt_buckets := (rt_buckets rt)[i :=
        remove_at j (rt_buckets rt ! i) @ [(rt_buckets rt ! i ! j)\<lparr>ct_lastSeen := now\<rparr>]]\<rparr>)"
  | (full) i where "i < NODE_ID_BITS" "bucketIndex (rt_self rt) cid = ok (int i)" "rt_k rt \<le> length (rt_buckets rt ! i)"
      "\<forall>c \<in> set (rt_buckets rt ! i). ct_handle c \<noteq> h \<and> ct_id c \<noteq> cid" "observe now cid h rt = ok (False, rt)"
  | (fresh) i where "i < NODE_ID_BITS" "bucketIndex (rt_self rt) cid = ok (int i)" "length (rt_buckets rt ! i) < rt_k rt"
      "\<forall>c \<in> set (rt_buckets rt ! i). ct_handle c \<noteq> h \<and> ct_id c \<noteq> cid"
      "observe now cid h rt = ok (True, rt\<lparr>rt_buckets := (rt_buckets rt)[i :=
        rt_buckets rt ! i @ [\<lparr>ct_id = cid, ct_handle = h, ct_lastSeen = now\<rparr>]]\<rparr>)"
proof (cases "cid = rt_self rt")
  case True
  then show ?thesis by (intro self) (simp_all add: observe_def)
next
  case False
  have "isNodeId (rt_self rt)" using ok by (simp add: table_ok_def)
  with bucketIndex_spec [OF this cid] False obtain z where z: "bucketIndex (rt_self rt) cid = ok z" "0 \<le> z"
    "z < int NODE_ID_BITS" by auto
  define i where "i = nat z"
  have i: "bucketIndex (rt_self rt) cid = ok (int i)" "i < NODE_ID_BITS" using z by (auto simp: i_def)
  let ?b = "rt_buckets rt ! i"
  let ?P = "\<lambda>c. ct_handle c = h \<or> ct_id c = cid"
  show ?thesis
  proof (cases "findIndex ?P ?b")
    case (Some j)
    note F = findIndex_Some [OF Some]
    show ?thesis
      by (rule known [OF i(2,1), of j]) (use F Some False i in \<open>simp_all add: observe_def Let_def\<close>)
  next
    case None
    then have no: "\<forall>c \<in> set ?b. ct_handle c \<noteq> h \<and> ct_id c \<noteq> cid" by (simp add: findIndex_None)
    show ?thesis
    proof (cases "length ?b \<ge> rt_k rt")
      case True
      show ?thesis by (rule full [OF i(2,1) True no]) (use None False i True in \<open>simp add: observe_def Let_def\<close>)
    next
      case room: False
      show ?thesis
        by (rule fresh [OF i(2,1) _ no]) (use None False i room in \<open>simp_all add: observe_def Let_def\<close>)
    qed
  qed
qed

lemma observe_ok:
  assumes ok: "table_ok rt" and cid: "isNodeId cid"
  shows "\<exists>new rt'. observe now cid h rt = ok (new, rt') \<and> table_ok rt' \<and> rt_self rt' = rt_self rt \<and> rt_k rt' = rt_k rt"
proof (cases rule: observe_cases [OF assms, where now = now and h = h, case_names self known full fresh])
  case (known i j)
  have "bucket_ok (rt_self rt) (rt_k rt) i (rt_buckets rt ! i)" using ok known by (simp add: table_ok_def)
  with known show ?thesis by (auto intro!: table_ok_update ok bucket_ok_move)
next
  case (fresh i)
  have "bucket_ok (rt_self rt) (rt_k rt) i (rt_buckets rt ! i)" using ok fresh by (simp add: table_ok_def)
  then have "bucket_ok (rt_self rt) (rt_k rt) i (rt_buckets rt ! i @ [\<lparr>ct_id = cid, ct_handle = h, ct_lastSeen = now\<rparr>])"
    using fresh cid by (auto simp: bucket_ok_def)
  with fresh show ?thesis by (auto intro!: table_ok_update ok)
qed (use ok in auto)

lemma remove_from_spec:
  "length (snd (remove_from h bs)) = length bs \<and>
   (\<forall>i < length bs. snd (remove_from h bs) ! i = bs ! i \<or>
      (\<exists>j < length (bs ! i). ct_handle (bs ! i ! j) = h \<and> snd (remove_from h bs) ! i = remove_at j (bs ! i))) \<and>
   (fst (remove_from h bs) \<longleftrightarrow> (\<exists>b \<in> set bs. \<exists>c \<in> set b. ct_handle c = h))"
proof (induction bs)
  case (Cons b bs)
  show ?case
  proof (cases "findIndex (\<lambda>c. ct_handle c = h) b")
    case None
    then have "\<forall>c \<in> set b. ct_handle c \<noteq> h" by (simp add: findIndex_None)
    with None Cons show ?thesis by (auto simp: nth_Cons split: prod.splits nat.splits)
  next
    case (Some j)
    note F = findIndex_Some [OF Some]
    then have "b ! j \<in> set b" by simp
    with Some F show ?thesis by (auto simp: nth_Cons split: nat.splits)
  qed
qed simp

lemma bucket_ok_remove: "bucket_ok self k i b \<Longrightarrow> j < length b \<Longrightarrow> bucket_ok self k i (remove_at j b)"
proof -
  assume ok: "bucket_ok self k i b" and j: "j < length b"
  have "distinct (map ct_id b)" "distinct (map ct_handle b)" using ok by (simp_all add: bucket_ok_def)
  note d = this [THEN remove_at_distinct [OF j]]
  have "set (remove_at j b) \<subseteq> set b" using set_remove_at [OF j] by blast
  then show ?thesis
    using ok d j by (auto simp: bucket_ok_def length_remove_at)
qed

lemma rt_remove_ok: "table_ok rt \<Longrightarrow> table_ok (snd (rt_remove h rt))"
proof -
  assume ok: "table_ok rt"
  let ?bs = "snd (remove_from h (rt_buckets rt))"
  have rt: "snd (rt_remove h rt) = rt\<lparr>rt_buckets := ?bs\<rparr>" by (simp add: rt_remove_def split: prod.splits)
  note S = remove_from_spec [of h "rt_buckets rt"]
  have "bucket_ok (rt_self rt) (rt_k rt) i (?bs ! i)" if "i < NODE_ID_BITS" for i
  proof -
    have "bucket_ok (rt_self rt) (rt_k rt) i (rt_buckets rt ! i)" "i < length (rt_buckets rt)"
      using ok that by (simp_all add: table_ok_def)
    with S bucket_ok_remove show ?thesis by metis
  qed
  with ok S show ?thesis unfolding rt by (simp add: table_ok_def)
qed

lemma contact_in_bucket:
  "table_ok rt \<Longrightarrow> c \<in> set (allContacts rt) \<longleftrightarrow> (\<exists>i < NODE_ID_BITS. c \<in> set (rt_buckets rt ! i))"
proof -
  assume "table_ok rt"
  then have "set (rt_buckets rt) = {rt_buckets rt ! i | i. i < NODE_ID_BITS}"
    by (simp add: table_ok_def set_conv_nth)
  then show ?thesis by (auto simp: allContacts_def)
qed

lemma contact_nodeId: "table_ok rt \<Longrightarrow> c \<in> set (allContacts rt) \<Longrightarrow> isNodeId (ct_id c)"
  by (auto simp: contact_in_bucket table_ok_def bucket_ok_def)

lemma distinct_ids: "table_ok rt \<Longrightarrow> distinct (map ct_id (allContacts rt))"
proof -
  assume ok: "table_ok rt"
  have *: "\<lbrakk>\<forall>i < length bs. distinct (map ct_id (bs ! i)) \<and> (\<forall>c \<in> set (bs ! i). bucketIndex s (ct_id c) = ok (int (n + i)))\<rbrakk>
      \<Longrightarrow> distinct (map ct_id (concat bs))" for bs :: "contact list list" and s n
  proof (induction bs arbitrary: n)
    case (Cons b bs)
    have tail: "\<forall>i < length bs. distinct (map ct_id (bs ! i)) \<and> (\<forall>c \<in> set (bs ! i). bucketIndex s (ct_id c) = ok (int (Suc n + i)))"
      using Cons.prems by force
    have hd: "distinct (map ct_id b)" "\<forall>c \<in> set b. bucketIndex s (ct_id c) = ok (int n)"
      using Cons.prems by force+
    have "ct_id c \<noteq> ct_id c'" if "c \<in> set b" "c' \<in> set (concat bs)" for c c'
    proof -
      from that(2) obtain b' where "b' \<in> set bs" "c' \<in> set b'" by auto
      then obtain i where "i < length bs" "c' \<in> set (bs ! i)" by (metis in_set_conv_nth)
      with tail have "bucketIndex s (ct_id c') = ok (int (Suc n + i))" by blast
      with hd that(1) show ?thesis by force
    qed
    then have "ct_id ` set b \<inter> ct_id ` set (concat bs) = {}" by blast
    with hd(1) Cons.IH [OF tail] show ?case by simp
  qed simp
  have "\<forall>i < length (rt_buckets rt). distinct (map ct_id (rt_buckets rt ! i)) \<and>
      (\<forall>c \<in> set (rt_buckets rt ! i). bucketIndex (rt_self rt) (ct_id c) = ok (int (0 + i)))"
    using ok by (auto simp: table_ok_def bucket_ok_def)
  from * [OF this] show ?thesis by (simp add: allContacts_def)
qed

section \<open>The nearest contacts\<close>

lemma closest_spec:
  assumes ok: "table_ok rt"
  shows "set (closest target n rt) \<subseteq> set (allContacts rt)"
    and "length (closest target n rt) = min n (length (allContacts rt))"
    and "distinct (map ct_id (closest target n rt))"
    and "sorted (map (\<lambda>c. be_val (xor_pad (ct_id c) target)) (closest target n rt))"
    and "c \<in> set (closest target n rt) \<Longrightarrow> d \<in> set (allContacts rt) \<Longrightarrow> d \<notin> set (closest target n rt) \<Longrightarrow>
      be_val (xor_pad (ct_id c) target) \<le> be_val (xor_pad (ct_id d) target)"
proof -
  let ?s = "cmp_sort (\<lambda>a b. by_distance target (ct_id a) (ct_id b)) (allContacts rt)"
  have ids: "\<forall>c \<in> set (allContacts rt). isNodeId (ct_id c)" using contact_nodeId [OF ok] by blast
  have set: "set ?s = set (allContacts rt)" by simp
  show "set (closest target n rt) \<subseteq> set (allContacts rt)"
    using set_take_subset [of n ?s] by (simp add: closest_def)
  show "length (closest target n rt) = min n (length (allContacts rt))"
    by (simp add: closest_def min.commute)
  show "distinct (map ct_id (closest target n rt))"
    using distinct_ids [OF ok] by (simp add: closest_def distinct_take flip: take_map)
  show "sorted (map (\<lambda>c. be_val (xor_pad (ct_id c) target)) (closest target n rt))"
    using dist.cmp_sort_sorted [OF ids] by (simp add: closest_def sorted_wrt_take flip: take_map)
  assume c: "c \<in> set (closest target n rt)" and d: "d \<in> set (allContacts rt)" "d \<notin> set (closest target n rt)"
  have "set (take n ?s) \<union> set (drop n ?s) = set (allContacts rt)"
    by (metis append_take_drop_id set_append set)
  with d have "d \<in> set (drop n ?s)" by (auto simp: closest_def)
  with c dist.take_nearest [OF ids] show "be_val (xor_pad (ct_id c) target) \<le> be_val (xor_pad (ct_id d) target)"
    by (simp add: closest_def)
qed

end
