(* ===== verification/Base64.thy ===== *)
theory Base64 imports Prelude begin

text \<open>
  The base64 text of \<open>btoa\<close> and \<open>atob\<close>, as the browser's standard library defines them, on byte
  strings: what \<open>bytesToB64\<close> and \<open>b64ToBytes\<close> of \<open>frontend/src/lib/dht/kademlia.ts\<close> and their
  copies under \<open>drive/\<close> and in \<open>chatCrypto.ts\<close> compute.
\<close>

definition b64_char :: "nat \<Rightarrow> char" where
  "b64_char n =
    (if n < 26 then char_of (65 + n) else if n < 52 then char_of (71 + n)
     else if n < 62 then char_of (n - 4) else if n = 62 then CHR ''+'' else CHR ''/'')"

definition b64_val :: "char \<Rightarrow> nat option" where
  "b64_val c = (let n = of_char c :: nat in
    if 65 \<le> n \<and> n \<le> 90 then Some (n - 65)
    else if 97 \<le> n \<and> n \<le> 122 then Some (n - 71)
    else if 48 \<le> n \<and> n \<le> 57 then Some (n + 4)
    else if c = CHR ''+'' then Some 62 else if c = CHR ''/'' then Some 63 else None)"

fun b64_sextets :: "bytes \<Rightarrow> nat list" where
  "b64_sextets [] = []"
| "b64_sextets [a] = [unat a div 4, unat a mod 4 * 16]"
| "b64_sextets [a, b] = [unat a div 4, unat a mod 4 * 16 + unat b div 16, unat b mod 16 * 4]"
| "b64_sextets (a # b # c # rest) =
    [unat a div 4, unat a mod 4 * 16 + unat b div 16, unat b mod 16 * 4 + unat c div 64, unat c mod 64]
      @ b64_sextets rest"

definition btoa :: "bytes \<Rightarrow> string" where
  "btoa bs = map b64_char (b64_sextets bs) @ replicate ((3 - length bs mod 3) mod 3) CHR ''=''"

fun b64_octets :: "nat list \<Rightarrow> bytes" where
  "b64_octets (a # b # c # d # rest) =
    [word_of_nat (a * 4 + b div 16), word_of_nat (b mod 16 * 16 + c div 4), word_of_nat (c mod 4 * 64 + d)]
      @ b64_octets rest"
| "b64_octets [a, b, c] = [word_of_nat (a * 4 + b div 16), word_of_nat (b mod 16 * 16 + c div 4)]"
| "b64_octets [a, b] = [word_of_nat (a * 4 + b div 16)]"
| "b64_octets _ = []"

definition b64_space :: "char \<Rightarrow> bool" where
  "b64_space c \<longleftrightarrow> of_char c \<in> {9, 10, 12, 13, 32 :: nat}"

definition b64_strip :: "string \<Rightarrow> string" where
  "b64_strip s =
    (if length s mod 4 \<noteq> 0 then s
     else if take 2 (rev s) = ''=='' then take (length s - 2) s
     else if take 1 (rev s) = ''='' then take (length s - 1) s else s)"

text \<open>\<open>atob\<close>: it throws on a length of 1 modulo 4 and on characters outside the alphabet.\<close>

definition atob :: "string \<Rightarrow> bytes option" where
  "atob str =
    (let s = b64_strip (filter (\<lambda>c. \<not> b64_space c) str); vs = map b64_val s
     in if length s mod 4 = 1 \<or> None \<in> set vs then None else Some (b64_octets (map the vs)))"

section \<open>Round trip\<close>

lemma b64_char_props: "n < 64 \<Longrightarrow> b64_val (b64_char n) = Some n \<and> \<not> b64_space (b64_char n) \<and> b64_char n \<noteq> CHR ''=''"
proof -
  assume n: "n < 64"
  have v: "b64_val (b64_char n) = Some n"
    using n by (auto simp: b64_val_def b64_char_def Let_def)
  have "b64_val CHR ''='' = None" by (simp add: b64_val_def)
  moreover have "b64_space c \<Longrightarrow> b64_val c = None" for c
    by (auto simp: b64_space_def b64_val_def Let_def)
  ultimately show ?thesis using v by (metis option.distinct(1))
qed

lemma b64_sextets_lt: "\<forall>n \<in> set (b64_sextets bs). n < 64"
proof (induction bs rule: b64_sextets.induct)
  case (2 a)
  then show ?case using unat_byte_lt [of a] by auto
next
  case (3 a b)
  then show ?case using unat_byte_lt [of a] unat_byte_lt [of b] by auto
next
  case (4 a b c rest)
  then show ?case using unat_byte_lt [of a] unat_byte_lt [of b] unat_byte_lt [of c] by auto
qed simp

lemma sextet_parts:
  "y < 16 \<Longrightarrow> (x * 16 + y) div 16 = x" "y < 16 \<Longrightarrow> (x * 16 + y) mod 16 = y"
  "y < 4 \<Longrightarrow> (x * 4 + y) div 4 = x" "y < 4 \<Longrightarrow> (x * 4 + y) mod 4 = y" for x y :: nat
  by simp_all

lemma word_nat_id: "word_of_nat (unat b) = b" for b :: byte
  by simp

lemma byte_parts: "unat b div 16 < 16" "unat b div 64 < 4" for b :: byte
  using unat_byte_lt [of b] by auto

lemma b64_octets_sextets: "b64_octets (b64_sextets bs) = bs"
proof (induction bs rule: b64_sextets.induct)
  case (2 a)
  then show ?case by simp
next
  case (3 a b)
  have "(unat a mod 4 * 16 + unat b div 16) div 16 = unat a mod 4"
    "(unat a mod 4 * 16 + unat b div 16) mod 16 = unat b div 16" "unat b mod 16 * 4 div 4 = unat b mod 16"
    using byte_parts [of b] by (simp_all only: sextet_parts)
  then show ?case by (simp only: b64_sextets.simps b64_octets.simps div_mult_mod_eq word_nat_id)
next
  case (4 a b c rest)
  have "(unat a mod 4 * 16 + unat b div 16) div 16 = unat a mod 4"
    "(unat a mod 4 * 16 + unat b div 16) mod 16 = unat b div 16"
    "(unat b mod 16 * 4 + unat c div 64) div 4 = unat b mod 16"
    "(unat b mod 16 * 4 + unat c div 64) mod 4 = unat c div 64"
    using byte_parts [of b] byte_parts [of c] by (simp_all only: sextet_parts)
  with 4 show ?case
    by (simp only: b64_sextets.simps b64_octets.simps append_Cons append_Nil div_mult_mod_eq word_nat_id)
qed simp

lemma length_b64_sextets: "length (b64_sextets bs) = 4 * (length bs div 3) + (if length bs mod 3 = 0 then 0 else length bs mod 3 + 1)"
proof (induction bs rule: b64_sextets.induct)
  case (4 a b c rest)
  have "length (a # b # c # rest) = length rest + 3" by simp
  then have "length (a # b # c # rest) div 3 = Suc (length rest div 3)" "length (a # b # c # rest) mod 3 = length rest mod 3"
    by simp_all
  with 4 show ?case by simp
qed simp_all

lemma last_plain: "\<forall>c \<in> set xs. c \<noteq> e \<Longrightarrow> take 1 (rev xs) \<noteq> [e]"
  by (cases xs rule: rev_cases) auto

lemma b64_strip_btoa: "b64_strip (btoa bs) = map b64_char (b64_sextets bs)"
proof -
  let ?body = "map b64_char (b64_sextets bs)"
  have ne: "c \<noteq> CHR ''=''" if "c \<in> set ?body" for c
  proof -
    from that obtain n where n: "n \<in> set (b64_sextets bs)" "c = b64_char n" by auto
    have "n < 64" using b64_sextets_lt [of bs] n(1) by (rule bspec)
    from b64_char_props [OF this] n(2) show ?thesis by simp
  qed
  have last: "take 1 (rev ?body) \<noteq> ''=''"
    by (rule last_plain) (use ne in blast)
  consider "length bs mod 3 = 0" | "length bs mod 3 = 1" | "length bs mod 3 = 2" by linarith
  then show ?thesis
  proof cases
    case 1
    then have "length ?body mod 4 = 0" by (simp add: length_b64_sextets)
    moreover have "take 2 (rev ?body) \<noteq> ''==''" using last by (cases "rev ?body") auto
    ultimately show ?thesis using last 1 by (simp add: b64_strip_def btoa_def)
  next
    case 2
    then have "length (?body @ ''=='') mod 4 = 0" by (simp add: length_b64_sextets)
    moreover have "replicate 2 CHR ''='' = ''==''" by (simp add: numeral_2_eq_2)
    with 2 have "btoa bs = ?body @ ''==''" by (simp add: btoa_def)
    ultimately show ?thesis by (simp add: b64_strip_def)
  next
    case 3
    then have m: "length (?body @ ''='') mod 4 = 0" by (simp add: length_b64_sextets)
    have "take 1 (rev ?body) = ''='' \<longleftrightarrow> take 2 (CHR ''='' # rev ?body) = ''==''"
      by (cases "rev ?body") simp_all
    then have "take 2 (rev (?body @ ''='')) \<noteq> ''==''" using last by simp
    moreover have "btoa bs = ?body @ ''=''" using 3 by (simp add: btoa_def)
    ultimately show ?thesis using m by (simp add: b64_strip_def)
  qed
qed

theorem atob_btoa: "atob (btoa bs) = Some bs"
proof -
  let ?body = "map b64_char (b64_sextets bs)"
  have plain: "b64_val (b64_char n) = Some n \<and> \<not> b64_space (b64_char n)" if "n \<in> set (b64_sextets bs)" for n
    using that b64_sextets_lt b64_char_props by blast
  have vals: "map (\<lambda>x. the (b64_val (b64_char x))) (b64_sextets bs) = b64_sextets bs"
    using plain by (intro map_idI) simp
  have "\<not> b64_space CHR ''=''" by (simp add: b64_space_def)
  then have "filter (\<lambda>c. \<not> b64_space c) (btoa bs) = btoa bs"
    using plain by (auto simp: btoa_def filter_id_conv)
  moreover have "map b64_val ?body = map Some (b64_sextets bs)" using plain by simp
  moreover have "length ?body mod 4 \<noteq> 1" using length_b64_sextets [of bs] by (auto split: if_splits)
  ultimately show ?thesis
    by (auto simp: atob_def b64_strip_btoa Let_def b64_octets_sextets comp_def vals)
qed

end
