(* ===== verification/Kademlia.thy ===== *)
theory Kademlia imports RoutingTable Base64 begin

text \<open>
  The Kademlia node of \<open>frontend/src/lib/dht/kademlia.ts\<close> with the messages of \<open>protocol.ts\<close>:
  requests and their settlement, the message handler, STORE, and the iterative lookup. The
  SHA-256 digest is a parameter. What happens while a lookup awaits its batch is a list of
  events (arriving messages, expiring timers) that the node's own handlers process.
\<close>

section \<open>Messages and state\<close>

type_synonym wire_contact = "string \<times> string"

datatype dht_message =
    DhtPing string string
  | DhtPong string string
  | FindNode string string string
  | FindNodeResponse string string "wire_contact list"
  | FindValue string string string
  | FindValueResponse string string "string option" "wire_contact list"
  | Store string string string string
  | StoreAck string string bool

fun msg_op :: "dht_message \<Rightarrow> string" where
  "msg_op (DhtPing _ _) = ''dht:ping''"
| "msg_op (DhtPong _ _) = ''dht:pong''"
| "msg_op (FindNode _ _ _) = ''dht:find-node''"
| "msg_op (FindNodeResponse _ _ _) = ''dht:find-node-response''"
| "msg_op (FindValue _ _ _) = ''dht:find-value''"
| "msg_op (FindValueResponse _ _ _ _) = ''dht:find-value-response''"
| "msg_op (Store _ _ _ _) = ''dht:store''"
| "msg_op (StoreAck _ _ _) = ''dht:store-ack''"

fun msg_rid :: "dht_message \<Rightarrow> string" where
  "msg_rid (DhtPing rid _) = rid"
| "msg_rid (DhtPong rid _) = rid"
| "msg_rid (FindNode rid _ _) = rid"
| "msg_rid (FindNodeResponse rid _ _) = rid"
| "msg_rid (FindValue rid _ _) = rid"
| "msg_rid (FindValueResponse rid _ _ _) = rid"
| "msg_rid (Store rid _ _ _) = rid"
| "msg_rid (StoreAck rid _ _) = rid"

fun msg_from :: "dht_message \<Rightarrow> string" where
  "msg_from (DhtPing _ from) = from"
| "msg_from (DhtPong _ from) = from"
| "msg_from (FindNode _ from _) = from"
| "msg_from (FindNodeResponse _ from _) = from"
| "msg_from (FindValue _ from _) = from"
| "msg_from (FindValueResponse _ from _ _) = from"
| "msg_from (Store _ from _ _) = from"
| "msg_from (StoreAck _ from _) = from"

definition KAD_ALPHA :: nat where "KAD_ALPHA = 3"
definition REQ_TIMEOUT_MS :: nat where "REQ_TIMEOUT_MS = 4000"

record kad_options =
  ko_k :: nat
  ko_alpha :: nat
  ko_requestTimeoutMs :: nat

definition default_kad_options :: kad_options where
  "default_kad_options = \<lparr>ko_k = 8, ko_alpha = KAD_ALPHA, ko_requestTimeoutMs = REQ_TIMEOUT_MS\<rparr>"

text \<open>A pending request is the message kind its promise waits for; its timer runs while it is listed.\<close>

record knode =
  kn_id :: node_id
  kn_handle :: string
  kn_table :: routing_table
  kn_storage :: "(string, bytes) jmap"
  kn_pending :: "(string, string) jmap"
  kn_opts :: kad_options
  kn_nextRid :: nat
  kn_subscribed :: bool

definition new_KademliaNode :: "node_id \<Rightarrow> string \<Rightarrow> kad_options \<Rightarrow> knode result" where
  "new_KademliaNode cid handle opts =
    (if \<not> isNodeId cid then throw ''KademliaNode: invalid id''
     else ok \<lparr>kn_id = cid, kn_handle = handle, kn_table = new_RoutingTable cid (ko_k opts), kn_storage = [],
              kn_pending = [], kn_opts = opts, kn_nextRid = 1, kn_subscribed = False\<rparr>)"

definition kad_create :: "(string \<Rightarrow> bytes) \<Rightarrow> string \<Rightarrow> kad_options \<Rightarrow> knode result" where
  "kad_create sha256 handle opts = new_KademliaNode (nodeIdFromString sha256 handle) handle opts"

definition kad_start :: "knode \<Rightarrow> knode" where
  "kad_start st = (if kn_subscribed st then st else st\<lparr>kn_subscribed := True\<rparr>)"

definition kad_stop :: "knode \<Rightarrow> knode" where
  "kad_stop st = st\<lparr>kn_subscribed := False, kn_pending := []\<rparr>"

definition addContact :: "(string \<Rightarrow> bytes) \<Rightarrow> nat \<Rightarrow> string \<Rightarrow> knode \<Rightarrow> (bool \<times> knode) result" where
  "addContact sha256 now handle st =
    (if handle = kn_handle st then ok (False, st)
     else rbind (observe now (nodeIdFromString sha256 handle) handle (kn_table st)) (\<lambda>(new, rt).
       ok (new, st\<lparr>kn_table := rt\<rparr>)))"

definition removeContact :: "string \<Rightarrow> knode \<Rightarrow> bool \<times> knode" where
  "removeContact handle st = (case rt_remove handle (kn_table st) of (r, rt) \<Rightarrow> (r, st\<lparr>kn_table := rt\<rparr>))"

section \<open>Requests\<close>

text \<open>
  \<open>request\<close>: register the waiter, hand the message to the transport, and reject at once when
  the transport refuses it. \<open>sent\<close> is the transport's answer.
\<close>

definition kad_request ::
  "(string \<Rightarrow> dht_message \<Rightarrow> bool) \<Rightarrow> string \<Rightarrow> (string \<Rightarrow> dht_message) \<Rightarrow> string \<Rightarrow> knode
    \<Rightarrow> knode \<times> string \<times> bool" where
  "kad_request sent handle build expectedOp st =
    (let rid = kn_handle st @ ''-'' @ nat_str (kn_nextRid st);
         st1 = st\<lparr>kn_nextRid := kn_nextRid st + 1, kn_pending := jm_set (kn_pending st) rid expectedOp\<rparr>
     in if sent handle (build rid) then (st1, rid, True)
        else (st1\<lparr>kn_pending := jm_del (kn_pending st1) rid\<rparr>, rid, False))"

text \<open>What a handler call does outside: a message sent, a promise settled, a warning.\<close>

datatype kad_out = SendTo string dht_message | Settle string "dht_message result" | Warn string

definition kad_timeout :: "string \<Rightarrow> knode \<Rightarrow> knode \<times> kad_out list" where
  "kad_timeout rid st =
    (case jm_get (kn_pending st) rid of
       None \<Rightarrow> (st, [])
     | Some expectedOp \<Rightarrow>
         (st\<lparr>kn_pending := jm_del (kn_pending st) rid\<rparr>, [Settle rid (throw (expectedOp @ '': timeout''))]))"

definition kad_resolve :: "dht_message \<Rightarrow> knode \<Rightarrow> knode \<times> kad_out list" where
  "kad_resolve msg st =
    (let rid = msg_rid msg in
     case jm_get (kn_pending st) rid of
       None \<Rightarrow> (st, [])
     | Some expectedOp \<Rightarrow>
         (st\<lparr>kn_pending := jm_del (kn_pending st) rid\<rparr>,
          [Settle rid (if msg_op msg \<noteq> expectedOp then throw (expectedOp @ '': got '' @ msg_op msg) else ok msg)]))"

section \<open>The message handler\<close>

definition wire_contacts :: "contact list \<Rightarrow> wire_contact list" where
  "wire_contacts cs = map (\<lambda>c. (bytesToHex (ct_id c), ct_handle c)) cs"

definition observe_sender :: "nat \<Rightarrow> string \<Rightarrow> dht_message \<Rightarrow> knode \<Rightarrow> knode" where
  "observe_sender now fromHandle msg st =
    (if fromHandle = kn_handle st then st
     else case hexToBytes (msg_from msg) of
            Inl _ \<Rightarrow> st
          | Inr cid \<Rightarrow>
              if isNodeId cid then
                (case observe now cid fromHandle (kn_table st) of
                   Inl _ \<Rightarrow> st
                 | Inr (_, rt) \<Rightarrow> st\<lparr>kn_table := rt\<rparr>)
              else st)"

fun kad_dispatch :: "string \<Rightarrow> dht_message \<Rightarrow> knode \<Rightarrow> knode \<times> kad_out list" where
  "kad_dispatch from (DhtPing rid _) st = (st, [SendTo from (DhtPong rid (bytesToHex (kn_id st)))])"
| "kad_dispatch from (FindNode rid _ targetHex) st =
    (case hexToBytes targetHex of
       Inl e \<Rightarrow> (st, [Warn e])
     | Inr target \<Rightarrow>
         (st, [SendTo from (FindNodeResponse rid (bytesToHex (kn_id st))
                 (wire_contacts (closest target (ko_k (kn_opts st)) (kn_table st))))]))"
| "kad_dispatch from (FindValue rid _ keyHex) st =
    (case hexToBytes keyHex of
       Inl e \<Rightarrow> (st, [Warn e])
     | Inr key \<Rightarrow>
         (st, [SendTo from (FindValueResponse rid (bytesToHex (kn_id st))
                 (map_option btoa (jm_get (kn_storage st) keyHex))
                 (wire_contacts (closest key (ko_k (kn_opts st)) (kn_table st))))]))"
| "kad_dispatch from (Store rid _ keyHex valueB64) st =
    (case atob valueB64 of
       Some v \<Rightarrow> (st\<lparr>kn_storage := jm_set (kn_storage st) keyHex v\<rparr>,
                  [SendTo from (StoreAck rid (bytesToHex (kn_id st)) True)])
     | None \<Rightarrow> (st, [SendTo from (StoreAck rid (bytesToHex (kn_id st)) False)]))"
| "kad_dispatch from msg st = kad_resolve msg st"

definition kad_handleMessage :: "nat \<Rightarrow> string \<Rightarrow> dht_message \<Rightarrow> knode \<Rightarrow> knode \<times> kad_out list" where
  "kad_handleMessage now from msg st = kad_dispatch from msg (observe_sender now from msg st)"

section \<open>Events while a promise is awaited\<close>

datatype kad_event = Arrive nat string dht_message | Expire string

fun kad_event_act :: "kad_event \<Rightarrow> knode \<Rightarrow> knode \<times> kad_out list" where
  "kad_event_act (Arrive now from msg) st =
    (if kn_subscribed st then kad_handleMessage now from msg st else (st, []))"
| "kad_event_act (Expire rid) st = kad_timeout rid st"

fun kad_run :: "kad_event list \<Rightarrow> knode \<Rightarrow> knode \<times> kad_out list" where
  "kad_run [] st = (st, [])"
| "kad_run (e # es) st =
    (let (st1, o1) = kad_event_act e st; (st2, o2) = kad_run es st1 in (st2, o1 @ o2))"

text \<open>
  The outside of a call that awaits requests: the transport's answers, the clock, and for each
  batch the events up to the settlement of its last promise; a request none of them settles
  has expired by then.
\<close>

record kad_env =
  ke_sent :: "string \<Rightarrow> dht_message \<Rightarrow> bool"
  ke_now :: nat
  ke_events :: "nat \<Rightarrow> kad_event list"

fun issue_requests ::
  "kad_env \<Rightarrow> (string \<Rightarrow> dht_message) \<Rightarrow> string \<Rightarrow> string list \<Rightarrow> knode \<Rightarrow> knode \<times> (string \<times> bool) list" where
  "issue_requests env build op [] st = (st, [])"
| "issue_requests env build op (h # hs) st =
    (let (st1, rid, sent) = kad_request (ke_sent env) h build op st;
         (st2, rids) = issue_requests env build op hs st1
     in (st2, (rid, sent) # rids))"

fun settlement :: "kad_out list \<Rightarrow> string \<Rightarrow> dht_message result option" where
  "settlement [] rid = None"
| "settlement (Settle r res # os) rid = (if r = rid then Some res else settlement os rid)"
| "settlement (_ # os) rid = settlement os rid"

definition await_all ::
  "kad_env \<Rightarrow> nat \<Rightarrow> string \<Rightarrow> (string \<times> bool) list \<Rightarrow> knode \<Rightarrow> knode \<times> dht_message result list" where
  "await_all env turn op rids st =
    (case kad_run (ke_events env turn) st of (st1, outs) \<Rightarrow>
      (st1\<lparr>kn_pending := fold (\<lambda>(rid, _) m. jm_del m rid) rids (kn_pending st1)\<rparr>,
       map (\<lambda>(rid, sent).
         if \<not> sent then throw (op @ '': send failed'')
         else case settlement outs rid of Some r \<Rightarrow> r | None \<Rightarrow> throw (op @ '': timeout'')) rids))"

section \<open>STORE\<close>

fun ack_ok :: "dht_message result \<Rightarrow> bool" where
  "ack_ok (Inr (StoreAck _ _ b)) = b"
| "ack_ok _ = False"

definition kad_store :: "(string \<Rightarrow> bytes) \<Rightarrow> kad_env \<Rightarrow> string \<Rightarrow> bytes \<Rightarrow> knode \<Rightarrow> nat \<times> knode" where
  "kad_store sha256 env keyText value st =
    (let key = nodeIdFromString sha256 keyText;
         keyHex = bytesToHex key;
         st1 = st\<lparr>kn_storage := jm_set (kn_storage st) keyHex value\<rparr>;
         targets = closest key (ko_k (kn_opts st1)) (kn_table st1);
         (st2, rids) = issue_requests env
           (\<lambda>rid. Store rid (bytesToHex (kn_id st1)) keyHex (btoa value)) ''dht:store-ack'' (map ct_handle targets) st1;
         (st3, replies) = await_all env 0 ''dht:store-ack'' rids st2
     in (1 + length (filter ack_ok replies), st3))"

section \<open>The iterative lookup\<close>

datatype find_mode = NodeMode | ValueMode

record cand =
  cd_contact :: contact
  cd_queried :: bool

record find_state =
  fs_node :: knode
  fs_candidates :: "cand list"
  fs_seen :: "string list"

definition add_candidate ::
  "nat \<Rightarrow> wire_contact \<Rightarrow> find_state \<times> bool \<Rightarrow> (find_state \<times> bool) result" where
  "add_candidate now wc acc =
    (case (wc, acc) of ((idHex, handle), (fs, learned)) \<Rightarrow>
      if handle \<in> set (fs_seen fs) then ok (fs, learned)
      else if handle = kn_handle (fs_node fs) then ok (fs, learned)
      else rbind (hexToBytes idHex) (\<lambda>cid.
        rbind (observe now cid handle (kn_table (fs_node fs))) (\<lambda>(_, rt).
          ok (fs\<lparr>fs_node := (fs_node fs)\<lparr>kn_table := rt\<rparr>,
                 fs_candidates := fs_candidates fs @
                   [\<lparr>cd_contact = \<lparr>ct_id = cid, ct_handle = handle, ct_lastSeen = now\<rparr>, cd_queried = False\<rparr>],
                 fs_seen := fs_seen fs @ [handle]\<rparr>, True))))"

fun reply_contacts :: "dht_message \<Rightarrow> wire_contact list" where
  "reply_contacts (FindNodeResponse _ _ cs) = cs"
| "reply_contacts (FindValueResponse _ _ _ cs) = cs"
| "reply_contacts _ = []"

text \<open>The value of a reply: present and not the empty text, which JavaScript takes for false.\<close>

fun reply_value :: "find_mode \<Rightarrow> dht_message \<Rightarrow> string option" where
  "reply_value ValueMode (FindValueResponse _ _ (Some b64) _) = (if b64 = [] then None else Some b64)"
| "reply_value _ _ = None"

fun absorb_replies ::
  "nat \<Rightarrow> find_mode \<Rightarrow> dht_message result list \<Rightarrow> find_state \<times> bool \<Rightarrow> (find_state \<times> bool \<times> bytes option) result" where
  "absorb_replies now m [] (fs, learned) = ok (fs, learned, None)"
| "absorb_replies now m (Inl _ # rs) acc = absorb_replies now m rs acc"
| "absorb_replies now m (Inr reply # rs) acc =
    (case reply_value m reply of
       Some b64 \<Rightarrow>
         (case atob b64 of None \<Rightarrow> throw ''InvalidCharacterError'' | Some v \<Rightarrow> ok (fst acc, snd acc, Some v))
     | None \<Rightarrow> rbind (rfold (add_candidate now) (reply_contacts reply) acc) (absorb_replies now m rs))"

definition sort_candidates :: "node_id \<Rightarrow> cand list \<Rightarrow> cand list" where
  "sort_candidates target = cmp_sort (\<lambda>a b. by_distance target (ct_id (cd_contact a)) (ct_id (cd_contact b)))"

text \<open>Marking the first \<open>n\<close> candidates that were not queried yet, and their handles.\<close>

fun take_batch :: "nat \<Rightarrow> cand list \<Rightarrow> cand list \<times> string list" where
  "take_batch n [] = ([], [])"
| "take_batch n (c # cs) =
    (if n = 0 then (c # cs, [])
     else if cd_queried c then (case take_batch n cs of (cs', b) \<Rightarrow> (c # cs', b))
     else (case take_batch (n - 1) cs of (cs', b) \<Rightarrow> (c\<lparr>cd_queried := True\<rparr> # cs', ct_handle (cd_contact c) # b)))"

definition find_build :: "find_mode \<Rightarrow> knode \<Rightarrow> string \<Rightarrow> string \<Rightarrow> dht_message" where
  "find_build m st targetHex rid =
    (case m of ValueMode \<Rightarrow> FindValue rid (bytesToHex (kn_id st)) targetHex
             | NodeMode \<Rightarrow> FindNode rid (bytesToHex (kn_id st)) targetHex)"

definition find_op :: "find_mode \<Rightarrow> string" where
  "find_op m = (case m of ValueMode \<Rightarrow> ''dht:find-value-response'' | NodeMode \<Rightarrow> ''dht:find-node-response'')"

text \<open>One turn of the loop: nothing left to ask, or the batch is asked and its replies absorbed.\<close>

definition find_round ::
  "kad_env \<Rightarrow> find_mode \<Rightarrow> node_id \<Rightarrow> nat \<Rightarrow> find_state \<Rightarrow> (find_state \<times> bool \<times> bytes option) option result" where
  "find_round env m target turn fs =
    (let (cs, batch) = take_batch (ko_alpha (kn_opts (fs_node fs))) (sort_candidates target (fs_candidates fs)) in
     if batch = [] then ok None
     else
       let (st1, rids) = issue_requests env (find_build m (fs_node fs) (bytesToHex target)) (find_op m) batch (fs_node fs);
           (st2, replies) = await_all env turn (find_op m) rids st1
       in rbind (absorb_replies (ke_now env) m replies (fs\<lparr>fs_node := st2, fs_candidates := cs\<rparr>, False)) (\<lambda>r. ok (Some r)))"

text \<open>At most 16 rounds; \<open>left\<close> counts those that remain.\<close>

fun find_loop ::
  "kad_env \<Rightarrow> find_mode \<Rightarrow> node_id \<Rightarrow> nat \<Rightarrow> nat \<Rightarrow> find_state \<Rightarrow> (find_state \<times> bytes option) result" where
  "find_loop env m target 0 turn fs = ok (fs, None)"
| "find_loop env m target (Suc left) turn fs =
    rbind (find_round env m target turn fs) (\<lambda>r.
      case r of
        None \<Rightarrow> ok (fs\<lparr>fs_candidates := sort_candidates target (fs_candidates fs)\<rparr>, None)
      | Some (fs', learned, value) \<Rightarrow>
          if value \<noteq> None \<or> \<not> learned then ok (fs', value)
          else find_loop env m target left (Suc turn) fs')"

definition iterativeFind ::
  "kad_env \<Rightarrow> find_mode \<Rightarrow> node_id \<Rightarrow> knode \<Rightarrow> (bytes option \<times> contact list \<times> knode) result" where
  "iterativeFind env m target st =
    (let cs = closest target (ko_k (kn_opts st)) (kn_table st) in
     if cs = [] then ok (None, [], st)
     else rbind (find_loop env m target 16 0
         \<lparr>fs_node = st, fs_candidates = map (\<lambda>c. \<lparr>cd_contact = c, cd_queried = False\<rparr>) cs, fs_seen = map ct_handle cs\<rparr>)
       (\<lambda>(fs, value). ok (value, map cd_contact (take (ko_k (kn_opts st)) (fs_candidates fs)), fs_node fs)))"

definition findValue :: "(string \<Rightarrow> bytes) \<Rightarrow> kad_env \<Rightarrow> string \<Rightarrow> knode \<Rightarrow> (bytes option \<times> knode) result" where
  "findValue sha256 env keyText st =
    (let key = nodeIdFromString sha256 keyText in
     case jm_get (kn_storage st) (bytesToHex key) of
       Some v \<Rightarrow> ok (Some v, st)
     | None \<Rightarrow> rbind (iterativeFind env ValueMode key st) (\<lambda>(v, _, st'). ok (v, st')))"

definition findNode :: "(string \<Rightarrow> bytes) \<Rightarrow> kad_env \<Rightarrow> string \<Rightarrow> knode \<Rightarrow> (contact list \<times> knode) result" where
  "findNode sha256 env targetText st =
    rbind (iterativeFind env NodeMode (nodeIdFromString sha256 targetText) st) (\<lambda>(_, cs, st'). ok (cs, st'))"

section \<open>Diagnostics\<close>

definition bucketIndexOrZero :: "node_id \<Rightarrow> node_id \<Rightarrow> int" where
  "bucketIndexOrZero self target = (case bucketIndex self target of Inl _ \<Rightarrow> 0 | Inr i \<Rightarrow> i)"

record kad_snapshot =
  ks_selfHex :: string
  ks_handle :: string
  ks_contacts :: "(string \<times> string \<times> int) list"
  ks_storageKeys :: "string list"
  ks_bucketSizes :: "nat list"

definition kad_snapshot_of :: "knode \<Rightarrow> kad_snapshot" where
  "kad_snapshot_of st = \<lparr>ks_selfHex = bytesToHex (kn_id st), ks_handle = kn_handle st,
    ks_contacts = map (\<lambda>c. (bytesToHex (ct_id c), ct_handle c, bucketIndexOrZero (kn_id st) (ct_id c)))
      (allContacts (kn_table st)),
    ks_storageKeys = jm_keys (kn_storage st), ks_bucketSizes = bucketSizes (kn_table st)\<rparr>"

end
