(* ===== verification/KademliaProps.thy ===== *)
theory KademliaProps imports Kademlia begin

text \<open>
  Properties of the DHT: the XOR distance is a metric and the buckets partition it, the routing
  table keeps its shape and answers with the nearest contacts, requests are matched to replies
  one to one, and what a lookup returns was sent by a peer in reply to that lookup.
\<close>

section \<open>The distance is a metric\<close>

definition dist_val :: "node_id \<Rightarrow> node_id \<Rightarrow> nat" where
  "dist_val a b = be_val (map2 (XOR) a b)"

lemma xor_nat_le_add: "a XOR b \<le> a + b" for a b :: nat
proof (induction a arbitrary: b rule: less_induct)
  case (less a)
  show ?case
  proof (cases "a = 0")
    case False
    then have "a div 2 < a" by simp
    then have "(a div 2) XOR (b div 2) \<le> a div 2 + b div 2" by (rule less)
    moreover have "a XOR b = of_bool (odd a \<noteq> odd b) + 2 * ((a div 2) XOR (b div 2))" by (rule xor_rec)
    moreover have "a = 2 * (a div 2) + of_bool (odd a)" "b = 2 * (b div 2) + of_bool (odd b)"
      by (simp_all add: mod_2_eq_odd [symmetric])
    moreover have "of_bool (odd a \<noteq> odd b) \<le> of_bool (odd a) + (of_bool (odd b) :: nat)" by simp
    ultimately show ?thesis by linarith
  qed simp
qed

lemma unat_xor_le: "unat (a XOR b) \<le> unat a + unat b" for a b :: byte
  using xor_nat_le_add [of "unat a" "unat b"] by (simp add: unsigned_xor_eq)

lemma be_val_triangle:
  "length a = length b \<Longrightarrow> length b = length c \<Longrightarrow>
    be_val (map2 (XOR) a c) \<le> be_val (map2 (XOR) a b) + be_val (map2 (XOR) b c)"
proof (induction a b c rule: list_induct3)
  case (Cons x a y b z c)
  have "x XOR z = (x XOR y) XOR (y XOR z)" by (simp add: xor.assoc)
  then have "unat (x XOR z) \<le> unat (x XOR y) + unat (y XOR z)" using unat_xor_le by metis
  then have "unat (x XOR z) * 256 ^ length c \<le> (unat (x XOR y) + unat (y XOR z)) * 256 ^ length c"
    by (rule mult_le_mono1)
  with Cons show ?case by (simp add: distrib_right)
qed simp

text \<open>
  The XOR distance of 20-byte identifiers, read as a number, is a metric: symmetric, zero
  only between equal identifiers, and it satisfies the triangle inequality; comparing two
  distances compares the numbers, and bucket \<open>i\<close> holds exactly the identifiers at a distance
  from \<open>2 ^ i\<close> to \<open>2 ^ (i + 1) - 1\<close>, with \<open>-1\<close> for the node itself.
\<close>

theorem xor_distance_metric:
  assumes "isNodeId a" "isNodeId b" "isNodeId c"
  shows "xorDistance a b = xorDistance b a
    \<and> (dist_val a b = 0 \<longleftrightarrow> a = b)
    \<and> dist_val a c \<le> dist_val a b + dist_val b c
    \<and> (\<exists>r. compareDistance (map2 (XOR) a c) (map2 (XOR) b c) = ok r
          \<and> (r < 0 \<longleftrightarrow> dist_val a c < dist_val b c) \<and> (r = 0 \<longleftrightarrow> a = b))
    \<and> (\<exists>i. bucketIndex a b = ok i \<and> -1 \<le> i \<and> i < 160 \<and> (i = -1 \<longleftrightarrow> a = b)
          \<and> (a = b \<or> 2 ^ nat i \<le> dist_val a b \<and> dist_val a b < 2 ^ Suc (nat i)))"
proof -
  have len: "length a = 20" "length b = 20" "length c = 20"
    using assms by (simp_all add: isNodeId_def NODE_ID_BYTES_def)
  have sym: "map2 (XOR) a b = map2 (XOR) b a"
    using len by (intro nth_equalityI) (simp_all add: xor.commute)
  have zero_val: "be_val (replicate n 0) = 0" for n by (induction n) simp_all
  have zero: "dist_val a b = 0 \<longleftrightarrow> a = b"
  proof
    assume "dist_val a b = 0"
    then have "be_val (map2 (XOR) a b) = be_val (replicate 20 0)" by (simp add: dist_val_def zero_val)
    then have "map2 (XOR) a b = replicate 20 0" using len by (intro be_val_inj) simp_all
    then have "\<forall>i < length a. map2 (XOR) a b ! i = 0" using len by simp
    then show "a = b" using map2_xor_zero [of a b] len by simp
  next
    assume ab: "a = b"
    have "map2 (XOR) a b = replicate 20 0" using len ab by (intro nth_equalityI) simp_all
    then show "dist_val a b = 0" by (simp add: dist_val_def zero_val)
  qed
  have cancel: "map2 (XOR) a c = map2 (XOR) b c \<longleftrightarrow> a = b"
  proof
    assume eq: "map2 (XOR) a c = map2 (XOR) b c"
    have "a ! i = b ! i" if "i < 20" for i
    proof -
      have "a ! i XOR c ! i = b ! i XOR c ! i" using arg_cong [OF eq, of "\<lambda>xs. xs ! i"] len that by simp
      then have "(a ! i XOR c ! i) XOR c ! i = (b ! i XOR c ! i) XOR c ! i" by simp
      then show ?thesis by (simp add: xor.assoc)
    qed
    with len show "a = b" by (intro nth_equalityI) simp_all
  qed simp
  have cmp: "\<exists>r. compareDistance (map2 (XOR) a c) (map2 (XOR) b c) = ok r
          \<and> (r < 0 \<longleftrightarrow> dist_val a c < dist_val b c) \<and> (r = 0 \<longleftrightarrow> a = b)"
    using len cancel be_val_inj [of "map2 (XOR) a c" "map2 (XOR) b c"]
    by (auto simp: compareDistance_def byteCmp_spec dist_val_def)
  obtain i where i: "bucketIndex a b = ok i" and spec: "if a = b then i = -1
     else 0 \<le> i \<and> i < int NODE_ID_BITS \<and> 2 ^ nat i \<le> be_val (map2 (XOR) a b) \<and> be_val (map2 (XOR) a b) < 2 ^ Suc (nat i)"
    using bucketIndex_spec [OF assms(1,2)] by blast
  have "-1 \<le> i \<and> i < 160 \<and> (i = -1 \<longleftrightarrow> a = b)
          \<and> (a = b \<or> 2 ^ nat i \<le> dist_val a b \<and> dist_val a b < 2 ^ Suc (nat i))"
    using spec by (auto simp: dist_val_def NODE_ID_BITS_def NODE_ID_BYTES_def split: if_splits)
  with sym zero cmp i be_val_triangle [of a b c] len show ?thesis
    by (simp add: xorDistance_def dist_val_def)
qed

theorem xor_distance_metric_witness:
  "xorDistance (replicate 20 1) (replicate 20 2) = xorDistance (replicate 20 2) (replicate 20 1)
    \<and> dist_val (replicate 20 1) (replicate 20 7)
      \<le> dist_val (replicate 20 1) (replicate 20 2) + dist_val (replicate 20 2) (replicate 20 7)"
  using xor_distance_metric [of "replicate 20 1" "replicate 20 2" "replicate 20 7"]
  by (simp add: isNodeId_def NODE_ID_BYTES_def)

section \<open>Invariant of a node\<close>

definition rid_text :: "string \<Rightarrow> nat \<Rightarrow> string" where
  "rid_text handle n = handle @ ''-'' @ nat_str n"

lemma rid_text_inj: "rid_text h m = rid_text h n \<longleftrightarrow> m = n"
  using nat_str_inj by (auto simp: rid_text_def)

definition knode_ok :: "knode \<Rightarrow> bool" where
  "knode_ok st \<longleftrightarrow> isNodeId (kn_id st) \<and> table_ok (kn_table st) \<and> rt_self (kn_table st) = kn_id st \<and>
    jm_wf (kn_pending st) \<and>
    (\<forall>rid. jm_has (kn_pending st) rid \<longrightarrow> (\<exists>n < kn_nextRid st. rid = rid_text (kn_handle st) n))"

text \<open>What no handler of a message or a timer changes.\<close>

definition same_node :: "knode \<Rightarrow> knode \<Rightarrow> bool" where
  "same_node st st' \<longleftrightarrow> kn_id st' = kn_id st \<and> kn_handle st' = kn_handle st \<and> kn_opts st' = kn_opts st
    \<and> kn_nextRid st \<le> kn_nextRid st'"

lemma same_node_refl [simp]: "same_node st st"
  by (simp add: same_node_def)

lemma same_node_trans: "same_node a b \<Longrightarrow> same_node b c \<Longrightarrow> same_node a c"
  by (simp add: same_node_def)

lemma knode_ok_pending:
  "knode_ok st \<Longrightarrow> jm_wf m \<Longrightarrow> (\<And>rid. jm_has m rid \<Longrightarrow> jm_has (kn_pending st) rid) \<Longrightarrow> knode_ok (st\<lparr>kn_pending := m\<rparr>)"
  unfolding knode_ok_def by simp

lemma new_rt_self: "rt_self (new_RoutingTable cid k) = cid"
  by (simp add: new_RoutingTable_def)

lemma new_node_ok: "new_KademliaNode cid h opts = ok st \<Longrightarrow> knode_ok st"
  by (auto simp: new_KademliaNode_def knode_ok_def table_ok_new new_rt_self split: if_splits)

lemma kad_request_ok:
  assumes ok: "knode_ok st" and run: "kad_request sent h build op st = (st', rid, b)"
  shows "knode_ok st' \<and> rid = rid_text (kn_handle st) (kn_nextRid st) \<and> \<not> jm_has (kn_pending st) rid
    \<and> kn_nextRid st' = Suc (kn_nextRid st) \<and> same_node st st'
    \<and> kn_pending st' = (if b then jm_set (kn_pending st) rid op else kn_pending st)"
proof -
  let ?r = "rid_text (kn_handle st) (kn_nextRid st)"
  have rid: "rid = ?r" using run by (auto simp: kad_request_def Let_def rid_text_def split: if_splits)
  have new: "map_of (kn_pending st) ?r = None"
  proof (rule ccontr)
    assume "map_of (kn_pending st) ?r \<noteq> None"
    then obtain n where "n < kn_nextRid st" "?r = rid_text (kn_handle st) n" using ok unfolding knode_ok_def by blast
    then show False by (simp add: rid_text_inj)
  qed
  have "?r \<notin> fst ` set (kn_pending st)" using new by (simp add: map_of_eq_None_iff)
  then have del: "jm_del (jm_set (kn_pending st) ?r op) ?r = kn_pending st"
    using new by (simp add: jm_set_new AList.delete_eq filter_id_conv) force
  let ?n = "st\<lparr>kn_nextRid := Suc (kn_nextRid st)\<rparr>"
  have old: "knode_ok ?n" using ok by (auto simp: knode_ok_def less_Suc_eq simp del: not_None_eq)
  have upd: "knode_ok (?n\<lparr>kn_pending := jm_set (kn_pending st) ?r op\<rparr>)"
    using ok by (auto simp: knode_ok_def less_Suc_eq simp del: not_None_eq split: if_splits)
  have st': "st' = (if b then ?n\<lparr>kn_pending := jm_set (kn_pending st) ?r op\<rparr> else ?n)"
    using run del by (cases st) (auto simp: kad_request_def Let_def rid_text_def split: if_splits)
  show ?thesis
    using rid new old upd by (simp add: st' same_node_def)
qed

lemma kad_timeout_ok: "knode_ok st \<Longrightarrow> knode_ok (fst (kad_timeout rid st)) \<and> same_node st (fst (kad_timeout rid st))"
proof -
  assume ok: "knode_ok st"
  have "knode_ok (st\<lparr>kn_pending := jm_del (kn_pending st) rid\<rparr>)"
    by (rule knode_ok_pending [OF ok]) (use ok in \<open>auto simp: knode_ok_def split: if_splits\<close>)
  with ok show ?thesis by (auto simp: kad_timeout_def same_node_def split: option.splits)
qed

lemma kad_resolve_ok: "knode_ok st \<Longrightarrow> knode_ok (fst (kad_resolve m st)) \<and> same_node st (fst (kad_resolve m st))"
proof -
  assume ok: "knode_ok st"
  have "knode_ok (st\<lparr>kn_pending := jm_del (kn_pending st) (msg_rid m)\<rparr>)"
    by (rule knode_ok_pending [OF ok]) (use ok in \<open>auto simp: knode_ok_def split: if_splits\<close>)
  with ok show ?thesis by (auto simp: kad_resolve_def same_node_def Let_def split: option.splits)
qed

lemma observe_sender_ok:
  assumes ok: "knode_ok st"
  shows "knode_ok (observe_sender now frm m st) \<and> same_node st (observe_sender now frm m st)
    \<and> kn_storage (observe_sender now frm m st) = kn_storage st
    \<and> kn_pending (observe_sender now frm m st) = kn_pending st
    \<and> kn_subscribed (observe_sender now frm m st) = kn_subscribed st"
proof (cases "hexToBytes (msg_from m)")
  case (Inl e)
  with ok show ?thesis by (simp add: observe_sender_def)
next
  case (Inr cid)
  show ?thesis
  proof (cases "isNodeId cid")
    case True
    have "table_ok (kn_table st)" using ok by (simp add: knode_ok_def)
    from observe_ok [OF this True] obtain new rt where
      "observe now cid frm (kn_table st) = ok (new, rt)" "table_ok rt" "rt_self rt = rt_self (kn_table st)" by blast
    with Inr True ok show ?thesis by (simp add: observe_sender_def knode_ok_def same_node_def)
  next
    case False
    with Inr ok show ?thesis by (simp add: observe_sender_def)
  qed
qed

lemma storage_update_ok [simp]:
  "knode_ok (st\<lparr>kn_storage := m\<rparr>) = knode_ok st" "same_node st (st\<lparr>kn_storage := m\<rparr>)"
  by (simp_all add: knode_ok_def same_node_def)

lemma kad_dispatch_ok:
  "knode_ok st \<Longrightarrow> knode_ok (fst (kad_dispatch frm m st)) \<and> same_node st (fst (kad_dispatch frm m st))"
  by (cases m) (auto simp: kad_resolve_ok split: sum.splits option.splits)

lemma kad_event_ok: "knode_ok st \<Longrightarrow> knode_ok (fst (kad_event_act e st)) \<and> same_node st (fst (kad_event_act e st))"
proof (cases e)
  case (Arrive now frm m)
  assume ok: "knode_ok st"
  note O = observe_sender_ok [OF ok, of now frm m]
  have "knode_ok (fst (kad_dispatch frm m (observe_sender now frm m st)))
      \<and> same_node (observe_sender now frm m st) (fst (kad_dispatch frm m (observe_sender now frm m st)))"
    by (rule kad_dispatch_ok) (use O in simp)
  with O ok Arrive show ?thesis by (auto simp: kad_handleMessage_def intro: same_node_trans)
next
  case (Expire rid)
  assume "knode_ok st"
  with Expire show ?thesis by (simp add: kad_timeout_ok)
qed

interpretation kad: event_machine "\<lambda>e st. fst (kad_event_act e st)" knode_ok
  by unfold_locales (simp add: kad_event_ok)

lemma kad_run_fst: "fst (kad_run es st) = fold (\<lambda>e st. fst (kad_event_act e st)) es st"
proof (induction es arbitrary: st)
  case (Cons e es)
  obtain st1 o1 st2 o2 where "kad_event_act e st = (st1, o1)" "kad_run es st1 = (st2, o2)" by fastforce
  with Cons [of st1] show ?case by simp
qed simp

lemma kad_run_ok: "knode_ok st \<Longrightarrow> knode_ok (fst (kad_run es st))"
  unfolding kad_run_fst by (rule kad.run_good)

lemma kad_run_same: "knode_ok st \<Longrightarrow> same_node st (fst (kad_run es st)) \<and> kn_nextRid (fst (kad_run es st)) = kn_nextRid st"
proof (induction es arbitrary: st)
  case (Cons e es)
  have rid: "kn_nextRid (fst (kad_event_act e st)) = kn_nextRid st" for e st
  proof (cases e)
    case (Arrive now frm m)
    have "kn_nextRid (observe_sender now frm m st) = kn_nextRid st" for st
      by (simp add: observe_sender_def split: sum.splits)
    moreover have "kn_nextRid (fst (kad_dispatch frm m st)) = kn_nextRid st" for st
      by (cases m) (simp_all add: kad_resolve_def Let_def split: sum.splits option.splits)
    ultimately show ?thesis using Arrive by (simp add: kad_handleMessage_def)
  qed (simp add: kad_timeout_def split: option.splits)
  have "knode_ok (fst (kad_event_act e st))" "same_node st (fst (kad_event_act e st))"
    using kad_event_ok [OF Cons.prems] by simp_all
  with Cons.IH [of "fst (kad_event_act e st)"] rid [of e st] show ?case
    by (auto split: prod.splits intro: same_node_trans)
qed simp

section \<open>Batches of requests\<close>

lemma issue_requests_ok:
  "knode_ok st \<Longrightarrow> issue_requests env build op hs st = (st', rids) \<Longrightarrow>
    knode_ok st' \<and> same_node st st' \<and> kn_nextRid st' = kn_nextRid st + length hs \<and>
    map fst rids = map (rid_text (kn_handle st)) [kn_nextRid st..<kn_nextRid st + length hs]"
proof (induction hs arbitrary: st st' rids)
  case (Cons h hs)
  obtain st1 rid b where r: "kad_request (ke_sent env) h build op st = (st1, rid, b)" by (cases "kad_request (ke_sent env) h build op st")
  obtain st2 rids2 where i: "issue_requests env build op hs st1 = (st2, rids2)" by fastforce
  note R = kad_request_ok [OF Cons.prems(1) r]
  have res: "st' = st2" "rids = (rid, b) # rids2" using Cons.prems(2) r i by auto
  from R have "knode_ok st1" by blast
  note I = Cons.IH [OF this i]
  have "kn_handle st1 = kn_handle st" using R by (simp add: same_node_def)
  moreover have "[kn_nextRid st..<kn_nextRid st + length (h # hs)]
      = kn_nextRid st # [Suc (kn_nextRid st)..<Suc (kn_nextRid st) + length hs]"
    by (simp add: upt_conv_Cons del: upt_Suc)
  ultimately show ?case
    using R I res by (auto intro: same_node_trans simp del: upt_Suc)
qed simp

lemma settlement_mem: "settlement outs rid = Some r \<Longrightarrow> Settle rid r \<in> set outs"
  by (induction outs rid rule: settlement.induct) (auto split: if_splits)

lemma dispatch_settles: "Settle rid (Inr m) \<in> set (snd (kad_dispatch frm m' st)) \<Longrightarrow> m = m' \<and> msg_rid m' = rid"
  by (cases m') (auto simp: kad_resolve_def Let_def split: option.splits if_splits sum.splits)

lemma settle_origin:
  "kad_run es st = (st', outs) \<Longrightarrow> Settle rid (Inr m) \<in> set outs \<Longrightarrow>
    \<exists>now frm. Arrive now frm m \<in> set es \<and> msg_rid m = rid"
proof (induction es arbitrary: st st' outs)
  case (Cons e es)
  obtain st1 o1 where 1: "kad_event_act e st = (st1, o1)" by fastforce
  obtain st2 o2 where 2: "kad_run es st1 = (st2, o2)" by fastforce
  have outs: "outs = o1 @ o2" using Cons.prems(1) 1 2 by auto
  show ?case
  proof (cases "Settle rid (Inr m) \<in> set o2")
    case True
    with Cons.IH [OF 2] show ?thesis by auto
  next
    case False
    then have s: "Settle rid (Inr m) \<in> set o1" using outs Cons.prems(2) by auto
    show ?thesis
    proof (cases e)
      case (Arrive now frm m')
      then have "m = m' \<and> msg_rid m' = rid"
        using 1 s dispatch_settles [of rid m frm m' "observe_sender now frm m' st"]
        by (simp add: kad_handleMessage_def split: if_splits)
      with Arrive show ?thesis by auto
    next
      case (Expire r)
      with 1 s show ?thesis by (auto simp: kad_timeout_def split: option.splits)
    qed
  qed
qed simp

lemma jm_dels: "jm_wf m \<Longrightarrow> jm_wf (fold (\<lambda>(r, _) m. jm_del m r) rs m)
    \<and> (\<forall>k. jm_has (fold (\<lambda>(r, _) m. jm_del m r) rs m) k \<longrightarrow> jm_has m k)"
proof -
  assume wf: "jm_wf m"
  have "jm_get (fold (\<lambda>(r, _) m. jm_del m r) rs m) k = (if k \<in> fst ` set rs then None else jm_get m k)" for k
    by (induction rs arbitrary: m) (auto simp: image_iff)
  moreover have "jm_wf (fold (\<lambda>(r, _) m. jm_del m r) rs m)"
    using wf by (induction rs arbitrary: m) auto
  ultimately show ?thesis by (simp split: if_splits)
qed

lemma await_all_ok:
  assumes ok: "knode_ok st" and run: "await_all env turn op rids st = (st', replies)"
  shows "knode_ok st' \<and> same_node st st' \<and> kn_nextRid st' = kn_nextRid st \<and> length replies = length rids \<and>
    (\<forall>m. Inr m \<in> set replies \<longrightarrow>
      (\<exists>now frm. Arrive now frm m \<in> set (ke_events env turn)) \<and> msg_rid m \<in> fst ` set rids)"
proof -
  obtain st1 outs where r: "kad_run (ke_events env turn) st = (st1, outs)" by fastforce
  have ok1: "knode_ok st1" and same: "same_node st st1 \<and> kn_nextRid st1 = kn_nextRid st"
    using kad_run_ok [OF ok, of "ke_events env turn"] kad_run_same [OF ok, of "ke_events env turn"] r by simp_all
  let ?m = "fold (\<lambda>(rid, _) m. jm_del m rid) rids (kn_pending st1)"
  have st': "st' = st1\<lparr>kn_pending := ?m\<rparr>" and replies: "replies = map (\<lambda>(rid, sent).
         if \<not> sent then throw (op @ '': send failed'')
         else case settlement outs rid of Some r \<Rightarrow> r | None \<Rightarrow> throw (op @ '': timeout'')) rids"
    using run r by (simp_all add: await_all_def)
  have "jm_wf (kn_pending st1)" using ok1 by (simp add: knode_ok_def)
  note J = jm_dels [OF this, of rids]
  have "knode_ok (st1\<lparr>kn_pending := ?m\<rparr>)" by (rule knode_ok_pending [OF ok1]) (use J in blast)+
  moreover have "same_node st st'" "kn_nextRid st' = kn_nextRid st" using same by (simp_all add: st' same_node_def)
  moreover have "(\<exists>now frm. Arrive now frm m \<in> set (ke_events env turn)) \<and> msg_rid m \<in> fst ` set rids"
    if m: "Inr m \<in> set replies" for m
  proof -
    from m obtain rid sent where p: "(rid, sent) \<in> set rids" "settlement outs rid = Some (Inr m)"
      by (auto simp: replies split: if_splits option.splits)
    with settle_origin [OF r settlement_mem [OF p(2)]] show ?thesis by force
  qed
  ultimately show ?thesis by (simp add: st' replies)
qed

section \<open>The lookup\<close>

lemma add_candidate_ok:
  assumes ok: "knode_ok (fs_node fs)" and run: "add_candidate now wc (fs, l) = ok (fs', l')"
  shows "knode_ok (fs_node fs') \<and> same_node (fs_node fs) (fs_node fs') \<and> kn_nextRid (fs_node fs') = kn_nextRid (fs_node fs)"
proof -
  obtain idHex h where wc: "wc = (idHex, h)" by fastforce
  show ?thesis
  proof (cases "h \<in> set (fs_seen fs) \<or> h = kn_handle (fs_node fs)")
    case True
    then have "add_candidate now wc (fs, l) = ok (fs, l)" using wc by (auto simp: add_candidate_def)
    with run ok show ?thesis by simp
  next
    case False
    with run wc obtain cid b rt where c: "hexToBytes idHex = ok cid"
      "observe now cid h (kn_table (fs_node fs)) = ok (b, rt)"
      and fs': "fs_node fs' = (fs_node fs)\<lparr>kn_table := rt\<rparr>"
      by (auto simp: add_candidate_def rbind_eq_Inr)
    have tok: "table_ok (kn_table (fs_node fs))" using ok by (simp add: knode_ok_def)
    have "isNodeId cid"
    proof (rule ccontr)
      assume n: "\<not> isNodeId cid"
      have self: "isNodeId (rt_self (kn_table (fs_node fs)))" using tok by (simp add: table_ok_def)
      with n have "length cid \<noteq> length (rt_self (kn_table (fs_node fs)))" by (auto simp: isNodeId_def)
      moreover from n self have "cid \<noteq> rt_self (kn_table (fs_node fs))" by auto
      ultimately show False using c by (simp add: observe_def bucketIndex_def xorDistance_def)
    qed
    from observe_ok [OF tok this, of now h] c have "table_ok rt" "rt_self rt = rt_self (kn_table (fs_node fs))" by auto
    with ok show ?thesis unfolding fs' by (simp add: knode_ok_def same_node_def)
  qed
qed

lemma add_candidates_ok:
  "knode_ok (fs_node fs) \<Longrightarrow> rfold (add_candidate now) wcs (fs, l) = ok (fs', l') \<Longrightarrow>
    knode_ok (fs_node fs') \<and> same_node (fs_node fs) (fs_node fs') \<and> kn_nextRid (fs_node fs') = kn_nextRid (fs_node fs)"
proof (induction wcs arbitrary: fs l)
  case (Cons wc wcs)
  from Cons.prems(2) obtain fs1 l1 where 1: "add_candidate now wc (fs, l) = ok (fs1, l1)"
    and 2: "rfold (add_candidate now) wcs (fs1, l1) = ok (fs', l')" by (auto simp: rbind_eq_Inr)
  note A = add_candidate_ok [OF Cons.prems(1) 1]
  from A have "knode_ok (fs_node fs1)" by blast
  from Cons.IH [OF this 2] A show ?case by (auto intro: same_node_trans)
qed auto

lemma absorb_ok:
  "knode_ok (fs_node fs) \<Longrightarrow> absorb_replies now md rs (fs, l) = ok (fs', l', v) \<Longrightarrow>
    knode_ok (fs_node fs') \<and> same_node (fs_node fs) (fs_node fs') \<and> kn_nextRid (fs_node fs') = kn_nextRid (fs_node fs) \<and>
    (\<forall>x. v = Some x \<longrightarrow> (\<exists>m b64. Inr m \<in> set rs \<and> reply_value md m = Some b64 \<and> atob b64 = Some x))"
proof (induction rs arbitrary: fs l)
  case (Cons r rs)
  show ?case
  proof (cases r)
    case (Inl e)
    with Cons show ?thesis by auto
  next
    case (Inr m)
    show ?thesis
    proof (cases "reply_value md m")
      case (Some b64)
      with Inr Cons.prems obtain x where x: "atob b64 = Some x" "fs' = fs" "v = Some x"
        by (auto split: option.splits)
      then have "\<exists>m b64. Inr m \<in> set (r # rs) \<and> reply_value md m = Some b64 \<and> atob b64 = Some x"
        using Inr Some by (intro exI [of _ m] exI [of _ b64]) simp
      with x Cons.prems(1) show ?thesis by simp
    next
      case None
      with Inr Cons.prems(2) obtain fs1 l1 where 1: "rfold (add_candidate now) (reply_contacts m) (fs, l) = ok (fs1, l1)"
        and 2: "absorb_replies now md rs (fs1, l1) = ok (fs', l', v)" by (auto simp: rbind_eq_Inr)
      note A = add_candidates_ok [OF Cons.prems(1) 1]
      from A have "knode_ok (fs_node fs1)" by blast
      note IH = Cons.IH [OF this 2]
      then have "\<forall>x. v = Some x \<longrightarrow> (\<exists>m b64. Inr m \<in> set (r # rs) \<and> reply_value md m = Some b64 \<and> atob b64 = Some x)"
        by (metis list.set_intros(2))
      with IH A show ?thesis by (auto intro: same_node_trans)
    qed
  qed
qed simp

lemma take_batch_length: "length (snd (take_batch n cs)) \<le> n"
  by (induction n cs rule: take_batch.induct) (auto split: prod.splits)

text \<open>A value found in some turn came with a message that answers one of the requests \<open>n1\<close> up to \<open>n2\<close>.\<close>

definition answered :: "kad_env \<Rightarrow> string \<Rightarrow> nat \<Rightarrow> nat \<Rightarrow> find_mode \<Rightarrow> bytes \<Rightarrow> bool" where
  "answered env h n1 n2 md x \<longleftrightarrow> (\<exists>turn < 16. \<exists>now frm m b64 n. Arrive now frm m \<in> set (ke_events env turn) \<and>
    reply_value md m = Some b64 \<and> atob b64 = Some x \<and> n1 \<le> n \<and> n < n2 \<and> msg_rid m = rid_text h n)"

lemma answered_mono: "answered env h n1 n2 md x \<Longrightarrow> m1 \<le> n1 \<Longrightarrow> n2 \<le> m2 \<Longrightarrow> answered env h m1 m2 md x"
  unfolding answered_def by (meson order_trans less_le_trans)

lemma find_round_ok:
  assumes ok: "knode_ok (fs_node fs)" and run: "find_round env md target turn fs = ok (Some (fs', l, v))" and turn: "turn < 16"
  defines "a \<equiv> ko_alpha (kn_opts (fs_node fs))"
  shows "knode_ok (fs_node fs') \<and> same_node (fs_node fs) (fs_node fs') \<and>
    kn_nextRid (fs_node fs') \<le> kn_nextRid (fs_node fs) + a \<and>
    (\<forall>x. v = Some x \<longrightarrow> answered env (kn_handle (fs_node fs)) (kn_nextRid (fs_node fs)) (kn_nextRid (fs_node fs')) md x)"
proof -
  obtain cs batch where b: "take_batch a (sort_candidates target (fs_candidates fs)) = (cs, batch)" by fastforce
  let ?build = "find_build md (fs_node fs) (bytesToHex target)"
  obtain st1 rids where i: "issue_requests env ?build (find_op md) batch (fs_node fs) = (st1, rids)" by fastforce
  obtain st2 replies where w: "await_all env turn (find_op md) rids st1 = (st2, replies)" by fastforce
  have ab: "absorb_replies (ke_now env) md replies (fs\<lparr>fs_node := st2, fs_candidates := cs\<rparr>, False) = ok (fs', l, v)"
    using run b i w by (auto simp: find_round_def a_def rbind_eq_Inr split: if_splits prod.splits)
  note I = issue_requests_ok [OF ok i]
  from I have ok1: "knode_ok st1" by blast
  note W = await_all_ok [OF ok1 w]
  have ok2: "knode_ok (fs_node (fs\<lparr>fs_node := st2, fs_candidates := cs\<rparr>))" using W by simp
  note A = absorb_ok [OF ok2 ab]
  have len: "length batch \<le> a" using take_batch_length [of a "sort_candidates target (fs_candidates fs)"] b by simp
  have ids: "set (map fst rids) = rid_text (kn_handle (fs_node fs)) ` {kn_nextRid (fs_node fs)..<kn_nextRid (fs_node fs) + length batch}"
    using I by simp
  have "answered env (kn_handle (fs_node fs)) (kn_nextRid (fs_node fs)) (kn_nextRid (fs_node fs')) md x" if v: "v = Some x" for x
  proof -
    from A v obtain m b64 where m: "Inr m \<in> set replies" "reply_value md m = Some b64" "atob b64 = Some x" by blast
    with W obtain now frm where "Arrive now frm m \<in> set (ke_events env turn)" "msg_rid m \<in> set (map fst rids)" by auto
    moreover from this ids obtain n where "msg_rid m = rid_text (kn_handle (fs_node fs)) n" "kn_nextRid (fs_node fs) \<le> n"
      "n < kn_nextRid (fs_node fs) + length batch" by auto
    ultimately show ?thesis using m turn I W A unfolding answered_def by auto blast
  qed
  with I W A len show ?thesis by (auto intro: same_node_trans)
qed

lemma find_loop_ok:
  "knode_ok (fs_node fs) \<Longrightarrow> find_loop env md target left turn fs = ok (fs', v) \<Longrightarrow> left + turn \<le> 16 \<Longrightarrow>
    knode_ok (fs_node fs') \<and> same_node (fs_node fs) (fs_node fs') \<and>
    kn_nextRid (fs_node fs') \<le> kn_nextRid (fs_node fs) + left * ko_alpha (kn_opts (fs_node fs)) \<and>
    (\<forall>x. v = Some x \<longrightarrow> answered env (kn_handle (fs_node fs)) (kn_nextRid (fs_node fs)) (kn_nextRid (fs_node fs')) md x)"
proof (induction left arbitrary: turn fs)
  case (Suc left)
  obtain r where r: "find_round env md target turn fs = ok r"
    using Suc.prems(2) by (cases "find_round env md target turn fs") simp_all
  with Suc.prems(2) have rest: "(case r of
        None \<Rightarrow> ok (fs\<lparr>fs_candidates := sort_candidates target (fs_candidates fs)\<rparr>, None)
      | Some (fs', learned, value) \<Rightarrow>
          if value \<noteq> None \<or> \<not> learned then ok (fs', value)
          else find_loop env md target left (Suc turn) fs') = ok (fs', v)"
    by (simp only: find_loop.simps rbind_simps)
  show ?case
  proof (cases r)
    case None
    with rest have "fs_node fs' = fs_node fs" "v = None" by auto
    with Suc.prems(1) show ?thesis by simp
  next
    case (Some p)
    obtain fs1 l1 v1 where p: "p = (fs1, l1, v1)" by (cases p)
    have turn: "turn < 16" using Suc.prems(3) by simp
    note R = find_round_ok [OF Suc.prems(1) r [unfolded Some p] turn]
    show ?thesis
    proof (cases "v1 \<noteq> None \<or> \<not> l1")
      case True
      with rest Some p have "fs' = fs1" "v = v1" by auto
      with R show ?thesis by (auto simp: add_increasing2)
    next
      case False
      with rest Some p have loop: "find_loop env md target left (Suc turn) fs1 = ok (fs', v)" by simp
      have ok1: "knode_ok (fs_node fs1)" using R by blast
      note L = Suc.IH [OF ok1 loop]
      have opts: "kn_opts (fs_node fs1) = kn_opts (fs_node fs)" "kn_handle (fs_node fs1) = kn_handle (fs_node fs)"
        "kn_nextRid (fs_node fs) \<le> kn_nextRid (fs_node fs1)" using R by (simp_all add: same_node_def)
      have "answered env (kn_handle (fs_node fs)) (kn_nextRid (fs_node fs)) (kn_nextRid (fs_node fs')) md x" if "v = Some x" for x
        using L Suc.prems(3) opts that by (auto intro: answered_mono [OF _ opts(3) order_refl])
      with L R opts Suc.prems(3) show ?thesis by (auto intro: same_node_trans)
    qed
  qed
qed simp

section \<open>What a lookup returns\<close>

lemma iterativeFind_ok:
  assumes ok: "knode_ok st" and run: "iterativeFind env md target st = ok (v, cs, st')"
  shows "knode_ok st' \<and> same_node st st' \<and> kn_nextRid st' \<le> kn_nextRid st + 16 * ko_alpha (kn_opts st) \<and>
    (\<forall>x. v = Some x \<longrightarrow> answered env (kn_handle st) (kn_nextRid st) (kn_nextRid st') md x)"
proof (cases "closest target (ko_k (kn_opts st)) (kn_table st) = []")
  case True
  with ok run show ?thesis by (auto simp: iterativeFind_def)
next
  case False
  let ?fs = "\<lparr>fs_node = st, fs_candidates = map (\<lambda>c. \<lparr>cd_contact = c, cd_queried = False\<rparr>)
      (closest target (ko_k (kn_opts st)) (kn_table st)),
      fs_seen = map ct_handle (closest target (ko_k (kn_opts st)) (kn_table st))\<rparr>"
  obtain fs' v' where l: "find_loop env md target 16 0 ?fs = ok (fs', v')" and res: "v = v'" "st' = fs_node fs'"
    using run False by (auto simp: iterativeFind_def Let_def rbind_eq_Inr simp del: find_loop.simps)
  have "knode_ok (fs_node ?fs)" using ok by simp
  from find_loop_ok [OF this l] res show ?thesis by simp
qed

text \<open>
  C32. A lookup only returns what it should: the value \<open>findValue\<close> resolves with is the one held
  locally for the key, or it arrived, while one of the at most 16 batches was awaited, in a
  response that names a request this lookup issued; a lookup issues at most 16 times \<open>alpha\<close>
  requests, and leaves the node's invariant intact.
\<close>

theorem lookup_returns_a_reply:
  assumes "knode_ok st" and "findValue sha256 env keyText st = ok (Some v, st')"
  shows "knode_ok st' \<and> kn_nextRid st' \<le> kn_nextRid st + 16 * ko_alpha (kn_opts st) \<and>
    (jm_get (kn_storage st) (bytesToHex (nodeIdFromString sha256 keyText)) = Some v \<or>
     (\<exists>turn < 16. \<exists>now frm n fromHex b64 cs.
       Arrive now frm (FindValueResponse (rid_text (kn_handle st) n) fromHex (Some b64) cs) \<in> set (ke_events env turn) \<and>
       atob b64 = Some v \<and> kn_nextRid st \<le> n \<and> n < kn_nextRid st'))"
proof (cases "jm_get (kn_storage st) (bytesToHex (nodeIdFromString sha256 keyText))")
  case (Some w)
  with assms show ?thesis by (auto simp: findValue_def)
next
  case None
  with assms(2) obtain cs where i: "iterativeFind env ValueMode (nodeIdFromString sha256 keyText) st = ok (Some v, cs, st')"
    by (auto simp: findValue_def rbind_eq_Inr)
  note I = iterativeFind_ok [OF assms(1) i]
  then obtain turn now frm m b64 n where m: "turn < 16" "Arrive now frm m \<in> set (ke_events env turn)"
    "reply_value ValueMode m = Some b64" "atob b64 = Some v" "kn_nextRid st \<le> n" "n < kn_nextRid st'"
    "msg_rid m = rid_text (kn_handle st) n" unfolding answered_def by blast
  from m(3) obtain rid fromHex cs where "m = FindValueResponse rid fromHex (Some b64) cs"
    by (cases "(ValueMode, m)" rule: reply_value.cases) (auto split: if_splits)
  with m have "\<exists>turn < 16. \<exists>now frm n fromHex b64 cs.
       Arrive now frm (FindValueResponse (rid_text (kn_handle st) n) fromHex (Some b64) cs) \<in> set (ke_events env turn) \<and>
       atob b64 = Some v \<and> kn_nextRid st \<le> n \<and> n < kn_nextRid st'"
    by (metis msg_rid.simps(6))
  with I show ?thesis by blast
qed

section \<open>A concrete node\<close>

text \<open>A node that knows four others, at distances 1 to 4 from the key; the fourth holds the value.\<close>

definition demo_id :: "nat \<Rightarrow> node_id" where
  "demo_id n = replicate 19 0 @ [word_of_nat n]"

definition demo_sha :: "string \<Rightarrow> bytes" where
  "demo_sha s = demo_id 0"

definition demo_contact :: "nat \<Rightarrow> string \<Rightarrow> contact" where
  "demo_contact n h = \<lparr>ct_id = demo_id n, ct_handle = h, ct_lastSeen = 0\<rparr>"

definition demo_node :: knode where
  "demo_node = \<lparr>kn_id = demo_id 255, kn_handle = ''me'',
    kn_table = \<lparr>rt_self = demo_id 255, rt_k = 8,
      rt_buckets = (replicate 160 [])[7 := [demo_contact 1 ''a'', demo_contact 2 ''b'', demo_contact 3 ''c'', demo_contact 4 ''d'']]\<rparr>,
    kn_storage = [], kn_pending = [], kn_opts = default_kad_options, kn_nextRid = 1, kn_subscribed = True\<rparr>"

definition empty_reply :: "nat \<Rightarrow> dht_message" where
  "empty_reply n = FindValueResponse (rid_text ''me'' n) '''' None []"

definition demo_env :: kad_env where
  "demo_env = \<lparr>ke_sent = (\<lambda>_ _. True), ke_now = 1,
    ke_events = (\<lambda>t. if t = 0 then [Arrive 1 ''a'' (empty_reply 1), Arrive 1 ''b'' (empty_reply 2), Arrive 1 ''c'' (empty_reply 3)] else [])\<rparr>"

lemma demo_eval:
  "(case findValue demo_sha demo_env ''key'' demo_node of Inl _ \<Rightarrow> None | Inr (v, st) \<Rightarrow> Some (v, kn_nextRid st)) = Some (None, 4)"
  by code_simp

text \<open>
  A lookup can end before everyone it knows was asked: here a node that knows four peers,
  fewer than \<open>k\<close>, asks the nearest three, learns no new peer from their replies, and returns
  \<open>null\<close> after exactly three requests, whatever the fourth peer holds.
\<close>

theorem lookup_stops_without_asking_everyone:
  "length (allContacts (kn_table demo_node)) = 4 \<and> ko_k (kn_opts demo_node) = 8 \<and>
   (\<exists>st'. findValue demo_sha demo_env ''key'' demo_node = ok (None, st') \<and> kn_nextRid st' = kn_nextRid demo_node + 3)"
proof (intro conjI)
  have none: "concat (replicate n []) = ([] :: contact list)" for n by (induction n) simp_all
  have "concat ((replicate n [])[i := b]) = b" if "i < n" for n i and b :: "contact list"
    using that by (simp add: upd_conv_take_nth_drop none)
  then show "length (allContacts (kn_table demo_node)) = 4"
    by (simp add: allContacts_def demo_node_def)
  show "ko_k (kn_opts demo_node) = 8" by (simp add: demo_node_def default_kad_options_def)
  have "kn_nextRid demo_node = 1" by (simp add: demo_node_def)
  with demo_eval show "\<exists>st'. findValue demo_sha demo_env ''key'' demo_node = ok (None, st') \<and> kn_nextRid st' = kn_nextRid demo_node + 3"
    by (auto split: sum.splits)
qed

text \<open>The same node when the nearest peer answers with a value.\<close>

definition demo_small :: knode where
  "demo_small = demo_node\<lparr>kn_table := (new_RoutingTable (demo_id 255) 8)\<lparr>rt_buckets :=
    (rt_buckets (new_RoutingTable (demo_id 255) 8))[7 := [demo_contact 1 ''a'']]\<rparr>\<rparr>"

definition demo_answer :: kad_env where
  "demo_answer = \<lparr>ke_sent = (\<lambda>_ _. True), ke_now = 1,
    ke_events = (\<lambda>t. if t = 0 then [Arrive 1 ''a'' (FindValueResponse (rid_text ''me'' 1) '''' (Some (btoa [9])) [])] else [])\<rparr>"

lemma demo_small_ok: "knode_ok demo_small"
proof -
  have self: "isNodeId (demo_id n)" for n by (simp add: isNodeId_def demo_id_def NODE_ID_BYTES_def)
  have "bucketIndex (demo_id 255) (demo_id 1) = ok 7" by code_simp
  then have "bucket_ok (demo_id 255) 8 7 [demo_contact 1 ''a'']"
    using self by (simp add: bucket_ok_def demo_contact_def)
  then have "table_ok (kn_table demo_small)"
    unfolding demo_small_def using table_ok_update [OF table_ok_new [OF self]]
    by (simp add: new_RoutingTable_def)
  with self show ?thesis by (simp add: knode_ok_def demo_small_def demo_node_def new_RoutingTable_def)
qed

lemma demo_answer_eval:
  "(case findValue demo_sha demo_answer ''key'' demo_small of Inl _ \<Rightarrow> None | Inr (v, st) \<Rightarrow> v) = Some [9]"
  by code_simp

theorem lookup_returns_a_reply_witness:
  "\<exists>st'. findValue demo_sha demo_answer ''key'' demo_small = ok (Some [9], st') \<and> knode_ok st' \<and> kn_nextRid st' \<le> 1 + 16 * 3"
proof -
  obtain st' where run: "findValue demo_sha demo_answer ''key'' demo_small = ok (Some [9], st')"
    using demo_answer_eval by (auto split: sum.splits)
  have "kn_nextRid demo_small = 1" "ko_alpha (kn_opts demo_small) = 3"
    by (simp_all add: demo_small_def demo_node_def default_kad_options_def KAD_ALPHA_def)
  with lookup_returns_a_reply [OF demo_small_ok run] run show ?thesis by simp
qed

section \<open>Stored values are served\<close>

fun stores_key :: "string \<Rightarrow> kad_event \<Rightarrow> bool" where
  "stores_key k (Arrive _ _ (Store _ _ k' _)) = (k' = k)"
| "stores_key k _ = False"

lemma storage_kept:
  "\<not> stores_key k e \<Longrightarrow> knode_ok st \<Longrightarrow> jm_get (kn_storage (fst (kad_event_act e st))) k = jm_get (kn_storage st) k"
proof (cases e)
  case (Arrive now frm m)
  assume "\<not> stores_key k e" and ok: "knode_ok st"
  with Arrive show ?thesis
    using observe_sender_ok [OF ok, of now frm m]
    by (cases m) (auto simp: kad_handleMessage_def kad_resolve_def Let_def split: sum.splits option.splits)
next
  case (Expire rid)
  then show ?thesis by (simp add: kad_timeout_def split: option.splits)
qed

lemma storage_kept_run:
  "\<forall>e \<in> set es. \<not> stores_key k e \<Longrightarrow> knode_ok st \<Longrightarrow>
    jm_get (kn_storage (fst (kad_run es st))) k = jm_get (kn_storage st) k"
proof (induction es arbitrary: st)
  case (Cons e es)
  obtain st1 o1 st2 o2 where r: "kad_event_act e st = (st1, o1)" "kad_run es st1 = (st2, o2)" by fastforce
  have "knode_ok st1" using kad_event_ok [OF Cons.prems(2), of e] r by simp
  with Cons.IH [of st1] Cons.prems storage_kept [of k e st] r show ?case by simp
qed simp

lemma subscribed_kept: "knode_ok st \<Longrightarrow> kn_subscribed (fst (kad_run es st)) = kn_subscribed st"
proof (induction es arbitrary: st)
  case (Cons e es)
  obtain st1 o1 st2 o2 where r: "kad_event_act e st = (st1, o1)" "kad_run es st1 = (st2, o2)" by fastforce
  have "kn_subscribed (fst (kad_event_act e st)) = kn_subscribed st"
  proof (cases e)
    case (Arrive now frm m)
    then show ?thesis
      using observe_sender_ok [OF Cons.prems, of now frm m]
      by (cases m) (auto simp: kad_handleMessage_def kad_resolve_def Let_def split: sum.splits option.splits)
  qed (simp add: kad_timeout_def split: option.splits)
  moreover have "knode_ok st1" using kad_event_ok [OF Cons.prems, of e] r by simp
  ultimately show ?case using Cons.IH [of st1] r by simp
qed simp

text \<open>
  C33. A value a peer stores under the hexadecimal text of a key is acknowledged, and after any
  further messages and timeouts that do not store under the same key, a FIND_VALUE for the key
  is answered with the same base64 text, which decodes to the value.
\<close>

theorem stored_value_is_served:
  fixes t1 t2 :: nat and h1 r1 f1 h2 r2 f2 :: string and v key :: bytes
  assumes "knode_ok st" and "kn_subscribed st" and "\<forall>e \<in> set es. \<not> stores_key (bytesToHex key) e"
  defines "st1 \<equiv> fst (kad_event_act (Arrive t1 h1 (Store r1 f1 (bytesToHex key) (btoa v))) st)"
  shows "SendTo h1 (StoreAck r1 (bytesToHex (kn_id st)) True)
      \<in> set (snd (kad_event_act (Arrive t1 h1 (Store r1 f1 (bytesToHex key) (btoa v))) st))
    \<and> (\<exists>cs. snd (kad_event_act (Arrive t2 h2 (FindValue r2 f2 (bytesToHex key))) (fst (kad_run es st1)))
      = [SendTo h2 (FindValueResponse r2 (bytesToHex (kn_id st)) (Some (btoa v)) cs)]) \<and> atob (btoa v) = Some v"
proof -
  note O1 = observe_sender_ok [OF assms(1), of t1 h1 "Store r1 f1 (bytesToHex key) (btoa v)"]
  have st1: "kn_subscribed st1" "jm_get (kn_storage st1) (bytesToHex key) = Some v" "kn_id st1 = kn_id st"
    using assms(2) O1 by (auto simp: st1_def kad_handleMessage_def atob_btoa same_node_def)
  have ok1: "knode_ok st1" unfolding st1_def using kad_event_ok [OF assms(1)] by blast
  let ?st2 = "fst (kad_run es st1)"
  have st2: "kn_subscribed ?st2" "jm_get (kn_storage ?st2) (bytesToHex key) = Some v" "kn_id ?st2 = kn_id st"
    using storage_kept_run [OF assms(3) ok1] subscribed_kept [OF ok1, of es] kad_run_same [OF ok1, of es] st1
    by (auto simp: same_node_def)
  note O2 = observe_sender_ok [OF kad_run_ok [OF ok1, of es], of t2 h2 "FindValue r2 f2 (bytesToHex key)"]
  show ?thesis
    using assms(2) O1 O2 st2 by (auto simp: kad_handleMessage_def atob_btoa hexToBytes_bytesToHex same_node_def)
qed

theorem stored_value_is_served_witness:
  "\<exists>cs. snd (kad_event_act (Arrive 5 ''b'' (FindValue ''r2'' '''' (bytesToHex [1, 2])))
        (fst (kad_run [Expire ''x''] (fst (kad_event_act (Arrive 4 ''a'' (Store ''r1'' '''' (bytesToHex [1, 2]) (btoa [9]))) demo_small)))))
      = [SendTo ''b'' (FindValueResponse ''r2'' (bytesToHex (kn_id demo_small)) (Some (btoa [9])) cs)]"
proof -
  have "kn_subscribed demo_small" by (simp add: demo_small_def demo_node_def)
  from stored_value_is_served [OF demo_small_ok this, of "[Expire ''x'']" "[1, 2]"] show ?thesis by simp
qed

section \<open>The routing table over any history\<close>

datatype table_op = Sighting nat node_id string | Removal string

fun table_act :: "table_op \<Rightarrow> routing_table \<Rightarrow> routing_table" where
  "table_act (Sighting now cid h) rt = (case observe now cid h rt of Inl _ \<Rightarrow> rt | Inr (_, rt') \<Rightarrow> rt')"
| "table_act (Removal h) rt = snd (rt_remove h rt)"

definition table_of :: "node_id \<Rightarrow> nat \<Rightarrow> routing_table \<Rightarrow> bool" where
  "table_of self k rt \<longleftrightarrow> table_ok rt \<and> rt_self rt = self \<and> rt_k rt = k"

lemma table_act_ok: "table_of self k rt \<Longrightarrow> table_of self k (table_act op rt)"
proof (cases op)
  case (Sighting now cid h)
  assume t: "table_of self k rt"
  show ?thesis
  proof (cases "isNodeId cid")
    case True
    with t Sighting observe_ok [of rt cid now h] show ?thesis by (auto simp: table_of_def)
  next
    case False
    have self: "isNodeId (rt_self rt)" using t unfolding table_of_def table_ok_def by blast
    with False have "length (rt_self rt) \<noteq> length cid" "cid \<noteq> rt_self rt" by (auto simp: isNodeId_def)
    then have "observe now cid h rt = throw ''xorDistance: length mismatch''"
      by (simp add: observe_def bucketIndex_def xorDistance_def)
    with t Sighting show ?thesis by simp
  qed
next
  case (Removal h)
  assume "table_of self k rt"
  with Removal show ?thesis using rt_remove_ok [of rt h]
    by (auto simp: table_of_def rt_remove_def split: prod.splits)
qed

interpretation table: event_machine table_act "table_of self k" for self k
  by unfold_locales (rule table_act_ok)

text \<open>
  C12. After any history of sightings and removals the table of a node holds each identifier at
  most once, none of them its own, in the bucket of its distance, at most \<open>k\<close> per bucket; and
  \<open>closest\<close> returns \<open>min count size\<close> known contacts in order of distance, such that no contact
  left out is nearer than one returned.
\<close>

theorem routing_table_invariant:
  fixes ops :: "table_op list" and k n :: nat and target :: node_id
  assumes "isNodeId self"
  defines "rt \<equiv> fold table_act ops (new_RoutingTable self k)"
  shows "distinct (map ct_id (allContacts rt)) \<and> self \<notin> ct_id ` set (allContacts rt) \<and>
    list_all (\<lambda>b. length b \<le> k) (rt_buckets rt) \<and> length (rt_buckets rt) = 160 \<and>
    list_all (\<lambda>i. list_all (\<lambda>c. bucketIndex self (ct_id c) = ok (int i)) (rt_buckets rt ! i)) [0..<160] \<and>
    length (closest target n rt) = min n (length (allContacts rt)) \<and>
    distinct (map ct_id (closest target n rt)) \<and>
    sorted (map (\<lambda>c. be_val (xor_pad (ct_id c) target)) (closest target n rt)) \<and>
    list_all (\<lambda>c. list_all (\<lambda>d. d \<in> set (closest target n rt) \<or>
        be_val (xor_pad (ct_id c) target) \<le> be_val (xor_pad (ct_id d) target)) (allContacts rt)) (closest target n rt)"
proof -
  have "table_of self k (new_RoutingTable self k)"
    using assms(1) table_ok_new by (simp add: table_of_def new_rt_self) (simp add: new_RoutingTable_def)
  then have "table_of self k rt" unfolding rt_def by (rule table.run_good)
  then have t: "table_ok rt" "rt_self rt = self" "rt_k rt = k" by (simp_all add: table_of_def)
  have b: "bucket_ok self k i (rt_buckets rt ! i)" if "i < 160" for i
    using t that by (auto simp: table_ok_def NODE_ID_BITS_def NODE_ID_BYTES_def)
  have len: "length (rt_buckets rt) = 160" using t by (simp add: table_ok_def NODE_ID_BITS_def NODE_ID_BYTES_def)
  have self: "self \<notin> ct_id ` set (allContacts rt)"
  proof
    assume "self \<in> ct_id ` set (allContacts rt)"
    then obtain c i where c: "ct_id c = self" "i < NODE_ID_BITS" "c \<in> set (rt_buckets rt ! i)"
      using contact_in_bucket [OF t(1)] by auto
    then have "bucketIndex self self = ok (int i)"
      using b [of i] by (auto simp: bucket_ok_def NODE_ID_BITS_def NODE_ID_BYTES_def)
    with bucketIndex_spec [OF assms(1) assms(1)] show False by auto
  qed
  have sizes: "list_all (\<lambda>b. length b \<le> k) (rt_buckets rt)"
    using b len by (auto simp: list_all_length bucket_ok_def)
  have place: "list_all (\<lambda>i. list_all (\<lambda>c. bucketIndex self (ct_id c) = ok (int i)) (rt_buckets rt ! i)) [0..<160]"
    using b by (auto simp: list_all_iff bucket_ok_def)
  have near: "list_all (\<lambda>c. list_all (\<lambda>d. d \<in> set (closest target n rt) \<or>
        be_val (xor_pad (ct_id c) target) \<le> be_val (xor_pad (ct_id d) target)) (allContacts rt)) (closest target n rt)"
    using closest_spec(5) [OF t(1), of _ target n] by (auto simp: list_all_iff)
  show ?thesis
    using distinct_ids [OF t(1)] self sizes len place closest_spec(2-4) [OF t(1), of target n] near by simp
qed

theorem routing_table_invariant_witness:
  "distinct (map ct_id (allContacts (fold table_act [Sighting 1 (demo_id 1) ''a'', Removal ''b''] (new_RoutingTable (demo_id 0) 2))))"
  using routing_table_invariant [of "demo_id 0" "[Sighting 1 (demo_id 1) ''a'', Removal ''b'']" 2]
  by (simp add: isNodeId_def demo_id_def NODE_ID_BYTES_def)

end
