(* ===== verification/Validate.thy ===== *)
theory Validate imports Prelude begin

text \<open>
  The shapes the signaling server accepts (\<open>validate/socket.ts\<close>). A schema is the value the
  source builds with the combinators of zod; parsing against a schema is zod's, so it is a
  parameter of every handler, and what the handlers rely on is the interface
  \<open>schema_parser\<close>. The reference parser at the end satisfies it.
\<close>

section \<open>Untyped values\<close>

datatype json = JNull | JBool bool | JNum rat | JStr string | JArr "json list" | JObj "(string \<times> json) list"

text \<open>A JavaScript value off the wire: \<open>None\<close> is \<open>undefined\<close>.\<close>

type_synonym jsval = "json option"

fun jget :: "jsval \<Rightarrow> string \<Rightarrow> jsval" where
  "jget (Some (JObj kvs)) k = map_of kvs k"
| "jget _ k = None"

fun is_str :: "jsval \<Rightarrow> bool" where
  "is_str (Some (JStr _)) = True"
| "is_str _ = False"

text \<open>Reads of a field the schema has checked.\<close>

fun str_of :: "jsval \<Rightarrow> string" where
  "str_of (Some (JStr s)) = s"
| "str_of _ = []"

fun bool_of :: "jsval \<Rightarrow> bool" where
  "bool_of (Some (JBool b)) = b"
| "bool_of _ = False"

fun opt_str :: "jsval \<Rightarrow> string option" where
  "opt_str (Some (JStr s)) = Some s"
| "opt_str _ = None"

text \<open>A field of an object literal whose value may be \<open>undefined\<close>: such a field is absent.\<close>

definition field :: "string \<Rightarrow> jsval \<Rightarrow> (string \<times> json) list" where
  "field k v = (case v of None \<Rightarrow> [] | Some x \<Rightarrow> [(k, x)])"

section \<open>Schemas\<close>

datatype schema =
    ZString "nat option" "nat option"
  | ZBool
  | ZNumber
  | ZInt
  | ZEnum "string list"
  | ZNullable schema
  | ZOptional schema
  | ZObject "(string \<times> schema) list"
  | ZUnion "schema list"

definition socketId :: schema where
  "socketId = ZString (Some 1) (Some 64)"

definition bounded_string :: "nat \<Rightarrow> schema" where
  "bounded_string n = ZString (Some 1) (Some n)"

definition JoinRoomPayload :: schema where
  "JoinRoomPayload = ZUnion [bounded_string 128,
     ZObject [(''roomName'', bounded_string 128), (''password'', ZOptional (bounded_string 128))]]"

definition CreateRoomPayload :: schema where
  "CreateRoomPayload =
     ZObject [(''roomName'', bounded_string 128), (''password'', ZOptional (bounded_string 128))]"

definition MediaStateChangePayload :: schema where
  "MediaStateChangePayload =
     ZObject [(''roomName'', bounded_string 128), (''kind'', ZEnum [''video'', ''audio'']), (''enabled'', ZBool)]"

definition session_description :: schema where
  "session_description = ZObject [(''type'', ZString None None), (''sdp'', ZOptional (ZString None None))]"

definition OfferPayload :: schema where
  "OfferPayload = ZObject [(''to'', socketId), (''offer'', session_description)]"

definition AnswerPayload :: schema where
  "AnswerPayload = ZObject [(''to'', socketId), (''answer'', session_description)]"

definition CandidatePayload :: schema where
  "CandidatePayload = ZObject [(''to'', socketId), (''candidate'',
     ZObject [(''candidate'', ZOptional (ZString None None)),
              (''sdpMid'', ZOptional (ZNullable (ZString None None))),
              (''sdpMLineIndex'', ZOptional (ZNullable ZInt)),
              (''usernameFragment'', ZOptional (ZNullable (ZString None None)))])]"

definition PubkeyExchangePayload :: schema where
  "PubkeyExchangePayload = ZObject [(''to'', socketId), (''pubKey'', bounded_string 200)]"

definition ChatRelayPayload :: schema where
  "ChatRelayPayload = ZObject [(''to'', socketId), (''msgId'', bounded_string 128),
     (''iv'', bounded_string 64), (''ct'', bounded_string 8192), (''ts'', ZOptional ZNumber)]"

definition LeaveRoomPayload :: schema where
  "LeaveRoomPayload = ZOptional (bounded_string 128)"

section \<open>What the handlers rely on\<close>

text \<open>
  \<open>parse s v = Some w\<close> is a successful \<open>safeParse\<close> with \<open>w\<close> as its \<open>data\<close>, \<open>None\<close> a failure.
  The laws are the documented meaning of the combinators, for the direction the server uses:
  what a successful parse says of the data.
\<close>

locale schema_parser =
  fixes parse :: "schema \<Rightarrow> jsval \<Rightarrow> jsval option"
  assumes parse_string: "parse (ZString lo hi) v = Some w \<Longrightarrow>
      \<exists>s. w = Some (JStr s) \<and> v = w \<and> (case lo of None \<Rightarrow> True | Some n \<Rightarrow> n \<le> length s)
        \<and> (case hi of None \<Rightarrow> True | Some n \<Rightarrow> length s \<le> n)"
    and parse_optional: "parse (ZOptional s) v = Some w \<Longrightarrow> w = None \<or> parse s v = Some w"
    and parse_object: "parse (ZObject fs) v = Some w \<Longrightarrow> (k, s) \<in> set fs \<Longrightarrow> distinct (map fst fs)
      \<Longrightarrow> parse s (jget v k) = Some (jget w k)"
    and parse_object_shape: "parse (ZObject fs) v = Some w \<Longrightarrow> \<exists>kvs. w = Some (JObj kvs)"
    and parse_union: "parse (ZUnion ss) v = Some w \<Longrightarrow> \<exists>s \<in> set ss. parse s v = Some w"
begin

lemma parse_bounded:
  "parse (bounded_string n) v = Some w \<Longrightarrow> \<exists>s. w = Some (JStr s) \<and> v = w \<and> 1 \<le> length s \<and> length s \<le> n"
  by (auto simp: bounded_string_def dest: parse_string)

lemma parse_bounded_optional:
  "parse (ZOptional (bounded_string n)) v = Some w \<Longrightarrow>
    case opt_str w of None \<Rightarrow> True | Some s \<Rightarrow> 1 \<le> length s \<and> length s \<le> n"
  by (auto dest!: parse_optional parse_bounded)

lemma parse_create:
  assumes "parse CreateRoomPayload v = Some w"
  shows "1 \<le> length (str_of (jget w ''roomName'')) \<and> length (str_of (jget w ''roomName'')) \<le> 128 \<and>
    (case opt_str (jget w ''password'') of None \<Rightarrow> True | Some p \<Rightarrow> 1 \<le> length p \<and> length p \<le> 128)"
proof -
  have "parse (bounded_string 128) (jget v ''roomName'') = Some (jget w ''roomName'')"
    and "parse (ZOptional (bounded_string 128)) (jget v ''password'') = Some (jget w ''password'')"
    using parse_object [OF assms [unfolded CreateRoomPayload_def]] by simp_all
  then show ?thesis using parse_bounded [of 128] parse_bounded_optional [of 128] by fastforce
qed

lemma parse_join_string:
  "parse JoinRoomPayload v = Some (Some (JStr r)) \<Longrightarrow> 1 \<le> length r \<and> length r \<le> 128"
  unfolding JoinRoomPayload_def by (auto dest!: parse_union parse_bounded dest: parse_object_shape)

lemma parse_join_object:
  assumes "parse JoinRoomPayload v = Some w" and "\<not> is_str w"
  shows "1 \<le> length (str_of (jget w ''roomName'')) \<and> length (str_of (jget w ''roomName'')) \<le> 128"
proof -
  have "parse CreateRoomPayload v = Some w"
    using assms unfolding JoinRoomPayload_def CreateRoomPayload_def by (auto dest!: parse_union parse_bounded)
  from parse_create [OF this] show ?thesis by simp
qed

lemma parse_leave: "parse LeaveRoomPayload v = Some w \<Longrightarrow> w = None \<or> (\<exists>r. w = Some (JStr r) \<and> 1 \<le> length r \<and> length r \<le> 128)"
  unfolding LeaveRoomPayload_def by (auto dest!: parse_optional parse_bounded)

end

section \<open>The reference parser\<close>

fun zparse :: "schema \<Rightarrow> jsval \<Rightarrow> jsval option"
  and zfields :: "(string \<times> schema) list \<Rightarrow> jsval \<Rightarrow> (string \<times> json) list option"
  and zunion :: "schema list \<Rightarrow> jsval \<Rightarrow> jsval option" where
  "zparse (ZString lo hi) v = (case v of
     Some (JStr s) \<Rightarrow> (if (case lo of None \<Rightarrow> True | Some n \<Rightarrow> n \<le> length s) \<and>
        (case hi of None \<Rightarrow> True | Some n \<Rightarrow> length s \<le> n) then Some v else None) | _ \<Rightarrow> None)"
| "zparse ZBool v = (case v of Some (JBool _) \<Rightarrow> Some v | _ \<Rightarrow> None)"
| "zparse ZNumber v = (case v of Some (JNum _) \<Rightarrow> Some v | _ \<Rightarrow> None)"
| "zparse ZInt v = (case v of Some (JNum x) \<Rightarrow> if x = of_int \<lfloor>x\<rfloor> then Some v else None | _ \<Rightarrow> None)"
| "zparse (ZEnum xs) v = (case v of Some (JStr s) \<Rightarrow> if s \<in> set xs then Some v else None | _ \<Rightarrow> None)"
| "zparse (ZNullable s) v = (if v = Some JNull then Some v else zparse s v)"
| "zparse (ZOptional s) v = (if v = None then Some v else zparse s v)"
| "zparse (ZObject fs) v = (case v of
     Some (JObj _) \<Rightarrow> (case zfields fs v of None \<Rightarrow> None | Some kvs \<Rightarrow> Some (Some (JObj kvs))) | _ \<Rightarrow> None)"
| "zparse (ZUnion ss) v = zunion ss v"
| "zfields [] v = Some []"
| "zfields ((k, s) # fs) v = (case zparse s (jget v k) of
     None \<Rightarrow> None
   | Some w \<Rightarrow> (case zfields fs v of None \<Rightarrow> None | Some kvs \<Rightarrow> Some (field k w @ kvs)))"
| "zunion [] v = None"
| "zunion (s # ss) v = (case zparse s v of Some w \<Rightarrow> Some w | None \<Rightarrow> zunion ss v)"

lemma zunion_SomeD: "zunion ss v = Some w \<Longrightarrow> \<exists>s \<in> set ss. zparse s v = Some w"
  by (induction ss) (auto split: option.splits)

lemma zfields_keys: "zfields fs v = Some kvs \<Longrightarrow> fst ` set kvs \<subseteq> fst ` set fs"
proof (induction fs arbitrary: kvs)
  case (Cons p fs)
  obtain k s where p: "p = (k, s)" by fastforce
  from Cons.prems p obtain w kvs' where w: "zfields fs v = Some kvs'" "kvs = field k w @ kvs'"
    by (auto split: option.splits)
  with Cons.IH [OF w(1)] p show ?case by (auto simp: field_def split: option.splits)
qed simp

lemma map_of_notin: "k \<notin> fst ` set kvs \<Longrightarrow> map_of kvs k = None"
  by (simp add: map_of_eq_None_iff)

lemma zfields_SomeD:
  "zfields fs v = Some kvs \<Longrightarrow> (k, s) \<in> set fs \<Longrightarrow> distinct (map fst fs) \<Longrightarrow> zparse s (jget v k) = Some (map_of kvs k)"
proof (induction fs arbitrary: kvs)
  case (Cons p fs)
  obtain k' s' where p: "p = (k', s')" by fastforce
  from Cons.prems(1) p obtain w kvs' where w: "zparse s' (jget v k') = Some w" "zfields fs v = Some kvs'"
    "kvs = field k' w @ kvs'" by (auto split: option.splits)
  have keys: "fst ` set kvs' \<subseteq> fst ` set fs" using w(2) by (rule zfields_keys)
  show ?case
  proof (cases "k = k'")
    case True
    with Cons.prems(2,3) p have "s = s'" by (auto simp: rev_image_eqI)
    moreover have "k' \<notin> fst ` set kvs'" using keys Cons.prems(3) p by auto
    ultimately show ?thesis using True w by (auto simp: field_def map_of_notin split: option.splits)
  next
    case False
    with Cons.prems p have "(k, s) \<in> set fs" "distinct (map fst fs)" by auto
    from Cons.IH [OF w(2) this] show ?thesis using False w(3) by (auto simp: field_def map_add_def split: option.splits)
  qed
qed simp

interpretation zod: schema_parser zparse
proof
  show "\<exists>s. w = Some (JStr s) \<and> v = w \<and> (case lo of None \<Rightarrow> True | Some n \<Rightarrow> n \<le> length s)
        \<and> (case hi of None \<Rightarrow> True | Some n \<Rightarrow> length s \<le> n)" if "zparse (ZString lo hi) v = Some w" for lo hi v w
    using that by (auto split: option.splits json.splits if_splits)
  show "w = None \<or> zparse s v = Some w" if "zparse (ZOptional s) v = Some w" for s v w
    using that by (auto split: if_splits)
  show "zparse s (jget v k) = Some (jget w k)"
    if "zparse (ZObject fs) v = Some w" "(k, s) \<in> set fs" "distinct (map fst fs)" for fs v w k s
    using that zfields_SomeD [of fs v _ k s] by (auto split: option.splits json.splits)
  show "\<exists>kvs. w = Some (JObj kvs)" if "zparse (ZObject fs) v = Some w" for fs v w
    using that by (auto split: option.splits json.splits)
  show "\<exists>s \<in> set ss. zparse s v = Some w" if "zparse (ZUnion ss) v = Some w" for ss v w
    using that by (auto dest: zunion_SomeD)
qed

end
