(* ===== verification/Rooms.thy ===== *)
theory Rooms imports Validate begin

text \<open>
  The room manager (\<open>rooms/manager.ts\<close>) and the mesh/SFU decision (\<open>sfu/mode.ts\<close>). The
  room membership itself belongs to socket.io: it is a parameter, the record \<open>io_ops\<close>, with
  the interface \<open>room_adapter\<close> for what the server relies on.
\<close>

section \<open>The room adapter of socket.io\<close>

record 'a io_ops =
  io_join :: "'a \<Rightarrow> string \<Rightarrow> string \<Rightarrow> 'a"
  io_leave :: "'a \<Rightarrow> string \<Rightarrow> string \<Rightarrow> 'a"
  io_drop :: "'a \<Rightarrow> string \<Rightarrow> 'a"
  io_rooms :: "'a \<Rightarrow> (string \<times> string list) list"
  io_of :: "'a \<Rightarrow> string \<Rightarrow> string list"

definition members :: "'a io_ops \<Rightarrow> 'a \<Rightarrow> string \<Rightarrow> string list" where
  "members io a r = (case map_of (io_rooms io a) r of None \<Rightarrow> [] | Some ms \<Rightarrow> ms)"

locale room_adapter =
  fixes io :: "'a io_ops" and good :: "'a \<Rightarrow> bool"
  assumes good_join: "good a \<Longrightarrow> good (io_join io a x r)"
    and good_leave: "good a \<Longrightarrow> good (io_leave io a x r)"
    and good_drop: "good a \<Longrightarrow> good (io_drop io a x)"
    and distinct_members: "good a \<Longrightarrow> distinct (members io a r)"
    and set_join: "good a \<Longrightarrow> set (members io (io_join io a x r) r') =
      (if r' = r then insert x (set (members io a r')) else set (members io a r'))"
    and set_leave: "good a \<Longrightarrow> set (members io (io_leave io a x r) r') =
      (if r' = r then set (members io a r') - {x} else set (members io a r'))"
    and set_drop: "good a \<Longrightarrow> set (members io (io_drop io a x) r) = set (members io a r) - {x}"
    and set_of: "good a \<Longrightarrow> set (io_of io a x) = {r. x \<in> set (members io a r)}"
begin

lemma size_card: "good a \<Longrightarrow> length (members io a r) = card (set (members io a r))"
  by (simp add: distinct_members distinct_card)

lemma size_0: "length (members io a r) = 0 \<longleftrightarrow> set (members io a r) = {}"
  by simp

lemma leave_le: "good a \<Longrightarrow> length (members io (io_leave io a x r) r') \<le> length (members io a r')"
  by (simp add: size_card good_leave set_leave card_mono)

lemma drop_le: "good a \<Longrightarrow> length (members io (io_drop io a x) r') \<le> length (members io a r')"
  by (simp add: size_card good_drop set_drop card_mono)

lemma join_le: "good a \<Longrightarrow> length (members io a r') \<le> length (members io (io_join io a x r) r')"
  by (simp add: size_card good_join set_join card_mono subset_insertI)

lemmas set_simps = set_join set_leave set_drop set_of good_join good_leave good_drop

end

text \<open>
  A concrete adapter, the one socket.io keeps in memory: a \<open>Map\<close> from room to members, where
  an emptied room disappears.
\<close>

definition mem_join :: "(string, string list) jmap \<Rightarrow> string \<Rightarrow> string \<Rightarrow> (string, string list) jmap" where
  "mem_join a x r = jm_set a r (case jm_get a r of None \<Rightarrow> [x] | Some ms \<Rightarrow> if x \<in> set ms then ms else ms @ [x])"

definition mem_leave :: "(string, string list) jmap \<Rightarrow> string \<Rightarrow> string \<Rightarrow> (string, string list) jmap" where
  "mem_leave a x r = (case jm_get a r of None \<Rightarrow> a
     | Some ms \<Rightarrow> if removeAll x ms = [] then jm_del a r else jm_set a r (removeAll x ms))"

definition mem_drop :: "(string, string list) jmap \<Rightarrow> string \<Rightarrow> (string, string list) jmap" where
  "mem_drop a x = fold (\<lambda>r a. mem_leave a x r) (jm_keys a) a"

definition mem_of :: "(string, string list) jmap \<Rightarrow> string \<Rightarrow> string list" where
  "mem_of a x = map fst (filter (\<lambda>(r, ms). x \<in> set ms) a)"

definition mem_io :: "(string, string list) jmap io_ops" where
  "mem_io = \<lparr>io_join = mem_join, io_leave = mem_leave, io_drop = mem_drop, io_rooms = (\<lambda>a. a), io_of = mem_of\<rparr>"

definition mem_good :: "(string, string list) jmap \<Rightarrow> bool" where
  "mem_good a \<longleftrightarrow> jm_wf a \<and> (\<forall>r. distinct (members mem_io a r))"

lemma members_mem: "members mem_io a r = (case map_of a r of None \<Rightarrow> [] | Some ms \<Rightarrow> ms)"
  by (simp add: members_def mem_io_def)

lemma mem_leave_members: "members mem_io (mem_leave a x r) r' = (if r' = r then removeAll x (members mem_io a r') else members mem_io a r')"
  by (auto simp: members_mem mem_leave_def split: option.splits)

lemma mem_leave_wf: "jm_wf a \<Longrightarrow> jm_wf (mem_leave a x r)"
  by (simp add: mem_leave_def split: option.splits)

lemma mem_fold_leave:
  "members mem_io (fold (\<lambda>r a. mem_leave a x r) rs a) r' =
    (if r' \<in> set rs then removeAll x (members mem_io a r') else members mem_io a r')"
  by (induction rs arbitrary: a) (auto simp: mem_leave_members)

lemma mem_fold_wf: "jm_wf a \<Longrightarrow> jm_wf (fold (\<lambda>r a. mem_leave a x r) rs a)"
  by (induction rs arbitrary: a) (auto simp: mem_leave_wf)

lemma members_notin: "r \<notin> set (jm_keys a) \<Longrightarrow> members mem_io a r = []"
  by (auto simp: members_mem map_of_eq_None_iff split: option.splits) (metis image_eqI fst_conv map_of_SomeD)

lemma mem_drop_members: "members mem_io (mem_drop a x) r = removeAll x (members mem_io a r)"
  by (auto simp: mem_drop_def mem_fold_leave members_notin)

lemma mem_io_sel [simp]:
  "io_join mem_io = mem_join" "io_leave mem_io = mem_leave" "io_drop mem_io = mem_drop" "io_of mem_io = mem_of"
  by (simp_all add: mem_io_def)

interpretation mem: room_adapter mem_io mem_good
proof
  fix a :: "(string, string list) jmap" and x r r'
  assume g: "mem_good a"
  then have wf: "jm_wf a" and dist: "distinct (members mem_io a r)" for r by (auto simp: mem_good_def)
  have join: "members mem_io (mem_join a x r) r' = (if r' = r then
      (if x \<in> set (members mem_io a r) then members mem_io a r else members mem_io a r @ [x]) else members mem_io a r')" for r r'
    by (auto simp: members_mem mem_join_def split: option.splits)
  show "mem_good (io_join mem_io a x r)"
    using wf dist by (simp add: mem_good_def join) (simp add: mem_join_def)
  show "mem_good (io_leave mem_io a x r)"
    using wf dist by (auto simp: mem_good_def mem_leave_members mem_leave_wf distinct_removeAll)
  show "mem_good (io_drop mem_io a x)"
    using wf dist by (auto simp: mem_good_def mem_drop_members distinct_removeAll) (simp add: mem_drop_def mem_fold_wf)
  show "distinct (members mem_io a r)" by (rule dist)
  show "set (members mem_io (io_join mem_io a x r) r') =
      (if r' = r then insert x (set (members mem_io a r')) else set (members mem_io a r'))"
    by (auto simp: join)
  show "set (members mem_io (io_leave mem_io a x r) r') =
      (if r' = r then set (members mem_io a r') - {x} else set (members mem_io a r'))"
    by (auto simp: mem_leave_members)
  show "set (members mem_io (io_drop mem_io a x) r) = set (members mem_io a r) - {x}"
    by (auto simp: mem_drop_members)
  show "set (io_of mem_io a x) = {r. x \<in> set (members mem_io a r)}"
    using wf by (force simp: mem_of_def members_mem split: option.splits)
qed

section \<open>Mode of a room\<close>

datatype room_mode = Mesh | Sfu

text \<open>\<open>parsed\<close> is \<open>Number(process.env.SFU_MESH_MAX ?? 4)\<close>, \<open>None\<close> when that is not finite.\<close>

definition MESH_MAX_of :: "rat option \<Rightarrow> int" where
  "MESH_MAX_of parsed = (case parsed of Some x \<Rightarrow> if x > 0 then \<lfloor>x\<rfloor> else 4 | None \<Rightarrow> 4)"

definition modeForSize :: "int \<Rightarrow> nat \<Rightarrow> room_mode" where
  "modeForSize mesh_max n = (if int n \<ge> mesh_max then Sfu else Mesh)"

section \<open>State of the signaling server\<close>

text \<open>
  A connected socket: the username of its handshake and the media state, \<open>None\<close> until the
  handlers of the connection are registered.
\<close>

record sock =
  so_username :: jsval
  so_media :: "(bool \<times> bool) option"

text \<open>What still has to run: the rest of an \<open>async\<close> handler after its first \<open>await\<close>, or a \<open>setImmediate\<close>.\<close>

datatype task =
    Register string
  | JoinedRoom string sock string
  | CreatedRoom string sock string
  | LeftRoom string
  | ReconcileRoom string
  | Announce

record 'a server =
  sv_io :: 'a
  sv_sockets :: "(string, sock) jmap"
  sv_modes :: "(string, room_mode) jmap"
  sv_passwords :: "(string, string) jmap"
  sv_tasks :: "task list"

text \<open>What the server is built with: socket.io, zod, and the configured threshold.\<close>

record 'a config =
  cf_io :: "'a io_ops"
  cf_parse :: "schema \<Rightarrow> jsval \<Rightarrow> jsval option"
  cf_mesh_max :: int

text \<open>Messages: to one socket, to a room, to a room but one socket, to all but a room, to all.\<close>

datatype audience = ToSocket string | ToRoom string | ToRoomExcept string string | ToAllExceptRoom string | ToAll

text \<open>An argument of \<open>emit\<close>: a value, or the text \<open>JSON.stringify\<close> makes of it.\<close>

datatype payload = Plain json | Text json

datatype emission = Emit audience string payload

section \<open>Passwords\<close>

text \<open>White space as \<open>String.prototype.trim\<close> takes it, among the 8-bit characters.\<close>

definition js_space :: "char \<Rightarrow> bool" where
  "js_space c \<longleftrightarrow> (let n = (of_char c :: nat) in 9 \<le> n \<and> n \<le> 13 \<or> n = 32 \<or> n = 160)"

definition trim :: "string \<Rightarrow> string" where
  "trim s = rev (dropWhile js_space (rev (dropWhile js_space s)))"

definition setRoomPassword :: "string \<Rightarrow> string \<Rightarrow> 'a server \<Rightarrow> 'a server" where
  "setRoomPassword roomName password st =
    (if trim password \<noteq> [] then st\<lparr>sv_passwords := jm_set (sv_passwords st) roomName (trim password)\<rparr> else st)"

definition checkRoomPassword :: "string \<Rightarrow> string option \<Rightarrow> 'a server \<Rightarrow> bool" where
  "checkRoomPassword roomName password st =
    (if \<not> jm_has (sv_passwords st) roomName then True else jm_get (sv_passwords st) roomName = password)"

definition hasRoomPassword :: "string \<Rightarrow> 'a server \<Rightarrow> bool" where
  "hasRoomPassword roomName st = jm_has (sv_passwords st) roomName"

definition roomSize :: "'a config \<Rightarrow> string \<Rightarrow> 'a server \<Rightarrow> nat" where
  "roomSize cf roomName st = length (members (cf_io cf) (sv_io st) roomName)"

definition gcRoomPassword :: "'a config \<Rightarrow> string \<Rightarrow> 'a server \<Rightarrow> 'a server" where
  "gcRoomPassword cf roomName st =
    (if roomSize cf roomName st = 0 then st\<lparr>sv_passwords := jm_del (sv_passwords st) roomName\<rparr> else st)"

section \<open>Reconciling the mode\<close>

definition mode_text :: "room_mode \<Rightarrow> string" where
  "mode_text m = (case m of Mesh \<Rightarrow> ''mesh'' | Sfu \<Rightarrow> ''sfu'')"

definition mode_message :: "string \<Rightarrow> room_mode \<Rightarrow> nat \<Rightarrow> payload" where
  "mode_message roomName mode n = Plain (JObj [(''roomName'', JStr roomName), (''mode'', JStr (mode_text mode)), (''size'', JNum (of_nat n))])"

definition reconcileMode :: "'a config \<Rightarrow> string \<Rightarrow> 'a server \<Rightarrow> room_mode \<times> 'a server \<times> emission list" where
  "reconcileMode cf roomName st =
    (let n = roomSize cf roomName st;
         prev = jm_get (sv_modes st) roomName in
     if n = 0 then (Mesh, st\<lparr>sv_modes := jm_del (sv_modes st) roomName\<rparr>, [])
     else
       let naive = modeForSize (cf_mesh_max cf) n;
           mode = (if prev = Some Sfu then Sfu else naive) in
       if prev \<noteq> Some mode then
         (mode, st\<lparr>sv_modes := jm_set (sv_modes st) roomName mode\<rparr>,
          if prev \<noteq> None then [Emit (ToRoom roomName) ''room-mode'' (mode_message roomName mode n)] else [])
       else (mode, st, []))"

definition currentMode :: "string \<Rightarrow> 'a server \<Rightarrow> room_mode" where
  "currentMode roomName st = (case jm_get (sv_modes st) roomName of None \<Rightarrow> Mesh | Some m \<Rightarrow> m)"

section \<open>The list of active rooms\<close>

definition room_json :: "'a server \<Rightarrow> string \<times> string list \<Rightarrow> json" where
  "room_json st = (\<lambda>(roomName, ms). JObj [(''id'', JStr roomName), (''name'', JStr roomName),
     (''hasPassword'', JBool (jm_has (sv_passwords st) roomName)),
     (''activeUsers'', JArr (concat (map (\<lambda>x. case jm_get (sv_sockets st) x of None \<Rightarrow> []
        | Some s \<Rightarrow> [JObj ((''id'', JStr x) # field ''username'' (so_username s))]) ms)))])"

definition getAllRooms :: "'a config \<Rightarrow> 'a server \<Rightarrow> json" where
  "getAllRooms cf st = JArr (map (room_json st) (filter (\<lambda>(roomName, ms). \<not> jm_has (sv_sockets st) roomName) (io_rooms (cf_io cf) (sv_io st))))"

section \<open>Facts about the manager\<close>

lemma setRoomPassword_fields [simp]:
  "sv_io (setRoomPassword r p st) = sv_io st" "sv_sockets (setRoomPassword r p st) = sv_sockets st"
  "sv_modes (setRoomPassword r p st) = sv_modes st" "sv_tasks (setRoomPassword r p st) = sv_tasks st"
  by (simp_all add: setRoomPassword_def)

lemma gcRoomPassword_fields [simp]:
  "sv_io (gcRoomPassword cf r st) = sv_io st" "sv_sockets (gcRoomPassword cf r st) = sv_sockets st"
  "sv_modes (gcRoomPassword cf r st) = sv_modes st" "sv_tasks (gcRoomPassword cf r st) = sv_tasks st"
  by (simp_all add: gcRoomPassword_def)

lemma setRoomPassword_get:
  "jm_get (sv_passwords (setRoomPassword r p st)) r' =
    (if r' = r \<and> trim p \<noteq> [] then Some (trim p) else jm_get (sv_passwords st) r')"
  by (simp add: setRoomPassword_def)

lemma gcRoomPassword_get:
  "jm_get (sv_passwords (gcRoomPassword cf r st)) r' =
    (if r' = r \<and> roomSize cf r st = 0 then None else jm_get (sv_passwords st) r')"
  by (simp add: gcRoomPassword_def)

definition new_mode :: "'a config \<Rightarrow> string \<Rightarrow> 'a server \<Rightarrow> room_mode" where
  "new_mode cf r st = (if jm_get (sv_modes st) r = Some Sfu then Sfu else modeForSize (cf_mesh_max cf) (roomSize cf r st))"

lemma reconcile_fields [simp]:
  "sv_io (fst (snd (reconcileMode cf r st))) = sv_io st"
  "sv_sockets (fst (snd (reconcileMode cf r st))) = sv_sockets st"
  "sv_passwords (fst (snd (reconcileMode cf r st))) = sv_passwords st"
  "sv_tasks (fst (snd (reconcileMode cf r st))) = sv_tasks st"
  by (simp_all add: reconcileMode_def Let_def)

lemma reconcile_get:
  "jm_get (sv_modes (fst (snd (reconcileMode cf r st)))) r' =
    (if r' = r then (if roomSize cf r st = 0 then None else Some (new_mode cf r st)) else jm_get (sv_modes st) r')"
  by (auto simp: reconcileMode_def new_mode_def Let_def)

lemma reconcile_mode: "fst (reconcileMode cf r st) = (if roomSize cf r st = 0 then Mesh else new_mode cf r st)"
  by (simp add: reconcileMode_def new_mode_def Let_def)

lemma dropWhile_length: "length (dropWhile P xs) \<le> length xs"
  by (rule length_dropWhile_le)

lemma trim_length: "length (trim s) \<le> length s"
  using dropWhile_length [of js_space s] dropWhile_length [of js_space "rev (dropWhile js_space s)"]
  by (simp add: trim_def)

end
