(* ===== verification/Signaling.thy ===== *)
theory Signaling imports Rooms begin

text \<open>
  The handlers of a connection to the signaling server (\<open>server.ts\<close>, \<open>signaling/room.ts\<close>,
  \<open>signaling/relay.ts\<close>): each handler up to its first \<open>await\<close> is one step, what follows is a task
  that runs later, in any order with the events of other sockets.
\<close>

section \<open>Descriptions of users\<close>

definition video_on :: "sock \<Rightarrow> bool" where
  "video_on s = (case so_media s of None \<Rightarrow> True | Some (v, a) \<Rightarrow> v)"

definition audio_on :: "sock \<Rightarrow> bool" where
  "audio_on s = (case so_media s of None \<Rightarrow> True | Some (v, a) \<Rightarrow> a)"

definition user_json :: "string \<Rightarrow> sock \<Rightarrow> json" where
  "user_json x s = JObj ((''id'', JStr x) # field ''username'' (so_username s) @
     [(''isVideoEnabled'', JBool (video_on s)), (''isAudioEnabled'', JBool (audio_on s))])"

definition peer_list :: "'a config \<Rightarrow> string \<Rightarrow> string \<Rightarrow> 'a server \<Rightarrow> json list" where
  "peer_list cf x roomName st = concat (map (\<lambda>y. if y = x then []
     else (case jm_get (sv_sockets st) y of None \<Rightarrow> [] | Some s \<Rightarrow> [user_json y s]))
     (members (cf_io cf) (sv_io st) roomName))"

definition emitRoomRoster :: "'a config \<Rightarrow> string \<Rightarrow> sock \<Rightarrow> string \<Rightarrow> 'a server \<Rightarrow> emission list" where
  "emitRoomRoster cf x s roomName st =
     [Emit (ToRoomExcept roomName x) ''add new room user'' (Text (user_json x s)),
      Emit (ToSocket x) ''fetch room users'' (Text (JArr (peer_list cf x roomName st)))]"

definition active_rooms :: "'a config \<Rightarrow> audience \<Rightarrow> 'a server \<Rightarrow> emission" where
  "active_rooms cf aud st = Emit aud ''fetch active rooms'' (Text (getAllRooms cf st))"

section \<open>Tasks\<close>

text \<open>The socket object the rest of a handler still holds: its current data, also after it left.\<close>

definition sock_now :: "string \<Rightarrow> sock \<Rightarrow> 'a server \<Rightarrow> sock" where
  "sock_now x s st = (case jm_get (sv_sockets st) x of None \<Rightarrow> s | Some s' \<Rightarrow> s')"

definition announce_join :: "'a config \<Rightarrow> audience \<Rightarrow> string \<Rightarrow> sock \<Rightarrow> string \<Rightarrow> 'a server \<Rightarrow> 'a server \<times> emission list" where
  "announce_join cf aud x s roomName st =
    (case reconcileMode cf roomName st of (mode, st', out) \<Rightarrow>
      (st', out @ [Emit (ToSocket x) ''room-mode'' (mode_message roomName mode (roomSize cf roomName st')),
                   active_rooms cf aud st'] @ emitRoomRoster cf x (sock_now x s st') roomName st'))"

definition reconcile_and_gc :: "'a config \<Rightarrow> string \<Rightarrow> 'a server \<Rightarrow> 'a server \<times> emission list" where
  "reconcile_and_gc cf roomName st =
    (case reconcileMode cf roomName st of (_, st', out) \<Rightarrow> (gcRoomPassword cf roomName st', out))"

fun run_task :: "'a config \<Rightarrow> task \<Rightarrow> 'a server \<Rightarrow> 'a server \<times> emission list" where
  "run_task cf (Register x) st = (case jm_get (sv_sockets st) x of
      None \<Rightarrow> (st, [active_rooms cf (ToSocket x) st])
    | Some s \<Rightarrow> (st\<lparr>sv_sockets := jm_set (sv_sockets st) x (s\<lparr>so_media := Some (True, True)\<rparr>)\<rparr>,
                 [active_rooms cf (ToSocket x) st]))"
| "run_task cf (JoinedRoom x s roomName) st = announce_join cf (ToAllExceptRoom roomName) x s roomName st"
| "run_task cf (CreatedRoom x s roomName) st = announce_join cf ToAll x s roomName st"
| "run_task cf (LeftRoom roomName) st =
    (case reconcile_and_gc cf roomName st of (st', out) \<Rightarrow> (st', out @ [active_rooms cf ToAll st']))"
| "run_task cf (ReconcileRoom roomName) st = reconcile_and_gc cf roomName st"
| "run_task cf Announce st = (st, [active_rooms cf ToAll st])"

definition defer_task :: "task \<Rightarrow> 'a server \<Rightarrow> 'a server" where
  "defer_task t st = st\<lparr>sv_tasks := sv_tasks st @ [t]\<rparr>"

section \<open>Handlers\<close>

definition enter_room :: "'a config \<Rightarrow> string \<Rightarrow> string \<Rightarrow> task \<Rightarrow> 'a server \<Rightarrow> 'a server" where
  "enter_room cf x roomName t st = defer_task t (st\<lparr>sv_io := io_join (cf_io cf) (sv_io st) x roomName\<rparr>)"

definition on_connection :: "'a config \<Rightarrow> string \<Rightarrow> jsval \<Rightarrow> 'a server \<Rightarrow> 'a server" where
  "on_connection cf x username st =
    defer_task (Register x) (st\<lparr>sv_io := io_join (cf_io cf) (sv_io st) x x,
      sv_sockets := jm_set (sv_sockets st) x \<lparr>so_username = username, so_media = None\<rparr>\<rparr>)"

definition join_target :: "jsval \<Rightarrow> string \<times> string option" where
  "join_target data = (if is_str data then (str_of data, None)
     else (str_of (jget data ''roomName''), opt_str (jget data ''password'')))"

definition on_join_room :: "'a config \<Rightarrow> string \<Rightarrow> sock \<Rightarrow> jsval \<Rightarrow> 'a server \<Rightarrow> 'a server \<times> emission list" where
  "on_join_room cf x s raw st = (case cf_parse cf JoinRoomPayload raw of None \<Rightarrow> (st, [])
    | Some data \<Rightarrow> (case join_target data of (roomName, password) \<Rightarrow>
        if \<not> checkRoomPassword roomName password st then
          (st, [Emit (ToSocket x) ''join room error'' (Plain (JObj [(''message'', JStr ''Incorrect password'')]))])
        else (enter_room cf x roomName (JoinedRoom x s roomName) st, [])))"

definition on_create_room :: "'a config \<Rightarrow> string \<Rightarrow> sock \<Rightarrow> jsval \<Rightarrow> 'a server \<Rightarrow> 'a server \<times> emission list" where
  "on_create_room cf x s raw st = (case cf_parse cf CreateRoomPayload raw of None \<Rightarrow> (st, [])
    | Some data \<Rightarrow>
        let roomName = str_of (jget data ''roomName'');
            st1 = (case opt_str (jget data ''password'') of
                     None \<Rightarrow> st | Some p \<Rightarrow> if p \<noteq> [] then setRoomPassword roomName p st else st) in
        (enter_room cf x roomName (CreatedRoom x s roomName) st1, []))"

definition on_media_state :: "'a config \<Rightarrow> string \<Rightarrow> sock \<Rightarrow> jsval \<Rightarrow> 'a server \<Rightarrow> 'a server \<times> emission list" where
  "on_media_state cf x s raw st = (case cf_parse cf MediaStateChangePayload raw of None \<Rightarrow> (st, [])
    | Some data \<Rightarrow>
        let kind = str_of (jget data ''kind''); enabled = bool_of (jget data ''enabled'');
            media = (if kind = ''video'' then (enabled, audio_on s) else (video_on s, enabled)) in
        (st\<lparr>sv_sockets := jm_set (sv_sockets st) x (s\<lparr>so_media := Some media\<rparr>)\<rparr>,
         [Emit (ToRoomExcept (str_of (jget data ''roomName'')) x) ''media state change''
            (Plain (JObj [(''userId'', JStr x), (''kind'', JStr kind), (''enabled'', JBool enabled)]))]))"

definition on_offer :: "'a config \<Rightarrow> string \<Rightarrow> jsval \<Rightarrow> 'a server \<Rightarrow> emission list" where
  "on_offer cf x raw st = (case cf_parse cf OfferPayload raw of None \<Rightarrow> []
    | Some data \<Rightarrow> if \<not> jm_has (sv_sockets st) (str_of (jget data ''to'')) then []
        else [Emit (ToSocket (str_of (jget data ''to''))) ''offer''
               (Plain (JObj ((''from'', JStr x) # field ''offer'' (jget data ''offer''))))])"

definition on_answer :: "'a config \<Rightarrow> string \<Rightarrow> jsval \<Rightarrow> emission list" where
  "on_answer cf x raw = (case cf_parse cf AnswerPayload raw of None \<Rightarrow> []
    | Some data \<Rightarrow> [Emit (ToRoom (str_of (jget data ''to''))) ''answer''
        (Plain (JObj ((''from'', JStr x) # field ''answer'' (jget data ''answer''))))])"

definition on_candidate :: "'a config \<Rightarrow> string \<Rightarrow> jsval \<Rightarrow> emission list" where
  "on_candidate cf x raw = (case cf_parse cf CandidatePayload raw of None \<Rightarrow> []
    | Some data \<Rightarrow> [Emit (ToRoom (str_of (jget data ''to''))) ''candidate''
        (Plain (JObj ((''from'', JStr x) # field ''candidate'' (jget data ''candidate''))))])"

definition remove_user :: "string \<Rightarrow> string \<Rightarrow> emission" where
  "remove_user x roomName = Emit (ToRoomExcept roomName x) ''remove room user'' (Plain (JStr x))"

definition on_leave_room :: "'a config \<Rightarrow> string \<Rightarrow> jsval \<Rightarrow> 'a server \<Rightarrow> 'a server \<times> emission list" where
  "on_leave_room cf x raw st = (case cf_parse cf LeaveRoomPayload raw of None \<Rightarrow> (st, [])
    | Some data \<Rightarrow>
        if str_of data = [] then (st, [])
        else if str_of data \<in> set (io_of (cf_io cf) (sv_io st) x) then
          (defer_task (LeftRoom (str_of data)) (st\<lparr>sv_io := io_leave (cf_io cf) (sv_io st) x (str_of data)\<rparr>),
           [remove_user x (str_of data)])
        else (defer_task Announce st, []))"

text \<open>
  A closing connection: the \<open>disconnecting\<close> handler, the removal by socket.io from all its rooms,
  then the \<open>disconnect\<close> handler.
\<close>

definition on_disconnect :: "'a config \<Rightarrow> string \<Rightarrow> 'a server \<Rightarrow> 'a server \<times> emission list" where
  "on_disconnect cf x st =
    (let rs = filter (\<lambda>r. r \<noteq> x) (io_of (cf_io cf) (sv_io st) x) in
     (st\<lparr>sv_io := io_drop (cf_io cf) (sv_io st) x, sv_sockets := jm_del (sv_sockets st) x,
         sv_tasks := sv_tasks st @ map ReconcileRoom rs @ [Announce]\<rparr>,
      map (remove_user x) rs))"

section \<open>Relay\<close>

definition shareRoom :: "'a config \<Rightarrow> string \<Rightarrow> string \<Rightarrow> 'a server \<Rightarrow> bool" where
  "shareRoom cf x target st = (if \<not> jm_has (sv_sockets st) target then False
     else list_ex (\<lambda>r. r \<noteq> x \<and> r \<in> set (io_of (cf_io cf) (sv_io st) target)) (io_of (cf_io cf) (sv_io st) x))"

definition on_pubkey :: "'a config \<Rightarrow> string \<Rightarrow> jsval \<Rightarrow> 'a server \<Rightarrow> emission list" where
  "on_pubkey cf x raw st = (case cf_parse cf PubkeyExchangePayload raw of None \<Rightarrow> []
    | Some data \<Rightarrow> if \<not> shareRoom cf x (str_of (jget data ''to'')) st then []
        else [Emit (ToSocket (str_of (jget data ''to''))) ''peer-pubkey''
               (Plain (JObj ((''from'', JStr x) # field ''pubKey'' (jget data ''pubKey''))))])"

definition on_chat :: "'a config \<Rightarrow> rat \<Rightarrow> string \<Rightarrow> sock \<Rightarrow> jsval \<Rightarrow> 'a server \<Rightarrow> emission list" where
  "on_chat cf now x s raw st = (case cf_parse cf ChatRelayPayload raw of None \<Rightarrow> []
    | Some data \<Rightarrow> if \<not> shareRoom cf x (str_of (jget data ''to'')) st then []
        else [Emit (ToSocket (str_of (jget data ''to''))) ''chat message''
               (Plain (JObj (field ''msgId'' (jget data ''msgId'') @ [(''id'', JStr x)] @ field ''username'' (so_username s)
                  @ field ''iv'' (jget data ''iv'') @ field ''ct'' (jget data ''ct'')
                  @ [(''ts'', case jget data ''ts'' of Some (JNum t) \<Rightarrow> JNum t | _ \<Rightarrow> JNum now)])))])"

section \<open>The server\<close>

datatype event =
    Connect string jsval
  | Join string jsval
  | Create string jsval
  | Media string jsval
  | Offer string jsval
  | Answer string jsval
  | Candidate string jsval
  | Leave string jsval
  | Pubkey string jsval
  | Chat rat string jsval
  | Disconnect string
  | Run nat

text \<open>A message of a socket reaches its handlers once they are registered.\<close>

definition handled :: "string \<Rightarrow> (sock \<Rightarrow> 'a server \<times> emission list) \<Rightarrow> 'a server \<Rightarrow> 'a server \<times> emission list" where
  "handled x f st = (case jm_get (sv_sockets st) x of None \<Rightarrow> (st, [])
     | Some s \<Rightarrow> if so_media s = None then (st, []) else f s)"

fun act :: "'a config \<Rightarrow> event \<Rightarrow> 'a server \<Rightarrow> 'a server \<times> emission list" where
  "act cf (Connect x username) st = (if jm_has (sv_sockets st) x then (st, []) else (on_connection cf x username st, []))"
| "act cf (Join x raw) st = handled x (\<lambda>s. on_join_room cf x s raw st) st"
| "act cf (Create x raw) st = handled x (\<lambda>s. on_create_room cf x s raw st) st"
| "act cf (Media x raw) st = handled x (\<lambda>s. on_media_state cf x s raw st) st"
| "act cf (Offer x raw) st = handled x (\<lambda>s. (st, on_offer cf x raw st)) st"
| "act cf (Answer x raw) st = handled x (\<lambda>s. (st, on_answer cf x raw)) st"
| "act cf (Candidate x raw) st = handled x (\<lambda>s. (st, on_candidate cf x raw)) st"
| "act cf (Leave x raw) st = handled x (\<lambda>s. on_leave_room cf x raw st) st"
| "act cf (Pubkey x raw) st = handled x (\<lambda>s. (st, on_pubkey cf x raw st)) st"
| "act cf (Chat now x raw) st = handled x (\<lambda>s. (st, on_chat cf now x s raw st)) st"
| "act cf (Disconnect x) st = (if jm_has (sv_sockets st) x then on_disconnect cf x st else (st, []))"
| "act cf (Run n) st = (if n < length (sv_tasks st)
     then run_task cf (sv_tasks st ! n) (st\<lparr>sv_tasks := take n (sv_tasks st) @ drop (Suc n) (sv_tasks st)\<rparr>)
     else (st, []))"

definition new_server :: "'a \<Rightarrow> 'a server" where
  "new_server a = \<lparr>sv_io = a, sv_sockets = [], sv_modes = [], sv_passwords = [], sv_tasks = []\<rparr>"

definition serve :: "'a config \<Rightarrow> event list \<Rightarrow> 'a server \<Rightarrow> 'a server" where
  "serve cf es st = fold (\<lambda>e st. fst (act cf e st)) es st"

section \<open>Facts about the handlers\<close>

lemma defer_task_fields [simp]:
  "sv_io (defer_task t st) = sv_io st" "sv_sockets (defer_task t st) = sv_sockets st"
  "sv_modes (defer_task t st) = sv_modes st" "sv_passwords (defer_task t st) = sv_passwords st"
  "sv_tasks (defer_task t st) = sv_tasks st @ [t]"
  by (simp_all add: defer_task_def)

lemma enter_room_fields [simp]:
  "sv_io (enter_room cf x r t st) = io_join (cf_io cf) (sv_io st) x r" "sv_sockets (enter_room cf x r t st) = sv_sockets st"
  "sv_modes (enter_room cf x r t st) = sv_modes st" "sv_passwords (enter_room cf x r t st) = sv_passwords st"
  "sv_tasks (enter_room cf x r t st) = sv_tasks st @ [t]"
  by (simp_all add: enter_room_def)

lemma announce_join_fst: "fst (announce_join cf aud x s r st) = fst (snd (reconcileMode cf r st))"
  by (simp add: announce_join_def split: prod.splits)

lemma reconcile_and_gc_fst: "fst (reconcile_and_gc cf r st) = gcRoomPassword cf r (fst (snd (reconcileMode cf r st)))"
  by (simp add: reconcile_and_gc_def split: prod.splits)

lemma roomSize_io: "sv_io st = sv_io st' \<Longrightarrow> roomSize cf r st = roomSize cf r st'"
  by (simp add: roomSize_def)

end
