(* ===== verification/SignalingProps.thy ===== *)
theory SignalingProps imports Signaling begin

text \<open>
  Properties of the signaling server: what a settled server remembers of its rooms, who gets
  into a protected room, and whom the relay reaches.
\<close>

section \<open>What a room owes\<close>

fun closes :: "string \<Rightarrow> task \<Rightarrow> bool" where
  "closes r (LeftRoom r') = (r' = r)"
| "closes r (ReconcileRoom r') = (r' = r)"
| "closes r _ = False"

fun opens :: "string \<Rightarrow> task \<Rightarrow> bool" where
  "opens r (JoinedRoom x s r') = (r' = r)"
| "opens r (CreatedRoom x s r') = (r' = r)"
| "opens r _ = False"

text \<open>
  A mode or a password is kept only for an occupied room, or a task that will drop it is
  pending; an occupied room has a mode, which is the SFU at the threshold, or a task that will
  set it is pending.
\<close>

definition room_ok :: "'a config \<Rightarrow> 'a server \<Rightarrow> string \<Rightarrow> bool" where
  "room_ok cf st r \<longleftrightarrow>
    (jm_has (sv_modes st) r \<or> jm_has (sv_passwords st) r \<longrightarrow>
       0 < roomSize cf r st \<or> (\<exists>t \<in> set (sv_tasks st). closes r t)) \<and>
    (0 < roomSize cf r st \<longrightarrow> (\<exists>t \<in> set (sv_tasks st). opens r t) \<or>
       (\<exists>m. jm_get (sv_modes st) r = Some m \<and> (cf_mesh_max cf \<le> int (roomSize cf r st) \<longrightarrow> m = Sfu)))"

definition server_ok :: "('a \<Rightarrow> bool) \<Rightarrow> 'a config \<Rightarrow> string set \<Rightarrow> 'a server \<Rightarrow> bool" where
  "server_ok good cf ids st \<longleftrightarrow> good (sv_io st) \<and> fst ` set (sv_sockets st) \<subseteq> ids \<and>
     (\<forall>x. Register x \<in> set (sv_tasks st) \<longrightarrow> x \<in> ids) \<and> (\<forall>r. r \<notin> ids \<longrightarrow> room_ok cf st r)"

lemma room_ok_tasks:
  assumes "room_ok cf st r" and "sv_io st' = sv_io st" "sv_modes st' = sv_modes st" "sv_passwords st' = sv_passwords st"
    and "\<And>t. t \<in> set (sv_tasks st) \<Longrightarrow> closes r t \<or> opens r t \<Longrightarrow> t \<in> set (sv_tasks st')"
  shows "room_ok cf st' r"
proof -
  have "roomSize cf r st' = roomSize cf r st" using assms(2) by (rule roomSize_io)
  with assms show ?thesis unfolding room_ok_def by metis
qed

lemma pick_task: "n < length ts \<Longrightarrow> set ts = insert (ts ! n) (set (take n ts @ drop (Suc n) ts))"
proof -
  assume "n < length ts"
  then have "ts = take n ts @ ts ! n # drop (Suc n) ts" by (rule id_take_nth_drop)
  then have "set ts = set (take n ts @ ts ! n # drop (Suc n) ts)" by (rule arg_cong)
  then show ?thesis by simp
qed

lemma fst_handled:
  "fst (handled x f st) = (case jm_get (sv_sockets st) x of None \<Rightarrow> st
     | Some s \<Rightarrow> if so_media s = None then st else fst (f s))"
  by (simp add: handled_def split: option.splits)

lemma socket_known: "jm_get (sv_sockets st) x = Some s \<Longrightarrow> fst ` set (sv_sockets st) \<subseteq> ids \<Longrightarrow> x \<in> ids"
  by (metis fst_conv image_eqI map_of_SomeD subsetD)

lemma keys_update: "fst ` set (AList.update k v m) = insert k (fst ` set m)"
  by (auto simp: dom_map_of_conv_image_fst [symmetric] update_conv')

lemma keys_delete: "fst ` set (AList.delete k m) \<subseteq> fst ` set m"
  by (auto simp: jm_set_del)

text \<open>Reconciling a room leaves nothing owed by it.\<close>

lemma room_ok_reconciled:
  assumes st': "sv_io st' = sv_io st" "sv_modes st' = sv_modes (fst (snd (reconcileMode cf r st)))"
    and pw: "roomSize cf r st = 0 \<Longrightarrow> jm_has (sv_passwords st') r \<Longrightarrow> \<exists>t \<in> set (sv_tasks st'). closes r t"
  shows "room_ok cf st' r"
proof -
  have "roomSize cf r st' = roomSize cf r st" using st'(1) by (rule roomSize_io)
  then show ?thesis using st'(2) pw reconcile_get [of cf r st r]
    by (auto simp: room_ok_def new_mode_def modeForSize_def)
qed

lemma room_ok_other:
  assumes "room_ok cf st r" and "r \<noteq> r'" and "sv_io st' = sv_io st"
    and "sv_modes st' = sv_modes (fst (snd (reconcileMode cf r' st)))"
    and "jm_get (sv_passwords st') r = jm_get (sv_passwords st) r" and "sv_tasks st' = sv_tasks st"
  shows "room_ok cf st' r"
proof -
  have "roomSize cf r st' = roomSize cf r st" using assms(3) by (rule roomSize_io)
  moreover have "jm_get (sv_modes st') r = jm_get (sv_modes st) r" using assms(2,4) reconcile_get [of cf r' st r] by simp
  ultimately show ?thesis using assms(1,5,6) unfolding room_ok_def by metis
qed

definition allowed :: "string set \<Rightarrow> event \<Rightarrow> bool" where
  "allowed ids e \<longleftrightarrow> (\<forall>x u. e = Connect x u \<longrightarrow> x \<in> ids)"

locale signaling = room_adapter "cf_io cf" good for cf :: "'a config" and good :: "'a \<Rightarrow> bool"
begin

lemma size_of_member: "0 < roomSize cf r st \<longleftrightarrow> set (members (cf_io cf) (sv_io st) r) \<noteq> {}"
  by (simp add: roomSize_def)

lemma enter_ok:
  assumes "good (sv_io st)" and "opens r t" and "\<And>r'. opens r' t \<Longrightarrow> r' = r"
    and "\<And>r'. r' \<noteq> r \<Longrightarrow> r' \<notin> ids \<Longrightarrow> room_ok cf st r'"
  shows "r' \<notin> ids \<Longrightarrow> room_ok cf (enter_room cf x r t st) r'"
proof (cases "r' = r")
  case True
  have "x \<in> set (members (cf_io cf) (io_join (cf_io cf) (sv_io st) x r) r)" using assms(1) by (simp add: set_join)
  then have "0 < roomSize cf r (enter_room cf x r t st)"
    unfolding roomSize_def by (auto simp: length_pos_if_in_set)
  with True assms(2) show ?thesis by (auto simp: room_ok_def)
next
  case False
  assume "r' \<notin> ids"
  with False have old: "room_ok cf st r'" using assms(4) by blast
  have "roomSize cf r' (enter_room cf x r t st) = roomSize cf r' st"
    using False assms(1) by (simp add: roomSize_def size_card set_join good_join)
  with old show ?thesis by (auto simp: room_ok_def)
qed

text \<open>Members only leave, and for each room left a task that reconciles it is pending.\<close>

lemma leave_ok:
  assumes "room_ok cf st r" and "good (sv_io st)" "good (sv_io st')"
    and io: "set (members (cf_io cf) (sv_io st') r) \<subseteq> set (members (cf_io cf) (sv_io st) r)"
    and same: "sv_modes st' = sv_modes st" "sv_passwords st' = sv_passwords st" "set (sv_tasks st) \<subseteq> set (sv_tasks st')"
    and new: "set (members (cf_io cf) (sv_io st') r) = set (members (cf_io cf) (sv_io st) r) \<or> (\<exists>t \<in> set (sv_tasks st'). closes r t)"
  shows "room_ok cf st' r"
proof -
  have le: "roomSize cf r st' \<le> roomSize cf r st"
    using assms(2,3) io by (simp add: roomSize_def size_card card_mono)
  have "roomSize cf r st' = roomSize cf r st \<or> (\<exists>t \<in> set (sv_tasks st'). closes r t)"
    using new assms(2,3) by (auto simp: roomSize_def size_card)
  with assms(1) le same show ?thesis unfolding room_ok_def by (smt (verit) le_less_trans not_le of_nat_le_iff order_less_le_trans subsetD)
qed

lemma server_ok_tasks:
  assumes "server_ok good cf ids st" and "sv_io st' = sv_io st" "sv_modes st' = sv_modes st" "sv_passwords st' = sv_passwords st"
    and "set (sv_tasks st') = set (sv_tasks st) \<union> T" and "\<And>x. Register x \<in> T \<Longrightarrow> x \<in> ids"
    and "fst ` set (sv_sockets st') \<subseteq> ids"
  shows "server_ok good cf ids st'"
  using assms room_ok_tasks [of cf st _ st'] unfolding server_ok_def by auto

lemma run_task_ok:
  assumes ok: "server_ok good cf ids st" and n: "n < length (sv_tasks st)"
  shows "server_ok good cf ids (fst (act cf (Run n) st))"
proof -
  let ?t = "sv_tasks st ! n"
  let ?st = "st\<lparr>sv_tasks := take n (sv_tasks st) @ drop (Suc n) (sv_tasks st)\<rparr>"
  have ts: "set (sv_tasks st) = insert ?t (set (sv_tasks ?st))" using pick_task [OF n] by simp
  have others: "room_ok cf ?st r" if "r \<notin> ids" "\<not> closes r ?t" "\<not> opens r ?t" for r
    by (rule room_ok_tasks [of cf st]) (use ok that ts in \<open>auto simp: server_ok_def\<close>)
  have keep: "good (sv_io ?st)" "fst ` set (sv_sockets ?st) \<subseteq> ids" "\<And>x. Register x \<in> set (sv_tasks ?st) \<Longrightarrow> x \<in> ids"
    using ok ts by (auto simp: server_ok_def)
  have gc: "server_ok good cf ids (fst (reconcile_and_gc cf r ?st))" if t: "closes r ?t" for r
  proof -
    have "room_ok cf (gcRoomPassword cf r (fst (snd (reconcileMode cf r ?st)))) r'" if "r' \<notin> ids" for r'
    proof (cases "r' = r")
      case True
      have "room_ok cf (gcRoomPassword cf r (fst (snd (reconcileMode cf r ?st)))) r"
        by (rule room_ok_reconciled [of _ ?st]) (simp_all add: gcRoomPassword_get roomSize_def)
      with True show ?thesis by simp
    next
      case False
      with t have "\<not> closes r' ?t" "\<not> opens r' ?t" by (cases ?t; simp)+
      from room_ok_other [OF others [OF that this] False] show ?thesis using False by (simp add: gcRoomPassword_get)
    qed
    with keep show ?thesis by (simp add: server_ok_def reconcile_and_gc_fst)
  qed
  have ann: "server_ok good cf ids (fst (announce_join cf aud x s r ?st))" if t: "opens r ?t" for aud x s r
  proof -
    have "room_ok cf (fst (snd (reconcileMode cf r ?st))) r'" if r': "r' \<notin> ids" for r'
    proof (cases "r' = r")
      case True
      have "\<exists>u \<in> set (sv_tasks ?st). closes r u" if z: "roomSize cf r st = 0" "jm_has (sv_passwords st) r"
      proof -
        have "room_ok cf st r" using ok r' True by (simp add: server_ok_def)
        then obtain u where "u \<in> set (sv_tasks st)" "closes r u" using z unfolding room_ok_def by (metis less_irrefl)
        moreover have "\<not> closes r ?t" using t by (cases ?t) auto
        ultimately show ?thesis using ts by auto
      qed
      then have "room_ok cf (fst (snd (reconcileMode cf r ?st))) r"
        by (intro room_ok_reconciled [of _ ?st]) (simp_all add: roomSize_def)
      with True show ?thesis by simp
    next
      case False
      with t have "\<not> closes r' ?t" "\<not> opens r' ?t" by (cases ?t; simp)+
      from room_ok_other [OF others [OF r' this] False] show ?thesis by simp
    qed
    with keep show ?thesis by (simp add: server_ok_def announce_join_fst)
  qed
  have "server_ok good cf ids (fst (run_task cf ?t ?st))"
  proof (cases ?t)
    case (Register x)
    have "x \<in> ids" using ok n Register by (metis nth_mem server_ok_def)
    moreover have "room_ok cf ?st r" if "r \<notin> ids" for r using others [OF that] Register by simp
    ultimately show ?thesis using keep Register
      by (auto simp: server_ok_def room_ok_def roomSize_def keys_update split: option.splits)
  next
    case Announce
    have "room_ok cf ?st r" if "r \<notin> ids" for r using others [OF that] Announce by simp
    with keep Announce show ?thesis by (simp add: server_ok_def)
  qed (use gc ann in \<open>auto split: prod.splits\<close>)
  with n show ?thesis by simp
qed

lemma enter_server_ok:
  assumes ok: "server_ok good cf ids st" and t: "opens r t" "\<And>r'. opens r' t \<Longrightarrow> r' = r"
    and st1: "sv_io st1 = sv_io st" "sv_sockets st1 = sv_sockets st" "sv_modes st1 = sv_modes st" "sv_tasks st1 = sv_tasks st"
    and pw: "\<And>r'. r' \<noteq> r \<Longrightarrow> jm_get (sv_passwords st1) r' = jm_get (sv_passwords st) r'"
  shows "server_ok good cf ids (enter_room cf x r t st1)"
proof -
  have other: "room_ok cf st1 r'" if "r' \<noteq> r" "r' \<notin> ids" for r'
    using ok that st1 pw [OF that(1)] roomSize_io [OF st1(1), of cf r'] unfolding server_ok_def room_ok_def by metis
  have g: "good (sv_io st1)" using ok st1 by (simp add: server_ok_def)
  have "room_ok cf (enter_room cf x r t st1) r'" if "r' \<notin> ids" for r'
    by (rule enter_ok [OF g t other that])
  moreover have "Register y \<noteq> t" for y using t(1) by (cases t) simp_all
  moreover have "good (io_join (cf_io cf) (sv_io st1) x r)" using g by (rule good_join)
  ultimately show ?thesis using ok unfolding server_ok_def by (simp add: st1)
qed

lemma disconnect_ok: "server_ok good cf ids st \<Longrightarrow> x \<in> ids \<Longrightarrow> server_ok good cf ids (fst (on_disconnect cf x st))"
proof -
  assume ok: "server_ok good cf ids st" and x: "x \<in> ids"
  let ?st' = "fst (on_disconnect cf x st)"
  have g: "good (sv_io st)" using ok by (simp add: server_ok_def)
  have st': "sv_io ?st' = io_drop (cf_io cf) (sv_io st) x" "sv_sockets ?st' = jm_del (sv_sockets st) x"
    "sv_modes ?st' = sv_modes st" "sv_passwords ?st' = sv_passwords st"
    "set (sv_tasks ?st') = set (sv_tasks st) \<union> ReconcileRoom ` {r. r \<noteq> x \<and> x \<in> set (members (cf_io cf) (sv_io st) r)} \<union> {Announce}"
    using g by (auto simp: on_disconnect_def Let_def set_of)
  have "room_ok cf ?st' r" if r: "r \<notin> ids" for r
  proof (rule leave_ok [of st])
    show "room_ok cf st r" using ok r by (simp add: server_ok_def)
    have "r \<noteq> x" using r x by blast
    show "set (members (cf_io cf) (sv_io ?st') r) = set (members (cf_io cf) (sv_io st) r) \<or> (\<exists>t \<in> set (sv_tasks ?st'). closes r t)"
    proof (cases "x \<in> set (members (cf_io cf) (sv_io st) r)")
      case True
      with \<open>r \<noteq> x\<close> have "ReconcileRoom r \<in> set (sv_tasks ?st')" unfolding st' by blast
      then show ?thesis by force
    qed (use g in \<open>simp add: st' set_drop\<close>)
  qed (use g in \<open>auto simp: st' set_drop good_drop\<close>)
  moreover have "fst ` set (sv_sockets ?st') \<subseteq> ids"
    unfolding st'(2) by (rule subset_trans [OF keys_delete]) (use ok in \<open>simp add: server_ok_def\<close>)
  moreover have "good (sv_io ?st')" using g unfolding st' by (rule good_drop)
  moreover have "Register y \<in> set (sv_tasks st)" if "Register y \<in> set (sv_tasks ?st')" for y
    using that unfolding st'(5) by (elim UnE) auto
  ultimately show ?thesis using ok unfolding server_ok_def by metis
qed

lemma leave_server_ok: "server_ok good cf ids st \<Longrightarrow> server_ok good cf ids (fst (on_leave_room cf x raw st))"
proof -
  assume ok: "server_ok good cf ids st"
  have g: "good (sv_io st)" using ok by (simp add: server_ok_def)
  have announce: "server_ok good cf ids (defer_task Announce st)"
    by (rule server_ok_tasks [OF ok, of _ "{Announce}"]) (use ok in \<open>auto simp: server_ok_def\<close>)
  let ?l = "\<lambda>r. defer_task (LeftRoom r) (st\<lparr>sv_io := io_leave (cf_io cf) (sv_io st) x r\<rparr>)"
  have left: "server_ok good cf ids (?l r)" for r
  proof -
    have "room_ok cf (?l r) r'" if "r' \<notin> ids" for r'
      by (rule leave_ok [of st]) (use ok that g in \<open>auto simp: server_ok_def set_leave good_leave\<close>)
    with ok g show ?thesis by (auto simp: server_ok_def good_leave)
  qed
  show ?thesis using ok announce left by (auto simp: on_leave_room_def split: option.splits)
qed

lemma connect_ok: "server_ok good cf ids st \<Longrightarrow> x \<in> ids \<Longrightarrow> server_ok good cf ids (on_connection cf x u st)"
proof -
  assume ok: "server_ok good cf ids st" and x: "x \<in> ids"
  have "room_ok cf (on_connection cf x u st) r" if r: "r \<notin> ids" for r
  proof -
    have "r \<noteq> x" "room_ok cf st r" using r x ok by (auto simp: server_ok_def)
    moreover have "roomSize cf r (on_connection cf x u st) = roomSize cf r st"
      using \<open>r \<noteq> x\<close> ok by (simp add: on_connection_def roomSize_def size_card set_join good_join server_ok_def)
    ultimately show ?thesis by (auto simp: room_ok_def on_connection_def)
  qed
  with ok x show ?thesis by (auto simp: server_ok_def on_connection_def good_join keys_update)
qed

lemma act_ok: "server_ok good cf ids st \<Longrightarrow> allowed ids e \<Longrightarrow> server_ok good cf ids (fst (act cf e st))"
proof -
  assume ok: "server_ok good cf ids st" and e: "allowed ids e"
  note known = ok [unfolded server_ok_def, THEN conjunct2, THEN conjunct1]
  have handled: "server_ok good cf ids (fst (handled x f st))"
    if "\<And>s. jm_get (sv_sockets st) x = Some s \<Longrightarrow> server_ok good cf ids (fst (f s))" for x f
    using that ok by (auto simp: fst_handled split: option.splits)
  have enter: "server_ok good cf ids (enter_room cf x r (JoinedRoom x s r) st)" for x s r
    by (rule enter_server_ok [OF ok]) simp_all
  have create: "server_ok good cf ids (enter_room cf x r (CreatedRoom x s r) (setRoomPassword r p st))"
    "server_ok good cf ids (enter_room cf x r (CreatedRoom x s r) st)" for x s r p
    by (rule enter_server_ok [OF ok]; simp add: setRoomPassword_get)+
  show ?thesis
  proof (cases e)
    case (Connect x u)
    with e have "x \<in> ids" by (simp add: allowed_def)
    with Connect ok show ?thesis by (simp add: connect_ok)
  next
    case (Join x raw)
    have "server_ok good cf ids (fst (on_join_room cf x s raw st))" for s
      using ok enter by (simp add: on_join_room_def split: option.splits prod.splits)
    with Join show ?thesis by (simp add: handled)
  next
    case (Create x raw)
    have "server_ok good cf ids (fst (on_create_room cf x s raw st))" for s
      using ok create by (simp add: on_create_room_def Let_def split: option.splits)
    with Create show ?thesis by (simp add: handled)
  next
    case (Media x raw)
    have "server_ok good cf ids (st\<lparr>sv_sockets := jm_set (sv_sockets st) x s\<rparr>)" if "x \<in> ids" for s
      by (rule server_ok_tasks [OF ok, of _ "{}"]) (use that known in \<open>auto simp: keys_update\<close>)
    then have "server_ok good cf ids (fst (on_media_state cf x s raw st))" if "jm_get (sv_sockets st) x = Some s" for s
      using ok socket_known [OF that known] by (simp add: on_media_state_def Let_def split: option.splits)
    with Media show ?thesis by (simp add: handled)
  next
    case (Leave x raw)
    with ok show ?thesis by (simp add: handled leave_server_ok)
  next
    case (Disconnect x)
    have "x \<in> ids" if "jm_has (sv_sockets st) x" using that socket_known [OF _ known] by auto
    with Disconnect ok show ?thesis by (simp add: disconnect_ok)
  next
    case (Run n)
    with ok show ?thesis using run_task_ok [OF ok, of n] by (cases "n < length (sv_tasks st)") simp_all
  qed (use ok handled in simp_all)
qed

lemma serve_ok: "server_ok good cf ids st \<Longrightarrow> \<forall>e \<in> set es. allowed ids e \<Longrightarrow> server_ok good cf ids (serve cf es st)"
  unfolding serve_def by (induction es arbitrary: st) (simp_all add: act_ok)

lemma new_server_ok: "good a \<Longrightarrow> (\<And>r. members (cf_io cf) a r = []) \<Longrightarrow> server_ok good cf ids (new_server a)"
  by (simp add: server_ok_def room_ok_def new_server_def roomSize_def)

end

section \<open>A running server\<close>

definition demo_cf :: "(string, string list) jmap config" where
  "demo_cf = \<lparr>cf_io = mem_io, cf_parse = zparse, cf_mesh_max = MESH_MAX_of None\<rparr>"

interpretation demo: signaling demo_cf mem_good
  by (simp add: signaling_def demo_cf_def mem.room_adapter_axioms)

lemma mem_empty: "mem_good []" "members mem_io [] r = []"
  by (simp_all add: mem_good_def members_mem)

lemma run_task_left: "fst (run_task cf (LeftRoom r) st) = fst (reconcile_and_gc cf r st)"
  by (simp split: prod.splits)

lemma run_task_tasks: "sv_tasks (fst (run_task cf t st)) = sv_tasks st"
  by (cases t) (auto simp: run_task_left announce_join_fst reconcile_and_gc_fst simp del: run_task.simps(4) split: option.splits)

lemma run_task_io: "sv_io (fst (run_task cf t st)) = sv_io st"
  by (cases t) (auto simp: run_task_left announce_join_fst reconcile_and_gc_fst simp del: run_task.simps(4) split: option.splits)

lemma run_first: "sv_tasks (fst (act cf (Run 0) st)) = tl (sv_tasks st)"
  by (cases "sv_tasks st") (simp_all add: run_task_tasks)

lemma serve_simps [simp]: "serve cf [] st = st" "serve cf (e # es) st = serve cf es (fst (act cf e st))"
  by (simp_all add: serve_def)

lemma serve_append: "serve cf (es @ fs) st = serve cf fs (serve cf es st)"
  by (simp add: serve_def)

lemma run_all: "sv_tasks (serve cf (replicate (length (sv_tasks st)) (Run 0)) st) = []"
proof (induction "sv_tasks st" arbitrary: st)
  case (Cons t ts)
  then have "sv_tasks (fst (act cf (Run 0) st)) = ts" using run_first [of cf st] by (metis list.sel(3))
  with Cons.hyps(1) [of "fst (act cf (Run 0) st)"] Cons.hyps(2) [symmetric] show ?case by simp
qed simp

text \<open>
  C26. Whatever the events and their order, once the pending tasks have run (each takes one
  turn) nothing is pending; then every room that is not the private room of a socket has a mode
  exactly when it is occupied, keeps a password only while it is occupied, and is in SFU mode
  when its size is at the threshold or above.
\<close>

theorem rooms_settle:
  fixes es :: "event list"
  assumes "room_adapter (cf_io cf) good" and "good a" and "\<forall>r. members (cf_io cf) a r = []"
    and "\<forall>u. Connect r u \<notin> set es"
  defines "st1 \<equiv> serve cf es (new_server a)"
  defines "st2 \<equiv> serve cf (replicate (length (sv_tasks st1)) (Run 0)) st1"
  shows "sv_tasks st2 = [] \<and> (jm_has (sv_modes st2) r \<longleftrightarrow> 0 < roomSize cf r st2)
    \<and> (jm_has (sv_passwords st2) r \<longrightarrow> 0 < roomSize cf r st2)
    \<and> (0 < roomSize cf r st2 \<and> cf_mesh_max cf \<le> int (roomSize cf r st2) \<longrightarrow> currentMode r st2 = Sfu)"
proof -
  have sg: "signaling cf good" using assms(1) by (simp add: signaling_def)
  define ids where "ids = {x. x \<noteq> r}"
  define es' where "es' = es @ replicate (length (sv_tasks st1)) (Run 0)"
  have st2: "st2 = serve cf es' (new_server a)" by (simp add: st2_def st1_def es'_def serve_append)
  have "\<forall>e \<in> set es'. allowed ids e" using assms(4) by (auto simp: es'_def allowed_def ids_def)
  then have ok: "server_ok good cf ids st2"
    unfolding st2 by (intro signaling.serve_ok [OF sg] signaling.new_server_ok [OF sg]) (use assms(2,3) in simp_all)
  have none: "sv_tasks st2 = []" unfolding st2_def by (rule run_all)
  have "room_ok cf st2 r" using ok by (simp add: server_ok_def ids_def)
  with none have A: "jm_has (sv_modes st2) r \<or> jm_has (sv_passwords st2) r \<Longrightarrow> 0 < roomSize cf r st2"
    and B: "0 < roomSize cf r st2 \<Longrightarrow> \<exists>m. jm_get (sv_modes st2) r = Some m \<and> (cf_mesh_max cf \<le> int (roomSize cf r st2) \<longrightarrow> m = Sfu)"
    unfolding room_ok_def by (metis empty_iff empty_set)+
  have "jm_has (sv_modes st2) r \<longleftrightarrow> 0 < roomSize cf r st2" using A B by auto
  moreover have "currentMode r st2 = Sfu" if "0 < roomSize cf r st2 \<and> cf_mesh_max cf \<le> int (roomSize cf r st2)"
    using B that by (auto simp: currentMode_def)
  ultimately show ?thesis using none A by blast
qed

text \<open>A room with four members, where the last to come turns it to the SFU.\<close>

definition demo_events :: "event list" where
  "demo_events = map (\<lambda>x. Connect x None) [''a'', ''b'', ''c'', ''d''] @ replicate 4 (Run 0)
     @ map (\<lambda>x. Join x (Some (JStr ''r''))) [''a'', ''b'', ''c'', ''d'']"

theorem rooms_settle_witness:
  "currentMode ''r'' (serve demo_cf (replicate (length (sv_tasks (serve demo_cf demo_events (new_server [])))) (Run 0))
      (serve demo_cf demo_events (new_server []))) = Sfu"
proof -
  have ad: "room_adapter (cf_io demo_cf) mem_good" by (simp add: demo_cf_def mem.room_adapter_axioms)
  have em: "mem_good []" "\<forall>r. members (cf_io demo_cf) [] r = []" by (simp_all add: mem_empty demo_cf_def)
  have nc: "\<forall>u. Connect ''r'' u \<notin> set demo_events" by (simp add: demo_events_def)
  have "roomSize demo_cf ''r'' (serve demo_cf (replicate (length (sv_tasks (serve demo_cf demo_events (new_server [])))) (Run 0))
      (serve demo_cf demo_events (new_server []))) = 4" "cf_mesh_max demo_cf = 4"
    by code_simp+
  with rooms_settle [OF ad em nc] show ?thesis by simp
qed

section \<open>Who gets into a room\<close>

lemma entered:
  fixes st :: "'a server" and e :: event
  assumes "room_adapter (cf_io cf) good" and "good (sv_io st)"
    and "y \<notin> set (members (cf_io cf) (sv_io st) r)" and "y \<in> set (members (cf_io cf) (sv_io (fst (act cf e st))) r)"
  shows "(\<exists>raw data. e = Join y raw \<and> cf_parse cf JoinRoomPayload raw = Some data \<and> fst (join_target data) = r \<and>
        (jm_get (sv_passwords st) r = None \<or> jm_get (sv_passwords st) r = snd (join_target data)))
    \<or> (\<exists>raw data. e = Create y raw \<and> cf_parse cf CreateRoomPayload raw = Some data \<and> str_of (jget data ''roomName'') = r)
    \<or> (\<exists>u. e = Connect y u \<and> r = y)"
proof -
  note ad = room_adapter.set_simps [OF assms(1)]
  have moved: "sv_io (fst (act cf e st)) \<noteq> sv_io st" using assms(3,4) by auto
  show ?thesis
  proof (cases e)
    case (Connect x u)
    with assms ad show ?thesis by (auto simp: on_connection_def split: if_splits)
  next
    case (Join x raw)
    with moved obtain s data where d: "cf_parse cf JoinRoomPayload raw = Some data"
      "checkRoomPassword (fst (join_target data)) (snd (join_target data)) st"
      "sv_io (fst (act cf e st)) = io_join (cf_io cf) (sv_io st) x (fst (join_target data))"
      by (auto simp: fst_handled on_join_room_def split: option.splits if_splits prod.splits)
    with assms ad have "x = y" "fst (join_target data) = r" by (auto split: if_splits)
    with d Join show ?thesis by (auto simp: checkRoomPassword_def split: if_splits)
  next
    case (Create x raw)
    with moved obtain s data where d: "cf_parse cf CreateRoomPayload raw = Some data"
      "sv_io (fst (act cf e st)) = io_join (cf_io cf) (sv_io st) x (str_of (jget data ''roomName''))"
      by (auto simp: fst_handled on_create_room_def Let_def split: option.splits if_splits)
    with assms ad have "x = y" "str_of (jget data ''roomName'') = r" by (auto split: if_splits)
    with d Create show ?thesis by blast
  next
    case (Leave x raw)
    with assms ad show ?thesis
      by (auto simp: fst_handled on_leave_room_def split: option.splits if_splits)
  next
    case (Disconnect x)
    with assms ad show ?thesis by (auto simp: on_disconnect_def Let_def split: if_splits)
  next
    case (Media x raw)
    with moved show ?thesis by (auto simp: fst_handled on_media_state_def Let_def split: option.splits if_splits)
  next
    case (Run n)
    with moved show ?thesis by (auto simp: run_task_io split: if_splits)
  qed (use moved in \<open>auto simp: fst_handled split: option.splits if_splits\<close>)
qed

text \<open>
  C4. A socket becomes a member of a room only by its own \<open>join room\<close> message for that room that
  presents the room's password exactly, if it has one, by its own \<open>create room\<close> message for that
  room, or as the room of its own identifier when it connects; and a \<open>join room\<close> with another
  password changes nothing and is answered with the error alone.
\<close>

theorem password_gates_join:
  fixes st :: "'a server" and e :: event
  assumes "room_adapter (cf_io cf) good" and "good (sv_io st)"
    and "y \<notin> set (members (cf_io cf) (sv_io st) r)" and "y \<in> set (members (cf_io cf) (sv_io (fst (act cf e st))) r)"
  shows "(\<exists>raw data. e = Join y raw \<and> cf_parse cf JoinRoomPayload raw = Some data \<and> fst (join_target data) = r \<and>
        (jm_get (sv_passwords st) r = None \<or> jm_get (sv_passwords st) r = snd (join_target data)))
    \<or> (\<exists>raw data. e = Create y raw \<and> cf_parse cf CreateRoomPayload raw = Some data \<and> str_of (jget data ''roomName'') = r)
    \<or> (\<exists>u. e = Connect y u \<and> r = y)"
  using assms by (rule entered)

text \<open>A protected room \<open>r\<close> made by \<open>a\<close>, with \<open>b\<close> and \<open>c\<close> connected.\<close>

definition create_msg :: "string \<Rightarrow> string \<Rightarrow> jsval" where
  "create_msg r p = Some (JObj [(''roomName'', JStr r), (''password'', JStr p)])"

definition demo_protected :: "(string, string list) jmap server" where
  "demo_protected = serve demo_cf (map (\<lambda>x. Connect x None) [''a'', ''b'', ''c''] @ replicate 3 (Run 0)
     @ [Create ''a'' (create_msg ''r'' ''secret''), Run 0]) (new_server [])"

lemma demo_good: "mem_good (sv_io demo_protected)"
proof -
  have "server_ok mem_good demo_cf UNIV demo_protected"
    unfolding demo_protected_def
    by (intro demo.serve_ok demo.new_server_ok) (simp_all add: mem_empty demo_cf_def allowed_def)
  then show ?thesis by (simp add: server_ok_def)
qed

lemma members_demo: "members (cf_io demo_cf) a r = (case map_of a r of None \<Rightarrow> [] | Some ms \<Rightarrow> ms)"
  by (simp add: demo_cf_def members_mem)

theorem password_gates_join_witness:
  "snd (join_target (Some (JObj [(''roomName'', JStr ''r''), (''password'', JStr ''secret'')]))) = Some ''secret''"
proof -
  let ?e = "Join ''b'' (create_msg ''r'' ''secret'')"
  have ad: "room_adapter (cf_io demo_cf) mem_good" by (simp add: demo_cf_def mem.room_adapter_axioms)
  have "''b'' \<notin> set (members (cf_io demo_cf) (sv_io demo_protected) ''r'')"
    "''b'' \<in> set (members (cf_io demo_cf) (sv_io (fst (act demo_cf ?e demo_protected))) ''r'')"
    "jm_get (sv_passwords demo_protected) ''r'' = Some ''secret''"
    "cf_parse demo_cf JoinRoomPayload (create_msg ''r'' ''secret'') = Some (create_msg ''r'' ''secret'')"
    unfolding members_demo by code_simp+
  with password_gates_join [OF ad demo_good, of "''b''" "''r''" ?e] show ?thesis
    by (auto simp: create_msg_def)
qed

text \<open>
  A \<open>join room\<close> message for a protected room with any other password, or none, leaves the
  whole state of the server as it was, and the sender gets the error and nothing else.
\<close>

theorem wrong_password_rejected:
  assumes "jm_get (sv_sockets st) x = Some s" and "so_media s \<noteq> None"
    and "cf_parse cf JoinRoomPayload raw = Some data" and "join_target data = (r, given)"
    and "jm_get (sv_passwords st) r = Some p" and "given \<noteq> Some p"
  shows "act cf (Join x raw) st =
    (st, [Emit (ToSocket x) ''join room error'' (Plain (JObj [(''message'', JStr ''Incorrect password'')]))])"
  using assms by (auto simp: handled_def on_join_room_def checkRoomPassword_def)

lemma demo_facts:
  "jm_get (sv_sockets demo_protected) ''c'' = Some \<lparr>so_username = None, so_media = Some (True, True)\<rparr>"
  "jm_get (sv_passwords demo_protected) ''r'' = Some ''secret''"
  "cf_parse demo_cf JoinRoomPayload (create_msg ''r'' ''guess'') = Some (create_msg ''r'' ''guess'')"
  "join_target (create_msg ''r'' ''guess'') = (''r'', Some ''guess'')"
  by code_simp+

theorem wrong_password_rejected_witness:
  "fst (act demo_cf (Join ''c'' (create_msg ''r'' ''guess'')) demo_protected) = demo_protected"
  using wrong_password_rejected [OF demo_facts(1) _ demo_facts(3,4,2)] by simp

text \<open>
  The password does not hold against \<open>create room\<close>: a socket that does not know it sends
  \<open>create room\<close> for the protected room with a password of its own; it is a member at once, its
  password replaces the old one, and the password the creator handed out is refused afterwards.
\<close>

theorem create_room_overrides_password:
  "(let st = fst (act demo_cf (Create ''b'' (create_msg ''r'' ''mine'')) demo_protected) in
    jm_get (sv_passwords demo_protected) ''r'' = Some ''secret''
    \<and> members (cf_io demo_cf) (sv_io demo_protected) ''r'' = [''a'']
    \<and> members (cf_io demo_cf) (sv_io st) ''r'' = [''a'', ''b'']
    \<and> jm_get (sv_passwords st) ''r'' = Some ''mine''
    \<and> snd (act demo_cf (Join ''c'' (create_msg ''r'' ''secret'')) st)
        = [Emit (ToSocket ''c'') ''join room error'' (Plain (JObj [(''message'', JStr ''Incorrect password'')]))])"
  unfolding members_demo by code_simp

section \<open>Whom the relay reaches\<close>

text \<open>
  C27. The relay of chat messages and public keys sends at most one message. It goes to the socket the payload names in its field
  \<open>to\<close>, which is connected, and only when that socket and the sender are both members of a room that is not the
  sender's private one; it carries the sender's own identifier, for a chat message the name the server
  has for the sender, and for the rest the fields of the payload unchanged: the public key, or the
  identifier, vector and ciphertext of the chat message.
\<close>

theorem relay_needs_shared_room:
  fixes st :: "'a server"
  assumes "room_adapter (cf_io cf) good" and "good (sv_io st)"
    and "m \<in> set (snd (act cf e st))" and "e = Pubkey x raw \<or> e = Chat now x raw"
  shows "snd (act cf e st) = [m] \<and> (\<exists>data target name kvs.
    cf_parse cf (case e of Pubkey _ _ \<Rightarrow> PubkeyExchangePayload | _ \<Rightarrow> ChatRelayPayload) raw = Some data
    \<and> target = str_of (jget data ''to'') \<and> m = Emit (ToSocket target) name (Plain (JObj kvs))
    \<and> (e = Pubkey x raw \<longrightarrow> name = ''peer-pubkey'' \<and> map_of kvs ''from'' = Some (JStr x) \<and> map_of kvs ''pubKey'' = jget data ''pubKey'')
    \<and> (e = Chat now x raw \<longrightarrow> name = ''chat message'' \<and> map_of kvs ''id'' = Some (JStr x)
         \<and> map_of kvs ''username'' = Option.bind (jm_get (sv_sockets st) x) so_username
         \<and> map_of kvs ''msgId'' = jget data ''msgId'' \<and> map_of kvs ''iv'' = jget data ''iv'' \<and> map_of kvs ''ct'' = jget data ''ct'')
    \<and> jm_has (sv_sockets st) target
    \<and> (\<exists>r. r \<noteq> x \<and> x \<in> set (members (cf_io cf) (sv_io st) r) \<and> target \<in> set (members (cf_io cf) (sv_io st) r)))"
proof -
  have shared: "jm_has (sv_sockets st) t \<and>
      (\<exists>r. r \<noteq> x \<and> x \<in> set (members (cf_io cf) (sv_io st) r) \<and> t \<in> set (members (cf_io cf) (sv_io st) r))"
    if "shareRoom cf x t st" for t
    using that room_adapter.set_of [OF assms(1,2)] by (auto simp: shareRoom_def list_ex_iff split: if_splits)
  show ?thesis
  proof (cases "e = Pubkey x raw")
    case True
    obtain data where d: "cf_parse cf PubkeyExchangePayload raw = Some data" "shareRoom cf x (str_of (jget data ''to'')) st"
      "snd (act cf e st) = [m]" "m = Emit (ToSocket (str_of (jget data ''to''))) ''peer-pubkey''
         (Plain (JObj ((''from'', JStr x) # field ''pubKey'' (jget data ''pubKey''))))"
      using assms(3) unfolding True by (auto simp: handled_def on_pubkey_def split: option.splits if_splits)
    from shared [OF d(2)] d(1,3) show ?thesis
      unfolding True d(4) by (auto simp: field_def split: option.split)
  next
    case False
    with assms(4) have e: "e = Chat now x raw" by simp
    obtain s data where d: "jm_get (sv_sockets st) x = Some s" "cf_parse cf ChatRelayPayload raw = Some data"
      "shareRoom cf x (str_of (jget data ''to'')) st" "snd (act cf e st) = [m]"
      "m = Emit (ToSocket (str_of (jget data ''to''))) ''chat message''
               (Plain (JObj (field ''msgId'' (jget data ''msgId'') @ [(''id'', JStr x)] @ field ''username'' (so_username s)
                  @ field ''iv'' (jget data ''iv'') @ field ''ct'' (jget data ''ct'')
                  @ [(''ts'', case jget data ''ts'' of Some (JNum t) \<Rightarrow> JNum t | _ \<Rightarrow> JNum now)])))"
      using assms(3) unfolding e by (auto simp: handled_def on_chat_def split: option.splits if_splits)
    from shared [OF d(3)] d(1,2,4) show ?thesis
      unfolding e d(5) by (auto simp: field_def split: option.split)
  qed
qed

text \<open>Both in a room, and one writes to the other.\<close>

definition demo_chat :: "string \<Rightarrow> jsval" where
  "demo_chat t = Some (JObj [(''to'', JStr t), (''msgId'', JStr ''m''), (''iv'', JStr ''i''), (''ct'', JStr ''c'')])"

definition demo_pair :: "(string, string list) jmap server" where
  "demo_pair = serve demo_cf [Connect ''a'' None, Connect ''b'' None, Run 0, Run 0,
     Join ''a'' (Some (JStr ''r'')), Join ''b'' (Some (JStr ''r''))] (new_server [])"

definition demo_message :: emission where
  "demo_message = Emit (ToSocket ''b'') ''chat message''
     (Plain (JObj [(''msgId'', JStr ''m''), (''id'', JStr ''a''), (''iv'', JStr ''i''), (''ct'', JStr ''c''), (''ts'', JNum 5)]))"

theorem relay_needs_shared_room_witness:
  "snd (act demo_cf (Chat 5 ''a'' (demo_chat ''b'')) demo_pair) = [demo_message]"
proof -
  have ad: "room_adapter (cf_io demo_cf) mem_good" by (simp add: demo_cf_def mem.room_adapter_axioms)
  have "server_ok mem_good demo_cf UNIV demo_pair"
    unfolding demo_pair_def by (intro demo.serve_ok demo.new_server_ok) (simp_all add: mem_empty demo_cf_def allowed_def)
  then have g: "mem_good (sv_io demo_pair)" by (simp add: server_ok_def)
  have "demo_message \<in> set (snd (act demo_cf (Chat 5 ''a'' (demo_chat ''b'')) demo_pair))" by code_simp
  from relay_needs_shared_room [OF ad g this, of "''a''"] show ?thesis by simp
qed

text \<open>
  The gate can be opened from outside: \<open>b\<close> shares no room with \<open>a\<close>, joins the room named by
  the identifier of \<open>a\<close>'s socket, which is nobody's but has no password, and from then on its
  messages are relayed to \<open>a\<close>.
\<close>

theorem private_room_opens_relay:
  "(let st = serve demo_cf [Connect ''a'' None, Connect ''b'' None, Run 0, Run 0] (new_server []);
        st' = fst (act demo_cf (Join ''b'' (Some (JStr ''a''))) st) in
    snd (act demo_cf (Chat 5 ''b'' (demo_chat ''a'')) st) = []
    \<and> snd (act demo_cf (Chat 5 ''b'' (demo_chat ''a'')) st') = [Emit (ToSocket ''a'') ''chat message''
        (Plain (JObj [(''msgId'', JStr ''m''), (''id'', JStr ''b''), (''iv'', JStr ''i''), (''ct'', JStr ''c''), (''ts'', JNum 5)]))])"
  by code_simp

end
