(* ===== verification/RoomRefinement.thy ===== *)
theory RoomRefinement imports SignalingProps begin

text \<open>
  The signaling server against its clients and its users: which names can occur whatever the
  clients send, and the mode of a room as a refinement of an abstract room.
\<close>

section \<open>Names\<close>

definition name_ok :: "string \<Rightarrow> bool" where
  "name_ok r \<longleftrightarrow> 1 \<le> length r \<and> length r \<le> 128"

definition names_ok :: "'a config \<Rightarrow> string set \<Rightarrow> 'a server \<Rightarrow> bool" where
  "names_ok cf ids st \<longleftrightarrow> (\<forall>r. r \<notin> ids \<longrightarrow> set (members (cf_io cf) (sv_io st) r) \<noteq> {} \<longrightarrow> name_ok r) \<and>
     (\<forall>r p. jm_get (sv_passwords st) r = Some p \<longrightarrow> name_ok r \<and> name_ok p)"

lemma join_target_ok:
  "schema_parser parse \<Longrightarrow> parse JoinRoomPayload raw = Some data \<Longrightarrow> name_ok (fst (join_target data))"
  using schema_parser.parse_join_string [of parse raw] schema_parser.parse_join_object [of parse raw data]
  by (cases "is_str data"; cases data rule: is_str.cases) (auto simp: join_target_def name_ok_def)

text \<open>A password is new only through \<open>create room\<close>.\<close>

lemma run_task_passwords:
  "jm_get (sv_passwords (fst (run_task cf t st))) r = Some p \<Longrightarrow> jm_get (sv_passwords st) r = Some p"
  by (cases t) (auto simp: run_task_left announce_join_fst reconcile_and_gc_fst gcRoomPassword_get
    simp del: run_task.simps(4) split: option.splits if_splits)

lemma new_password:
  assumes "jm_get (sv_passwords (fst (act cf e st))) r = Some p" and "jm_get (sv_passwords st) r \<noteq> Some p"
  shows "\<exists>x raw data. e = Create x raw \<and> cf_parse cf CreateRoomPayload raw = Some data \<and> str_of (jget data ''roomName'') = r
    \<and> (\<exists>q. opt_str (jget data ''password'') = Some q \<and> p = trim q \<and> p \<noteq> [])"
proof (cases e)
  case (Create x raw)
  with assms show ?thesis
    by (auto simp: fst_handled on_create_room_def Let_def setRoomPassword_get split: option.splits if_splits)
next
  case (Run n)
  with assms show ?thesis by (auto dest: run_task_passwords split: if_splits)
qed (use assms in \<open>auto simp: fst_handled on_connection_def on_join_room_def on_media_state_def on_leave_room_def on_disconnect_def Let_def
    split: option.splits if_splits prod.splits\<close>)

lemma names_ok_act:
  assumes ad: "room_adapter (cf_io cf) good" and zod: "schema_parser (cf_parse cf)" and g: "good (sv_io st)"
    and ok: "names_ok cf ids st" and e: "allowed ids e"
  shows "names_ok cf ids (fst (act cf e st))"
  unfolding names_ok_def
proof (intro conjI allI impI)
  fix r assume r: "r \<notin> ids" and occ: "set (members (cf_io cf) (sv_io (fst (act cf e st))) r) \<noteq> {}"
  from occ obtain y where y: "y \<in> set (members (cf_io cf) (sv_io (fst (act cf e st))) r)"
    by (meson ex_in_conv)
  show "name_ok r"
  proof (cases "y \<in> set (members (cf_io cf) (sv_io st) r)")
    case True
    with ok r show ?thesis by (auto simp: names_ok_def)
  next
    case False
    from entered [OF ad g this y] e r show ?thesis
      using join_target_ok [OF zod] schema_parser.parse_create [OF zod] by (auto simp: allowed_def name_ok_def)
  qed
next
  fix r p assume p: "jm_get (sv_passwords (fst (act cf e st))) r = Some p"
  have "name_ok r \<and> name_ok p"
  proof (cases "jm_get (sv_passwords st) r = Some p")
    case True
    with ok show ?thesis by (simp add: names_ok_def)
  next
    case False
    from new_password [OF p this] obtain data raw q where d: "cf_parse cf CreateRoomPayload raw = Some data"
      "str_of (jget data ''roomName'') = r" "opt_str (jget data ''password'') = Some q" "p = trim q" "p \<noteq> []" by blast
    from schema_parser.parse_create [OF zod d(1)] d trim_length [of q] show ?thesis
      by (simp add: name_ok_def Suc_le_eq)
  qed
  then show "name_ok r" "name_ok p" by blast+
qed

text \<open>
  C36. Whatever the clients send, every occupied room that is not the private room of a socket
  has a name of 1 to 128 characters, and so has every room with a password; the password itself
  has 1 to 128 characters.
\<close>

theorem names_in_range:
  assumes "room_adapter (cf_io cf) good" and "schema_parser (cf_parse cf)"
    and "good a" and "\<forall>r. members (cf_io cf) a r = []" and "\<forall>u. Connect r u \<notin> set es"
  defines "st \<equiv> serve cf es (new_server a)"
  shows "(members (cf_io cf) (sv_io st) r = [] \<or> 1 \<le> length r \<and> length r \<le> 128) \<and>
    (case jm_get (sv_passwords st) r of None \<Rightarrow> True
      | Some p \<Rightarrow> 1 \<le> length r \<and> length r \<le> 128 \<and> 1 \<le> length p \<and> length p \<le> 128)"
proof -
  have sg: "signaling cf good" using assms(1) by (simp add: signaling_def)
  define ids where "ids = {x. x \<noteq> r}"
  have al: "\<forall>e \<in> set es. allowed ids e" using assms(5) by (auto simp: allowed_def ids_def)
  have "names_ok cf ids (new_server a)" using assms(4) by (simp add: names_ok_def new_server_def)
  moreover have "server_ok good cf ids (new_server a)" using signaling.new_server_ok [OF sg] assms(3,4) by simp
  ultimately have "names_ok cf ids st"
    using al unfolding st_def serve_def
  proof (induction es rule: rev_induct)
    case (snoc e es)
    then have "names_ok cf ids (serve cf es (new_server a))" by (simp add: serve_def)
    moreover have "server_ok good cf ids (serve cf es (new_server a))"
      using signaling.serve_ok [OF sg] snoc.prems by simp
    ultimately show ?case
      using names_ok_act [OF assms(1,2)] snoc.prems by (simp add: serve_def server_ok_def)
  qed simp
  then show ?thesis by (auto simp: names_ok_def name_ok_def ids_def split: option.splits)
qed

theorem names_in_range_witness:
  "case jm_get (sv_passwords demo_protected) ''r'' of None \<Rightarrow> False | Some p \<Rightarrow> p = ''secret'' \<and> 1 \<le> length p"
proof -
  let ?es = "map (\<lambda>x. Connect x None) [''a'', ''b'', ''c''] @ replicate 3 (Run 0) @ [Create ''a'' (create_msg ''r'' ''secret''), Run 0]"
  have ad: "room_adapter (cf_io demo_cf) mem_good" by (simp add: demo_cf_def mem.room_adapter_axioms)
  have sp: "schema_parser (cf_parse demo_cf)" by (simp add: demo_cf_def zod.schema_parser_axioms)
  have em: "mem_good []" "\<forall>r. members (cf_io demo_cf) [] r = []" by (simp_all add: mem_empty demo_cf_def)
  have nc: "\<forall>u. Connect ''r'' u \<notin> set ?es" by simp
  from names_in_range [OF ad sp em nc] demo_facts(2) show ?thesis
    unfolding demo_protected_def by auto
qed

section \<open>The mode as an abstract ratchet\<close>

text \<open>
  What a room is to its users: who is in it, and whether it ever reached the threshold since it
  was last empty.
\<close>

record room_spec =
  rs_occ :: "string \<Rightarrow> string set"
  rs_sfu :: "string \<Rightarrow> bool"

datatype spec_event = Arrive string | Enter string string | Exit string string | Vanish string | Skip

definition ratchet :: "int \<Rightarrow> string set \<Rightarrow> bool \<Rightarrow> bool" where
  "ratchet mm occ old \<longleftrightarrow> occ \<noteq> {} \<and> (old \<or> mm \<le> int (card occ))"

fun spec_step :: "int \<Rightarrow> spec_event \<Rightarrow> room_spec \<Rightarrow> room_spec" where
  "spec_step mm (Arrive x) \<sigma> = \<sigma>\<lparr>rs_occ := (rs_occ \<sigma>)(x := insert x (rs_occ \<sigma> x))\<rparr>"
| "spec_step mm (Enter x r) \<sigma> = (let occ = insert x (rs_occ \<sigma> r) in
     \<lparr>rs_occ = (rs_occ \<sigma>)(r := occ), rs_sfu = (rs_sfu \<sigma>)(r := ratchet mm occ (rs_sfu \<sigma> r))\<rparr>)"
| "spec_step mm (Exit x r) \<sigma> = (let occ = rs_occ \<sigma> r - {x} in
     \<lparr>rs_occ = (rs_occ \<sigma>)(r := occ), rs_sfu = (rs_sfu \<sigma>)(r := ratchet mm occ (rs_sfu \<sigma> r))\<rparr>)"
| "spec_step mm (Vanish x) \<sigma> =
     \<lparr>rs_occ = (\<lambda>r. rs_occ \<sigma> r - {x}),
      rs_sfu = (\<lambda>r. if r \<noteq> x \<and> x \<in> rs_occ \<sigma> r then ratchet mm (rs_occ \<sigma> r - {x}) (rs_sfu \<sigma> r) else rs_sfu \<sigma> r)\<rparr>"
| "spec_step mm Skip \<sigma> = \<sigma>"

text \<open>What an event asks for, after validation and the password check.\<close>

definition when_handled :: "string \<Rightarrow> spec_event \<Rightarrow> 'a server \<Rightarrow> spec_event" where
  "when_handled x op st = (case jm_get (sv_sockets st) x of None \<Rightarrow> Skip
     | Some s \<Rightarrow> if so_media s = None then Skip else op)"

fun op_of :: "'a config \<Rightarrow> event \<Rightarrow> 'a server \<Rightarrow> spec_event" where
  "op_of cf (Connect x u) st = (if jm_has (sv_sockets st) x then Skip else Arrive x)"
| "op_of cf (Join x raw) st = when_handled x (case cf_parse cf JoinRoomPayload raw of None \<Rightarrow> Skip
     | Some data \<Rightarrow> (case join_target data of (r, p) \<Rightarrow> if checkRoomPassword r p st then Enter x r else Skip)) st"
| "op_of cf (Create x raw) st = when_handled x (case cf_parse cf CreateRoomPayload raw of None \<Rightarrow> Skip
     | Some data \<Rightarrow> Enter x (str_of (jget data ''roomName''))) st"
| "op_of cf (Leave x raw) st = when_handled x (case cf_parse cf LeaveRoomPayload raw of None \<Rightarrow> Skip
     | Some data \<Rightarrow> if str_of data \<noteq> [] \<and> str_of data \<in> set (io_of (cf_io cf) (sv_io st) x) then Exit x (str_of data) else Skip) st"
| "op_of cf (Disconnect x) st = (if jm_has (sv_sockets st) x then Vanish x else Skip)"
| "op_of cf e st = Skip"

definition refines :: "('a \<Rightarrow> bool) \<Rightarrow> 'a config \<Rightarrow> 'a server \<Rightarrow> room_spec \<Rightarrow> bool" where
  "refines good cf st \<sigma> \<longleftrightarrow> good (sv_io st) \<and>
     (\<forall>r. set (members (cf_io cf) (sv_io st) r) = rs_occ \<sigma> r) \<and> (\<forall>r. rs_sfu \<sigma> r \<longleftrightarrow> currentMode r st = Sfu)"

text \<open>An event together with everything it left to run.\<close>

definition finish :: "'a config \<Rightarrow> 'a server \<Rightarrow> 'a server" where
  "finish cf st = serve cf (replicate (length (sv_tasks st)) (Run 0)) st"

definition handle_fully :: "'a config \<Rightarrow> event \<Rightarrow> 'a server \<Rightarrow> 'a server" where
  "handle_fully cf e st = finish cf (fst (act cf e st))"

definition settles :: "string \<Rightarrow> task \<Rightarrow> bool" where
  "settles r t \<longleftrightarrow> opens r t \<or> closes r t"

lemma run_task_modes:
  "jm_get (sv_modes (fst (run_task cf t st))) r = (if settles r t then (if roomSize cf r st = 0 then None else Some (new_mode cf r st))
     else jm_get (sv_modes st) r)"
proof -
  show ?thesis
    by (cases t) (auto simp: settles_def run_task_left announce_join_fst reconcile_and_gc_fst reconcile_get simp del: run_task.simps(4) split: option.splits)
qed

lemma new_mode_again:
  "sv_io st' = sv_io st \<Longrightarrow> jm_get (sv_modes st') r = Some (new_mode cf r st) \<or> jm_get (sv_modes st') r = jm_get (sv_modes st) r
    \<Longrightarrow> new_mode cf r st' = new_mode cf r st"
  by (auto simp: new_mode_def roomSize_def)

lemma run_tasks_effect:
  "sv_tasks st = ts \<Longrightarrow> sv_io (serve cf (replicate (length ts) (Run 0)) st) = sv_io st \<and>
    jm_get (sv_modes (serve cf (replicate (length ts) (Run 0)) st)) r =
      (if \<exists>t \<in> set ts. settles r t then (if roomSize cf r st = 0 then None else Some (new_mode cf r st)) else jm_get (sv_modes st) r)"
proof (induction ts arbitrary: st)
  case (Cons t ts)
  let ?st = "fst (act cf (Run 0) st)"
  have act: "?st = fst (run_task cf t (st\<lparr>sv_tasks := ts\<rparr>))" using Cons.prems by simp
  have io: "sv_io ?st = sv_io st" unfolding act by (simp add: run_task_io run_task_modes)
  have mode: "jm_get (sv_modes ?st) r = (if settles r t then (if roomSize cf r st = 0 then None else Some (new_mode cf r st))
     else jm_get (sv_modes st) r)"
    unfolding act by (simp add: run_task_io run_task_modes roomSize_def new_mode_def)
  have size: "roomSize cf r ?st = roomSize cf r st" using io by (rule roomSize_io)
  have nm: "roomSize cf r st = 0 \<or> new_mode cf r ?st = new_mode cf r st"
    using mode new_mode_again [OF io, of r cf] by (auto split: if_splits)
  have "sv_tasks ?st = ts" using run_first [of cf st] Cons.prems by simp
  from Cons.IH [OF this] show ?case using io mode size nm by auto
qed simp

lemma refines_run:
  assumes ad: "room_adapter (cf_io cf) good" and g: "good (sv_io st)"
    and occ: "\<And>r. set (members (cf_io cf) (sv_io st) r) = occ r"
    and old: "\<And>r. old r \<longleftrightarrow> currentMode r st = Sfu"
  shows "refines good cf (finish cf st)
    \<lparr>rs_occ = occ, rs_sfu = (\<lambda>r. if \<exists>t \<in> set (sv_tasks st). settles r t then ratchet (cf_mesh_max cf) (occ r) (old r) else old r)\<rparr>"
proof -
  let ?st = "finish cf st"
  have eff: "sv_io ?st = sv_io st" "jm_get (sv_modes ?st) r =
      (if \<exists>t \<in> set (sv_tasks st). settles r t then (if roomSize cf r st = 0 then None else Some (new_mode cf r st)) else jm_get (sv_modes st) r)" for r
    using run_tasks_effect [of st "sv_tasks st" cf r] unfolding finish_def by blast+
  have card: "roomSize cf r st = card (occ r)" for r
    using room_adapter.size_card [OF ad g] occ by (simp add: roomSize_def)
  have fin: "finite (occ r)" for r using occ [of r] by (metis List.finite_set)
  have sfu: "old r \<longleftrightarrow> jm_get (sv_modes st) r = Some Sfu" for r
    unfolding old currentMode_def by (simp split: option.splits)
  have "currentMode r ?st = Sfu \<longleftrightarrow>
      (if \<exists>t \<in> set (sv_tasks st). settles r t then ratchet (cf_mesh_max cf) (occ r) (old r) else old r)" for r
    unfolding currentMode_def eff sfu using fin [of r]
    by (auto simp: card ratchet_def new_mode_def modeForSize_def split: option.splits)
  with g occ show ?thesis by (simp add: refines_def eff)
qed

lemma refines_unchanged:
  assumes "refines good cf st \<sigma>" and "sv_io st' = sv_io st" "sv_modes st' = sv_modes st"
    and "room_adapter (cf_io cf) good"
    and none: "\<And>t r. t \<in> set (sv_tasks st') \<Longrightarrow> \<not> settles r t"
  shows "refines good cf (finish cf st') \<sigma>"
proof -
  have "refines good cf (finish cf st')
    \<lparr>rs_occ = rs_occ \<sigma>, rs_sfu = (\<lambda>r. if \<exists>t \<in> set (sv_tasks st'). settles r t then ratchet (cf_mesh_max cf) (rs_occ \<sigma> r) (rs_sfu \<sigma> r) else rs_sfu \<sigma> r)\<rparr>"
    by (rule refines_run [OF assms(4)]) (use assms(1-3) in \<open>simp_all add: refines_def currentMode_def\<close>)
  moreover have "(\<lambda>r. if \<exists>t \<in> set (sv_tasks st'). settles r t then ratchet (cf_mesh_max cf) (rs_occ \<sigma> r) (rs_sfu \<sigma> r) else rs_sfu \<sigma> r) = rs_sfu \<sigma>"
    using none by (auto simp: fun_eq_iff)
  ultimately show ?thesis by (cases \<sigma>) simp
qed

text \<open>One room changes its members and is then settled.\<close>

lemma refines_touch:
  assumes ad: "room_adapter (cf_io cf) good" and R: "refines good cf st \<sigma>"
    and st': "good (sv_io st')" "sv_modes st' = sv_modes st" "sv_tasks st' = [t]" "\<And>r'. settles r' t \<longleftrightarrow> r' = r"
    and occ: "\<And>r'. set (members (cf_io cf) (sv_io st') r') = (if r' = r then X else rs_occ \<sigma> r')"
  shows "refines good cf (finish cf st')
    \<lparr>rs_occ = (rs_occ \<sigma>)(r := X), rs_sfu = (rs_sfu \<sigma>)(r := ratchet (cf_mesh_max cf) X (rs_sfu \<sigma> r))\<rparr>"
proof -
  have "refines good cf (finish cf st')
    \<lparr>rs_occ = (rs_occ \<sigma>)(r := X), rs_sfu = (\<lambda>r'. if \<exists>t \<in> set (sv_tasks st'). settles r' t
        then ratchet (cf_mesh_max cf) (((rs_occ \<sigma>)(r := X)) r') (rs_sfu \<sigma> r') else rs_sfu \<sigma> r')\<rparr>"
    by (rule refines_run [OF ad]) (use R st' occ in \<open>simp_all add: refines_def currentMode_def\<close>)
  moreover have "(\<lambda>r'. if \<exists>t \<in> set (sv_tasks st'). settles r' t
        then ratchet (cf_mesh_max cf) (((rs_occ \<sigma>)(r := X)) r') (rs_sfu \<sigma> r') else rs_sfu \<sigma> r')
      = (rs_sfu \<sigma>)(r := ratchet (cf_mesh_max cf) X (rs_sfu \<sigma> r))"
    using st' by (auto simp: fun_eq_iff)
  ultimately show ?thesis by simp
qed

lemma refines_vanish:
  fixes x :: string
  assumes ad: "room_adapter (cf_io cf) good" and R: "refines good cf st \<sigma>" and none: "sv_tasks st = []"
  defines "st' \<equiv> fst (on_disconnect cf x st)"
  shows "refines good cf (finish cf st') (spec_step (cf_mesh_max cf) (Vanish x) \<sigma>)"
proof -
  have g: "good (sv_io st)" and occ: "set (members (cf_io cf) (sv_io st) r) = rs_occ \<sigma> r" for r
    using R by (simp_all add: refines_def)
  have st': "sv_io st' = io_drop (cf_io cf) (sv_io st) x" "sv_modes st' = sv_modes st"
    by (simp_all add: st'_def on_disconnect_def Let_def)
  have t: "(\<exists>t \<in> set (sv_tasks st'). settles r t) \<longleftrightarrow> r \<noteq> x \<and> x \<in> rs_occ \<sigma> r" for r
    using none room_adapter.set_of [OF ad g] occ by (auto simp: st'_def on_disconnect_def Let_def settles_def)
  have "refines good cf (finish cf st')
    \<lparr>rs_occ = (\<lambda>r. rs_occ \<sigma> r - {x}), rs_sfu = (\<lambda>r. if \<exists>t \<in> set (sv_tasks st'). settles r t
        then ratchet (cf_mesh_max cf) (rs_occ \<sigma> r - {x}) (rs_sfu \<sigma> r) else rs_sfu \<sigma> r)\<rparr>"
    by (rule refines_run [OF ad])
      (use R room_adapter.set_simps [OF ad] in \<open>simp_all add: st' refines_def currentMode_def\<close>)
  then show ?thesis unfolding t by simp
qed

lemma refines_touched:
  fixes st st' :: "'a server"
  assumes "room_adapter (cf_io cf) good" and "refines good cf st \<sigma>" and "sv_modes st' = sv_modes st" and "sv_tasks st' = [t]"
    and "\<And>r'. settles r' t \<longleftrightarrow> r' = r"
  shows "sv_io st' = io_join (cf_io cf) (sv_io st) x r \<Longrightarrow> refines good cf (finish cf st') (spec_step (cf_mesh_max cf) (Enter x r) \<sigma>)"
    and "sv_io st' = io_leave (cf_io cf) (sv_io st) x r \<Longrightarrow> refines good cf (finish cf st') (spec_step (cf_mesh_max cf) (Exit x r) \<sigma>)"
proof -
  note ad = room_adapter.set_simps [OF assms(1)]
  have g: "good (sv_io st)" and occ: "set (members (cf_io cf) (sv_io st) r) = rs_occ \<sigma> r" for r
    using assms(2) by (simp_all add: refines_def)
  show "refines good cf (finish cf st') (spec_step (cf_mesh_max cf) (Enter x r) \<sigma>)" if "sv_io st' = io_join (cf_io cf) (sv_io st) x r"
    unfolding spec_step.simps Let_def
    by (rule refines_touch [OF assms(1,2) _ assms(3-5)]) (use g occ ad that in simp_all)
  show "refines good cf (finish cf st') (spec_step (cf_mesh_max cf) (Exit x r) \<sigma>)" if "sv_io st' = io_leave (cf_io cf) (sv_io st) x r"
    unfolding spec_step.simps Let_def
    by (rule refines_touch [OF assms(1,2) _ assms(3-5)]) (use g occ ad that in simp_all)
qed

lemma refines_connected:
  fixes st :: "'a server"
  assumes "room_adapter (cf_io cf) good" and "refines good cf st \<sigma>" and "sv_tasks st = []" and "\<not> jm_has (sv_sockets st) x"
  shows "refines good cf (handle_fully cf (Connect x u) st) (spec_step (cf_mesh_max cf) (op_of cf (Connect x u) st) \<sigma>)"
proof -
  note ad = room_adapter.set_simps [OF assms(1)]
  have g: "good (sv_io st)" using assms(2) by (simp add: refines_def)
  let ?st' = "on_connection cf x u st"
  have "refines good cf (finish cf ?st')
    \<lparr>rs_occ = (rs_occ \<sigma>)(x := insert x (rs_occ \<sigma> x)), rs_sfu = (\<lambda>r. if \<exists>t \<in> set (sv_tasks ?st'). settles r t
      then ratchet (cf_mesh_max cf) (((rs_occ \<sigma>)(x := insert x (rs_occ \<sigma> x))) r) (rs_sfu \<sigma> r) else rs_sfu \<sigma> r)\<rparr>"
    by (rule refines_run [OF assms(1)])
      (use assms(2) ad g in \<open>simp_all add: on_connection_def refines_def currentMode_def\<close>)
  moreover have "\<not> (\<exists>t \<in> set (sv_tasks ?st'). settles r t)" for r
    using assms(3) by (simp add: on_connection_def settles_def)
  ultimately show ?thesis using assms(4) by (cases \<sigma>) (simp add: handle_fully_def Let_def)
qed

text \<open>
  C5. Handling an event together with everything it leaves to run refines the abstract room: the
  members are those that entered and did not leave, and the mode of a room is SFU exactly when
  the room reached the threshold at some point since it was last empty, whatever its size now.
\<close>

theorem mode_ratchet_refines:
  fixes st :: "'a server"
  assumes "room_adapter (cf_io cf) good" and "refines good cf st \<sigma>" and "sv_tasks st = []"
  shows "refines good cf (handle_fully cf e st) (spec_step (cf_mesh_max cf) (op_of cf e st) \<sigma>)
    \<and> sv_tasks (handle_fully cf e st) = []"
proof -
  have unchanged: "refines good cf (finish cf st') \<sigma>"
    if "sv_io st' = sv_io st" "sv_modes st' = sv_modes st" "sv_tasks st' = [] \<or> sv_tasks st' = [Announce]" for st'
    by (rule refines_unchanged [OF assms(2)]) (use that assms(1) in \<open>auto simp: settles_def\<close>)
  have joined: "refines good cf (finish cf (enter_room cf x r (JoinedRoom x s r) st)) (spec_step (cf_mesh_max cf) (Enter x r) \<sigma>)" for x r s
    by (rule refines_touched(1) [OF assms(1,2), where t = "JoinedRoom x s r"]) (use assms(3) in \<open>auto simp: settles_def\<close>)
  have created: "refines good cf (finish cf (enter_room cf x r (CreatedRoom x s r) (setRoomPassword r p st))) (spec_step (cf_mesh_max cf) (Enter x r) \<sigma>)"
    "refines good cf (finish cf (enter_room cf x r (CreatedRoom x s r) st)) (spec_step (cf_mesh_max cf) (Enter x r) \<sigma>)" for x r s p
    by (rule refines_touched(1) [OF assms(1,2), where t = "CreatedRoom x s r"]; use assms(3) in \<open>auto simp: settles_def\<close>)+
  have left: "refines good cf (finish cf (defer_task (LeftRoom r) (st\<lparr>sv_io := io_leave (cf_io cf) (sv_io st) x r\<rparr>)))
      (spec_step (cf_mesh_max cf) (Exit x r) \<sigma>)" for x r
    by (rule refines_touched(2) [OF assms(1,2), where t = "LeftRoom r"]) (use assms(3) in \<open>auto simp: settles_def\<close>)
  note step = spec_step.simps(5) fst_handled when_handled_def settles_def
  have "refines good cf (handle_fully cf e st) (spec_step (cf_mesh_max cf) (op_of cf e st) \<sigma>)"
  proof (cases e)
    case (Connect x u)
    with unchanged [of st] refines_connected [OF assms] assms(3) show ?thesis by (cases "jm_has (sv_sockets st) x") (simp_all add: handle_fully_def Let_def)
  next
    case (Join x raw)
    show ?thesis using unchanged [of st] joined assms(3) unfolding Join handle_fully_def
      by (auto simp del: spec_step.simps simp: step on_join_room_def split: option.splits prod.splits)
  next
    case (Create x raw)
    show ?thesis using unchanged [of st] created assms(3) unfolding Create handle_fully_def
      by (auto simp del: spec_step.simps simp: step on_create_room_def Let_def split: option.splits)
  next
    case (Leave x raw)
    show ?thesis using unchanged [of st] unchanged [of "defer_task Announce st"] left assms(3) unfolding Leave handle_fully_def
      by (auto simp del: spec_step.simps simp: step on_leave_room_def split: option.splits)
  next
    case (Disconnect x)
    with unchanged [of st] refines_vanish [OF assms] assms(3) show ?thesis by (simp add: handle_fully_def Let_def)
  next
    case (Media x raw)
    have "sv_io (fst (act cf e st)) = sv_io st \<and> sv_modes (fst (act cf e st)) = sv_modes st \<and> sv_tasks (fst (act cf e st)) = sv_tasks st"
      using Media by (auto simp: fst_handled on_media_state_def Let_def split: option.splits)
    with Media unchanged [of "fst (act cf e st)"] assms(3) show ?thesis by (simp add: handle_fully_def Let_def)
  qed (use unchanged [of st] assms(3) in \<open>auto simp: handle_fully_def Let_def fst_handled split: option.splits\<close>)
  then show ?thesis by (simp add: handle_fully_def finish_def run_all)
qed

text \<open>The fourth socket enters room \<open>r\<close> of a server on which three have settled.\<close>

definition demo_three :: "(string, string list) jmap server" where
  "demo_three = serve demo_cf (map (\<lambda>x. Connect x None) [''a'', ''b'', ''c'', ''d''] @ replicate 4 (Run 0)
     @ concat (map (\<lambda>x. [Join x (Some (JStr ''r'')), Run 0]) [''a'', ''b'', ''c''])) (new_server [])"

theorem mode_ratchet_refines_witness:
  "\<exists>\<sigma>. rs_occ \<sigma> ''r'' = {''a'', ''b'', ''c''} \<and>
     refines mem_good demo_cf (handle_fully demo_cf (Join ''d'' (Some (JStr ''r''))) demo_three) (spec_step 4 (Enter ''d'' ''r'') \<sigma>)"
proof -
  have ad: "room_adapter (cf_io demo_cf) mem_good" by (simp add: demo_cf_def mem.room_adapter_axioms)
  have "server_ok mem_good demo_cf UNIV demo_three"
    unfolding demo_three_def by (intro demo.serve_ok demo.new_server_ok) (simp_all add: mem_empty demo_cf_def allowed_def)
  then have g: "mem_good (sv_io demo_three)" by (simp add: server_ok_def)
  let ?\<sigma> = "\<lparr>rs_occ = (\<lambda>r. set (members (cf_io demo_cf) (sv_io demo_three) r)), rs_sfu = (\<lambda>r. currentMode r demo_three = Sfu)\<rparr>"
  have R: "refines mem_good demo_cf demo_three ?\<sigma>" using g by (simp add: refines_def)
  have "sv_tasks demo_three = []" "op_of demo_cf (Join ''d'' (Some (JStr ''r''))) demo_three = Enter ''d'' ''r''"
    "cf_mesh_max demo_cf = 4" by code_simp+
  with mode_ratchet_refines [OF ad R, of "Join ''d'' (Some (JStr ''r''))"]
  have "refines mem_good demo_cf (handle_fully demo_cf (Join ''d'' (Some (JStr ''r''))) demo_three) (spec_step 4 (Enter ''d'' ''r'') ?\<sigma>)"
    by simp
  moreover have "set (members (cf_io demo_cf) (sv_io demo_three) ''r'') = {''a'', ''b'', ''c''}"
    unfolding members_demo by code_simp
  ultimately show ?thesis by (intro exI [of _ ?\<sigma>]) simp
qed

end
