(* ===== verification/Auth.thy ===== *)
theory Auth imports Rooms begin

text \<open>
  Magic-link authentication (\<open>auth/jwt.ts\<close>, \<open>auth/routes.ts\<close>, \<open>auth/socket.ts\<close>). Signing and
  verifying belong to the package jsonwebtoken: they are a parameter, the record \<open>jwt_lib\<close>, with
  the interface \<open>jwt\<close>. Identifiers, random secrets, the clock and the outcome of sending a mail
  are inputs of the calls.
\<close>

section \<open>Signed tokens\<close>

record claims =
  cl_sub :: string
  cl_kind :: string
  cl_jti :: string

text \<open>Sign: claims, secret, life time in seconds, time of the call in milliseconds.\<close>

record jwt_lib =
  jw_sign :: "claims \<Rightarrow> string \<Rightarrow> nat \<Rightarrow> nat \<Rightarrow> string"
  jw_verify :: "string \<Rightarrow> string \<Rightarrow> nat \<Rightarrow> json result"

definition decoded :: "claims \<Rightarrow> nat \<Rightarrow> nat \<Rightarrow> json" where
  "decoded c iat expires = JObj [(''sub'', JStr (cl_sub c)), (''kind'', JStr (cl_kind c)), (''jti'', JStr (cl_jti c)),
     (''iat'', JNum (of_nat iat)), (''exp'', JNum (of_nat expires))]"

text \<open>
  The documented behaviour the code relies on: a signed token verifies under the same secret to
  its claims, with the times in seconds, until it expires; then verifying throws.
\<close>

locale jwt =
  fixes lib :: jwt_lib
  assumes verify_fresh: "now div 1000 < t0 div 1000 + ttl \<Longrightarrow>
      jw_verify lib (jw_sign lib c s ttl t0) s now = ok (decoded c (t0 div 1000) (t0 div 1000 + ttl))"
    and verify_expired: "\<not> now div 1000 < t0 div 1000 + ttl \<Longrightarrow>
      jw_verify lib (jw_sign lib c s ttl t0) s now = throw ''jwt expired''"
    and sign_text: "jw_sign lib c s ttl t0 \<noteq> [] \<and> list_all (\<lambda>ch. ch \<in> set ''ABCDEFGHIJKLMNOPQRSTUVWXYZabcdefghijklmnopqrstuvwxyz0123456789-_.'') (jw_sign lib c s ttl t0)"

section \<open>The secret, signing and verifying\<close>

record auth =
  au_secret :: "string option"
  au_redeemed :: "(string, nat) jmap"

text \<open>What a call reads from outside: the environment, randomness and the clock.\<close>

record auth_in =
  ai_env_secret :: "string option"
  ai_random :: string
  ai_uuid :: string
  ai_now :: nat

definition truthy :: "string option \<Rightarrow> bool" where
  "truthy v \<longleftrightarrow> (case v of None \<Rightarrow> False | Some s \<Rightarrow> s \<noteq> [])"

definition getSecret :: "auth_in \<Rightarrow> auth \<Rightarrow> string \<times> auth" where
  "getSecret inp st = (if truthy (au_secret st) then (the (au_secret st), st)
     else (case ai_env_secret inp of
        Some s \<Rightarrow> if length s \<ge> 16 then (s, st\<lparr>au_secret := Some s\<rparr>) else (ai_random inp, st\<lparr>au_secret := Some (ai_random inp)\<rparr>)
      | None \<Rightarrow> (ai_random inp, st\<lparr>au_secret := Some (ai_random inp)\<rparr>)))"

definition MAGIC_TTL_SECONDS :: nat where
  "MAGIC_TTL_SECONDS = 10 * 60"

definition SESSION_TTL_SECONDS :: nat where
  "SESSION_TTL_SECONDS = 24 * 60 * 60"

definition signMagicLink :: "jwt_lib \<Rightarrow> auth_in \<Rightarrow> string \<Rightarrow> auth \<Rightarrow> (string \<times> string \<times> nat) \<times> auth" where
  "signMagicLink lib inp email st = (case getSecret inp st of (s, st') \<Rightarrow>
     ((jw_sign lib \<lparr>cl_sub = email, cl_kind = ''magic'', cl_jti = ai_uuid inp\<rparr> s MAGIC_TTL_SECONDS (ai_now inp),
       ai_uuid inp, MAGIC_TTL_SECONDS), st'))"

definition signSession :: "jwt_lib \<Rightarrow> auth_in \<Rightarrow> string \<Rightarrow> auth \<Rightarrow> (string \<times> string \<times> nat) \<times> auth" where
  "signSession lib inp email st = (case getSecret inp st of (s, st') \<Rightarrow>
     ((jw_sign lib \<lparr>cl_sub = email, cl_kind = ''session'', cl_jti = ai_uuid inp\<rparr> s SESSION_TTL_SECONDS (ai_now inp),
       ai_uuid inp, SESSION_TTL_SECONDS), st'))"

definition check_claims :: "string \<Rightarrow> json \<Rightarrow> claims result" where
  "check_claims expectedKind d =
    (if is_str (Some d) \<or> jget (Some d) ''kind'' \<noteq> Some (JStr expectedKind) then throw ''token kind mismatch''
     else if \<not> is_str (jget (Some d) ''sub'') then throw ''token missing subject''
     else if \<not> is_str (jget (Some d) ''jti'') then throw ''token missing jti''
     else ok \<lparr>cl_sub = str_of (jget (Some d) ''sub''), cl_kind = expectedKind, cl_jti = str_of (jget (Some d) ''jti'')\<rparr>)"

definition verifyToken :: "jwt_lib \<Rightarrow> auth_in \<Rightarrow> string \<Rightarrow> string \<Rightarrow> auth \<Rightarrow> claims result \<times> auth" where
  "verifyToken lib inp token expectedKind st = (case getSecret inp st of (s, st') \<Rightarrow>
     (rbind (jw_verify lib token s (ai_now inp)) (check_claims expectedKind), st'))"

section \<open>Redeemed links\<close>

definition REDEEM_RETENTION_MS :: nat where
  "REDEEM_RETENTION_MS = MAGIC_TTL_SECONDS * 1000 * 2"

fun gc_redeemed :: "int \<Rightarrow> (string \<times> nat) list \<Rightarrow> (string, nat) jmap \<Rightarrow> (string, nat) jmap" where
  "gc_redeemed cutoff [] m = m"
| "gc_redeemed cutoff ((k, t) # es) m =
    (let m' = (if int t < cutoff then jm_del m k else m) in
     if length m' \<le> 512 then m' else gc_redeemed cutoff es m')"

definition markJtiRedeemed :: "nat \<Rightarrow> string \<Rightarrow> auth \<Rightarrow> auth" where
  "markJtiRedeemed now jti st =
    (let m = jm_set (au_redeemed st) jti now in
     st\<lparr>au_redeemed := (if length m > 1024 then gc_redeemed (int now - int REDEEM_RETENTION_MS) m m else m)\<rparr>)"

definition isJtiRedeemed :: "string \<Rightarrow> auth \<Rightarrow> bool" where
  "isJtiRedeemed jti st = jm_has (au_redeemed st) jti"

section \<open>Routes\<close>

datatype response = Resp nat json

definition fail :: "nat \<Rightarrow> string \<Rightarrow> response" where
  "fail code msg = Resp code (JObj [(''ok'', JBool False), (''error'', JStr msg)])"

definition emailValid :: "string \<Rightarrow> bool" where
  "emailValid s \<longleftrightarrow> length s \<ge> 3 \<and> length s \<le> 320 \<and> CHR ''@'' \<in> set s"

text \<open>Lower case of the 8-bit characters: the letters of ASCII and of Latin-1.\<close>

definition lower_char :: "char \<Rightarrow> char" where
  "lower_char c = (let n = (of_char c :: nat) in
     if 65 \<le> n \<and> n \<le> 90 \<or> 192 \<le> n \<and> n \<le> 222 \<and> n \<noteq> 215 then char_of (n + 32) else c)"

definition toLowerCase :: "string \<Rightarrow> string" where
  "toLowerCase s = map lower_char s"

definition hex_upper :: "nat \<Rightarrow> char" where
  "hex_upper d = (if d < 10 then char_of (48 + d) else char_of (55 + d))"

definition percent :: "nat \<Rightarrow> string" where
  "percent b = [CHR ''%'', hex_upper (b div 16), hex_upper (b mod 16)]"

text \<open>\<open>encodeURIComponent\<close>: the unreserved characters stay, others are their UTF-8 bytes in hexadecimal.\<close>

definition encode_char :: "char \<Rightarrow> string" where
  "encode_char c = (let n = (of_char c :: nat) in
     if 65 \<le> n \<and> n \<le> 90 \<or> 97 \<le> n \<and> n \<le> 122 \<or> 48 \<le> n \<and> n \<le> 57 \<or> c \<in> set ''-_.!~*()'' \<or> n = 39 then [c]
     else if n < 128 then percent n
     else percent (192 + n div 64) @ percent (128 + n mod 64))"

definition encodeURIComponent :: "string \<Rightarrow> string" where
  "encodeURIComponent s = concat (map encode_char s)"

record mail =
  ml_from :: string
  ml_to :: string
  ml_subject :: string
  ml_text :: string
  ml_html :: string

text \<open>Configuration of the route and headers of the request.\<close>

record link_env =
  le_base :: "string option"
  le_protocol :: string
  le_forwarded :: "string option"
  le_host :: "string option"
  le_mailFrom :: "string option"
  le_smtpFrom :: "string option"
  le_smtpUser :: "string option"
  le_smtpHost :: "string option"

fun first_of :: "string option list \<Rightarrow> string \<Rightarrow> string" where
  "first_of [] d = d"
| "first_of (None # vs) d = first_of vs d"
| "first_of (Some s # vs) d = s"

definition magic_link :: "link_env \<Rightarrow> string \<Rightarrow> string" where
  "magic_link env token =
    first_of [le_base env] (le_protocol env @ ''://'' @ first_of [le_forwarded env, le_host env] ''localhost'')
      @ ''/?magic='' @ encodeURIComponent token"

definition newline :: string where
  "newline = [char_of (10 :: nat)]"

definition link_mail :: "link_env \<Rightarrow> string \<Rightarrow> string \<Rightarrow> nat \<Rightarrow> mail" where
  "link_mail env email link minutes = \<lparr>
     ml_from = first_of [le_mailFrom env, le_smtpFrom env, le_smtpUser env] ''no-reply@example.com'',
     ml_to = email,
     ml_subject = ''Your sign-in link'',
     ml_text = ''Click to sign in: '' @ link @ newline @ newline
       @ ''This link expires in '' @ nat_str minutes @ '' minutes and can only be used once.'' @ newline
       @ ''If you didn'' @ [char_of (39 :: nat)] @ ''t request this, you can ignore the email.'',
     ml_html = ''<p>Click to sign in:</p>'' @ ''<p><a href='' @ [char_of (34 :: nat)] @ link @ [char_of (34 :: nat)] @ ''>'' @ link @ ''</a></p>''
       @ ''<p>This link expires in '' @ nat_str minutes @ '' minutes and can only be used once.</p>''
       @ ''<p>If you didn'' @ [char_of (39 :: nat)] @ ''t request this, you can ignore the email.</p>''\<rparr>"

fun email_of :: "jsval \<Rightarrow> string result" where
  "email_of None = ok []"
| "email_of (Some JNull) = ok []"
| "email_of (Some (JStr s)) = ok (toLowerCase (trim s))"
| "email_of (Some _) = throw ''trim is not a function''"

text \<open>
  \<open>sent\<close> is what getting the transporter and sending gives: the preview URL of a test account, or
  an error. The mail handed to the transporter is part of the result.
\<close>

definition request_link :: "jwt_lib \<Rightarrow> auth_in \<Rightarrow> link_env \<Rightarrow> (mail \<Rightarrow> jsval result) \<Rightarrow> jsval \<Rightarrow> auth \<Rightarrow> (response \<times> mail option) \<times> auth" where
  "request_link lib inp env sent body st = (case email_of (jget body ''email'') of
     Inl e \<Rightarrow> ((fail 500 e, None), st)
   | Inr email \<Rightarrow>
       if \<not> emailValid email then ((fail 400 ''invalid email'', None), st)
       else (case signMagicLink lib inp email st of ((token, jti, expSeconds), st') \<Rightarrow>
         let m = link_mail env email (magic_link env token) ((expSeconds + 30) div 60) in
         (case sent m of
            Inl e \<Rightarrow> ((fail 500 e, Some m), st')
          | Inr preview \<Rightarrow> ((Resp 200 (JObj ((''ok'', JBool True) #
              field ''previewUrl'' (if truthy (le_smtpHost env) then None else preview))), Some m), st'))))"

definition redeem :: "jwt_lib \<Rightarrow> auth_in \<Rightarrow> jsval \<Rightarrow> auth \<Rightarrow> response \<times> auth" where
  "redeem lib inp body st =
    (let token = jget body ''token'' in
     if \<not> is_str token \<or> str_of token = [] then (fail 400 ''missing token'', st)
     else (case verifyToken lib inp (str_of token) ''magic'' st of
       (Inl e, st1) \<Rightarrow> (fail 401 e, st1)
     | (Inr c, st1) \<Rightarrow>
         if isJtiRedeemed (cl_jti c) st1 then (fail 409 ''link already used'', st1)
         else (case signSession lib inp (cl_sub c) (markJtiRedeemed (ai_now inp) (cl_jti c) st1) of
           ((sessionToken, jti, expSeconds), st2) \<Rightarrow>
             (Resp 200 (JObj [(''ok'', JBool True), (''token'', JStr sessionToken), (''email'', JStr (cl_sub c)),
                (''expSeconds'', JNum (of_nat expSeconds))]), st2))))"

text \<open>The regular expression \<open>^Bearer\s+(.+)$\<close>: white space is taken greedily, and a line break ends a match of the dot.\<close>

definition line_break :: "char \<Rightarrow> bool" where
  "line_break c \<longleftrightarrow> (of_char c :: nat) = 10 \<or> (of_char c :: nat) = 13"

definition bearer :: "string \<Rightarrow> string option" where
  "bearer auth = (if take 6 auth \<noteq> ''Bearer'' then None
     else let rest = drop 6 auth; sp = takeWhile js_space rest; tok = dropWhile js_space rest in
       if sp = [] then None
       else if tok \<noteq> [] then (if list_ex line_break tok then None else Some tok)
       else if length sp \<ge> 2 \<and> \<not> line_break (last sp) then Some [last sp] else None)"

definition me :: "jwt_lib \<Rightarrow> auth_in \<Rightarrow> string option \<Rightarrow> auth \<Rightarrow> response \<times> auth" where
  "me lib inp header st = (case bearer (case header of None \<Rightarrow> [] | Some h \<Rightarrow> h) of
     None \<Rightarrow> (fail 401 ''missing bearer'', st)
   | Some token \<Rightarrow> (case verifyToken lib inp token ''session'' st of
       (Inl e, st1) \<Rightarrow> (fail 401 e, st1)
     | (Inr c, st1) \<Rightarrow> (Resp 200 (JObj [(''ok'', JBool True), (''email'', JStr (cl_sub c))]), st1)))"

section \<open>Connections\<close>

text \<open>The middleware lets a connection in, with the email of its session if it has one, or rejects it.\<close>

datatype admission = Admit "string option" | Reject string

definition auth_middleware :: "jwt_lib \<Rightarrow> auth_in \<Rightarrow> bool \<Rightarrow> jsval \<Rightarrow> auth \<Rightarrow> admission \<times> auth" where
  "auth_middleware lib inp REQUIRE_AUTH token st =
    (if \<not> is_str token \<or> str_of token = [] then (if REQUIRE_AUTH then Reject ''auth required'' else Admit None, st)
     else (case verifyToken lib inp (str_of token) ''session'' st of
       (Inr c, st1) \<Rightarrow> (Admit (Some (cl_sub c)), st1)
     | (Inl e, st1) \<Rightarrow> (if REQUIRE_AUTH then Reject (''auth failed: '' @ e) else Admit None, st1)))"

end
