(* ===== verification/AuthProps.thy ===== *)
theory AuthProps imports Auth begin

text \<open>
  Properties of the authentication: a magic link works once, leads to a session of the same
  email, and tokens of one kind are not taken for the other.
\<close>

section \<open>A concrete token format\<close>

text \<open>
  For the witnesses: a character is written in unary, fields end in a dot, the life time is the
  rest. It satisfies the interface, it protects nothing.
\<close>

definition enc :: "string \<Rightarrow> string" where
  "enc s = concat (map (\<lambda>c. replicate (of_char c) (CHR ''x'') @ [CHR ''-'']) s) @ [CHR ''.'']"

fun dec :: "nat \<Rightarrow> string \<Rightarrow> (string \<times> string) option" where
  "dec n [] = None"
| "dec n (c # cs) = (if c = CHR ''x'' then dec (Suc n) cs
     else if c = CHR ''-'' then map_option (\<lambda>(s, r). (char_of n # s, r)) (dec 0 cs)
     else Some ([], cs))"

lemma dec_run: "dec n (replicate k (CHR ''x'') @ CHR ''-'' # r) = map_option (\<lambda>(s, r). (char_of (n + k) # s, r)) (dec 0 r)"
  by (induction k arbitrary: n) simp_all

lemma dec_enc: "dec 0 (enc s @ r) = Some (s, r)"
  by (induction s) (simp_all add: enc_def dec_run)

definition plain_sign :: "claims \<Rightarrow> string \<Rightarrow> nat \<Rightarrow> nat \<Rightarrow> string" where
  "plain_sign c s ttl t0 = enc s @ enc (cl_sub c) @ enc (cl_kind c) @ enc (cl_jti c) @ enc (replicate (t0 div 1000) (CHR ''x''))
     @ replicate ttl (CHR ''x'')"

definition plain_verify :: "string \<Rightarrow> string \<Rightarrow> nat \<Rightarrow> json result" where
  "plain_verify t s now = (case dec 0 t of None \<Rightarrow> throw ''jwt malformed'' | Some (s', r1) \<Rightarrow>
     if s' \<noteq> s then throw ''invalid signature'' else
     (case dec 0 r1 of None \<Rightarrow> throw ''jwt malformed'' | Some (sb, r2) \<Rightarrow>
     (case dec 0 r2 of None \<Rightarrow> throw ''jwt malformed'' | Some (kd, r3) \<Rightarrow>
     (case dec 0 r3 of None \<Rightarrow> throw ''jwt malformed'' | Some (ji, r4) \<Rightarrow>
     (case dec 0 r4 of None \<Rightarrow> throw ''jwt malformed'' | Some (ia, r5) \<Rightarrow>
       if now div 1000 < length ia + length r5
       then ok (decoded \<lparr>cl_sub = sb, cl_kind = kd, cl_jti = ji\<rparr> (length ia) (length ia + length r5))
       else throw ''jwt expired'')))))"

definition plain_jwt :: jwt_lib where
  "plain_jwt = \<lparr>jw_sign = plain_sign, jw_verify = plain_verify\<rparr>"

lemma enc_text: "list_all (\<lambda>ch. ch \<in> set ''x-.'') (enc s)"
  by (auto simp: enc_def list_all_iff)

interpretation plain: jwt plain_jwt
proof
  fix now t0 ttl :: nat and c :: claims and s :: string
  have v: "plain_verify (plain_sign c s ttl t0) s now = (if now div 1000 < t0 div 1000 + ttl
      then ok (decoded c (t0 div 1000) (t0 div 1000 + ttl)) else throw ''jwt expired'')"
    by (cases c) (simp add: plain_verify_def plain_sign_def dec_enc)
  show "jw_verify plain_jwt (jw_sign plain_jwt c s ttl t0) s now = ok (decoded c (t0 div 1000) (t0 div 1000 + ttl))"
    if "now div 1000 < t0 div 1000 + ttl" using v that by (simp add: plain_jwt_def)
  show "jw_verify plain_jwt (jw_sign plain_jwt c s ttl t0) s now = throw ''jwt expired''"
    if "\<not> now div 1000 < t0 div 1000 + ttl" using v that by (simp add: plain_jwt_def)
  have "list_all (\<lambda>ch. ch \<in> set ''x-.'') (replicate ttl (CHR ''x''))" by (simp add: list_all_length)
  then have "list_all (\<lambda>ch. ch \<in> set ''x-.'') (plain_sign c s ttl t0)"
    using enc_text by (simp add: plain_sign_def)
  then have "list_all (\<lambda>ch. ch \<in> set ''ABCDEFGHIJKLMNOPQRSTUVWXYZabcdefghijklmnopqrstuvwxyz0123456789-_.'') (plain_sign c s ttl t0)"
    by (rule list.pred_mono_strong) auto
  then show "jw_sign plain_jwt c s ttl t0 \<noteq> [] \<and>
    list_all (\<lambda>ch. ch \<in> set ''ABCDEFGHIJKLMNOPQRSTUVWXYZabcdefghijklmnopqrstuvwxyz0123456789-_.'') (jw_sign plain_jwt c s ttl t0)"
    by (simp add: plain_jwt_def plain_sign_def enc_def)
qed

section \<open>Histories\<close>

datatype auth_event =
    RequestLink auth_in link_env "mail \<Rightarrow> jsval result" jsval
  | Redeem auth_in jsval
  | Me auth_in "string option"
  | Handshake auth_in bool jsval

fun auth_act :: "jwt_lib \<Rightarrow> auth_event \<Rightarrow> auth \<Rightarrow> auth" where
  "auth_act lib (RequestLink inp env sent body) st = snd (request_link lib inp env sent body st)"
| "auth_act lib (Redeem inp body) st = snd (redeem lib inp body st)"
| "auth_act lib (Me inp header) st = snd (me lib inp header st)"
| "auth_act lib (Handshake inp req token) st = snd (auth_middleware lib inp req token st)"

fun event_now :: "auth_event \<Rightarrow> nat" where
  "event_now (RequestLink inp env sent body) = ai_now inp"
| "event_now (Redeem inp body) = ai_now inp"
| "event_now (Me inp header) = ai_now inp"
| "event_now (Handshake inp req token) = ai_now inp"

definition auth_run :: "jwt_lib \<Rightarrow> auth_event list \<Rightarrow> auth \<Rightarrow> auth" where
  "auth_run lib es st = fold (auth_act lib) es st"

text \<open>The secret is settled by its first use.\<close>

lemma getSecret_cached: "au_secret st = Some s \<Longrightarrow> s \<noteq> [] \<Longrightarrow> getSecret inp st = (s, st)"
  by (simp add: getSecret_def truthy_def)

lemma verifyToken_cached:
  "au_secret st = Some s \<Longrightarrow> s \<noteq> [] \<Longrightarrow> verifyToken lib inp t kind st = (rbind (jw_verify lib t s (ai_now inp)) (check_claims kind), st)"
  by (simp add: verifyToken_def getSecret_cached)

lemma mark_secret [simp]: "au_secret (markJtiRedeemed now jti st) = au_secret st"
  by (simp add: markJtiRedeemed_def Let_def)

lemma signSession_cached:
  "au_secret st = Some s \<Longrightarrow> s \<noteq> [] \<Longrightarrow> signSession lib inp email st =
    ((jw_sign lib \<lparr>cl_sub = email, cl_kind = ''session'', cl_jti = ai_uuid inp\<rparr> s SESSION_TTL_SECONDS (ai_now inp), ai_uuid inp, SESSION_TTL_SECONDS), st)"
  by (simp add: signSession_def getSecret_cached)

lemma signMagicLink_cached:
  "au_secret st = Some s \<Longrightarrow> s \<noteq> [] \<Longrightarrow> snd (signMagicLink lib inp email st) = st"
  by (simp add: signMagicLink_def getSecret_cached)

text \<open>What an event does to the redeemed links: nothing, or it marks one at its time.\<close>

lemma auth_act_effect:
  assumes "au_secret st = Some s" and "s \<noteq> []"
  shows "auth_act lib e st = st \<or> (\<exists>jti. auth_act lib e st = markJtiRedeemed (event_now e) jti st)"
proof (cases e)
  case (Redeem inp body)
  show ?thesis
    using assms unfolding Redeem
    by (auto simp: redeem_def verifyToken_cached signSession_cached Let_def split: sum.splits)
qed (use assms in \<open>auto simp: request_link_def me_def auth_middleware_def verifyToken_cached signMagicLink_cached Let_def
    split: sum.splits option.splits prod.splits dest: arg_cong [where f = snd]\<close>)

section \<open>A redeemed link stays redeemed until it has expired\<close>

definition spent :: "string \<Rightarrow> nat \<Rightarrow> nat \<Rightarrow> auth \<Rightarrow> bool" where
  "spent jti since now st \<longleftrightarrow> jm_wf (au_redeemed st) \<and>
     (since + REDEEM_RETENTION_MS < now \<or> (\<exists>t. jm_get (au_redeemed st) jti = Some t \<and> since \<le> t))"

lemma gc_redeemed_wf: "jm_wf m \<Longrightarrow> jm_wf (gc_redeemed cutoff es m)"
  by (induction cutoff es m rule: gc_redeemed.induct) (simp_all add: Let_def)

lemma gc_redeemed_keeps:
  "map_of m k = Some t \<Longrightarrow> (\<And>t'. (k, t') \<in> set es \<Longrightarrow> cutoff \<le> int t') \<Longrightarrow> map_of (gc_redeemed cutoff es m) k = Some t"
  by (induction cutoff es m rule: gc_redeemed.induct) (fastforce simp: Let_def)+

lemma gc_redeemed_recent:
  "jm_wf m \<Longrightarrow> map_of m k = Some t \<Longrightarrow> cutoff \<le> int t \<Longrightarrow> map_of (gc_redeemed cutoff m m) k = Some t"
  by (rule gc_redeemed_keeps) simp_all

lemma spent_mark:
  assumes "spent jti since now st" and "since \<le> now" and "now \<le> now'"
  shows "spent jti since now' (markJtiRedeemed now' jti' st)"
proof -
  let ?m = "jm_set (au_redeemed st) jti' now'"
  have wf: "jm_wf ?m" using assms(1) by (simp add: spent_def)
  show ?thesis
  proof (cases "since + REDEEM_RETENTION_MS < now'")
    case True
    with wf show ?thesis by (simp add: spent_def markJtiRedeemed_def Let_def gc_redeemed_wf)
  next
    case False
    with assms have "\<exists>t. jm_get ?m jti = Some t \<and> since \<le> t" by (auto simp: spent_def)
    then obtain t where t: "jm_get ?m jti = Some t" "since \<le> t" by blast
    with False have "int now' - int REDEEM_RETENTION_MS \<le> int t" by simp
    from gc_redeemed_recent [OF wf t(1) this] t wf
    have "jm_get (au_redeemed (markJtiRedeemed now' jti' st)) jti = Some t" "jm_wf (au_redeemed (markJtiRedeemed now' jti' st))"
      by (simp_all add: markJtiRedeemed_def Let_def gc_redeemed_wf del: map_of_eq_Some_iff)
    with t(2) show ?thesis unfolding spent_def by blast
  qed
qed

lemma spent_new: "jm_wf (au_redeemed st) \<Longrightarrow> spent jti now now (markJtiRedeemed now jti st)"
proof -
  assume wf: "jm_wf (au_redeemed st)"
  then have "jm_get (au_redeemed (markJtiRedeemed now jti st)) jti = Some now" "jm_wf (au_redeemed (markJtiRedeemed now jti st))"
    using gc_redeemed_recent [of "jm_set (au_redeemed st) jti now" jti now "int now - int REDEEM_RETENTION_MS"]
    by (simp_all add: markJtiRedeemed_def Let_def gc_redeemed_wf del: map_of_eq_Some_iff)
  then show ?thesis unfolding spent_def by blast
qed

lemma spent_later: "spent jti since now st \<Longrightarrow> now \<le> now' \<Longrightarrow> spent jti since now' st"
  by (auto simp: spent_def)

lemma spent_run:
  assumes "au_secret st = Some s" "s \<noteq> []" and "sorted (now # map event_now es @ [last_now])" and "since \<le> now" and "spent jti since now st"
  shows "spent jti since last_now (auth_run lib es st) \<and> au_secret (auth_run lib es st) = Some s"
  using assms
proof (induction es arbitrary: st now)
  case Nil
  then show ?case by (simp add: auth_run_def spent_later)
next
  case (Cons e es)
  have now: "now \<le> event_now e" "since \<le> event_now e" using Cons.prems(3,4) by auto
  let ?st = "auth_act lib e st"
  have st: "?st = st \<or> (\<exists>jti. ?st = markJtiRedeemed (event_now e) jti st)"
    by (rule auth_act_effect [OF Cons.prems(1,2)])
  have spent: "spent jti since (event_now e) ?st"
    using st spent_mark [OF Cons.prems(5,4) now(1)] spent_later [OF Cons.prems(5) now(1)] by auto
  have "au_secret ?st = Some s" using st Cons.prems(1) by auto
  from Cons.IH [OF this Cons.prems(2) _ now(2) spent] Cons.prems(3) show ?case by (simp add: auth_run_def)
qed

section \<open>Tokens the server signed\<close>

lemma check_decoded:
  "check_claims kind (decoded c iat expires) = (if cl_kind c = kind then ok c else throw ''token kind mismatch'')"
  by (cases c) (auto simp: check_claims_def decoded_def)

context jwt
begin

lemma verify_signed:
  assumes "au_secret st = Some s" "s \<noteq> []"
  shows "verifyToken lib inp (jw_sign lib c s ttl t0) kind st =
    (if ai_now inp div 1000 < t0 div 1000 + ttl
     then (if cl_kind c = kind then ok c else throw ''token kind mismatch'') else throw ''jwt expired'', st)"
  using assms by (simp add: verifyToken_cached verify_fresh verify_expired check_decoded)

lemma sign_bearer: "bearer (''Bearer '' @ jw_sign lib c s ttl t0) = Some (jw_sign lib c s ttl t0)"
proof -
  let ?t = "jw_sign lib c s ttl t0"
  have t: "?t \<noteq> []" "\<forall>ch \<in> set ?t. ch \<in> set ''ABCDEFGHIJKLMNOPQRSTUVWXYZabcdefghijklmnopqrstuvwxyz0123456789-_.''"
    using sign_text [of c s ttl t0] by (auto simp: list_all_iff)
  have "list_all (\<lambda>ch. \<not> js_space ch \<and> \<not> line_break ch) ''ABCDEFGHIJKLMNOPQRSTUVWXYZabcdefghijklmnopqrstuvwxyz0123456789-_.''"
    by code_simp
  then have ns: "\<not> js_space ch \<and> \<not> line_break ch" if "ch \<in> set ?t" for ch
    using that t(2) unfolding list_all_iff by blast
  have tw: "takeWhile js_space ?t = []" "dropWhile js_space ?t = ?t"
    using ns t(1) by (cases ?t; simp)+
  have "js_space (CHR '' '')" by code_simp
  moreover have "\<not> list_ex line_break ?t" using ns by (auto simp: list_ex_iff)
  ultimately show ?thesis using tw t(1) by (simp add: bearer_def Let_def)
qed

lemma redeem_signed:
  assumes "au_secret st = Some s" "s \<noteq> []"
  shows "redeem lib inp (Some (JObj [(''token'', JStr (jw_sign lib c s ttl t0))])) st =
    (if \<not> ai_now inp div 1000 < t0 div 1000 + ttl then (fail 401 ''jwt expired'', st)
     else if cl_kind c \<noteq> ''magic'' then (fail 401 ''token kind mismatch'', st)
     else if isJtiRedeemed (cl_jti c) st then (fail 409 ''link already used'', st)
     else (Resp 200 (JObj [(''ok'', JBool True),
        (''token'', JStr (jw_sign lib \<lparr>cl_sub = cl_sub c, cl_kind = ''session'', cl_jti = ai_uuid inp\<rparr> s SESSION_TTL_SECONDS (ai_now inp))),
        (''email'', JStr (cl_sub c)), (''expSeconds'', JNum (of_nat SESSION_TTL_SECONDS))]),
        markJtiRedeemed (ai_now inp) (cl_jti c) st))"
  using assms sign_text [of c s ttl t0]
  by (simp add: redeem_def verify_signed signSession_cached)

end

definition token_body :: "string \<Rightarrow> jsval" where
  "token_body t = Some (JObj [(''token'', JStr t)])"

text \<open>
  C6. A magic link works at most once: after its token was redeemed, and any number of other
  requests in between, redeeming it again never yields a session, since the token is still
  recorded as used, whatever the sweeps of the record removed, or it has expired.
\<close>

theorem magic_link_single_use:
  fixes es1 es2 :: "auth_event list" and email :: string
  assumes "jwt lib" and "au_secret st = Some s" and "s \<noteq> []" and "jm_wf (au_redeemed st)"
    and "sorted (ai_now inp0 # map event_now es1 @ ai_now inp1 # map event_now es2 @ [ai_now inp2])"
  defines "token \<equiv> fst (fst (signMagicLink lib inp0 email st))"
  defines "st1 \<equiv> auth_run lib es1 (snd (signMagicLink lib inp0 email st))"
  defines "st2 \<equiv> auth_run lib es2 (snd (redeem lib inp1 (token_body token) st1))"
  assumes "fst (redeem lib inp1 (token_body token) st1) = Resp 200 session"
  shows "fst (redeem lib inp2 (token_body token) st2) \<in> {fail 409 ''link already used'', fail 401 ''jwt expired''}
    \<and> snd (redeem lib inp2 (token_body token) st2) = st2"
proof -
  define c where "c = \<lparr>cl_sub = email, cl_kind = ''magic'', cl_jti = ai_uuid inp0\<rparr>"
  have token: "token = jw_sign lib c s MAGIC_TTL_SECONDS (ai_now inp0)" "snd (signMagicLink lib inp0 email st) = st"
    using assms(2,3) by (simp_all add: token_def c_def signMagicLink_def getSecret_cached)
  have run1: "au_secret (auth_run lib es st) = Some s \<and> jm_wf (au_redeemed (auth_run lib es st))" for es
  proof (induction es rule: rev_induct)
    case (snoc e es)
    then show ?case
      using auth_act_effect [of "auth_run lib es st" s lib e] assms(3)
      by (auto simp: auth_run_def markJtiRedeemed_def Let_def gc_redeemed_wf)
  qed (use assms(2,4) in \<open>simp add: auth_run_def\<close>)
  have s1: "au_secret st1 = Some s" "jm_wf (au_redeemed st1)" using run1 [of es1] by (simp_all add: st1_def token(2))
  note redeem = jwt.redeem_signed [OF assms(1)]
  have did: "snd (redeem lib inp1 (token_body token) st1) = markJtiRedeemed (ai_now inp1) (ai_uuid inp0) st1"
    using assms(9) redeem [OF s1(1) assms(3), of inp1 c MAGIC_TTL_SECONDS "ai_now inp0"]
    by (auto simp: token(1) token_body_def fail_def c_def split: if_splits)
  have "spent (ai_uuid inp0) (ai_now inp1) (ai_now inp2) st2 \<and> au_secret st2 = Some s"
    unfolding st2_def did
    by (rule spent_run [of _ _ "ai_now inp1"]) (use s1 assms(3,5) spent_new in \<open>auto simp: sorted_append\<close>)
  then have sp: "spent (ai_uuid inp0) (ai_now inp1) (ai_now inp2) st2" and s2: "au_secret st2 = Some s" by blast+
  have order: "ai_now inp0 \<le> ai_now inp1" using assms(5) by (simp add: sorted_append)
  show ?thesis
  proof (cases "ai_now inp1 + REDEEM_RETENTION_MS < ai_now inp2")
    case True
    then have "\<not> ai_now inp2 div 1000 < ai_now inp0 div 1000 + MAGIC_TTL_SECONDS"
      using order by (simp add: REDEEM_RETENTION_MS_def MAGIC_TTL_SECONDS_def)
    then show ?thesis
      using redeem [OF s2 assms(3), of inp2 c MAGIC_TTL_SECONDS "ai_now inp0"] by (simp add: token(1) token_body_def)
  next
    case False
    with sp have "isJtiRedeemed (cl_jti c) st2" by (auto simp: spent_def isJtiRedeemed_def c_def)
    then show ?thesis
      using redeem [OF s2 assms(3), of inp2 c MAGIC_TTL_SECONDS "ai_now inp0"] by (simp add: token(1) token_body_def c_def)
  qed
qed

definition at_time :: "nat \<Rightarrow> string \<Rightarrow> auth_in" where
  "at_time t uuid = \<lparr>ai_env_secret = None, ai_random = ''r'', ai_uuid = uuid, ai_now = t\<rparr>"

lemma at_time_simps [simp]: "ai_now (at_time t u) = t" "ai_uuid (at_time t u) = u"
  by (simp_all add: at_time_def)

definition started :: auth where
  "started = \<lparr>au_secret = Some ''k'', au_redeemed = []\<rparr>"

lemma started_simps: "au_secret started = Some ''k''" "jm_wf (au_redeemed started)" "''k'' \<noteq> []"
  by (simp_all add: started_def)

theorem magic_link_single_use_witness:
  "(let token = fst (fst (signMagicLink plain_jwt (at_time 0 ''j'') ''a@b.c'' started));
        st2 = snd (redeem plain_jwt (at_time 5 ''s'') (token_body token) started) in
    fst (redeem plain_jwt (at_time 9 ''t'') (token_body token) st2) \<in> {fail 409 ''link already used'', fail 401 ''jwt expired''})"
proof -
  let ?token = "fst (fst (signMagicLink plain_jwt (at_time 0 ''j'') ''a@b.c'' started))"
  have tok: "?token = jw_sign plain_jwt \<lparr>cl_sub = ''a@b.c'', cl_kind = ''magic'', cl_jti = ''j''\<rparr> ''k'' MAGIC_TTL_SECONDS 0"
    "snd (signMagicLink plain_jwt (at_time 0 ''j'') ''a@b.c'' started) = started"
    by (simp_all add: signMagicLink_def getSecret_cached [OF started_simps(1,3)])
  obtain session where "fst (redeem plain_jwt (at_time 5 ''s'') (token_body ?token) started) = Resp 200 session"
    unfolding tok token_body_def
    by (simp add: plain.redeem_signed [OF started_simps(1,3)] MAGIC_TTL_SECONDS_def isJtiRedeemed_def) (simp add: started_def)
  with magic_link_single_use [OF plain.jwt_axioms started_simps(1,3,2), of "at_time 0 ''j''" "[]" "at_time 5 ''s''" "[]" "at_time 9 ''t''" "''a@b.c''" session]
  show ?thesis by (simp add: tok(2) auth_run_def Let_def)
qed

text \<open>
  From link to session: the token of a fresh magic link, redeemed within its ten minutes,
  yields a session for the same email, and for the next 24 hours that session is recognised by
  \<open>/auth/me\<close> and by the handshake of the signaling socket, required or not.
\<close>

theorem magic_link_leads_to_session:
  fixes email :: string and inp0 :: auth_in
  assumes "jwt lib" and "au_secret st = Some s" and "s \<noteq> []" and "jm_wf (au_redeemed st)" and "\<not> isJtiRedeemed (ai_uuid inp0) st"
    and "ai_now inp1 < ai_now inp0 + 599000" and "ai_now inp2 < ai_now inp1 + 86399000"
  defines "token \<equiv> fst (fst (signMagicLink lib inp0 email st))"
  shows "\<exists>session st'. redeem lib inp1 (token_body token) st =
        (Resp 200 (JObj [(''ok'', JBool True), (''token'', JStr session), (''email'', JStr email), (''expSeconds'', JNum 86400)]), st')
      \<and> isJtiRedeemed (ai_uuid inp0) st'
      \<and> me lib inp2 (Some (''Bearer '' @ session)) st' = (Resp 200 (JObj [(''ok'', JBool True), (''email'', JStr email)]), st')
      \<and> auth_middleware lib inp2 req (Some (JStr session)) st' = (Admit (Some email), st')"
proof -
  define c where "c = \<lparr>cl_sub = email, cl_kind = ''magic'', cl_jti = ai_uuid inp0\<rparr>"
  define session where "session = jw_sign lib \<lparr>cl_sub = email, cl_kind = ''session'', cl_jti = ai_uuid inp1\<rparr> s SESSION_TTL_SECONDS (ai_now inp1)"
  define st' where "st' = markJtiRedeemed (ai_now inp1) (ai_uuid inp0) st"
  have token: "token = jw_sign lib c s MAGIC_TTL_SECONDS (ai_now inp0)"
    using assms(2,3) by (simp add: token_def c_def signMagicLink_def getSecret_cached)
  have fresh1: "ai_now inp1 div 1000 < ai_now inp0 div 1000 + MAGIC_TTL_SECONDS"
    using assms(6) by (simp add: MAGIC_TTL_SECONDS_def)
  have fresh2: "ai_now inp2 div 1000 < ai_now inp1 div 1000 + SESSION_TTL_SECONDS"
    using assms(7) by (simp add: SESSION_TTL_SECONDS_def)
  have s': "au_secret st' = Some s" using assms(2) by (simp add: st'_def)
  have r: "redeem lib inp1 (token_body token) st =
        (Resp 200 (JObj [(''ok'', JBool True), (''token'', JStr session), (''email'', JStr email), (''expSeconds'', JNum 86400)]), st')"
    using jwt.redeem_signed [OF assms(1-3), of inp1 c MAGIC_TTL_SECONDS "ai_now inp0"] fresh1 assms(5)
    by (simp add: token token_body_def c_def session_def st'_def SESSION_TTL_SECONDS_def)
  have "session \<noteq> []" using jwt.sign_text [OF assms(1)] by (simp add: session_def)
  then have "me lib inp2 (Some (''Bearer '' @ session)) st' = (Resp 200 (JObj [(''ok'', JBool True), (''email'', JStr email)]), st')"
    and "auth_middleware lib inp2 req (Some (JStr session)) st' = (Admit (Some email), st')"
    using jwt.verify_signed [OF assms(1) s' assms(3)] jwt.sign_bearer [OF assms(1)] fresh2
    unfolding session_def by (simp_all add: me_def auth_middleware_def del: append.simps)
  moreover have "isJtiRedeemed (ai_uuid inp0) st'"
    using spent_new [OF assms(4), of "ai_uuid inp0" "ai_now inp1"] by (auto simp: st'_def spent_def isJtiRedeemed_def)
  ultimately show ?thesis using r by blast
qed

theorem magic_link_leads_to_session_witness:
  "\<exists>session st'. auth_middleware plain_jwt (at_time 70000 ''u'') True (Some (JStr session)) st' = (Admit (Some ''a@b.c''), st')"
proof -
  have "\<not> isJtiRedeemed (ai_uuid (at_time 0 ''j'')) started" by (simp add: started_def isJtiRedeemed_def)
  from magic_link_leads_to_session [OF plain.jwt_axioms started_simps(1,3,2) this, of "at_time 60000 ''s''" "at_time 70000 ''u''" "''a@b.c''" True]
  show ?thesis by auto
qed

text \<open>
  The kinds of token do not mix: a session token cannot be redeemed, and a magic token
  neither names a user at \<open>/auth/me\<close> nor passes the handshake where authentication is required.
\<close>

theorem token_kinds_do_not_mix:
  fixes email :: string and inp0 :: auth_in
  assumes "jwt lib" and "au_secret st = Some s" and "s \<noteq> []"
  defines "magic \<equiv> fst (fst (signMagicLink lib inp0 email st))"
  defines "session \<equiv> fst (fst (signSession lib inp0 email st))"
  shows "(\<exists>e. redeem lib inp1 (token_body session) st = (fail 401 e, st))
    \<and> (\<exists>e. me lib inp1 (Some (''Bearer '' @ magic)) st = (fail 401 e, st))
    \<and> (\<exists>e. auth_middleware lib inp1 True (Some (JStr magic)) st = (Reject e, st))
    \<and> auth_middleware lib inp1 False (Some (JStr magic)) st = (Admit None, st)"
proof -
  let ?m = "\<lparr>cl_sub = email, cl_kind = ''magic'', cl_jti = ai_uuid inp0\<rparr>"
  have m: "magic = jw_sign lib ?m s MAGIC_TTL_SECONDS (ai_now inp0)"
    using assms(2,3) by (simp add: magic_def signMagicLink_def getSecret_cached)
  have ses: "session = jw_sign lib \<lparr>cl_sub = email, cl_kind = ''session'', cl_jti = ai_uuid inp0\<rparr> s SESSION_TTL_SECONDS (ai_now inp0)"
    using assms(2,3) by (simp add: session_def signSession_cached)
  obtain e where v: "verifyToken lib inp1 magic ''session'' st = (Inl e, st)"
    using jwt.verify_signed [OF assms(1-3), of inp1 ?m MAGIC_TTL_SECONDS "ai_now inp0" "''session''"] unfolding m by (auto split: if_splits)
  moreover have "magic \<noteq> []" using jwt.sign_text [OF assms(1)] by (simp add: m)
  ultimately have "auth_middleware lib inp1 True (Some (JStr magic)) st = (Reject (''auth failed: '' @ e), st)"
    "auth_middleware lib inp1 False (Some (JStr magic)) st = (Admit None, st)"
    "me lib inp1 (Some (''Bearer '' @ magic)) st = (fail 401 e, st)"
    using jwt.sign_bearer [OF assms(1), of ?m s MAGIC_TTL_SECONDS "ai_now inp0"]
    by (simp_all add: auth_middleware_def me_def m del: append.simps)
  moreover have "\<exists>e. redeem lib inp1 (token_body session) st = (fail 401 e, st)"
    unfolding ses token_body_def by (auto simp: jwt.redeem_signed [OF assms(1-3)])
  ultimately show ?thesis by blast
qed

theorem token_kinds_do_not_mix_witness:
  "auth_middleware plain_jwt (at_time 3 ''x'') False (Some (JStr (fst (fst (signMagicLink plain_jwt (at_time 0 ''j'') ''a@b.c'' started))))) started
    = (Admit None, started)"
  using token_kinds_do_not_mix [OF plain.jwt_axioms started_simps(1,3), of "at_time 3 ''x''" "at_time 0 ''j''" "''a@b.c''"] by blast

end
