(* ===== verification/ServerRoutes.thy ===== *)
theory ServerRoutes imports Auth begin

text \<open>
  The remaining HTTP routes of the server: TURN credentials (\<open>turn/routes.ts\<close>), the mail route and
  its transporter (\<open>mail/routes.ts\<close>, \<open>mail/transporter.ts\<close>). HMAC-SHA1 in base64 is a parameter, and so
  are numbers read from text (\<open>None\<close> when not finite) and the outcome of sending.
\<close>

section \<open>TURN credentials\<close>

fun split_comma :: "string \<Rightarrow> string list" where
  "split_comma [] = [[]]"
| "split_comma (c # cs) = (if c = CHR '','' then [] # split_comma cs
     else (case split_comma cs of [] \<Rightarrow> [[c]] | w # ws \<Rightarrow> (c # w) # ws))"

definition STUN_SERVERS :: "string option \<Rightarrow> string list" where
  "STUN_SERVERS env = filter (\<lambda>u. length u > 0) (map trim (split_comma (first_of [env] ''stun:stun.l.google.com:19302'')))"

record turn_env =
  te_stun :: "string option"
  te_token :: "string option"
  te_secret :: "string option"
  te_host :: "string option"
  te_port :: "string option"
  te_tlsPort :: "string option"
  te_tls :: "string option"

record turn_request =
  tr_authorization :: "string option"
  tr_token :: jsval
  tr_ttl :: "rat option"
  tr_userId :: jsval

datatype ice_server = Stun string | Turn "string list" string string

record turn_reply =
  tp_iceServers :: "ice_server list"
  tp_ttl :: int
  tp_expiresAt :: int
  tp_turnAvailable :: bool

definition bearer_slice :: "string \<Rightarrow> string option" where
  "bearer_slice auth = (if take 7 auth = ''Bearer '' then Some (drop 7 auth) else None)"

definition turn_token :: "turn_request \<Rightarrow> string" where
  "turn_token req = (case bearer_slice (first_of [tr_authorization req] []) of
     Some t \<Rightarrow> t
   | None \<Rightarrow> if is_str (tr_token req) then str_of (tr_token req) else [])"

definition turn_ttl :: "rat option \<Rightarrow> int" where
  "turn_ttl requested = (case requested of
     Some x \<Rightarrow> if x > 0 then min \<lfloor>x\<rfloor> (24 * 60 * 60) else 5 * 60
   | None \<Rightarrow> 5 * 60)"

definition user_char :: "char \<Rightarrow> bool" where
  "user_char c \<longleftrightarrow> (let n = (of_char c :: nat) in
     65 \<le> n \<and> n \<le> 90 \<or> 97 \<le> n \<and> n \<le> 122 \<or> 48 \<le> n \<and> n \<le> 57 \<or> c = CHR ''_'' \<or> c = CHR ''.'' \<or> c = CHR ''-'')"

definition turn_user :: "jsval \<Rightarrow> string" where
  "turn_user userId = (if is_str userId \<and> length (str_of userId) > 0
     then take 64 (filter user_char (str_of userId)) else ''guest'')"

definition turn_urls :: "turn_env \<Rightarrow> string \<Rightarrow> string list" where
  "turn_urls env host =
    (let port = first_of [te_port env] ''3478''; tlsPort = first_of [te_tlsPort env] ''5349'' in
     [''turn:'' @ host @ '':'' @ port @ ''?transport=udp'', ''turn:'' @ host @ '':'' @ port @ ''?transport=tcp'']
     @ (if te_tls env = Some ''true'' then [''turns:'' @ host @ '':'' @ tlsPort @ ''?transport=tcp''] else []))"

text \<open>\<open>now\<close> in milliseconds; \<open>Inl\<close> is the status of a refusal.\<close>

definition turn_credentials ::
  "(string \<Rightarrow> string \<Rightarrow> string) \<Rightarrow> turn_env \<Rightarrow> nat \<Rightarrow> turn_request \<Rightarrow> nat + turn_reply" where
  "turn_credentials hmac env now req =
    (if truthy (te_token env) \<and> Some (turn_token req) \<noteq> te_token env then Inl 401
     else if \<not> truthy (te_secret env) \<or> \<not> truthy (te_host env) then
       Inr \<lparr>tp_iceServers = map Stun (STUN_SERVERS (te_stun env)), tp_ttl = 0, tp_expiresAt = 0, tp_turnAvailable = False\<rparr>
     else
       let ttl = turn_ttl (tr_ttl req);
           expiry = nat (int (now div 1000) + ttl);
           username = nat_str expiry @ '':'' @ turn_user (tr_userId req);
           credential = hmac (the (te_secret env)) username
       in Inr \<lparr>tp_iceServers = map Stun (STUN_SERVERS (te_stun env)) @ [Turn (turn_urls env (the (te_host env))) username credential],
               tp_ttl = ttl, tp_expiresAt = int expiry * 1000, tp_turnAvailable = True\<rparr>)"

text \<open>What the TURN server reads back from a user name.\<close>

definition expiry_field :: "string \<Rightarrow> string" where
  "expiry_field username = takeWhile (\<lambda>c. c \<noteq> CHR '':'') username"

lemma turn_ttl_range: "0 \<le> turn_ttl x \<and> turn_ttl x \<le> 86400"
  by (simp add: turn_ttl_def split: option.split)

lemma expiry_field_text: "expiry_field (nat_str n @ '':'' @ u) = nat_str n"
  using colon_notin_nat_str [of n] unfolding expiry_field_def by (subst takeWhile_append2) auto

lemma turn_user_chars: "list_all user_char (turn_user v) \<and> length (turn_user v) \<le> 64"
proof -
  have "list_all user_char ''guest''" by code_simp
  moreover have "list_all user_char (take 64 (filter user_char s))" for s
    by (auto simp: list_all_iff dest: in_set_takeD)
  ultimately show ?thesis by (simp add: turn_user_def)
qed

text \<open>
  TURN credentials: a configured token must be presented exactly; the life time is at most a
  day; the user name is the expiry of the credential, a colon, and at most 64 harmless
  characters, so that reading it up to the first colon gives back the expiry; and the
  credential is the HMAC of just that user name under the configured secret.
\<close>

theorem turn_credentials_form:
  assumes "turn_credentials hmac env now req = Inr reply" and "tp_turnAvailable reply"
  shows "(\<not> truthy (te_token env) \<or> te_token env = Some (turn_token req)) \<and>
    0 \<le> tp_ttl reply \<and> tp_ttl reply \<le> 86400 \<and>
    (\<exists>urls user. last (tp_iceServers reply) = Turn urls user (hmac (the (te_secret env)) user) \<and>
       expiry_field user = nat_str (nat (int (now div 1000) + tp_ttl reply)) \<and>
       tp_expiresAt reply = (int (now div 1000) + tp_ttl reply) * 1000 \<and>
       list_all user_char (drop (Suc (length (expiry_field user))) user) \<and>
       length (drop (Suc (length (expiry_field user))) user) \<le> 64)"
proof -
  let ?ttl = "turn_ttl (tr_ttl req)"
  let ?user = "nat_str (nat (int (now div 1000) + ?ttl)) @ '':'' @ turn_user (tr_userId req)"
  from assms have t: "\<not> truthy (te_token env) \<or> te_token env = Some (turn_token req)"
    and r: "reply = \<lparr>tp_iceServers = map Stun (STUN_SERVERS (te_stun env)) @ [Turn (turn_urls env (the (te_host env))) ?user (hmac (the (te_secret env)) ?user)],
        tp_ttl = ?ttl, tp_expiresAt = int (nat (int (now div 1000) + ?ttl)) * 1000, tp_turnAvailable = True\<rparr>"
    by (auto simp: turn_credentials_def Let_def split: if_splits)
  note range = turn_ttl_range [of "tr_ttl req"]
  have "drop (Suc (length (expiry_field ?user))) ?user = turn_user (tr_userId req)"
    unfolding expiry_field_text by simp
  then show ?thesis
    using t range turn_user_chars [of "tr_userId req"] expiry_field_text by (simp add: r)
qed

definition demo_turn_env :: turn_env where
  "demo_turn_env = \<lparr>te_stun = None, te_token = Some ''t'', te_secret = Some ''s'', te_host = Some ''h'', te_port = None, te_tlsPort = None, te_tls = None\<rparr>"

definition demo_turn_request :: turn_request where
  "demo_turn_request = \<lparr>tr_authorization = Some ''Bearer t'', tr_token = None, tr_ttl = Some 3, tr_userId = Some (JStr ''a:b'')\<rparr>"

lemma demo_turn: "\<exists>reply. turn_credentials (\<lambda>s u. s @ u) demo_turn_env 5000 demo_turn_request = Inr reply \<and> tp_turnAvailable reply \<and> tp_ttl reply = 3"
  by (simp add: turn_credentials_def demo_turn_env_def demo_turn_request_def truthy_def turn_token_def bearer_slice_def turn_ttl_def Let_def)

theorem turn_credentials_form_witness:
  "\<exists>reply urls user. turn_credentials (\<lambda>s u. s @ u) demo_turn_env 5000 demo_turn_request = Inr reply
    \<and> last (tp_iceServers reply) = Turn urls user (''s'' @ user) \<and> expiry_field user = nat_str 8"
proof -
  obtain reply where r: "turn_credentials (\<lambda>s u. s @ u) demo_turn_env 5000 demo_turn_request = Inr reply" "tp_turnAvailable reply" "tp_ttl reply = 3"
    using demo_turn by blast
  from turn_credentials_form [OF r(1,2)] r(1,3) show ?thesis by (auto simp: demo_turn_env_def)
qed

section \<open>The mail route\<close>

text \<open>\<open>getTransporter\<close> caches what it creates; \<open>sendMail\<close> on it may fail. Both outcomes are inputs.\<close>

datatype transport_config = Smtp string int bool "(string \<times> string) option" | TestAccount json

record mail_env =
  me_token :: "string option"
  me_host :: "string option"
  me_port :: "int option"
  me_secure :: "string option"
  me_user :: "string option"
  me_pass :: "string option"
  me_smtpFrom :: "string option"

definition getTransporter :: "mail_env \<Rightarrow> json result \<Rightarrow> transport_config option \<Rightarrow> transport_config result \<times> transport_config option" where
  "getTransporter env account cached = (case cached of
     Some t \<Rightarrow> (ok t, cached)
   | None \<Rightarrow>
       if truthy (me_host env) then
         let t = Smtp (the (me_host env)) (case me_port env of None \<Rightarrow> 587 | Some p \<Rightarrow> if p = 0 then 587 else p)
                   (me_secure env = Some ''true'')
                   (if truthy (me_user env) \<and> truthy (me_pass env) then Some (the (me_user env), the (me_pass env)) else None)
         in (ok t, Some t)
       else (case account of Inl e \<Rightarrow> (throw e, None) | Inr a \<Rightarrow> (ok (TestAccount a), Some (TestAccount a))))"

definition resetTransporter :: "transport_config option \<Rightarrow> transport_config option" where
  "resetTransporter cached = None"

definition truthy_val :: "jsval \<Rightarrow> bool" where
  "truthy_val v = (case v of None \<Rightarrow> False | Some x \<Rightarrow> (case x of
     JNull \<Rightarrow> False | JBool b \<Rightarrow> b | JNum n \<Rightarrow> n \<noteq> 0 | JStr s \<Rightarrow> s \<noteq> [] | _ \<Rightarrow> True))"

definition or_text :: "string option list \<Rightarrow> string \<Rightarrow> string" where
  "or_text vs d = (case find truthy vs of Some (Some s) \<Rightarrow> s | _ \<Rightarrow> d)"

text \<open>\<open>sent\<close> gives the message identifier and the preview URL, or the error.\<close>

definition mail_send ::
  "mail_env \<Rightarrow> json result \<Rightarrow> (json list \<Rightarrow> (string \<times> jsval) result) \<Rightarrow> string option \<Rightarrow> jsval \<Rightarrow> transport_config option
    \<Rightarrow> response \<times> transport_config option" where
  "mail_send env account sent header body cached =
    (if truthy (me_token env) \<and> Some (case bearer_slice (first_of [header] []) of Some t \<Rightarrow> t | None \<Rightarrow> []) \<noteq> me_token env then
       (Resp 401 (JObj [(''error'', JStr ''unauthorized'')]), cached)
     else
       let to = jget body ''to''; subject = jget body ''subject''; txt = jget body ''text''; html = jget body ''html'' in
       if \<not> truthy_val to \<or> \<not> truthy_val subject \<or> \<not> truthy_val txt \<and> \<not> truthy_val html then
         (Resp 400 (JObj [(''error'', JStr ''Missing required fields: to, subject, and text or html'')]), cached)
       else (case getTransporter env account cached of
          (Inl e, cached') \<Rightarrow> (fail 500 e, cached')
        | (Inr t, cached') \<Rightarrow>
            (case sent [JObj ((''from'', JStr (or_text [me_smtpFrom env, me_user env] ''no-reply@example.com''))
                # field ''to'' to @ field ''subject'' subject @ field ''text'' txt @ field ''html'' html)] of
               Inl e \<Rightarrow> (fail 500 e, cached')
             | Inr (messageId, preview) \<Rightarrow> (Resp 200 (JObj ([(''ok'', JBool True), (''messageId'', JStr messageId)]
                 @ field ''previewUrl'' (if truthy (me_host env) then None else preview))), cached'))))"

end
