(* ===== verification/Heartbeat.thy ===== *)
theory Heartbeat imports Validate begin

text \<open>
  The heartbeat of a data channel (\<open>resilience/heartbeat.ts\<close>) and the health badge computed from it
  (\<open>useConnectionHealth.ts\<close>). A sender is a token; whether writing to it succeeds, and the clock,
  are inputs of a tick. Calls of the outside are effects.
\<close>

section \<open>State\<close>

datatype hb_status = Healthy | Stale | Unhealthy | Dead

record peer_heartbeat =
  rttMs :: "nat option"
  lastPongAt :: "nat option"
  consecutiveMisses :: nat
  status :: hb_status

record hb_options =
  intervalMs :: nat
  unhealthyAfterMisses :: nat
  deadAfterMisses :: nat
  staleAfterMisses :: nat

definition default_hb_options :: hb_options where
  "default_hb_options = \<lparr>intervalMs = 5000, unhealthyAfterMisses = 3, deadAfterMisses = 6, staleAfterMisses = 1\<rparr>"

text \<open>\<open>pending\<close> maps the identifier of a ping to the time it was sent.\<close>

record 's peer_entry =
  pe_state :: peer_heartbeat
  pe_sender :: 's
  pe_pending :: "(rat, nat) jmap"
  pe_nextPingId :: nat
  pe_unhealthyFired :: bool

record 's tracker =
  hb_peers :: "(string, 's peer_entry) jmap"
  hb_subs :: "nat list"
  hb_timer :: bool
  hb_opts :: hb_options

datatype hb_effect = Ping string rat nat | OnUnhealthy string | Notify nat "(string \<times> peer_heartbeat) list"

section \<open>Operations\<close>

definition new_tracker :: "hb_options \<Rightarrow> 's tracker" where
  "new_tracker opts = \<lparr>hb_peers = [], hb_subs = [], hb_timer = False, hb_opts = opts\<rparr>"

definition hb_start :: "'s tracker \<Rightarrow> 's tracker" where
  "hb_start t = (if hb_timer t then t else t\<lparr>hb_timer := True\<rparr>)"

definition hb_stop :: "'s tracker \<Rightarrow> 's tracker" where
  "hb_stop t = (if hb_timer t then t\<lparr>hb_timer := False\<rparr> else t)"

definition hb_snapshot :: "'s tracker \<Rightarrow> (string \<times> peer_heartbeat) list" where
  "hb_snapshot t = map (\<lambda>(p, e). (p, pe_state e)) (hb_peers t)"

definition publish :: "'s tracker \<Rightarrow> hb_effect list" where
  "publish t = map (\<lambda>s. Notify s (hb_snapshot t)) (hb_subs t)"

definition hb_subscribe :: "nat \<Rightarrow> 's tracker \<Rightarrow> 's tracker \<times> hb_effect list" where
  "hb_subscribe s t = (t\<lparr>hb_subs := (if s \<in> set (hb_subs t) then hb_subs t else hb_subs t @ [s])\<rparr>, [Notify s (hb_snapshot t)])"

definition hb_unsubscribe :: "nat \<Rightarrow> 's tracker \<Rightarrow> 's tracker" where
  "hb_unsubscribe s t = t\<lparr>hb_subs := removeAll s (hb_subs t)\<rparr>"

definition fresh_state :: peer_heartbeat where
  "fresh_state = \<lparr>rttMs = None, lastPongAt = None, consecutiveMisses = 0, status = Healthy\<rparr>"

definition addPeer :: "string \<Rightarrow> 's \<Rightarrow> 's tracker \<Rightarrow> 's tracker \<times> hb_effect list" where
  "addPeer p sender t = (case jm_get (hb_peers t) p of
     Some e \<Rightarrow>
       let e' = e\<lparr>pe_sender := sender, pe_unhealthyFired := False,
                  pe_state := (pe_state e)\<lparr>consecutiveMisses := 0, status := Healthy\<rparr>\<rparr>;
           t' = t\<lparr>hb_peers := jm_set (hb_peers t) p e'\<rparr>
       in (t', publish t')
   | None \<Rightarrow>
       let t' = t\<lparr>hb_peers := jm_set (hb_peers t) p
             \<lparr>pe_state = fresh_state, pe_sender = sender, pe_pending = [], pe_nextPingId = 1, pe_unhealthyFired = False\<rparr>\<rparr>
       in (t', publish t'))"

definition removePeer :: "string \<Rightarrow> 's tracker \<Rightarrow> 's tracker \<times> hb_effect list" where
  "removePeer p t = (if jm_has (hb_peers t) p
     then let t' = t\<lparr>hb_peers := jm_del (hb_peers t) p\<rparr> in (t', publish t') else (t, []))"

definition ping_frame :: "rat \<Rightarrow> nat \<Rightarrow> json" where
  "ping_frame i t = JObj [(''type'', JStr ''hb-ping''), (''id'', JNum i), (''t'', JNum (of_nat t))]"

definition handlePing :: "jsval \<Rightarrow> json option" where
  "handlePing raw = (if jget raw ''type'' \<noteq> Some (JStr ''hb-ping'') then None
     else (case (jget raw ''id'', jget raw ''t'') of
       (Some (JNum i), Some (JNum x)) \<Rightarrow> Some (JObj [(''type'', JStr ''hb-pong''), (''id'', JNum i), (''t'', JNum x)])
     | _ \<Rightarrow> None))"

definition handlePong :: "nat \<Rightarrow> string \<Rightarrow> jsval \<Rightarrow> 's tracker \<Rightarrow> (bool \<times> 's tracker) \<times> hb_effect list" where
  "handlePong now p raw t = (case (jget raw ''type'', jget raw ''id'') of
     (Some (JStr ty), Some (JNum i)) \<Rightarrow>
       if ty \<noteq> ''hb-pong'' then ((False, t), [])
       else (case jm_get (hb_peers t) p of
           None \<Rightarrow> ((False, t), [])
         | Some e \<Rightarrow> (case jm_get (pe_pending e) i of
             None \<Rightarrow> ((False, t), [])
           | Some sentAt \<Rightarrow>
               let e' = e\<lparr>pe_pending := jm_del (pe_pending e) i,
                          pe_state := \<lparr>rttMs = Some (now - sentAt), lastPongAt = Some now, consecutiveMisses = 0, status = Healthy\<rparr>,
                          pe_unhealthyFired := False\<rparr>;
                   t' = t\<lparr>hb_peers := jm_set (hb_peers t) p e'\<rparr>
               in ((True, t'), publish t')))
   | _ \<Rightarrow> ((False, t), []))"

definition classify :: "hb_options \<Rightarrow> nat \<Rightarrow> hb_status" where
  "classify opts misses =
    (if misses \<ge> deadAfterMisses opts then Dead
     else if misses \<ge> unhealthyAfterMisses opts then Unhealthy
     else if misses \<ge> staleAfterMisses opts then Stale
     else Healthy)"

text \<open>One more miss: the new state and whether the status changed.\<close>

definition count_miss :: "hb_options \<Rightarrow> peer_heartbeat \<Rightarrow> peer_heartbeat \<times> bool" where
  "count_miss opts s =
    (let n = consecutiveMisses s + 1; st = classify opts n in
     (s\<lparr>consecutiveMisses := n, status := st\<rparr>, status s \<noteq> st))"

definition old_pings :: "hb_options \<Rightarrow> nat \<Rightarrow> (rat, nat) jmap \<Rightarrow> (rat, nat) jmap" where
  "old_pings opts now ps = filter (\<lambda>(i, sentAt). \<not> int sentAt < int now - int (intervalMs opts * (deadAfterMisses opts + 1))) ps"

text \<open>The first half of a round: the pings still unanswered.\<close>

definition account_pending :: "hb_options \<Rightarrow> nat \<Rightarrow> string \<Rightarrow> 's peer_entry \<Rightarrow> ('s peer_entry \<times> bool) \<times> hb_effect list" where
  "account_pending opts now p e =
    (if pe_pending e = [] then ((e, False), [])
     else (case count_miss opts (pe_state e) of (s, changed) \<Rightarrow>
       let fire = (status s = Unhealthy \<and> \<not> pe_unhealthyFired e) in
       ((e\<lparr>pe_pending := old_pings opts now (pe_pending e), pe_state := s, pe_unhealthyFired := pe_unhealthyFired e \<or> fire\<rparr>, changed),
        if fire then [OnUnhealthy p] else [])))"

text \<open>The second half: a fresh ping.\<close>

definition send_ping :: "hb_options \<Rightarrow> ('s \<Rightarrow> bool) \<Rightarrow> nat \<Rightarrow> string \<Rightarrow> 's peer_entry \<Rightarrow> ('s peer_entry \<times> bool) \<times> hb_effect list" where
  "send_ping opts writable now p e =
    (let i = of_nat (pe_nextPingId e); e1 = e\<lparr>pe_nextPingId := pe_nextPingId e + 1\<rparr> in
     if writable (pe_sender e) then ((e1\<lparr>pe_pending := jm_set (pe_pending e) i now\<rparr>, False), [Ping p i now])
     else (case count_miss opts (pe_state e) of (s, changed) \<Rightarrow> ((e1\<lparr>pe_state := s\<rparr>, changed), [Ping p i now])))"

definition tick_peer :: "hb_options \<Rightarrow> ('s \<Rightarrow> bool) \<Rightarrow> nat \<Rightarrow> string \<Rightarrow> 's peer_entry \<Rightarrow> ('s peer_entry \<times> bool) \<times> hb_effect list" where
  "tick_peer opts writable now p e = (case account_pending opts now p e of ((e1, c1), out1) \<Rightarrow>
     (case send_ping opts writable now p e1 of ((e2, c2), out2) \<Rightarrow> ((e2, c1 \<or> c2), out1 @ out2)))"

fun tick_peers :: "hb_options \<Rightarrow> ('s \<Rightarrow> bool) \<Rightarrow> nat \<Rightarrow> (string, 's peer_entry) jmap \<Rightarrow> ((string, 's peer_entry) jmap \<times> bool) \<times> hb_effect list" where
  "tick_peers opts writable now [] = (([], False), [])"
| "tick_peers opts writable now ((p, e) # ps) = (case tick_peer opts writable now p e of ((e', c), out) \<Rightarrow>
     (case tick_peers opts writable now ps of ((ps', c'), out') \<Rightarrow> (((p, e') # ps', c \<or> c'), out @ out')))"

definition hb_tick :: "('s \<Rightarrow> bool) \<Rightarrow> nat \<Rightarrow> 's tracker \<Rightarrow> 's tracker \<times> hb_effect list" where
  "hb_tick writable now t = (case tick_peers (hb_opts t) writable now (hb_peers t) of ((ps, changed), out) \<Rightarrow>
     let t' = t\<lparr>hb_peers := ps\<rparr> in (t', out @ (if changed then publish t' else [])))"

section \<open>The badge\<close>

datatype socket_health = Connected | Reconnecting | Disconnected
datatype overall_health = Good | Degraded | Bad

definition classifyOverall :: "socket_health \<Rightarrow> peer_heartbeat list \<Rightarrow> overall_health" where
  "classifyOverall socket states =
    (if socket = Disconnected then Bad
     else if socket = Reconnecting then Degraded
     else if states = [] then Good
     else
       let dead = length (filter (\<lambda>p. status p = Dead) states);
           unhealthy = length (filter (\<lambda>p. status p = Unhealthy) states);
           stale = length (filter (\<lambda>p. status p = Stale) states) in
       if dead > 0 then Bad
       else if unhealthy > 0 then Bad
       else if 2 * stale > length states then Degraded
       else if stale > 0 then Degraded
       else Good)"

record health_state =
  hs_socket :: socket_health
  hs_attempt :: nat
  hs_peers :: "(string \<times> peer_heartbeat) list"

datatype health_event =
    SocketChanged "bool option"
  | OnConnect
  | OnDisconnect
  | OnConnectError
  | OnAttempt nat
  | OnFailed
  | PeersPublished "(string \<times> peer_heartbeat) list"
  | NoHeartbeat

text \<open>\<open>SocketChanged None\<close>: there is no socket; otherwise whether the new one is connected.\<close>

fun health_act :: "health_event \<Rightarrow> health_state \<Rightarrow> health_state" where
  "health_act (SocketChanged None) s = s\<lparr>hs_socket := Disconnected, hs_attempt := 0\<rparr>"
| "health_act (SocketChanged (Some c)) s = s\<lparr>hs_socket := (if c then Connected else Reconnecting)\<rparr>"
| "health_act OnConnect s = s\<lparr>hs_socket := Connected, hs_attempt := 0\<rparr>"
| "health_act OnDisconnect s = s\<lparr>hs_socket := Reconnecting\<rparr>"
| "health_act OnConnectError s = (if hs_socket s = Connected then s\<lparr>hs_socket := Reconnecting\<rparr> else s)"
| "health_act (OnAttempt n) s = s\<lparr>hs_socket := Reconnecting, hs_attempt := n\<rparr>"
| "health_act OnFailed s = s\<lparr>hs_socket := Disconnected\<rparr>"
| "health_act (PeersPublished ps) s = s\<lparr>hs_peers := ps\<rparr>"
| "health_act NoHeartbeat s = s\<lparr>hs_peers := []\<rparr>"

definition overall :: "health_state \<Rightarrow> overall_health" where
  "overall s = classifyOverall (hs_socket s) (map snd (hs_peers s))"

section \<open>Facts about one peer\<close>

lemma classify_0: "0 < staleAfterMisses o1 \<Longrightarrow> 0 < unhealthyAfterMisses o1 \<Longrightarrow> 0 < deadAfterMisses o1 \<Longrightarrow> classify o1 0 = Healthy"
  by (simp add: classify_def)

lemma count_miss_fields:
  "consecutiveMisses (fst (count_miss opts s)) = consecutiveMisses s + 1"
  "status (fst (count_miss opts s)) = classify opts (consecutiveMisses s + 1)"
  by (simp_all add: count_miss_def Let_def)

text \<open>A round for a peer that can be written to.\<close>

lemma tick_peer_writable:
  assumes "writable (pe_sender e)"
  shows "tick_peer opts writable now p e =
    (let s = (if pe_pending e = [] then pe_state e else fst (count_miss opts (pe_state e)));
         fire = (pe_pending e \<noteq> [] \<and> status s = Unhealthy \<and> \<not> pe_unhealthyFired e);
         i = of_nat (pe_nextPingId e)
     in ((\<lparr>pe_state = s, pe_sender = pe_sender e, pe_pending = jm_set (old_pings opts now (pe_pending e)) i now,
           pe_nextPingId = pe_nextPingId e + 1, pe_unhealthyFired = pe_unhealthyFired e \<or> fire\<rparr>,
          pe_pending e \<noteq> [] \<and> snd (count_miss opts (pe_state e))),
         (if fire then [OnUnhealthy p] else []) @ [Ping p i now]))"
  using assms by (cases e) (auto simp: tick_peer_def account_pending_def send_ping_def old_pings_def Let_def split: prod.splits)

lemma tick_peers_get:
  "map_of (fst (fst (tick_peers opts writable now ps))) p = map_option (\<lambda>e. fst (fst (tick_peer opts writable now p e))) (map_of ps p)"
  by (induction ps) (auto split: prod.splits)

text \<open>A report of a peer can only come from that peer's part of the round.\<close>

lemma tick_peer_other: "q \<noteq> p \<Longrightarrow> count_list (snd (tick_peer opts writable now q e)) (OnUnhealthy p) = 0"
  by (auto simp: tick_peer_def account_pending_def send_ping_def Let_def split: prod.splits)

lemma tick_peers_notin:
  "p \<notin> fst ` set ps \<Longrightarrow> count_list (snd (tick_peers opts writable now ps)) (OnUnhealthy p) = 0"
proof (induction ps)
  case (Cons qe ps)
  then show ?case using tick_peer_other [of "fst qe" p opts writable now "snd qe"]
    by (cases qe) (auto split: prod.splits)
qed simp

lemma tick_peers_reports:
  "jm_wf ps \<Longrightarrow> count_list (snd (tick_peers opts writable now ps)) (OnUnhealthy p) =
    (case map_of ps p of None \<Rightarrow> 0 | Some e \<Rightarrow> count_list (snd (tick_peer opts writable now p e)) (OnUnhealthy p))"
proof (induction ps)
  case (Cons qe ps)
  obtain q e where qe: "qe = (q, e)" by fastforce
  show ?case
  proof (cases "q = p")
    case True
    with Cons.prems qe tick_peers_notin [of p ps opts writable now] show ?thesis by (auto split: prod.splits)
  next
    case False
    with Cons qe tick_peer_other [OF False, of opts writable now e] show ?thesis by (auto split: prod.splits)
  qed
qed simp

lemma tick_peers_keys: "map fst (fst (fst (tick_peers opts writable now ps))) = map fst ps"
  by (induction ps) (auto split: prod.splits)

lemma tick_get: "jm_get (hb_peers (fst (hb_tick writable now t))) p =
    map_option (\<lambda>e. fst (fst (tick_peer (hb_opts t) writable now p e))) (jm_get (hb_peers t) p)"
  using tick_peers_get [of "hb_opts t" writable now "hb_peers t" p]
  by (simp add: hb_tick_def Let_def case_prod_unfold)

lemma tick_fields [simp]:
  "hb_opts (fst (hb_tick writable now t)) = hb_opts t" "hb_subs (fst (hb_tick writable now t)) = hb_subs t"
  "map fst (hb_peers (fst (hb_tick writable now t))) = map fst (hb_peers t)"
  using tick_peers_keys [of "hb_opts t" writable now "hb_peers t"]
  by (simp_all add: hb_tick_def Let_def case_prod_unfold)

lemma tick_reports:
  "jm_wf (hb_peers t) \<Longrightarrow> count_list (snd (hb_tick writable now t)) (OnUnhealthy p) =
    (case jm_get (hb_peers t) p of None \<Rightarrow> 0 | Some e \<Rightarrow> count_list (snd (tick_peer (hb_opts t) writable now p e)) (OnUnhealthy p))"
proof -
  assume wf: "jm_wf (hb_peers t)"
  have "count_list (publish t') (OnUnhealthy p) = 0" for t' :: "'a tracker" by (auto simp: publish_def count_list_0_iff)
  with tick_peers_reports [OF wf, of "hb_opts t" writable now p] show ?thesis
    by (simp add: hb_tick_def Let_def case_prod_unfold)
qed

section \<open>Silence and answers\<close>

fun hb_ticks :: "('s \<Rightarrow> bool) \<Rightarrow> nat list \<Rightarrow> 's tracker \<Rightarrow> 's tracker \<times> hb_effect list" where
  "hb_ticks writable [] t = (t, [])"
| "hb_ticks writable (now # ns) t = (case hb_tick writable now t of (t1, out1) \<Rightarrow>
     (case hb_ticks writable ns t1 of (t2, out2) \<Rightarrow> (t2, out1 @ out2)))"

text \<open>A peer after \<open>k\<close> rounds without an answer.\<close>

definition silent_for :: "hb_options \<Rightarrow> nat \<Rightarrow> 's \<Rightarrow> 's peer_entry \<Rightarrow> bool" where
  "silent_for opts k s e \<longleftrightarrow> pe_sender e = s \<and> consecutiveMisses (pe_state e) = k - 1 \<and>
     status (pe_state e) = classify opts (k - 1) \<and> (pe_pending e = [] \<longleftrightarrow> k = 0) \<and>
     pe_unhealthyFired e = (unhealthyAfterMisses opts < k)"

lemma update_not_Nil: "AList.update k v m \<noteq> []"
  by (cases m) auto

lemma silent_tick:
  assumes thr: "0 < staleAfterMisses opts" "0 < unhealthyAfterMisses opts" "unhealthyAfterMisses opts < deadAfterMisses opts"
    and e: "silent_for opts k s e" and w: "writable s"
  shows "silent_for opts (Suc k) s (fst (fst (tick_peer opts writable now p e))) \<and>
    count_list (snd (tick_peer opts writable now p e)) (OnUnhealthy p) = of_bool (k = unhealthyAfterMisses opts)"
proof (cases "k = 0")
  case True
  with e w thr classify_0 [of opts] show ?thesis
    by (auto simp: silent_for_def tick_peer_writable Let_def update_not_Nil)
next
  case False
  have st: "classify opts k = Unhealthy \<longleftrightarrow> unhealthyAfterMisses opts \<le> k \<and> k < deadAfterMisses opts"
    by (auto simp: classify_def)
  from False e w thr show ?thesis
    by (auto simp: silent_for_def tick_peer_writable Let_def update_not_Nil count_miss_fields st)
qed

lemma silent_ticks:
  assumes thr: "0 < staleAfterMisses (hb_opts t)" "0 < unhealthyAfterMisses (hb_opts t)" "unhealthyAfterMisses (hb_opts t) < deadAfterMisses (hb_opts t)"
    and wf: "jm_wf (hb_peers t)" and e: "jm_get (hb_peers t) p = Some e" "silent_for (hb_opts t) k s e" and w: "writable s"
  shows "\<exists>e'. jm_get (hb_peers (fst (hb_ticks writable ns t))) p = Some e' \<and> silent_for (hb_opts t) (k + length ns) s e' \<and>
    count_list (snd (hb_ticks writable ns t)) (OnUnhealthy p) =
      of_bool (k \<le> unhealthyAfterMisses (hb_opts t) \<and> unhealthyAfterMisses (hb_opts t) < k + length ns)"
  using thr wf e
proof (induction ns arbitrary: t k e)
  case (Cons now ns)
  let ?t = "fst (hb_tick writable now t)" and ?e = "fst (fst (tick_peer (hb_opts t) writable now p e))"
  have e': "jm_get (hb_peers ?t) p = Some ?e" using Cons.prems(5) by (simp add: tick_get)
  note S = silent_tick [where p = p and now = now and writable = writable, OF Cons.prems(1-3,6) w]
  obtain e2 where e2: "jm_get (hb_peers (fst (hb_ticks writable ns ?t))) p = Some e2" "silent_for (hb_opts t) (Suc k + length ns) s e2"
    "count_list (snd (hb_ticks writable ns ?t)) (OnUnhealthy p) =
      of_bool (Suc k \<le> unhealthyAfterMisses (hb_opts t) \<and> unhealthyAfterMisses (hb_opts t) < Suc k + length ns)"
    using Cons.IH [of ?t ?e "Suc k"] Cons.prems S e' by auto
  have "count_list (snd (hb_tick writable now t)) (OnUnhealthy p) = of_bool (k = unhealthyAfterMisses (hb_opts t))"
    using tick_reports [OF Cons.prems(4), of writable now p] Cons.prems(5) S by (simp del: map_of_eq_Some_iff)
  with e2 show ?case by (auto simp del: map_of_eq_Some_iff split: prod.splits)
qed (simp del: map_of_eq_Some_iff)

text \<open>
  C34. A peer that takes our pings and never answers is found out on schedule: after \<open>n\<close> rounds it
  has \<open>n - 1\<close> misses and the status they stand for, and the caller has been told exactly once that
  it is unhealthy, in the round in which the misses reached the threshold.
\<close>

theorem silent_peer_detected:
  fixes t :: "'s tracker" and ns :: "nat list"
  assumes "0 < staleAfterMisses (hb_opts t)" and "0 < unhealthyAfterMisses (hb_opts t)"
    and "unhealthyAfterMisses (hb_opts t) < deadAfterMisses (hb_opts t)"
    and "jm_wf (hb_peers t)" and "\<not> jm_has (hb_peers t) p" and "writable s"
  defines "r \<equiv> hb_ticks writable ns (fst (addPeer p s t))"
  shows "\<exists>e. jm_get (hb_peers (fst r)) p = Some e \<and> consecutiveMisses (pe_state e) = length ns - 1 \<and>
    status (pe_state e) = classify (hb_opts t) (length ns - 1) \<and>
    count_list (snd r) (OnUnhealthy p) = of_bool (unhealthyAfterMisses (hb_opts t) < length ns)"
proof -
  let ?t = "fst (addPeer p s t)"
  let ?e = "\<lparr>pe_state = fresh_state, pe_sender = s, pe_pending = [], pe_nextPingId = 1, pe_unhealthyFired = False\<rparr>"
  have t: "hb_opts ?t = hb_opts t" "jm_get (hb_peers ?t) p = Some ?e" "jm_wf (hb_peers ?t)"
    using assms(4,5) by (simp_all add: addPeer_def Let_def del: map_of_eq_Some_iff split: option.splits)
  have "silent_for (hb_opts ?t) 0 s ?e"
    using assms(1-3) classify_0 [of "hb_opts t"] by (simp add: silent_for_def fresh_state_def t(1))
  from silent_ticks [where writable = writable and ns = ns, OF _ _ _ t(3,2) this assms(6)] assms(1-3) show ?thesis
    unfolding r_def t(1) by (auto simp: silent_for_def simp del: map_of_eq_Some_iff)
qed

theorem silent_peer_detected_witness:
  "\<exists>e. jm_get (hb_peers (fst (hb_ticks (\<lambda>_. True) [5, 10, 15, 20] (fst (addPeer ''p'' () (new_tracker default_hb_options)))))) ''p'' = Some e
    \<and> status (pe_state e) = Unhealthy
    \<and> count_list (snd (hb_ticks (\<lambda>_. True) [5, 10, 15, 20] (fst (addPeer ''p'' () (new_tracker default_hb_options))))) (OnUnhealthy ''p'') = 1"
  using silent_peer_detected [of "new_tracker default_hb_options :: unit tracker" "''p''" "\<lambda>_. True" "()" "[5, 10, 15, 20]"]
  by (auto simp: new_tracker_def default_hb_options_def classify_def simp del: map_of_eq_Some_iff hb_ticks.simps)

section \<open>A channel that cannot be written\<close>

definition unwritten_for :: "hb_options \<Rightarrow> nat \<Rightarrow> 's \<Rightarrow> 's peer_entry \<Rightarrow> bool" where
  "unwritten_for opts k s e \<longleftrightarrow> pe_sender e = s \<and> consecutiveMisses (pe_state e) = k \<and>
     status (pe_state e) = classify opts k \<and> pe_pending e = []"

lemma unwritten_tick:
  assumes "unwritten_for opts k s e" and "\<not> writable s"
  shows "unwritten_for opts (Suc k) s (fst (fst (tick_peer opts writable now p e))) \<and>
    count_list (snd (tick_peer opts writable now p e)) (OnUnhealthy p) = 0"
  using assms count_miss_fields [of opts "pe_state e"]
  by (cases e) (auto simp: unwritten_for_def tick_peer_def account_pending_def send_ping_def Let_def split: prod.splits)

lemma unwritten_ticks:
  assumes wf: "jm_wf (hb_peers t)" and e: "jm_get (hb_peers t) p = Some e" "unwritten_for (hb_opts t) k s e" and w: "\<not> writable s"
  shows "\<exists>e'. jm_get (hb_peers (fst (hb_ticks writable ns t))) p = Some e' \<and> unwritten_for (hb_opts t) (k + length ns) s e' \<and>
    count_list (snd (hb_ticks writable ns t)) (OnUnhealthy p) = 0"
  using wf e
proof (induction ns arbitrary: t k e)
  case (Cons now ns)
  let ?t = "fst (hb_tick writable now t)" and ?e = "fst (fst (tick_peer (hb_opts t) writable now p e))"
  have e': "jm_get (hb_peers ?t) p = Some ?e" using Cons.prems(2) by (simp add: tick_get)
  note S = unwritten_tick [where p = p and now = now and writable = writable, OF Cons.prems(3) w]
  obtain e2 where e2: "jm_get (hb_peers (fst (hb_ticks writable ns ?t))) p = Some e2" "unwritten_for (hb_opts t) (Suc k + length ns) s e2"
    "count_list (snd (hb_ticks writable ns ?t)) (OnUnhealthy p) = 0"
    using Cons.IH [of ?t ?e "Suc k"] Cons.prems S e' by auto
  have "count_list (snd (hb_tick writable now t)) (OnUnhealthy p) = 0"
    using tick_reports [OF Cons.prems(1), of writable now p] Cons.prems(2) S by (simp del: map_of_eq_Some_iff)
  with e2 show ?case by (auto simp del: map_of_eq_Some_iff split: prod.splits)
qed (simp del: map_of_eq_Some_iff)

text \<open>
  A peer whose channel cannot be written from the start is never reported: every round counts
  a miss and its status goes through \<open>unhealthy\<close> to \<open>dead\<close>, but the callback that would restart
  ICE is not called in any round.
\<close>

theorem unwritable_peer_not_reported:
  fixes t :: "'s tracker" and ns :: "nat list"
  assumes "jm_wf (hb_peers t)" and "\<not> jm_has (hb_peers t) p" and "\<not> writable s" and "classify (hb_opts t) 0 = Healthy"
  defines "r \<equiv> hb_ticks writable ns (fst (addPeer p s t))"
  shows "\<exists>e. jm_get (hb_peers (fst r)) p = Some e \<and> consecutiveMisses (pe_state e) = length ns \<and>
    status (pe_state e) = classify (hb_opts t) (length ns) \<and> OnUnhealthy p \<notin> set (snd r)"
proof -
  let ?t = "fst (addPeer p s t)"
  let ?e = "\<lparr>pe_state = fresh_state, pe_sender = s, pe_pending = [], pe_nextPingId = 1, pe_unhealthyFired = False\<rparr>"
  have t: "hb_opts ?t = hb_opts t" "jm_get (hb_peers ?t) p = Some ?e" "jm_wf (hb_peers ?t)"
    using assms(1,2) by (simp_all add: addPeer_def Let_def del: map_of_eq_Some_iff split: option.splits)
  have "unwritten_for (hb_opts ?t) 0 s ?e"
    using assms(4) by (simp add: unwritten_for_def fresh_state_def t(1))
  from unwritten_ticks [where writable = writable and ns = ns, OF t(3,2) this assms(3)] show ?thesis
    unfolding r_def t(1) by (auto simp: unwritten_for_def count_list_0_iff simp del: map_of_eq_Some_iff)
qed

theorem unwritable_peer_not_reported_witness:
  "\<exists>e. jm_get (hb_peers (fst (hb_ticks (\<lambda>_. False) [5, 10, 15, 20, 25, 30] (fst (addPeer ''p'' () (new_tracker default_hb_options)))))) ''p'' = Some e
    \<and> status (pe_state e) = Dead
    \<and> OnUnhealthy ''p'' \<notin> set (snd (hb_ticks (\<lambda>_. False) [5, 10, 15, 20, 25, 30] (fst (addPeer ''p'' () (new_tracker default_hb_options)))))"
  using unwritable_peer_not_reported [of "new_tracker default_hb_options :: unit tracker" "''p''" "\<lambda>_. False" "()" "[5, 10, 15, 20, 25, 30]"]
  by (auto simp: new_tracker_def default_hb_options_def classify_def simp del: map_of_eq_Some_iff hb_ticks.simps)

section \<open>Answers\<close>

text \<open>
  An answered ping makes its peer healthy: the answer the other side forms from the ping we
  sent, arriving while the ping is pending, is recognised, gives the time since the ping was sent
  as the round trip, clears the misses and re-arms the report; the same answer again is refused.
\<close>

theorem pong_restores_health:
  fixes t :: "'s tracker"
  assumes "jm_get (hb_peers t) p = Some e" and "jm_get (pe_pending e) i = Some sentAt"
  shows "\<exists>pong t' e'. handlePing (Some (ping_frame i sentAt)) = Some pong \<and>
    fst (handlePong now p (Some pong) t) = (True, t') \<and> jm_get (hb_peers t') p = Some e' \<and>
    rttMs (pe_state e') = Some (now - sentAt) \<and> consecutiveMisses (pe_state e') = 0 \<and> status (pe_state e') = Healthy \<and>
    \<not> pe_unhealthyFired e' \<and> pe_nextPingId e' = pe_nextPingId e \<and> handlePong later p (Some pong) t' = ((False, t'), [])"
  using assms by (simp add: handlePing_def ping_frame_def handlePong_def Let_def del: map_of_eq_Some_iff)

theorem pong_restores_health_witness:
  "\<exists>pong. handlePing (Some (ping_frame 1 5)) = Some pong \<and>
    fst (fst (handlePong 12 ''p'' (Some pong) (fst (hb_tick (\<lambda>_. True) 5 (fst (addPeer ''p'' () (new_tracker default_hb_options)))))))"
proof -
  let ?t = "fst (hb_tick (\<lambda>_. True) 5 (fst (addPeer ''p'' () (new_tracker default_hb_options))))"
  have "\<exists>e. jm_get (hb_peers ?t) ''p'' = Some e \<and> jm_get (pe_pending e) 1 = Some 5"
    by (simp add: tick_get addPeer_def Let_def new_tracker_def tick_peer_writable old_pings_def)
  then obtain e where "jm_get (hb_peers ?t) ''p'' = Some e" "jm_get (pe_pending e) 1 = Some 5" by blast
  from pong_restores_health [OF this, of 12 0] obtain pong t' where
    "handlePing (Some (ping_frame 1 5)) = Some pong" "fst (handlePong 12 ''p'' (Some pong) ?t) = (True, t')" by blast
  then show ?thesis by simp
qed

section \<open>The pending pings stay few\<close>

definition spaced :: "nat \<Rightarrow> nat list \<Rightarrow> bool" where
  "spaced d = sorted_wrt (\<lambda>a b. a + d \<le> b)"

lemma spaced_length: "spaced d xs \<Longrightarrow> xs \<noteq> [] \<Longrightarrow> hd xs + d * (length xs - 1) \<le> last xs"
proof (induction xs)
  case (Cons x xs)
  show ?case
  proof (cases xs)
    case (Cons y ys)
    with Cons.IH Cons.prems have "y + d * (length xs - 1) \<le> last xs" "x + d \<le> y"
      by (auto simp: spaced_def)
    with Cons show ?thesis by simp
  qed simp
qed simp

lemma spaced_window:
  assumes "spaced d xs" and "0 < d" and "\<And>x. x \<in> set xs \<Longrightarrow> lo \<le> x \<and> x \<le> hi" and "hi \<le> lo + d * n"
  shows "length xs \<le> n + 1"
proof (cases "xs = []")
  case False
  have "lo \<le> hd xs" "last xs \<le> hi" using assms(3) False by simp_all
  with spaced_length [OF assms(1) False] assms(4) have "d * (length xs - 1) \<le> d * n" by linarith
  with assms(2) show ?thesis by simp
qed simp

lemma spaced_filter: "spaced d (map f xs) \<Longrightarrow> spaced d (map f (filter P xs))"
  unfolding spaced_def sorted_wrt_map by (rule sorted_wrt_filter)

definition pings_ok :: "hb_options \<Rightarrow> nat \<Rightarrow> 's peer_entry \<Rightarrow> bool" where
  "pings_ok opts last_tick e \<longleftrightarrow> spaced (intervalMs opts) (map snd (pe_pending e)) \<and>
     (\<forall>(i, t) \<in> set (pe_pending e). t \<le> last_tick \<and> i < of_nat (pe_nextPingId e)) \<and>
     length (pe_pending e) \<le> deadAfterMisses opts + 2"

lemma pings_ok_tick:
  assumes ok: "pings_ok opts T e" and step: "T + intervalMs opts \<le> now" and pos: "0 < intervalMs opts"
  shows "pings_ok opts now (fst (fst (tick_peer opts writable now p e)))"
proof -
  let ?old = "old_pings opts now (pe_pending e)"
  have old: "spaced (intervalMs opts) (map snd ?old)" using ok unfolding pings_ok_def old_pings_def by (auto intro: spaced_filter)
  have sub: "set ?old \<subseteq> set (pe_pending e)" by (auto simp: old_pings_def)
  have win: "now - intervalMs opts * (deadAfterMisses opts + 1) \<le> t \<and> t \<le> now - intervalMs opts" if "t \<in> set (map snd ?old)" for t
  proof -
    from that obtain i where it: "(i, t) \<in> set ?old" by auto
    then have "int now - int (intervalMs opts * (deadAfterMisses opts + 1)) \<le> int t" by (simp add: old_pings_def)
    moreover have "t \<le> T" using it sub ok unfolding pings_ok_def by fastforce
    ultimately show ?thesis using step by linarith
  qed
  have len: "length ?old \<le> deadAfterMisses opts + 1"
  proof -
    have "now - intervalMs opts \<le> now - intervalMs opts * (deadAfterMisses opts + 1) + intervalMs opts * deadAfterMisses opts"
      by (simp add: algebra_simps)
    from spaced_window [OF old pos win this] show ?thesis by simp
  qed
  have fresh: "of_nat (pe_nextPingId e) \<notin> fst ` set ?old" using ok sub by (fastforce simp: pings_ok_def)
  then have upd: "jm_set ?old (of_nat (pe_nextPingId e)) now = ?old @ [(of_nat (pe_nextPingId e), now)]"
    by (intro jm_set_new) (simp add: map_of_eq_None_iff)
  have before: "t + intervalMs opts \<le> now" if "(i, t) \<in> set ?old" for i t
    using that sub ok step unfolding pings_ok_def by fastforce
  have less: "i < of_nat (pe_nextPingId e + 1)" if "(i, t) \<in> set (pe_pending e)" for i t
    using that ok unfolding pings_ok_def by fastforce
  have sp: "spaced (intervalMs opts) (map snd (?old @ [(of_nat (pe_nextPingId e), now)]))"
    using old before by (auto simp: spaced_def sorted_wrt_append)
  have E: "pings_ok opts now (fst (fst (tick_peer opts writable now p e)))"
    if "fst (fst (tick_peer opts writable now p e)) = x" "pe_nextPingId x = pe_nextPingId e + 1"
      "pe_pending x = ?old \<or> pe_pending x = ?old @ [(of_nat (pe_nextPingId e), now)]" for x
  proof -
    have "pings_ok opts now x"
      unfolding pings_ok_def using that(2,3) old sp len sub before less
      by (auto simp: case_prod_unfold; fastforce)
    with that(1) show ?thesis by simp
  qed
  have nil: "old_pings opts now [] = []" by (simp add: old_pings_def)
  show ?thesis
    by (rule E [OF refl]) (auto simp: tick_peer_def account_pending_def send_ping_def Let_def upd nil case_prod_unfold)
qed

datatype 's hb_event = HbTick "'s \<Rightarrow> bool" nat | HbPong nat string jsval | HbAdd string 's | HbRemove string

fun hb_act :: "'s hb_event \<Rightarrow> 's tracker \<Rightarrow> 's tracker" where
  "hb_act (HbTick writable now) t = fst (hb_tick writable now t)"
| "hb_act (HbPong now p raw) t = snd (fst (handlePong now p raw t))"
| "hb_act (HbAdd p s) t = fst (addPeer p s t)"
| "hb_act (HbRemove p) t = fst (removePeer p t)"

fun rounds_apart :: "nat \<Rightarrow> nat \<Rightarrow> 's hb_event list \<Rightarrow> bool" where
  "rounds_apart d T [] = True"
| "rounds_apart d T (HbTick writable now # es) = (T + d \<le> now \<and> rounds_apart d now es)"
| "rounds_apart d T (e # es) = rounds_apart d T es"

definition tracker_ok :: "nat \<Rightarrow> 's tracker \<Rightarrow> bool" where
  "tracker_ok T t \<longleftrightarrow> (\<forall>p e. jm_get (hb_peers t) p = Some e \<longrightarrow> pings_ok (hb_opts t) T e)"

lemma pings_ok_del: "pings_ok opts T e \<Longrightarrow> pings_ok opts T (e\<lparr>pe_pending := AList.delete i (pe_pending e), pe_state := s, pe_unhealthyFired := b\<rparr>)"
proof -
  assume ok: "pings_ok opts T e"
  have "length (AList.delete i (pe_pending e)) \<le> length (pe_pending e)" by (simp add: AList.delete_eq)
  moreover have "length (pe_pending e) \<le> deadAfterMisses opts + 2" using ok by (simp add: pings_ok_def)
  ultimately have "length (AList.delete i (pe_pending e)) \<le> deadAfterMisses opts + 2" by linarith
  with ok show ?thesis
    by (auto simp: pings_ok_def AList.delete_eq intro: spaced_filter)
qed

lemma tracker_ok_act:
  assumes ok: "tracker_ok T t" and pos: "0 < intervalMs (hb_opts t)"
  shows "tracker_ok (case ev of HbTick w now \<Rightarrow> now | _ \<Rightarrow> T) (hb_act ev t) \<or> (\<exists>w now. ev = HbTick w now \<and> \<not> T + intervalMs (hb_opts t) \<le> now)"
proof (cases ev)
  case (HbTick w now)
  have "pings_ok (hb_opts t) now (fst (fst (tick_peer (hb_opts t) w now p z)))"
    if "jm_get (hb_peers t) p = Some z" "T + intervalMs (hb_opts t) \<le> now" for p z
    using ok that pos by (intro pings_ok_tick [of _ T]) (auto simp: tracker_ok_def simp del: map_of_eq_Some_iff)
  with HbTick show ?thesis by (auto simp: tracker_ok_def tick_get simp del: map_of_eq_Some_iff)
next
  case (HbPong now p raw)
  have del: "pings_ok (hb_opts t) T (e\<lparr>pe_pending := AList.delete i (pe_pending e), pe_state := s, pe_unhealthyFired := b\<rparr>)"
    if "jm_get (hb_peers t) p = Some e" for e i s b
    by (rule pings_ok_del) (use ok that in \<open>unfold tracker_ok_def, blast\<close>)
  have "tracker_ok T (hb_act ev t)"
    using ok unfolding HbPong
    by (auto simp: del tracker_ok_def handlePong_def Let_def simp del: map_of_eq_Some_iff split: option.splits json.splits if_splits)
  with HbPong show ?thesis by simp
next
  case (HbAdd p s)
  have "tracker_ok T (hb_act ev t)"
    using ok unfolding HbAdd
    by (auto simp: tracker_ok_def addPeer_def Let_def pings_ok_def spaced_def simp del: map_of_eq_Some_iff split: option.splits if_splits; fastforce)
  with HbAdd show ?thesis by simp
next
  case (HbRemove p)
  have "tracker_ok T (hb_act ev t)"
    using ok unfolding HbRemove by (auto simp: tracker_ok_def removePeer_def Let_def simp del: map_of_eq_Some_iff split: if_splits)
  with HbRemove show ?thesis by simp
qed

lemma hb_act_opts [simp]: "hb_opts (hb_act ev t) = hb_opts t"
  by (cases ev) (auto simp: handlePong_def addPeer_def removePeer_def Let_def split: option.splits json.splits)

lemma tracker_ok_run:
  "tracker_ok T t \<Longrightarrow> 0 < intervalMs (hb_opts t) \<Longrightarrow> rounds_apart (intervalMs (hb_opts t)) T es \<Longrightarrow> \<exists>T'. tracker_ok T' (fold hb_act es t)"
proof (induction es arbitrary: T t)
  case (Cons e es)
  from tracker_ok_act [OF Cons.prems(1,2), of e] Cons.prems(3)
  have ok: "tracker_ok (case e of HbTick w now \<Rightarrow> now | _ \<Rightarrow> T) (hb_act e t)" by (cases e) auto
  have "rounds_apart (intervalMs (hb_opts t)) (case e of HbTick w now \<Rightarrow> now | _ \<Rightarrow> T) es"
    using Cons.prems(3) by (cases e) auto
  with Cons.IH [OF ok] Cons.prems(2) show ?case by simp
qed auto

text \<open>
  The pings waiting for an answer do not pile up: with rounds at least an interval apart, a
  peer that stays silent for ever has at most \<open>deadAfterMisses + 2\<close> of them, whatever peers come
  and go and whatever answers arrive.
\<close>

theorem pending_pings_bounded:
  fixes es :: "'s hb_event list"
  assumes "0 < intervalMs opts" and "rounds_apart (intervalMs opts) 0 es"
    and "jm_get (hb_peers (fold hb_act es (new_tracker opts))) p = Some e"
  shows "length (pe_pending e) \<le> deadAfterMisses opts + 2"
proof -
  have opts: "hb_opts (fold hb_act es t) = hb_opts t" for t :: "'s tracker" by (induction es arbitrary: t) simp_all
  have "tracker_ok 0 (new_tracker opts :: 's tracker)" by (simp add: tracker_ok_def new_tracker_def)
  from tracker_ok_run [OF this] assms(1,2) obtain T where "tracker_ok T (fold hb_act es (new_tracker opts))"
    by (auto simp: new_tracker_def)
  with assms(3) have "pings_ok (hb_opts (fold hb_act es (new_tracker opts))) T e" unfolding tracker_ok_def by blast
  then show ?thesis unfolding opts by (simp add: pings_ok_def new_tracker_def)
qed

theorem pending_pings_bounded_witness:
  "\<exists>e. jm_get (hb_peers (fold hb_act [HbAdd ''p'' (), HbTick (\<lambda>_. True) 5000, HbTick (\<lambda>_. True) 10000] (new_tracker default_hb_options))) ''p'' = Some e
    \<and> length (pe_pending e) \<le> 8"
proof -
  let ?es = "[HbAdd ''p'' (), HbTick (\<lambda>_. True) 5000, HbTick (\<lambda>_. True) 10000]"
  have "\<exists>e. jm_get (hb_peers (fold hb_act ?es (new_tracker default_hb_options))) ''p'' = Some e"
    by (simp add: tick_get addPeer_def Let_def new_tracker_def)
  then obtain e where e: "jm_get (hb_peers (fold hb_act ?es (new_tracker default_hb_options))) ''p'' = Some e" by blast
  moreover have "length (pe_pending e) \<le> deadAfterMisses default_hb_options + 2"
    by (rule pending_pings_bounded [OF _ _ e]) (simp_all add: default_hb_options_def)
  ultimately show ?thesis by (auto simp: default_hb_options_def)
qed

section \<open>The badge\<close>

text \<open>
  The badge is good exactly when the socket is connected and every peer is healthy, bad exactly
  when the socket is gone or, while it is connected, some peer is unhealthy or dead, and so degraded
  exactly in between: reconnecting, or connected with stale peers at worst.
\<close>

theorem badge_meaning:
  "(overall s = Good \<longleftrightarrow> hs_socket s = Connected \<and> list_all (\<lambda>(p, h). status h = Healthy) (hs_peers s)) \<and>
   (overall s = Bad \<longleftrightarrow> hs_socket s = Disconnected \<or>
      hs_socket s = Connected \<and> list_ex (\<lambda>(p, h). status h = Unhealthy \<or> status h = Dead) (hs_peers s)) \<and>
   (overall s = Degraded \<longleftrightarrow> hs_socket s = Reconnecting \<or>
      hs_socket s = Connected \<and> list_ex (\<lambda>(p, h). status h = Stale) (hs_peers s)
        \<and> list_all (\<lambda>(p, h). status h = Healthy \<or> status h = Stale) (hs_peers s))"
proof -
  let ?ss = "map snd (hs_peers s)"
  have len: "0 < length (filter P ?ss) \<longleftrightarrow> list_ex (\<lambda>(p, h). P h) (hs_peers s)" for P
    by (force simp: list_ex_iff filter_empty_conv)
  have all: "x = Healthy \<or> x = Stale \<or> x = Unhealthy \<or> x = Dead" for x by (cases x) auto
  have "\<not> list_ex (\<lambda>(p, h). status h = Dead) (hs_peers s) \<and> \<not> list_ex (\<lambda>(p, h). status h = Unhealthy) (hs_peers s)
      \<and> \<not> list_ex (\<lambda>(p, h). status h = Stale) (hs_peers s) \<longleftrightarrow> list_all (\<lambda>(p, h). status h = Healthy) (hs_peers s)"
    using all by (fastforce simp: list_ex_iff list_all_iff)
  moreover have "\<not> list_ex (\<lambda>(p, h). status h = Dead) (hs_peers s) \<and> \<not> list_ex (\<lambda>(p, h). status h = Unhealthy) (hs_peers s)
      \<longleftrightarrow> list_all (\<lambda>(p, h). status h = Healthy \<or> status h = Stale) (hs_peers s)"
    using all by (fastforce simp: list_ex_iff list_all_iff)
  moreover have "list_ex (\<lambda>(p, h). status h = Unhealthy \<or> status h = Dead) (hs_peers s) \<longleftrightarrow>
      list_ex (\<lambda>(p, h). status h = Dead) (hs_peers s) \<or> list_ex (\<lambda>(p, h). status h = Unhealthy) (hs_peers s)"
    by (auto simp: list_ex_iff)
  moreover have "hs_peers s = [] \<Longrightarrow> \<not> list_ex P (hs_peers s) \<and> list_all Q (hs_peers s)" for P Q by simp
  moreover have few: "length (filter P ?ss) = 0 \<Longrightarrow> \<not> 2 * length (filter P ?ss) > length ?ss" for P by simp
  ultimately show ?thesis
    using len [of "\<lambda>h. status h = Dead"] len [of "\<lambda>h. status h = Unhealthy"] len [of "\<lambda>h. status h = Stale"]
    by (cases "hs_socket s"; cases "hs_peers s = []") (auto simp: overall_def classifyOverall_def Let_def)
qed

end
