(* ===== verification/JsonText.thy ===== *)
theory JsonText imports Prelude begin

text \<open>
  \<open>JSON.stringify\<close> and \<open>JSON.parse\<close> for the documents the drive and the key exchange write: strings,
  natural numbers, arrays and objects. \<open>None\<close> of the parser is a syntax error, or a text with a
  number that is not natural or a character above 255, which these documents do not have.
\<close>

datatype doc = DNull | DBool bool | DNum nat | DStr string | DArr "doc list" | DObj "(string \<times> doc) list"

section \<open>Printing\<close>

definition hex_digit :: "nat \<Rightarrow> char" where
  "hex_digit d = (if d < 10 then char_of (48 + d) else char_of (87 + d))"

definition esc :: "char \<Rightarrow> string" where
  "esc c =
    (if c = CHR 0x22 then [CHR 0x5C, CHR 0x22]
     else if c = CHR 0x5C then [CHR 0x5C, CHR 0x5C]
     else if c = CHR 0x08 then [CHR 0x5C, CHR ''b'']
     else if c = CHR 0x09 then [CHR 0x5C, CHR ''t'']
     else if c = CHR 0x0A then [CHR 0x5C, CHR ''n'']
     else if c = CHR 0x0C then [CHR 0x5C, CHR ''f'']
     else if c = CHR 0x0D then [CHR 0x5C, CHR ''r'']
     else let n = of_char c in
       if n < 32 then [CHR 0x5C, CHR ''u'', CHR ''0'', CHR ''0'', hex_digit (n div 16), hex_digit (n mod 16)]
       else [c])"

definition quote :: "string \<Rightarrow> string" where
  "quote s = CHR 0x22 # concat (map esc s) @ [CHR 0x22]"

fun json_text :: "doc \<Rightarrow> string"
  and items_text :: "doc list \<Rightarrow> string"
  and fields_text :: "(string \<times> doc) list \<Rightarrow> string" where
  "json_text DNull = ''null''"
| "json_text (DBool b) = (if b then ''true'' else ''false'')"
| "json_text (DNum n) = nat_str n"
| "json_text (DStr s) = quote s"
| "json_text (DArr ds) = (case ds of [] \<Rightarrow> ''[]'' | d # ds' \<Rightarrow> CHR ''['' # json_text d @ items_text ds')"
| "json_text (DObj fs) = (case fs of [] \<Rightarrow> ''{}'' | (k, d) # fs' \<Rightarrow> CHR ''{'' # quote k @ CHR '':'' # json_text d @ fields_text fs')"
| "items_text [] = '']''"
| "items_text (d # ds) = CHR '','' # json_text d @ items_text ds"
| "fields_text [] = ''}''"
| "fields_text ((k, d) # fs) = CHR '','' # quote k @ CHR '':'' # json_text d @ fields_text fs"

section \<open>Parsing\<close>

definition json_space :: "char \<Rightarrow> bool" where
  "json_space c \<longleftrightarrow> (of_char c :: nat) \<in> {9, 10, 13, 32}"

definition skip :: "string \<Rightarrow> string" where
  "skip s = dropWhile json_space s"

definition hex_val :: "char \<Rightarrow> nat option" where
  "hex_val c = (let n = of_char c in
     if 48 \<le> n \<and> n \<le> 57 then Some (n - 48)
     else if 97 \<le> n \<and> n \<le> 102 then Some (n - 87)
     else if 65 \<le> n \<and> n \<le> 70 then Some (n - 55) else None)"

definition unesc :: "char \<Rightarrow> char option" where
  "unesc c =
    (if c = CHR 0x22 \<or> c = CHR 0x5C \<or> c = CHR ''/'' then Some c
     else if c = CHR ''b'' then Some (CHR 0x08)
     else if c = CHR ''t'' then Some (CHR 0x09)
     else if c = CHR ''n'' then Some (CHR 0x0A)
     else if c = CHR ''f'' then Some (CHR 0x0C)
     else if c = CHR ''r'' then Some (CHR 0x0D)
     else None)"

definition push_char :: "char \<Rightarrow> (string \<times> string) option \<Rightarrow> (string \<times> string) option" where
  "push_char c r = (case r of None \<Rightarrow> None | Some (s, t) \<Rightarrow> Some (c # s, t))"

fun parse_string :: "string \<Rightarrow> (string \<times> string) option" where
  "parse_string [] = None"
| "parse_string (c # r) =
    (if c = CHR 0x22 then Some ([], r)
     else if c = CHR 0x5C then (case r of
         [] \<Rightarrow> None
       | e # r1 \<Rightarrow> (case unesc e of
           Some x \<Rightarrow> push_char x (parse_string r1)
         | None \<Rightarrow> (case r1 of
             a # b # x # y # r2 \<Rightarrow>
               (case (hex_val a, hex_val b, hex_val x, hex_val y) of
                  (Some 0, Some 0, Some m, Some n) \<Rightarrow>
                    if e = CHR ''u'' then push_char (char_of (16 * m + n)) (parse_string r2) else None
                | _ \<Rightarrow> None)
           | _ \<Rightarrow> None)))
     else if (of_char c :: nat) < 32 then None
     else push_char c (parse_string r))"

definition is_digit :: "char \<Rightarrow> bool" where
  "is_digit c \<longleftrightarrow> 48 \<le> (of_char c :: nat) \<and> (of_char c :: nat) \<le> 57"

definition digits_val :: "string \<Rightarrow> nat" where
  "digits_val ds = foldl (\<lambda>a c. 10 * a + (of_char c - 48)) 0 ds"

text \<open>A natural number: no leading zero, and no fraction or exponent after it.\<close>

definition parse_nat :: "string \<Rightarrow> (nat \<times> string) option" where
  "parse_nat s = (let ds = takeWhile is_digit s; r = dropWhile is_digit s in
     if ds = [] \<or> length ds > 1 \<and> hd ds = CHR ''0'' \<or> r \<noteq> [] \<and> hd r \<in> set ''.eE'' then None
     else Some (digits_val ds, r))"

text \<open>A word such as \<open>true\<close> at the start of the text.\<close>

definition parse_word :: "string \<Rightarrow> 'a \<Rightarrow> string \<Rightarrow> ('a \<times> string) option" where
  "parse_word w v s = (if take (length w) s = w then Some (v, drop (length w) s) else None)"

text \<open>The fuel of the parser bounds the depth of its calls; twice the length of the text is enough.\<close>

fun parse_value :: "nat \<Rightarrow> string \<Rightarrow> (doc \<times> string) option"
  and parse_items :: "nat \<Rightarrow> string \<Rightarrow> (doc list \<times> string) option"
  and parse_fields :: "nat \<Rightarrow> string \<Rightarrow> ((string \<times> doc) list \<times> string) option" where
  "parse_value 0 s = None"
| "parse_value (Suc n) s = (case skip s of
     [] \<Rightarrow> None
   | c # r \<Rightarrow>
       if c = CHR 0x22 then (case parse_string r of None \<Rightarrow> None | Some (x, t) \<Rightarrow> Some (DStr x, t))
       else if c = CHR ''['' then
         (case skip r of [] \<Rightarrow> None | x # t \<Rightarrow> if x = CHR '']'' then Some (DArr [], t)
            else (case parse_items n r of None \<Rightarrow> None | Some (ds, t) \<Rightarrow> Some (DArr ds, t)))
       else if c = CHR ''{'' then
         (case skip r of [] \<Rightarrow> None | x # t \<Rightarrow> if x = CHR ''}'' then Some (DObj [], t)
            else (case parse_fields n r of None \<Rightarrow> None
                  | Some (fs, t) \<Rightarrow> Some (DObj (fold (\<lambda>(k, d) m. jm_set m k d) fs []), t)))
       else if c = CHR ''n'' then parse_word ''null'' DNull (c # r)
       else if c = CHR ''t'' then parse_word ''true'' (DBool True) (c # r)
       else if c = CHR ''f'' then parse_word ''false'' (DBool False) (c # r)
       else (case parse_nat (c # r) of None \<Rightarrow> None | Some (x, t) \<Rightarrow> Some (DNum x, t)))"
| "parse_items 0 s = None"
| "parse_items (Suc n) s = (case parse_value n s of
     None \<Rightarrow> None
   | Some (d, t) \<Rightarrow> (case skip t of
       [] \<Rightarrow> None
     | c # r \<Rightarrow> if c = CHR '']'' then Some ([d], r)
         else if c = CHR '','' then (case parse_items n r of None \<Rightarrow> None | Some (ds, u) \<Rightarrow> Some (d # ds, u))
         else None))"
| "parse_fields 0 s = None"
| "parse_fields (Suc n) s = (case skip s of
     [] \<Rightarrow> None
   | q # s1 \<Rightarrow> if q \<noteq> CHR 0x22 then None
       else (case parse_string s1 of
         None \<Rightarrow> None
       | Some (k, s2) \<Rightarrow> (case skip s2 of
           [] \<Rightarrow> None
         | c # s3 \<Rightarrow> if c \<noteq> CHR '':'' then None
             else (case parse_value n s3 of
               None \<Rightarrow> None
             | Some (d, t) \<Rightarrow> (case skip t of
                 [] \<Rightarrow> None
               | c # r \<Rightarrow> if c = CHR ''}'' then Some ([(k, d)], r)
                   else if c = CHR '','' then (case parse_fields n r of None \<Rightarrow> None | Some (fs, u) \<Rightarrow> Some ((k, d) # fs, u))
                   else None)))))"

definition json_parse :: "string \<Rightarrow> doc option" where
  "json_parse s = (case parse_value (Suc (2 * length s)) s of
     None \<Rightarrow> None | Some (d, t) \<Rightarrow> if skip t = [] then Some d else None)"

section \<open>Strings and numbers read back\<close>

lemma hex_val_digit: "d < 16 \<Longrightarrow> hex_val (hex_digit d) = Some d"
  by (simp add: hex_val_def hex_digit_def Let_def)

lemma hex_val_0: "hex_val (CHR ''0'') = Some 0"
  by (simp add: hex_val_def)

lemma parse_string_esc: "parse_string (esc c @ t) = push_char c (parse_string t)"
proof (cases "c \<in> {CHR 0x22, CHR 0x5C, CHR 0x08, CHR 0x09, CHR 0x0A, CHR 0x0C, CHR 0x0D}")
  case True
  then show ?thesis by (auto simp: esc_def unesc_def)
next
  case False
  let ?n = "of_char c :: nat"
  show ?thesis
  proof (cases "?n < 32")
    case True
    then have h: "hex_val (hex_digit (?n div 16)) = Some (?n div 16)" "hex_val (hex_digit (?n mod 16)) = Some (?n mod 16)"
      by (simp_all add: hex_val_digit)
    have "16 * (?n div 16) + ?n mod 16 = ?n" by simp
    with False True h show ?thesis by (simp add: esc_def Let_def hex_val_0 unesc_def)
  qed (use False in \<open>simp add: esc_def Let_def\<close>)
qed

lemma parse_string_quote: "parse_string (concat (map esc s) @ CHR 0x22 # t) = Some (s, t)"
  by (induction s) (simp_all add: parse_string_esc push_char_def)

lemma digit_char_code: "d < 10 \<Longrightarrow> of_char (digit_char d) = 48 + d"
  by (simp add: digit_char_def)

lemma nat_str_all_digits: "c \<in> set (nat_str n) \<Longrightarrow> is_digit c"
  using nat_str_digits [of c n] by (auto simp: is_digit_def digit_char_code)

lemma digits_val_nat_str: "digits_val (nat_str n) = n"
proof (induction n rule: nat_str.induct)
  case (1 n)
  show ?case
  proof (cases "n < 10")
    case True
    then show ?thesis by (simp add: nat_str.simps [of n] digits_val_def digit_char_code)
  next
    case False
    then have "nat_str n = nat_str (n div 10) @ [digit_char (n mod 10)]" by (simp add: nat_str.simps [of n])
    with 1 [OF False] show ?thesis by (simp add: digits_val_def digit_char_code)
  qed
qed

lemma nat_str_head: "0 < n \<Longrightarrow> hd (nat_str n) \<noteq> CHR ''0''"
proof (induction n rule: nat_str.induct)
  case (1 n)
  show ?case
  proof (cases "n < 10")
    case True
    have "of_char (CHR ''0'') = (48 :: nat)" by simp
    with True 1(2) digit_char_code [OF True] show ?thesis by (auto simp: nat_str.simps [of n])
  next
    case False
    with 1 show ?thesis by (simp add: nat_str.simps [of n])
  qed
qed

lemma nat_str_0: "nat_str 0 = ''0''"
proof -
  have "(48 :: nat) = of_char (CHR ''0'')" by simp
  then have "char_of (48 :: nat) = CHR ''0''" by (simp only: char_of_char)
  then show ?thesis by (simp add: nat_str.simps [of 0] digit_char_def)
qed

definition ends_number :: "string \<Rightarrow> bool" where
  "ends_number t \<longleftrightarrow> t = [] \<or> hd t \<in> set '',]}''"

lemma parse_nat_text: "ends_number t \<Longrightarrow> parse_nat (nat_str n @ t) = Some (n, t)"
proof -
  assume t: "ends_number t"
  have "\<forall>c \<in> set '',]}''. \<not> is_digit c \<and> c \<notin> set ''.eE''" by (simp add: is_digit_def)
  with t have h: "t = [] \<or> \<not> is_digit (hd t) \<and> hd t \<notin> set ''.eE''" unfolding ends_number_def by blast
  then have split: "takeWhile is_digit (nat_str n @ t) = nat_str n" "dropWhile is_digit (nat_str n @ t) = t"
    using nat_str_all_digits by (cases t; auto simp: takeWhile_append2 dropWhile_append2)+
  have "length (nat_str n) > 1 \<Longrightarrow> hd (nat_str n) \<noteq> CHR ''0''"
    using nat_str_head [of n] nat_str_0 by (cases "n = 0") simp_all
  with h split show ?thesis unfolding parse_nat_def Let_def split digits_val_nat_str
    by (cases t) auto
qed

section \<open>Documents read back\<close>

text \<open>Objects whose keys are distinct, as those of JavaScript are.\<close>

fun doc_ok :: "doc \<Rightarrow> bool" where
  "doc_ok (DArr ds) = list_all doc_ok ds"
| "doc_ok (DObj fs) = (jm_wf fs \<and> list_all (\<lambda>(k, d). doc_ok d) fs)"
| "doc_ok d = True"

lemma not_space [simp]:
  "\<not> json_space (CHR ''['')" "\<not> json_space (CHR '']'')" "\<not> json_space (CHR ''{'')" "\<not> json_space (CHR ''}'')"
  "\<not> json_space (CHR '','')" "\<not> json_space (CHR '':'')" "\<not> json_space (CHR 0x22)" "\<not> json_space (CHR ''n'')"
  "\<not> json_space (CHR ''t'')" "\<not> json_space (CHR ''f'')"
  by (simp_all add: json_space_def)

lemma skip_simps [simp]:
  "skip [] = []" "skip (CHR ''['' # t) = CHR ''['' # t" "skip (CHR '']'' # t) = CHR '']'' # t" "skip (CHR ''{'' # t) = CHR ''{'' # t"
  "skip (CHR ''}'' # t) = CHR ''}'' # t" "skip (CHR '','' # t) = CHR '','' # t" "skip (CHR '':'' # t) = CHR '':'' # t"
  "skip (CHR 0x22 # t) = CHR 0x22 # t" "skip (CHR ''n'' # t) = CHR ''n'' # t" "skip (CHR ''t'' # t) = CHR ''t'' # t" "skip (CHR ''f'' # t) = CHR ''f'' # t"
  by (simp_all add: skip_def)

lemma skip_digit: "is_digit c \<Longrightarrow> skip (c # t) = c # t"
  by (auto simp: skip_def json_space_def is_digit_def)

text \<open>No document starts with a closing bracket or with white space.\<close>

lemma text_head: "\<exists>c r. json_text d = c # r \<and> \<not> json_space c \<and> c \<noteq> CHR '']'' \<and> c \<noteq> CHR ''}''"
proof (cases d)
  case (DNum n)
  obtain c r where cr: "nat_str n = c # r" by (cases "nat_str n") auto
  then have "is_digit c" using nat_str_all_digits [of c n] by simp
  then have "\<not> json_space c \<and> c \<noteq> CHR '']'' \<and> c \<noteq> CHR ''}''" by (auto simp: json_space_def is_digit_def)
  with cr DNum show ?thesis by auto
next
  case (DStr s)
  then show ?thesis by (simp add: quote_def)
next
  case (DArr ds)
  then show ?thesis by (cases ds) simp_all
next
  case (DObj fs)
  then show ?thesis by (cases fs) (simp_all split: prod.splits)
qed simp_all

lemma skip_text: "skip (json_text d @ t) = json_text d @ t"
  using text_head [of d] by (auto simp: skip_def)

lemma parse_num:
  assumes "ends_number t"
  shows "parse_value (Suc f) (nat_str n @ t) = Some (DNum n, t)"
proof -
  obtain c r where cr: "nat_str n = c # r" by (cases "nat_str n") auto
  then have d: "is_digit c" using nat_str_all_digits [of c n] by simp
  have "\<not> is_digit (CHR 0x22) \<and> \<not> is_digit (CHR ''['') \<and> \<not> is_digit (CHR ''{'') \<and> \<not> is_digit (CHR ''n'') \<and> \<not> is_digit (CHR ''t'') \<and> \<not> is_digit (CHR ''f'')"
    by (simp add: is_digit_def)
  with d have "c \<noteq> CHR 0x22 \<and> c \<noteq> CHR ''['' \<and> c \<noteq> CHR ''{'' \<and> c \<noteq> CHR ''n'' \<and> c \<noteq> CHR ''t'' \<and> c \<noteq> CHR ''f''" by metis
  with parse_nat_text [OF assms, of n] skip_digit [OF d, of "r @ t"] cr show ?thesis by simp
qed

lemma fold_set_fields: "jm_wf (m @ fs) \<Longrightarrow> fold (\<lambda>(k, d) m. jm_set m k d) fs m = m @ fs"
proof (induction fs arbitrary: m)
  case (Cons p fs)
  obtain k d where p: "p = (k, d)" by fastforce
  have "map_of m k = None" using Cons.prems p by (auto simp: map_of_eq_None_iff)
  then have "jm_set m k d = m @ [(k, d)]" by (rule jm_set_new)
  with Cons p show ?case by simp
qed simp

lemma items_head: "items_text ds = (if ds = [] then [CHR '']''] else CHR '','' # tl (items_text ds))"
  by (cases ds) simp_all

lemma fields_head: "fields_text fs = (if fs = [] then [CHR ''}''] else CHR '','' # tl (fields_text fs))"
  by (cases fs) auto

lemma ends_items: "ends_number (items_text ds @ t)"
  by (cases ds) (simp_all add: ends_number_def)

lemma ends_fields: "ends_number (fields_text fs @ t)"
  by (cases fs) (auto simp: ends_number_def)

lemma text_pos: "0 < length (json_text d)" "0 < length (items_text ds)" "0 < length (fields_text fs)"
  using text_head [of d] by (auto, (cases ds; simp), (cases fs; force))

lemma items_step:
  assumes d: "\<And>f t. ends_number t \<Longrightarrow> 2 * length (json_text d) < f \<Longrightarrow> parse_value f (json_text d @ t) = Some (d, t)"
    and ds: "\<And>f t. ds \<noteq> [] \<Longrightarrow> 2 * length (items_text ds) < f \<Longrightarrow> parse_items f (tl (items_text ds) @ t) = Some (ds, t)"
    and len: "2 * (length (json_text d) + length (items_text ds)) < f"
  shows "parse_items f (json_text d @ items_text ds @ t) = Some (d # ds, t)"
proof (cases f)
  case (Suc n)
  have "0 < length (json_text d)" "0 < length (items_text ds)" by (rule text_pos)+
  with len Suc have l: "2 * length (json_text d) < n" "2 * length (items_text ds) < n" by arith+
  have v: "parse_value n (json_text d @ items_text ds @ t) = Some (d, items_text ds @ t)" by (rule d [OF ends_items l(1)])
  show ?thesis
  proof (cases "ds = []")
    case True
    with v Suc show ?thesis by simp
  next
    case False
    then have h: "items_text ds = CHR '','' # tl (items_text ds)" using items_head [of ds] by simp
    have "skip (items_text ds @ t) = CHR '','' # tl (items_text ds) @ t" by (subst h) simp
    with v ds [OF False l(2)] Suc show ?thesis by simp
  qed
qed (use len in simp)

lemma fields_step:
  assumes d: "\<And>f t. ends_number t \<Longrightarrow> 2 * length (json_text d) < f \<Longrightarrow> parse_value f (json_text d @ t) = Some (d, t)"
    and fs: "\<And>f t. fs \<noteq> [] \<Longrightarrow> 2 * length (fields_text fs) < f \<Longrightarrow> parse_fields f (tl (fields_text fs) @ t) = Some (fs, t)"
    and len: "2 * (length (json_text d) + length (fields_text fs)) < f"
  shows "parse_fields f (quote k @ CHR '':'' # json_text d @ fields_text fs @ t) = Some ((k, d) # fs, t)"
proof (cases f)
  case (Suc n)
  have "0 < length (json_text d)" "0 < length (fields_text fs)" by (rule text_pos)+
  with len Suc have l: "2 * length (json_text d) < n" "2 * length (fields_text fs) < n" by arith+
  have v: "parse_value n (json_text d @ fields_text fs @ t) = Some (d, fields_text fs @ t)" by (rule d [OF ends_fields l(1)])
  show ?thesis
  proof (cases "fs = []")
    case True
    with v Suc show ?thesis by (simp add: quote_def parse_string_quote)
  next
    case False
    then have h: "fields_text fs = CHR '','' # tl (fields_text fs)" using fields_head [of fs] by simp
    have "skip (fields_text fs @ t) = CHR '','' # tl (fields_text fs) @ t" by (subst h) simp
    with v fs [OF False l(2)] Suc show ?thesis by (simp add: quote_def parse_string_quote)
  qed
qed (use len in simp)

lemma items_read:
  assumes "\<And>f t d. d \<in> set ds \<Longrightarrow> ends_number t \<Longrightarrow> 2 * length (json_text d) < f \<Longrightarrow> parse_value f (json_text d @ t) = Some (d, t)"
  shows "ds \<noteq> [] \<Longrightarrow> 2 * length (items_text ds) \<le> f \<Longrightarrow> parse_items f (tl (items_text ds) @ t) = Some (ds, t)"
  using assms
proof (induction ds arbitrary: f t)
  case (Cons d ds)
  have "parse_items f (json_text d @ items_text ds @ t) = Some (d # ds, t)"
  proof (rule items_step)
    show "2 * (length (json_text d) + length (items_text ds)) < f" using Cons.prems by simp
  next
    fix f t assume "ds \<noteq> []" "2 * length (items_text ds) < f"
    then show "parse_items f (tl (items_text ds) @ t) = Some (ds, t)" by (intro Cons.IH Cons.prems(3)) simp_all
  next
    fix f t assume "ends_number t" "2 * length (json_text d) < f"
    then show "parse_value f (json_text d @ t) = Some (d, t)" by (intro Cons.prems(3)) simp_all
  qed
  then show ?case by simp
qed simp

lemma fields_read:
  assumes "\<And>f t k d. (k, d) \<in> set fs \<Longrightarrow> ends_number t \<Longrightarrow> 2 * length (json_text d) < f \<Longrightarrow> parse_value f (json_text d @ t) = Some (d, t)"
  shows "fs \<noteq> [] \<Longrightarrow> 2 * length (fields_text fs) \<le> f \<Longrightarrow> parse_fields f (tl (fields_text fs) @ t) = Some (fs, t)"
  using assms
proof (induction fs arbitrary: f t)
  case (Cons p fs)
  obtain k d where p: "p = (k, d)" by fastforce
  have "parse_fields f (quote k @ CHR '':'' # json_text d @ fields_text fs @ t) = Some ((k, d) # fs, t)"
  proof (rule fields_step)
    show "2 * (length (json_text d) + length (fields_text fs)) < f" using Cons.prems p by simp
  next
    fix f t assume "ends_number t" "2 * length (json_text d) < f"
    then show "parse_value f (json_text d @ t) = Some (d, t)" by (intro Cons.prems(3) [of k]) (simp_all add: p)
  next
    fix f t assume "fs \<noteq> []" "2 * length (fields_text fs) < f"
    then have ne: "fs \<noteq> []" and le: "2 * length (fields_text fs) \<le> f" by simp_all
    show "parse_fields f (tl (fields_text fs) @ t) = Some (fs, t)"
    proof (rule Cons.IH [OF ne le])
      fix f t k d assume "(k, d) \<in> set fs" "ends_number t" "2 * length (json_text d) < f"
      then show "parse_value f (json_text d @ t) = Some (d, t)" by (intro Cons.prems(3) [of k]) simp_all
    qed
  qed
  then show ?case using p by simp
qed simp

lemma parse_text: "doc_ok d \<Longrightarrow> ends_number t \<Longrightarrow> 2 * length (json_text d) < f \<Longrightarrow> parse_value f (json_text d @ t) = Some (d, t)"
proof (induction d arbitrary: f t)
  case DNull then show ?case by (cases f) (simp_all add: parse_word_def)
next
  case (DBool b) then show ?case by (cases f) (simp_all add: parse_word_def)
next
  case (DNum n) then show ?case by (cases f) (simp_all add: parse_num del: parse_value.simps)
next
  case (DStr s) then show ?case by (cases f) (simp_all add: quote_def parse_string_quote)
next
  case (DArr ds)
  obtain n where n: "f = Suc n" using DArr.prems by (cases f) simp_all
  show ?case
  proof (cases ds)
    case Nil
    with n show ?thesis by simp
  next
    case (Cons d ds')
    have "parse_items n (tl (items_text ds) @ t) = Some (ds, t)"
    proof (rule items_read)
      fix f t d assume d: "d \<in> set ds" and le: "ends_number t" "2 * length (json_text d) < f"
      have "doc_ok d" using DArr.prems(1) d by (simp add: list_all_iff)
      from DArr.IH [OF d this le] show "parse_value f (json_text d @ t) = Some (d, t)" .
    qed (use DArr.prems n Cons in simp_all)
    moreover obtain c r where "json_text d = c # r" "\<not> json_space c" "c \<noteq> CHR '']''" using text_head [of d] by blast
    ultimately show ?thesis using Cons n skip_text [of d "items_text ds' @ t"] by simp
  qed
next
  case (DObj fs)
  obtain n where n: "f = Suc n" using DObj.prems by (cases f) simp_all
  show ?case
  proof (cases fs)
    case Nil
    with n show ?thesis by simp
  next
    case (Cons p fs')
    obtain k d where p: "p = (k, d)" by fastforce
    have read: "parse_fields n (tl (fields_text fs) @ t) = Some (fs, t)"
    proof (rule fields_read)
      fix f t k d assume kd: "(k, d) \<in> set fs" and le: "ends_number t" "2 * length (json_text d) < f"
      have "doc_ok d" using DObj.prems(1) kd by (auto simp: list_all_iff)
      from DObj.IH [OF kd _ this le] show "parse_value f (json_text d @ t) = Some (d, t)" by simp
    qed (use DObj.prems n Cons p in simp_all)
    have "jm_wf ([] @ fs)" using DObj.prems(1) by simp
    then have folded: "fold (\<lambda>(k, d) m. jm_set m k d) fs [] = [] @ fs" by (rule fold_set_fields)
    obtain u where u: "tl (fields_text fs) @ t = CHR 0x22 # u" using Cons p by (simp add: quote_def)
    have "parse_fields n (CHR 0x22 # u) = Some (fs, t)" using read u by (simp only:)
    then have "parse_value (Suc n) (CHR ''{'' # CHR 0x22 # u) = Some (DObj fs, t)" using folded by simp
    moreover have "json_text (DObj fs) @ t = CHR ''{'' # tl (fields_text fs) @ t" using Cons p by simp
    ultimately show ?thesis unfolding n u by (simp only:)
  qed
qed

text \<open>What was printed is read back.\<close>

lemma json_parse_text: "doc_ok d \<Longrightarrow> json_parse (json_text d) = Some d"
  using parse_text [of d "[]" "Suc (2 * length (json_text d))"] by (simp add: json_parse_def ends_number_def)

lemma json_text_inj: "doc_ok d \<Longrightarrow> doc_ok d' \<Longrightarrow> json_text d = json_text d' \<Longrightarrow> d = d'"
  by (metis json_parse_text option.inject)

end
