(* ===== verification/WebCrypto.thy ===== *)
theory WebCrypto imports Base64 JsonText begin

text \<open>
  The Web Crypto operations the client calls, as a record of functions that every definition of
  the encrypted chat, the encrypted media and the drive takes as its argument: the browser
  implements them. A \<open>CryptoKey\<close> is its key material, and every random choice (a generated key, an
  initialisation vector, the nonce of a signature) is an input of the operation that makes it. The locale \<open>web_crypto\<close> states the
  documented behaviour the client relies on; \<open>plain_crypto\<close> is an instance that computes.
\<close>

type_synonym ckey = bytes

datatype key_format = Raw | Spki

record web_crypto =
  aes_encrypt :: "ckey \<Rightarrow> bytes \<Rightarrow> bytes \<Rightarrow> bytes"
  aes_decrypt :: "ckey \<Rightarrow> bytes \<Rightarrow> bytes \<Rightarrow> bytes result"
  import_aes :: "bytes \<Rightarrow> ckey result"
  export_aes :: "ckey \<Rightarrow> bytes"
  import_ecdh :: "key_format \<Rightarrow> bytes \<Rightarrow> ckey result"
  import_ecdsa :: "bytes \<Rightarrow> ckey result"
  export_pub :: "key_format \<Rightarrow> ckey \<Rightarrow> bytes"
  ecdh_bits :: "ckey \<Rightarrow> ckey \<Rightarrow> bytes"
  hkdf_key :: "bytes \<Rightarrow> bytes \<Rightarrow> ckey"
  ecdsa_sign :: "bytes \<Rightarrow> ckey \<Rightarrow> bytes \<Rightarrow> bytes"
  ecdsa_verify :: "ckey \<Rightarrow> bytes \<Rightarrow> bytes \<Rightarrow> bool"
  sha_256 :: "bytes \<Rightarrow> bytes"
  aes_generated :: "ckey \<Rightarrow> bool"
  ecdh_generated :: "ckey \<Rightarrow> ckey \<Rightarrow> bool"
  ecdsa_generated :: "ckey \<Rightarrow> ckey \<Rightarrow> bool"

text \<open>
  The arguments come in the order of the calls: \<open>aes_encrypt key iv plaintext\<close>,
  \<open>ecdh_bits privateKey publicKey\<close>, \<open>hkdf_key sharedBits info\<close>, \<open>ecdsa_sign nonce privateKey data\<close>,
  \<open>ecdsa_verify publicKey signature data\<close>; the last three fields say which keys and which pairs
  of a public and a private key \<open>generateKey\<close> returns. The \<open>GCM\<close> tag is the last sixteen bytes of a ciphertext and a
  function of the key, the vector and the plaintext, so decryption accepts one ciphertext per plaintext.
\<close>

locale web_crypto =
  fixes W :: web_crypto
  assumes decrypt_encrypt: "aes_decrypt W key iv (aes_encrypt W key iv p) = ok p"
    and encrypt_decrypt: "aes_decrypt W key iv c = ok p \<Longrightarrow> c = aes_encrypt W key iv p"
    and length_encrypt: "length (aes_encrypt W key iv p) = length p + 16"
    and import_raw: "length raw = 32 \<Longrightarrow> \<exists>key. import_aes W raw = ok key"
    and import_export: "aes_generated W key \<Longrightarrow> import_aes W (export_aes W key) = ok key"
    and import_pub: "ecdh_generated W pub priv \<Longrightarrow> import_ecdh W f (export_pub W f pub) = ok pub"
    and export_nonempty: "ecdh_generated W pub priv \<Longrightarrow> export_pub W f pub \<noteq> []"
    and import_verify: "ecdsa_generated W pub priv \<Longrightarrow> import_ecdsa W (export_pub W Spki pub) = ok pub"
    and ecdh_agree: "ecdh_generated W pub priv \<Longrightarrow> ecdh_generated W pub' priv'
      \<Longrightarrow> ecdh_bits W priv pub' = ecdh_bits W priv' pub"
    and verify_sign: "ecdsa_generated W pub priv \<Longrightarrow> ecdsa_verify W pub (ecdsa_sign W nonce priv d) d"
    and length_digest: "length (sha_256 W d) = 32"

section \<open>An instance that computes\<close>

definition first32 :: "bytes \<Rightarrow> bytes" where
  "first32 d = take 32 (d @ replicate 32 0)"

definition plain_tag :: "ckey \<Rightarrow> bytes \<Rightarrow> bytes" where
  "plain_tag key iv = take 16 (map2 (+) (first32 key) (first32 iv))"

definition key32 :: "bytes \<Rightarrow> ckey result" where
  "key32 b = (if length b = 32 then ok b else throw ''DataError'')"

definition plain_crypto :: web_crypto where
  "plain_crypto = \<lparr>
    aes_encrypt = (\<lambda>key iv p. p @ plain_tag key iv),
    aes_decrypt = (\<lambda>key iv c. if 16 \<le> length c \<and> drop (length c - 16) c = plain_tag key iv
      then ok (take (length c - 16) c) else throw ''OperationError''),
    import_aes = key32, export_aes = (\<lambda>key. key), import_ecdh = (\<lambda>f. key32), import_ecdsa = key32,
    export_pub = (\<lambda>f pub. pub), ecdh_bits = (\<lambda>priv pub. map2 (+) priv pub), hkdf_key = (\<lambda>ikm info. ikm),
    ecdsa_sign = (\<lambda>nonce priv d. priv @ d), ecdsa_verify = (\<lambda>pub sig d. sig = pub @ d), sha_256 = first32,
    aes_generated = (\<lambda>key. length key = 32), ecdh_generated = (\<lambda>pub priv. length pub = 32 \<and> priv = pub),
    ecdsa_generated = (\<lambda>pub priv. length pub = 32 \<and> priv = pub)\<rparr>"

lemma length_first32 [simp]: "length (first32 d) = 32"
  by (simp add: first32_def)

lemma length_plain_tag [simp]: "length (plain_tag key iv) = 16"
  by (simp add: plain_tag_def)

lemma map2_add_commute: "map2 (+) xs ys = map2 (+) ys (xs :: bytes)"
  by (induction xs ys rule: list_induct2') (simp_all add: add.commute)

interpretation plain: web_crypto plain_crypto
proof unfold_locales
  fix key iv c p assume "aes_decrypt plain_crypto key iv c = ok p"
  then have "16 \<le> length c" "drop (length c - 16) c = plain_tag key iv" "p = take (length c - 16) c"
    by (simp_all add: plain_crypto_def split: if_splits)
  then show "c = aes_encrypt plain_crypto key iv p"
    using append_take_drop_id [of "length c - 16" c] by (simp add: plain_crypto_def)
qed (auto simp: plain_crypto_def key32_def map2_add_commute)

section \<open>Text and bytes\<close>

text \<open>
  Base64 as \<open>bytesToB64\<close> and \<open>b64ToBytes\<close> compute it through the binary string; \<open>atob\<close> throws on a text
  that is not base64.
\<close>

definition bytesToB64 :: "bytes \<Rightarrow> string" where
  "bytesToB64 b = btoa b"

definition b64ToBytes :: "string \<Rightarrow> bytes result" where
  "b64ToBytes s = (case atob s of None \<Rightarrow> throw ''InvalidCharacterError'' | Some b \<Rightarrow> ok b)"

lemma b64_roundtrip [simp]: "b64ToBytes (bytesToB64 b) = ok b"
  by (simp add: b64ToBytes_def bytesToB64_def atob_btoa)

lemma bytesToB64_inj: "bytesToB64 a = bytesToB64 b \<longleftrightarrow> a = b"
proof
  assume "bytesToB64 a = bytesToB64 b"
  then have "b64ToBytes (bytesToB64 a) = b64ToBytes (bytesToB64 b)" by simp
  then show "a = b" by simp
qed simp

lemma btoa_nonempty: "b \<noteq> [] \<Longrightarrow> bytesToB64 b \<noteq> []"
  using bytesToB64_inj [of b "[]"] by (auto simp: bytesToB64_def btoa_def)

text \<open>
  \<open>TextEncoder\<close> and \<open>TextDecoder\<close> on the characters up to 255 of the model's strings. The decoder
  never throws; what is not the encoding of such a character is shown as a question mark.
\<close>

definition utf8_char :: "char \<Rightarrow> bytes" where
  "utf8_char c = (let n = of_char c in
    if n < 128 then [word_of_nat n] else [word_of_nat (192 + n div 64), word_of_nat (128 + n mod 64)])"

definition utf8_encode :: "string \<Rightarrow> bytes" where
  "utf8_encode s = concat (map utf8_char s)"

fun utf8_decode :: "bytes \<Rightarrow> string" where
  "utf8_decode [] = []"
| "utf8_decode [a] = (if unat a < 128 then [char_of (unat a)] else ''?'')"
| "utf8_decode (a # b # r) =
    (if unat a < 128 then char_of (unat a) # utf8_decode (b # r)
     else if 194 \<le> unat a \<and> unat a < 196 \<and> 128 \<le> unat b \<and> unat b < 192
       then char_of ((unat a - 192) * 64 + (unat b - 128)) # utf8_decode r
     else CHR ''?'' # utf8_decode (b # r))"

lemma utf8_decode_char: "utf8_decode (utf8_char c @ r) = c # utf8_decode r"
proof -
  define n where "n = (of_char c :: nat)"
  have lt: "n < 256" using nat_of_char_less_256 [of c] by (simp add: n_def)
  have c: "char_of n = c" by (simp add: n_def)
  show ?thesis
  proof (cases "n < 128")
    case True
    then have "utf8_char c = [word_of_nat n]" by (simp add: utf8_char_def n_def Let_def)
    moreover have "unat (word_of_nat n :: byte) = n" using lt by (simp add: unat_of_nat)
    ultimately show ?thesis using True c by (cases r) simp_all
  next
    case False
    then have e: "utf8_char c = [word_of_nat (192 + n div 64), word_of_nat (128 + n mod 64)]"
      by (simp add: utf8_char_def n_def Let_def)
    have d: "2 \<le> n div 64" "n div 64 < 4" using False lt by auto
    have a: "unat (word_of_nat (192 + n div 64) :: byte) = 192 + n div 64" using d by (simp add: unat_of_nat del: of_nat_add)
    have b: "unat (word_of_nat (128 + n mod 64) :: byte) = 128 + n mod 64" by (simp add: unat_of_nat del: of_nat_add)
    have "n div 64 * 64 + n mod 64 = n" by simp
    with e a b c d False show ?thesis by (simp del: of_nat_add)
  qed
qed

lemma utf8_roundtrip [simp]: "utf8_decode (utf8_encode s) = s"
  by (induction s) (simp_all add: utf8_encode_def utf8_decode_char)

lemma utf8_inj: "utf8_encode s = utf8_encode t \<longleftrightarrow> s = t"
  by (metis utf8_roundtrip)

text \<open>Two hexadecimal digits of a byte: \<open>toString(16).padStart(2, "0")\<close>.\<close>

definition hex2 :: "byte \<Rightarrow> string" where
  "hex2 b = [hex_digit (unat b div 16), hex_digit (unat b mod 16)]"

text \<open>The order of strings by their code units, which \<open><\<close> and the default \<open>sort\<close> use.\<close>

fun str_less :: "string \<Rightarrow> string \<Rightarrow> bool" where
  "str_less s [] = False"
| "str_less [] (d # t) = True"
| "str_less (c # s) (d # t) =
    (of_char c < (of_char d :: nat) \<or> c = d \<and> str_less s t)"

lemma str_less_linear: "str_less s t \<or> s = t \<or> str_less t s"
proof (induction s t rule: str_less.induct)
  case (3 c s d t)
  have "of_char c < (of_char d :: nat) \<or> c = d \<or> of_char d < (of_char c :: nat)"
    by (metis linorder_less_linear of_char_eq_iff)
  with 3 show ?case by auto
qed (auto, (metis str_less.simps(2) neq_Nil_conv)+)

lemma str_less_asym: "str_less s t \<Longrightarrow> \<not> str_less t s"
  by (induction s t rule: str_less.induct) auto

end
