(* ===== verification/ChatCrypto.thy ===== *)
theory ChatCrypto imports WebCrypto Rooms begin

text \<open>
  The end-to-end encrypted chat: the key agreement and the text encryption of \<open>lib/chatCrypto.ts\<close>,
  and the part of \<open>pages/Index.tsx\<close> that queues, encrypts, dispatches, decrypts and deduplicates
  messages. The random vectors, the clock and what a data channel does with a frame are inputs. Calls of Web Crypto are taken together with the rest of
  their handler as one step: between the start of a derivation, an encryption or a decryption and its result the model lets no other handler run.
\<close>

section \<open>Keys and texts\<close>

definition HKDF_INFO :: bytes where
  "HKDF_INFO = utf8_encode ''socket-webrtc-chat-v1''"

record chat_keypair =
  privateKey :: ckey
  publicKey :: ckey
  publicKeyB64 :: string

record encrypted_blob =
  blob_iv :: string
  blob_ct :: string

definition generateChatKeypair :: "web_crypto \<Rightarrow> ckey \<Rightarrow> ckey \<Rightarrow> chat_keypair" where
  "generateChatKeypair W pub priv =
    \<lparr>privateKey = priv, publicKey = pub, publicKeyB64 = bytesToB64 (export_pub W Raw pub)\<rparr>"

definition deriveSharedKey :: "web_crypto \<Rightarrow> ckey \<Rightarrow> string \<Rightarrow> ckey result" where
  "deriveSharedKey W myPrivKey theirPubKeyB64 =
    rbind (b64ToBytes theirPubKeyB64) (\<lambda>raw.
    rbind (import_ecdh W Raw raw) (\<lambda>theirPub.
    ok (hkdf_key W (ecdh_bits W myPrivKey theirPub) HKDF_INFO)))"

definition encryptText :: "web_crypto \<Rightarrow> bytes \<Rightarrow> ckey \<Rightarrow> string \<Rightarrow> encrypted_blob" where
  "encryptText W iv key plaintext =
    (let ct = aes_encrypt W key iv (utf8_encode plaintext)
     in \<lparr>blob_iv = bytesToB64 iv, blob_ct = bytesToB64 ct\<rparr>)"

definition decryptText :: "web_crypto \<Rightarrow> ckey \<Rightarrow> string \<Rightarrow> string \<Rightarrow> string result" where
  "decryptText W key ivB64 ctB64 =
    rbind (b64ToBytes ivB64) (\<lambda>iv.
    rbind (b64ToBytes ctB64) (\<lambda>ct.
    rbind (aes_decrypt W key iv ct) (\<lambda>pt. ok (utf8_decode pt))))"

text \<open>The sixteen first bytes of the digest in hexadecimal, in groups of four digits.\<close>

fun groups4 :: "string \<Rightarrow> string list" where
  "groups4 (a # b # c # d # r) = [a, b, c, d] # groups4 r"
| "groups4 r = []"

definition join_space :: "string list \<Rightarrow> string" where
  "join_space ws = (case ws of [] \<Rightarrow> [] | w # r \<Rightarrow> w @ concat (map (\<lambda>x. '' '' @ x) r))"

definition safetyNumber :: "web_crypto \<Rightarrow> string \<Rightarrow> string \<Rightarrow> string" where
  "safetyNumber W pubA pubB =
    (let ordered = (if str_less pubA pubB then pubA @ ''|'' @ pubB else pubB @ ''|'' @ pubA);
         digest = sha_256 W (utf8_encode ordered);
         hex = concat (map (\<lambda>i. hex2 (digest ! i)) [0..<16])
     in join_space (groups4 hex))"

section \<open>The chat of a client\<close>

record chat_message =
  msgId :: string
  chat_from :: string
  chat_user :: string
  chat_text :: string
  chat_ts :: nat

record queued_chat =
  q_msgId :: string
  q_text :: string
  q_ts :: nat

record chat_state =
  keypair :: "chat_keypair option"
  peer_keys :: "(string, string \<times> ckey) jmap"
  pending_chats :: "(string, queued_chat list) jmap"
  seen_ids :: "string list"
  chat_messages :: "chat_message list"

definition new_chat :: chat_state where
  "new_chat = \<lparr>keypair = None, peer_keys = [], pending_chats = [], seen_ids = [], chat_messages = []\<rparr>"

text \<open>A frame on its way to a peer: over the data channel, or through the relay of the server.\<close>

datatype route = ByChannel | ByRelay

record chat_frame =
  f_to :: string
  f_route :: route
  f_msgId :: string
  f_username :: string
  f_iv :: string
  f_ct :: string
  f_ts :: nat

definition addChatMessage :: "chat_message \<Rightarrow> chat_state \<Rightarrow> chat_state" where
  "addChatMessage m s =
    (if msgId m = [] \<or> msgId m \<in> set (seen_ids s) then s
     else let all = seen_ids s @ [msgId m];
              kept = (if length all > 500 then drop (length all - 500) all else all)
          in s\<lparr>seen_ids := kept, chat_messages := chat_messages s @ [m]\<rparr>)"

text \<open>
  \<open>dc_sends\<close> says whether the peer's data channel is open and takes the frame; if not, the frame goes to the relay.
\<close>

definition encryptAndDispatchChat ::
  "web_crypto \<Rightarrow> string \<Rightarrow> string \<Rightarrow> bytes \<Rightarrow> bool \<Rightarrow> queued_chat \<Rightarrow> chat_state \<Rightarrow> chat_state \<times> chat_frame list" where
  "encryptAndDispatchChat W me peerId iv dc_sends q s =
    (case jm_get (peer_keys s) peerId of
       None \<Rightarrow>
         (let queue = (case jm_get (pending_chats s) peerId of None \<Rightarrow> [] | Some qs \<Rightarrow> qs)
          in (s\<lparr>pending_chats := jm_set (pending_chats s) peerId (queue @ [q])\<rparr>, []))
     | Some (theirPub, sharedKey) \<Rightarrow>
         (let blob = encryptText W iv sharedKey (q_text q)
          in (s, [\<lparr>f_to = peerId, f_route = (if dc_sends then ByChannel else ByRelay), f_msgId = q_msgId q,
                   f_username = me, f_iv = blob_iv blob, f_ct = blob_ct blob, f_ts = q_ts q\<rparr>])))"

text \<open>The loop of \<open>flushPendingChats\<close>; each message takes the next random vector and finds the channel as it is by then.\<close>

fun dispatch_all ::
  "web_crypto \<Rightarrow> string \<Rightarrow> string \<Rightarrow> (nat \<Rightarrow> bytes) \<Rightarrow> (nat \<Rightarrow> bool) \<Rightarrow> queued_chat list \<Rightarrow> chat_state \<Rightarrow> chat_state \<times> chat_frame list" where
  "dispatch_all W me peerId ivs dc_sends [] s = (s, [])"
| "dispatch_all W me peerId ivs dc_sends (q # qs) s =
    (let (s', out) = encryptAndDispatchChat W me peerId (ivs 0) (dc_sends 0) q s;
         (s'', out') = dispatch_all W me peerId (\<lambda>i. ivs (Suc i)) (\<lambda>i. dc_sends (Suc i)) qs s'
     in (s'', out @ out'))"

definition flushPendingChats ::
  "web_crypto \<Rightarrow> string \<Rightarrow> string \<Rightarrow> (nat \<Rightarrow> bytes) \<Rightarrow> (nat \<Rightarrow> bool) \<Rightarrow> chat_state \<Rightarrow> chat_state \<times> chat_frame list" where
  "flushPendingChats W me peerId ivs dc_sends s =
    (case jm_get (pending_chats s) peerId of
       None \<Rightarrow> (s, [])
     | Some queue \<Rightarrow>
         if queue = [] then (s, [])
         else dispatch_all W me peerId ivs dc_sends queue (s\<lparr>pending_chats := jm_del (pending_chats s) peerId\<rparr>))"

text \<open>
  The \<open>peer-pubkey\<close> event. The flag of the result is the request for the room's media key that is
  sent to the peer afterwards.
\<close>

definition on_peer_pubkey ::
  "web_crypto \<Rightarrow> string \<Rightarrow> (nat \<Rightarrow> bytes) \<Rightarrow> (nat \<Rightarrow> bool) \<Rightarrow> bool \<Rightarrow> string \<Rightarrow> string \<Rightarrow> chat_state
    \<Rightarrow> chat_state \<times> chat_frame list \<times> bool" where
  "on_peer_pubkey W me ivs dc_sends has_media_key from pubKey s =
    (if from = [] \<or> pubKey = [] then (s, [], False)
     else case keypair s of
       None \<Rightarrow> (s, [], False)
     | Some kp \<Rightarrow>
         if map_option fst (jm_get (peer_keys s) from) = Some pubKey then (s, [], False)
         else case deriveSharedKey W (privateKey kp) pubKey of
           Inl e \<Rightarrow> (s, [], False)
         | Inr sharedKey \<Rightarrow>
             let s1 = s\<lparr>peer_keys := jm_set (peer_keys s) from (pubKey, sharedKey)\<rparr>;
                 (s2, out) = flushPendingChats W me from ivs dc_sends s1
             in (s2, out, \<not> has_media_key))"

text \<open>A frame at its recipient, by either route; a peer without the sender's key drops it.\<close>

definition receive_chat :: "web_crypto \<Rightarrow> string \<Rightarrow> chat_frame \<Rightarrow> chat_state \<Rightarrow> chat_state" where
  "receive_chat W from f s =
    (if f_route f = ByRelay \<and> f_msgId f = [] then s
     else case jm_get (peer_keys s) from of
       None \<Rightarrow> s
     | Some (theirPub, sharedKey) \<Rightarrow>
         (case decryptText W sharedKey (f_iv f) (f_ct f) of
            Inl e \<Rightarrow> s
          | Inr txt \<Rightarrow> addChatMessage \<lparr>msgId = f_msgId f, chat_from = from, chat_user = f_username f, chat_text = txt, chat_ts = f_ts f\<rparr> s))"

text \<open>
  Sending to the room: the local echo, then one dispatch per other member; \<open>ivs\<close> and \<open>dc_sends\<close> give
  each member's vector and channel.
\<close>

fun dispatch_peers ::
  "web_crypto \<Rightarrow> string \<Rightarrow> string \<Rightarrow> (string \<Rightarrow> bytes) \<Rightarrow> (string \<Rightarrow> bool) \<Rightarrow> queued_chat \<Rightarrow> string list \<Rightarrow> chat_state
    \<Rightarrow> chat_state \<times> chat_frame list" where
  "dispatch_peers W me myId ivs dc_sends q [] s = (s, [])"
| "dispatch_peers W me myId ivs dc_sends q (p # ps) s =
    (if p = myId then dispatch_peers W me myId ivs dc_sends q ps s
     else let (s', out) = encryptAndDispatchChat W me p (ivs p) (dc_sends p) q s;
              (s'', out') = dispatch_peers W me myId ivs dc_sends q ps s'
          in (s'', out @ out'))"

definition sendChatMessage ::
  "web_crypto \<Rightarrow> string \<Rightarrow> string \<Rightarrow> string \<Rightarrow> (string \<Rightarrow> bytes) \<Rightarrow> (string \<Rightarrow> bool) \<Rightarrow> string list \<Rightarrow> string \<Rightarrow> nat \<Rightarrow> string
    \<Rightarrow> chat_state \<Rightarrow> chat_state \<times> chat_frame list" where
  "sendChatMessage W me currentRoomName myId ivs dc_sends roomUsers newId now txt s =
    (let trimmed = trim txt in
     if trimmed = [] \<or> currentRoomName = [] then (s, [])
     else dispatch_peers W me myId ivs dc_sends \<lparr>q_msgId = newId, q_text = trimmed, q_ts = now\<rparr> roomUsers
            (addChatMessage \<lparr>msgId = newId, chat_from = myId, chat_user = me, chat_text = trimmed, chat_ts = now\<rparr> s))"

text \<open>A member that left; leaving the room; logging out.\<close>

definition remove_chat_peer :: "string \<Rightarrow> chat_state \<Rightarrow> chat_state" where
  "remove_chat_peer userId s = s\<lparr>peer_keys := jm_del (peer_keys s) userId, pending_chats := jm_del (pending_chats s) userId\<rparr>"

definition leave_chat :: "chat_state \<Rightarrow> chat_state" where
  "leave_chat s = s\<lparr>chat_messages := [], seen_ids := [], peer_keys := [], pending_chats := []\<rparr>"

definition logout_chat :: "chat_state \<Rightarrow> chat_state" where
  "logout_chat s = s\<lparr>chat_messages := [], seen_ids := [], peer_keys := [], pending_chats := [], keypair := None\<rparr>"

section \<open>Two peers agree\<close>

definition pair_key :: "web_crypto \<Rightarrow> ckey \<Rightarrow> ckey \<Rightarrow> ckey" where
  "pair_key W priv pub = hkdf_key W (ecdh_bits W priv pub) HKDF_INFO"

context web_crypto begin

lemma derive_ok:
  "ecdh_generated W pub priv \<Longrightarrow> deriveSharedKey W my (bytesToB64 (export_pub W Raw pub)) = ok (pair_key W my pub)"
  by (simp add: deriveSharedKey_def import_pub pair_key_def)

lemma pair_key_agree:
  "ecdh_generated W pub priv \<Longrightarrow> ecdh_generated W pub' priv' \<Longrightarrow> pair_key W priv pub' = pair_key W priv' pub"
  unfolding pair_key_def by (subst ecdh_agree) simp_all

lemma decrypt_text: "decryptText W key (blob_iv (encryptText W iv key t)) (blob_ct (encryptText W iv key t)) = ok t"
  by (simp add: decryptText_def encryptText_def Let_def decrypt_encrypt)

end

lemma safetyNumber_commute: "safetyNumber W a b = safetyNumber W b a"
  using str_less_linear [of a b] str_less_asym [of a b] by (auto simp: safetyNumber_def)

text \<open>The frame that carries a queued message under a key.\<close>

definition chat_frame_of :: "web_crypto \<Rightarrow> string \<Rightarrow> string \<Rightarrow> bytes \<Rightarrow> bool \<Rightarrow> ckey \<Rightarrow> queued_chat \<Rightarrow> chat_frame" where
  "chat_frame_of W me p iv dc_sends key q =
    \<lparr>f_to = p, f_route = (if dc_sends then ByChannel else ByRelay), f_msgId = q_msgId q, f_username = me,
     f_iv = blob_iv (encryptText W iv key (q_text q)), f_ct = blob_ct (encryptText W iv key (q_text q)), f_ts = q_ts q\<rparr>"

lemma dispatch_keyed:
  "jm_get (peer_keys s) p = Some (pk, key) \<Longrightarrow>
    encryptAndDispatchChat W me p iv dc q s = (s, [chat_frame_of W me p iv dc key q])"
  by (simp add: encryptAndDispatchChat_def chat_frame_of_def Let_def)

lemma dispatch_all_keyed:
  "jm_get (peer_keys s) p = Some (pk, key) \<Longrightarrow>
    dispatch_all W me p ivs dc qs s = (s, map (\<lambda>i. chat_frame_of W me p (ivs i) (dc i) key (qs ! i)) [0..<length qs])"
proof (induction qs arbitrary: ivs dc)
  case (Cons q qs)
  then show ?case
    by (simp add: dispatch_keyed upt_conv_Cons map_Suc_upt [symmetric] comp_def del: upt_Suc)
qed simp

lemma dispatch_unkeyed:
  "jm_get (peer_keys s) p = None \<Longrightarrow> snd (encryptAndDispatchChat W me p iv dc q s) = []"
  by (simp add: encryptAndDispatchChat_def Let_def)

text \<open>What a received message looks like on the screen.\<close>

definition shown :: "string \<Rightarrow> string \<Rightarrow> queued_chat \<Rightarrow> chat_message" where
  "shown from me q = \<lparr>msgId = q_msgId q, chat_from = from, chat_user = me, chat_text = q_text q, chat_ts = q_ts q\<rparr>"


lemma addChatMessage_new:
  "msgId m \<noteq> [] \<Longrightarrow> msgId m \<notin> set (seen_ids s) \<Longrightarrow> chat_messages (addChatMessage m s) = chat_messages s @ [m]
    \<and> set (seen_ids (addChatMessage m s)) \<subseteq> insert (msgId m) (set (seen_ids s)) \<and> peer_keys (addChatMessage m s) = peer_keys s"
  using set_drop_subset [of "length (seen_ids s @ [msgId m]) - 500" "seen_ids s @ [msgId m]"]
  by (auto simp: addChatMessage_def Let_def)

context web_crypto begin

lemma receive_shown:
  assumes "jm_get (peer_keys s) from = Some (pk, key)" "q_msgId q \<noteq> []"
  shows "receive_chat W from (chat_frame_of W me p iv dc key q) s = addChatMessage (shown from me q) s"
  using assms by (simp add: receive_chat_def chat_frame_of_def decrypt_text shown_def)

lemma receive_all:
  assumes "jm_get (peer_keys s) from = Some (pk, key)" "distinct (map q_msgId qs)"
    and "\<forall>q \<in> set qs. q_msgId q \<noteq> [] \<and> q_msgId q \<notin> set (seen_ids s)"
  shows "chat_messages (fold (receive_chat W from) (map (\<lambda>i. chat_frame_of W me p (ivs i) (dc i) key (qs ! i)) [0..<length qs]) s)
    = chat_messages s @ map (shown from me) qs"
  using assms
proof (induction qs arbitrary: s ivs dc)
  case (Cons q qs)
  let ?s = "addChatMessage (shown from me q) s"
  have q: "msgId (shown from me q) \<noteq> []" "msgId (shown from me q) \<notin> set (seen_ids s)"
    using Cons.prems(3) by (simp_all add: shown_def)
  note new = addChatMessage_new [OF q]
  have "\<forall>q \<in> set qs. q_msgId q \<noteq> [] \<and> q_msgId q \<notin> set (seen_ids ?s)"
  proof
    fix q' assume q': "q' \<in> set qs"
    have "set (seen_ids ?s) \<subseteq> insert (q_msgId q) (set (seen_ids s))" using new by (simp add: shown_def)
    moreover have "q_msgId q' \<noteq> q_msgId q" using q' Cons.prems(2) by (metis distinct.simps(2) image_eqI list.set_map list.simps(9))
    ultimately show "q_msgId q' \<noteq> [] \<and> q_msgId q' \<notin> set (seen_ids ?s)" using q' Cons.prems(3) by auto
  qed
  then have "chat_messages (fold (receive_chat W from) (map (\<lambda>i. chat_frame_of W me p (ivs (Suc i)) (dc (Suc i)) key (qs ! i)) [0..<length qs]) ?s)
      = chat_messages ?s @ map (shown from me) qs"
    using Cons.IH [of ?s "\<lambda>i. ivs (Suc i)" "\<lambda>i. dc (Suc i)"] Cons.prems(1,2) new by simp
  moreover have "receive_chat W from (chat_frame_of W me p (ivs 0) (dc 0) key q) s = ?s"
    by (rule receive_shown [OF Cons.prems(1)]) (use Cons.prems(3) in simp)
  ultimately show ?case using new
    by (simp add: upt_conv_Cons map_Suc_upt [symmetric] comp_def del: upt_Suc)
qed simp

lemma on_peer_pubkey_flush:
  assumes kp: "keypair s = Some kp" and pub: "ecdh_generated W pub priv" and sender: "from \<noteq> []"
    and new: "map_option fst (jm_get (peer_keys s) from) \<noteq> Some (bytesToB64 (export_pub W Raw pub))"
    and qs: "jm_get (pending_chats s) from = Some qs" "qs \<noteq> []"
  shows "on_peer_pubkey W me ivs dc mk from (bytesToB64 (export_pub W Raw pub)) s =
    (s\<lparr>peer_keys := jm_set (peer_keys s) from (bytesToB64 (export_pub W Raw pub), pair_key W (privateKey kp) pub),
       pending_chats := jm_del (pending_chats s) from\<rparr>,
     map (\<lambda>i. chat_frame_of W me from (ivs i) (dc i) (pair_key W (privateKey kp) pub) (qs ! i)) [0..<length qs], \<not> mk)"
proof -
  have "bytesToB64 (export_pub W Raw pub) \<noteq> []" using export_nonempty [OF pub] by (rule btoa_nonempty)
  with assms show ?thesis
    by (simp add: on_peer_pubkey_def derive_ok flushPendingChats_def dispatch_all_keyed Let_def)
qed

lemma on_peer_pubkey_key:
  assumes kp: "keypair s = Some kp" and pub: "ecdh_generated W pub priv" and sender: "from \<noteq> []"
    and new: "map_option fst (jm_get (peer_keys s) from) \<noteq> Some (bytesToB64 (export_pub W Raw pub))"
    and none: "jm_get (pending_chats s) from = None"
  shows "fst (on_peer_pubkey W me ivs dc mk from (bytesToB64 (export_pub W Raw pub)) s) =
    s\<lparr>peer_keys := jm_set (peer_keys s) from (bytesToB64 (export_pub W Raw pub), pair_key W (privateKey kp) pub)\<rparr>"
proof -
  have "bytesToB64 (export_pub W Raw pub) \<noteq> []" using export_nonempty [OF pub] by (rule btoa_nonempty)
  with assms show ?thesis by (simp add: on_peer_pubkey_def derive_ok flushPendingChats_def Let_def)
qed

end

section \<open>Properties\<close>

text \<open>
  C10. Messages written before the keys were exchanged are not lost: when each of two clients
  receives the other's public key, the messages that waited leave encrypted under the key both derive, each over the data channel or
  the relay as the channel is by then, and the
  other client, if they arrive in the order they left, decrypts and shows them once each, in their order, with their text, name and time;
  the waiting list is empty afterwards.
\<close>

theorem queued_chats_arrive:
  fixes a b :: chat_state
  assumes W: "web_crypto W" and gen: "ecdh_generated W pubA privA" "ecdh_generated W pubB privB"
    and kp: "keypair a = Some (generateChatKeypair W pubA privA)" "keypair b = Some (generateChatKeypair W pubB privB)"
    and ids: "idA \<noteq> []" "idB \<noteq> []"
    and fresh: "jm_get (peer_keys a) idB = None" "jm_get (peer_keys b) idA = None" "jm_get (pending_chats b) idA = None"
    and queue: "jm_get (pending_chats a) idB = Some qs" "qs \<noteq> []" "distinct (map q_msgId qs)"
    and unseen: "\<forall>q \<in> set qs. q_msgId q \<noteq> [] \<and> q_msgId q \<notin> set (seen_ids b)"
    and A: "on_peer_pubkey W nameA ivs dc mk idB (publicKeyB64 (generateChatKeypair W pubB privB)) a = (a', frames, ask)"
    and B: "b' = fst (on_peer_pubkey W nameB ivs' dc' mk' idA (publicKeyB64 (generateChatKeypair W pubA privA)) b)"
  shows "chat_messages (fold (receive_chat W idA) frames b') = chat_messages b @ map (shown idA nameA) qs
    \<and> jm_get (pending_chats a') idB = None"
proof -
  let ?key = "pair_key W privA pubB"
  have b64: "publicKeyB64 (generateChatKeypair W p q) = bytesToB64 (export_pub W Raw p)" for p q
    by (simp add: generateChatKeypair_def)
  have priv: "privateKey (generateChatKeypair W p q) = q" for p q by (simp add: generateChatKeypair_def)
  have out: "frames = map (\<lambda>i. chat_frame_of W nameA idB (ivs i) (dc i) ?key (qs ! i)) [0..<length qs]"
    and a': "pending_chats a' = jm_del (pending_chats a) idB"
    using A web_crypto.on_peer_pubkey_flush [OF W kp(1) gen(2) ids(2) _ queue(1,2), of nameA ivs dc mk] fresh(1)
    by (auto simp: b64 priv)
  have b': "b' = b\<lparr>peer_keys := jm_set (peer_keys b) idA (bytesToB64 (export_pub W Raw pubA), pair_key W privB pubA)\<rparr>"
    using B web_crypto.on_peer_pubkey_key [OF W kp(2) gen(1) ids(1) _ fresh(3), of nameB ivs' dc' mk'] fresh(2)
    by (simp add: b64 priv)
  have "pair_key W privB pubA = ?key" by (rule web_crypto.pair_key_agree [OF W gen(2,1)])
  then have "chat_messages (fold (receive_chat W idA) frames b') = chat_messages b' @ map (shown idA nameA) qs"
    unfolding out using b' queue(3) unseen by (intro web_crypto.receive_all [OF W]) auto
  with b' a' show ?thesis by simp
qed

definition demo_key :: "byte \<Rightarrow> ckey" where
  "demo_key x = replicate 32 x"

definition demo_alice :: chat_state where
  "demo_alice = new_chat\<lparr>keypair := Some (generateChatKeypair plain_crypto (demo_key 1) (demo_key 1)),
    pending_chats := [(''B'', [\<lparr>q_msgId = ''m1'', q_text = ''hi'', q_ts = 7\<rparr>, \<lparr>q_msgId = ''m2'', q_text = ''there'', q_ts = 8\<rparr>])]\<rparr>"

definition demo_bob :: chat_state where
  "demo_bob = new_chat\<lparr>keypair := Some (generateChatKeypair plain_crypto (demo_key 2) (demo_key 2))\<rparr>"

lemma queued_chats_arrive_witness:
  "chat_messages (fold (receive_chat plain_crypto ''A'')
      (fst (snd (on_peer_pubkey plain_crypto ''Al'' (\<lambda>i. [word_of_nat i]) (\<lambda>i. True) True ''B''
        (publicKeyB64 (generateChatKeypair plain_crypto (demo_key 2) (demo_key 2))) demo_alice)))
      (fst (on_peer_pubkey plain_crypto ''Bo'' (\<lambda>i. []) (\<lambda>i. True) True ''A''
        (publicKeyB64 (generateChatKeypair plain_crypto (demo_key 1) (demo_key 1))) demo_bob)))
    = [shown ''A'' ''Al'' \<lparr>q_msgId = ''m1'', q_text = ''hi'', q_ts = 7\<rparr>,
       shown ''A'' ''Al'' \<lparr>q_msgId = ''m2'', q_text = ''there'', q_ts = 8\<rparr>]"
proof -
  let ?r = "on_peer_pubkey plain_crypto ''Al'' (\<lambda>i. [word_of_nat i]) (\<lambda>i. True) True ''B''
        (publicKeyB64 (generateChatKeypair plain_crypto (demo_key 2) (demo_key 2))) demo_alice"
  obtain a' frames ask where r: "?r = (a', frames, ask)" by (cases ?r)
  have gen: "ecdh_generated plain_crypto (demo_key x) (demo_key x)" for x
    by (simp add: plain_crypto_def demo_key_def)
  have st: "keypair demo_alice = Some (generateChatKeypair plain_crypto (demo_key 1) (demo_key 1))"
    "keypair demo_bob = Some (generateChatKeypair plain_crypto (demo_key 2) (demo_key 2))"
    "jm_get (peer_keys demo_alice) ''B'' = None" "jm_get (peer_keys demo_bob) ''A'' = None"
    "jm_get (pending_chats demo_bob) ''A'' = None" "chat_messages demo_bob = []"
    "jm_get (pending_chats demo_alice) ''B''
      = Some [\<lparr>q_msgId = ''m1'', q_text = ''hi'', q_ts = 7\<rparr>, \<lparr>q_msgId = ''m2'', q_text = ''there'', q_ts = 8\<rparr>]"
    by (simp_all add: demo_alice_def demo_bob_def new_chat_def)
  have "chat_messages (fold (receive_chat plain_crypto ''A'') frames
      (fst (on_peer_pubkey plain_crypto ''Bo'' (\<lambda>i. []) (\<lambda>i. True) True ''A''
        (publicKeyB64 (generateChatKeypair plain_crypto (demo_key 1) (demo_key 1))) demo_bob)))
    = chat_messages demo_bob @ map (shown ''A'' ''Al'')
        [\<lparr>q_msgId = ''m1'', q_text = ''hi'', q_ts = 7\<rparr>, \<lparr>q_msgId = ''m2'', q_text = ''there'', q_ts = 8\<rparr>]
      \<and> jm_get (pending_chats a') ''B'' = None"
    by (rule queued_chats_arrive [OF plain.web_crypto_axioms gen gen st(1,2) _ _ st(3,4,5,7) _ _ _ r refl])
      (simp_all add: demo_bob_def new_chat_def)
  then show ?thesis by (simp add: r st)
qed

text \<open>
  A message that reaches a client before that client has derived the sender's key is lost, by
  either route: the client ignores the frame, and the sender, who has the key, keeps nothing that a
  later exchange of keys would send again.
\<close>

theorem early_chat_lost:
  assumes sent: "encryptAndDispatchChat W nameA idB iv dc q a = (a', frames)"
    and keyed: "jm_get (peer_keys a) idB = Some (pk, key)" and unkeyed: "jm_get (peer_keys b) idA = None"
    and idle: "jm_get (pending_chats a) idB = None"
  shows "fold (receive_chat W idA) frames b = b \<and> a' = a
    \<and> fst (snd (on_peer_pubkey W nameA ivs dc' mk idB newKey a')) = []"
proof (intro conjI)
  have out: "a' = a" "frames = [chat_frame_of W nameA idB iv dc key q]"
    using sent dispatch_keyed [OF keyed, of W nameA iv dc q] by simp_all
  show "fold (receive_chat W idA) frames b = b" using unkeyed by (simp add: out receive_chat_def)
  show "a' = a" by (rule out)
  show "fst (snd (on_peer_pubkey W nameA ivs dc' mk idB newKey a')) = []"
    using idle by (simp add: out on_peer_pubkey_def flushPendingChats_def Let_def split: option.split sum.split)
qed

definition demo_keyed :: chat_state where
  "demo_keyed = new_chat\<lparr>peer_keys := [(''B'', ''pk'', demo_key 3)]\<rparr>"

lemma early_chat_lost_witness:
  "fold (receive_chat plain_crypto ''A'')
      (snd (encryptAndDispatchChat plain_crypto ''Al'' ''B'' [1] True \<lparr>q_msgId = ''m1'', q_text = ''hi'', q_ts = 7\<rparr> demo_keyed))
      demo_bob = demo_bob
    \<and> fst (snd (on_peer_pubkey plain_crypto ''Al'' (\<lambda>i. [word_of_nat i]) (\<lambda>i. True) True ''B'' ''pk2'' demo_keyed)) = []"
proof -
  let ?r = "encryptAndDispatchChat plain_crypto ''Al'' ''B'' [1] True \<lparr>q_msgId = ''m1'', q_text = ''hi'', q_ts = 7\<rparr> demo_keyed"
  obtain a' frames where r: "?r = (a', frames)" by (cases ?r)
  have "jm_get (peer_keys demo_keyed) ''B'' = Some (''pk'', demo_key 3)" "jm_get (peer_keys demo_bob) ''A'' = None"
    "jm_get (pending_chats demo_keyed) ''B'' = None"
    by (simp_all add: demo_keyed_def demo_bob_def new_chat_def)
  from early_chat_lost [OF r this, of "\<lambda>i. [word_of_nat i]" "\<lambda>i. True" True "''pk2''"] show ?thesis unfolding r by auto
qed

definition chat_ok :: "chat_state \<Rightarrow> bool" where
  "chat_ok s \<longleftrightarrow> distinct (seen_ids s) \<and> length (seen_ids s) \<le> 500"

text \<open>
  The list of the message ids a client remembers never holds an id twice and never more than
  500 of them, and a message whose id it holds is not shown again, whichever route brings it.
\<close>

theorem chat_dedup_window:
  assumes "chat_ok s"
  shows "chat_ok (addChatMessage m s) \<and> (msgId m \<in> set (seen_ids s) \<longrightarrow> addChatMessage m s = s)
    \<and> (msgId m \<noteq> [] \<longrightarrow> addChatMessage m (addChatMessage m s) = addChatMessage m s)"
  using assms set_drop_subset [of "length (seen_ids s) - 499" "seen_ids s"]
  by (auto simp: chat_ok_def addChatMessage_def Let_def)

lemma chat_dedup_window_witness: "chat_ok (addChatMessage (shown ''A'' ''Al'' \<lparr>q_msgId = ''m1'', q_text = ''hi'', q_ts = 7\<rparr>) new_chat)"
  using chat_dedup_window [of new_chat] by (simp add: chat_ok_def new_chat_def)

end
