(* ===== verification/MediaCrypto.thy ===== *)
theory MediaCrypto imports ChatCrypto begin

text \<open>
  The end-to-end encryption of the media frames that cross the \<open>SFU\<close>: the frame cipher, the key of the room and
  its exchange over the chat channel, the two transforms, and the state of \<open>useMediaE2EE\<close>
  (\<open>lib/mediaE2EE/\<close>, \<open>hooks/useMediaE2EE.ts\<close>). The import of a key, its wrapping and its unwrapping are one step with the function that awaits
  them; what is stated of the vectors of the frames is about every order of the calls of a cipher and does not rest on that.
\<close>

section \<open>The frame cipher\<close>

definition IV_BYTES :: nat where "IV_BYTES = 12"
definition TAG_BYTES :: nat where "TAG_BYTES = 16"

record frame_cipher =
  fc_key :: "(32 word \<times> ckey) option"
  sendCounter :: nat

definition new_cipher :: frame_cipher where
  "new_cipher = \<lparr>fc_key = None, sendCounter = 0\<rparr>"

text \<open>\<open>start\<close> is the random 64-bit number the counter starts at.\<close>

definition setKey :: "32 word \<Rightarrow> ckey \<Rightarrow> 64 word \<Rightarrow> frame_cipher \<Rightarrow> frame_cipher" where
  "setKey keyId key start c = c\<lparr>fc_key := Some (keyId, key), sendCounter := unat start\<rparr>"

definition clearKey :: "frame_cipher \<Rightarrow> frame_cipher" where
  "clearKey c = c\<lparr>fc_key := None, sendCounter := 0\<rparr>"

definition hasKey :: "frame_cipher \<Rightarrow> bool" where
  "hasKey c \<longleftrightarrow> fc_key c \<noteq> None"

definition currentKeyId :: "frame_cipher \<Rightarrow> 32 word option" where
  "currentKeyId c = map_option fst (fc_key c)"

text \<open>
  \<open>setUint32\<close> and \<open>setBigUint64\<close>, high byte first. The counter is a \<open>bigint\<close> without bound, of which
  \<open>setBigUint64\<close> keeps the low 64 bits.
\<close>

definition be32 :: "32 word \<Rightarrow> bytes" where
  "be32 w = map (\<lambda>s. ucast (drop_bit s w)) [24, 16, 8, 0]"

definition be64 :: "64 word \<Rightarrow> bytes" where
  "be64 w = map (\<lambda>s. ucast (drop_bit s w)) [56, 48, 40, 32, 24, 16, 8, 0]"

definition buildIv :: "32 word \<Rightarrow> nat \<Rightarrow> bytes" where
  "buildIv keyId counter = be32 keyId @ be64 (word_of_nat counter)"

definition encrypt_frame :: "web_crypto \<Rightarrow> bytes \<Rightarrow> frame_cipher \<Rightarrow> bytes result \<times> frame_cipher" where
  "encrypt_frame W payload c =
    (case fc_key c of
       None \<Rightarrow> (throw ''FrameCipher: no key set'', c)
     | Some (keyId, key) \<Rightarrow>
         let iv = buildIv keyId (sendCounter c);
             ct = aes_encrypt W key iv payload
         in (ok (iv @ ct), c\<lparr>sendCounter := sendCounter c + 1\<rparr>))"

definition int_str :: "int \<Rightarrow> string" where
  "int_str i = (if i < 0 then CHR ''-'' # nat_str (nat (- i)) else nat_str (nat i))"

definition frame_key_id :: "bytes \<Rightarrow> 32 word" where
  "frame_key_id iv =
    push_bit 24 (ucast (iv ! 0)) OR push_bit 16 (ucast (iv ! 1)) OR push_bit 8 (ucast (iv ! 2)) OR ucast (iv ! 3)"

definition decrypt_frame :: "web_crypto \<Rightarrow> bytes \<Rightarrow> 32 word \<Rightarrow> frame_cipher \<Rightarrow> bytes result" where
  "decrypt_frame W wire expectedKeyId c =
    (case fc_key c of
       None \<Rightarrow> throw ''FrameCipher: no key set''
     | Some (keyId, key) \<Rightarrow>
         if length wire < IV_BYTES + TAG_BYTES then throw ''FrameCipher: frame too short''
         else
           let iv = take IV_BYTES wire;
               got = frame_key_id iv
           in if got \<noteq> expectedKeyId
              then throw (''FrameCipher: key id mismatch (got '' @ int_str (sint got) @ '', want ''
                @ nat_str (unat expectedKeyId) @ '')'')
              else aes_decrypt W key iv (drop IV_BYTES wire))"

section \<open>The transforms\<close>

text \<open>What a transform enqueues for one frame: nothing, or the frame with its new data.\<close>

definition encode_transform :: "web_crypto \<Rightarrow> bytes \<Rightarrow> frame_cipher \<Rightarrow> bytes option \<times> frame_cipher" where
  "encode_transform W data c =
    (if \<not> hasKey c then (None, c)
     else case encrypt_frame W data c of
       (Inl e, c') \<Rightarrow> (None, c')
     | (Inr wire, c') \<Rightarrow> (Some wire, c'))"

definition decode_transform :: "web_crypto \<Rightarrow> 32 word \<Rightarrow> bytes \<Rightarrow> frame_cipher \<Rightarrow> bytes option" where
  "decode_transform W keyId data c =
    (if \<not> hasKey c then None
     else case decrypt_frame W data keyId c of Inl e \<Rightarrow> None | Inr plain \<Rightarrow> Some plain)"

text \<open>A track: the encoded frames of a sender in order, and the frames its receiver decodes.\<close>

fun encode_stream :: "web_crypto \<Rightarrow> bytes list \<Rightarrow> frame_cipher \<Rightarrow> bytes list" where
  "encode_stream W [] c = []"
| "encode_stream W (f # fs) c =
    (let (out, c') = encode_transform W f c
     in (case out of None \<Rightarrow> [] | Some w \<Rightarrow> [w]) @ encode_stream W fs c')"

text \<open>
  The ciphers of a room, one for each member, over a whole history: a call of \<open>setKey\<close> with the random number it draws, a call
  of \<open>clearKey\<close>, or a frame that passes the encoding transform. The hook calls nothing else of the cipher, so every
  interleaving of its asynchronous functions is such a history. A frame that is emitted is listed with the key it was encrypted under.
\<close>

datatype cipher_event = SetKey "32 word" ckey "64 word" | ClearKey | EncodeFrame bytes

fun cipher_step :: "web_crypto \<Rightarrow> cipher_event \<Rightarrow> frame_cipher \<Rightarrow> (32 word \<times> ckey \<times> bytes) list \<times> frame_cipher" where
  "cipher_step W (SetKey keyId key start) c = ([], setKey keyId key start c)"
| "cipher_step W ClearKey c = ([], clearKey c)"
| "cipher_step W (EncodeFrame f) c =
    (let (out, c') = encode_transform W f c
     in (case (fc_key c, out) of (Some (keyId, key), Some w) \<Rightarrow> [(keyId, key, w)] | _ \<Rightarrow> [], c'))"

fun cipher_run :: "web_crypto \<Rightarrow> (string \<times> cipher_event) list \<Rightarrow> (string \<Rightarrow> frame_cipher)
    \<Rightarrow> (32 word \<times> ckey \<times> bytes) list \<times> (string \<Rightarrow> frame_cipher)" where
  "cipher_run W [] cs = ([], cs)"
| "cipher_run W ((p, e) # es) cs =
    (let (out, c') = cipher_step W e (cs p); (outs, cs') = cipher_run W es (cs(p := c')) in (out @ outs, cs'))"

text \<open>The random numbers drawn, with the id of the key they were drawn for, and the number of frames that reach an encoder.\<close>

fun key_draws :: "(string \<times> cipher_event) list \<Rightarrow> (32 word \<times> 64 word) list" where
  "key_draws [] = []"
| "key_draws ((p, SetKey keyId key start) # es) = (keyId, start) # key_draws es"
| "key_draws ((p, ClearKey) # es) = key_draws es"
| "key_draws ((p, EncodeFrame f) # es) = key_draws es"

fun frame_count :: "(string \<times> cipher_event) list \<Rightarrow> nat" where
  "frame_count [] = 0"
| "frame_count ((p, SetKey keyId key start) # es) = frame_count es"
| "frame_count ((p, ClearKey) # es) = frame_count es"
| "frame_count ((p, EncodeFrame f) # es) = Suc (frame_count es)"

definition starts_apart :: "nat \<Rightarrow> 32 word \<times> 64 word \<Rightarrow> 32 word \<times> 64 word \<Rightarrow> bool" where
  "starts_apart n d e \<longleftrightarrow> fst d = fst e \<longrightarrow> n \<le> unat (snd d - snd e) \<and> n \<le> unat (snd e - snd d)"

text \<open>\<open>useSfu\<close> gives the receiver the id of the cipher's own key, or zero without one.\<close>

definition own_key_id :: "frame_cipher \<Rightarrow> 32 word" where
  "own_key_id c = (case currentKeyId c of None \<Rightarrow> 0 | Some i \<Rightarrow> i)"

definition decode_stream :: "web_crypto \<Rightarrow> bytes list \<Rightarrow> frame_cipher \<Rightarrow> bytes list" where
  "decode_stream W ws c = List.map_filter (\<lambda>w. decode_transform W (own_key_id c) w c) ws"

text \<open>
  \<open>applySenderTransform\<close> and \<open>applyReceiverTransform\<close>: whether the browser has the \<open>transform\<close>
  property and its setter takes the stream.
\<close>

datatype transform_slot = NoProperty | SetterThrows | Settable

definition applySenderTransform :: "transform_slot \<Rightarrow> bool" where
  "applySenderTransform slot = (case slot of NoProperty \<Rightarrow> False | SetterThrows \<Rightarrow> False | Settable \<Rightarrow> True)"

text \<open>What reaches the \<open>SFU\<close> from a sender: the transformed frames, or the plain ones where the transform could not be set.\<close>

definition sender_output :: "web_crypto \<Rightarrow> transform_slot \<Rightarrow> bytes list \<Rightarrow> frame_cipher \<Rightarrow> bytes list" where
  "sender_output W slot fs c = (if applySenderTransform slot then encode_stream W fs c else fs)"

definition applyReceiverTransform :: "transform_slot \<Rightarrow> bool" where
  "applyReceiverTransform slot = (case slot of NoProperty \<Rightarrow> False | SetterThrows \<Rightarrow> False | Settable \<Rightarrow> True)"

definition receiver_output :: "web_crypto \<Rightarrow> transform_slot \<Rightarrow> bytes list \<Rightarrow> frame_cipher \<Rightarrow> bytes list" where
  "receiver_output W slot ws c = (if applyReceiverTransform slot then decode_stream W ws c else ws)"

section \<open>The key of the room\<close>

record media_key_state =
  mk_keyId :: "32 word"
  rawKey :: bytes

record media_key_envelope =
  env_keyId :: "32 word"
  env_iv :: string
  env_ct :: string

definition importMediaKey :: "web_crypto \<Rightarrow> bytes \<Rightarrow> ckey result" where
  "importMediaKey W raw = import_aes W raw"

text \<open>The random number zero becomes one.\<close>

definition random_key_id :: "32 word \<Rightarrow> 32 word" where
  "random_key_id r = (if r = 0 then 1 else r)"

definition generateMediaKeyState :: "bytes \<Rightarrow> 32 word \<Rightarrow> media_key_state" where
  "generateMediaKeyState raw r = \<lparr>mk_keyId = random_key_id r, rawKey = raw\<rparr>"

definition wrapMediaKey :: "web_crypto \<Rightarrow> bytes \<Rightarrow> media_key_state \<Rightarrow> ckey \<Rightarrow> media_key_envelope" where
  "wrapMediaKey W iv st pairKey =
    (let sealed = encryptText W iv pairKey (json_text (DObj [(''rawKeyB64'', DStr (bytesToB64 (rawKey st)))]))
     in \<lparr>env_keyId = mk_keyId st, env_iv = blob_iv sealed, env_ct = blob_ct sealed\<rparr>)"

definition unwrapMediaKey :: "web_crypto \<Rightarrow> media_key_envelope \<Rightarrow> ckey \<Rightarrow> media_key_state result" where
  "unwrapMediaKey W env pairKey =
    rbind (decryptText W pairKey (env_iv env) (env_ct env)) (\<lambda>json.
    case json_parse json of
      None \<Rightarrow> throw ''SyntaxError''
    | Some DNull \<Rightarrow> throw ''TypeError''
    | Some (DObj fs) \<Rightarrow>
        (case jm_get fs ''rawKeyB64'' of
           Some (DStr b64) \<Rightarrow> rbind (b64ToBytes b64) (\<lambda>raw. ok \<lparr>mk_keyId = env_keyId env, rawKey = raw\<rparr>)
         | _ \<Rightarrow> throw ''media key envelope: missing rawKeyB64'')
    | Some _ \<Rightarrow> throw ''media key envelope: missing rawKeyB64'')"

section \<open>The hook\<close>

record media_state =
  ms_state :: "media_key_state option"
  ms_cipher :: frame_cipher
  ms_keyId :: "32 word option"

definition new_media :: media_state where
  "new_media = \<lparr>ms_state = None, ms_cipher = new_cipher, ms_keyId = None\<rparr>"

definition applyState :: "web_crypto \<Rightarrow> 64 word \<Rightarrow> media_key_state \<Rightarrow> media_state \<Rightarrow> media_state result" where
  "applyState W start st m =
    (if map_option mk_keyId (ms_state m) = Some (mk_keyId st) then ok m
     else rbind (importMediaKey W (rawKey st)) (\<lambda>key.
       ok \<lparr>ms_state = Some st, ms_cipher = setKey (mk_keyId st) key start (ms_cipher m), ms_keyId = Some (mk_keyId st)\<rparr>))"

definition wrapForPeer :: "web_crypto \<Rightarrow> bytes \<Rightarrow> ckey \<Rightarrow> media_state \<Rightarrow> media_key_envelope option" where
  "wrapForPeer W iv pairKey m = map_option (\<lambda>st. wrapMediaKey W iv st pairKey) (ms_state m)"

definition adoptFromEnvelope ::
  "web_crypto \<Rightarrow> 64 word \<Rightarrow> media_key_envelope \<Rightarrow> ckey \<Rightarrow> media_state \<Rightarrow> media_state result" where
  "adoptFromEnvelope W start env pairKey m =
    (if map_option mk_keyId (ms_state m) = Some (env_keyId env) then ok m
     else rbind (unwrapMediaKey W env pairKey) (\<lambda>st. applyState W start st m))"

definition generateLocal :: "web_crypto \<Rightarrow> bytes \<Rightarrow> 32 word \<Rightarrow> 64 word \<Rightarrow> media_state \<Rightarrow> media_state result" where
  "generateLocal W raw r start m =
    (if ms_state m \<noteq> None then ok m
     else applyState W start \<lparr>mk_keyId = random_key_id r, rawKey = raw\<rparr> m)"

definition media_reset :: "media_state \<Rightarrow> media_state" where
  "media_reset m = \<lparr>ms_state = None, ms_cipher = clearKey (ms_cipher m), ms_keyId = None\<rparr>"

text \<open>
  The frames of the key exchange in \<open>Index.tsx\<close>: a request is answered when both the pair key
  and the room key are known; an envelope is adopted under the pair key, and an error leaves the state as it was.
\<close>

definition on_media_key_request :: "web_crypto \<Rightarrow> bytes \<Rightarrow> string \<Rightarrow> chat_state \<Rightarrow> media_state \<Rightarrow> media_key_envelope option" where
  "on_media_key_request W iv remoteId chat m =
    (case jm_get (peer_keys chat) remoteId of
       None \<Rightarrow> None
     | Some (pub, sharedKey) \<Rightarrow> wrapForPeer W iv sharedKey m)"

definition on_media_key_enc ::
  "web_crypto \<Rightarrow> 64 word \<Rightarrow> string \<Rightarrow> media_key_envelope \<Rightarrow> chat_state \<Rightarrow> media_state \<Rightarrow> media_state" where
  "on_media_key_enc W start remoteId env chat m =
    (case jm_get (peer_keys chat) remoteId of
       None \<Rightarrow> m
     | Some (pub, sharedKey) \<Rightarrow>
         (case adoptFromEnvelope W start env sharedKey m of Inl e \<Rightarrow> m | Inr m' \<Rightarrow> m'))"

text \<open>The timer of three seconds after joining a room.\<close>

definition on_grace_timer :: "web_crypto \<Rightarrow> bytes \<Rightarrow> 32 word \<Rightarrow> 64 word \<Rightarrow> media_state \<Rightarrow> media_state" where
  "on_grace_timer W raw r start m =
    (if ms_keyId m \<noteq> None then m
     else case generateLocal W raw r start m of Inl e \<Rightarrow> m | Inr m' \<Rightarrow> m')"

section \<open>Vectors\<close>

definition word_bytes :: "nat list \<Rightarrow> 'a::len word \<Rightarrow> bytes" where
  "word_bytes ss w = map (\<lambda>s. ucast (drop_bit s w)) ss"

lemma word_bytes_bit:
  assumes "word_bytes ss a = word_bytes ss b" "s \<in> set ss" "i < 8"
  shows "bit a (s + i) = bit b (s + i)"
proof -
  have "(ucast (drop_bit s a) :: byte) = ucast (drop_bit s b)" using assms(1,2) by (simp add: word_bytes_def)
  then have "bit (ucast (drop_bit s a) :: byte) i = bit (ucast (drop_bit s b) :: byte) i" by simp
  with assms(3) show ?thesis by (simp add: bit_simps)
qed

lemma be64_inj: "be64 a = be64 b \<Longrightarrow> a = b"
proof (rule bit_word_eqI)
  fix n assume eq: "be64 a = be64 b" and n: "n < LENGTH(64)"
  let ?ss = "[56, 48, 40, 32, 24, 16, 8, 0] :: nat list"
  have d: "n div 8 < 8" using n by simp
  have "n div 8 \<in> {0, 1, 2, 3, 4, 5, 6, 7}" using d by auto
  then have "8 * (n div 8) \<in> set ?ss" by auto
  moreover have "word_bytes ?ss a = word_bytes ?ss b" using eq by (simp only: word_bytes_def be64_def)
  ultimately have "bit a (8 * (n div 8) + n mod 8) = bit b (8 * (n div 8) + n mod 8)" by (intro word_bytes_bit) auto
  then show "bit a n = bit b n" by simp
qed

lemma length_iv [simp]: "length (buildIv keyId n) = 12"
  by (simp add: buildIv_def be32_def be64_def)

lemma be32_read: "frame_key_id (be32 w @ r) = w"
proof (rule bit_word_eqI)
  fix n assume n: "n < LENGTH(32)"
  then consider "n < 8" | "8 \<le> n" "n < 16" | "16 \<le> n" "n < 24" | "24 \<le> n" "n < 32" by fastforce
  then show "bit (frame_key_id (be32 w @ r)) n = bit w n"
    by cases (auto simp: frame_key_id_def be32_def bit_simps)
qed

lemma frame_key_id_iv: "frame_key_id (buildIv keyId n) = keyId"
  unfolding buildIv_def by (rule be32_read)

lemma buildIv_inj: "buildIv i m = buildIv j n \<Longrightarrow> i = j \<and> (word_of_nat m :: 64 word) = word_of_nat n"
proof
  assume eq: "buildIv i m = buildIv j n"
  then show "i = j" by (metis frame_key_id_iv)
  from eq have "drop 4 (buildIv i m) = drop 4 (buildIv j n)" by simp
  then have "be64 (word_of_nat m) = be64 (word_of_nat n)" by (simp add: buildIv_def be32_def)
  then show "(word_of_nat m :: 64 word) = word_of_nat n" by (rule be64_inj)
qed

section \<open>Streams under one key\<close>

lemma encode_stream_key:
  "fc_key c = Some (keyId, key) \<Longrightarrow> encode_stream W fs c =
    map (\<lambda>i. buildIv keyId (sendCounter c + i) @ aes_encrypt W key (buildIv keyId (sendCounter c + i)) (fs ! i)) [0..<length fs]"
proof (induction fs arbitrary: c)
  case (Cons f fs)
  let ?c = "c\<lparr>sendCounter := sendCounter c + 1\<rparr>"
  have "encode_transform W f c = (Some (buildIv keyId (sendCounter c) @ aes_encrypt W key (buildIv keyId (sendCounter c)) f), ?c)"
    using Cons.prems by (simp add: encode_transform_def hasKey_def encrypt_frame_def Let_def)
  with Cons.IH [of ?c] Cons.prems show ?case
    by (simp add: upt_conv_Cons map_Suc_upt [symmetric] comp_def del: upt_Suc)
qed simp

lemma encode_stream_unkeyed: "fc_key c = None \<Longrightarrow> encode_stream W fs c = []"
  by (induction fs) (simp_all add: encode_transform_def hasKey_def)

lemma counter_inj:
  assumes "(word_of_nat (a + i) :: 64 word) = word_of_nat (a + j)" "i < 2 ^ 64" "j < 2 ^ 64"
  shows "i = j"
proof -
  have "(word_of_nat i :: 64 word) = word_of_nat j" using assms(1) by simp
  then have "unat (word_of_nat i :: 64 word) = unat (word_of_nat j :: 64 word)" by simp
  with assms(2,3) show ?thesis by (simp add: unat_of_nat)
qed

section \<open>Vectors over a history\<close>

text \<open>
  Each emitted frame is tagged with the draw its counter started from and its distance from there; \<open>g\<close> holds the same of the
  next frame of each member.
\<close>

definition vec_of :: "(32 word \<times> 64 word) list \<Rightarrow> nat \<times> nat \<Rightarrow> bytes" where
  "vec_of ds t = buildIv (fst (ds ! fst t)) (unat (snd (ds ! fst t)) + snd t)"

definition vectors_from :: "(32 word \<times> 64 word) list \<Rightarrow> nat \<Rightarrow> (string \<Rightarrow> frame_cipher) \<Rightarrow> (32 word \<times> ckey \<times> bytes) list
    \<Rightarrow> (string \<Rightarrow> nat \<times> nat) \<Rightarrow> (nat \<times> nat) list \<Rightarrow> bool" where
  "vectors_from ds n cs out g ts \<longleftrightarrow>
    map (\<lambda>(keyId, key, w). take IV_BYTES w) out = map (vec_of ds) ts \<and> distinct ts
    \<and> (\<forall>t \<in> set ts. fst t < length ds \<and> snd t < n)
    \<and> (\<forall>p i k. fc_key (cs p) = Some (i, k) \<longrightarrow> fst (g p) < length ds \<and> fst (ds ! fst (g p)) = i
         \<and> sendCounter (cs p) = unat (snd (ds ! fst (g p))) + snd (g p) \<and> snd (g p) \<le> n
         \<and> (\<forall>t \<in> set ts. fst t = fst (g p) \<longrightarrow> snd t < snd (g p))
         \<and> (\<forall>q. q \<noteq> p \<longrightarrow> fc_key (cs q) \<noteq> None \<longrightarrow> fst (g q) \<noteq> fst (g p)))"

lemma vec_of_append: "fst t < length ds \<Longrightarrow> vec_of (ds @ es) t = vec_of ds t"
  by (simp add: vec_of_def nth_append)

lemma vectors_set:
  assumes "vectors_from ds n cs out g ts"
  shows "vectors_from (ds @ [(i, s)]) n (cs(p := setKey i k s c)) out (g(p := (length ds, 0))) ts"
proof -
  have same: "map (vec_of (ds @ [(i, s)])) ts = map (vec_of ds) ts"
    using assms by (auto simp: vectors_from_def vec_of_append)
  have neq: "fst (g q) \<noteq> length ds" "length ds \<noteq> fst (g q)" if "fc_key (cs q) = Some (j, k')" for q j k'
  proof -
    have "fst (g q) < length ds" using assms that by (auto simp: vectors_from_def)
    then show "fst (g q) \<noteq> length ds" "length ds \<noteq> fst (g q)" by auto
  qed
  show ?thesis using assms same unfolding vectors_from_def setKey_def
    by (auto simp: nth_append less_Suc_eq split: if_splits) (use neq in blast)+
qed

lemma vectors_clear:
  "vectors_from ds n cs out g ts \<Longrightarrow> vectors_from ds n (cs(p := clearKey c)) out g ts"
  unfolding vectors_from_def clearKey_def by auto

lemma encode_transform_key:
  "fc_key c = Some (i, k) \<Longrightarrow> encode_transform W f c =
    (Some (buildIv i (sendCounter c) @ aes_encrypt W k (buildIv i (sendCounter c)) f), c\<lparr>sendCounter := sendCounter c + 1\<rparr>)"
  by (simp add: encode_transform_def hasKey_def encrypt_frame_def Let_def)

lemma encode_transform_none: "fc_key c = None \<Longrightarrow> encode_transform W f c = (None, c)"
  by (simp add: encode_transform_def hasKey_def)

lemma take_iv: "take IV_BYTES (buildIv i n @ r) = buildIv i n"
  by (simp add: IV_BYTES_def)

lemma frame_key_id_wire: "frame_key_id (buildIv i n @ r) = i"
  by (simp add: buildIv_def be32_read)

lemma vectors_frame:
  assumes v: "vectors_from ds n cs out g ts"
  shows "\<exists>g' ts'. vectors_from ds (Suc n) (cs(p := snd (cipher_step W (EncodeFrame f) (cs p))))
    (out @ fst (cipher_step W (EncodeFrame f) (cs p))) g' ts'"
proof (cases "fc_key (cs p)")
  case None
  then have "cipher_step W (EncodeFrame f) (cs p) = ([], cs p)" by (simp add: encode_transform_none)
  moreover have "vectors_from ds (Suc n) cs out g ts" using v by (auto simp: vectors_from_def less_Suc_eq le_Suc_eq)
  ultimately show ?thesis by auto
next
  case (Some ik)
  obtain i k where ik: "fc_key (cs p) = Some (i, k)" using Some by (cases ik) auto
  let ?w = "buildIv i (sendCounter (cs p)) @ aes_encrypt W k (buildIv i (sendCounter (cs p))) f"
  have step: "cipher_step W (EncodeFrame f) (cs p) = ([(i, k, ?w)], (cs p)\<lparr>sendCounter := sendCounter (cs p) + 1\<rparr>)"
    using ik by (simp add: encode_transform_key)
  have g: "fst (g p) < length ds" "fst (ds ! fst (g p)) = i" "sendCounter (cs p) = unat (snd (ds ! fst (g p))) + snd (g p)"
    "snd (g p) \<le> n" "\<forall>t \<in> set ts. fst t = fst (g p) \<longrightarrow> snd t < snd (g p)"
    using v ik by (auto simp: vectors_from_def)
  have "take IV_BYTES ?w = vec_of ds (g p)" unfolding take_iv using g by (simp add: vec_of_def)
  moreover have "g p \<notin> set ts" using g(5) by auto
  ultimately have "vectors_from ds (Suc n) (cs(p := (cs p)\<lparr>sendCounter := sendCounter (cs p) + 1\<rparr>)) (out @ [(i, k, ?w)])
      (g(p := (fst (g p), Suc (snd (g p))))) (ts @ [g p])"
    using v ik g unfolding vectors_from_def
    by (auto simp: less_Suc_eq le_Suc_eq simp del: take_append) (use g(4) in linarith)+
  then show ?thesis unfolding step by auto
qed

lemma cipher_run_vectors:
  "vectors_from ds n cs out g ts \<Longrightarrow> \<exists>g' ts'. vectors_from (ds @ key_draws es) (n + frame_count es)
    (snd (cipher_run W es cs)) (out @ fst (cipher_run W es cs)) g' ts'"
proof (induction es arbitrary: ds n cs out g ts)
  case (Cons pe es)
  obtain p e where pe: "pe = (p, e)" by (cases pe)
  show ?case
  proof (cases e)
    case (SetKey i k s)
    from Cons.IH [OF vectors_set [OF Cons.prems, of i s p k "cs p"]] show ?thesis
      unfolding pe SetKey by (simp add: case_prod_beta del: fun_upd_apply)
  next
    case ClearKey
    from Cons.IH [OF vectors_clear [OF Cons.prems, of p "cs p"]] show ?thesis
      unfolding pe ClearKey by (simp add: case_prod_beta del: fun_upd_apply)
  next
    case (EncodeFrame f)
    from vectors_frame [OF Cons.prems] obtain g' ts' where
      "vectors_from ds (Suc n) (cs(p := snd (cipher_step W e (cs p)))) (out @ fst (cipher_step W e (cs p))) g' ts'"
      unfolding EncodeFrame by blast
    from Cons.IH [OF this] show ?thesis unfolding pe EncodeFrame
      by (simp add: case_prod_beta del: cipher_step.simps fun_upd_apply)
  qed
qed auto

lemma cipher_run_sealed:
  "list_all (\<lambda>(keyId, key, w). frame_key_id w = keyId \<and> (\<exists>f. w = take IV_BYTES w @ aes_encrypt W key (take IV_BYTES w) f))
    (fst (cipher_run W es cs))"
proof (induction es arbitrary: cs)
  case (Cons pe es)
  obtain p e where pe: "pe = (p, e)" by (cases pe)
  have "list_all (\<lambda>(keyId, key, w). frame_key_id w = keyId \<and> (\<exists>f. w = take IV_BYTES w @ aes_encrypt W key (take IV_BYTES w) f))
      (fst (cipher_step W e (cs p)))"
  proof (cases e)
    case (EncodeFrame f)
    then show ?thesis
      by (cases "fc_key (cs p)") (auto simp: encode_transform_key encode_transform_none take_iv frame_key_id_wire simp del: take_append)
  qed simp_all
  with Cons.IH show ?case unfolding pe by (simp add: case_prod_unfold Let_def del: cipher_step.simps)
qed simp

lemma apart_not_met:
  assumes "starts_apart n (i, s) (i, r)" "a < n" "b < n" "n \<le> 2 ^ 64"
  shows "(word_of_nat (unat s + a) :: 64 word) \<noteq> word_of_nat (unat r + b)"
proof
  assume eq: "(word_of_nat (unat s + a) :: 64 word) = word_of_nat (unat r + b)"
  then have e: "s + word_of_nat a = r + word_of_nat b" by simp
  show False
  proof (cases "a \<le> b")
    case True
    then have "s - r = word_of_nat (b - a)" using e by (simp add: of_nat_diff algebra_simps)
    then have "unat (s - r) = b - a" using assms(3,4) by (simp add: unat_of_nat)
    moreover have "n \<le> unat (s - r)" using assms(1) by (simp add: starts_apart_def)
    ultimately show False using assms(3) by linarith
  next
    case False
    then have "r - s = word_of_nat (a - b)" using e by (simp add: of_nat_diff algebra_simps)
    then have "unat (r - s) = a - b" using assms(2,4) by (simp add: unat_of_nat)
    moreover have "n \<le> unat (r - s)" using assms(1) by (simp add: starts_apart_def)
    ultimately show False using assms(2) by linarith
  qed
qed

lemma vectors_distinct:
  assumes v: "vectors_from ds n cs out g ts" and apart: "sorted_wrt (starts_apart n) ds" and n: "n \<le> 2 ^ 64"
  shows "distinct (map (\<lambda>(keyId, key, w). take IV_BYTES w) out)"
proof -
  have sym: "starts_apart n (ds ! a) (ds ! b)" if "a < length ds" "b < length ds" "a \<noteq> b" for a b
    using apart that by (cases "a < b") (auto simp: sorted_wrt_iff_nth_less starts_apart_def)
  have "inj_on (vec_of ds) (set ts)"
  proof (rule inj_onI)
    fix x y assume xy: "x \<in> set ts" "y \<in> set ts" "vec_of ds x = vec_of ds y"
    then have b: "fst x < length ds" "snd x < n" "fst y < length ds" "snd y < n" using v by (auto simp: vectors_from_def)
    from buildIv_inj [OF xy(3) [unfolded vec_of_def]] have
      eq: "fst (ds ! fst x) = fst (ds ! fst y)"
        "(word_of_nat (unat (snd (ds ! fst x)) + snd x) :: 64 word) = word_of_nat (unat (snd (ds ! fst y)) + snd y)" by blast+
    have same: "fst x = fst y"
    proof (rule ccontr)
      assume "fst x \<noteq> fst y"
      from sym [OF b(1,3) this] eq(1)
      have "starts_apart n (fst (ds ! fst x), snd (ds ! fst x)) (fst (ds ! fst x), snd (ds ! fst y))" by (simp add: starts_apart_def)
      from apart_not_met [OF this b(2,4) n] eq(2) show False by blast
    qed
    then have "snd x = snd y" using counter_inj [OF eq(2) [unfolded same]] b n by simp
    with same show "x = y" by (simp add: prod_eq_iff)
  qed
  moreover have "distinct ts" "map (\<lambda>(keyId, key, w). take IV_BYTES w) out = map (vec_of ds) ts"
    using v by (auto simp: vectors_from_def)
  ultimately show ?thesis by (simp add: distinct_map)
qed

context web_crypto begin

lemma decode_encoded:
  assumes "fc_key c = Some (keyId, key)"
  shows "decode_transform W keyId (buildIv keyId n @ aes_encrypt W key (buildIv keyId n) f) c = Some f"
  using assms length_encrypt [of key "buildIv keyId n" f]
  by (simp add: decode_transform_def hasKey_def decrypt_frame_def IV_BYTES_def TAG_BYTES_def frame_key_id_iv decrypt_encrypt Let_def)

lemma decode_authentic:
  assumes "decode_transform W i w c = Some p"
  shows "\<exists>keyId key iv. fc_key c = Some (keyId, key) \<and> length iv = 12 \<and> frame_key_id iv = i \<and> w = iv @ aes_encrypt W key iv p"
proof -
  obtain keyId key where k: "fc_key c = Some (keyId, key)" using assms by (cases "fc_key c") (auto simp: decode_transform_def hasKey_def)
  with assms have len: "28 \<le> length w" and id: "frame_key_id (take 12 w) = i"
    and d: "aes_decrypt W key (take 12 w) (drop 12 w) = ok p"
    by (auto simp: decode_transform_def hasKey_def decrypt_frame_def IV_BYTES_def TAG_BYTES_def Let_def split: if_splits sum.splits)
  from encrypt_decrypt [OF d] have "w = take 12 w @ aes_encrypt W key (take 12 w) p" by (metis append_take_drop_id)
  with k len id show ?thesis by (intro exI [of _ keyId] exI [of _ key] exI [of _ "take 12 w"]) simp
qed

lemma decode_stream_encoded:
  assumes "fc_key c = Some (keyId, key)" "fc_key d = Some (keyId, key)"
  shows "decode_stream W (encode_stream W fs c) d = fs"
proof -
  have "own_key_id d = keyId" using assms(2) by (simp add: own_key_id_def currentKeyId_def)
  moreover have "List.map_filter (\<lambda>w. decode_transform W keyId w d)
      (map (\<lambda>i. buildIv keyId (sendCounter c + i) @ aes_encrypt W key (buildIv keyId (sendCounter c + i)) (fs ! i)) is)
    = map (\<lambda>i. fs ! i) is" for "is"
    by (induction "is") (simp_all add: map_filter_def decode_encoded [OF assms(2)])
  ultimately show ?thesis unfolding decode_stream_def encode_stream_key [OF assms(1)] by (simp add: map_nth)
qed

lemma decode_stream_other_key:
  assumes "fc_key c = Some (i, key)" "fc_key d = Some (j, key')" "i \<noteq> j"
  shows "decode_stream W (encode_stream W fs c) d = []"
proof -
  have "own_key_id d = j" using assms(2) by (simp add: own_key_id_def currentKeyId_def)
  moreover have "decode_transform W j (buildIv i n @ x) d = None" for n x
    using assms by (simp add: decode_transform_def hasKey_def decrypt_frame_def IV_BYTES_def TAG_BYTES_def frame_key_id_iv Let_def)
  then have "List.map_filter (\<lambda>w. decode_transform W j w d) (map (\<lambda>k. buildIv i (g k) @ h k) is) = []" for g h "is"
    by (induction "is") (simp_all add: map_filter_def)
  ultimately show ?thesis unfolding decode_stream_def encode_stream_key [OF assms(1)] by simp
qed

end

section \<open>The state of the hook\<close>

definition media_ok :: "web_crypto \<Rightarrow> media_state \<Rightarrow> bool" where
  "media_ok W m \<longleftrightarrow> (case ms_state m of
      None \<Rightarrow> fc_key (ms_cipher m) = None \<and> ms_keyId m = None
    | Some st \<Rightarrow> ms_keyId m = Some (mk_keyId st) \<and>
        (\<exists>key. importMediaKey W (rawKey st) = ok key \<and> fc_key (ms_cipher m) = Some (mk_keyId st, key)))"

lemma media_ok_new [inv_intros]: "media_ok W new_media"
  by (simp add: media_ok_def new_media_def new_cipher_def)

lemma media_ok_apply [inv_intros]: "media_ok W m \<Longrightarrow> applyState W start st m = ok m' \<Longrightarrow> media_ok W m'"
  by (auto simp: applyState_def media_ok_def setKey_def rbind_eq_Inr split: if_splits)

lemma media_ok_adopt [inv_intros]: "media_ok W m \<Longrightarrow> adoptFromEnvelope W start env k m = ok m' \<Longrightarrow> media_ok W m'"
  by (auto simp: adoptFromEnvelope_def rbind_eq_Inr intro: media_ok_apply split: if_splits)

lemma media_ok_enc [inv_intros]: "media_ok W m \<Longrightarrow> media_ok W (on_media_key_enc W start p env chat m)"
  by (auto simp: on_media_key_enc_def split: option.splits sum.splits intro: media_ok_adopt)

lemma media_ok_timer [inv_intros]: "media_ok W m \<Longrightarrow> media_ok W (on_grace_timer W raw r start m)"
  by (auto simp: on_grace_timer_def generateLocal_def split: sum.splits if_splits intro: media_ok_apply)

lemma media_ok_reset [inv_intros]: "media_ok W (media_reset m)"
  by (simp add: media_ok_def media_reset_def clearKey_def)

lemma rawKey_doc: "doc_ok (DObj [(''rawKeyB64'', DStr s)])"
  by simp

context web_crypto begin

lemma unwrap_wrapped: "unwrapMediaKey W (wrapMediaKey W iv st k) k = ok st"
  by (simp add: unwrapMediaKey_def wrapMediaKey_def Let_def decrypt_text json_parse_text [OF rawKey_doc] del: json_text.simps)

lemma adopted:
  assumes "media_ok W m" "ms_state m = None" "length (rawKey st) = 32"
    and "jm_get (peer_keys chat) p = Some (pk, k)"
  shows "\<exists>key. importMediaKey W (rawKey st) = ok key \<and>
    on_media_key_enc W start p (wrapMediaKey W iv st k) chat m
      = \<lparr>ms_state = Some st, ms_cipher = setKey (mk_keyId st) key start (ms_cipher m), ms_keyId = Some (mk_keyId st)\<rparr>"
proof -
  obtain key where "importMediaKey W (rawKey st) = ok key"
    using import_raw [OF assms(3)] by (auto simp: importMediaKey_def)
  with assms(2,4) show ?thesis
    by (simp add: on_media_key_enc_def adoptFromEnvelope_def unwrap_wrapped applyState_def)
qed

lemma timer_keyed:
  assumes "ms_state m = None" "media_ok W m" "length raw = 32"
  shows "\<exists>key. fc_key (ms_cipher (on_grace_timer W raw r start m)) = Some (random_key_id r, key)
    \<and> ms_state (on_grace_timer W raw r start m) = Some \<lparr>mk_keyId = random_key_id r, rawKey = raw\<rparr>"
proof -
  obtain key where "import_aes W raw = ok key" using import_raw [OF assms(3)] by auto
  moreover have "ms_keyId m = None" using assms(1,2) by (simp add: media_ok_def)
  ultimately show ?thesis using assms(1)
    by (simp add: on_grace_timer_def generateLocal_def applyState_def importMediaKey_def setKey_def)
qed

end

lemma media_ok_cipher:
  "media_ok W m \<Longrightarrow> ms_state m = Some st \<Longrightarrow>
    \<exists>key. importMediaKey W (rawKey st) = ok key \<and> fc_key (ms_cipher m) = Some (mk_keyId st, key)"
  by (auto simp: media_ok_def)

section \<open>Properties\<close>

text \<open>
  C11. The key exchange and the media path together: when a member that holds the room's key answers the request of
  a member that has none, over the key their chat shares, the newcomer decodes every frame the
  holder encodes, and the holder every frame of the newcomer, unchanged and in order.
\<close>

theorem media_key_reaches_peer:
  assumes W: "web_crypto W" and ok: "media_ok W mA" "media_ok W mB"
    and held: "ms_state mA = Some st" "length (rawKey st) = 32" and new: "ms_state mB = None"
    and chat: "jm_get (peer_keys chatA) idB = Some (pkB, k)" "jm_get (peer_keys chatB) idA = Some (pkA, k)"
    and answer: "on_media_key_request W iv idB chatA mA = Some env"
    and adopt: "mB' = on_media_key_enc W start idA env chatB mB"
  shows "decode_stream W (encode_stream W fs (ms_cipher mA)) (ms_cipher mB') = fs
    \<and> decode_stream W (encode_stream W gs (ms_cipher mB')) (ms_cipher mA) = gs"
proof -
  obtain key where key: "importMediaKey W (rawKey st) = ok key" "fc_key (ms_cipher mA) = Some (mk_keyId st, key)"
    using media_ok_cipher [OF ok(1) held(1)] by blast
  have "env = wrapMediaKey W iv st k" using answer chat(1) held(1) by (simp add: on_media_key_request_def wrapForPeer_def)
  then have "fc_key (ms_cipher mB') = Some (mk_keyId st, key)"
    using web_crypto.adopted [OF W ok(2) new held(2) chat(2), of start iv] key(1) by (auto simp: adopt setKey_def)
  with key(2) show ?thesis by (simp add: web_crypto.decode_stream_encoded [OF W])
qed

definition demo_media :: media_state where
  "demo_media = \<lparr>ms_state = Some \<lparr>mk_keyId = 9, rawKey = demo_key 5\<rparr>,
    ms_cipher = setKey 9 (demo_key 5) (- 1) new_cipher, ms_keyId = Some 9\<rparr>"

lemma demo_media_ok: "media_ok plain_crypto demo_media"
  by (simp add: media_ok_def demo_media_def importMediaKey_def plain_crypto_def key32_def demo_key_def setKey_def)

definition demo_chat :: "string \<Rightarrow> chat_state" where
  "demo_chat p = new_chat\<lparr>peer_keys := [(p, ''pk'', demo_key 3)]\<rparr>"

lemma demo_chat_key: "jm_get (peer_keys (demo_chat p)) p = Some (''pk'', demo_key 3)"
  by (simp add: demo_chat_def)

lemma media_key_reaches_peer_witness:
  "decode_stream plain_crypto (encode_stream plain_crypto [[1, 2], [], [3]] (ms_cipher demo_media))
     (ms_cipher (on_media_key_enc plain_crypto 4 ''A''
        (the (on_media_key_request plain_crypto [7] ''B'' (demo_chat ''B'') demo_media)) (demo_chat ''A'') new_media))
   = [[1, 2], [], [3]]"
proof -
  have ans: "on_media_key_request plain_crypto [7] ''B'' (demo_chat ''B'') demo_media
      = Some (the (on_media_key_request plain_crypto [7] ''B'' (demo_chat ''B'') demo_media))"
    by (simp add: on_media_key_request_def demo_chat_key wrapForPeer_def demo_media_def)
  have st: "ms_state demo_media = Some \<lparr>mk_keyId = 9, rawKey = demo_key 5\<rparr>" by (simp add: demo_media_def)
  have "length (rawKey \<lparr>mk_keyId = 9, rawKey = demo_key 5\<rparr>) = 32" "ms_state new_media = None"
    by (simp_all add: demo_key_def new_media_def)
  from media_key_reaches_peer [OF plain.web_crypto_axioms demo_media_ok media_ok_new st this demo_chat_key demo_chat_key ans refl]
  show ?thesis by blast
qed

text \<open>
  C18. No vector is used twice under one key, over the whole life of a room: take any history of the ciphers
  of any number of members, in which each sets a key, clears it, sets the same or another key again and encodes frames, in any
  order. All the frames that leave the encoding transforms carry pairwise different initialisation vectors, also
  those of two members that share the room's key and those of a member that left and adopted the same key again;
  each is the vector's own encryption under the key set at that moment and starts with that key's id. What is assumed of the random numbers is that
  two of them drawn for the same key id are at least as far apart, on the circle of \<open>2 ^ 64\<close> counter values, as frames
  are encoded; and that those are at most \<open>2 ^ 64\<close>.
\<close>

theorem frame_ivs_never_repeat:
  assumes few: "frame_count es \<le> 2 ^ 64" and random: "sorted_wrt (starts_apart (frame_count es)) (key_draws es)"
    and out: "out = fst (cipher_run W es (\<lambda>p. new_cipher))"
  shows "distinct (map (\<lambda>(keyId, key, w). take IV_BYTES w) out)
    \<and> list_all (\<lambda>(keyId, key, w). frame_key_id w = keyId \<and> (\<exists>f. w = take IV_BYTES w @ aes_encrypt W key (take IV_BYTES w) f)) out"
proof
  have start: "vectors_from [] 0 (\<lambda>p. new_cipher) [] (\<lambda>p. (0, 0)) []" by (simp add: vectors_from_def new_cipher_def)
  have "\<exists>g ts. vectors_from (key_draws es) (frame_count es) (snd (cipher_run W es (\<lambda>p. new_cipher))) out g ts"
    using cipher_run_vectors [OF start, of es W] unfolding out by simp
  then obtain g ts where "vectors_from (key_draws es) (frame_count es) (snd (cipher_run W es (\<lambda>p. new_cipher))) out g ts"
    by blast
  then show "distinct (map (\<lambda>(keyId, key, w). take IV_BYTES w) out)" by (rule vectors_distinct [OF _ random few])
  show "list_all (\<lambda>(keyId, key, w). frame_key_id w = keyId \<and> (\<exists>f. w = take IV_BYTES w @ aes_encrypt W key (take IV_BYTES w) f)) out"
    unfolding out by (rule cipher_run_sealed)
qed

definition demo_history :: "(string \<times> cipher_event) list" where
  "demo_history = [(''A'', SetKey 9 (demo_key 5) 100), (''A'', EncodeFrame [1]), (''B'', SetKey 9 (demo_key 5) (- 1)),
    (''B'', EncodeFrame [1]), (''B'', EncodeFrame [1]), (''A'', ClearKey), (''A'', EncodeFrame [1]),
    (''A'', SetKey 9 (demo_key 5) 50), (''A'', EncodeFrame [1]), (''A'', SetKey 8 (demo_key 5) 50), (''A'', EncodeFrame [1])]"

lemma frame_ivs_never_repeat_witness:
  "length (fst (cipher_run plain_crypto demo_history (\<lambda>p. new_cipher))) = 5
    \<and> distinct (map (\<lambda>(keyId, key, w). take IV_BYTES w) (fst (cipher_run plain_crypto demo_history (\<lambda>p. new_cipher))))"
proof
  show "length (fst (cipher_run plain_crypto demo_history (\<lambda>p. new_cipher))) = 5"
    by (simp add: demo_history_def encode_transform_def hasKey_def encrypt_frame_def setKey_def clearKey_def new_cipher_def Let_def)
  have "frame_count demo_history \<le> 2 ^ 64" by (simp add: demo_history_def)
  moreover have "sorted_wrt (starts_apart (frame_count demo_history)) (key_draws demo_history)"
    by (simp add: demo_history_def starts_apart_def)
  ultimately show "distinct (map (\<lambda>(keyId, key, w). take IV_BYTES w) (fst (cipher_run plain_crypto demo_history (\<lambda>p. new_cipher))))"
    using frame_ivs_never_repeat [of demo_history _ plain_crypto] by blast
qed

text \<open>
  C19. The forwarding server handles only ciphertext, and a receiver shows only what a holder of the
  key encrypted: without a key the encoding transform emits nothing; with one it emits for each frame
  a vector and the ciphertext under the key, 28 bytes longer than the frame; and a frame is
  decoded to a plaintext only if it is exactly that plaintext's encryption under the receiver's own key
  and carries the expected key id, so a changed frame, a frame of another key and a short frame are dropped.
\<close>

theorem media_frames_sealed:
  assumes W: "web_crypto W" and emitted: "w \<in> set (encode_stream W fs c)" and decoded: "decode_transform W i v d = Some p"
  shows "(\<exists>f keyId key iv. f \<in> set fs \<and> fc_key c = Some (keyId, key) \<and> length iv = 12 \<and> w = iv @ aes_encrypt W key iv f
      \<and> length w = length f + 28)
    \<and> (\<exists>keyId key iv. fc_key d = Some (keyId, key) \<and> length iv = 12 \<and> frame_key_id iv = i \<and> v = iv @ aes_encrypt W key iv p)"
proof
  show "\<exists>keyId key iv. fc_key d = Some (keyId, key) \<and> length iv = 12 \<and> frame_key_id iv = i \<and> v = iv @ aes_encrypt W key iv p"
    using web_crypto.decode_authentic [OF W decoded] .
  have "fc_key c \<noteq> None"
  proof
    assume "fc_key c = None"
    with emitted show False by (simp add: encode_stream_unkeyed)
  qed
  then obtain keyId key where k: "fc_key c = Some (keyId, key)" by auto
  then obtain n where n: "n < length fs" "w = buildIv keyId (sendCounter c + n) @ aes_encrypt W key (buildIv keyId (sendCounter c + n)) (fs ! n)"
    using emitted by (auto simp: encode_stream_key)
  then have "length w = length (fs ! n) + 28" by (simp add: web_crypto.length_encrypt [OF W])
  with k n show "\<exists>f keyId key iv. f \<in> set fs \<and> fc_key c = Some (keyId, key) \<and> length iv = 12
      \<and> w = iv @ aes_encrypt W key iv f \<and> length w = length f + 28"
    by (intro exI [of _ "fs ! n"] exI [of _ keyId] exI [of _ key] exI [of _ "buildIv keyId (sendCounter c + n)"]) simp
qed

lemma media_frames_sealed_witness:
  "\<exists>f keyId key iv. f \<in> set [[1, 2]] \<and> fc_key (ms_cipher demo_media) = Some (keyId, key) \<and> length iv = 12
      \<and> encode_stream plain_crypto [[1, 2]] (ms_cipher demo_media) ! 0 = iv @ aes_encrypt plain_crypto key iv f
      \<and> length (encode_stream plain_crypto [[1, 2]] (ms_cipher demo_media) ! 0) = length f + 28"
proof -
  let ?c = "ms_cipher demo_media" and ?iv = "buildIv 9 (unat (- 1 :: 64 word))"
  have k: "fc_key ?c = Some (9, demo_key 5)" "sendCounter ?c = unat (- 1 :: 64 word)"
    by (simp_all add: demo_media_def setKey_def)
  have enc: "encode_stream plain_crypto [[1, 2]] ?c = [?iv @ aes_encrypt plain_crypto (demo_key 5) ?iv [1, 2]]"
    by (simp add: encode_stream_key [OF k(1)] k(2))
  have "encode_stream plain_crypto [[1, 2]] ?c ! 0 \<in> set (encode_stream plain_crypto [[1, 2]] ?c)" unfolding enc by simp
  moreover have "decode_transform plain_crypto 9 (?iv @ aes_encrypt plain_crypto (demo_key 5) ?iv [1, 2]) ?c = Some [1, 2]"
    by (rule plain.decode_encoded [OF k(1)])
  ultimately show ?thesis by (rule media_frames_sealed [OF plain.web_crypto_axioms, THEN conjunct1])
qed

text \<open>
  Two members whose three-second timers both ran out before they exchanged a key never see each
  other: each made a key of its own, and with different ids every frame of one is dropped by
  the other, in both directions, although both report encrypted media.
\<close>

theorem separate_keys_no_media:
  assumes W: "web_crypto W" and ok: "media_ok W mA" "media_ok W mB" and none: "ms_state mA = None" "ms_state mB = None"
    and raw: "length rawA = 32" "length rawB = 32" and ids: "random_key_id rA \<noteq> random_key_id rB"
    and A: "mA' = on_grace_timer W rawA rA sA mA" and B: "mB' = on_grace_timer W rawB rB sB mB"
  shows "decode_stream W (encode_stream W fs (ms_cipher mA')) (ms_cipher mB') = []
    \<and> decode_stream W (encode_stream W fs (ms_cipher mB')) (ms_cipher mA') = []
    \<and> ms_keyId mA' \<noteq> None \<and> ms_keyId mB' \<noteq> None"
proof -
  obtain k where kA: "fc_key (ms_cipher mA') = Some (random_key_id rA, k)" "ms_state mA' \<noteq> None"
    using web_crypto.timer_keyed [OF W none(1) ok(1) raw(1), of rA sA] unfolding A by blast
  obtain k' where kB: "fc_key (ms_cipher mB') = Some (random_key_id rB, k')" "ms_state mB' \<noteq> None"
    using web_crypto.timer_keyed [OF W none(2) ok(2) raw(2), of rB sB] unfolding B by blast
  have "media_ok W mA'" "media_ok W mB'" unfolding A B using ok by (auto intro: inv_intros)
  then have "ms_keyId mA' \<noteq> None" "ms_keyId mB' \<noteq> None" using kA(2) kB(2) by (auto simp: media_ok_def split: option.splits)
  with web_crypto.decode_stream_other_key [OF W kA(1) kB(1) ids] web_crypto.decode_stream_other_key [OF W kB(1) kA(1) ids [symmetric]]
  show ?thesis by blast
qed

lemma separate_keys_no_media_witness:
  "decode_stream plain_crypto (encode_stream plain_crypto [[1], [2]]
      (ms_cipher (on_grace_timer plain_crypto (demo_key 1) 0 3 new_media)))
      (ms_cipher (on_grace_timer plain_crypto (demo_key 2) 7 8 new_media)) = []"
proof -
  have pre: "ms_state new_media = None" "length (demo_key x) = 32" "random_key_id 0 \<noteq> random_key_id 7" for x
    by (simp_all add: new_media_def demo_key_def random_key_id_def)
  show ?thesis
    by (rule separate_keys_no_media [OF plain.web_crypto_axioms media_ok_new media_ok_new pre(1,1,2,2,3) refl refl,
        THEN conjunct1])
qed

end
