(* ===== verification/DriveManifest.thy ===== *)
theory DriveManifest imports WebCrypto begin

text \<open>
  The data of the drive: sealing and key wrapping (\<open>lib/drive/fileCrypto.ts\<close>), the signed manifest and its canonical
  text (\<open>lib/drive/manifest.ts\<close>) and the store of a peer (\<open>lib/drive/peerStore.ts\<close>).
\<close>

section \<open>Sealing and wrapping\<close>

record user_keypair =
  kp_public :: ckey
  kp_private :: ckey
  kp_publicB64 :: string

record user_identity =
  id_ecdh :: user_keypair
  id_sign :: user_keypair

definition generateUserKeypair :: "web_crypto \<Rightarrow> ckey \<times> ckey \<Rightarrow> user_keypair" where
  "generateUserKeypair W pair =
    \<lparr>kp_public = fst pair, kp_private = snd pair, kp_publicB64 = bytesToB64 (export_pub W Spki (fst pair))\<rparr>"

definition generateSignKeypair :: "web_crypto \<Rightarrow> ckey \<times> ckey \<Rightarrow> user_keypair" where
  "generateSignKeypair W pair =
    \<lparr>kp_public = fst pair, kp_private = snd pair, kp_publicB64 = bytesToB64 (export_pub W Spki (fst pair))\<rparr>"

definition generateUserIdentity :: "web_crypto \<Rightarrow> ckey \<times> ckey \<Rightarrow> ckey \<times> ckey \<Rightarrow> user_identity" where
  "generateUserIdentity W ecdh sign = \<lparr>id_ecdh = generateUserKeypair W ecdh, id_sign = generateSignKeypair W sign\<rparr>"

definition importPublicKey :: "web_crypto \<Rightarrow> string \<Rightarrow> ckey result" where
  "importPublicKey W spkiB64 = rbind (b64ToBytes spkiB64) (import_ecdh W Spki)"

definition importSignPublicKey :: "web_crypto \<Rightarrow> string \<Rightarrow> ckey result" where
  "importSignPublicKey W spkiB64 = rbind (b64ToBytes spkiB64) (import_ecdsa W)"

definition signBytes :: "web_crypto \<Rightarrow> bytes \<Rightarrow> ckey \<Rightarrow> bytes \<Rightarrow> bytes" where
  "signBytes W nonce privateKey d = ecdsa_sign W nonce privateKey d"

definition verifyBytes :: "web_crypto \<Rightarrow> ckey \<Rightarrow> bytes \<Rightarrow> bytes \<Rightarrow> bool" where
  "verifyBytes W publicKey d signature = ecdsa_verify W publicKey signature d"

record sealed_file =
  sf_iv :: bytes
  sf_ciphertext :: bytes

definition sealFile :: "web_crypto \<Rightarrow> bytes \<Rightarrow> ckey \<Rightarrow> bytes \<Rightarrow> sealed_file" where
  "sealFile W iv key plaintext = \<lparr>sf_iv = iv, sf_ciphertext = aes_encrypt W key iv plaintext\<rparr>"

definition openFile :: "web_crypto \<Rightarrow> ckey \<Rightarrow> bytes \<Rightarrow> bytes \<Rightarrow> bytes result" where
  "openFile W key iv ciphertext = aes_decrypt W key iv ciphertext"

record wrapped_key =
  ephemeralPubKeyB64 :: string
  wk_iv :: string
  wk_ct :: string

definition deriveKek :: "web_crypto \<Rightarrow> ckey \<Rightarrow> ckey \<Rightarrow> string \<Rightarrow> ckey" where
  "deriveKek W privateKey peerPublicKey info = hkdf_key W (ecdh_bits W privateKey peerPublicKey) (utf8_encode info)"

definition WRAP_INFO :: string where
  "WRAP_INFO = ''socket-webrtc/drive/file-key-wrap''"

text \<open>\<open>eph\<close> is the generated pair of a public and a private key, \<open>iv\<close> the random vector.\<close>

definition wrapFileKey :: "web_crypto \<Rightarrow> ckey \<times> ckey \<Rightarrow> bytes \<Rightarrow> ckey \<Rightarrow> ckey \<Rightarrow> wrapped_key" where
  "wrapFileKey W eph iv fileKey ownerPublicKey =
    (let ephSpki = export_pub W Spki (fst eph);
         kek = deriveKek W (snd eph) ownerPublicKey WRAP_INFO;
         raw = export_aes W fileKey;
         ct = aes_encrypt W kek iv raw
     in \<lparr>ephemeralPubKeyB64 = bytesToB64 ephSpki, wk_iv = bytesToB64 iv, wk_ct = bytesToB64 ct\<rparr>)"

definition unwrapFileKey :: "web_crypto \<Rightarrow> wrapped_key \<Rightarrow> user_keypair \<Rightarrow> ckey result" where
  "unwrapFileKey W wrapped owner =
    rbind (importPublicKey W (ephemeralPubKeyB64 wrapped)) (\<lambda>ephPub.
    let kek = deriveKek W (kp_private owner) ephPub WRAP_INFO in
    rbind (b64ToBytes (wk_iv wrapped)) (\<lambda>iv.
    rbind (b64ToBytes (wk_ct wrapped)) (\<lambda>ct.
    rbind (aes_decrypt W kek iv ct) (\<lambda>raw. import_aes W raw))))"

definition sha256Hex :: "bytes \<Rightarrow> string" where
  "sha256Hex b = concat (map hex2 b)"

context web_crypto begin

lemma unwrap_wrap:
  assumes "ecdh_generated W (fst eph) (snd eph)" "ecdh_generated W (kp_public owner) (kp_private owner)" "aes_generated W key"
  shows "unwrapFileKey W (wrapFileKey W eph iv key (kp_public owner)) owner = ok key"
  using assms ecdh_agree [OF assms(1,2)]
  by (simp add: unwrapFileKey_def wrapFileKey_def importPublicKey_def import_pub deriveKek_def decrypt_encrypt import_export Let_def)

end

section \<open>The manifest\<close>

record shard_descriptor =
  sd_index :: nat
  sd_size :: nat
  sd_hashB64 :: string

record manifest_body =
  version :: nat
  fileId :: string
  mf_name :: string
  mf_size :: nat
  sealedSize :: nat
  paddedShardSize :: nat
  contentType :: "string option"
  mf_k :: nat
  mf_m :: nat
  mf_iv :: string
  fileKeyWrapped :: wrapped_key
  mf_shards :: "shard_descriptor list"
  uploaderSignPubKeyB64 :: "string option"
  createdAt :: nat

text \<open>\<open>SignedManifest extends ManifestBody\<close>.\<close>

record signed_manifest = manifest_body +
  signatureB64 :: string

definition replace_char :: "char \<Rightarrow> char \<Rightarrow> string \<Rightarrow> string" where
  "replace_char a b s = map (\<lambda>c. if c = a then b else c) s"

definition newFileId :: "bytes \<Rightarrow> string" where
  "newFileId random =
    rev (dropWhile (\<lambda>c. c = CHR ''='') (rev (replace_char (CHR ''/'') (CHR ''_'') (replace_char (CHR ''+'') (CHR ''-'') (bytesToB64 random)))))"

text \<open>The object literals, in the order the code writes their keys; an absent content type is left out by \<open>JSON.stringify\<close>.\<close>

definition wrapped_doc :: "wrapped_key \<Rightarrow> doc" where
  "wrapped_doc w = DObj [(''ephemeralPubKeyB64'', DStr (ephemeralPubKeyB64 w)), (''iv'', DStr (wk_iv w)), (''ct'', DStr (wk_ct w))]"

definition shard_doc :: "shard_descriptor \<Rightarrow> doc" where
  "shard_doc s = DObj [(''index'', DNum (sd_index s)), (''size'', DNum (sd_size s)), (''hashB64'', DStr (sd_hashB64 s))]"

definition opt_field :: "string \<Rightarrow> string option \<Rightarrow> (string \<times> doc) list" where
  "opt_field k v = (case v of None \<Rightarrow> [] | Some x \<Rightarrow> [(k, DStr x)])"

definition body_fields :: "'a manifest_body_scheme \<Rightarrow> (string \<times> doc) list" where
  "body_fields b =
    [(''version'', DNum (version b)), (''fileId'', DStr (fileId b)), (''name'', DStr (mf_name b)), (''size'', DNum (mf_size b)),
     (''sealedSize'', DNum (sealedSize b)), (''paddedShardSize'', DNum (paddedShardSize b))]
    @ opt_field ''contentType'' (contentType b)
    @ [(''k'', DNum (mf_k b)), (''m'', DNum (mf_m b)), (''iv'', DStr (mf_iv b)), (''fileKeyWrapped'', wrapped_doc (fileKeyWrapped b)),
       (''shards'', DArr (map shard_doc (mf_shards b)))]
    @ opt_field ''uploaderSignPubKeyB64'' (uploaderSignPubKeyB64 b)
    @ [(''createdAt'', DNum (createdAt b))]"

fun insert_key :: "string \<Rightarrow> string list \<Rightarrow> string list" where
  "insert_key k [] = [k]"
| "insert_key k (l # ls) = (if str_less l k then l # insert_key k ls else k # l # ls)"

definition sort_keys :: "string list \<Rightarrow> string list" where
  "sort_keys ks = foldr insert_key ks []"

fun canonicalize :: "doc \<Rightarrow> doc" where
  "canonicalize (DArr ds) = DArr (map canonicalize ds)"
| "canonicalize (DObj fs) =
    (let values = map (\<lambda>(k, d). (k, canonicalize d)) fs
     in DObj (fold (\<lambda>k sorted. jm_set sorted k (the (map_of values k))) (sort_keys (jm_keys fs)) []))"
| "canonicalize d = d"

definition canonicalJson :: "'a manifest_body_scheme \<Rightarrow> string" where
  "canonicalJson b = json_text (canonicalize (DObj (body_fields b)))"

definition signManifest :: "web_crypto \<Rightarrow> bytes \<Rightarrow> manifest_body \<Rightarrow> ckey \<Rightarrow> signed_manifest" where
  "signManifest W nonce body signPrivateKey =
    (let sig = signBytes W nonce signPrivateKey (utf8_encode (canonicalJson body))
     in manifest_body.extend body (signed_manifest.fields (bytesToB64 sig)))"

definition verifyManifest :: "web_crypto \<Rightarrow> signed_manifest \<Rightarrow> bool" where
  "verifyManifest W manifest =
    (let body = manifest_body.truncate manifest in
     case uploaderSignPubKeyB64 body of
       None \<Rightarrow> False
     | Some b64 \<Rightarrow>
         (case importSignPublicKey W b64 of
            Inl e \<Rightarrow> False
          | Inr pub \<Rightarrow>
              (case b64ToBytes (signatureB64 manifest) of
                 Inl e \<Rightarrow> False
               | Inr sig \<Rightarrow> verifyBytes W pub (utf8_encode (canonicalJson body)) sig)))"

section \<open>The store of a peer\<close>

record stored_shard =
  ss_fileId :: string
  ss_index :: nat
  ss_data :: bytes
  ss_hashB64 :: string
  receivedAt :: nat

definition shardKey :: "string \<Rightarrow> nat \<Rightarrow> string" where
  "shardKey f i = f @ '':'' @ nat_str i"

record drive_store =
  st_shards :: "(string, stored_shard) jmap"
  st_manifests :: "(string, signed_manifest) jmap"

definition empty_store :: drive_store where
  "empty_store = \<lparr>st_shards = [], st_manifests = []\<rparr>"

definition putShard :: "stored_shard \<Rightarrow> drive_store \<Rightarrow> drive_store" where
  "putShard s st = st\<lparr>st_shards := jm_set (st_shards st) (shardKey (ss_fileId s) (ss_index s)) s\<rparr>"

definition getShard :: "string \<Rightarrow> nat \<Rightarrow> drive_store \<Rightarrow> stored_shard option" where
  "getShard f i st = jm_get (st_shards st) (shardKey f i)"

definition removeShard :: "string \<Rightarrow> nat \<Rightarrow> drive_store \<Rightarrow> drive_store \<times> bool" where
  "removeShard f i st = (st\<lparr>st_shards := jm_del (st_shards st) (shardKey f i)\<rparr>, jm_has (st_shards st) (shardKey f i))"

definition putManifest :: "signed_manifest \<Rightarrow> drive_store \<Rightarrow> drive_store" where
  "putManifest m st = st\<lparr>st_manifests := jm_set (st_manifests st) (fileId m) m\<rparr>"

definition getManifest :: "string \<Rightarrow> drive_store \<Rightarrow> signed_manifest option" where
  "getManifest f st = jm_get (st_manifests st) f"

definition allManifests :: "drive_store \<Rightarrow> signed_manifest list" where
  "allManifests st = jm_values (st_manifests st)"

definition removeManifest :: "string \<Rightarrow> drive_store \<Rightarrow> drive_store \<times> bool" where
  "removeManifest f st = (st\<lparr>st_manifests := jm_del (st_manifests st) f\<rparr>, jm_has (st_manifests st) f)"

definition shardsHeldForFile :: "string \<Rightarrow> drive_store \<Rightarrow> stored_shard list" where
  "shardsHeldForFile f st = filter (\<lambda>s. ss_fileId s = f) (jm_values (st_shards st))"

record store_stats =
  n_shards :: nat
  n_manifests :: nat
  n_bytes :: nat

definition store_stats_of :: "drive_store \<Rightarrow> store_stats" where
  "store_stats_of st = \<lparr>n_shards = length (st_shards st), n_manifests = length (st_manifests st),
    n_bytes = sum_list (map (\<lambda>s. length (ss_data s)) (jm_values (st_shards st)))\<rparr>"

section \<open>The canonical text determines the manifest\<close>

lemma set_insert_key [simp]: "set (insert_key k ks) = insert k (set ks)"
  by (induction ks) auto

lemma set_sort_keys [simp]: "set (sort_keys ks) = set ks"
  by (induction ks) (auto simp: sort_keys_def)

lemma fold_set_get:
  "map_of (fold (\<lambda>k sorted. jm_set sorted k (g k)) ks m) k = (if k \<in> set ks then Some (g k) else map_of m k)"
  by (induction ks arbitrary: m) auto

lemma fold_set_wf: "jm_wf m \<Longrightarrow> jm_wf (fold (\<lambda>k sorted. jm_set sorted k (g k)) ks m)"
  by (induction ks arbitrary: m) auto

lemma map_of_values: "map_of (map (\<lambda>(k, d). (k, f d)) fs) k = map_option f (map_of fs k)"
  by (induction fs) auto

lemma canonicalize_get:
  "\<exists>gs. canonicalize (DObj fs) = DObj gs \<and> jm_wf gs \<and> (\<forall>k. map_of gs k = map_option canonicalize (map_of fs k))"
proof -
  let ?v = "map (\<lambda>(k, d). (k, canonicalize d)) fs"
  let ?gs = "fold (\<lambda>k sorted. jm_set sorted k (the (map_of ?v k))) (sort_keys (jm_keys fs)) []"
  have "map_of ?gs k = map_option canonicalize (map_of fs k)" for k
  proof (cases "map_of fs k")
    case None
    then show ?thesis by (simp add: fold_set_get map_of_eq_None_iff)
  next
    case (Some d)
    then have "k \<in> set (jm_keys fs)" by (force dest: map_of_SomeD)
    with Some show ?thesis by (simp add: fold_set_get map_of_values)
  qed
  moreover have "jm_wf ?gs" by (rule fold_set_wf) simp
  ultimately show ?thesis by (intro exI [of _ ?gs]) (simp add: Let_def)
qed

lemma doc_ok_canonicalize: "doc_ok d \<Longrightarrow> doc_ok (canonicalize d)"
proof (induction d)
  case (DArr ds)
  then show ?case by (auto simp: list_all_iff)
next
  case (DObj fs)
  obtain gs where gs: "canonicalize (DObj fs) = DObj gs" "jm_wf gs" "\<forall>k. map_of gs k = map_option canonicalize (map_of fs k)"
    using canonicalize_get by blast
  have "doc_ok d" if "(k, d) \<in> set gs" for k d
  proof -
    have "map_of gs k = Some d" using that gs(2) by simp
    then obtain e where e: "map_of fs k = Some e" "d = canonicalize e" using gs(3) by auto
    then have ke: "(k, e) \<in> set fs" by (simp add: map_of_SomeD)
    with DObj.prems have "doc_ok e" by (auto simp: list_all_iff)
    with DObj.IH [OF ke] e show ?thesis by simp
  qed
  with gs show ?case by (auto simp: list_all_iff)
qed simp_all

lemma canonicalize_fields:
  assumes "canonicalize (DObj fs) = canonicalize (DObj gs)"
  shows "map_option canonicalize (map_of fs k) = map_option canonicalize (map_of gs k)"
  using canonicalize_get [of fs] canonicalize_get [of gs] assms by auto

lemma canonicalize_str: "canonicalize (DObj fs) = canonicalize (DObj gs) \<Longrightarrow> map_of fs k = Some (DStr s) \<Longrightarrow> map_of gs k = Some (DStr t) \<Longrightarrow> s = t"
  using canonicalize_fields [of fs gs k] by simp

lemma canonicalize_num: "canonicalize (DObj fs) = canonicalize (DObj gs) \<Longrightarrow> map_of fs k = Some (DNum s) \<Longrightarrow> map_of gs k = Some (DNum t) \<Longrightarrow> s = t"
  using canonicalize_fields [of fs gs k] by simp

lemma canonicalize_opt:
  assumes "canonicalize (DObj fs) = canonicalize (DObj gs)"
    and "map_of fs k = map_option DStr s" "map_of gs k = map_option DStr t"
  shows "s = t"
  using canonicalize_fields [OF assms(1), of k] assms(2,3) by (cases s; cases t) simp_all

lemma canonicalize_wrapped: "canonicalize (wrapped_doc v) = canonicalize (wrapped_doc w) \<Longrightarrow> v = w"
  unfolding wrapped_doc_def
  by (frule canonicalize_str [of _ _ "''ephemeralPubKeyB64''"], simp, simp, frule canonicalize_str [of _ _ "''iv''"], simp, simp,
      frule canonicalize_str [of _ _ "''ct''"], simp, simp, cases v, cases w, simp del: canonicalize.simps)

lemma canonicalize_shard: "canonicalize (shard_doc v) = canonicalize (shard_doc w) \<Longrightarrow> v = w"
  unfolding shard_doc_def
  by (frule canonicalize_num [of _ _ "''index''"], simp, simp, frule canonicalize_num [of _ _ "''size''"], simp, simp,
      frule canonicalize_str [of _ _ "''hashB64''"], simp, simp, cases v, cases w, simp del: canonicalize.simps)

lemma canonicalize_shards:
  "map canonicalize (map shard_doc vs) = map canonicalize (map shard_doc ws) \<Longrightarrow> vs = ws"
proof (induction vs arbitrary: ws)
  case (Cons v vs)
  then obtain w ws' where "ws = w # ws'" "canonicalize (shard_doc v) = canonicalize (shard_doc w)"
    "map canonicalize (map shard_doc vs) = map canonicalize (map shard_doc ws')" by (cases ws) auto
  with Cons.IH canonicalize_shard show ?case by simp
qed simp

lemma body_get:
  "map_of (body_fields b) ''version'' = Some (DNum (version b))"
  "map_of (body_fields b) ''fileId'' = Some (DStr (fileId b))"
  "map_of (body_fields b) ''name'' = Some (DStr (mf_name b))"
  "map_of (body_fields b) ''size'' = Some (DNum (mf_size b))"
  "map_of (body_fields b) ''sealedSize'' = Some (DNum (sealedSize b))"
  "map_of (body_fields b) ''paddedShardSize'' = Some (DNum (paddedShardSize b))"
  "map_of (body_fields b) ''k'' = Some (DNum (mf_k b))"
  "map_of (body_fields b) ''m'' = Some (DNum (mf_m b))"
  "map_of (body_fields b) ''iv'' = Some (DStr (mf_iv b))"
  "map_of (body_fields b) ''fileKeyWrapped'' = Some (wrapped_doc (fileKeyWrapped b))"
  "map_of (body_fields b) ''shards'' = Some (DArr (map shard_doc (mf_shards b)))"
  "map_of (body_fields b) ''createdAt'' = Some (DNum (createdAt b))"
  "map_of (body_fields b) ''contentType'' = map_option DStr (contentType b)"
  "map_of (body_fields b) ''uploaderSignPubKeyB64'' = map_option DStr (uploaderSignPubKeyB64 b)"
  by (cases "contentType b"; cases "uploaderSignPubKeyB64 b"; simp add: body_fields_def opt_field_def)+

lemma body_wf: "doc_ok (DObj (body_fields b))"
  by (auto simp: body_fields_def opt_field_def wrapped_doc_def shard_doc_def list_all_iff split: option.splits)

lemma canonicalJson_inj:
  assumes "canonicalJson b = canonicalJson c"
  shows "manifest_body.truncate b = manifest_body.truncate c"
proof -
  have eq: "canonicalize (DObj (body_fields b)) = canonicalize (DObj (body_fields c))"
    by (rule json_text_inj) (use assms in \<open>simp_all only: canonicalJson_def doc_ok_canonicalize body_wf\<close>)
  note str = canonicalize_str [OF eq body_get(2) body_get(2)] canonicalize_str [OF eq body_get(3) body_get(3)] canonicalize_str [OF eq body_get(9) body_get(9)]
  note num = canonicalize_num [OF eq body_get(1) body_get(1)] canonicalize_num [OF eq body_get(4) body_get(4)] canonicalize_num [OF eq body_get(5) body_get(5)]
    canonicalize_num [OF eq body_get(6) body_get(6)] canonicalize_num [OF eq body_get(7) body_get(7)] canonicalize_num [OF eq body_get(8) body_get(8)]
    canonicalize_num [OF eq body_get(12) body_get(12)]
  note opt = canonicalize_opt [OF eq body_get(13) body_get(13)] canonicalize_opt [OF eq body_get(14) body_get(14)]
  have "fileKeyWrapped b = fileKeyWrapped c"
    using canonicalize_fields [OF eq, of "''fileKeyWrapped''"] by (simp only: body_get option.map option.inject canonicalize_wrapped)
  moreover have "mf_shards b = mf_shards c"
    using canonicalize_fields [OF eq, of "''shards''"]
    by (intro canonicalize_shards) (simp only: body_get option.map option.inject canonicalize.simps doc.inject)
  ultimately show ?thesis using str num opt by (simp add: manifest_body.truncate_def)
qed

section \<open>Signatures and the store\<close>

lemma body_fields_truncate: "body_fields (manifest_body.truncate m) = body_fields m"
  by (simp add: body_fields_def manifest_body.truncate_def)

lemma canonicalJson_truncate [simp]: "canonicalJson (manifest_body.truncate m) = canonicalJson m"
  by (simp add: canonicalJson_def body_fields_truncate)

lemma truncate_signed [simp]: "manifest_body.truncate (manifest_body.extend b e) = b"
  by (cases b) (simp add: manifest_body.truncate_def manifest_body.extend_def)

context web_crypto begin

lemma verify_signed:
  assumes "ecdsa_generated W (kp_public kp) (kp_private kp)" "kp_publicB64 kp = bytesToB64 (export_pub W Spki (kp_public kp))"
    and "uploaderSignPubKeyB64 body = Some (kp_publicB64 kp)"
  shows "verifyManifest W (signManifest W nonce body (kp_private kp))"
proof -
  let ?m = "signManifest W nonce body (kp_private kp)"
  have "manifest_body.truncate ?m = body" by (simp add: signManifest_def Let_def)
  moreover have "signatureB64 ?m = bytesToB64 (signBytes W nonce (kp_private kp) (utf8_encode (canonicalJson body)))"
    by (simp add: signManifest_def Let_def manifest_body.extend_def signed_manifest.fields_def)
  moreover have "importSignPublicKey W (kp_publicB64 kp) = ok (kp_public kp)"
    using import_verify [OF assms(1)] by (simp add: importSignPublicKey_def assms(2))
  ultimately show ?thesis using assms(1,3) by (simp add: verifyManifest_def Let_def verifyBytes_def signBytes_def verify_sign)
qed

end

lemma first_occurrence: "c \<notin> set a \<Longrightarrow> c \<notin> set b \<Longrightarrow> a @ c # r = b @ c # t \<Longrightarrow> a = b \<and> r = t"
proof (induction a arbitrary: b)
  case Nil
  then show ?case by (cases b) auto
next
  case (Cons x a)
  then show ?case by (cases b) auto
qed

lemma shardKey_inj: "shardKey f i = shardKey g j \<longleftrightarrow> f = g \<and> i = j"
proof
  assume "shardKey f i = shardKey g j"
  then have r: "rev (nat_str i) @ CHR '':'' # rev f = rev (nat_str j) @ CHR '':'' # rev g"
    unfolding shardKey_def by (metis append.assoc append_Cons append_Nil rev.simps(2) rev_append)
  have "CHR '':'' \<notin> set (rev (nat_str i))" "CHR '':'' \<notin> set (rev (nat_str j))" using colon_notin_nat_str by simp_all
  from first_occurrence [OF this r] have "rev (nat_str i) = rev (nat_str j) \<and> rev f = rev g" .
  then show "f = g \<and> i = j" using nat_str_inj by simp
qed simp

lemma getShard_put:
  "getShard f i (putShard s st) = (if f = ss_fileId s \<and> i = ss_index s then Some s else getShard f i st)"
  by (auto simp: getShard_def putShard_def shardKey_inj)

lemma getShard_manifest [simp]: "getShard f i (putManifest m st) = getShard f i st"
  by (simp add: getShard_def putManifest_def)

lemma getManifest_put: "getManifest f (putManifest m st) = (if f = fileId m then Some m else getManifest f st)"
  by (simp add: getManifest_def putManifest_def)

section \<open>Properties\<close>

text \<open>
  C20. A manifest that verifies is one its uploader signed: if signatures under the uploader's key
  exist only for the canonical texts of the manifests the uploader signed, then the body of every manifest a
  peer accepts under that key is, field by field, one of those, whatever was changed on the way. The canonical text leaves
  nothing out and no two manifests share one.
\<close>

theorem manifest_authentic:
  assumes accepted: "verifyManifest W m"
    and key: "uploaderSignPubKeyB64 m = Some b64" "importSignPublicKey W b64 = ok pub"
    and unforgeable: "\<And>d sig. ecdsa_verify W pub sig d \<Longrightarrow> \<exists>b \<in> own. d = utf8_encode (canonicalJson (b :: manifest_body))"
  shows "manifest_body.truncate m \<in> own"
proof -
  have up: "uploaderSignPubKeyB64 (manifest_body.truncate m) = Some b64" using key(1) by (simp add: manifest_body.truncate_def)
  then obtain sig where "ecdsa_verify W pub sig (utf8_encode (canonicalJson m))"
    using accepted key(2) by (auto simp: verifyManifest_def Let_def verifyBytes_def split: sum.splits)
  from unforgeable [OF this] obtain b where b: "b \<in> own" "canonicalJson m = canonicalJson b" by (auto simp: utf8_inj)
  have "manifest_body.truncate m = manifest_body.truncate b" by (rule canonicalJson_inj) (rule b(2))
  also have "\<dots> = b" by (cases b) (simp add: manifest_body.truncate_def)
  finally show ?thesis using b(1) by simp
qed

definition demo_body :: manifest_body where
  "demo_body = \<lparr>version = 1, fileId = ''f'', mf_name = ''a.txt'', mf_size = 3, sealedSize = 19, paddedShardSize = 10,
    contentType = None, mf_k = 2, mf_m = 1, mf_iv = [], fileKeyWrapped = \<lparr>ephemeralPubKeyB64 = [], wk_iv = [], wk_ct = []\<rparr>,
    mf_shards = [], uploaderSignPubKeyB64 = Some (bytesToB64 (replicate 32 1)), createdAt = 5\<rparr>"

text \<open>A signature scheme under which the owner signed the demo manifest only.\<close>

definition one_signature :: web_crypto where
  "one_signature = plain_crypto\<lparr>ecdsa_verify := (\<lambda>pub sig d. sig = [1] \<and> d = utf8_encode (canonicalJson demo_body))\<rparr>"

definition demo_signed :: signed_manifest where
  "demo_signed = manifest_body.extend demo_body (signed_manifest.fields (bytesToB64 [1]))"

lemma manifest_authentic_witness: "manifest_body.truncate demo_signed \<in> {demo_body}"
proof (rule manifest_authentic [where W = one_signature])
  have t: "manifest_body.truncate demo_signed = demo_body" by (simp add: demo_signed_def)
  have s: "signatureB64 demo_signed = bytesToB64 [1]"
    by (simp add: demo_signed_def manifest_body.extend_def signed_manifest.fields_def)
  show up: "uploaderSignPubKeyB64 demo_signed = Some (bytesToB64 (replicate 32 1))"
    by (simp add: demo_signed_def demo_body_def manifest_body.extend_def)
  show imp: "importSignPublicKey one_signature (bytesToB64 (replicate 32 1)) = ok (replicate 32 1)"
    by (simp add: importSignPublicKey_def one_signature_def plain_crypto_def key32_def)
  have "uploaderSignPubKeyB64 demo_body = Some (bytesToB64 (replicate 32 1))" by (simp add: demo_body_def)
  then show "verifyManifest one_signature demo_signed"
    by (simp add: verifyManifest_def t s imp Let_def verifyBytes_def) (simp add: one_signature_def)
  show "\<exists>b \<in> {demo_body}. d = utf8_encode (canonicalJson b)" if "ecdsa_verify one_signature (replicate 32 1) sig d" for d sig
    using that by (simp add: one_signature_def)
qed

end
