(* ===== verification/DriveClient.thy ===== *)
theory DriveClient imports DriveManifest ErasureCode begin

text \<open>
  The protocol of the drive (\<open>lib/drive/driveClient.ts\<close>, \<open>lib/drive/protocol.ts\<close>): the upload as one task per shard that
  waits for messages and timers, the download, and the holder of shards. A message sent is an
  element of a list; the network decides which arrive. Random values and the clock are inputs.
\<close>

section \<open>Messages\<close>

datatype drive_msg =
    Offer string nat nat string
  | OfferAck string nat bool "string option"
  | StoreShard string nat string
  | StoreAck string nat bool "string option"
  | AnnounceManifest signed_manifest
  | Fetch string nat
  | FetchResponse string nat "string option" "string option"
  | ManifestSyncRequest
  | ManifestSyncResponse "signed_manifest list"

section \<open>Preparing an upload\<close>

definition DEFAULT_K :: nat where "DEFAULT_K = 10"
definition DEFAULT_M :: nat where "DEFAULT_M = 4"

record upload_options =
  uo_name :: string
  uo_type :: "string option"
  uo_bytes :: bytes
  uo_identity :: user_identity
  selfPeerId :: string
  uo_peers :: "string list"
  uo_k :: "nat option"
  uo_m :: "nat option"

text \<open>The random values of one upload, in the order the code draws them.\<close>

record upload_random =
  rnd_fileId :: bytes
  rnd_fileKey :: ckey
  rnd_sealIv :: bytes
  rnd_ephemeral :: "ckey \<times> ckey"
  rnd_wrapIv :: bytes
  rnd_nonce :: bytes

record upload_job =
  job_k :: nat
  job_m :: nat
  job_fileId :: string
  job_fileKey :: ckey
  job_sealed :: sealed_file
  job_sealedSize :: nat
  job_padded :: nat
  job_shards :: "bytes list"
  job_descs :: "shard_descriptor list"

definition allocateShards :: "nat \<Rightarrow> string list \<Rightarrow> string list" where
  "allocateShards totalShards peerIds =
    (if peerIds = [] then replicate totalShards []
     else map (\<lambda>i. peerIds ! (i mod length peerIds)) [0..<totalShards])"

definition prepare_upload :: "web_crypto \<Rightarrow> upload_options \<Rightarrow> upload_random \<Rightarrow> upload_job result" where
  "prepare_upload W opts rnd =
    (let k = (case uo_k opts of None \<Rightarrow> DEFAULT_K | Some k \<Rightarrow> k);
         m = (case uo_m opts of None \<Rightarrow> DEFAULT_M | Some m \<Rightarrow> m)
     in rbind (new_ReedSolomon \<lparr>cfg_k = k, cfg_m = m\<rparr>) (\<lambda>rs.
        let sealed = sealFile W (rnd_sealIv rnd) (rnd_fileKey rnd) (uo_bytes opts);
            (dataShards, sealedSize) = splitIntoShards (sf_ciphertext sealed) k;
            paddedShardSize = (case dataShards of [] \<Rightarrow> 0 | s # _ \<Rightarrow> length s)
        in rbind (encode rs dataShards) (\<lambda>parityShards.
           let allShards = dataShards @ parityShards
           in ok \<lparr>job_k = k, job_m = m, job_fileId = newFileId (rnd_fileId rnd), job_fileKey = rnd_fileKey rnd,
                  job_sealed = sealed, job_sealedSize = sealedSize, job_padded = paddedShardSize, job_shards = allShards,
                  job_descs = map (\<lambda>i. \<lparr>sd_index = i, sd_size = length (allShards ! i),
                    sd_hashB64 = bytesToB64 (sha_256 W (allShards ! i))\<rparr>) [0..<length allShards]\<rparr>)))"

section \<open>Distributing the shards\<close>

text \<open>A task per shard: it waits for the answer to the offer, then for that to the shard, and settles.\<close>

datatype task_state = AwaitOffer | AwaitStore | Fulfilled | Rejected string

record upload =
  up_job :: upload_job
  up_self :: string
  up_holders :: "string list"
  up_tasks :: "task_state list"
  up_accepted :: nat
  up_stored :: nat
  up_out :: "(string \<times> drive_msg) list"
  up_published :: "nat list"

definition offer_msg :: "upload_job \<Rightarrow> nat \<Rightarrow> drive_msg" where
  "offer_msg job i = Offer (job_fileId job) i (length (job_shards job ! i)) (sd_hashB64 (job_descs job ! i))"

text \<open>The part of a task that runs before it waits.\<close>

definition start_task :: "nat \<Rightarrow> nat \<Rightarrow> upload \<times> drive_store \<Rightarrow> upload \<times> drive_store" where
  "start_task now i us =
    (let (u, store) = us; job = up_job u; holder = up_holders u ! i in
     if holder = up_self u then
       (u\<lparr>up_tasks := (up_tasks u)[i := Fulfilled], up_accepted := up_accepted u + 1, up_stored := up_stored u + 1,
          up_published := up_published u @ [i]\<rparr>,
        putShard \<lparr>ss_fileId = job_fileId job, ss_index = i, ss_data = job_shards job ! i,
          ss_hashB64 = sd_hashB64 (job_descs job ! i), receivedAt = now\<rparr> store)
     else (u\<lparr>up_tasks := (up_tasks u)[i := AwaitOffer], up_out := up_out u @ [(holder, offer_msg job i)]\<rparr>, store))"

definition begin_upload :: "upload_options \<Rightarrow> nat \<Rightarrow> upload_job \<Rightarrow> drive_store \<Rightarrow> upload \<times> drive_store" where
  "begin_upload opts now job store =
    (let n = job_k job + job_m job;
         u = \<lparr>up_job = job, up_self = selfPeerId opts, up_holders = allocateShards n (selfPeerId opts # uo_peers opts),
              up_tasks = replicate n AwaitOffer, up_accepted = 0, up_stored = 0, up_out = [], up_published = []\<rparr>
     in fold (start_task now) [0..<n] (u, store))"

text \<open>What happens to an upload: a message of a peer arrives, or the timer a task waits with runs out.\<close>

datatype up_event = Deliver string drive_msg | Timer nat

definition who :: "upload \<Rightarrow> nat \<Rightarrow> string" where
  "who u i = nat_str i @ '' -> '' @ up_holders u ! i"

definition on_offer_ack :: "nat \<Rightarrow> bool \<Rightarrow> upload \<Rightarrow> upload" where
  "on_offer_ack i accept u =
    (if \<not> accept then
       u\<lparr>up_tasks := (up_tasks u)[i := Rejected (''peer '' @ up_holders u ! i @ '' declined shard '' @ nat_str i)]\<rparr>
     else u\<lparr>up_tasks := (up_tasks u)[i := AwaitStore], up_accepted := up_accepted u + 1,
            up_out := up_out u @ [(up_holders u ! i,
              StoreShard (job_fileId (up_job u)) i (bytesToB64 (job_shards (up_job u) ! i)))]\<rparr>)"

definition on_store_ack :: "nat \<Rightarrow> bool \<Rightarrow> string option \<Rightarrow> upload \<Rightarrow> upload" where
  "on_store_ack i stored reason u =
    (if stored then
       u\<lparr>up_tasks := (up_tasks u)[i := Fulfilled], up_stored := up_stored u + 1, up_published := up_published u @ [i]\<rparr>
     else u\<lparr>up_tasks := (up_tasks u)[i := Rejected (''peer '' @ up_holders u ! i @ '' failed to store shard '' @ nat_str i @ '': ''
            @ (case reason of None \<Rightarrow> ''no reason'' | Some r \<Rightarrow> r))]\<rparr>)"

text \<open>One subscriber: the handler a waiting task registered.\<close>

definition task_receive :: "string \<Rightarrow> drive_msg \<Rightarrow> nat \<Rightarrow> upload \<Rightarrow> upload" where
  "task_receive from msg i u =
    (if from \<noteq> up_holders u ! i then u
     else case (up_tasks u ! i, msg) of
       (AwaitOffer, OfferAck f j accept reason) \<Rightarrow>
         if f \<noteq> job_fileId (up_job u) \<or> j \<noteq> i then u else on_offer_ack i accept u
     | (AwaitStore, StoreAck f j stored reason) \<Rightarrow>
         if f \<noteq> job_fileId (up_job u) \<or> j \<noteq> i then u else on_store_ack i stored reason u
     | _ \<Rightarrow> u)"

definition task_timeout :: "nat \<Rightarrow> upload \<Rightarrow> upload" where
  "task_timeout i u =
    (case up_tasks u ! i of
       AwaitOffer \<Rightarrow> u\<lparr>up_tasks := (up_tasks u)[i := Rejected (''offer '' @ who u i @ '': timeout'')]\<rparr>
     | AwaitStore \<Rightarrow> u\<lparr>up_tasks := (up_tasks u)[i := Rejected (''store '' @ who u i @ '': timeout'')]\<rparr>
     | _ \<Rightarrow> u)"

definition up_act :: "up_event \<Rightarrow> upload \<Rightarrow> upload" where
  "up_act e u =
    (case e of
       Deliver from msg \<Rightarrow> fold (task_receive from msg) [0..<length (up_tasks u)] u
     | Timer i \<Rightarrow> if i < length (up_tasks u) then task_timeout i u else u)"

fun settled :: "task_state \<Rightarrow> bool" where
  "settled AwaitOffer = False"
| "settled AwaitStore = False"
| "settled Fulfilled = True"
| "settled (Rejected e) = True"

section \<open>Publishing the manifest\<close>

definition manifest_of :: "web_crypto \<Rightarrow> upload_options \<Rightarrow> upload_random \<Rightarrow> nat \<Rightarrow> upload_job \<Rightarrow> signed_manifest" where
  "manifest_of W opts rnd now job =
    signManifest W (rnd_nonce rnd)
      \<lparr>version = 1, fileId = job_fileId job, mf_name = uo_name opts, mf_size = length (uo_bytes opts),
       sealedSize = job_sealedSize job, paddedShardSize = job_padded job, contentType = uo_type opts,
       mf_k = job_k job, mf_m = job_m job, mf_iv = bytesToB64 (sf_iv (job_sealed job)),
       fileKeyWrapped = wrapFileKey W (rnd_ephemeral rnd) (rnd_wrapIv rnd) (job_fileKey job) (kp_public (id_ecdh (uo_identity opts))),
       mf_shards = job_descs job, uploaderSignPubKeyB64 = Some (kp_publicB64 (id_sign (uo_identity opts))), createdAt = now\<rparr>
      (kp_private (id_sign (uo_identity opts)))"

text \<open>After \<open>allSettled\<close>; \<open>None\<close> while a task still waits. A success stores the manifest and broadcasts it.\<close>

definition finish_upload ::
  "web_crypto \<Rightarrow> upload_options \<Rightarrow> upload_random \<Rightarrow> nat \<Rightarrow> upload \<Rightarrow> drive_store
    \<Rightarrow> ((signed_manifest \<times> drive_store \<times> drive_msg) result) option" where
  "finish_upload W opts rnd now u store =
    (if \<not> list_all settled (up_tasks u) then None
     else
       let job = up_job u; successes = length (filter (\<lambda>t. t = Fulfilled) (up_tasks u)) in
       if successes < job_k job
       then Some (throw (''upload: only '' @ nat_str successes @ ''/'' @ nat_str (job_k job + job_m job)
              @ '' shards stored, need '' @ nat_str (job_k job)))
       else let manifest = manifest_of W opts rnd now job
            in Some (ok (manifest, putManifest manifest store, AnnounceManifest manifest)))"

section \<open>Download\<close>

text \<open>
  \<open>fetchShard\<close> on what arrives after its broadcast, in order: \<open>None\<close> while the promise is pending. An
  answer that is not base64 throws in the handler, after the timer was cleared and the handler removed, so
  nothing settles the promise any more.
\<close>

datatype fetch_event = Answer drive_msg | FetchTimeout

fun fetchShard :: "string \<Rightarrow> nat \<Rightarrow> fetch_event list \<Rightarrow> bytes option option" where
  "fetchShard f i [] = None"
| "fetchShard f i (FetchTimeout # es) = Some None"
| "fetchShard f i (Answer msg # es) =
    (case msg of
       FetchResponse g j (Some b64) reason \<Rightarrow>
         if g \<noteq> f \<or> j \<noteq> i \<or> b64 = [] then fetchShard f i es
         else (case b64ToBytes b64 of Inl e \<Rightarrow> None | Inr b \<Rightarrow> Some (Some b))
     | _ \<Rightarrow> fetchShard f i es)"

text \<open>What the downloader meets: the lookup in the table of the peers, when it has one, and the answers to each broadcast.\<close>

record network =
  dhtFetch :: "(string \<Rightarrow> nat \<Rightarrow> bytes option result) option"
  answers :: "nat \<Rightarrow> fetch_event list"

definition fetchOne :: "network \<Rightarrow> string \<Rightarrow> nat \<Rightarrow> bytes option option" where
  "fetchOne net f i =
    (case dhtFetch net of
       None \<Rightarrow> fetchShard f i (answers net i)
     | Some dht \<Rightarrow>
         (case dht f i of
            Inr (Some b) \<Rightarrow> Some (Some b)
          | _ \<Rightarrow> fetchShard f i (answers net i)))"

text \<open>\<open>Promise.all\<close> over a list of indices: pending as long as one fetch is.\<close>

fun fetch_all :: "network \<Rightarrow> string \<Rightarrow> nat list \<Rightarrow> bytes option list \<Rightarrow> bytes option list option" where
  "fetch_all net f [] collected = Some collected"
| "fetch_all net f (i # is) collected =
    (case fetchOne net f i of
       None \<Rightarrow> None
     | Some None \<Rightarrow> fetch_all net f is collected
     | Some (Some b) \<Rightarrow> fetch_all net f is (collected[i := Some b]))"

definition collected_count :: "bytes option list \<Rightarrow> nat" where
  "collected_count collected = length (present collected)"

definition needed_indices :: "nat \<Rightarrow> bytes option list \<Rightarrow> nat list" where
  "needed_indices k collected =
    take (k - collected_count collected) (filter (\<lambda>i. collected ! i = None) [0..<length collected])"

definition additional_indices :: "nat \<Rightarrow> nat list \<Rightarrow> bytes option list \<Rightarrow> nat list" where
  "additional_indices k needed collected =
    take (k - collected_count collected)
      (filter (\<lambda>i. collected ! i = None \<and> i \<notin> set needed) [0..<length collected])"

record downloaded =
  dl_bytes :: bytes
  dl_name :: string
  dl_contentType :: "string option"

definition drop_tampered :: "web_crypto \<Rightarrow> signed_manifest \<Rightarrow> bytes option list \<Rightarrow> bytes option list" where
  "drop_tampered W manifest collected =
    map (\<lambda>i. case collected ! i of
        None \<Rightarrow> None
      | Some data \<Rightarrow>
          let expected = (if i < length (mf_shards manifest) then Some (sd_hashB64 (mf_shards manifest ! i)) else None);
              got = bytesToB64 (sha_256 W data)
          in if expected \<noteq> Some got then None else Some data) [0..<length collected]"

definition finalize :: "web_crypto \<Rightarrow> user_identity \<Rightarrow> signed_manifest \<Rightarrow> bytes option list \<Rightarrow> downloaded result" where
  "finalize W identity manifest collected =
    (let checked = drop_tampered W manifest collected in
     rbind (new_ReedSolomon \<lparr>cfg_k = mf_k manifest, cfg_m = mf_m manifest\<rparr>) (\<lambda>rs.
     rbind (reconstruct rs checked) (\<lambda>recovered.
     rbind (recombineShards recovered (sealedSize manifest)) (\<lambda>sealed.
     rbind (unwrapFileKey W (fileKeyWrapped manifest) (id_ecdh identity)) (\<lambda>fileKey.
     rbind (b64ToBytes (mf_iv manifest)) (\<lambda>iv.
     rbind (openFile W fileKey iv sealed) (\<lambda>plaintext.
     if length plaintext \<noteq> mf_size manifest
     then throw (''download: decrypted size '' @ nat_str (length plaintext) @ '' != manifest.size '' @ nat_str (mf_size manifest))
     else ok \<lparr>dl_bytes = plaintext, dl_name = mf_name manifest, dl_contentType = contentType manifest\<rparr>)))))))"

definition local_shards :: "signed_manifest \<Rightarrow> drive_store \<Rightarrow> bytes option list" where
  "local_shards manifest store =
    map (\<lambda>i. map_option ss_data (getShard (fileId manifest) i store)) [0..<mf_k manifest + mf_m manifest]"

definition finish_download :: "web_crypto \<Rightarrow> user_identity \<Rightarrow> signed_manifest \<Rightarrow> bytes option list \<Rightarrow> downloaded result" where
  "finish_download W identity manifest collected =
    (if collected_count collected < mf_k manifest
     then throw (''download: only '' @ nat_str (collected_count collected) @ ''/'' @ nat_str (mf_k manifest) @ '' shards available'')
     else finalize W identity manifest collected)"

text \<open>\<open>None\<close>: the promise of the download never settles.\<close>

definition downloadFile ::
  "web_crypto \<Rightarrow> user_identity \<Rightarrow> network \<Rightarrow> drive_store \<Rightarrow> signed_manifest \<Rightarrow> downloaded result option" where
  "downloadFile W identity net store manifest =
    (if \<not> verifyManifest W manifest then Some (throw ''manifest signature verification failed'')
     else
       let k = mf_k manifest; f = fileId manifest; have_locally = local_shards manifest store in
       if k \<le> collected_count have_locally then Some (finalize W identity manifest have_locally)
       else
         let needed = needed_indices k have_locally in
         case fetch_all net f needed have_locally of
           None \<Rightarrow> None
         | Some collected \<Rightarrow>
             if collected_count collected < k
             then (case fetch_all net f (additional_indices k needed collected) collected of
                     None \<Rightarrow> None
                   | Some collected' \<Rightarrow> Some (finish_download W identity manifest collected'))
             else Some (finish_download W identity manifest collected))"

section \<open>The holder\<close>

record holder_result =
  hr_store :: drive_store
  hr_replies :: "(string \<times> drive_msg) list"
  hr_manifests :: "signed_manifest list"
  hr_published :: "(string \<times> nat \<times> bytes) list"

definition holder_idle :: "drive_store \<Rightarrow> holder_result" where
  "holder_idle store = \<lparr>hr_store = store, hr_replies = [], hr_manifests = [], hr_published = []\<rparr>"

definition adopt_manifest :: "web_crypto \<Rightarrow> signed_manifest \<Rightarrow> holder_result \<Rightarrow> holder_result" where
  "adopt_manifest W m r =
    (if verifyManifest W m
     then r\<lparr>hr_store := putManifest m (hr_store r), hr_manifests := hr_manifests r @ [m]\<rparr> else r)"

definition bindHolder :: "web_crypto \<Rightarrow> nat \<Rightarrow> string \<Rightarrow> drive_msg \<Rightarrow> drive_store \<Rightarrow> holder_result" where
  "bindHolder W now from msg store =
    (let r = holder_idle store in
     case msg of
       Offer f i len hash \<Rightarrow> r\<lparr>hr_replies := [(from, OfferAck f i True None)]\<rparr>
     | StoreShard f i dataB64 \<Rightarrow>
         (case b64ToBytes dataB64 of
            Inl e \<Rightarrow> r\<lparr>hr_replies := [(from, StoreAck f i False (Some e))]\<rparr>
          | Inr data \<Rightarrow>
              r\<lparr>hr_store := putShard \<lparr>ss_fileId = f, ss_index = i, ss_data = data,
                  ss_hashB64 = bytesToB64 (sha_256 W data), receivedAt = now\<rparr> store,
                hr_published := [(f, i, data)], hr_replies := [(from, StoreAck f i True None)]\<rparr>)
     | Fetch f i \<Rightarrow>
         r\<lparr>hr_replies := [(from, FetchResponse f i (map_option (\<lambda>s. bytesToB64 (ss_data s)) (getShard f i store)) None)]\<rparr>
     | AnnounceManifest m \<Rightarrow> adopt_manifest W m r
     | ManifestSyncRequest \<Rightarrow> r\<lparr>hr_replies := [(from, ManifestSyncResponse (allManifests store))]\<rparr>
     | ManifestSyncResponse ms \<Rightarrow> fold (adopt_manifest W) ms r
     | _ \<Rightarrow> r)"

end
