(* ===== verification/DriveProps.thy ===== *)
theory DriveProps imports DriveClient begin

text \<open>
  What the drive promises: the file comes back from any sufficient set of intact shards, every upload
  settles, a holder serves what it stored, and where the download falls short of the erasure code's promise.
\<close>

section \<open>The prepared upload\<close>

definition code_shards :: "upload_job \<Rightarrow> reed_solomon \<Rightarrow> bytes list \<Rightarrow> bytes list \<Rightarrow> bool" where
  "code_shards job rs data parity \<longleftrightarrow>
    new_ReedSolomon \<lparr>cfg_k = job_k job, cfg_m = job_m job\<rparr> = ok rs \<and> encode rs data = ok parity \<and>
    job_shards job = data @ parity \<and> length data = job_k job \<and> length parity = job_m job \<and>
    equal_shards (job_k job) (shard_len (sf_ciphertext (job_sealed job)) (job_k job)) data \<and>
    recombineShards data (job_sealedSize job) = ok (sf_ciphertext (job_sealed job))"

lemma prepared:
  assumes "prepare_upload W opts rnd = ok job"
  shows "\<exists>rs data parity. code_shards job rs data parity"
    and "job_sealed job = sealFile W (rnd_sealIv rnd) (rnd_fileKey rnd) (uo_bytes opts)"
    and "job_fileKey job = rnd_fileKey rnd"
    and "length (job_shards job) = job_k job + job_m job" and "length (job_descs job) = length (job_shards job)"
    and "i < length (job_shards job) \<Longrightarrow> sd_hashB64 (job_descs job ! i) = bytesToB64 (sha_256 W (job_shards job ! i))"
    and "1 \<le> job_k job" "job_k job + job_m job \<le> 256"
proof -
  define k where "k = (case uo_k opts of None \<Rightarrow> DEFAULT_K | Some k \<Rightarrow> k)"
  define m where "m = (case uo_m opts of None \<Rightarrow> DEFAULT_M | Some m \<Rightarrow> m)"
  define sealed where "sealed = sealFile W (rnd_sealIv rnd) (rnd_fileKey rnd) (uo_bytes opts)"
  define data where "data = fst (splitIntoShards (sf_ciphertext sealed) k)"
  obtain rs parity where rs: "new_ReedSolomon \<lparr>cfg_k = k, cfg_m = m\<rparr> = ok rs" and par: "encode rs data = ok parity"
    and job: "job = \<lparr>job_k = k, job_m = m, job_fileId = newFileId (rnd_fileId rnd), job_fileKey = rnd_fileKey rnd,
      job_sealed = sealed, job_sealedSize = snd (splitIntoShards (sf_ciphertext sealed) k),
      job_padded = (case data of [] \<Rightarrow> 0 | s # _ \<Rightarrow> length s), job_shards = data @ parity,
      job_descs = map (\<lambda>i. \<lparr>sd_index = i, sd_size = length ((data @ parity) ! i),
        sd_hashB64 = bytesToB64 (sha_256 W ((data @ parity) ! i))\<rparr>) [0..<length (data @ parity)]\<rparr>"
    using assms unfolding prepare_upload_def Let_def k_def [symmetric] m_def [symmetric] sealed_def [symmetric]
    by (auto simp: rbind_eq_Inr data_def case_prod_unfold)
  have km: "1 \<le> k" "k + m \<le> 256" using rs by (simp_all add: new_ReedSolomon_ok_iff valid_config_def)
  have eq: "equal_shards k (shard_len (sf_ciphertext sealed) k) data"
    unfolding data_def by (rule splitIntoShards_even [OF km(1)])
  then have len: "length data = k" by (simp add: equal_shards_def)
  have plen: "length parity = m" using encode_ok [OF rs eq] par by auto
  have rec: "recombineShards data (snd (splitIntoShards (sf_ciphertext sealed) k)) = ok (sf_ciphertext sealed)"
    using recombine_split [OF km(1), of "sf_ciphertext sealed"] by (simp add: data_def splitIntoShards_def Let_def)
  show "\<exists>rs data parity. code_shards job rs data parity"
    using rs par len plen eq rec by (intro exI [of _ rs] exI [of _ data] exI [of _ parity]) (auto simp: code_shards_def job)
  show "job_sealed job = sealFile W (rnd_sealIv rnd) (rnd_fileKey rnd) (uo_bytes opts)" "job_fileKey job = rnd_fileKey rnd"
    "length (job_shards job) = job_k job + job_m job" "length (job_descs job) = length (job_shards job)"
    "1 \<le> job_k job" "job_k job + job_m job \<le> 256"
    using km len plen by (simp_all add: job sealed_def)
  show "i < length (job_shards job) \<Longrightarrow> sd_hashB64 (job_descs job ! i) = bytesToB64 (sha_256 W (job_shards job ! i))"
    by (simp add: job)
qed

lemma manifest_of_fields [simp]:
  "mf_k (manifest_of W opts rnd now job) = job_k job" "mf_m (manifest_of W opts rnd now job) = job_m job"
  "fileId (manifest_of W opts rnd now job) = job_fileId job" "sealedSize (manifest_of W opts rnd now job) = job_sealedSize job"
  "mf_shards (manifest_of W opts rnd now job) = job_descs job" "mf_name (manifest_of W opts rnd now job) = uo_name opts"
  "contentType (manifest_of W opts rnd now job) = uo_type opts" "mf_size (manifest_of W opts rnd now job) = length (uo_bytes opts)"
  "mf_iv (manifest_of W opts rnd now job) = bytesToB64 (sf_iv (job_sealed job))"
  "fileKeyWrapped (manifest_of W opts rnd now job) =
    wrapFileKey W (rnd_ephemeral rnd) (rnd_wrapIv rnd) (job_fileKey job) (kp_public (id_ecdh (uo_identity opts)))"
  by (simp_all add: manifest_of_def signManifest_def manifest_body.extend_def Let_def)

text \<open>An identity and the keys of an upload that \<open>generateKey\<close> returned.\<close>

definition good_identity :: "web_crypto \<Rightarrow> user_identity \<Rightarrow> bool" where
  "good_identity W idt \<longleftrightarrow>
    ecdh_generated W (kp_public (id_ecdh idt)) (kp_private (id_ecdh idt)) \<and>
    ecdsa_generated W (kp_public (id_sign idt)) (kp_private (id_sign idt)) \<and>
    kp_publicB64 (id_sign idt) = bytesToB64 (export_pub W Spki (kp_public (id_sign idt)))"

definition good_random :: "web_crypto \<Rightarrow> upload_random \<Rightarrow> bool" where
  "good_random W rnd \<longleftrightarrow> aes_generated W (rnd_fileKey rnd) \<and> ecdh_generated W (fst (rnd_ephemeral rnd)) (snd (rnd_ephemeral rnd))"

text \<open>The slots that hold the shard they should, and collected shards whose hash belongs to no other shard.\<close>

definition intact :: "upload_job \<Rightarrow> bytes option list \<Rightarrow> nat list" where
  "intact job collected = filter (\<lambda>i. collected ! i = Some (job_shards job ! i)) [0..<length collected]"

definition no_collision :: "web_crypto \<Rightarrow> upload_job \<Rightarrow> bytes option list \<Rightarrow> bool" where
  "no_collision W job collected \<longleftrightarrow> length collected = job_k job + job_m job \<and>
    (\<forall>i < length collected. \<forall>d. collected ! i = Some d \<longrightarrow>
      sha_256 W d = sha_256 W (job_shards job ! i) \<longrightarrow> d = job_shards job ! i)"

section \<open>Reassembling\<close>

lemma drop_tampered_nth:
  assumes job: "prepare_upload W opts rnd = ok job" and nc: "no_collision W job collected" and i: "i < length collected"
  shows "drop_tampered W (manifest_of W opts' rnd' now job) collected ! i
    = (if collected ! i = Some (job_shards job ! i) then Some (job_shards job ! i) else None)"
proof -
  have lt: "i < length (job_shards job)" using nc i prepared(4) [OF job] by (simp add: no_collision_def)
  have hash: "sd_hashB64 (job_descs job ! i) = bytesToB64 (sha_256 W (job_shards job ! i))" by (rule prepared(6) [OF job lt])
  have d: "i < length (job_descs job)" using lt prepared(5) [OF job] by simp
  show ?thesis
  proof (cases "collected ! i")
    case None
    then show ?thesis using i by (simp add: drop_tampered_def)
  next
    case (Some x)
    then have "sha_256 W x = sha_256 W (job_shards job ! i) \<longleftrightarrow> x = job_shards job ! i"
      using nc i by (auto simp: no_collision_def)
    with Some show ?thesis using i d by (auto simp: drop_tampered_def Let_def hash bytesToB64_inj)
  qed
qed

lemma length_drop_tampered [simp]: "length (drop_tampered W m collected) = length collected"
  by (simp add: drop_tampered_def)

lemma present_checked:
  assumes "prepare_upload W opts rnd = ok job" "no_collision W job collected"
  shows "present (drop_tampered W (manifest_of W opts' rnd' now job) collected) = intact job collected"
  unfolding present_def intact_def length_drop_tampered
  by (rule filter_cong) (use drop_tampered_nth [OF assms] in auto)

lemma checked_survivors:
  assumes job: "prepare_upload W opts rnd = ok job" and nc: "no_collision W job collected"
    and cs: "code_shards job rs data parity"
  shows "survivors (data @ parity) (drop_tampered W (manifest_of W opts' rnd' now job) collected)"
  using drop_tampered_nth [OF job nc] nc cs by (auto simp: survivors_def no_collision_def code_shards_def)

context web_crypto begin

lemma finalize_intact:
  assumes job: "prepare_upload W opts rnd = ok job" and rnd: "good_random W rnd" and idt: "good_identity W (uo_identity opts)"
    and nc: "no_collision W job collected" and enough: "job_k job \<le> length (intact job collected)"
  shows "finalize W (uo_identity opts) (manifest_of W opts rnd now job) collected
    = ok \<lparr>dl_bytes = uo_bytes opts, dl_name = uo_name opts, dl_contentType = uo_type opts\<rparr>"
proof -
  obtain rs data parity where cs: "code_shards job rs data parity" using prepared(1) [OF job] by blast
  then have eq: "equal_shards (job_k job) (shard_len (sf_ciphertext (job_sealed job)) (job_k job)) data" by (simp add: code_shards_def)
  have rs: "new_ReedSolomon \<lparr>cfg_k = job_k job, cfg_m = job_m job\<rparr> = ok rs" and enc: "encode rs data = ok parity"
    and rec: "recombineShards data (job_sealedSize job) = ok (sf_ciphertext (job_sealed job))"
    using cs by (simp_all add: code_shards_def)
  have recon: "reconstruct rs (drop_tampered W (manifest_of W opts rnd now job) collected) = ok data"
    by (rule reconstruct_ok [OF rs eq enc checked_survivors [OF job nc cs]]) (use enough in \<open>simp add: present_checked [OF job nc]\<close>)
  have key: "unwrapFileKey W (wrapFileKey W (rnd_ephemeral rnd) (rnd_wrapIv rnd) (job_fileKey job)
      (kp_public (id_ecdh (uo_identity opts)))) (id_ecdh (uo_identity opts)) = ok (job_fileKey job)"
    using rnd idt prepared(3) [OF job] by (intro unwrap_wrap) (simp_all add: good_random_def good_identity_def)
  have "openFile W (job_fileKey job) (sf_iv (job_sealed job)) (sf_ciphertext (job_sealed job)) = ok (uo_bytes opts)"
    using prepared(2,3) [OF job] by (simp add: openFile_def sealFile_def decrypt_encrypt)
  with rs recon rec key show ?thesis by (simp add: finalize_def Let_def)
qed

lemma manifest_verifies:
  "good_identity W (uo_identity opts) \<Longrightarrow> verifyManifest W (manifest_of W opts rnd now job)"
  unfolding manifest_of_def by (rule verify_signed) (simp_all add: good_identity_def)

end

section \<open>The rounds of a download\<close>

text \<open>The slots of \<open>s\<close> filled with the shards of the upload.\<close>

definition holding :: "upload_job \<Rightarrow> nat set \<Rightarrow> bytes option list" where
  "holding job s = map (\<lambda>i. if i \<in> s then Some (job_shards job ! i) else None) [0..<job_k job + job_m job]"

definition slots :: "upload_job \<Rightarrow> nat set" where
  "slots job = {..<job_k job + job_m job}"

lemma length_holding [simp]: "length (holding job s) = job_k job + job_m job"
  by (simp add: holding_def)

lemma holding_nth [simp]: "i < job_k job + job_m job \<Longrightarrow> holding job s ! i = (if i \<in> s then Some (job_shards job ! i) else None)"
  by (simp add: holding_def)

lemma holding_present: "present (holding job s) = filter (\<lambda>i. i \<in> s) [0..<job_k job + job_m job]"
  unfolding present_def length_holding by (rule filter_cong) auto

lemma holding_missing: "filter (\<lambda>i. holding job s ! i = None) [0..<length (holding job s)] = filter (\<lambda>i. i \<notin> s) [0..<job_k job + job_m job]"
  unfolding length_holding by (rule filter_cong) auto

lemma holding_intact: "intact job (holding job s) = present (holding job s)"
  unfolding intact_def present_def by (rule filter_cong) auto

lemma length_filter_upt: "length (filter P [0..<n]) = card {i. i < n \<and> P i}"
proof -
  have "length (filter P [0..<n]) = card (set (filter P [0..<n]))" by (rule distinct_card [symmetric]) simp
  also have "set (filter P [0..<n]) = {i. i < n \<and> P i}" by auto
  finally show ?thesis .
qed

lemma holding_count: "s \<subseteq> slots job \<Longrightarrow> collected_count (holding job s) = card s"
proof -
  assume "s \<subseteq> slots job"
  then have "{i. i < job_k job + job_m job \<and> i \<in> s} = s" by (auto simp: slots_def)
  then show ?thesis by (simp add: collected_count_def holding_present length_filter_upt)
qed

lemma holding_no_collision: "no_collision W job (holding job s)"
  by (simp add: no_collision_def)

lemma holding_set: "i < job_k job + job_m job \<Longrightarrow> (holding job s)[i := Some (job_shards job ! i)] = holding job (insert i s)"
  by (rule list_eq_nthI) (auto simp: nth_list_update)

lemma local_holding:
  assumes "\<And>i sh. getShard (job_fileId job) i store = Some sh \<Longrightarrow> i \<in> slots job \<Longrightarrow> ss_data sh = job_shards job ! i"
  shows "local_shards (manifest_of W opts rnd now job) store
    = holding job {i \<in> slots job. getShard (job_fileId job) i store \<noteq> None}"
  by (rule list_eq_nthI) (use assms in \<open>auto simp: local_shards_def slots_def\<close>)

text \<open>A network that answers truthfully: the indices of \<open>av\<close> are served with their shards, the others time out.\<close>

definition serves :: "network \<Rightarrow> upload_job \<Rightarrow> nat set \<Rightarrow> bool" where
  "serves net job av \<longleftrightarrow> (\<forall>i < job_k job + job_m job.
    fetchOne net (job_fileId job) i = Some (if i \<in> av then Some (job_shards job ! i) else None))"

lemma fetch_all_holding:
  assumes "serves net job av" "set is \<subseteq> slots job"
  shows "fetch_all net (job_fileId job) is (holding job s) = Some (holding job (s \<union> (set is \<inter> av)))"
  using assms(2)
proof (induction "is" arbitrary: s)
  case (Cons i "is")
  then have i: "i < job_k job + job_m job" by (simp add: slots_def)
  then have f: "fetchOne net (job_fileId job) i = Some (if i \<in> av then Some (job_shards job ! i) else None)"
    using assms(1) by (simp add: serves_def)
  show ?case
  proof (cases "i \<in> av")
    case True
    have "insert i s \<union> (set is \<inter> av) = s \<union> (set (i # is) \<inter> av)" using True by auto
    with Cons.IH [of "insert i s"] Cons.prems f True i show ?thesis by (simp add: holding_set)
  next
    case False
    with Cons.IH [of s] Cons.prems f show ?thesis by simp
  qed
qed simp

definition wanted :: "upload_job \<Rightarrow> nat set \<Rightarrow> nat list" where
  "wanted job s = needed_indices (job_k job) (holding job s)"

definition wanted_again :: "upload_job \<Rightarrow> nat list \<Rightarrow> nat set \<Rightarrow> nat list" where
  "wanted_again job asked s = additional_indices (job_k job) asked (holding job s)"

lemma wanted_eq: "s \<subseteq> slots job \<Longrightarrow> wanted job s = take (job_k job - card s) (filter (\<lambda>i. i \<notin> s) [0..<job_k job + job_m job])"
  by (simp only: wanted_def needed_indices_def holding_missing holding_count)

lemma wanted_again_eq:
  assumes "s \<subseteq> slots job"
  shows "wanted_again job asked s = take (job_k job - card s) (filter (\<lambda>i. i \<notin> s \<and> i \<notin> set asked) [0..<job_k job + job_m job])"
proof -
  have "filter (\<lambda>i. holding job s ! i = None \<and> i \<notin> set asked) [0..<job_k job + job_m job]
      = filter (\<lambda>i. i \<notin> s \<and> i \<notin> set asked) [0..<job_k job + job_m job]"
    by (rule filter_cong) auto
  with assms show ?thesis by (simp add: wanted_again_def additional_indices_def holding_count)
qed

lemma set_take_filter: "set (take c (filter P [0..<n])) \<subseteq> {i. i < n \<and> P i}"
  by (auto dest: in_set_takeD)

text \<open>What a downloader holds after its rounds, and the result it then reports.\<close>

definition first_round :: "upload_job \<Rightarrow> nat set \<Rightarrow> nat set \<Rightarrow> nat set" where
  "first_round job av s = s \<union> (set (wanted job s) \<inter> av)"

definition second_round :: "upload_job \<Rightarrow> nat set \<Rightarrow> nat set \<Rightarrow> nat set" where
  "second_round job av s =
    (let t = first_round job av s in
     if card t < job_k job then t \<union> (set (wanted_again job (wanted job s) t) \<inter> av) else t)"

definition truthful :: "upload_job \<Rightarrow> drive_store \<Rightarrow> bool" where
  "truthful job store \<longleftrightarrow> (\<forall>i \<in> slots job. \<forall>sh. getShard (job_fileId job) i store = Some sh \<longrightarrow> ss_data sh = job_shards job ! i)"

definition held :: "upload_job \<Rightarrow> drive_store \<Rightarrow> nat set" where
  "held job store = {i \<in> slots job. getShard (job_fileId job) i store \<noteq> None}"

definition the_file :: "upload_options \<Rightarrow> downloaded" where
  "the_file opts = \<lparr>dl_bytes = uo_bytes opts, dl_name = uo_name opts, dl_contentType = uo_type opts\<rparr>"

definition too_few :: "upload_job \<Rightarrow> nat \<Rightarrow> downloaded result" where
  "too_few job n = throw (''download: only '' @ nat_str n @ ''/'' @ nat_str (job_k job) @ '' shards available'')"

lemma rounds_in_slots:
  assumes "s \<subseteq> slots job"
  shows "set (wanted job s) \<subseteq> slots job" "first_round job av s \<subseteq> slots job"
    "set (wanted_again job asked (first_round job av s)) \<subseteq> slots job" "second_round job av s \<subseteq> slots job"
proof -
  show w: "set (wanted job s) \<subseteq> slots job"
    unfolding wanted_eq [OF assms] using set_take_filter by (fastforce simp: slots_def)
  then show f: "first_round job av s \<subseteq> slots job" using assms by (auto simp: first_round_def)
  show a: "set (wanted_again job asked (first_round job av s)) \<subseteq> slots job" for asked
    unfolding wanted_again_eq [OF f] using set_take_filter by (fastforce simp: slots_def)
  show "second_round job av s \<subseteq> slots job" using f a by (auto simp: second_round_def Let_def)
qed

context web_crypto begin

lemma download_outcome:
  assumes job: "prepare_upload W opts rnd = ok job" and rnd: "good_random W rnd" and idt: "good_identity W (uo_identity opts)"
    and store: "truthful job store" and net: "serves net job av"
  shows "downloadFile W (uo_identity opts) net store (manifest_of W opts rnd now job) =
    Some (let n = card (second_round job av (held job store))
          in if job_k job \<le> n then ok (the_file opts) else too_few job n)"
proof -
  let ?m = "manifest_of W opts rnd now job" and ?s = "held job store"
  let ?t = "first_round job av ?s" and ?u = "second_round job av ?s"
  have s: "?s \<subseteq> slots job" by (auto simp: held_def)
  note sub = s rounds_in_slots [OF s]
  have fin: "finite (slots job)" by (simp add: slots_def)
  have loc: "local_shards ?m store = holding job ?s"
    unfolding held_def by (rule local_holding) (use store in \<open>auto simp: truthful_def\<close>)
  have whole: "finalize W (uo_identity opts) ?m (holding job v) = ok (the_file opts)" if "v \<subseteq> slots job" "job_k job \<le> card v" for v
    unfolding the_file_def using that
    by (intro finalize_intact [OF job rnd idt holding_no_collision])
       (simp add: holding_intact flip: collected_count_def, simp add: holding_count)
  have outcome: "finish_download W (uo_identity opts) ?m (holding job v)
      = (if job_k job \<le> card v then ok (the_file opts) else too_few job (card v))" if "v \<subseteq> slots job" for v
    using that whole [OF that] by (simp add: finish_download_def holding_count too_few_def not_less)
  have st: "card ?s \<le> card ?t" "card ?t \<le> card ?u"
    using sub fin by (auto intro!: card_mono simp: first_round_def second_round_def Let_def intro: finite_subset)
  show ?thesis
  proof (cases "job_k job \<le> card ?s")
    case True
    with st have "job_k job \<le> card ?u" by simp
    with True whole [OF s True] show ?thesis
      by (simp add: downloadFile_def manifest_verifies [OF idt] loc holding_count [OF s] Let_def)
  next
    case False
    have r1: "fetch_all net (job_fileId job) (wanted job ?s) (holding job ?s) = Some (holding job ?t)"
      unfolding first_round_def by (rule fetch_all_holding [OF net]) (rule sub)
    show ?thesis
    proof (cases "job_k job \<le> card ?t")
      case True
      then have "?u = ?t" by (simp add: second_round_def Let_def)
      with False True r1 outcome [OF sub(3)] show ?thesis
        by (simp add: downloadFile_def manifest_verifies [OF idt] loc holding_count [OF s] holding_count [OF sub(3)] Let_def flip: wanted_def)
    next
      case f: False
      have "?u = ?t \<union> (set (wanted_again job (wanted job ?s) ?t) \<inter> av)" using f by (simp add: second_round_def Let_def)
      then have r2: "fetch_all net (job_fileId job) (wanted_again job (wanted job ?s) ?t) (holding job ?t) = Some (holding job ?u)"
        by (simp only:) (rule fetch_all_holding [OF net], rule sub)
      with False f r1 outcome [OF sub(5)] show ?thesis
        by (simp add: downloadFile_def manifest_verifies [OF idt] loc holding_count [OF s] holding_count [OF sub(3)] Let_def
          flip: wanted_def wanted_again_def)
    qed
  qed
qed

lemma download_first_choice:
  assumes job: "prepare_upload W opts rnd = ok job" and rnd: "good_random W rnd" and idt: "good_identity W (uo_identity opts)"
    and store: "truthful job store" and net: "serves net job av" and avail: "set (wanted job (held job store)) \<subseteq> av"
  shows "downloadFile W (uo_identity opts) net store (manifest_of W opts rnd now job) = Some (ok (the_file opts))"
proof -
  let ?s = "held job store" and ?n = "job_k job + job_m job"
  have s: "?s \<subseteq> slots job" by (auto simp: held_def)
  have fin: "finite (slots job)" "finite ?s" using s by (auto simp: slots_def intro: finite_subset)
  have t: "first_round job av ?s = ?s \<union> set (wanted job ?s)" using avail by (auto simp: first_round_def)
  have "length (filter (\<lambda>i. i \<notin> ?s) [0..<?n]) = card (slots job - ?s)"
    by (simp add: length_filter_upt slots_def) (rule arg_cong [where f = card], auto)
  then have miss: "length (filter (\<lambda>i. i \<notin> ?s) [0..<?n]) = ?n - card ?s"
    using card_Diff_subset [OF fin(2) s] by (simp add: slots_def)
  have "card (set (wanted job ?s)) = length (wanted job ?s)"
    unfolding wanted_eq [OF s] by (rule distinct_card) simp
  also have "\<dots> = min (?n - card ?s) (job_k job - card ?s)" unfolding wanted_eq [OF s] by (simp only: length_take miss)
  also have "\<dots> = job_k job - card ?s" by (rule min_absorb2) simp
  finally have w: "card (set (wanted job ?s)) = job_k job - card ?s" .
  have "set (wanted job ?s) \<inter> ?s = {}" unfolding wanted_eq [OF s] by (auto dest: in_set_takeD)
  then have "card (first_round job av ?s) = card ?s + (job_k job - card ?s)"
    unfolding t using fin w by (subst card_Un_disjoint) auto
  then have "job_k job \<le> card (first_round job av ?s)" by simp
  moreover from this have "second_round job av ?s = first_round job av ?s" by (simp add: second_round_def Let_def)
  ultimately show ?thesis using download_outcome [OF job rnd idt store net, of now] by simp
qed

end

lemma held_empty: "held job empty_store = {}"
  by (simp add: held_def getShard_def empty_store_def)

lemma truthful_empty: "truthful job empty_store"
  by (simp add: truthful_def getShard_def empty_store_def)

lemma filter_upt_prefix: "(\<And>i. i < k \<Longrightarrow> P i) \<Longrightarrow> take k (filter P [0..<k + m]) = [0..<k]"
proof -
  assume "\<And>i. i < k \<Longrightarrow> P i"
  then have "filter P [0..<k] = [0..<k]" by (simp add: filter_id_conv)
  then show ?thesis by (simp add: upt_add_eq_append [OF le0])
qed

context web_crypto begin

lemma download_two_lost:
  assumes job: "prepare_upload W opts rnd = ok job" and rnd: "good_random W rnd" and idt: "good_identity W (uo_identity opts)"
    and net: "serves net job (slots job - {a, job_k job})" and a: "a < job_k job" and m: "2 \<le> job_m job"
  shows "downloadFile W (uo_identity opts) net empty_store (manifest_of W opts rnd now job)
    = Some (too_few job (job_k job - 1))"
proof -
  let ?k = "job_k job" and ?av = "slots job - {a, job_k job}"
  have w: "wanted job {} = [0..<?k]" by (subst wanted_eq) (simp_all add: filter_upt_prefix)
  have t: "first_round job ?av {} = {..<?k} - {a}" by (auto simp: first_round_def w slots_def)
  have ct: "card ({..<?k} - {a}) = ?k - 1" using a by simp
  have sub: "{..<?k} - {a} \<subseteq> slots job" by (auto simp: slots_def)
  have "filter (\<lambda>i. i \<notin> {..<?k} - {a} \<and> i \<notin> set [0..<?k]) [0..<?k] = []" by (simp add: filter_empty_conv)
  moreover have "filter (\<lambda>i. i \<notin> {..<?k} - {a} \<and> i \<notin> set [0..<?k]) [?k..<?k + job_m job] = [?k..<?k + job_m job]"
    by (simp add: filter_id_conv)
  ultimately have "filter (\<lambda>i. i \<notin> {..<?k} - {a} \<and> i \<notin> set [0..<?k]) [0..<?k + job_m job] = [?k..<?k + job_m job]"
    by (simp only: upt_add_eq_append [OF le0] filter_append append_Nil)
  then have "wanted_again job [0..<?k] ({..<?k} - {a}) = take (?k - (?k - 1)) [?k..<?k + job_m job]"
    using wanted_again_eq [OF sub, of "[0..<?k]"] ct by simp
  also have "\<dots> = [?k]" using a m by (simp add: upt_conv_Cons take_Cons')
  finally have "second_round job ?av {} = {..<?k} - {a}"
    unfolding second_round_def Let_def t w by auto
  then have n: "card (second_round job ?av {}) = ?k - 1" by (simp only: ct)
  have "\<not> ?k \<le> ?k - 1" using a by arith
  then show ?thesis
    using download_outcome [OF job rnd idt truthful_empty net, of now] by (simp only: held_empty Let_def n if_False)
qed

end

section \<open>A demo upload\<close>

definition demo_identity :: user_identity where
  "demo_identity = generateUserIdentity plain_crypto (replicate 32 1, replicate 32 1) (replicate 32 2, replicate 32 2)"

definition demo_upload :: upload_options where
  "demo_upload = \<lparr>uo_name = ''a.txt'', uo_type = None, uo_bytes = [104, 105], uo_identity = demo_identity,
    selfPeerId = ''me'', uo_peers = [''p'', ''q''], uo_k = Some 2, uo_m = Some 2\<rparr>"

definition demo_random :: upload_random where
  "demo_random = \<lparr>rnd_fileId = [1, 2, 3], rnd_fileKey = replicate 32 7, rnd_sealIv = replicate 12 8,
    rnd_ephemeral = (replicate 32 3, replicate 32 3), rnd_wrapIv = replicate 12 9, rnd_nonce = []\<rparr>"

lemma drive_demo_good: "good_random plain_crypto demo_random" "good_identity plain_crypto (uo_identity demo_upload)"
  by (simp_all add: good_random_def good_identity_def demo_random_def demo_upload_def demo_identity_def
    generateUserIdentity_def generateUserKeypair_def generateSignKeypair_def plain_crypto_def)

definition demo_job :: upload_job where
  "demo_job = (case prepare_upload plain_crypto demo_upload demo_random of Inr job \<Rightarrow> job)"

lemma prepare_ok:
  assumes "uo_k opts = Some k" "uo_m opts = Some m" "1 \<le> k" "1 \<le> m" "k + m \<le> 256"
  shows "\<exists>job. prepare_upload W opts rnd = ok job \<and> job_k job = k \<and> job_m job = m"
proof -
  let ?d = "sf_ciphertext (sealFile W (rnd_sealIv rnd) (rnd_fileKey rnd) (uo_bytes opts))"
  obtain rs where rs: "new_ReedSolomon \<lparr>cfg_k = k, cfg_m = m\<rparr> = ok rs"
    using assms(3-5) new_rs_ok [of k m] by (auto simp: valid_config_def)
  from encode_ok [OF rs splitIntoShards_even [OF assms(3)]]
  show ?thesis using assms(1,2) rs by (auto simp: prepare_upload_def Let_def case_prod_unfold)
qed

lemma demo_job: "prepare_upload plain_crypto demo_upload demo_random = ok demo_job" "job_k demo_job = 2" "job_m demo_job = 2"
  using prepare_ok [of demo_upload 2 2 plain_crypto demo_random] by (auto simp: demo_job_def demo_upload_def)

text \<open>Holders of the shards in \<open>av\<close> answer; for the others the timer runs out.\<close>

definition demo_net :: "nat list \<Rightarrow> network" where
  "demo_net av = \<lparr>dhtFetch = None, answers = (\<lambda>i. if i \<in> set av
     then [Answer (FetchResponse (job_fileId demo_job) i None None),
           Answer (FetchResponse (job_fileId demo_job) i (Some (bytesToB64 (job_shards demo_job ! i))) None)]
     else [FetchTimeout])\<rparr>"

context web_crypto begin

lemma shards_nonempty:
  assumes job: "prepare_upload W opts rnd = ok job" and i: "i < job_k job + job_m job"
  shows "job_shards job ! i \<noteq> []"
proof -
  obtain rs data parity where cs: "code_shards job rs data parity" using prepared(1) [OF job] by blast
  let ?L = "shard_len (sf_ciphertext (job_sealed job)) (job_k job)"
  have eq: "equal_shards (job_k job) ?L data" and rs: "new_ReedSolomon \<lparr>cfg_k = job_k job, cfg_m = job_m job\<rparr> = ok rs"
    and enc: "encode rs data = ok parity" and sh: "job_shards job = data @ parity"
    using cs by (simp_all add: code_shards_def)
  have par: "parity = map (\<lambda>i. map (\<lambda>p. gbyte (code_byte (job_k job) data (job_k job + i) p)) [0..<?L]) [0..<job_m job]"
    using encode_ok [OF rs eq] enc by simp
  have len: "length ((data @ parity) ! i) = ?L" using eq i by (auto simp: equal_shards_def nth_append par)
  have "16 \<le> length (sf_ciphertext (job_sealed job))"
    using prepared(2) [OF job] by (simp add: sealFile_def length_encrypt)
  then have "job_k job \<le> length (sf_ciphertext (job_sealed job)) + job_k job - 1" by simp
  then have "1 \<le> ?L" using prepared(7) [OF job] by (metis div_le_mono div_self not_one_le_zero)
  with len sh show ?thesis by auto
qed

end

lemma demo_serves: "serves (demo_net av) demo_job (set av)"
proof -
  have "bytesToB64 (job_shards demo_job ! i) \<noteq> []" if "i < job_k demo_job + job_m demo_job" for i
    using plain.shards_nonempty [OF demo_job(1) that] by (rule btoa_nonempty)
  then show ?thesis by (simp add: serves_def fetchOne_def demo_net_def)
qed

lemma serves_cong: "serves net job av \<Longrightarrow> av \<inter> slots job = bv \<inter> slots job \<Longrightarrow> serves net job bv"
  by (auto simp: serves_def slots_def set_eq_iff)

section \<open>Properties of the download\<close>

text \<open>
  C1. The drive gives back what was put in: from the manifest of an upload and any collection of shards in which at
  least \<open>k\<close> slots hold their shard, the uploader recovers the file byte for byte with its name and type, whichever shards are
  missing and whatever was put in place of the others, as long as nothing collected
  collides under SHA-256 with the shard it replaces; and the manifest verifies.
\<close>

theorem drive_roundtrip:
  assumes "web_crypto W" and "prepare_upload W opts rnd = ok job" and "good_random W rnd" and "good_identity W (uo_identity opts)"
    and "no_collision W job collected" and "job_k job \<le> length (intact job collected)"
  shows "finalize W (uo_identity opts) (manifest_of W opts rnd now job) collected
      = ok \<lparr>dl_bytes = uo_bytes opts, dl_name = uo_name opts, dl_contentType = uo_type opts\<rparr>
    \<and> verifyManifest W (manifest_of W opts rnd now job)"
  using web_crypto.finalize_intact [OF assms] web_crypto.manifest_verifies [OF assms(1,4)] by blast

lemma drive_roundtrip_witness:
  "finalize plain_crypto demo_identity (manifest_of plain_crypto demo_upload demo_random 5 demo_job) (holding demo_job {1, 3})
    = ok \<lparr>dl_bytes = [104, 105], dl_name = ''a.txt'', dl_contentType = None\<rparr>"
proof -
  have "job_k demo_job \<le> length (intact demo_job (holding demo_job {1, 3}))"
    by (simp add: holding_intact holding_present demo_job upt_rec)
  with drive_roundtrip [OF plain.web_crypto_axioms demo_job(1) drive_demo_good holding_no_collision, of "{1, 3}" 5]
  show ?thesis by (simp add: demo_upload_def)
qed

text \<open>
  A download succeeds when the shards it asks for first are held: the peer's own shards are used, and when each of the
  lowest missing indices that make up \<open>k\<close> is served by some peer, the uploader's download returns the file.
\<close>

theorem download_succeeds:
  assumes "web_crypto W" and "prepare_upload W opts rnd = ok job" and "good_random W rnd" and "good_identity W (uo_identity opts)"
    and "truthful job store" and "serves net job av"
    and "set (needed_indices (job_k job) (holding job (held job store))) \<subseteq> av"
  shows "downloadFile W (uo_identity opts) net store (manifest_of W opts rnd now job)
    = Some (ok \<lparr>dl_bytes = uo_bytes opts, dl_name = uo_name opts, dl_contentType = uo_type opts\<rparr>)"
  using web_crypto.download_first_choice [OF assms(1-6)] assms(7) by (simp add: wanted_def the_file_def)

lemma download_succeeds_witness:
  "downloadFile plain_crypto demo_identity (demo_net [0, 1]) empty_store (manifest_of plain_crypto demo_upload demo_random 5 demo_job)
    = Some (ok \<lparr>dl_bytes = [104, 105], dl_name = ''a.txt'', dl_contentType = None\<rparr>)"
proof -
  have "set (needed_indices (job_k demo_job) (holding demo_job (held demo_job empty_store))) \<subseteq> set [0, 1]"
    unfolding held_empty wanted_def [symmetric] by (subst wanted_eq) (simp_all add: demo_job upt_rec)
  from download_succeeds [OF plain.web_crypto_axioms demo_job(1) drive_demo_good truthful_empty demo_serves this, of 5]
  show ?thesis by (simp add: demo_upload_def)
qed

text \<open>
  C38. The download gives up although the file could be recovered: with two or more parity shards, when one data
  shard and the first parity shard are lost and every other shard is held, fetching ends with
  an error that one shard too few is available. The second round asks for only as many further
  shards as are missing, and never for the rest.
\<close>

theorem download_gives_up_early:
  assumes "web_crypto W" and "prepare_upload W opts rnd = ok job" and "good_random W rnd" and "good_identity W (uo_identity opts)"
    and "serves net job (slots job - {a, job_k job})" and "a < job_k job" and "2 \<le> job_m job"
  shows "downloadFile W (uo_identity opts) net empty_store (manifest_of W opts rnd now job)
      = Some (throw (''download: only '' @ nat_str (job_k job - 1) @ ''/'' @ nat_str (job_k job) @ '' shards available''))
    \<and> finalize W (uo_identity opts) (manifest_of W opts rnd now job) (holding job (slots job - {a, job_k job}))
      = ok \<lparr>dl_bytes = uo_bytes opts, dl_name = uo_name opts, dl_contentType = uo_type opts\<rparr>"
proof
  show "downloadFile W (uo_identity opts) net empty_store (manifest_of W opts rnd now job)
      = Some (throw (''download: only '' @ nat_str (job_k job - 1) @ ''/'' @ nat_str (job_k job) @ '' shards available''))"
    using web_crypto.download_two_lost [OF assms] by (simp add: too_few_def)
  have "card {a, job_k job} = 2" "{a, job_k job} \<subseteq> slots job" using assms(6,7) by (auto simp: slots_def)
  then have "card (slots job - {a, job_k job}) = job_k job + job_m job - 2"
    by (subst card_Diff_subset) (simp_all add: slots_def)
  then have "job_k job \<le> length (intact job (holding job (slots job - {a, job_k job})))"
    using assms(7) holding_count [of "slots job - {a, job_k job}" job] by (simp add: holding_intact collected_count_def)
  then show "finalize W (uo_identity opts) (manifest_of W opts rnd now job) (holding job (slots job - {a, job_k job}))
      = ok \<lparr>dl_bytes = uo_bytes opts, dl_name = uo_name opts, dl_contentType = uo_type opts\<rparr>"
    by (rule web_crypto.finalize_intact [OF assms(1-4) holding_no_collision])
qed

lemma download_gives_up_early_witness:
  "downloadFile plain_crypto demo_identity (demo_net [1, 3]) empty_store (manifest_of plain_crypto demo_upload demo_random 5 demo_job)
    = Some (throw (''download: only '' @ nat_str 1 @ ''/'' @ nat_str 2 @ '' shards available''))"
proof -
  have "serves (demo_net [1, 3]) demo_job (slots demo_job - {0, job_k demo_job})"
    by (rule serves_cong [OF demo_serves]) (auto simp: slots_def demo_job)
  from download_gives_up_early [OF plain.web_crypto_axioms demo_job(1) drive_demo_good this, of 5]
  show ?thesis by (simp add: demo_upload_def demo_job)
qed

text \<open>
  A peer that keeps damaged shards cannot download: when its own store fills \<open>k\<close> or more slots but fewer than \<open>k\<close> of them
  intact, the download fails with the error of the erasure code without asking any other peer, whatever the
  others hold; the damaged shards are dropped and never replaced.
\<close>

theorem damaged_store_blocks_download:
  assumes W: "web_crypto W" and job: "prepare_upload W opts rnd = ok job" and idt: "good_identity W (uo_identity opts)"
    and nc: "no_collision W job (local_shards (manifest_of W opts rnd now job) store)"
    and filled: "job_k job \<le> collected_count (local_shards (manifest_of W opts rnd now job) store)"
    and damaged: "length (intact job (local_shards (manifest_of W opts rnd now job) store)) < job_k job"
  shows "downloadFile W (uo_identity opts) net store (manifest_of W opts rnd now job)
    = Some (throw (''reconstruct: need '' @ nat_str (job_k job) @ '' shards, have ''
        @ nat_str (length (intact job (local_shards (manifest_of W opts rnd now job) store)))))"
proof -
  let ?m = "manifest_of W opts rnd now job" and ?l = "local_shards (manifest_of W opts rnd now job) store"
  let ?c = "drop_tampered W ?m ?l" and ?L = "shard_len (sf_ciphertext (job_sealed job)) (job_k job)"
  obtain rs data parity where cs: "code_shards job rs data parity" using prepared(1) [OF job] by blast
  then have rs: "new_ReedSolomon \<lparr>cfg_k = job_k job, cfg_m = job_m job\<rparr> = ok rs" by (simp add: code_shards_def)
  have len: "length ?c = job_k job + job_m job" using nc by (simp add: no_collision_def)
  have par: "length (job_shards job ! i) = ?L" if "i < job_k job + job_m job" for i
    using cs encode_ok [OF rs, of ?L data] that by (auto simp: code_shards_def equal_shards_def nth_append)
  have "\<forall>s. Some s \<in> set ?c \<longrightarrow> length s = ?L"
  proof (intro allI impI)
    fix s assume "Some s \<in> set ?c"
    then obtain i where i: "i < length ?c" "?c ! i = Some s" by (auto simp: in_set_conv_nth)
    then have "s = job_shards job ! i" using drop_tampered_nth [OF job nc, of i opts rnd now] by (auto split: if_splits)
    with i len par show "length s = ?L" by simp
  qed
  moreover have "valid_km (job_k job) (job_m job)" using rs by (simp add: new_ReedSolomon_ok_iff)
  ultimately have "rs_reconstruct (job_k job) (job_m job) ?c
    = throw (''reconstruct: need '' @ nat_str (job_k job) @ '' shards, have '' @ nat_str (length (present ?c)))"
    using too_few_shards [of "job_k job" "job_m job" ?c ?L] len damaged by (simp add: present_checked [OF job nc])
  then have "reconstruct rs ?c = throw (''reconstruct: need '' @ nat_str (job_k job) @ '' shards, have '' @ nat_str (length (intact job ?l)))"
    by (simp add: rs_reconstruct_def rs present_checked [OF job nc])
  then have "finalize W (uo_identity opts) ?m ?l
    = throw (''reconstruct: need '' @ nat_str (job_k job) @ '' shards, have '' @ nat_str (length (intact job ?l)))"
    by (simp add: finalize_def Let_def rs)
  with filled show ?thesis
    by (simp add: downloadFile_def web_crypto.manifest_verifies [OF W idt] Let_def)
qed

lemma shard_length:
  assumes job: "prepare_upload W opts rnd = ok job" and i: "i < job_k job + job_m job"
  shows "length (job_shards job ! i) = shard_len (sf_ciphertext (job_sealed job)) (job_k job)"
proof -
  obtain rs data parity where cs: "code_shards job rs data parity" using prepared(1) [OF job] by blast
  then have rs: "new_ReedSolomon \<lparr>cfg_k = job_k job, cfg_m = job_m job\<rparr> = ok rs" by (simp add: code_shards_def)
  show ?thesis using cs encode_ok [OF rs, of "shard_len (sf_ciphertext (job_sealed job)) (job_k job)" data] i
    by (auto simp: code_shards_def equal_shards_def nth_append)
qed

definition demo_damaged :: drive_store where
  "demo_damaged = putShard \<lparr>ss_fileId = job_fileId demo_job, ss_index = 0, ss_data = replicate 32 1, ss_hashB64 = [], receivedAt = 0\<rparr>
    (putShard \<lparr>ss_fileId = job_fileId demo_job, ss_index = 1, ss_data = job_shards demo_job ! 1, ss_hashB64 = [], receivedAt = 0\<rparr>
      empty_store)"

lemma demo_damaged_local:
  "local_shards (manifest_of plain_crypto demo_upload demo_random 5 demo_job) demo_damaged
    = [Some (replicate 32 1), Some (job_shards demo_job ! 1), None, None]"
proof -
  have "getShard f i empty_store = None" for f i by (simp add: getShard_def empty_store_def)
  then show ?thesis by (simp add: local_shards_def demo_damaged_def getShard_put demo_job upt_rec)
qed

lemma demo_sha: "sha_256 plain_crypto (replicate 32 1) \<noteq> sha_256 plain_crypto (job_shards demo_job ! 0)"
proof
  assume eq: "sha_256 plain_crypto (replicate 32 1) = sha_256 plain_crypto (job_shards demo_job ! 0)"
  have "length (sf_ciphertext (job_sealed demo_job)) = 18"
    using prepared(2) [OF demo_job(1)] by (simp add: sealFile_def plain_crypto_def demo_upload_def)
  then have "length (job_shards demo_job ! 0) = 9" using shard_length [OF demo_job(1), of 0] by (simp add: demo_job)
  then have "first32 (job_shards demo_job ! 0) ! 31 = 0" by (simp add: first32_def nth_append)
  moreover have "first32 (replicate 32 1) ! 31 = 1" by (simp add: first32_def nth_append)
  ultimately show False using eq by (simp add: plain_crypto_def)
qed

lemma damaged_store_blocks_download_witness:
  "downloadFile plain_crypto demo_identity (demo_net [0, 1, 2, 3]) demo_damaged
      (manifest_of plain_crypto demo_upload demo_random 5 demo_job)
    = Some (throw (''reconstruct: need '' @ nat_str 2 @ '' shards, have '' @ nat_str 1))"
proof -
  let ?l = "local_shards (manifest_of plain_crypto demo_upload demo_random 5 demo_job) demo_damaged"
  have idx: "i = 0 \<or> i = 1 \<or> i = 2 \<or> i = 3" if "i < 4" for i :: nat using that by auto
  have nc: "no_collision plain_crypto demo_job ?l"
    unfolding no_collision_def demo_damaged_local
  proof (intro conjI allI impI)
    fix i d assume "i < length [Some (replicate 32 1), Some (job_shards demo_job ! 1), None, None :: bytes option]"
    then have "i = 0 \<or> i = 1 \<or> i = 2 \<or> i = 3" by (intro idx) simp
    moreover assume "[Some (replicate 32 1), Some (job_shards demo_job ! 1), None, None] ! i = Some d"
      "sha_256 plain_crypto d = sha_256 plain_crypto (job_shards demo_job ! i)"
    ultimately show "d = job_shards demo_job ! i" using demo_sha by auto
  qed (simp add: demo_job)
  have "replicate 32 1 \<noteq> job_shards demo_job ! 0" using demo_sha by metis
  then have int: "intact demo_job ?l = [1]"
    unfolding intact_def demo_damaged_local by (simp add: upt_rec)
  have cnt: "collected_count ?l = 2" unfolding collected_count_def demo_damaged_local by (simp add: present_def upt_rec)
  from damaged_store_blocks_download [OF plain.web_crypto_axioms demo_job(1) drive_demo_good(2) nc, of "demo_net [0, 1, 2, 3]"]
  show ?thesis by (simp only: int cnt demo_job) (simp add: demo_upload_def)
qed

section \<open>Fetching one shard\<close>

text \<open>
  One malformed answer stops a download for ever: when the first answer with data for a requested shard is not
  base64, the download neither returns nor fails, even if the timer of the fetch runs out afterwards
  and other peers send the shard.
\<close>

theorem malformed_answer_hangs:
  assumes verified: "verifyManifest W manifest"
    and short: "collected_count (local_shards manifest store) < mf_k manifest"
    and asked: "i \<in> set (needed_indices (mf_k manifest) (local_shards manifest store))"
    and nodht: "dhtFetch net = None"
    and answer: "answers net i = Answer (FetchResponse (fileId manifest) i (Some junk) reason) # later"
    and junk: "junk \<noteq> []" "b64ToBytes junk = throw e"
  shows "downloadFile W identity net store manifest = None"
proof -
  have "fetchOne net (fileId manifest) i = None" using nodht answer junk by (simp add: fetchOne_def)
  then have "fetch_all net (fileId manifest) is c = None" if "i \<in> set is" for "is" c
    using that by (induction "is" arbitrary: c) (auto split: option.splits)
  with verified short asked show ?thesis by (simp add: downloadFile_def Let_def)
qed

definition demo_junk_net :: network where
  "demo_junk_net = \<lparr>dhtFetch = None, answers = (\<lambda>i. [Answer (FetchResponse (job_fileId demo_job) i (Some ''?'') None), FetchTimeout])\<rparr>"

lemma malformed_answer_hangs_witness:
  "downloadFile plain_crypto demo_identity demo_junk_net empty_store (manifest_of plain_crypto demo_upload demo_random 5 demo_job) = None"
proof (rule malformed_answer_hangs [where i = 0 and junk = "''?''" and later = "[FetchTimeout]" and e = "''InvalidCharacterError''"])
  let ?m = "manifest_of plain_crypto demo_upload demo_random 5 demo_job"
  have l: "local_shards ?m empty_store = holding demo_job {}"
    by (rule list_eq_nthI) (simp_all add: local_shards_def getShard_def empty_store_def)
  show "verifyManifest plain_crypto ?m" by (rule plain.manifest_verifies [OF drive_demo_good(2)])
  show "collected_count (local_shards ?m empty_store) < mf_k ?m" by (simp add: l holding_count demo_job)
  show "0 \<in> set (needed_indices (mf_k ?m) (local_shards ?m empty_store))"
    using wanted_eq [of "{}" demo_job] by (simp add: l wanted_def demo_job upt_rec)
  show "b64ToBytes ''?'' = throw ''InvalidCharacterError''" by code_simp
qed (simp_all add: demo_junk_net_def)

section \<open>The holder\<close>

definition holder_step :: "web_crypto \<Rightarrow> nat \<times> string \<times> drive_msg \<Rightarrow> drive_store \<Rightarrow> drive_store" where
  "holder_step W e st = (case e of (now, from, msg) \<Rightarrow> hr_store (bindHolder W now from msg st))"

lemma adopt_keeps_shards: "getShard f i (hr_store (fold (adopt_manifest W) ms r)) = getShard f i (hr_store r)"
  by (induction ms arbitrary: r) (simp_all add: adopt_manifest_def)

lemma holder_keeps_shard:
  assumes "\<And>b. msg \<noteq> StoreShard f i b"
  shows "getShard f i (hr_store (bindHolder W now from msg st)) = getShard f i st"
  using assms adopt_keeps_shards [of f i W _ "holder_idle st"]
  by (cases msg) (auto simp: bindHolder_def holder_idle_def adopt_manifest_def getShard_put Let_def split: sum.split)

lemma holder_steps_keep:
  "(\<And>e b. e \<in> set es \<Longrightarrow> snd (snd e) \<noteq> StoreShard f i b) \<Longrightarrow> getShard f i (fold (holder_step W) es st) = getShard f i st"
proof (induction es arbitrary: st)
  case (Cons e es)
  obtain now src msg where e: "e = (now, src, msg)" by (cases e)
  have "getShard f i (holder_step W e st) = getShard f i st"
    unfolding e holder_step_def prod.case by (rule holder_keeps_shard) (use Cons.prems [of e] e in simp)
  moreover have "getShard f i (fold (holder_step W) es (holder_step W e st)) = getShard f i (holder_step W e st)"
    by (rule Cons.IH) (use Cons.prems in simp)
  ultimately show ?case by simp
qed simp

text \<open>An answer without the data of the shard, which a downloader ignores.\<close>

definition no_data :: "string \<Rightarrow> nat \<Rightarrow> drive_msg \<Rightarrow> bool" where
  "no_data f i msg = (case msg of FetchResponse g j (Some b64) reason \<Rightarrow> g \<noteq> f \<or> j \<noteq> i \<or> b64 = [] | _ \<Rightarrow> True)"

lemma fetch_skips: "list_all (no_data f i) ms \<Longrightarrow> fetchShard f i (map Answer ms @ es) = fetchShard f i es"
  by (induction ms) (auto simp: no_data_def split: drive_msg.splits option.splits)

text \<open>
  A stored shard is served: after a holder acknowledged a shard, and after any further messages other than
  new bytes for the same slot, its answer to a fetch carries the stored bytes, and a downloader that
  meets this answer before its timer gets exactly those bytes, whatever empty answers other peers sent before.
\<close>

theorem stored_shard_is_served:
  assumes "d \<noteq> []" and "list_all (\<lambda>e. \<forall>b. snd (snd e) \<noteq> StoreShard f i b) es" and "list_all (no_data f i) misses"
    and "r = bindHolder W now uploader (StoreShard f i (bytesToB64 d)) st"
  shows "hr_replies r = [(uploader, StoreAck f i True None)]
    \<and> hr_replies (bindHolder W now' downloader (Fetch f i) (fold (holder_step W) es (hr_store r)))
      = [(downloader, FetchResponse f i (Some (bytesToB64 d)) None)]
    \<and> fetchShard f i (map Answer misses @ Answer (FetchResponse f i (Some (bytesToB64 d)) None) # later) = Some (Some d)"
proof -
  have r: "hr_replies r = [(uploader, StoreAck f i True None)]" "map_option ss_data (getShard f i (hr_store r)) = Some d"
    by (simp_all add: assms(4) bindHolder_def holder_idle_def getShard_put Let_def)
  have "getShard f i (fold (holder_step W) es (hr_store r)) = getShard f i (hr_store r)"
    by (rule holder_steps_keep) (use assms(2) in \<open>auto simp: list_all_iff\<close>)
  then have "map_option (\<lambda>s. bytesToB64 (ss_data s)) (getShard f i (fold (holder_step W) es (hr_store r))) = Some (bytesToB64 d)"
    using r(2) by auto
  with r(1) show ?thesis
    using fetch_skips [OF assms(3)] btoa_nonempty [OF assms(1)] by (simp add: bindHolder_def holder_idle_def Let_def)
qed

lemma stored_shard_is_served_witness:
  "fetchShard ''f'' 0 (map Answer [FetchResponse ''f'' 0 None None, FetchResponse ''f'' 1 (Some ''AA=='') None]
     @ [Answer (FetchResponse ''f'' 0 (Some (bytesToB64 [4, 5])) None)]) = Some (Some [4, 5])
   \<and> hr_replies (bindHolder plain_crypto 9 ''d'' (Fetch ''f'' 0)
      (fold (holder_step plain_crypto) [(6, ''x'', StoreShard ''f'' 1 ''AA=='')]
        (hr_store (bindHolder plain_crypto 5 ''u'' (StoreShard ''f'' 0 (bytesToB64 [4, 5])) empty_store))))
    = [(''d'', FetchResponse ''f'' 0 (Some (bytesToB64 [4, 5])) None)]"
proof -
  have "[4, 5 :: byte] \<noteq> []" by simp
  moreover have "list_all (\<lambda>e. \<forall>b. snd (snd e) \<noteq> StoreShard ''f'' 0 b) [(6 :: nat, ''x'', StoreShard ''f'' 1 ''AA=='')]" by simp
  moreover have "list_all (no_data ''f'' 0) [FetchResponse ''f'' 0 None None, FetchResponse ''f'' 1 (Some ''AA=='') None]"
    by (simp add: no_data_def)
  ultimately show ?thesis
    using stored_shard_is_served [OF _ _ _ refl, of "[4, 5]" "''f''" 0 "[(6, ''x'', StoreShard ''f'' 1 ''AA=='')]"
      "[FetchResponse ''f'' 0 None None, FetchResponse ''f'' 1 (Some ''AA=='') None]" plain_crypto 5 "''u''" empty_store 9 "''d''" "[]"]
    by blast
qed

section \<open>Uploads settle\<close>

definition up_ok :: "upload \<Rightarrow> bool" where
  "up_ok u \<longleftrightarrow> up_stored u = length (filter (\<lambda>t. t = Fulfilled) (up_tasks u)) \<and> distinct (up_published u) \<and>
    set (up_published u) = {i. i < length (up_tasks u) \<and> up_tasks u ! i = Fulfilled}"

lemma length_fulfil:
  "i < length ts \<Longrightarrow> ts ! i \<noteq> Fulfilled \<Longrightarrow>
    length (filter (\<lambda>t. t = Fulfilled) (ts[i := Fulfilled])) = Suc (length (filter (\<lambda>t. t = Fulfilled) ts))"
proof (induction ts arbitrary: i)
  case (Cons t ts)
  then show ?case by (cases i) auto
qed simp

lemma length_unfulfil:
  "i < length ts \<Longrightarrow> ts ! i \<noteq> Fulfilled \<Longrightarrow> t \<noteq> Fulfilled \<Longrightarrow>
    length (filter (\<lambda>t. t = Fulfilled) (ts[i := t])) = length (filter (\<lambda>t. t = Fulfilled) ts)"
proof (induction ts arbitrary: i)
  case (Cons t ts)
  then show ?case by (cases i) auto
qed simp

text \<open>A task that waits may be fulfilled once, or move on without being fulfilled.\<close>

lemma up_ok_fulfil:
  assumes "up_ok u" "i < length (up_tasks u)" "up_tasks u ! i \<noteq> Fulfilled"
    and "up_tasks v = (up_tasks u)[i := Fulfilled]" "up_stored v = up_stored u + 1" "up_published v = up_published u @ [i]"
  shows "up_ok v"
proof -
  have "{j. j < length (up_tasks v) \<and> up_tasks v ! j = Fulfilled} = insert i {j. j < length (up_tasks u) \<and> up_tasks u ! j = Fulfilled}"
    using assms(2,3,4) by (auto simp: nth_list_update)
  with assms show ?thesis by (auto simp: up_ok_def length_fulfil)
qed

lemma up_ok_move:
  assumes "up_ok u" "i < length (up_tasks u)" "up_tasks u ! i \<noteq> Fulfilled" "t \<noteq> Fulfilled"
    and "up_tasks v = (up_tasks u)[i := t]" "up_stored v = up_stored u" "up_published v = up_published u"
  shows "up_ok v"
proof -
  have "{j. j < length (up_tasks v) \<and> up_tasks v ! j = Fulfilled} = {j. j < length (up_tasks u) \<and> up_tasks u ! j = Fulfilled}"
    using assms(2-5) by (auto simp: nth_list_update)
  with assms show ?thesis by (auto simp: up_ok_def length_unfulfil)
qed

lemma up_ok_receive: "up_ok u \<Longrightarrow> i < length (up_tasks u) \<Longrightarrow> up_ok (task_receive from msg i u)"
  by (auto simp: task_receive_def on_offer_ack_def on_store_ack_def split: task_state.split drive_msg.split
    intro: up_ok_fulfil up_ok_move)

lemma receive_length [simp]: "length (up_tasks (task_receive from msg i u)) = length (up_tasks u)"
  by (auto simp: task_receive_def on_offer_ack_def on_store_ack_def split: task_state.split drive_msg.split)

lemma up_ok_receive_all:
  "up_ok u \<Longrightarrow> \<forall>i \<in> set is. i < length (up_tasks u) \<Longrightarrow> up_ok (fold (task_receive from msg) is u)"
  by (induction "is" arbitrary: u) (simp_all add: up_ok_receive)

lemma up_ok_timeout: "up_ok u \<Longrightarrow> i < length (up_tasks u) \<Longrightarrow> up_ok (task_timeout i u)"
  by (auto simp: task_timeout_def split: task_state.split intro: up_ok_move)

interpretation uploads: event_machine up_act up_ok
  by unfold_locales (auto simp: up_act_def up_ok_receive_all up_ok_timeout split: up_event.split)

lemma start_ok:
  "up_ok u \<Longrightarrow> distinct is \<Longrightarrow> \<forall>i \<in> set is. i < length (up_tasks u) \<and> up_tasks u ! i \<noteq> Fulfilled
    \<Longrightarrow> up_ok (fst (fold (start_task now) is (u, st))) \<and> length (up_tasks (fst (fold (start_task now) is (u, st)))) = length (up_tasks u)"
proof (induction "is" arbitrary: u st)
  case (Cons i "is")
  obtain v st' where v: "start_task now i (u, st) = (v, st')" by (cases "start_task now i (u, st)")
  then have "up_tasks v = (up_tasks u)[i := Fulfilled] \<or> up_tasks v = (up_tasks u)[i := AwaitOffer]"
    by (auto simp: start_task_def Let_def split: if_splits)
  moreover have "up_ok v"
    using v Cons.prems by (auto simp: start_task_def Let_def split: if_splits intro: up_ok_fulfil up_ok_move)
  moreover from calculation have "length (up_tasks v) = length (up_tasks u)"
    and "\<forall>j \<in> set is. j < length (up_tasks v) \<and> up_tasks v ! j \<noteq> Fulfilled"
    using Cons.prems by (auto simp: nth_list_update split: if_splits)
  ultimately show ?case using Cons.IH [of v st'] Cons.prems(2) v by simp
qed simp

lemma begin_ok:
  "up_ok (fst (begin_upload opts now job st))" "length (up_tasks (fst (begin_upload opts now job st))) = job_k job + job_m job"
proof -
  let ?u = "\<lparr>up_job = job, up_self = selfPeerId opts, up_holders = allocateShards (job_k job + job_m job) (selfPeerId opts # uo_peers opts),
              up_tasks = replicate (job_k job + job_m job) AwaitOffer, up_accepted = 0, up_stored = 0, up_out = [], up_published = []\<rparr>"
  have "up_ok ?u" by (simp add: up_ok_def)
  then have "up_ok (fst (fold (start_task now) [0..<job_k job + job_m job] (?u, st))) \<and>
      length (up_tasks (fst (fold (start_task now) [0..<job_k job + job_m job] (?u, st)))) = length (up_tasks ?u)"
    by (rule start_ok) simp_all
  then show "up_ok (fst (begin_upload opts now job st))" "length (up_tasks (fst (begin_upload opts now job st))) = job_k job + job_m job"
    by (simp_all add: begin_upload_def Let_def)
qed

lemma receive_other: "j \<noteq> i \<Longrightarrow> up_tasks (task_receive from msg i u) ! j = up_tasks u ! j"
  by (auto simp: task_receive_def on_offer_ack_def on_store_ack_def split: task_state.split drive_msg.split)

lemma receive_settled: "settled (up_tasks u ! j) \<Longrightarrow> settled (up_tasks (task_receive from msg i u) ! j)"
proof (cases "j = i")
  case True
  assume "settled (up_tasks u ! j)"
  with True show ?thesis by (cases "up_tasks u ! i") (auto simp: task_receive_def split: drive_msg.split)
qed (simp add: receive_other)

lemma receive_all_settled: "settled (up_tasks u ! j) \<Longrightarrow> settled (up_tasks (fold (task_receive from msg) is u) ! j)"
  by (induction "is" arbitrary: u) (simp_all add: receive_settled)

lemma timeout_settled:
  "settled (up_tasks u ! j) \<Longrightarrow> settled (up_tasks (task_timeout i u) ! j)"
  "i < length (up_tasks u) \<Longrightarrow> settled (up_tasks (task_timeout i u) ! i)"
  by (cases "j = i"; auto simp: task_timeout_def split: task_state.split)
     (auto simp: task_timeout_def split: task_state.split)

lemma receive_all_length [simp]: "length (up_tasks (fold (task_receive from msg) is u)) = length (up_tasks u)"
  by (induction "is" arbitrary: u) simp_all

lemma act_length [simp]: "length (up_tasks (up_act e u)) = length (up_tasks u)"
  by (auto simp: up_act_def task_timeout_def split: up_event.split task_state.split)

lemma act_settled: "settled (up_tasks u ! j) \<Longrightarrow> settled (up_tasks (up_act e u) ! j)"
  by (auto simp: up_act_def receive_all_settled timeout_settled split: up_event.split)

lemma acts_settled: "settled (up_tasks u ! j) \<Longrightarrow> settled (up_tasks (fold up_act es u) ! j)"
  by (induction es arbitrary: u) (simp_all add: act_settled)

lemma acts_length [simp]: "length (up_tasks (fold up_act es u)) = length (up_tasks u)"
  by (induction es arbitrary: u) simp_all

lemma timer_settles: "Timer j \<in> set es \<Longrightarrow> j < length (up_tasks u) \<Longrightarrow> settled (up_tasks (fold up_act es u) ! j)"
proof (induction es arbitrary: u)
  case (Cons e es)
  show ?case
  proof (cases "e = Timer j")
    case True
    have "settled (up_tasks (up_act e u) ! j)" using True Cons.prems(2) by (simp add: up_act_def timeout_settled)
    then show ?thesis by (simp add: acts_settled)
  next
    case False
    with Cons show ?thesis by simp
  qed
qed simp

lemma receive_job [simp]: "up_job (task_receive from msg i u) = up_job u"
  by (auto simp: task_receive_def on_offer_ack_def on_store_ack_def split: task_state.split drive_msg.split)

lemma acts_job [simp]: "up_job (fold up_act es u) = up_job u"
proof (induction es arbitrary: u)
  case (Cons e es)
  have "up_job (fold (task_receive from msg) is v) = up_job v" for "from" msg "is" v by (induction "is" arbitrary: v) simp_all
  with Cons show ?case by (auto simp: up_act_def task_timeout_def split: up_event.split task_state.split)
qed simp

lemma start_job: "up_job (fst (fold (start_task now) is (u, st))) = up_job u"
proof (induction "is" arbitrary: u st)
  case (Cons i "is")
  obtain v st' where v: "start_task now i (u, st) = (v, st')" by (cases "start_task now i (u, st)")
  then have "up_job v = up_job u" by (auto simp: start_task_def Let_def split: if_splits)
  with v Cons show ?case by simp
qed simp

lemma begin_job [simp]: "up_job (fst (begin_upload opts now job st)) = job"
  by (simp add: begin_upload_def Let_def start_job)

section \<open>Who took a shard\<close>

text \<open>What ends the wait of the task of shard \<open>i\<close> of file \<open>f\<close> with holder \<open>h\<close>: its timer, or the holder's answer.\<close>

fun offer_settles :: "string \<Rightarrow> string \<Rightarrow> nat \<Rightarrow> up_event \<Rightarrow> bool" where
  "offer_settles h f i (Timer j) \<longleftrightarrow> j = i"
| "offer_settles h f i (Deliver from msg) \<longleftrightarrow>
    from = h \<and> (case msg of OfferAck g j accept reason \<Rightarrow> g = f \<and> j = i | _ \<Rightarrow> False)"

fun store_settles :: "string \<Rightarrow> string \<Rightarrow> nat \<Rightarrow> up_event \<Rightarrow> bool" where
  "store_settles h f i (Timer j) \<longleftrightarrow> j = i"
| "store_settles h f i (Deliver from msg) \<longleftrightarrow>
    from = h \<and> (case msg of StoreAck g j stored reason \<Rightarrow> g = f \<and> j = i | _ \<Rightarrow> False)"

text \<open>
  The holder accepted the offer of the shard before anything else ended the wait for its answer, and then said that it
  stored it before anything else ended the wait for that.
\<close>

definition holder_took :: "string \<Rightarrow> string \<Rightarrow> nat \<Rightarrow> up_event list \<Rightarrow> bool" where
  "holder_took h f i es \<longleftrightarrow>
    (\<exists>as bs cs r s. es = as @ Deliver h (OfferAck f i True r) # bs @ Deliver h (StoreAck f i True s) # cs
      \<and> \<not> list_ex (offer_settles h f i) as \<and> \<not> list_ex (store_settles h f i) bs)"

text \<open>The events of a task: the others do not touch it, nor what its holder is.\<close>

definition task_event :: "string \<Rightarrow> string \<Rightarrow> nat \<Rightarrow> up_event \<Rightarrow> task_state \<Rightarrow> task_state \<Rightarrow> bool" where
  "task_event h f i e t t' \<longleftrightarrow>
    (case t of
       AwaitOffer \<Rightarrow>
         if \<not> offer_settles h f i e then t' = AwaitOffer
         else if \<exists>r. e = Deliver h (OfferAck f i True r) then t' = AwaitStore else \<exists>m. t' = Rejected m
     | AwaitStore \<Rightarrow>
         if \<not> store_settles h f i e then t' = AwaitStore
         else if \<exists>s. e = Deliver h (StoreAck f i True s) then t' = Fulfilled else \<exists>m. t' = Rejected m
     | _ \<Rightarrow> t' = t)"

lemma receive_holders [simp]: "up_holders (task_receive from msg i u) = up_holders u"
  by (auto simp: task_receive_def on_offer_ack_def on_store_ack_def split: task_state.split drive_msg.split)

lemma receive_all_kept [simp]:
  "up_holders (fold (task_receive from msg) is u) = up_holders u"
  "up_job (fold (task_receive from msg) is u) = up_job u"
  by (induction "is" arbitrary: u) simp_all

lemma receive_none: "j \<notin> set is \<Longrightarrow> up_tasks (fold (task_receive from msg) is u) ! j = up_tasks u ! j"
  by (induction "is" arbitrary: u) (simp_all add: receive_other)

lemma receive_one:
  "distinct is \<Longrightarrow> j \<in> set is \<Longrightarrow>
    \<exists>v. up_tasks v ! j = up_tasks u ! j \<and> up_job v = up_job u \<and> up_holders v = up_holders u \<and> length (up_tasks v) = length (up_tasks u)
      \<and> up_tasks (fold (task_receive from msg) is u) ! j = up_tasks (task_receive from msg j v) ! j"
proof (induction "is" arbitrary: u)
  case (Cons i "is")
  show ?case
  proof (cases "i = j")
    case True
    with Cons.prems show ?thesis by (intro exI [of _ u]) (simp add: receive_none)
  next
    case False
    with Cons.prems Cons.IH [of "task_receive from msg i u"] show ?thesis by (simp add: receive_other)
  qed
qed simp

lemma act_holders [simp]: "up_holders (up_act e u) = up_holders u"
  by (auto simp: up_act_def task_timeout_def split: up_event.split task_state.split)

lemma act_job: "up_job (up_act e u) = up_job u"
  using acts_job [of "[e]" u] by simp

lemma receive_task_event:
  "i < length (up_tasks u) \<Longrightarrow>
    task_event (up_holders u ! i) (job_fileId (up_job u)) i (Deliver from msg) (up_tasks u ! i) (up_tasks (task_receive from msg i u) ! i)"
  by (auto simp: task_event_def task_receive_def on_offer_ack_def on_store_ack_def split: task_state.splits drive_msg.splits)

lemma act_task_event:
  assumes i: "i < length (up_tasks u)"
  shows "task_event (up_holders u ! i) (job_fileId (up_job u)) i e (up_tasks u ! i) (up_tasks (up_act e u) ! i)"
proof (cases e)
  case (Timer j)
  with i show ?thesis by (auto simp: task_event_def up_act_def task_timeout_def split: task_state.splits)
next
  case (Deliver "from" msg)
  obtain v where v: "up_tasks v ! i = up_tasks u ! i" "up_job v = up_job u" "up_holders v = up_holders u"
      "length (up_tasks v) = length (up_tasks u)" "up_tasks (up_act e u) ! i = up_tasks (task_receive from msg i v) ! i"
    using receive_one [of "[0..<length (up_tasks u)]" i u "from" msg] i by (auto simp: Deliver up_act_def)
  have "i < length (up_tasks v)" using v(4) i by simp
  from receive_task_event [OF this, of "from" msg] show ?thesis unfolding Deliver [symmetric] v(5) v(1) v(2) v(3) .
qed

text \<open>What a task has seen, from what it is; and what it is, from what it has seen.\<close>

lemma task_saw:
  assumes i: "i < length (up_tasks u)" and start: "up_tasks u ! i = AwaitOffer"
    and h: "h = up_holders u ! i" and f: "f = job_fileId (up_job u)"
  shows "case up_tasks (fold up_act es u) ! i of
      AwaitOffer \<Rightarrow> \<not> list_ex (offer_settles h f i) es
    | AwaitStore \<Rightarrow> \<exists>as bs r. es = as @ Deliver h (OfferAck f i True r) # bs
        \<and> \<not> list_ex (offer_settles h f i) as \<and> \<not> list_ex (store_settles h f i) bs
    | Fulfilled \<Rightarrow> holder_took h f i es
    | Rejected m \<Rightarrow> True"
proof (induction es rule: rev_induct)
  case Nil
  then show ?case by (simp add: start)
next
  case (snoc e es)
  let ?u = "fold up_act es u"
  have holders: "up_holders ?u = up_holders u" by (induction es arbitrary: u) simp_all
  have step: "task_event h f i e (up_tasks ?u ! i) (up_tasks (up_act e ?u) ! i)"
    using act_task_event [of i ?u e] i by (simp add: h f holders)
  show ?case
  proof (cases "up_tasks ?u ! i")
    case AwaitOffer
    moreover have "\<exists>as bs ra. es @ [Deliver h (OfferAck f i True r)] = as @ Deliver h (OfferAck f i True ra) # bs
        \<and> \<not> list_ex (offer_settles h f i) as \<and> \<not> list_ex (store_settles h f i) bs" if "\<not> list_ex (offer_settles h f i) es" for r
      using that by (intro exI [of _ es] exI [of _ "[]"] exI [of _ r]) simp
    ultimately show ?thesis using snoc step by (auto simp: task_event_def split: if_splits task_state.splits)
  next
    case AwaitStore
    with snoc obtain as bs r where es: "es = as @ Deliver h (OfferAck f i True r) # bs"
      "\<not> list_ex (offer_settles h f i) as" "\<not> list_ex (store_settles h f i) bs" by auto
    show ?thesis
    proof (cases "store_settles h f i e")
      case False
      then have "up_tasks (up_act e ?u) ! i = AwaitStore" using step AwaitStore by (simp add: task_event_def)
      moreover have "\<exists>as bs r. es @ [e] = as @ Deliver h (OfferAck f i True r) # bs
          \<and> \<not> list_ex (offer_settles h f i) as \<and> \<not> list_ex (store_settles h f i) bs"
        using es False by (intro exI [of _ as] exI [of _ "bs @ [e]"] exI [of _ r]) simp
      ultimately show ?thesis by (simp only: fold_append fold_simps comp_apply task_state.simps)
    next
      case True
      then consider s where "e = Deliver h (StoreAck f i True s)" | m where "up_tasks (up_act e ?u) ! i = Rejected m"
        using step AwaitStore by (auto simp: task_event_def split: if_splits)
      then show ?thesis
      proof cases
        case 1
        then have "up_tasks (up_act e ?u) ! i = Fulfilled" using step AwaitStore True by (simp add: task_event_def split: if_splits)
        moreover have "holder_took h f i (es @ [e])" unfolding holder_took_def es(1) 1
          using es(2,3) by (intro exI [of _ as] exI [of _ bs] exI [of _ "[]"] exI [of _ r] exI [of _ s]) simp
        ultimately show ?thesis by simp
      qed simp
    qed
  next
    case Fulfilled
    with snoc obtain as bs cs r s where "es = as @ Deliver h (OfferAck f i True r) # bs @ Deliver h (StoreAck f i True s) # cs"
      "\<not> list_ex (offer_settles h f i) as" "\<not> list_ex (store_settles h f i) bs" by (auto simp: holder_took_def)
    then have "holder_took h f i (es @ [e])" unfolding holder_took_def
      by (intro exI [of _ as] exI [of _ bs] exI [of _ "cs @ [e]"] exI [of _ r] exI [of _ s]) simp
    with Fulfilled step show ?thesis by (simp add: task_event_def)
  next
    case (Rejected m)
    with step show ?thesis by (simp add: task_event_def)
  qed
qed

lemma task_waits_offer:
  "i < length (up_tasks u) \<Longrightarrow> up_tasks u ! i = AwaitOffer \<Longrightarrow>
    \<not> list_ex (offer_settles (up_holders u ! i) (job_fileId (up_job u)) i) es \<Longrightarrow>
    up_tasks (fold up_act es u) ! i = AwaitOffer"
proof (induction es arbitrary: u)
  case (Cons e es)
  then have "up_tasks (up_act e u) ! i = AwaitOffer" using act_task_event [of i u e] by (simp add: task_event_def)
  with Cons show ?case by (simp add: act_job)
qed simp

lemma task_waits_store:
  "i < length (up_tasks u) \<Longrightarrow> up_tasks u ! i = AwaitStore \<Longrightarrow>
    \<not> list_ex (store_settles (up_holders u ! i) (job_fileId (up_job u)) i) es \<Longrightarrow>
    up_tasks (fold up_act es u) ! i = AwaitStore"
proof (induction es arbitrary: u)
  case (Cons e es)
  then have "up_tasks (up_act e u) ! i = AwaitStore" using act_task_event [of i u e] by (simp add: task_event_def)
  with Cons show ?case by (simp add: act_job)
qed simp

lemma task_stays_fulfilled:
  "i < length (up_tasks u) \<Longrightarrow> up_tasks u ! i = Fulfilled \<Longrightarrow> up_tasks (fold up_act es u) ! i = Fulfilled"
proof (induction es arbitrary: u)
  case (Cons e es)
  then have "up_tasks (up_act e u) ! i = Fulfilled" using act_task_event [of i u e] by (simp add: task_event_def)
  with Cons show ?case by simp
qed simp

lemma acts_holders [simp]: "up_holders (fold up_act es u) = up_holders u"
  by (induction es arbitrary: u) simp_all

lemma task_took:
  assumes i: "i < length (up_tasks u)" and start: "up_tasks u ! i = AwaitOffer"
    and took: "holder_took (up_holders u ! i) (job_fileId (up_job u)) i es"
  shows "up_tasks (fold up_act es u) ! i = Fulfilled"
proof -
  let ?h = "up_holders u ! i" and ?f = "job_fileId (up_job u)"
  obtain as bs cs r s where es: "es = as @ Deliver ?h (OfferAck ?f i True r) # bs @ Deliver ?h (StoreAck ?f i True s) # cs"
    "\<not> list_ex (offer_settles ?h ?f i) as" "\<not> list_ex (store_settles ?h ?f i) bs"
    using took by (auto simp: holder_took_def)
  let ?u1 = "fold up_act as u"
  let ?u2 = "up_act (Deliver ?h (OfferAck ?f i True r)) ?u1"
  let ?u3 = "fold up_act bs ?u2"
  let ?u4 = "up_act (Deliver ?h (StoreAck ?f i True s)) ?u3"
  have "up_tasks ?u1 ! i = AwaitOffer" by (rule task_waits_offer [OF i start es(2)])
  then have "up_tasks ?u2 ! i = AwaitStore"
    using act_task_event [of i ?u1 "Deliver ?h (OfferAck ?f i True r)"] i by (simp add: task_event_def)
  then have "up_tasks ?u3 ! i = AwaitStore" using task_waits_store [of i ?u2 bs] i es(3) by (simp add: act_job)
  then have "up_tasks ?u4 ! i = Fulfilled"
    using act_task_event [of i ?u3 "Deliver ?h (StoreAck ?f i True s)"] i by (simp add: task_event_def act_job)
  then have "up_tasks (fold up_act cs ?u4) ! i = Fulfilled" using task_stays_fulfilled [of i ?u4 cs] i by simp
  then show ?thesis by (simp add: es(1))
qed

text \<open>The start: the task of a shard the uploader keeps is fulfilled with the shard in its store, the others wait.\<close>

lemma start_tasks:
  assumes "distinct is" "\<forall>i \<in> set is. i < length (up_tasks u)"
  shows "up_holders (fst (fold (start_task now) is (u, st))) = up_holders u
    \<and> length (up_tasks (fst (fold (start_task now) is (u, st)))) = length (up_tasks u)
    \<and> (\<forall>i. i \<notin> set is \<longrightarrow> up_tasks (fst (fold (start_task now) is (u, st))) ! i = up_tasks u ! i
          \<and> getShard f i (snd (fold (start_task now) is (u, st))) = getShard f i st)
    \<and> (\<forall>i \<in> set is. up_tasks (fst (fold (start_task now) is (u, st))) ! i = (if up_holders u ! i = up_self u then Fulfilled else AwaitOffer)
          \<and> (up_holders u ! i = up_self u \<longrightarrow>
               map_option ss_data (getShard (job_fileId (up_job u)) i (snd (fold (start_task now) is (u, st)))) = Some (job_shards (up_job u) ! i)))"
  using assms
proof (induction "is" arbitrary: u st f)
  case (Cons i "is")
  obtain v st' where v: "start_task now i (u, st) = (v, st')" by (cases "start_task now i (u, st)")
  have kept: "up_holders v = up_holders u" "up_self v = up_self u" "up_job v = up_job u" "length (up_tasks v) = length (up_tasks u)"
    "up_tasks v = (up_tasks u)[i := if up_holders u ! i = up_self u then Fulfilled else AwaitOffer]"
    using v by (auto simp: start_task_def Let_def split: if_splits)
  have store: "j \<noteq> i \<Longrightarrow> getShard g j st' = getShard g j st" for g j
    using v by (auto simp: start_task_def Let_def getShard_put split: if_splits)
  have own: "up_holders u ! i = up_self u \<Longrightarrow> map_option ss_data (getShard (job_fileId (up_job u)) i st') = Some (job_shards (up_job u) ! i)"
    using v by (auto simp: start_task_def Let_def getShard_put split: if_splits)
  from Cons.IH [of v st' f] Cons.IH [of v st' "job_fileId (up_job u)"] Cons.prems show ?case
    unfolding fold_simps(2) v using own by (simp add: kept store)
qed simp

lemma uploaded_iff:
  assumes i: "i < job_k job + job_m job" and h: "h = allocateShards (job_k job + job_m job) (selfPeerId opts # uo_peers opts) ! i"
  shows "(up_tasks (fold up_act es (fst (begin_upload opts now job st))) ! i = Fulfilled
        \<longleftrightarrow> h = selfPeerId opts \<or> holder_took h (job_fileId job) i es)
      \<and> (h = selfPeerId opts \<longrightarrow>
           map_option ss_data (getShard (job_fileId job) i (snd (begin_upload opts now job st))) = Some (job_shards job ! i))"
proof -
  let ?n = "job_k job + job_m job"
  let ?start = "\<lparr>up_job = job, up_self = selfPeerId opts, up_holders = allocateShards ?n (selfPeerId opts # uo_peers opts),
              up_tasks = replicate ?n AwaitOffer, up_accepted = 0, up_stored = 0, up_out = [], up_published = []\<rparr>"
  let ?u = "fst (begin_upload opts now job st)"
  have run: "begin_upload opts now job st = fold (start_task now) [0..<?n] (?start, st)" by (simp add: begin_upload_def Let_def)
  have u: "up_holders ?u ! i = h" "up_tasks ?u ! i = (if h = selfPeerId opts then Fulfilled else AwaitOffer)"
      "h = selfPeerId opts \<Longrightarrow> map_option ss_data (getShard (job_fileId job) i (snd (begin_upload opts now job st))) = Some (job_shards job ! i)"
    using start_tasks [of "[0..<?n]" ?start now st] i h unfolding run by auto
  have len: "i < length (up_tasks ?u)" using i begin_ok(2) by simp
  show ?thesis
  proof (cases "h = selfPeerId opts")
    case True
    with u len show ?thesis by (simp add: task_stays_fulfilled)
  next
    case False
    with u(2) have waits: "up_tasks ?u ! i = AwaitOffer" by simp
    have "holder_took h (job_fileId job) i es" if "up_tasks (fold up_act es ?u) ! i = Fulfilled"
      using task_saw [OF len waits refl refl, of es] that u(1) by simp
    moreover have "up_tasks (fold up_act es ?u) ! i = Fulfilled" if "holder_took h (job_fileId job) i es"
      using task_took [OF len waits, of es] that u(1) by simp
    ultimately show ?thesis using False by blast
  qed
qed

section \<open>Properties of the upload\<close>

text \<open>
  C13. An upload always ends: whatever messages arrive in whatever order, and although no
  peer ever answers, once the timer of each task has run out (that of a settled task changes nothing) the upload
  returns, with the manifest when at least \<open>k\<close> shards were stored, and otherwise with the error that names how many were. Counted as stored are,
  each once, exactly the shards that are allocated to the uploader itself, whose own store then holds them, and those whose
  holder first accepted the offer and then answered that it stored the shard, each before the task's timer ran out and before
  any other such answer: a refusal, an answer that the shard was not stored, an answer of somebody else or about another shard, and one
  that comes too late count for nothing.
\<close>

theorem upload_settles:
  assumes "u = fst (begin_upload opts now job st)" and "list_all (\<lambda>i. Timer i \<in> set es) [0..<job_k job + job_m job]"
    and "v = fold up_act es u"
  shows "finish_upload W opts rnd later v st' =
      (if up_stored v < job_k job
       then Some (throw (''upload: only '' @ nat_str (up_stored v) @ ''/'' @ nat_str (job_k job + job_m job)
              @ '' shards stored, need '' @ nat_str (job_k job)))
       else Some (ok (manifest_of W opts rnd later job, putManifest (manifest_of W opts rnd later job) st',
              AnnounceManifest (manifest_of W opts rnd later job))))
    \<and> distinct (up_published v) \<and> up_stored v = length (up_published v)
    \<and> set (up_published v) = {i. i < job_k job + job_m job \<and> up_tasks v ! i = Fulfilled}
    \<and> (\<forall>i h. i < job_k job + job_m job \<longrightarrow> h = allocateShards (job_k job + job_m job) (selfPeerId opts # uo_peers opts) ! i \<longrightarrow>
         (i \<in> set (up_published v) \<longleftrightarrow> h = selfPeerId opts \<or> holder_took h (job_fileId job) i es)
         \<and> (h = selfPeerId opts \<longrightarrow>
              map_option ss_data (getShard (job_fileId job) i (snd (begin_upload opts now job st))) = Some (job_shards job ! i)))"
proof -
  have len: "length (up_tasks v) = job_k job + job_m job" using assms(1,3) begin_ok(2) by simp
  have "list_all settled (up_tasks v)"
    using timer_settles assms len by (auto simp: list_all_length list_all_iff)
  moreover have okv: "up_ok v" unfolding assms(3,1) by (rule uploads.run_good [OF begin_ok(1)])
  moreover have "up_job v = job" by (simp add: assms(1,3))
  moreover have "length (up_published v) = card {i. i < length (up_tasks v) \<and> up_tasks v ! i = Fulfilled}"
    using okv distinct_card [of "up_published v"] by (simp add: up_ok_def)
  moreover have "card {i. i < length (up_tasks v) \<and> up_tasks v ! i = Fulfilled} = length (filter (\<lambda>t. t = Fulfilled) (up_tasks v))"
    by (simp add: length_filter_conv_card)
  moreover have "(up_tasks v ! i = Fulfilled \<longleftrightarrow> h = selfPeerId opts \<or> holder_took h (job_fileId job) i es)
      \<and> (h = selfPeerId opts \<longrightarrow>
           map_option ss_data (getShard (job_fileId job) i (snd (begin_upload opts now job st))) = Some (job_shards job ! i))"
    if "i < job_k job + job_m job" "h = allocateShards (job_k job + job_m job) (selfPeerId opts # uo_peers opts) ! i" for i h
    unfolding assms(3,1) by (rule uploaded_iff [OF that])
  ultimately show ?thesis using len by (simp add: finish_upload_def up_ok_def Let_def)
qed

lemma upload_settles_witness:
  "1 \<in> set (up_published (fold up_act [Deliver ''p'' (OfferAck (job_fileId demo_job) 1 True None), Timer 3,
        Deliver ''p'' (StoreAck (job_fileId demo_job) 1 True None), Timer 1, Timer 0, Timer 2]
      (fst (begin_upload demo_upload 4 demo_job empty_store))))"
proof -
  let ?es = "[Deliver ''p'' (OfferAck (job_fileId demo_job) 1 True None), Timer 3,
        Deliver ''p'' (StoreAck (job_fileId demo_job) 1 True None), Timer 1, Timer 0, Timer 2]"
  have "list_all (\<lambda>i. Timer i \<in> set ?es) [0..<job_k demo_job + job_m demo_job]" by (simp add: demo_job upt_rec)
  note settles = upload_settles [OF refl this refl, of plain_crypto demo_upload demo_random 5 4 empty_store empty_store]
  have "holder_took ''p'' (job_fileId demo_job) 1 ?es"
    unfolding holder_took_def
    by (rule exI [of _ "[]"], rule exI [of _ "[Timer 3]"], rule exI [of _ "[Timer 1, Timer 0, Timer 2]"], intro exI [of _ None]) simp
  moreover have "1 < job_k demo_job + job_m demo_job"
    "''p'' = allocateShards (job_k demo_job + job_m demo_job) (selfPeerId demo_upload # uo_peers demo_upload) ! 1"
    by (simp_all add: demo_job demo_upload_def allocateShards_def)
  ultimately show ?thesis using settles by blast
qed

end
