(* ===== verification/DriveHook.thy ===== *)
theory DriveHook imports DriveClient begin

text \<open>
  The drive in a room (\<open>hooks/useDrive.ts\<close>): its wire over the data channels, the dispatch of incoming
  messages, and the guards around upload and download. The rendering of React is not modelled; the node
  of the distributed table is an argument.
\<close>

text \<open>A data channel: not open, open, or open with a \<open>send\<close> that throws.\<close>

datatype channel = NotOpen | IsOpen | SendThrows

definition delivers :: "channel option \<Rightarrow> bool" where
  "delivers c \<longleftrightarrow> c = Some IsOpen"

definition wire_send :: "(string, channel) jmap \<Rightarrow> string \<Rightarrow> drive_msg \<Rightarrow> (string \<times> drive_msg) list" where
  "wire_send dcs peerId msg = (if delivers (jm_get dcs peerId) then [(peerId, msg)] else [])"

definition wire_broadcast :: "(string, channel) jmap \<Rightarrow> drive_msg \<Rightarrow> (string \<times> drive_msg) list" where
  "wire_broadcast dcs msg = map (\<lambda>(p, c). (p, msg)) (filter (\<lambda>(p, c). delivers (Some c)) dcs)"

text \<open>The peers with an open channel, which an upload spreads its shards over.\<close>

definition open_peers :: "(string, channel) jmap \<Rightarrow> string list" where
  "open_peers dcs = map fst (filter (\<lambda>(p, c). c \<noteq> NotOpen) dcs)"

text \<open>What a data channel delivers to the drive: an envelope of the distributed table, or a message of the drive.\<close>

datatype 'd drive_payload = DhtEnvelope 'd | DriveMessage drive_msg

text \<open>Each subscriber of the table, or of the drive, is called once, in the order of subscription.\<close>

definition ingestRemote ::
  "('s \<Rightarrow> string \<Rightarrow> 'd \<Rightarrow> 'r) \<Rightarrow> ('s \<Rightarrow> string \<Rightarrow> drive_msg \<Rightarrow> 'r) \<Rightarrow> 's list \<Rightarrow> 's list \<Rightarrow> string \<Rightarrow> 'd drive_payload \<Rightarrow> 'r list" where
  "ingestRemote call_dht call_drive dht_subs drive_subs from msg =
    (case msg of
       DhtEnvelope d \<Rightarrow> map (\<lambda>s. call_dht s from d) dht_subs
     | DriveMessage m \<Rightarrow> map (\<lambda>s. call_drive s from m) drive_subs)"

definition dhtShardKey :: "string \<Rightarrow> nat \<Rightarrow> string" where
  "dhtShardKey f i = ''shard:'' @ f @ '':'' @ nat_str i"

lemma dhtShardKey_inj: "dhtShardKey f i = dhtShardKey g j \<longleftrightarrow> f = g \<and> i = j"
  using shardKey_inj [of f i g j] by (simp add: dhtShardKey_def shardKey_def)

text \<open>A file of the browser, whose type may be empty.\<close>

record browser_file =
  bf_name :: string
  bf_type :: string
  bf_bytes :: bytes

definition upload_request ::
  "user_identity option \<Rightarrow> string \<Rightarrow> (string, channel) jmap \<Rightarrow> browser_file \<Rightarrow> upload_options result" where
  "upload_request identity self dcs file =
    (case identity of
       None \<Rightarrow> throw ''drive identity not ready''
     | Some idt \<Rightarrow>
         if self = [] then throw ''not connected''
         else ok \<lparr>uo_name = bf_name file, uo_type = (if bf_type file = [] then None else Some (bf_type file)),
                  uo_bytes = bf_bytes file, uo_identity = idt, selfPeerId = self, uo_peers = open_peers dcs,
                  uo_k = None, uo_m = None\<rparr>)"

text \<open>The shards an upload has stored so far are published in the table under their keys.\<close>

definition published_values :: "upload \<Rightarrow> (string \<times> bytes) list" where
  "published_values u = map (\<lambda>i. (dhtShardKey (job_fileId (up_job u)) i, job_shards (up_job u) ! i)) (up_published u)"

text \<open>\<open>findValue\<close> of the node, if it is running, answers the lookups of a download.\<close>

definition drive_network :: "(string \<Rightarrow> bytes option result) option \<Rightarrow> (nat \<Rightarrow> fetch_event list) \<Rightarrow> network" where
  "drive_network table ans =
    \<lparr>dhtFetch = Some (\<lambda>f i. case table of None \<Rightarrow> ok None | Some findValue \<Rightarrow> findValue (dhtShardKey f i)), answers = ans\<rparr>"

definition drive_download ::
  "web_crypto \<Rightarrow> user_identity option \<Rightarrow> (string \<Rightarrow> bytes option result) option \<Rightarrow> (nat \<Rightarrow> fetch_event list) \<Rightarrow> drive_store
    \<Rightarrow> signed_manifest \<Rightarrow> downloaded result option" where
  "drive_download W identity table ans store manifest =
    (case identity of
       None \<Rightarrow> Some (throw ''drive identity not ready'')
     | Some idt \<Rightarrow> downloadFile W idt (drive_network table ans) store manifest)"

end
