(* ===== verification/Abr.thy ===== *)
theory Abr imports Prelude begin

text \<open>
  The adaptive bitrate controller of an outgoing video (\<open>lib/abr/abr.ts\<close>). Bitrates, the step and the bounds of
  the layers are integers, as in the default ladder; factors, percentages and measured rates
  are rational numbers where the code has doubles. The report of \<open>getStats\<close>, the clock and the outcome
  of \<open>setParameters\<close> are inputs of a tick.
\<close>

record abr_layer_spec =
  spec_rid :: string
  scaleResolutionDownBy :: rat
  initialMaxBitrate :: int
  minBitrate :: int
  maxBitrate :: int

record abr_layer_state =
  rid :: string
  targetBitrate :: int
  layer_active :: bool

datatype abr_change = Up | Down | Hold

record abr_snapshot =
  snap_layers :: "abr_layer_state list"
  snap_available :: "rat option"
  observedOutboundBps :: rat
  packetLossPct :: rat
  lastChange :: abr_change
  abr_ticks :: nat

definition DEFAULT_LAYERS :: "abr_layer_spec list" where
  "DEFAULT_LAYERS =
    [\<lparr>spec_rid = ''l'', scaleResolutionDownBy = 4, initialMaxBitrate = 150000, minBitrate = 80000, maxBitrate = 250000\<rparr>,
     \<lparr>spec_rid = ''m'', scaleResolutionDownBy = 2, initialMaxBitrate = 500000, minBitrate = 200000, maxBitrate = 800000\<rparr>,
     \<lparr>spec_rid = ''h'', scaleResolutionDownBy = 1, initialMaxBitrate = 1500000, minBitrate = 500000, maxBitrate = 2500000\<rparr>]"

record abr_options =
  opt_layers :: "abr_layer_spec list"
  decreaseFactor :: rat
  increaseStep :: int
  highLossPct :: rat
  lowLossPct :: rat
  opt_intervalMs :: nat

definition default_abr :: abr_options where
  "default_abr = \<lparr>opt_layers = DEFAULT_LAYERS, decreaseFactor = 3 / 5, increaseStep = 100000, highLossPct = 5, lowLossPct = 2,
    opt_intervalMs = 2000\<rparr>"

record prev_sample =
  ps_bytesSent :: nat
  ps_packetsSent :: nat
  ps_packetsLost :: int
  ps_t :: int

text \<open>One entry of the report; an absent field is \<open>None\<close>.\<close>

record rtc_stat =
  stat_type :: string
  stat_id :: string
  stat_bytesSent :: "nat option"
  stat_packetsSent :: "nat option"
  stat_packetsLost :: "int option"
  stat_available :: "rat option"
  stat_selectedPair :: "string option"
  stat_nominated :: bool
  stat_state :: "string option"
  stat_kind :: "string option"
  stat_isRemote :: bool

record abr_controller =
  abr_opts :: abr_options
  abr_prev :: "prev_sample option"
  abr_snap :: abr_snapshot
  abr_timer :: bool
  abr_subs :: "nat list"

definition new_AbrController :: "abr_options \<Rightarrow> abr_controller" where
  "new_AbrController opts =
    \<lparr>abr_opts = opts, abr_prev = None,
     abr_snap = \<lparr>snap_layers = map (\<lambda>l. \<lparr>rid = spec_rid l, targetBitrate = initialMaxBitrate l, layer_active = True\<rparr>) (opt_layers opts),
       snap_available = None, observedOutboundBps = 0, packetLossPct = 0, lastChange = Hold, abr_ticks = 0\<rparr>,
     abr_timer = False, abr_subs = []\<rparr>"

definition abr_start :: "abr_controller \<Rightarrow> abr_controller" where
  "abr_start c = (if abr_timer c then c else c\<lparr>abr_timer := True\<rparr>)"

definition abr_stop :: "abr_controller \<Rightarrow> abr_controller" where
  "abr_stop c = (if abr_timer c then c\<lparr>abr_timer := False\<rparr> else c)"

text \<open>Subscribers are numbers; a new one is called back at once, all of them after a tick.\<close>

definition abr_subscribe :: "nat \<Rightarrow> abr_controller \<Rightarrow> abr_controller \<times> (nat \<times> abr_snapshot) list" where
  "abr_subscribe s c = (c\<lparr>abr_subs := (if s \<in> set (abr_subs c) then abr_subs c else abr_subs c @ [s])\<rparr>, [(s, abr_snap c)])"

definition abr_unsubscribe :: "nat \<Rightarrow> abr_controller \<Rightarrow> abr_controller" where
  "abr_unsubscribe s c = c\<lparr>abr_subs := filter (\<lambda>x. x \<noteq> s) (abr_subs c)\<rparr>"

definition abr_publish :: "abr_controller \<Rightarrow> (nat \<times> abr_snapshot) list" where
  "abr_publish c = map (\<lambda>s. (s, abr_snap c)) (abr_subs c)"

section \<open>The sender's encodings\<close>

record encoding =
  enc_rid :: string
  enc_active :: bool
  enc_maxBitrate :: int
  enc_scale :: rat

definition initial_encodings :: "abr_options \<Rightarrow> encoding list" where
  "initial_encodings opts = map (\<lambda>l. \<lparr>enc_rid = spec_rid l, enc_active = True, enc_maxBitrate = initialMaxBitrate l,
    enc_scale = scaleResolutionDownBy l\<rparr>) (opt_layers opts)"

definition update_encoding :: "abr_layer_state list \<Rightarrow> encoding \<Rightarrow> encoding" where
  "update_encoding layers e =
    (case find (\<lambda>l. rid l = enc_rid e) layers of
       None \<Rightarrow> e
     | Some l \<Rightarrow> e\<lparr>enc_maxBitrate := targetBitrate l, enc_active := layer_active l\<rparr>)"

section \<open>Reading the report\<close>

record collecting =
  col_pair :: "string option"
  col_pairs :: "(string, rtc_stat) jmap"
  col_bytes :: nat
  col_sent :: nat
  col_lost :: int

definition or_zero :: "'a::zero option \<Rightarrow> 'a" where
  "or_zero v = (case v of None \<Rightarrow> 0 | Some x \<Rightarrow> x)"

definition collect_stat :: "rtc_stat \<Rightarrow> collecting \<Rightarrow> collecting" where
  "collect_stat s c =
    (if stat_type s = ''transport'' then c\<lparr>col_pair := stat_selectedPair s\<rparr>
     else if stat_type s = ''candidate-pair'' then c\<lparr>col_pairs := jm_set (col_pairs c) (stat_id s) s\<rparr>
     else if stat_type s = ''outbound-rtp'' then
       (if stat_kind s = Some ''video'' \<and> \<not> stat_isRemote s
        then c\<lparr>col_bytes := col_bytes c + or_zero (stat_bytesSent s), col_sent := col_sent c + or_zero (stat_packetsSent s)\<rparr> else c)
     else if stat_type s = ''remote-inbound-rtp'' then
       (if stat_kind s = Some ''video'' then c\<lparr>col_lost := col_lost c + or_zero (stat_packetsLost s)\<rparr> else c)
     else c)"

definition selected_pair :: "collecting \<Rightarrow> rtc_stat option" where
  "selected_pair c =
    (case (case col_pair c of None \<Rightarrow> None | Some i \<Rightarrow> if i = [] then None else jm_get (col_pairs c) i) of
       Some p \<Rightarrow> Some p
     | None \<Rightarrow> find (\<lambda>p. stat_nominated p \<and> stat_state p = Some ''succeeded'') (jm_values (col_pairs c)))"

definition collect :: "rtc_stat list \<Rightarrow> int \<Rightarrow> prev_sample \<times> rat option" where
  "collect report now =
    (let c = fold collect_stat report \<lparr>col_pair = None, col_pairs = [], col_bytes = 0, col_sent = 0, col_lost = 0\<rparr>
     in (\<lparr>ps_bytesSent = col_bytes c, ps_packetsSent = col_sent c, ps_packetsLost = col_lost c, ps_t = now\<rparr>,
         case selected_pair c of None \<Rightarrow> None | Some p \<Rightarrow> stat_available p))"

section \<open>Tightening and loosening\<close>

text \<open>The loops run over the indices; \<open>spec_of\<close> is the lookup by \<open>rid\<close>.\<close>

definition spec_of :: "abr_options \<Rightarrow> abr_layer_state \<Rightarrow> abr_layer_spec" where
  "spec_of opts layer = the (find (\<lambda>l. spec_rid l = rid layer) (opt_layers opts))"

definition lower :: "abr_options \<Rightarrow> abr_layer_state \<Rightarrow> int" where
  "lower opts layer = max (minBitrate (spec_of opts layer)) \<lfloor>of_int (targetBitrate layer) * decreaseFactor opts\<rfloor>"

definition higher :: "abr_options \<Rightarrow> abr_layer_state \<Rightarrow> int" where
  "higher opts layer = min (maxBitrate (spec_of opts layer)) (targetBitrate layer + increaseStep opts)"

fun tighten_from :: "abr_options \<Rightarrow> nat \<Rightarrow> abr_layer_state list \<Rightarrow> abr_layer_state list \<times> abr_change" where
  "tighten_from opts 0 layers = (layers, Hold)"
| "tighten_from opts (Suc i) layers =
    (let layer = layers ! i in
     if \<not> layer_active layer then tighten_from opts i layers
     else let new = lower opts layer in
       if new < targetBitrate layer then (layers[i := layer\<lparr>targetBitrate := new\<rparr>], Down)
       else if i > 0 then (layers[i := layer\<lparr>layer_active := False\<rparr>], Down)
       else (layers, Hold))"

definition tighten :: "abr_options \<Rightarrow> abr_layer_state list \<Rightarrow> abr_layer_state list \<times> abr_change" where
  "tighten opts layers = tighten_from opts (length layers) layers"

fun raise_from :: "abr_options \<Rightarrow> nat \<Rightarrow> abr_layer_state list \<Rightarrow> abr_layer_state list \<times> abr_change" where
  "raise_from opts 0 layers = (layers, Hold)"
| "raise_from opts (Suc i) layers =
    (let layer = layers ! i; new = higher opts layer in
     if new > targetBitrate layer then (layers[i := layer\<lparr>targetBitrate := new\<rparr>], Up)
     else raise_from opts i layers)"

definition loosen :: "abr_options \<Rightarrow> abr_layer_state list \<Rightarrow> abr_layer_state list \<times> abr_change" where
  "loosen opts layers =
    (case find (\<lambda>i. \<not> layer_active (layers ! i)) [0..<length layers] of
       Some i \<Rightarrow> (layers[i := (layers ! i)\<lparr>layer_active := True\<rparr>], Up)
     | None \<Rightarrow> raise_from opts (length layers) layers)"

section \<open>A tick\<close>

definition total_target :: "abr_layer_state list \<Rightarrow> int" where
  "total_target layers = sum_list (map (\<lambda>l. if layer_active l then targetBitrate l else 0) layers)"

definition measured_rate :: "prev_sample option \<Rightarrow> prev_sample \<Rightarrow> rat" where
  "measured_rate prev sample =
    (case prev of None \<Rightarrow> 0
     | Some p \<Rightarrow> let dt = max (1 / 1000) (of_int (ps_t sample - ps_t p) / 1000)
         in max 0 (of_int (int (ps_bytesSent sample) - int (ps_bytesSent p)) * 8 / dt))"

definition measured_loss :: "prev_sample option \<Rightarrow> prev_sample \<Rightarrow> rat" where
  "measured_loss prev sample =
    (case prev of None \<Rightarrow> 0
     | Some p \<Rightarrow>
         let dLost = max 0 (ps_packetsLost sample - ps_packetsLost p);
             dSent = max 0 (int (ps_packetsSent sample) - int (ps_packetsSent p));
             denom = dLost + dSent
         in if denom > 0 then of_int dLost / of_int denom * 100 else 0)"

definition adjust :: "abr_options \<Rightarrow> rat \<Rightarrow> rat option \<Rightarrow> abr_layer_state list \<Rightarrow> abr_layer_state list \<times> abr_change" where
  "adjust opts loss available layers =
    (if loss \<ge> highLossPct opts then tighten opts layers
     else
       let total = of_int (total_target layers);
           headroom = map_option (\<lambda>a. a - total) available
       in if (case headroom of None \<Rightarrow> False | Some h \<Rightarrow> h < 0) then tighten opts layers
          else if loss < lowLossPct opts \<and> (case headroom of None \<Rightarrow> True | Some h \<Rightarrow> h > total * (1 / 5))
            then loosen opts layers
          else (layers, Hold))"

text \<open>
  \<open>getStats\<close> may fail; \<open>params\<close> are the encodings of the sender and \<open>set_ok\<close> says whether
  \<open>setParameters\<close> takes new ones. The result carries the encodings after the tick and what the
  subscribers are told.
\<close>

definition abr_tick ::
  "rtc_stat list option \<Rightarrow> int \<Rightarrow> bool \<Rightarrow> encoding list \<Rightarrow> abr_controller
    \<Rightarrow> abr_controller \<times> encoding list \<times> (nat \<times> abr_snapshot) list" where
  "abr_tick report now set_ok params c =
    (case report of
       None \<Rightarrow> (c, params, [])
     | Some stats \<Rightarrow>
         let (sample, available) = collect stats now;
             rate = measured_rate (abr_prev c) sample;
             loss = measured_loss (abr_prev c) sample;
             c1 = c\<lparr>abr_prev := Some sample\<rparr>;
             (layers, change) = adjust (abr_opts c) loss available (snap_layers (abr_snap c));
             pushes = change \<noteq> Hold \<and> params \<noteq> []
         in if pushes \<and> \<not> set_ok then (c1, params, [])
            else let c2 = c1\<lparr>abr_snap := \<lparr>snap_layers = layers, snap_available = available, observedOutboundBps = rate,
                    packetLossPct = loss, lastChange = change, abr_ticks = abr_ticks (abr_snap c) + 1\<rparr>\<rparr>
              in (c2, if pushes then map (update_encoding layers) params else params, abr_publish c2))"

section \<open>The invariant of the ladder\<close>

definition valid_ladder :: "abr_options \<Rightarrow> bool" where
  "valid_ladder opts \<longleftrightarrow> opt_layers opts \<noteq> [] \<and> distinct (map spec_rid (opt_layers opts)) \<and>
    list_all (\<lambda>l. minBitrate l \<le> initialMaxBitrate l \<and> initialMaxBitrate l \<le> maxBitrate l) (opt_layers opts)"

text \<open>The active layers are the \<open>n\<close> lowest ones, and at least one is active.\<close>

definition lowest_active :: "abr_layer_state list \<Rightarrow> nat \<Rightarrow> bool" where
  "lowest_active layers n \<longleftrightarrow> 1 \<le> n \<and> n \<le> length layers \<and> (\<forall>i < length layers. layer_active (layers ! i) \<longleftrightarrow> i < n)"

definition in_bounds :: "abr_options \<Rightarrow> abr_layer_state list \<Rightarrow> bool" where
  "in_bounds opts layers \<longleftrightarrow> (\<forall>i < length layers.
    minBitrate (opt_layers opts ! i) \<le> targetBitrate (layers ! i) \<and> targetBitrate (layers ! i) \<le> maxBitrate (opt_layers opts ! i))"

definition ladder_ok :: "abr_options \<Rightarrow> abr_layer_state list \<Rightarrow> bool" where
  "ladder_ok opts layers \<longleftrightarrow>
    map rid layers = map spec_rid (opt_layers opts) \<and> in_bounds opts layers \<and> (\<exists>n. lowest_active layers n)"

lemma find_distinct:
  "distinct (map f xs) \<Longrightarrow> i < length xs \<Longrightarrow> find (\<lambda>x. f x = f (xs ! i)) xs = Some (xs ! i)"
proof (induction xs arbitrary: i)
  case (Cons x xs)
  show ?case
  proof (cases i)
    case (Suc j)
    with Cons.prems have "f x \<noteq> f (xs ! j)" by (metis distinct.simps(2) image_eqI length_Cons list.set_map list.simps(9) not_less_eq nth_mem)
    with Suc Cons show ?thesis by simp
  qed simp
qed simp

lemma spec_of_nth:
  assumes "valid_ladder opts" "map rid layers = map spec_rid (opt_layers opts)" "i < length layers"
  shows "spec_of opts (layers ! i) = opt_layers opts ! i"
proof -
  have i: "i < length (opt_layers opts)" using assms(2,3) by (metis length_map)
  have "rid (layers ! i) = spec_rid (opt_layers opts ! i)" using assms(2,3) i by (metis nth_map)
  with find_distinct [of spec_rid "opt_layers opts" i] assms(1) i show ?thesis by (simp add: spec_of_def valid_ladder_def)
qed

text \<open>One step of the controller: a layer gets a new target, or its activity changes.\<close>

definition retarget :: "abr_layer_state list \<Rightarrow> nat \<Rightarrow> int \<Rightarrow> abr_layer_state list" where
  "retarget layers i t = layers[i := (layers ! i)\<lparr>targetBitrate := t\<rparr>]"

definition switch :: "abr_layer_state list \<Rightarrow> nat \<Rightarrow> bool \<Rightarrow> abr_layer_state list" where
  "switch layers i b = layers[i := (layers ! i)\<lparr>layer_active := b\<rparr>]"

lemma map_update_same: "f x = f (xs ! i) \<Longrightarrow> map f (xs[i := x]) = map f xs"
  by (cases "i < length xs") (simp_all add: map_update list_update_same_conv list_update_beyond)

lemma retarget_nth:
  "layer_active (retarget layers i t ! j) = layer_active (layers ! j)"
  "targetBitrate (retarget layers i t ! j) = (if j = i \<and> i < length layers then t else targetBitrate (layers ! j))"
  by (cases "i < length layers"; cases "j = i"; simp add: retarget_def list_update_beyond)+

lemma switch_nth:
  "targetBitrate (switch layers i b ! j) = targetBitrate (layers ! j)"
  "layer_active (switch layers i b ! j) = (if j = i \<and> i < length layers then b else layer_active (layers ! j))"
  by (cases "i < length layers"; cases "j = i"; simp add: switch_def list_update_beyond)+

lemma retarget_facts [simp]:
  "map rid (retarget layers i t) = map rid layers" "length (retarget layers i t) = length layers"
  "lowest_active (retarget layers i t) n = lowest_active layers n"
  by (simp_all add: retarget_nth lowest_active_def) (simp_all add: retarget_def map_update_same)

lemma switch_facts [simp]:
  "map rid (switch layers i b) = map rid layers" "length (switch layers i b) = length layers"
  "in_bounds opts (switch layers i b) = in_bounds opts layers"
  by (simp_all add: switch_nth in_bounds_def) (simp_all add: switch_def map_update_same)

lemma in_bounds_retarget:
  "in_bounds opts layers \<Longrightarrow> minBitrate (opt_layers opts ! i) \<le> t \<Longrightarrow> t \<le> maxBitrate (opt_layers opts ! i)
    \<Longrightarrow> in_bounds opts (retarget layers i t)"
  by (simp add: in_bounds_def retarget_nth)

lemma ladder_ok_retarget:
  assumes "ladder_ok opts layers" "minBitrate (opt_layers opts ! i) \<le> t" "t \<le> maxBitrate (opt_layers opts ! i)"
  shows "ladder_ok opts (retarget layers i t)"
  using assms in_bounds_retarget by (simp add: ladder_ok_def)

lemma tighten_from_cases:
  "k \<le> length layers \<Longrightarrow> (\<forall>j < k. \<not> layer_active (layers ! j)) \<and> tighten_from opts k layers = (layers, Hold)
    \<or> (\<exists>i < k. layer_active (layers ! i) \<and> (\<forall>j. i < j \<longrightarrow> j < k \<longrightarrow> \<not> layer_active (layers ! j)) \<and>
        tighten_from opts k layers =
          (if lower opts (layers ! i) < targetBitrate (layers ! i) then (retarget layers i (lower opts (layers ! i)), Down)
           else if i > 0 then (switch layers i False, Down) else (layers, Hold)))"
proof (induction k)
  case (Suc k)
  show ?case
  proof (cases "layer_active (layers ! k)")
    case True
    then show ?thesis by (intro disjI2 exI [of _ k]) (auto simp: Let_def retarget_def switch_def)
  next
    case False
    with Suc.IH Suc.prems show ?thesis by (auto simp: Let_def less_Suc_eq)
  qed
qed simp

lemma tighten_top:
  assumes "lowest_active layers n"
  shows "tighten opts layers =
    (if lower opts (layers ! (n - 1)) < targetBitrate (layers ! (n - 1)) then (retarget layers (n - 1) (lower opts (layers ! (n - 1))), Down)
     else if n > 1 then (switch layers (n - 1) False, Down) else (layers, Hold))"
proof -
  have act: "\<And>i. i < length layers \<Longrightarrow> layer_active (layers ! i) \<longleftrightarrow> i < n" and n: "1 \<le> n" "n \<le> length layers"
    using assms by (auto simp: lowest_active_def)
  have "layer_active (layers ! (n - 1))" "n - 1 < length layers" using act n by simp_all
  then have "\<not> (\<forall>j < length layers. \<not> layer_active (layers ! j))" by blast
  with tighten_from_cases [OF order_refl, of layers opts]
  obtain i where i: "i < length layers" "layer_active (layers ! i)" "\<forall>j. i < j \<longrightarrow> j < length layers \<longrightarrow> \<not> layer_active (layers ! j)"
    and t: "tighten opts layers = (if lower opts (layers ! i) < targetBitrate (layers ! i) then (retarget layers i (lower opts (layers ! i)), Down)
           else if i > 0 then (switch layers i False, Down) else (layers, Hold))"
    unfolding tighten_def by blast
  have "i = n - 1"
  proof (rule antisym)
    show "i \<le> n - 1" using i(1,2) act by fastforce
    show "n - 1 \<le> i"
    proof (rule ccontr)
      assume "\<not> n - 1 \<le> i"
      then have "i < n - 1" "n - 1 < length layers" using n by auto
      with i(3) act n show False by auto
    qed
  qed
  with t n show ?thesis by simp
qed

lemma in_boundsD:
  "in_bounds opts layers \<Longrightarrow> i < length layers \<Longrightarrow>
    minBitrate (opt_layers opts ! i) \<le> targetBitrate (layers ! i) \<and> targetBitrate (layers ! i) \<le> maxBitrate (opt_layers opts ! i)"
  by (simp add: in_bounds_def)

lemma lowest_active_switch_off:
  "lowest_active layers n \<Longrightarrow> 1 < n \<Longrightarrow> lowest_active (switch layers (n - 1) False) (n - 1)"
  by (auto simp: lowest_active_def switch_nth)

lemma lowest_active_switch_on:
  "lowest_active layers n \<Longrightarrow> n < length layers \<Longrightarrow> lowest_active (switch layers n True) (Suc n)"
  by (auto simp: lowest_active_def switch_nth less_Suc_eq)

lemma ladder_ok_tighten [inv_intros]:
  assumes v: "valid_ladder opts" and ok: "ladder_ok opts layers"
  shows "ladder_ok opts (fst (tighten opts layers))"
proof -
  obtain n where n: "lowest_active layers n" using ok by (auto simp: ladder_ok_def)
  have i: "n - 1 < length layers" using n unfolding lowest_active_def by linarith
  have rids: "map rid layers = map spec_rid (opt_layers opts)" and inb: "in_bounds opts layers" using ok by (simp_all add: ladder_ok_def)
  have low: "minBitrate (opt_layers opts ! (n - 1)) \<le> lower opts (layers ! (n - 1))"
    unfolding lower_def spec_of_nth [OF v rids i] by (rule max.cobounded1)
  show ?thesis
  proof (cases "lower opts (layers ! (n - 1)) < targetBitrate (layers ! (n - 1))")
    case True
    with low in_boundsD [OF inb i] show ?thesis
      by (simp add: tighten_top [OF n] ladder_ok_retarget [OF ok])
  next
    case False
    show ?thesis
    proof (cases "n > 1")
      case True
      with False lowest_active_switch_off [OF n True] rids inb show ?thesis
        by (auto simp: tighten_top [OF n] ladder_ok_def)
    qed (use False ok in \<open>simp add: tighten_top [OF n]\<close>)
  qed
qed

lemma raise_from_cases:
  "raise_from opts k layers = (layers, Hold) \<or>
    (\<exists>i < k. targetBitrate (layers ! i) < higher opts (layers ! i) \<and>
      raise_from opts k layers = (retarget layers i (higher opts (layers ! i)), Up))"
  by (induction k) (auto simp: Let_def retarget_def less_Suc_eq)

lemma first_inactive:
  assumes "lowest_active layers n"
  shows "find (\<lambda>i. \<not> layer_active (layers ! i)) [0..<length layers] = (if n < length layers then Some n else None)"
proof (cases "n < length layers")
  case True
  then have "find (\<lambda>i. \<not> layer_active (layers ! i)) [0..<length layers] = Some n"
    using assms by (auto simp: find_Some_iff lowest_active_def intro!: exI [of _ n])
  with True show ?thesis by simp
next
  case False
  with assms show ?thesis by (auto simp: find_None_iff lowest_active_def)
qed

lemma ladder_ok_loosen [inv_intros]:
  assumes v: "valid_ladder opts" and ok: "ladder_ok opts layers"
  shows "ladder_ok opts (fst (loosen opts layers))"
proof -
  obtain n where n: "lowest_active layers n" using ok by (auto simp: ladder_ok_def)
  have rids: "map rid layers = map spec_rid (opt_layers opts)" and inb: "in_bounds opts layers" using ok by (simp_all add: ladder_ok_def)
  show ?thesis
  proof (cases "n < length layers")
    case True
    then have "fst (loosen opts layers) = switch layers n True" by (simp add: loosen_def first_inactive [OF n] switch_def)
    with lowest_active_switch_on [OF n True] rids inb show ?thesis by (auto simp: ladder_ok_def)
  next
    case False
    then have l: "loosen opts layers = raise_from opts (length layers) layers" by (simp add: loosen_def first_inactive [OF n])
    from raise_from_cases [of opts "length layers" layers] show ?thesis
    proof
      assume "\<exists>i < length layers. targetBitrate (layers ! i) < higher opts (layers ! i) \<and>
        raise_from opts (length layers) layers = (retarget layers i (higher opts (layers ! i)), Up)"
      then obtain i where i: "i < length layers" "targetBitrate (layers ! i) < higher opts (layers ! i)"
        "loosen opts layers = (retarget layers i (higher opts (layers ! i)), Up)" using l by auto
      have "higher opts (layers ! i) \<le> maxBitrate (opt_layers opts ! i)" by (simp add: higher_def spec_of_nth [OF v rids i(1)])
      with i in_boundsD [OF inb i(1)] show ?thesis by (simp add: ladder_ok_retarget [OF ok])
    qed (use l ok in simp)
  qed
qed

lemma ladder_ok_adjust [inv_intros]:
  "valid_ladder opts \<Longrightarrow> ladder_ok opts layers \<Longrightarrow> ladder_ok opts (fst (adjust opts loss av layers))"
  by (simp add: adjust_def Let_def ladder_ok_tighten ladder_ok_loosen)

definition abr_ok :: "abr_controller \<Rightarrow> bool" where
  "abr_ok c \<longleftrightarrow> valid_ladder (abr_opts c) \<and> ladder_ok (abr_opts c) (snap_layers (abr_snap c))"

definition abr_act :: "rtc_stat list option \<times> int \<times> bool \<times> encoding list \<Rightarrow> abr_controller \<Rightarrow> abr_controller" where
  "abr_act e c = (case e of (report, now, set_ok, params) \<Rightarrow> fst (abr_tick report now set_ok params c))"

lemma abr_tick_cases:
  "fst (abr_tick report now set_ok params c) = c \<or>
    (\<exists>sample. fst (abr_tick report now set_ok params c) = c\<lparr>abr_prev := Some sample\<rparr>) \<or>
    (\<exists>sample snap loss av. fst (abr_tick report now set_ok params c) = c\<lparr>abr_prev := Some sample, abr_snap := snap\<rparr>
      \<and> snap_layers snap = fst (adjust (abr_opts c) loss av (snap_layers (abr_snap c))))"
proof (cases report)
  case (Some stats)
  obtain sample av where col: "collect stats now = (sample, av)" by fastforce
  obtain layers change where adj: "adjust (abr_opts c) (measured_loss (abr_prev c) sample) av (snap_layers (abr_snap c)) = (layers, change)" by fastforce
  show ?thesis
  proof (cases "(change \<noteq> Hold \<and> params \<noteq> []) \<and> \<not> set_ok")
    case True
    with Some col adj show ?thesis by (auto simp: abr_tick_def Let_def)
  next
    case False
    then have "fst (abr_tick report now set_ok params c) = c\<lparr>abr_prev := Some sample, abr_snap := \<lparr>snap_layers = layers, snap_available = av,
      observedOutboundBps = measured_rate (abr_prev c) sample, packetLossPct = measured_loss (abr_prev c) sample, lastChange = change,
      abr_ticks = abr_ticks (abr_snap c) + 1\<rparr>\<rparr>"
      using Some col adj by (auto simp: abr_tick_def Let_def)
    moreover have "layers = fst (adjust (abr_opts c) (measured_loss (abr_prev c) sample) av (snap_layers (abr_snap c)))" by (simp add: adj)
    ultimately show ?thesis by (metis abr_snapshot.select_convs(1))
  qed
qed (simp add: abr_tick_def)

lemma abr_ok_tick: "abr_ok c \<Longrightarrow> abr_ok (fst (abr_tick report now set_ok params c))"
  using abr_tick_cases [of report now set_ok params c] by (auto simp: abr_ok_def ladder_ok_adjust)

interpretation abr: event_machine abr_act abr_ok
  by unfold_locales (auto simp: abr_act_def abr_ok_tick)

lemma new_abr_ok: "valid_ladder opts \<Longrightarrow> abr_ok (new_AbrController opts)"
  by (auto simp: abr_ok_def new_AbrController_def ladder_ok_def in_bounds_def valid_ladder_def lowest_active_def comp_def list_all_iff Suc_le_eq
    intro!: exI [of _ "length (opt_layers opts)"])

lemma abr_tick_opts: "abr_opts (fst (abr_tick report now set_ok params c)) = abr_opts c"
  using abr_tick_cases [of report now set_ok params c] by auto

lemma abr_run_opts: "abr_opts (fold abr_act es c) = abr_opts c"
  by (induction es arbitrary: c) (auto simp: abr_act_def abr_tick_opts)

section \<open>Backing off\<close>

definition ladder_weight :: "abr_layer_state list \<Rightarrow> nat" where
  "ladder_weight layers = sum_list (map (\<lambda>l. if layer_active l then Suc (nat (targetBitrate l)) else 0) layers)"

lemma ladder_weight_update:
  assumes "i < length layers" "layer_active (layers ! i)"
    and "(if layer_active x then Suc (nat (targetBitrate x)) else 0) < Suc (nat (targetBitrate (layers ! i)))"
  shows "ladder_weight (layers[i := x]) < ladder_weight layers"
proof -
  let ?f = "\<lambda>l. if layer_active l then Suc (nat (targetBitrate l)) else 0"
  have split: "layers = take i layers @ layers ! i # drop (Suc i) layers" using assms(1) by (rule id_take_nth_drop)
  have new: "layers[i := x] = take i layers @ x # drop (Suc i) layers" using assms(1) by (rule upd_conv_take_nth_drop)
  have w: "ladder_weight (as @ y # bs) = ladder_weight as + ?f y + ladder_weight bs" for as y bs
    by (simp add: ladder_weight_def)
  have "ladder_weight layers = ladder_weight (take i layers) + ?f (layers ! i) + ladder_weight (drop (Suc i) layers)"
    by (subst split) (rule w)
  moreover have "?f x < ?f (layers ! i)" using assms(2,3) by simp
  ultimately show ?thesis unfolding new w by linarith
qed

definition floors_ok :: "abr_options \<Rightarrow> bool" where
  "floors_ok opts \<longleftrightarrow> 0 \<le> decreaseFactor opts \<and> decreaseFactor opts < 1 \<and> list_all (\<lambda>l. 0 \<le> minBitrate l) (opt_layers opts)"

lemma floor_cut:
  assumes "0 < t" "f < (1::rat)"
  shows "\<lfloor>of_int t * f\<rfloor> < t"
proof -
  have "of_int t * f < of_int t * 1" using assms by (intro mult_strict_left_mono) simp_all
  then show ?thesis by (simp add: floor_less_iff)
qed

definition backed_off :: "abr_options \<Rightarrow> abr_layer_state list \<Rightarrow> bool" where
  "backed_off opts layers \<longleftrightarrow> layers \<noteq> [] \<and> layer_active (hd layers) \<and>
    targetBitrate (hd layers) = minBitrate (hd (opt_layers opts)) \<and> list_all (\<lambda>l. \<not> layer_active l) (tl layers)"

lemma lowest_only:
  assumes "lowest_active layers 1"
  shows "layers \<noteq> []" "layer_active (hd layers)" "list_all (\<lambda>l. \<not> layer_active l) (tl layers)"
proof -
  show ne: "layers \<noteq> []" using assms by (auto simp: lowest_active_def)
  show "layer_active (hd layers)" using assms ne by (simp add: lowest_active_def hd_conv_nth)
  show "list_all (\<lambda>l. \<not> layer_active l) (tl layers)"
    using assms by (auto simp: list_all_length nth_tl lowest_active_def)
qed

text \<open>A cut either lowers the weight of the ladder or finds it backed off.\<close>

lemma tighten_progress:
  assumes v: "valid_ladder opts" and f: "floors_ok opts" and ok: "ladder_ok opts layers"
  shows "ladder_weight (fst (tighten opts layers)) < ladder_weight layers \<or>
    tighten opts layers = (layers, Hold) \<and> backed_off opts layers"
proof -
  obtain n where n: "lowest_active layers n" using ok by (auto simp: ladder_ok_def)
  define i where "i = n - 1"
  have i: "i < length layers" "layer_active (layers ! i)" using n unfolding i_def lowest_active_def by auto
  have rids: "map rid layers = map spec_rid (opt_layers opts)" and inb: "in_bounds opts layers" using ok by (simp_all add: ladder_ok_def)
  have len: "i < length (opt_layers opts)" using i(1) rids by (metis length_map)
  have m: "0 \<le> minBitrate (opt_layers opts ! i)" using f len by (simp add: floors_ok_def list_all_length)
  have low: "lower opts (layers ! i) = max (minBitrate (opt_layers opts ! i)) \<lfloor>of_int (targetBitrate (layers ! i)) * decreaseFactor opts\<rfloor>"
    by (simp add: lower_def spec_of_nth [OF v rids i(1)])
  note top = tighten_top [OF n, of opts, folded i_def]
  consider (cut) "lower opts (layers ! i) < targetBitrate (layers ! i)"
    | (off) "\<not> lower opts (layers ! i) < targetBitrate (layers ! i)" "n > 1"
    | (hold) "\<not> lower opts (layers ! i) < targetBitrate (layers ! i)" "n = 1"
    using n unfolding lowest_active_def by linarith
  then show ?thesis
  proof cases
    case cut
    then have "nat (lower opts (layers ! i)) < nat (targetBitrate (layers ! i))" using m low by linarith
    with ladder_weight_update [OF i] cut i(2) show ?thesis by (simp add: top retarget_def)
  next
    case off
    with ladder_weight_update [OF i] show ?thesis by (simp add: top switch_def)
  next
    case hold
    have "targetBitrate (layers ! i) = minBitrate (opt_layers opts ! i)"
    proof (rule ccontr)
      assume ne: "targetBitrate (layers ! i) \<noteq> minBitrate (opt_layers opts ! i)"
      with in_boundsD [OF inb i(1)] m have "0 < targetBitrate (layers ! i)" "minBitrate (opt_layers opts ! i) < targetBitrate (layers ! i)" by auto
      with floor_cut [of "targetBitrate (layers ! i)" "decreaseFactor opts"] f hold(1) low show False by (simp add: floors_ok_def)
    qed
    moreover have "i = 0" using hold(2) by (simp add: i_def)
    ultimately have "targetBitrate (hd layers) = minBitrate (hd (opt_layers opts))" using i len by (simp add: hd_conv_nth)
    with hold lowest_only n show ?thesis by (simp add: top backed_off_def)
  qed
qed

lemma adjust_high_loss: "highLossPct opts \<le> loss \<Longrightarrow> adjust opts loss av = tighten opts"
  by (simp add: adjust_def fun_eq_iff)

lemma backs_off:
  assumes "valid_ladder opts" "floors_ok opts" "highLossPct opts \<le> loss"
  shows "ladder_ok opts layers \<Longrightarrow> \<exists>k. let ls = ((\<lambda>ls. fst (adjust opts loss av ls)) ^^ k) layers
    in adjust opts loss av ls = (ls, Hold) \<and> backed_off opts ls"
proof (induction layers rule: measure_induct_rule [of ladder_weight])
  case (less layers)
  from tighten_progress [OF assms(1,2) less.prems] show ?case
  proof
    assume "ladder_weight (fst (tighten opts layers)) < ladder_weight layers"
    from less.IH [OF this ladder_ok_tighten [OF assms(1) less.prems]]
    obtain k where k: "let ls = ((\<lambda>ls. fst (adjust opts loss av ls)) ^^ k) (fst (adjust opts loss av layers))
      in adjust opts loss av ls = (ls, Hold) \<and> backed_off opts ls" by (auto simp: adjust_high_loss [OF assms(3)])
    then show ?thesis by (intro exI [of _ "Suc k"]) (simp only: funpow_Suc_right o_apply)
  next
    assume "tighten opts layers = (layers, Hold) \<and> backed_off opts layers"
    then show ?thesis by (intro exI [of _ 0]) (simp add: adjust_high_loss [OF assms(3)])
  qed
qed

section \<open>Properties\<close>

lemma default_valid: "valid_ladder default_abr" "floors_ok default_abr"
  by (simp_all add: valid_ladder_def floors_ok_def default_abr_def DEFAULT_LAYERS_def)

text \<open>
  C17. Whatever reports, failures of \<open>getStats\<close> and of \<open>setParameters\<close> and encodings the ticks meet, the controller
  keeps its ladder: the layers keep their \<open>rid\<close>s and order, each target stays between the floor and the ceiling of its
  layer, and the active layers are the lowest ones, at least one.
\<close>

theorem abr_invariant:
  assumes "valid_ladder opts"
  shows "ladder_ok opts (snap_layers (abr_snap (fold abr_act es (new_AbrController opts))))"
  using abr.run_good [OF new_abr_ok [OF assms], of es] by (simp add: abr_ok_def abr_run_opts new_AbrController_def)

theorem abr_invariant_witness:
  "ladder_ok default_abr (snap_layers (abr_snap (fold abr_act [(None, 0, True, []), (Some [], 2000, False, initial_encodings default_abr)]
    (new_AbrController default_abr))))"
  by (rule abr_invariant [OF default_valid(1)])

text \<open>
  C35. Under lasting loss the controller backs off to the bottom in finitely many ticks and stays there: the lowest layer is
  active at its floor, every other layer is off, and a further cut is a hold.
\<close>

theorem abr_backs_off:
  assumes "valid_ladder opts" "floors_ok opts" "highLossPct opts \<le> loss" "ladder_ok opts layers"
  shows "\<exists>k. let ls = ((\<lambda>ls. fst (adjust opts loss av ls)) ^^ k) layers
    in adjust opts loss av ls = (ls, Hold) \<and> backed_off opts ls"
  using assms by (rule backs_off)

theorem abr_backs_off_witness:
  "\<exists>k. let ls = ((\<lambda>ls. fst (adjust default_abr 10 None ls)) ^^ k) (snap_layers (abr_snap (new_AbrController default_abr)))
    in adjust default_abr 10 None ls = (ls, Hold) \<and> backed_off default_abr ls"
  using new_abr_ok [OF default_valid(1)]
  by (intro abr_backs_off default_valid) (simp_all add: abr_ok_def new_AbrController_def default_abr_def)

end
