(* ===== verification/FileTransfer.thy ===== *)
theory FileTransfer imports MediaCrypto DriveManifest begin

text \<open>
  File transfer over the data channels (\<open>pages/Index.tsx\<close>): the frames, the sender's loop over chunks
  and peers, and the receiver's table of transfers in progress with the final digest. A binary message is a
  list of bytes; a control message is the frame after \<open>JSON.parse\<close>. The states of the channels the sender
  finds, and the moment at which a digest is ready, are inputs.
\<close>

section \<open>Frames\<close>

definition FILE_HEADER_BYTES :: nat where "FILE_HEADER_BYTES = 8"
definition FILE_CHUNK_SIZE :: nat where "FILE_CHUNK_SIZE = 64 * 1024"

text \<open>\<open>setUint32\<close> keeps the low 32 bits of a number.\<close>

definition writeFileFrame :: "nat \<Rightarrow> nat \<Rightarrow> bytes \<Rightarrow> bytes" where
  "writeFileFrame transferId sq payload = be32 (word_of_nat transferId) @ be32 (word_of_nat sq) @ payload"

definition readFileFrameHeader :: "bytes \<Rightarrow> (nat \<times> nat \<times> bytes) option" where
  "readFileFrameHeader buf =
    (if length buf < FILE_HEADER_BYTES then None
     else Some (unat (frame_key_id buf), unat (frame_key_id (drop 4 buf)), drop FILE_HEADER_BYTES buf))"

definition bufferToHex :: "bytes \<Rightarrow> string" where
  "bufferToHex b = concat (map hex2 b)"

datatype file_msg =
    FileMeta nat string nat string nat
  | FileComplete nat

datatype file_wire = Control file_msg | Binary bytes

lemma be32_length [simp]: "length (be32 w) = 4"
  by (simp add: be32_def)

lemma read_write_frame:
  "readFileFrameHeader (writeFileFrame t s p) = Some (t mod 2 ^ 32, s mod 2 ^ 32, p)"
  by (simp add: readFileFrameHeader_def writeFileFrame_def FILE_HEADER_BYTES_def be32_read unat_of_nat)

section \<open>The sender\<close>

text \<open>
  What the sender finds when it comes to a peer: the channel is not open and is skipped; it is open and,
  once its buffer has drained, the send succeeds or throws (the channel has closed meanwhile); or its buffer never
  drains and the wait never ends.
\<close>

datatype chan_slot = ChanClosed | ChanReady bool | ChanBlocked

datatype send_outcome = Finished | SendThrew | SendStalled

fun send_round :: "(string \<Rightarrow> chan_slot) \<Rightarrow> string list \<Rightarrow> file_wire \<Rightarrow> (string \<times> file_wire) list \<times> send_outcome" where
  "send_round slot [] w = ([], Finished)"
| "send_round slot (p # ps) w =
    (case slot p of
       ChanClosed \<Rightarrow> send_round slot ps w
     | ChanBlocked \<Rightarrow> ([], SendStalled)
     | ChanReady False \<Rightarrow> ([], SendThrew)
     | ChanReady True \<Rightarrow> (let (sent, out) = send_round slot ps w in ((p, w) # sent, out)))"

definition total_chunks :: "nat \<Rightarrow> nat" where
  "total_chunks len = (let n = (len + FILE_CHUNK_SIZE - 1) div FILE_CHUNK_SIZE in if n = 0 then 1 else n)"

definition chunk_end :: "bytes \<Rightarrow> nat \<Rightarrow> nat" where
  "chunk_end data sq = min (sq * FILE_CHUNK_SIZE + FILE_CHUNK_SIZE) (length data)"

definition chunk_of :: "bytes \<Rightarrow> nat \<Rightarrow> bytes" where
  "chunk_of data sq = (let off = sq * FILE_CHUNK_SIZE in take (chunk_end data sq - off) (drop off data))"

text \<open>The progress shown, in per cent; \<open>None\<close> is the \<open>NaN\<close> of an empty file.\<close>

definition upload_percent :: "bytes \<Rightarrow> nat \<Rightarrow> nat option" where
  "upload_percent data sq = (if data = [] then None else Some (chunk_end data sq * 100 div length data))"

fun send_chunks ::
  "(nat \<Rightarrow> string \<Rightarrow> chan_slot) \<Rightarrow> string list \<Rightarrow> nat \<Rightarrow> bytes \<Rightarrow> nat list \<Rightarrow> nat option
    \<Rightarrow> (string \<times> file_wire) list \<times> nat option \<times> send_outcome" where
  "send_chunks slot peers t data [] pr = ([], pr, Finished)"
| "send_chunks slot peers t data (sq # sqs) pr =
    (let (sent, out) = send_round (slot sq) peers (Binary (writeFileFrame t sq (chunk_of data sq))) in
     if out \<noteq> Finished then (sent, pr, out)
     else let (rest, pr', out') = send_chunks slot peers t data sqs (upload_percent data sq) in (sent @ rest, pr', out'))"

record file_sender =
  nextTransferId :: nat
  uploadProgress :: "nat option"

definition file_meta :: "web_crypto \<Rightarrow> nat \<Rightarrow> string \<Rightarrow> bytes \<Rightarrow> file_msg" where
  "file_meta W t name data = FileMeta t name (length data) (bufferToHex (sha_256 W data)) (total_chunks (length data))"

text \<open>
  \<open>peers\<close> are the channels open at the call, \<open>meta_ok\<close> says for which of them the first send succeeds, and
  \<open>slot\<close> gives what each round finds, the last one being that of the \<open>file-complete\<close>.
\<close>

definition sendFileToAll ::
  "web_crypto \<Rightarrow> string list \<Rightarrow> (string \<Rightarrow> bool) \<Rightarrow> (nat \<Rightarrow> string \<Rightarrow> chan_slot) \<Rightarrow> string \<Rightarrow> bytes \<Rightarrow> file_sender
    \<Rightarrow> (string \<times> file_wire) list \<times> send_outcome \<times> file_sender" where
  "sendFileToAll W peers meta_ok slot name data s =
    (if peers = [] then ([], Finished, s)
     else
       let t = nextTransferId s;
           s1 = s\<lparr>nextTransferId := t + 1, uploadProgress := Some 0\<rparr>;
           total = total_chunks (length data);
           (metas, out) = send_round (\<lambda>p. ChanReady (meta_ok p)) peers (Control (file_meta W t name data))
       in if out \<noteq> Finished then (metas, out, s1)
          else let (frames, pr, out1) = send_chunks slot peers t data [0..<total] (uploadProgress s1) in
            if out1 \<noteq> Finished then (metas @ frames, out1, s1\<lparr>uploadProgress := pr\<rparr>)
            else let (ends, out2) = send_round (slot total) peers (Control (FileComplete t)) in
              (metas @ frames @ ends, out2, s1\<lparr>uploadProgress := (if out2 = Finished then Some 100 else pr)\<rparr>))"

section \<open>The receiver\<close>

record incoming_file =
  inc_name :: string
  inc_size :: nat
  inc_hash :: string
  inc_totalChunks :: nat
  inc_chunks :: "bytes option list"
  receivedBytes :: nat
  inc_from :: string

record received_file =
  rf_name :: string
  rf_size :: nat
  rf_url :: "bytes option"
  rf_error :: "string option"

record file_receiver =
  incoming :: "(string, incoming_file) jmap"
  finalizing :: "incoming_file list"
  receivedFiles :: "received_file list"

definition transferKey :: "string \<Rightarrow> nat \<Rightarrow> string" where
  "transferKey remote t = remote @ '':'' @ nat_str t"

definition shown_error :: "incoming_file \<Rightarrow> string \<Rightarrow> received_file" where
  "shown_error e msg = \<lparr>rf_name = inc_name e, rf_size = inc_size e, rf_url = None, rf_error = Some msg\<rparr>"

definition missing_chunk :: "incoming_file \<Rightarrow> nat option" where
  "missing_chunk e = find (\<lambda>i. inc_chunks e ! i = None) [0..<inc_totalChunks e]"

text \<open>The missing chunks are looked for at once; the digest of a complete blob is awaited.\<close>

definition finalizeIncomingFile :: "incoming_file \<Rightarrow> file_receiver \<Rightarrow> file_receiver" where
  "finalizeIncomingFile e s =
    (case missing_chunk e of
       Some i \<Rightarrow> s\<lparr>receivedFiles := receivedFiles s @ [shown_error e (''Missing chunk '' @ nat_str i)]\<rparr>
     | None \<Rightarrow> s\<lparr>finalizing := finalizing s @ [e]\<rparr>)"

definition blob_of :: "incoming_file \<Rightarrow> bytes" where
  "blob_of e = concat (map (\<lambda>c. case c of None \<Rightarrow> [] | Some b \<Rightarrow> b) (inc_chunks e))"

definition digested :: "web_crypto \<Rightarrow> incoming_file \<Rightarrow> received_file" where
  "digested W e =
    (if bufferToHex (sha_256 W (blob_of e)) \<noteq> inc_hash e then shown_error e ''Integrity check failed''
     else \<lparr>rf_name = inc_name e, rf_size = inc_size e, rf_url = Some (blob_of e), rf_error = None\<rparr>)"

definition on_digest :: "web_crypto \<Rightarrow> nat \<Rightarrow> file_receiver \<Rightarrow> file_receiver" where
  "on_digest W i s =
    (if i < length (finalizing s)
     then s\<lparr>finalizing := take i (finalizing s) @ drop (Suc i) (finalizing s),
            receivedFiles := receivedFiles s @ [digested W (finalizing s ! i)]\<rparr>
     else s)"

text \<open>\<open>new Array(n)\<close> throws from \<open>2 ^ 32\<close> on; the message handler catches it and the frame has no effect.\<close>

fun on_file_msg :: "string \<Rightarrow> file_msg \<Rightarrow> file_receiver \<Rightarrow> file_receiver" where
  "on_file_msg remote (FileMeta t name sz hash count) s =
    (if count < 2 ^ 32
     then s\<lparr>incoming := jm_set (incoming s) (transferKey remote t)
            \<lparr>inc_name = name, inc_size = sz, inc_hash = hash, inc_totalChunks = count, inc_chunks = replicate count None,
             receivedBytes = 0, inc_from = remote\<rparr>\<rparr>
     else s)"
| "on_file_msg remote (FileComplete t) s =
    (case jm_get (incoming s) (transferKey remote t) of
       None \<Rightarrow> s
     | Some e \<Rightarrow> finalizeIncomingFile e (s\<lparr>incoming := jm_del (incoming s) (transferKey remote t)\<rparr>))"

definition put_chunk :: "nat \<Rightarrow> bytes \<Rightarrow> incoming_file \<Rightarrow> incoming_file" where
  "put_chunk sq payload e =
    (if sq < inc_totalChunks e \<and> inc_chunks e ! sq = None
     then e\<lparr>inc_chunks := (inc_chunks e)[sq := Some payload], receivedBytes := receivedBytes e + length payload\<rparr>
     else e)"

definition handleDataFrame :: "string \<Rightarrow> bytes \<Rightarrow> file_receiver \<Rightarrow> file_receiver" where
  "handleDataFrame remote buf s =
    (case readFileFrameHeader buf of
       None \<Rightarrow> s
     | Some (t, sq, payload) \<Rightarrow>
         (case jm_get (incoming s) (transferKey remote t) of
            None \<Rightarrow> s
          | Some e \<Rightarrow> s\<lparr>incoming := jm_set (incoming s) (transferKey remote t) (put_chunk sq payload e)\<rparr>))"

datatype file_event = Arrived string file_wire | Digested nat

fun on_file_event :: "web_crypto \<Rightarrow> file_event \<Rightarrow> file_receiver \<Rightarrow> file_receiver" where
  "on_file_event W (Arrived remote (Control m)) s = on_file_msg remote m s"
| "on_file_event W (Arrived remote (Binary b)) s = handleDataFrame remote b s"
| "on_file_event W (Digested i) s = on_digest W i s"

definition empty_receiver :: file_receiver where
  "empty_receiver = \<lparr>incoming = [], finalizing = [], receivedFiles = []\<rparr>"

section \<open>What the sender sends\<close>

text \<open>The messages of one transfer, as a peer that stays open gets them.\<close>

definition chunk_wire :: "nat \<Rightarrow> bytes \<Rightarrow> nat \<Rightarrow> file_wire" where
  "chunk_wire t data sq = Binary (writeFileFrame t sq (chunk_of data sq))"

definition transfer_msgs :: "web_crypto \<Rightarrow> nat \<Rightarrow> string \<Rightarrow> bytes \<Rightarrow> file_wire list" where
  "transfer_msgs W t name data = Control (file_meta W t name data)
    # map (chunk_wire t data) [0..<total_chunks (length data)] @ [Control (FileComplete t)]"

definition sent_to :: "string \<Rightarrow> (string \<times> file_wire) list \<Rightarrow> file_wire list" where
  "sent_to p sent = map snd (filter (\<lambda>(q, w). q = p) sent)"

lemma sent_to_append [simp]: "sent_to p (a @ b) = sent_to p a @ sent_to p b"
  by (simp add: sent_to_def)

lemma send_round_other: "p \<notin> set peers \<Longrightarrow> send_round slot peers w = (sent, out) \<Longrightarrow> sent_to p sent = []"
  by (induction peers arbitrary: sent out)
    (auto simp: sent_to_def split: chan_slot.splits bool.splits prod.splits)

lemma send_round_reaches:
  "distinct peers \<Longrightarrow> p \<in> set peers \<Longrightarrow> slot p \<noteq> ChanClosed \<Longrightarrow> send_round slot peers w = (sent, Finished)
    \<Longrightarrow> sent_to p sent = [w]"
proof (induction peers arbitrary: sent)
  case (Cons q peers)
  show ?case
  proof (cases "slot q")
    case ChanClosed
    with Cons show ?thesis by auto
  next
    case (ChanReady b)
    then obtain rest where b: "b" and rest: "send_round slot peers w = (rest, Finished)" "sent = (q, w) # rest"
      using Cons.prems(4) by (auto split: bool.splits prod.splits)
    show ?thesis
    proof (cases "q = p")
      case True
      with Cons.prems(1) send_round_other [OF _ rest(1)] rest(2) show ?thesis by (simp add: sent_to_def)
    next
      case False
      with Cons.IH [OF _ _ Cons.prems(3) rest(1)] Cons.prems rest(2) show ?thesis by (simp add: sent_to_def)
    qed
  next
    case ChanBlocked
    with Cons.prems show ?thesis by simp
  qed
qed simp

lemma send_chunks_reaches:
  "distinct peers \<Longrightarrow> p \<in> set peers \<Longrightarrow> \<forall>sq \<in> set sqs. slot sq p \<noteq> ChanClosed
    \<Longrightarrow> send_chunks slot peers t data sqs pr = (sent, pr', Finished) \<Longrightarrow> sent_to p sent = map (chunk_wire t data) sqs"
proof (induction sqs arbitrary: sent pr)
  case (Cons sq sqs)
  then obtain a b where a: "send_round (slot sq) peers (chunk_wire t data sq) = (a, Finished)"
    and b: "send_chunks slot peers t data sqs (upload_percent data sq) = (b, pr', Finished)" and s: "sent = a @ b"
    by (auto simp: chunk_wire_def split: prod.splits if_splits)
  from send_round_reaches [OF Cons.prems(1,2) _ a] Cons.prems(3) have "sent_to p a = [chunk_wire t data sq]" by simp
  with Cons.IH [OF Cons.prems(1,2) _ b] Cons.prems(3) s show ?case by simp
qed (simp add: sent_to_def)

lemma sendFileToAll_reaches:
  assumes peers: "distinct peers" "p \<in> set peers"
    and open_: "\<forall>sq \<le> total_chunks (length data). slot sq p \<noteq> ChanClosed"
    and run: "sendFileToAll W peers meta_ok slot name data s = (sent, Finished, s')"
  shows "sent_to p sent = transfer_msgs W (nextTransferId s) name data"
proof -
  let ?n = "total_chunks (length data)" and ?t = "nextTransferId s"
  have "peers \<noteq> []" using peers(2) by auto
  with run obtain a b c pr where a: "send_round (\<lambda>p. ChanReady (meta_ok p)) peers (Control (file_meta W ?t name data)) = (a, Finished)"
    and b: "send_chunks slot peers ?t data [0..<?n] (Some 0) = (b, pr, Finished)"
    and c: "send_round (slot ?n) peers (Control (FileComplete ?t)) = (c, Finished)" and sent: "sent = a @ b @ c"
    by (auto simp: sendFileToAll_def Let_def split: prod.splits if_splits)
  have "sent_to p a = [Control (file_meta W ?t name data)]" by (rule send_round_reaches [OF peers _ a]) simp
  moreover have "sent_to p b = map (chunk_wire ?t data) [0..<?n]" using open_ by (intro send_chunks_reaches [OF peers _ b]) auto
  moreover have "sent_to p c = [Control (FileComplete ?t)]" using open_ by (intro send_round_reaches [OF peers _ c]) auto
  ultimately show ?thesis by (simp add: sent transfer_msgs_def)
qed

lemma chunk_of_take: "chunk_of data sq = take FILE_CHUNK_SIZE (drop (sq * FILE_CHUNK_SIZE) data)"
  by (simp add: chunk_of_def chunk_end_def Let_def min_def)

lemma chunks_prefix: "concat (map (chunk_of data) [0..<n]) = take (n * FILE_CHUNK_SIZE) data"
proof (induction n)
  case (Suc n)
  have "take (Suc n * FILE_CHUNK_SIZE) data = take (n * FILE_CHUNK_SIZE) data @ chunk_of data n"
    unfolding chunk_of_take mult_Suc add.commute [of FILE_CHUNK_SIZE] by (rule take_add)
  with Suc show ?case by simp
qed simp

lemma total_chunks_cover: "len \<le> total_chunks len * FILE_CHUNK_SIZE"
proof -
  have c: "FILE_CHUNK_SIZE = 65536" by (simp add: FILE_CHUNK_SIZE_def)
  have k: "len + 65536 - 1 = len + 65535" by simp
  define n where "n = (len + 65535) div 65536"
  have "len + 65535 = n * 65536 + (len + 65535) mod 65536" unfolding n_def by (rule div_mult_mod_eq [symmetric])
  moreover have "(len + 65535) mod 65536 < 65536" by (rule mod_less_divisor) simp
  ultimately have "len \<le> n * 65536" by linarith
  then show ?thesis unfolding total_chunks_def Let_def c k n_def [symmetric] by (cases n) simp_all
qed

lemma chunks_concat: "concat (map (chunk_of data) [0..<total_chunks (length data)]) = data"
  using total_chunks_cover by (simp add: chunks_prefix)

section \<open>What the receiver makes of it\<close>

fun wire_key :: "string \<Rightarrow> file_wire \<Rightarrow> string option" where
  "wire_key remote (Control (FileMeta t _ _ _ _)) = Some (transferKey remote t)"
| "wire_key remote (Control (FileComplete t)) = Some (transferKey remote t)"
| "wire_key remote (Binary b) = map_option (\<lambda>(t, _). transferKey remote t) (readFileFrameHeader b)"

fun event_key :: "file_event \<Rightarrow> string option" where
  "event_key (Arrived remote w) = wire_key remote w"
| "event_key (Digested i) = None"

lemma transferKey_inj: "transferKey r t = transferKey q u \<longleftrightarrow> r = q \<and> t = u"
  using shardKey_inj [of r t q u] by (simp add: transferKey_def shardKey_def)

lemma finalize_incoming [simp]: "incoming (finalizeIncomingFile e s) = incoming s"
  by (simp add: finalizeIncomingFile_def split: option.split)

lemma on_digest_incoming [simp]: "incoming (on_digest W i s) = incoming s"
  by (simp add: on_digest_def)

lemma other_event:
  assumes "event_key ev \<noteq> Some key"
  shows "jm_get (incoming (on_file_event W ev s)) key = jm_get (incoming s) key"
proof (cases ev)
  case (Arrived remote w)
  show ?thesis
  proof (cases w)
    case (Control m)
    with Arrived assms show ?thesis by (cases m) (auto split: option.split)
  next
    case (Binary b)
    with Arrived assms show ?thesis by (auto simp: handleDataFrame_def split: option.split)
  qed
qed simp

definition settled :: "web_crypto \<Rightarrow> incoming_file \<Rightarrow> file_receiver \<Rightarrow> bool" where
  "settled W e s \<longleftrightarrow> e \<in> set (finalizing s) \<or> digested W e \<in> set (receivedFiles s)"

lemma in_set_cut: "i < length xs \<Longrightarrow> x \<in> set xs \<longleftrightarrow> x = xs ! i \<or> x \<in> set (take i xs @ drop (Suc i) xs)"
  by (subst id_take_nth_drop [of i xs]) auto

lemma settled_finalize: "settled W e s \<Longrightarrow> settled W e (finalizeIncomingFile e' s)"
  by (auto simp: settled_def finalizeIncomingFile_def split: option.split)

lemma settled_incoming [simp]: "settled W e (s\<lparr>incoming := m\<rparr>) = settled W e s"
  by (simp add: settled_def)

lemma settled_file_msg: "settled W e s \<Longrightarrow> settled W e (on_file_msg remote m s)"
  by (cases m) (auto intro: settled_finalize split: option.split)

lemma settled_event: "settled W e s \<Longrightarrow> settled W e (on_file_event W ev s)"
proof (cases ev)
  case (Arrived remote w)
  assume "settled W e s"
  with Arrived show ?thesis
    by (cases w) (auto simp: handleDataFrame_def settled_file_msg split: option.split)
next
  case (Digested i)
  assume "settled W e s"
  with Digested in_set_cut [of i "finalizing s" e] show ?thesis by (auto simp: settled_def on_digest_def)
qed

text \<open>The entry of a transfer after its first \<open>n\<close> chunks.\<close>

definition partial_file :: "web_crypto \<Rightarrow> string \<Rightarrow> string \<Rightarrow> bytes \<Rightarrow> nat \<Rightarrow> incoming_file" where
  "partial_file W remote name data n =
    \<lparr>inc_name = name, inc_size = length data, inc_hash = bufferToHex (sha_256 W data), inc_totalChunks = total_chunks (length data),
     inc_chunks = map (\<lambda>i. if i < n then Some (chunk_of data i) else None) [0..<total_chunks (length data)],
     receivedBytes = length (concat (map (chunk_of data) [0..<n])), inc_from = remote\<rparr>"

lemma put_chunk_partial:
  assumes "n < total_chunks (length data)"
  shows "put_chunk n (chunk_of data n) (partial_file W remote name data n) = partial_file W remote name data (Suc n)"
proof -
  have "(map (\<lambda>i. if i < n then Some (chunk_of data i) else None) [0..<total_chunks (length data)])[n := Some (chunk_of data n)]
    = map (\<lambda>i. if i < Suc n then Some (chunk_of data i) else None) [0..<total_chunks (length data)]"
    using assms by (intro nth_equalityI) (auto simp: nth_list_update less_Suc_eq)
  with assms show ?thesis by (simp add: put_chunk_def partial_file_def)
qed

lemma missing_chunk_partial: "missing_chunk (partial_file W remote name data (total_chunks (length data))) = None"
  by (auto simp: missing_chunk_def partial_file_def find_None_iff)

lemma blob_of_partial: "blob_of (partial_file W remote name data (total_chunks (length data))) = data"
proof -
  have "map (\<lambda>c. case c of None \<Rightarrow> [] | Some b \<Rightarrow> b) (inc_chunks (partial_file W remote name data (total_chunks (length data))))
    = map (chunk_of data) [0..<total_chunks (length data)]" by (simp add: partial_file_def)
  then show ?thesis by (simp add: blob_of_def chunks_concat)
qed

lemma digested_partial:
  "digested W (partial_file W remote name data (total_chunks (length data)))
    = \<lparr>rf_name = name, rf_size = length data, rf_url = Some data, rf_error = None\<rparr>"
  by (simp add: digested_def blob_of_partial) (simp add: partial_file_def)

text \<open>How far the transfer \<open>t\<close> of \<open>remote\<close> is after \<open>n\<close> of its messages.\<close>

definition transfer_phase :: "web_crypto \<Rightarrow> string \<Rightarrow> nat \<Rightarrow> string \<Rightarrow> bytes \<Rightarrow> nat \<Rightarrow> file_receiver \<Rightarrow> bool" where
  "transfer_phase W remote t name data n s =
    (if n = 0 then True
     else if n \<le> total_chunks (length data) + 1
       then jm_get (incoming s) (transferKey remote t) = Some (partial_file W remote name data (n - 1))
     else settled W (partial_file W remote name data (total_chunks (length data))) s)"

lemma transfer_phase_other:
  "event_key ev \<noteq> Some (transferKey remote t) \<Longrightarrow> transfer_phase W remote t name data n s
    \<Longrightarrow> transfer_phase W remote t name data n (on_file_event W ev s)"
  by (simp add: transfer_phase_def other_event settled_event split: if_splits)

lemma transfer_phase_next:
  assumes small: "t < 2 ^ 32" "total_chunks (length data) < 2 ^ 32" and n: "n < length (transfer_msgs W t name data)"
    and ph: "transfer_phase W remote t name data n s"
  shows "transfer_phase W remote t name data (Suc n) (on_file_event W (Arrived remote (transfer_msgs W t name data ! n)) s)"
proof -
  let ?N = "total_chunks (length data)"
  have zero: "partial_file W remote name data 0 = \<lparr>inc_name = name, inc_size = length data, inc_hash = bufferToHex (sha_256 W data),
    inc_totalChunks = ?N, inc_chunks = replicate ?N None, receivedBytes = 0, inc_from = remote\<rparr>"
    by (simp add: partial_file_def map_replicate_const)
  consider "n = 0" | (chunk) i where "n = Suc i" "i < ?N" | (end_) "n = Suc ?N"
    using n by (cases n) (auto simp: transfer_msgs_def less_Suc_eq)
  then show ?thesis
  proof cases
    case 1
    with small show ?thesis by (simp add: transfer_phase_def transfer_msgs_def file_meta_def zero)
  next
    case chunk
    then have w: "transfer_msgs W t name data ! Suc i = Binary (writeFileFrame t i (chunk_of data i))"
      by (simp add: transfer_msgs_def nth_append chunk_wire_def)
    have "i < 2 ^ 32" using chunk(2) small(2) by linarith
    with chunk small(1) ph show ?thesis
      by (simp add: transfer_phase_def w handleDataFrame_def read_write_frame put_chunk_partial)
  next
    case end_
    then have w: "transfer_msgs W t name data ! Suc ?N = Control (FileComplete t)" by (simp add: transfer_msgs_def nth_append)
    from end_ ph have "jm_get (incoming s) (transferKey remote t) = Some (partial_file W remote name data ?N)" by (simp add: transfer_phase_def)
    then show ?thesis using end_ by (simp add: transfer_phase_def w finalizeIncomingFile_def missing_chunk_partial settled_def)
  qed
qed

lemma fold_phases:
  assumes other: "\<And>e n s. \<not> P e \<Longrightarrow> phase n s \<Longrightarrow> phase n (act e s)"
    and step: "\<And>n s. n < length ms \<Longrightarrow> phase n s \<Longrightarrow> phase (Suc n) (act (ms ! n) s)"
  shows "filter P es = drop k ms \<Longrightarrow> k \<le> length ms \<Longrightarrow> phase k s \<Longrightarrow> phase (length ms) (fold act es s)"
proof (induction es arbitrary: k s)
  case (Cons e es)
  show ?case
  proof (cases "P e")
    case True
    with Cons.prems have "drop k ms = e # filter P es" by simp
    then have "k < length ms" "e = ms ! k" "filter P es = drop (Suc k) ms"
      by (metis drop_eq_Nil2 list.distinct(1) not_le) (metis \<open>drop k ms = e # filter P es\<close> nth_via_drop, metis \<open>drop k ms = e # filter P es\<close> drop_Suc list.sel(3) tl_drop)
    with Cons.IH [of "Suc k" "act e s"] step [of k s] Cons.prems(3) show ?thesis by simp
  next
    case False
    with Cons.IH [of k "act e s"] other [of e k s] Cons.prems show ?thesis by simp
  qed
qed simp

lemma transfer_arrives:
  assumes small: "t < 2 ^ 32" "total_chunks (length data) < 2 ^ 32"
    and evs: "filter (\<lambda>ev. event_key ev = Some (transferKey remote t)) es = map (Arrived remote) (transfer_msgs W t name data)"
  shows "settled W (partial_file W remote name data (total_chunks (length data))) (fold (on_file_event W) es s)"
proof -
  let ?ms = "map (Arrived remote) (transfer_msgs W t name data)"
  have "transfer_phase W remote t name data (length ?ms) (fold (on_file_event W) es s)"
  proof (rule fold_phases [where P = "\<lambda>ev. event_key ev = Some (transferKey remote t)" and k = 0])
    fix n s assume "n < length ?ms" "transfer_phase W remote t name data n s"
    then show "transfer_phase W remote t name data (Suc n) (on_file_event W (?ms ! n) s)" using transfer_phase_next [OF small] by simp
  qed (use evs transfer_phase_other in \<open>auto simp: transfer_phase_def\<close>)
  then show ?thesis by (simp add: transfer_phase_def transfer_msgs_def)
qed

lemma transfer_msgs_keys:
  assumes "t < 2 ^ 32"
  shows "filter (\<lambda>ev. event_key ev = Some (transferKey remote t)) (map (Arrived remote) (transfer_msgs W t name data))
    = map (Arrived remote) (transfer_msgs W t name data)"
  using assms by (intro filter_True) (auto simp: transfer_msgs_def file_meta_def chunk_wire_def read_write_frame)

section \<open>What is shown\<close>

definition announced :: "file_event list \<Rightarrow> string \<Rightarrow> nat \<Rightarrow> string \<Rightarrow> bool" where
  "announced es name len hash \<longleftrightarrow> (\<exists>remote t count. Arrived remote (Control (FileMeta t name len hash count)) \<in> set es)"

definition receiver_ok :: "web_crypto \<Rightarrow> file_event list \<Rightarrow> file_receiver \<Rightarrow> bool" where
  "receiver_ok W es s \<longleftrightarrow>
    (\<forall>k e. jm_get (incoming s) k = Some e \<longrightarrow> announced es (inc_name e) (inc_size e) (inc_hash e)) \<and>
    (\<forall>e \<in> set (finalizing s). announced es (inc_name e) (inc_size e) (inc_hash e)) \<and>
    (\<forall>r \<in> set (receivedFiles s). rf_error r = None \<longrightarrow>
      (\<exists>d. rf_url r = Some d \<and> announced es (rf_name r) (rf_size r) (bufferToHex (sha_256 W d))))"

lemma receiver_ok_mono: "receiver_ok W es s \<Longrightarrow> receiver_ok W (es @ fs) s"
  unfolding receiver_ok_def announced_def by (simp add: Bex_def) meson

lemma receiver_ok_finalize:
  "receiver_ok W es s \<Longrightarrow> announced es (inc_name e) (inc_size e) (inc_hash e) \<Longrightarrow> receiver_ok W es (finalizeIncomingFile e s)"
  by (auto simp: receiver_ok_def finalizeIncomingFile_def shown_error_def split: option.split)

lemma receiver_ok_put:
  "receiver_ok W es s \<Longrightarrow> announced es (inc_name e) (inc_size e) (inc_hash e) \<Longrightarrow> receiver_ok W es (s\<lparr>incoming := jm_set (incoming s) k e\<rparr>)"
  by (simp add: receiver_ok_def)

lemma receiver_ok_del: "receiver_ok W es s \<Longrightarrow> receiver_ok W es (s\<lparr>incoming := jm_del (incoming s) k\<rparr>)"
  by (simp add: receiver_ok_def)

lemma receiver_ok_digest:
  assumes "receiver_ok W es s"
  shows "receiver_ok W es (on_digest W i s)"
proof (cases "i < length (finalizing s)")
  case True
  let ?e = "finalizing s ! i"
  have "announced es (inc_name ?e) (inc_size ?e) (inc_hash ?e)" using assms True by (simp add: receiver_ok_def)
  with assms True show ?thesis
    by (auto simp: receiver_ok_def on_digest_def digested_def shown_error_def dest: in_set_takeD in_set_dropD)
qed (use assms in \<open>simp add: on_digest_def\<close>)

lemma put_chunk_meta [simp]:
  "inc_name (put_chunk sq p e) = inc_name e" "inc_size (put_chunk sq p e) = inc_size e" "inc_hash (put_chunk sq p e) = inc_hash e"
  by (simp_all add: put_chunk_def)

lemma receiver_ok_event:
  assumes ok: "receiver_ok W es s" and new: "ev \<in> set es"
  shows "receiver_ok W es (on_file_event W ev s)"
proof (cases "(W, ev, s)" rule: on_file_event.cases)
  case (1 W' remote m s')
  then show ?thesis
  proof (cases m)
    case (FileMeta t name len hash count)
    with 1 new have "announced es name len hash" unfolding announced_def by auto
    with 1 FileMeta ok show ?thesis by (auto intro!: receiver_ok_put)
  next
    case (FileComplete t)
    show ?thesis
    proof (cases "jm_get (incoming s) (transferKey remote t)")
      case (Some e)
      with ok have "announced es (inc_name e) (inc_size e) (inc_hash e)" by (auto simp: receiver_ok_def)
      with 1 FileComplete Some ok show ?thesis by (simp add: receiver_ok_finalize receiver_ok_del)
    qed (use 1 FileComplete ok in simp)
  qed
next
  case (2 W' remote b s')
  with ok show ?thesis
    by (auto simp: handleDataFrame_def receiver_ok_def split: option.split)
next
  case (3 W' i s')
  with ok show ?thesis by (simp add: receiver_ok_digest)
qed

lemma receiver_ok_run: "receiver_ok W es (fold (on_file_event W) es empty_receiver)"
proof (induction es rule: rev_induct)
  case (snoc ev es)
  from receiver_ok_event [OF receiver_ok_mono [OF snoc, of "[ev]"]] show ?case by simp
qed (simp add: receiver_ok_def empty_receiver_def)

section \<open>A channel that closes\<close>

text \<open>The rounds in which a send fails or waits for ever.\<close>

definition bad_slot :: "chan_slot \<Rightarrow> bool" where
  "bad_slot c \<longleftrightarrow> c = ChanBlocked \<or> c = ChanReady False"

lemma send_round_bad: "p \<in> set peers \<Longrightarrow> bad_slot (slot p) \<Longrightarrow> snd (send_round slot peers w) \<noteq> Finished"
  by (induction peers) (auto simp: bad_slot_def split: chan_slot.splits bool.splits prod.splits)

lemma send_chunks_bad:
  "p \<in> set peers \<Longrightarrow> sq \<in> set sqs \<Longrightarrow> bad_slot (slot sq p) \<Longrightarrow> send_chunks slot peers t data sqs pr = (sent, pr', out) \<Longrightarrow> out \<noteq> Finished"
proof (induction sqs arbitrary: sent pr)
  case (Cons x sqs)
  with send_round_bad [of p peers "slot x"] show ?case
    by (auto simp: Let_def split: prod.splits if_splits) (metis snd_conv)+
qed simp

lemma send_round_wire: "send_round slot peers w = (sent, out) \<Longrightarrow> snd ` set sent \<subseteq> {w}"
  by (induction peers arbitrary: sent out) (auto split: chan_slot.splits bool.splits prod.splits, fastforce+)

lemma send_chunks_wire: "send_chunks slot peers t data sqs pr = (sent, pr', out) \<Longrightarrow> (q, Control m) \<notin> set sent"
proof (induction sqs arbitrary: sent pr)
  case (Cons x sqs)
  then show ?case using send_round_wire by (fastforce simp: Let_def split: prod.splits if_splits)
qed simp

lemma send_round_finishes: "\<forall>q \<in> set peers. \<not> bad_slot (slot q) \<Longrightarrow> snd (send_round slot peers w) = Finished"
  by (induction peers) (auto simp: bad_slot_def split: chan_slot.split bool.split prod.split)

lemma send_chunks_finishes:
  "\<forall>sq \<in> set sqs. \<forall>q \<in> set peers. \<not> bad_slot (slot sq q) \<Longrightarrow> snd (snd (send_chunks slot peers t data sqs pr)) = Finished"
proof (induction sqs arbitrary: pr)
  case (Cons x sqs)
  then have "snd (send_round (slot x) peers (Binary (writeFileFrame t x (chunk_of data x)))) = Finished"
    by (intro send_round_finishes) simp
  with Cons.IH [of "upload_percent data x"] Cons.prems show ?case by (simp add: case_prod_unfold Let_def)
qed simp

lemma sendFileToAll_finishes:
  assumes "list_all meta_ok peers" "\<forall>q \<in> set peers. \<forall>sq \<le> total_chunks (length data). \<not> bad_slot (slot sq q)"
  shows "fst (snd (sendFileToAll W peers meta_ok slot name data s)) = Finished"
proof -
  let ?n = "total_chunks (length data)"
  have "snd (send_round (\<lambda>p. ChanReady (meta_ok p)) peers w) = Finished" for w
    using assms(1) by (intro send_round_finishes) (auto simp: bad_slot_def list_all_iff)
  moreover have "snd (snd (send_chunks slot peers t data [0..<?n] pr)) = Finished" for t pr
    using assms(2) by (intro send_chunks_finishes) simp
  moreover have "snd (send_round (slot ?n) peers w) = Finished" for w
    using assms(2) by (intro send_round_finishes) simp
  ultimately show ?thesis by (simp add: sendFileToAll_def Let_def case_prod_unfold)
qed

section \<open>Properties\<close>

text \<open>
  C14. A file sent to the open channels reaches every peer whose channel stays open, provided that no peer's channel breaks in the
  middle of a send: at each round a channel may have closed before (it is skipped from then on), but none closes while the sender waits for its
  buffer to drain, and no send throws. Then the sender comes to its end, and at such a peer, whatever other transfers, peers,
  repeated or malformed frames and digests are interleaved with the messages of this one, which arrive in order, and whatever the receiver held
  before, the receiver shows the file under its name, with its size and exactly its bytes once its digests are
  ready. The proviso is the code's: where it fails nobody gets the file, see \<open>closing_peer_stops_the_file\<close> below.
\<close>

theorem file_delivered:
  assumes "distinct peers" "p \<in> set peers" "nextTransferId s < 2 ^ 32" "total_chunks (length data) < 2 ^ 32"
    and unbroken: "list_all meta_ok peers"
      "\<forall>q \<in> set peers. \<forall>sq \<le> total_chunks (length data). slot sq q \<noteq> ChanBlocked \<and> slot sq q \<noteq> ChanReady False"
    and "\<forall>sq \<le> total_chunks (length data). slot sq p \<noteq> ChanClosed"
    and run: "sendFileToAll W peers meta_ok slot name data s = (sent, outcome, s')"
    and "filter (\<lambda>ev. event_key ev = Some (transferKey me (nextTransferId s))) es = map (Arrived me) (sent_to p sent)"
    and "finalizing (fold (on_file_event W) es r) = []"
  shows "outcome = Finished
    \<and> \<lparr>rf_name = name, rf_size = length data, rf_url = Some data, rf_error = None\<rparr> \<in> set (receivedFiles (fold (on_file_event W) es r))"
proof
  show fin: "outcome = Finished"
    using sendFileToAll_finishes [OF unbroken(1), of data slot W name s] unbroken(2) run by (simp add: bad_slot_def)
  show "\<lparr>rf_name = name, rf_size = length data, rf_url = Some data, rf_error = None\<rparr> \<in> set (receivedFiles (fold (on_file_event W) es r))"
    using transfer_arrives [OF assms(3,4), of me es W name r] assms(9,10) sendFileToAll_reaches [OF assms(1,2,7) run [unfolded fin]]
    by (simp add: settled_def digested_partial)
qed

text \<open>The third channel is closed after the first round: it is skipped, and the second peer gets the file.\<close>

definition demo_slot :: "nat \<Rightarrow> string \<Rightarrow> chan_slot" where
  "demo_slot sq q = (if q = ''c'' \<and> 0 < sq then ChanClosed else ChanReady True)"

theorem file_delivered_witness:
  "\<lparr>rf_name = ''x'', rf_size = 3, rf_url = Some [1, 2, 3], rf_error = None\<rparr>
    \<in> set (receivedFiles (fold (on_file_event plain_crypto)
        (map (Arrived ''a'') (transfer_msgs plain_crypto 1 ''x'' [1, 2, 3]) @ [Digested 0]) empty_receiver))"
proof -
  let ?s = "\<lparr>nextTransferId = 1, uploadProgress = None\<rparr>"
  let ?run = "sendFileToAll plain_crypto [''b'', ''c''] (\<lambda>p. True) demo_slot ''x'' [1, 2, 3] ?s"
  have n: "total_chunks (Suc (Suc (Suc 0))) = Suc 0" by (simp add: total_chunks_def FILE_CHUNK_SIZE_def)
  have slots: "demo_slot sq q \<noteq> ChanBlocked \<and> demo_slot sq q \<noteq> ChanReady False" "demo_slot sq ''b'' \<noteq> ChanClosed" for sq q
    by (simp_all add: demo_slot_def)
  have "fst (snd ?run) = Finished" by (rule sendFileToAll_finishes) (simp_all add: bad_slot_def slots)
  then obtain sent s' where run: "?run = (sent, Finished, s')" by (metis prod.collapse)
  have to: "sent_to ''b'' sent = transfer_msgs plain_crypto 1 ''x'' [1, 2, 3]"
    using sendFileToAll_reaches [OF _ _ _ run, of "''b''"] slots by simp
  let ?es = "map (Arrived ''a'') (transfer_msgs plain_crypto 1 ''x'' [1, 2, 3]) @ [Digested 0]"
  have evs: "filter (\<lambda>ev. event_key ev = Some (transferKey ''a'' (nextTransferId ?s))) ?es = map (Arrived ''a'') (sent_to ''b'' sent)"
    using transfer_msgs_keys [of 1 "''a''"] by (simp add: to)
  have fin: "finalizing (fold (on_file_event plain_crypto) ?es empty_receiver) = []"
    by (simp add: transfer_msgs_def file_meta_def chunk_wire_def n handleDataFrame_def read_write_frame put_chunk_def missing_chunk_def
      on_digest_def finalizeIncomingFile_def empty_receiver_def)
  show ?thesis using file_delivered [OF _ _ _ _ _ _ _ run evs fin] slots by (simp add: n numeral_3_eq_3)
qed

text \<open>
  A file shown as received has passed the digest: its bytes hash to the value some frame announced together with its name
  and size; a file that lacks a chunk or has another digest is shown only with an error.
\<close>

theorem shown_file_matches_hash:
  assumes "r \<in> set (receivedFiles (fold (on_file_event W) es empty_receiver))" "rf_error r = None"
  shows "\<exists>d. rf_url r = Some d \<and> announced es (rf_name r) (rf_size r) (bufferToHex (sha_256 W d))"
  using receiver_ok_run [of W es] assms by (auto simp: receiver_ok_def)

theorem shown_file_matches_hash_witness:
  "let es = [Arrived ''a'' (Control (FileMeta 7 ''n'' 0 (bufferToHex (sha_256 plain_crypto [])) 0)), Arrived ''a'' (Control (FileComplete 7)), Digested 0];
       r = \<lparr>rf_name = ''n'', rf_size = 0, rf_url = Some [], rf_error = None\<rparr>
   in \<exists>d. rf_url r = Some d \<and> announced es (rf_name r) (rf_size r) (bufferToHex (sha_256 plain_crypto d))"
  unfolding Let_def
  by (rule shown_file_matches_hash) (simp_all add: empty_receiver_def finalizeIncomingFile_def missing_chunk_def on_digest_def digested_def blob_of_def)

text \<open>
  One peer can keep a file from all others: if, in some round, the channel of one peer closes while the sender waits
  for its buffer, or a send to it throws, then no peer is ever told that the file is complete, the peers whose channels stay open included.
\<close>

theorem closing_peer_stops_the_file:
  assumes "p \<in> set peers" "sq < total_chunks (length data)" "slot sq p = ChanBlocked \<or> slot sq p = ChanReady False"
  shows "fst (snd (sendFileToAll W peers meta_ok slot name data s)) \<noteq> Finished
    \<and> (q, Control (FileComplete (nextTransferId s))) \<notin> set (fst (sendFileToAll W peers meta_ok slot name data s))"
proof -
  let ?t = "nextTransferId s" and ?n = "total_chunks (length data)"
  obtain a oa where a: "send_round (\<lambda>p. ChanReady (meta_ok p)) peers (Control (file_meta W ?t name data)) = (a, oa)" by fastforce
  obtain b pr ob where b: "send_chunks slot peers ?t data [0..<?n] (Some 0) = (b, pr, ob)" by (metis prod.collapse)
  have "ob \<noteq> Finished" using assms(2,3) by (intro send_chunks_bad [OF assms(1) _ _ b, of sq]) (auto simp: bad_slot_def)
  moreover have "(q, Control (FileComplete ?t)) \<notin> set a" using send_round_wire [OF a] by (force simp: file_meta_def)
  moreover have "(q, Control (FileComplete ?t)) \<notin> set b" by (rule send_chunks_wire [OF b])
  moreover have "peers \<noteq> []" using assms(1) by auto
  ultimately show ?thesis using a b by (simp add: sendFileToAll_def Let_def)
qed

theorem closing_peer_stops_the_file_witness:
  "let run = sendFileToAll plain_crypto [''b'', ''c''] (\<lambda>p. True) (\<lambda>sq p. if p = ''b'' then ChanBlocked else ChanReady True) ''x'' [1, 2, 3]
      \<lparr>nextTransferId = 1, uploadProgress = None\<rparr>
   in fst (snd run) \<noteq> Finished \<and> (''c'', Control (FileComplete 1)) \<notin> set (fst run)"
  unfolding Let_def using closing_peer_stops_the_file [of "''b''" "[''b'', ''c'']" 0 "[1, 2, 3]"
    "\<lambda>sq p. if p = ''b'' then ChanBlocked else ChanReady True" plain_crypto "\<lambda>p. True" "''x''" "\<lparr>nextTransferId = 1, uploadProgress = None\<rparr>" "''c''"]
  by (simp only: file_sender.simps) (simp add: total_chunks_def FILE_CHUNK_SIZE_def)

end
