(* ===== verification/Sfu.thy ===== *)
theory Sfu imports JsonText begin

text \<open>
  The selective forwarding unit of the server (\<open>sfu/*.ts\<close>): one mediasoup worker, a router per room,
  a session per socket, and the handlers of the \<open>sfu:\<close> messages. mediasoup itself is not modelled: a call to it is
  an output, its result and the \<open>close\<close> events of its objects are inputs. A handler is cut at its
  awaits, so that other messages come between; what follows an await is a waiter of a router or a pending call.
  Parameters mediasoup defines (capabilities, \<open>RTP\<close>, \<open>ICE\<close> and \<open>DTLS\<close> parameters) are documents.
\<close>

section \<open>Configuration\<close>

record codec =
  codec_kind :: string
  mimeType :: string
  preferredPayloadType :: nat
  clockRate :: nat
  channels :: "nat option"
  startBitrate :: "nat option"

definition mediaCodecs :: "codec list" where
  "mediaCodecs =
    [\<lparr>codec_kind = ''audio'', mimeType = ''audio/opus'', preferredPayloadType = 100, clockRate = 48000, channels = Some 2, startBitrate = None\<rparr>,
     \<lparr>codec_kind = ''video'', mimeType = ''video/VP8'', preferredPayloadType = 101, clockRate = 90000, channels = None, startBitrate = Some 1000\<rparr>]"

text \<open>The environment variables; an unset one is \<open>None\<close>. The ports are those \<open>Number\<close> reads.\<close>

record sfu_env =
  MEDIASOUP_LISTEN_IP :: "string option"
  MEDIASOUP_ANNOUNCED_IP :: "string option"
  MEDIASOUP_MIN_PORT :: "nat option"
  MEDIASOUP_MAX_PORT :: "nat option"
  MEDIASOUP_LOG_LEVEL :: "string option"

definition or_else :: "'a option \<Rightarrow> 'a \<Rightarrow> 'a" where
  "or_else v d = (case v of None \<Rightarrow> d | Some x \<Rightarrow> x)"

definition listenIps :: "sfu_env \<Rightarrow> (string \<times> string option) list" where
  "listenIps env =
    (let ip = or_else (MEDIASOUP_LISTEN_IP env) ''127.0.0.1''
     in [case MEDIASOUP_ANNOUNCED_IP env of None \<Rightarrow> (ip, None) | Some a \<Rightarrow> if a = [] then (ip, None) else (ip, Some a)])"

record transport_options =
  to_listenIps :: "(string \<times> string option) list"
  enableUdp :: bool
  enableTcp :: bool
  preferUdp :: bool
  initialAvailableOutgoingBitrate :: nat

definition webrtc_options :: "sfu_env \<Rightarrow> transport_options" where
  "webrtc_options env = \<lparr>to_listenIps = listenIps env, enableUdp = True, enableTcp = True, preferUdp = True,
    initialAvailableOutgoingBitrate = 1000000\<rparr>"

record worker_options =
  wo_logLevel :: string
  rtcMinPort :: nat
  rtcMaxPort :: nat

definition createWorker :: "sfu_env \<Rightarrow> worker_options" where
  "createWorker env = \<lparr>wo_logLevel = or_else (MEDIASOUP_LOG_LEVEL env) ''warn'', rtcMinPort = or_else (MEDIASOUP_MIN_PORT env) 40000,
    rtcMaxPort = or_else (MEDIASOUP_MAX_PORT env) 40100\<rparr>"

section \<open>State\<close>

record sfu_router =
  rt_id :: string
  rtpCapabilities :: doc
  rt_closed :: bool

record sfu_transport =
  tr_id :: string
  iceParameters :: doc
  iceCandidates :: doc
  dtlsParameters :: doc

record sfu_consumer =
  con_id :: string
  con_producerId :: string
  con_kind :: string
  con_rtpParameters :: doc

text \<open>A session: \<open>producers\<close> gives the kind of each producer.\<close>

record sfu_session =
  ses_roomId :: string
  sendTransport :: "sfu_transport option"
  recvTransport :: "sfu_transport option"
  producers :: "(string, string) jmap"
  consumers :: "(string, sfu_consumer) jmap"

datatype worker_cell = NoWorker | Starting | Running

datatype direction = SendDir | RecvDir

datatype sfu_wait = WaitCaps string | WaitTransport string direction

datatype sfu_call =
    CallTransport string string direction
  | CallConnect string
  | CallProduce string nat
  | CallConsume string nat
  | CallResume string

text \<open>
  A handler keeps the session object it read before an await, also when the socket has another session or none
  afterwards; so sessions live in a store and the map holds references. \<open>in_room_rel\<close> is \<open>socket.rooms\<close>; \<open>pending\<close> says
  for each router under construction whether it has been asked of the worker, and who waits for it.
\<close>

record sfu_state =
  in_room_rel :: "(string \<times> string) list"
  sfu_worker :: worker_cell
  routers :: "(string, sfu_router) jmap"
  pending :: "(string, bool \<times> sfu_wait list) jmap"
  sessions :: "(string, nat) jmap"
  store :: "sfu_session list"
  sfu_calls :: "sfu_call list"

datatype sfu_ack =
    AckError string
  | AckCaps doc
  | AckTransport sfu_transport
  | AckConnected
  | AckProduced string
  | AckConsumed sfu_consumer
  | AckResumed
  | AckClosed
  | AckProducers "(string \<times> string \<times> string) list"

datatype sfu_msg =
    NewProducer string string string
  | ProducerGone string string
  | ConsumerGone string

datatype sfu_out =
    Ack string sfu_ack
  | ToOthers string string sfu_msg
  | ToSocket string sfu_msg
  | StartWorker worker_options
  | CreateRouter string "codec list"
  | CreateTransport string transport_options
  | ConnectTransport string doc
  | ProduceOn string string doc
  | ConsumeOn string string doc bool
  | ResumeConsumer string
  | CloseRouter string
  | CloseTransport string
  | CloseProducer string
  | CloseConsumer string

section \<open>Routers\<close>

definition getRouter :: "sfu_state \<Rightarrow> string \<Rightarrow> sfu_router option" where
  "getRouter s room = (case jm_get (routers s) room of None \<Rightarrow> None | Some r \<Rightarrow> if rt_closed r then None else Some r)"

text \<open>What a handler does once it has the router.\<close>

fun with_router :: "sfu_env \<Rightarrow> string \<Rightarrow> sfu_router \<Rightarrow> sfu_wait \<Rightarrow> sfu_state \<Rightarrow> sfu_state \<times> sfu_out list" where
  "with_router env room r (WaitCaps sock) s = (s, [Ack sock (AckCaps (rtpCapabilities r))])"
| "with_router env room r (WaitTransport sock dir) s =
    (s\<lparr>sfu_calls := sfu_calls s @ [CallTransport sock room dir]\<rparr>, [CreateTransport (rt_id r) (webrtc_options env)])"

fun wait_sock :: "sfu_wait \<Rightarrow> string" where
  "wait_sock (WaitCaps sock) = sock"
| "wait_sock (WaitTransport sock dir) = sock"

definition reject_waiters :: "string \<Rightarrow> sfu_wait list \<Rightarrow> sfu_out list" where
  "reject_waiters err ws = map (\<lambda>w. Ack (wait_sock w) (AckError err)) ws"

definition getWorker :: "sfu_env \<Rightarrow> sfu_state \<Rightarrow> sfu_state \<times> sfu_out list" where
  "getWorker env s = (if sfu_worker s = NoWorker then (s\<lparr>sfu_worker := Starting\<rparr>, [StartWorker (createWorker env)]) else (s, []))"

definition getOrCreateRouter :: "sfu_env \<Rightarrow> string \<Rightarrow> sfu_wait \<Rightarrow> sfu_state \<Rightarrow> sfu_state \<times> sfu_out list" where
  "getOrCreateRouter env room w s =
    (case getRouter s room of
       Some r \<Rightarrow> with_router env room r w s
     | None \<Rightarrow>
        (case jm_get (pending s) room of
           Some (asked, ws) \<Rightarrow> (s\<lparr>pending := jm_set (pending s) room (asked, ws @ [w])\<rparr>, [])
         | None \<Rightarrow>
             if sfu_worker s = Running
             then (s\<lparr>pending := jm_set (pending s) room (True, [w])\<rparr>, [CreateRouter room mediaCodecs])
             else let (s1, out) = getWorker env s in (s1\<lparr>pending := jm_set (pending s1) room (False, [w])\<rparr>, out)))"

definition on_worker :: "unit result \<Rightarrow> sfu_state \<Rightarrow> sfu_state \<times> sfu_out list" where
  "on_worker res s =
    (if sfu_worker s \<noteq> Starting then (s, [])
     else case res of
       Inl err \<Rightarrow> (s\<lparr>sfu_worker := NoWorker, pending := filter (\<lambda>(room, asked, ws). asked) (pending s)\<rparr>,
           concat (map (\<lambda>(room, asked, ws). if asked then [] else reject_waiters err ws) (pending s)))
     | Inr _ \<Rightarrow> (s\<lparr>sfu_worker := Running, pending := map (\<lambda>(room, asked, ws). (room, True, ws)) (pending s)\<rparr>,
           concat (map (\<lambda>(room, asked, ws). if asked then [] else [CreateRouter room mediaCodecs]) (pending s))))"

fun run_waiters :: "sfu_env \<Rightarrow> string \<Rightarrow> sfu_router \<Rightarrow> sfu_wait list \<Rightarrow> sfu_state \<Rightarrow> sfu_state \<times> sfu_out list" where
  "run_waiters env room r [] s = (s, [])"
| "run_waiters env room r (w # ws) s =
    (let (s1, o1) = with_router env room r w s; (s2, o2) = run_waiters env room r ws s1 in (s2, o1 @ o2))"

text \<open>The worker answers with the identifier and the capabilities of the new router.\<close>

definition on_router :: "sfu_env \<Rightarrow> string \<Rightarrow> (string \<times> doc) result \<Rightarrow> sfu_state \<Rightarrow> sfu_state \<times> sfu_out list" where
  "on_router env room res s =
    (case jm_get (pending s) room of
       Some (True, ws) \<Rightarrow>
         (case res of
            Inl err \<Rightarrow> (s\<lparr>pending := jm_del (pending s) room\<rparr>, reject_waiters err ws)
          | Inr (i, caps) \<Rightarrow>
              let r = \<lparr>rt_id = i, rtpCapabilities = caps, rt_closed = False\<rparr>
              in run_waiters env room r ws (s\<lparr>pending := jm_del (pending s) room, routers := jm_set (routers s) room r\<rparr>))
     | _ \<Rightarrow> (s, []))"

definition roomHasSessions :: "sfu_state \<Rightarrow> string \<Rightarrow> bool" where
  "roomHasSessions s room = list_ex (\<lambda>ref. ses_roomId (store s ! ref) = room) (jm_values (sessions s))"

text \<open>\<open>close\<close> of a router fires its observer, which deletes it from the map.\<close>

definition closeRouterIfEmpty :: "string \<Rightarrow> sfu_state \<Rightarrow> sfu_state \<times> sfu_out list" where
  "closeRouterIfEmpty room s =
    (case getRouter s room of
       None \<Rightarrow> (s, [])
     | Some r \<Rightarrow> if roomHasSessions s room then (s, []) else (s\<lparr>routers := jm_del (routers s) room\<rparr>, [CloseRouter room]))"

section \<open>Sessions\<close>

definition getSession :: "sfu_state \<Rightarrow> string \<Rightarrow> nat option" where
  "getSession s sock = jm_get (sessions s) sock"

definition new_session :: "string \<Rightarrow> sfu_session" where
  "new_session room = \<lparr>ses_roomId = room, sendTransport = None, recvTransport = None, producers = [], consumers = []\<rparr>"

definition upd_session :: "nat \<Rightarrow> (sfu_session \<Rightarrow> sfu_session) \<Rightarrow> sfu_state \<Rightarrow> sfu_state" where
  "upd_session ref f s = s\<lparr>store := (store s)[ref := f (store s ! ref)]\<rparr>"

definition close_opt :: "sfu_transport option \<Rightarrow> sfu_out list" where
  "close_opt t = (case t of None \<Rightarrow> [] | Some t \<Rightarrow> [CloseTransport (tr_id t)])"

text \<open>The observers of the closed consumers and producers empty the maps of the session.\<close>

definition closeSession :: "string \<Rightarrow> sfu_state \<Rightarrow> sfu_state \<times> sfu_out list" where
  "closeSession sock s =
    (case getSession s sock of
       None \<Rightarrow> (s, [])
     | Some ref \<Rightarrow>
         let ses = store s ! ref
         in ((upd_session ref (\<lambda>x. x\<lparr>producers := [], consumers := []\<rparr>) s)\<lparr>sessions := jm_del (sessions s) sock\<rparr>,
             map CloseConsumer (jm_keys (consumers ses)) @ map CloseProducer (jm_keys (producers ses))
               @ close_opt (sendTransport ses) @ close_opt (recvTransport ses)))"

definition create_session :: "string \<Rightarrow> string \<Rightarrow> sfu_state \<Rightarrow> nat \<times> sfu_state" where
  "create_session sock room s =
    (length (store s), s\<lparr>store := store s @ [new_session room], sessions := jm_set (sessions s) sock (length (store s))\<rparr>)"

definition ensureSession :: "string \<Rightarrow> string \<Rightarrow> sfu_state \<Rightarrow> nat \<times> sfu_state \<times> sfu_out list" where
  "ensureSession sock room s =
    (case getSession s sock of
       Some ref \<Rightarrow>
         if ses_roomId (store s ! ref) = room then (ref, s, [])
         else let (s1, out) = closeSession sock s; (ref', s2) = create_session sock room s1 in (ref', s2, out)
     | None \<Rightarrow> let (ref', s2) = create_session sock room s in (ref', s2, []))"

definition sessionsInRoom :: "sfu_state \<Rightarrow> string \<Rightarrow> (string \<times> sfu_session) list" where
  "sessionsInRoom s room = filter (\<lambda>(sock, ses). ses_roomId ses = room) (map (\<lambda>(sock, ref). (sock, store s ! ref)) (sessions s))"

section \<open>Handlers\<close>

definition sfu_inRoom :: "sfu_state \<Rightarrow> string \<Rightarrow> string \<Rightarrow> bool" where
  "sfu_inRoom s sock room \<longleftrightarrow> room \<noteq> [] \<and> (sock, room) \<in> set (in_room_rel s)"

definition on_get_caps :: "sfu_env \<Rightarrow> string \<Rightarrow> string \<Rightarrow> sfu_state \<Rightarrow> sfu_state \<times> sfu_out list" where
  "on_get_caps env sock room s =
    (if \<not> sfu_inRoom s sock room then (s, [Ack sock (AckError ''not in room'')])
     else getOrCreateRouter env room (WaitCaps sock) s)"

definition on_create_transport :: "sfu_env \<Rightarrow> string \<Rightarrow> string \<Rightarrow> string \<Rightarrow> sfu_state \<Rightarrow> sfu_state \<times> sfu_out list" where
  "on_create_transport env sock room dir s =
    (if \<not> sfu_inRoom s sock room then (s, [Ack sock (AckError ''not in room'')])
     else if dir \<noteq> ''send'' \<and> dir \<noteq> ''recv'' then (s, [Ack sock (AckError ''bad direction'')])
     else getOrCreateRouter env room (WaitTransport sock (if dir = ''send'' then SendDir else RecvDir)) s)"

text \<open>The session is made only after the transport, whatever the socket has done meanwhile.\<close>

definition transport_made :: "string \<Rightarrow> string \<Rightarrow> direction \<Rightarrow> sfu_transport \<Rightarrow> sfu_state \<Rightarrow> sfu_state \<times> sfu_out list" where
  "transport_made sock room dir t s =
    (let (ref, s1, out) = ensureSession sock room s; ses = store s1 ! ref
     in case dir of
       SendDir \<Rightarrow> (upd_session ref (\<lambda>x. x\<lparr>sendTransport := Some t\<rparr>) s1, out @ close_opt (sendTransport ses) @ [Ack sock (AckTransport t)])
     | RecvDir \<Rightarrow> (upd_session ref (\<lambda>x. x\<lparr>recvTransport := Some t\<rparr>) s1, out @ close_opt (recvTransport ses) @ [Ack sock (AckTransport t)]))"

definition has_id :: "sfu_transport option \<Rightarrow> string \<Rightarrow> bool" where
  "has_id t i = (case t of None \<Rightarrow> False | Some t \<Rightarrow> tr_id t = i)"

definition on_connect_transport :: "string \<Rightarrow> string \<Rightarrow> doc \<Rightarrow> sfu_state \<Rightarrow> sfu_state \<times> sfu_out list" where
  "on_connect_transport sock tid dtls s =
    (case getSession s sock of
       None \<Rightarrow> (s, [Ack sock (AckError ''no session'')])
     | Some ref \<Rightarrow>
         if has_id (sendTransport (store s ! ref)) tid \<or> has_id (recvTransport (store s ! ref)) tid
         then (s\<lparr>sfu_calls := sfu_calls s @ [CallConnect sock]\<rparr>, [ConnectTransport tid dtls])
         else (s, [Ack sock (AckError ''unknown transport'')]))"

definition on_produce :: "string \<Rightarrow> string \<Rightarrow> string \<Rightarrow> doc \<Rightarrow> sfu_state \<Rightarrow> sfu_state \<times> sfu_out list" where
  "on_produce sock tid kind rtp s =
    (case getSession s sock of
       None \<Rightarrow> (s, [Ack sock (AckError ''no session'')])
     | Some ref \<Rightarrow>
         if \<not> has_id (sendTransport (store s ! ref)) tid then (s, [Ack sock (AckError ''not a send transport'')])
         else (s\<lparr>sfu_calls := sfu_calls s @ [CallProduce sock ref]\<rparr>, [ProduceOn tid kind rtp]))"

definition producer_made :: "string \<Rightarrow> nat \<Rightarrow> string \<Rightarrow> string \<Rightarrow> sfu_state \<Rightarrow> sfu_state \<times> sfu_out list" where
  "producer_made sock ref pid kind s =
    (upd_session ref (\<lambda>x. x\<lparr>producers := jm_set (producers x) pid kind\<rparr>) s,
     [ToOthers (ses_roomId (store s ! ref)) sock (NewProducer sock pid kind), Ack sock (AckProduced pid)])"

text \<open>\<open>can\<close> is what \<open>router.canConsume\<close> answers.\<close>

definition on_consume :: "string \<Rightarrow> string \<Rightarrow> string \<Rightarrow> doc \<Rightarrow> bool \<Rightarrow> sfu_state \<Rightarrow> sfu_state \<times> sfu_out list" where
  "on_consume sock room pid caps can s =
    (if \<not> sfu_inRoom s sock room then (s, [Ack sock (AckError ''not in room'')])
     else if getRouter s room = None then (s, [Ack sock (AckError ''no router'')])
     else if \<not> can then (s, [Ack sock (AckError ''cannot consume'')])
     else case getSession s sock of
       None \<Rightarrow> (s, [Ack sock (AckError ''no recv transport'')])
     | Some ref \<Rightarrow>
        (case recvTransport (store s ! ref) of
           None \<Rightarrow> (s, [Ack sock (AckError ''no recv transport'')])
         | Some t \<Rightarrow> (s\<lparr>sfu_calls := sfu_calls s @ [CallConsume sock ref]\<rparr>, [ConsumeOn (tr_id t) pid caps True])))"

definition consumer_made :: "string \<Rightarrow> nat \<Rightarrow> sfu_consumer \<Rightarrow> sfu_state \<Rightarrow> sfu_state \<times> sfu_out list" where
  "consumer_made sock ref c s =
    (upd_session ref (\<lambda>x. x\<lparr>consumers := jm_set (consumers x) (con_id c) c\<rparr>) s, [Ack sock (AckConsumed c)])"

definition on_resume_consumer :: "string \<Rightarrow> string \<Rightarrow> sfu_state \<Rightarrow> sfu_state \<times> sfu_out list" where
  "on_resume_consumer sock cid s =
    (case getSession s sock of
       None \<Rightarrow> (s, [Ack sock (AckError ''unknown consumer'')])
     | Some ref \<Rightarrow>
         if jm_has (consumers (store s ! ref)) cid
         then (s\<lparr>sfu_calls := sfu_calls s @ [CallResume sock]\<rparr>, [ResumeConsumer cid])
         else (s, [Ack sock (AckError ''unknown consumer'')]))"

definition on_close_producer :: "string \<Rightarrow> string \<Rightarrow> sfu_state \<Rightarrow> sfu_state \<times> sfu_out list" where
  "on_close_producer sock pid s =
    (case getSession s sock of
       None \<Rightarrow> (s, [Ack sock (AckError ''unknown producer'')])
     | Some ref \<Rightarrow>
         if jm_has (producers (store s ! ref)) pid
         then (upd_session ref (\<lambda>x. x\<lparr>producers := jm_del (producers x) pid\<rparr>) s,
               [CloseProducer pid, ToOthers (ses_roomId (store s ! ref)) sock (ProducerGone sock pid), Ack sock AckClosed])
         else (s, [Ack sock (AckError ''unknown producer'')]))"

definition other_producers :: "sfu_state \<Rightarrow> string \<Rightarrow> string \<Rightarrow> (string \<times> string \<times> string) list" where
  "other_producers s sock room =
    concat (map (\<lambda>(i, ses). if i = sock then [] else map (\<lambda>(pid, kind). (i, pid, kind)) (producers ses)) (sessionsInRoom s room))"

definition on_list_producers :: "string \<Rightarrow> string \<Rightarrow> sfu_state \<Rightarrow> sfu_state \<times> sfu_out list" where
  "on_list_producers sock room s =
    (s, [Ack sock (if sfu_inRoom s sock room then AckProducers (other_producers s sock room) else AckError ''not in room'')])"

definition on_sfu_leave :: "string \<Rightarrow> string \<Rightarrow> sfu_state \<Rightarrow> sfu_state \<times> sfu_out list" where
  "on_sfu_leave sock room s =
    (case getSession s sock of
       None \<Rightarrow> (s, [])
     | Some ref \<Rightarrow>
         if ses_roomId (store s ! ref) = room
         then let (s1, o1) = closeSession sock s; (s2, o2) = closeRouterIfEmpty room s1 in (s2, o1 @ o2)
         else (s, []))"

definition on_sfu_disconnect :: "string \<Rightarrow> sfu_state \<Rightarrow> sfu_state \<times> sfu_out list" where
  "on_sfu_disconnect sock s =
    (case getSession s sock of
       None \<Rightarrow> (s, [])
     | Some ref \<Rightarrow>
         let room = ses_roomId (store s ! ref); (s1, o1) = closeSession sock s
         in if room = [] then (s1, o1) else let (s2, o2) = closeRouterIfEmpty room s1 in (s2, o1 @ o2))"

section \<open>Events\<close>

text \<open>
  The results of the pending calls, and the events of mediasoup's objects: a producer or a consumer of the session
  \<open>ref\<close> is closed, or the producer of a consumer is.
\<close>

datatype call_result =
    CallFailed string
  | GotTransport sfu_transport
  | GotConnected
  | GotProducer string string
  | GotConsumer sfu_consumer
  | GotResumed

fun finish_call :: "sfu_call \<Rightarrow> call_result \<Rightarrow> sfu_state \<Rightarrow> (sfu_state \<times> sfu_out list) option" where
  "finish_call (CallTransport sock room dir) (CallFailed err) s = Some (s, [Ack sock (AckError err)])"
| "finish_call (CallTransport sock room dir) (GotTransport t) s = Some (transport_made sock room dir t s)"
| "finish_call (CallConnect sock) (CallFailed err) s = Some (s, [Ack sock (AckError err)])"
| "finish_call (CallConnect sock) GotConnected s = Some (s, [Ack sock AckConnected])"
| "finish_call (CallProduce sock ref) (CallFailed err) s = Some (s, [Ack sock (AckError err)])"
| "finish_call (CallProduce sock ref) (GotProducer pid kind) s = Some (producer_made sock ref pid kind s)"
| "finish_call (CallConsume sock ref) (CallFailed err) s = Some (s, [Ack sock (AckError err)])"
| "finish_call (CallConsume sock ref) (GotConsumer c) s = Some (consumer_made sock ref c s)"
| "finish_call (CallResume sock) (CallFailed err) s = Some (s, [Ack sock (AckError err)])"
| "finish_call (CallResume sock) GotResumed s = Some (s, [Ack sock AckResumed])"
| "finish_call _ _ s = None"

definition on_call_result :: "nat \<Rightarrow> call_result \<Rightarrow> sfu_state \<Rightarrow> sfu_state \<times> sfu_out list" where
  "on_call_result i res s =
    (if i < length (sfu_calls s)
     then case finish_call (sfu_calls s ! i) res (s\<lparr>sfu_calls := take i (sfu_calls s) @ drop (Suc i) (sfu_calls s)\<rparr>) of
            None \<Rightarrow> (s, [])
          | Some r \<Rightarrow> r
     else (s, []))"

datatype sfu_event =
    EnterRoom string string
  | QuitRoom string string
  | GetCaps string string
  | CreateTransportReq string string string
  | ConnectTransportReq string string doc
  | ProduceReq string string string doc
  | ConsumeReq string string string doc bool
  | ResumeReq string string
  | CloseProducerReq string string
  | ListProducers string string
  | SfuLeave string string
  | SfuDisconnect string
  | WorkerDone "unit result"
  | RouterDone string "(string \<times> doc) result"
  | CallDone nat call_result
  | ProducerClosed nat string
  | ConsumerClosed nat string
  | ConsumerProducerClosed string nat string

fun sfu_step :: "sfu_env \<Rightarrow> sfu_event \<Rightarrow> sfu_state \<Rightarrow> sfu_state \<times> sfu_out list" where
  "sfu_step env (EnterRoom sock room) s = (s\<lparr>in_room_rel := (sock, room) # in_room_rel s\<rparr>, [])"
| "sfu_step env (QuitRoom sock room) s = (s\<lparr>in_room_rel := filter (\<lambda>x. x \<noteq> (sock, room)) (in_room_rel s)\<rparr>, [])"
| "sfu_step env (GetCaps sock room) s = on_get_caps env sock room s"
| "sfu_step env (CreateTransportReq sock room dir) s = on_create_transport env sock room dir s"
| "sfu_step env (ConnectTransportReq sock tid dtls) s = on_connect_transport sock tid dtls s"
| "sfu_step env (ProduceReq sock tid kind rtp) s = on_produce sock tid kind rtp s"
| "sfu_step env (ConsumeReq sock room pid caps can) s = on_consume sock room pid caps can s"
| "sfu_step env (ResumeReq sock cid) s = on_resume_consumer sock cid s"
| "sfu_step env (CloseProducerReq sock pid) s = on_close_producer sock pid s"
| "sfu_step env (ListProducers sock room) s = on_list_producers sock room s"
| "sfu_step env (SfuLeave sock room) s = on_sfu_leave sock room s"
| "sfu_step env (SfuDisconnect sock) s =
    on_sfu_disconnect sock (s\<lparr>in_room_rel := filter (\<lambda>x. fst x \<noteq> sock) (in_room_rel s)\<rparr>)"
| "sfu_step env (WorkerDone res) s = on_worker res s"
| "sfu_step env (RouterDone room res) s = on_router env room res s"
| "sfu_step env (CallDone i res) s = on_call_result i res s"
| "sfu_step env (ProducerClosed ref pid) s = (upd_session ref (\<lambda>x. x\<lparr>producers := jm_del (producers x) pid\<rparr>) s, [])"
| "sfu_step env (ConsumerClosed ref cid) s = (upd_session ref (\<lambda>x. x\<lparr>consumers := jm_del (consumers x) cid\<rparr>) s, [])"
| "sfu_step env (ConsumerProducerClosed sock ref cid) s =
    (upd_session ref (\<lambda>x. x\<lparr>consumers := jm_del (consumers x) cid\<rparr>) s, [ToSocket sock (ConsumerGone cid)])"

fun sfu_run :: "sfu_env \<Rightarrow> sfu_event list \<Rightarrow> sfu_state \<Rightarrow> sfu_state \<times> sfu_out list" where
  "sfu_run env [] s = (s, [])"
| "sfu_run env (e # es) s = (let (s1, o1) = sfu_step env e s; (s2, o2) = sfu_run env es s1 in (s2, o1 @ o2))"

definition sfu_init :: sfu_state where
  "sfu_init = \<lparr>in_room_rel = [], sfu_worker = NoWorker, routers = [], pending = [], sessions = [], store = [], sfu_calls = []\<rparr>"

end
