(* ===== verification/SfuProps.thy ===== *)
theory SfuProps imports Sfu begin

text \<open>
  What the forwarding unit of the server keeps: the bookkeeping of its routers, as a balance every step preserves, and
  the session of a socket that takes no further part. The last section states the properties.
\<close>

section \<open>One router per room\<close>

text \<open>
  The bookkeeping of routers: those asked of the worker, minus the failures, minus those closed, are the one in the
  map or the one under construction, never both.
\<close>

definition asked_router :: "sfu_state \<Rightarrow> string \<Rightarrow> bool" where
  "asked_router s room \<longleftrightarrow> (\<exists>ws. jm_get (pending s) room = Some (True, ws))"

definition live_routers :: "sfu_state \<Rightarrow> string \<Rightarrow> nat" where
  "live_routers s room = of_bool (jm_has (routers s) room) + of_bool (asked_router s room)"

definition sfu_ok :: "sfu_state \<Rightarrow> bool" where
  "sfu_ok s \<longleftrightarrow> jm_wf (pending s) \<and> (\<forall>room r. jm_get (routers s) room = Some r \<longrightarrow> \<not> rt_closed r \<and> jm_get (pending s) room = None)"

definition router_requests :: "string \<Rightarrow> sfu_out list \<Rightarrow> nat" where
  "router_requests room out = count_list out (CreateRouter room mediaCodecs)"

definition router_closings :: "string \<Rightarrow> sfu_out list \<Rightarrow> nat" where
  "router_closings room out = count_list out (CloseRouter room)"

fun router_failure :: "string \<Rightarrow> sfu_event \<Rightarrow> bool" where
  "router_failure room (RouterDone room' (Inl _)) = (room' = room)"
| "router_failure room _ = False"

definition router_balance :: "string \<Rightarrow> sfu_state \<Rightarrow> sfu_state \<Rightarrow> sfu_out list \<Rightarrow> nat \<Rightarrow> bool" where
  "router_balance room s s' out fails \<longleftrightarrow> router_requests room out + live_routers s room \<le> router_closings room out + fails + live_routers s' room"

text \<open>Steps that leave the routers alone.\<close>

definition routers_kept :: "sfu_state \<Rightarrow> sfu_state \<times> sfu_out list \<Rightarrow> bool" where
  "routers_kept s r \<longleftrightarrow> routers (fst r) = routers s \<and> pending (fst r) = pending s \<and>
    (\<forall>x \<in> set (snd r). (\<forall>room c. x \<noteq> CreateRouter room c) \<and> (\<forall>room. x \<noteq> CloseRouter room))"

lemma no_count: "\<forall>x \<in> set out. x \<noteq> y \<Longrightarrow> count_list out y = 0"
  by (auto simp: count_list_0_iff)

lemma routers_keptD:
  assumes "routers_kept s r"
  shows "live_routers (fst r) room = live_routers s room" "router_requests room (snd r) = 0" "router_closings room (snd r) = 0"
    "sfu_ok (fst r) = sfu_ok s"
  using assms by (auto simp: routers_kept_def live_routers_def asked_router_def router_requests_def router_closings_def sfu_ok_def intro!: no_count)

lemma upd_session_facts [simp]:
  "routers (upd_session ref f s) = routers s" "pending (upd_session ref f s) = pending s" "sessions (upd_session ref f s) = sessions s"
  "in_room_rel (upd_session ref f s) = in_room_rel s" "sfu_calls (upd_session ref f s) = sfu_calls s"
  "length (store (upd_session ref f s)) = length (store s)"
  by (simp_all add: upd_session_def)

lemma close_opt_kept: "\<forall>x \<in> set (close_opt t). \<exists>i. x = CloseTransport i"
  by (auto simp: close_opt_def split: option.split)

lemma closeSession_facts:
  "routers (fst (closeSession sock s)) = routers s" "pending (fst (closeSession sock s)) = pending s"
  "sfu_calls (fst (closeSession sock s)) = sfu_calls s" "in_room_rel (fst (closeSession sock s)) = in_room_rel s"
  by (simp_all add: closeSession_def Let_def split: option.split)

lemma closeSession_outs:
  "x \<in> set (snd (closeSession sock s)) \<Longrightarrow> (\<exists>i. x = CloseTransport i \<or> x = CloseProducer i \<or> x = CloseConsumer i)"
  using close_opt_kept by (fastforce simp: closeSession_def Let_def split: option.splits)

lemma kept_closeSession: "routers_kept s (closeSession sock s)"
  using closeSession_outs [of _ sock s] by (fastforce simp: routers_kept_def closeSession_facts)

lemma ensureSession_facts:
  assumes "ensureSession sock room s = (ref, s1, out)"
  shows "routers s1 = routers s" "pending s1 = pending s" "sfu_calls s1 = sfu_calls s" "in_room_rel s1 = in_room_rel s"
    "\<forall>x \<in> set out. \<exists>i. x = CloseTransport i \<or> x = CloseProducer i \<or> x = CloseConsumer i"
  using assms closeSession_facts [of sock s] closeSession_outs [of _ sock s]
  by (auto simp: ensureSession_def create_session_def Let_def split: option.splits if_splits prod.splits)

lemma kept_transport_made: "routers_kept s (transport_made sock room dir t s)"
proof -
  obtain ref s1 out where e: "ensureSession sock room s = (ref, s1, out)" by (metis prod.collapse)
  show ?thesis
    using ensureSession_facts [OF e] close_opt_kept
    by (cases dir) (fastforce simp: transport_made_def e Let_def routers_kept_def)+
qed

lemma kept_finish_call: "finish_call c res s = Some r \<Longrightarrow> routers_kept s r"
  by (induction c res s rule: finish_call.induct)
    (auto simp: kept_transport_made, auto simp: routers_kept_def producer_made_def consumer_made_def)

lemma kept_call_result: "routers_kept s (on_call_result i res s)"
proof (cases "i < length (sfu_calls s)")
  case True
  let ?s = "s\<lparr>sfu_calls := take i (sfu_calls s) @ drop (Suc i) (sfu_calls s)\<rparr>"
  show ?thesis
  proof (cases "finish_call (sfu_calls s ! i) res ?s")
    case (Some r)
    from kept_finish_call [OF Some] True Some show ?thesis by (simp add: on_call_result_def routers_kept_def)
  qed (simp add: on_call_result_def routers_kept_def)
qed (simp add: on_call_result_def routers_kept_def)

lemma kept_requests:
  "routers_kept s (on_connect_transport sock tid dtls s)" "routers_kept s (on_produce sock tid kind rtp s)"
  "routers_kept s (on_consume sock room pid caps can s)" "routers_kept s (on_resume_consumer sock cid s)"
  "routers_kept s (on_close_producer sock pid s)" "routers_kept s (on_list_producers sock room s)"
  by (simp_all add: on_connect_transport_def on_produce_def on_consume_def on_resume_consumer_def on_close_producer_def
    on_list_producers_def routers_kept_def split: option.split)

text \<open>The steps that do concern routers.\<close>

lemma sfu_okD: "sfu_ok s \<Longrightarrow> jm_get (routers s) room = Some r \<Longrightarrow> \<not> rt_closed r \<and> jm_get (pending s) room = None"
  by (simp add: sfu_ok_def)

lemma getRouter_ok: "sfu_ok s \<Longrightarrow> getRouter s room = jm_get (routers s) room"
  using sfu_okD by (auto simp: getRouter_def split: option.split)

lemma kept_with_router: "routers_kept s (with_router env room r w s)"
  by (cases w) (simp_all add: routers_kept_def)

lemma kept_run_waiters: "routers_kept s (run_waiters env room r ws s)"
proof (induction ws arbitrary: s)
  case (Cons w ws)
  obtain s1 o1 where 1: "with_router env room r w s = (s1, o1)" by fastforce
  obtain s2 o2 where 2: "run_waiters env room r ws s1 = (s2, o2)" by fastforce
  from kept_with_router [of s env room r w] Cons.IH [of s1] 1 2 show ?case by (auto simp: routers_kept_def)
qed (simp add: routers_kept_def)

lemma reject_outs: "x \<in> set (reject_waiters err ws) \<Longrightarrow> \<exists>sock. x = Ack sock (AckError err)"
  by (auto simp: reject_waiters_def)

lemma reject_count [simp]: "router_requests room (reject_waiters err ws) = 0" "router_closings room (reject_waiters err ws) = 0"
  using reject_outs [of _ err ws] by (fastforce simp: router_requests_def router_closings_def intro!: no_count)+

lemma balance_kept: "routers_kept s r \<Longrightarrow> router_balance room s (fst r) (snd r) n \<and> (sfu_ok s \<longrightarrow> sfu_ok (fst r))"
  by (simp add: router_balance_def routers_keptD)

lemma getWorker_facts:
  assumes "getWorker env s = (s1, out)"
  shows "routers s1 = routers s" "pending s1 = pending s" "sessions s1 = sessions s" "store s1 = store s" "sfu_calls s1 = sfu_calls s"
    "in_room_rel s1 = in_room_rel s" "router_requests room out = 0" "router_closings room out = 0"
  using assms by (auto simp: getWorker_def router_requests_def router_closings_def split: if_splits)

lemma balance_get_or_create:
  assumes ok: "sfu_ok s"
  shows "router_balance room s (fst (getOrCreateRouter env room' w s)) (snd (getOrCreateRouter env room' w s)) n
    \<and> sfu_ok (fst (getOrCreateRouter env room' w s))"
proof (cases "getRouter s room'")
  case (Some r)
  then have "getOrCreateRouter env room' w s = with_router env room' r w s" by (simp add: getOrCreateRouter_def)
  with balance_kept [OF kept_with_router] ok show ?thesis by simp
next
  case None
  then have free: "jm_get (routers s) room' = None" by (simp add: getRouter_ok [OF ok])
  show ?thesis
  proof (cases "jm_get (pending s) room'")
    case (Some p)
    then obtain asked ws where p: "jm_get (pending s) room' = Some (asked, ws)" by (cases p) simp
    with None have g: "getOrCreateRouter env room' w s = (s\<lparr>pending := jm_set (pending s) room' (asked, ws @ [w])\<rparr>, [])"
      by (simp add: getOrCreateRouter_def)
    let ?s = "s\<lparr>pending := jm_set (pending s) room' (asked, ws @ [w])\<rparr>"
    have "asked_router ?s room = asked_router s room" by (cases "room = room'") (simp_all add: asked_router_def p)
    moreover have "sfu_ok ?s" using ok free by (auto simp: sfu_ok_def)
    ultimately show ?thesis by (simp add: g router_balance_def router_requests_def router_closings_def live_routers_def)
  next
    case new: None
    show ?thesis
    proof (cases "sfu_worker s = Running")
      case True
      with None new have g: "getOrCreateRouter env room' w s = (s\<lparr>pending := jm_set (pending s) room' (True, [w])\<rparr>, [CreateRouter room' mediaCodecs])"
        by (simp add: getOrCreateRouter_def)
      show ?thesis using ok free new
        by (auto simp: g router_balance_def router_requests_def router_closings_def live_routers_def asked_router_def sfu_ok_def)
    next
      case False
      obtain s1 out where w: "getWorker env s = (s1, out)" by fastforce
      with None new False have g: "getOrCreateRouter env room' w s = (s1\<lparr>pending := jm_set (pending s1) room' (False, [w])\<rparr>, out)"
        by (simp add: getOrCreateRouter_def)
      show ?thesis using ok free new getWorker_facts [OF w]
        by (auto simp: g router_balance_def live_routers_def asked_router_def sfu_ok_def)
    qed
  qed
qed

lemma balance_close_router:
  assumes ok: "sfu_ok s"
  shows "router_balance room s (fst (closeRouterIfEmpty room' s)) (snd (closeRouterIfEmpty room' s)) n
    \<and> sfu_ok (fst (closeRouterIfEmpty room' s))"
proof (cases "getRouter s room' = None \<or> roomHasSessions s room'")
  case True
  then have "closeRouterIfEmpty room' s = (s, [])" by (auto simp: closeRouterIfEmpty_def split: option.split)
  with ok show ?thesis by (simp add: router_balance_def router_requests_def router_closings_def)
next
  case False
  then have g: "closeRouterIfEmpty room' s = (s\<lparr>routers := jm_del (routers s) room'\<rparr>, [CloseRouter room'])"
    by (auto simp: closeRouterIfEmpty_def split: option.split)
  from ok show ?thesis
    by (auto simp: g router_balance_def router_requests_def router_closings_def live_routers_def asked_router_def sfu_ok_def)
qed

lemma balance_then:
  assumes "router_balance room s s1 o1 m" "router_balance room s1 s2 o2 n"
  shows "router_balance room s s2 (o1 @ o2) (m + n)"
  using assms by (simp add: router_balance_def router_requests_def router_closings_def)

lemma balance_close_session_and_router:
  assumes "sfu_ok s" "closeSession sock s = (s1, o1)" "closeRouterIfEmpty room' s1 = (s2, o2)"
  shows "router_balance room s s2 (o1 @ o2) 0 \<and> sfu_ok s2"
  using balance_kept [OF kept_closeSession, of room s sock 0] balance_close_router [of s1 room room' 0] assms
    balance_then [of room s s1 o1 0 s2 o2 0] by simp

lemma balance_mono: "router_balance room s s' out m \<Longrightarrow> m \<le> n \<Longrightarrow> router_balance room s s' out n"
  by (simp add: router_balance_def)

lemma balance_leave:
  assumes "sfu_ok s"
  shows "router_balance room s (fst (on_sfu_leave sock room' s)) (snd (on_sfu_leave sock room' s)) 0 \<and> sfu_ok (fst (on_sfu_leave sock room' s))"
  using balance_close_session_and_router [OF assms, of sock] assms
  by (auto simp: on_sfu_leave_def router_balance_def router_requests_def router_closings_def split: option.split prod.split)

lemma balance_disconnect:
  assumes "sfu_ok s"
  shows "router_balance room s (fst (on_sfu_disconnect sock s)) (snd (on_sfu_disconnect sock s)) 0 \<and> sfu_ok (fst (on_sfu_disconnect sock s))"
proof (cases "getSession s sock")
  case None
  with assms show ?thesis by (simp add: on_sfu_disconnect_def router_balance_def router_requests_def router_closings_def)
next
  case (Some ref)
  obtain s1 o1 where 1: "closeSession sock s = (s1, o1)" by fastforce
  obtain s2 o2 where 2: "closeRouterIfEmpty (ses_roomId (store s ! ref)) s1 = (s2, o2)" by fastforce
  from balance_close_session_and_router [OF assms 1 2, of room] balance_kept [OF kept_closeSession, of room s sock 0] assms Some 1 2
  show ?thesis by (simp add: on_sfu_disconnect_def Let_def)
qed

lemma count_asked:
  "distinct (map fst m) \<Longrightarrow>
    router_requests room (concat (map (\<lambda>(room, asked, ws). if asked then [] else [CreateRouter room mediaCodecs]) m))
      = of_bool (\<exists>ws. map_of m room = Some (False, ws))"
proof (induction m)
  case (Cons p m)
  obtain r asked ws where p: "p = (r, asked, ws)" by (metis prod.collapse)
  with Cons have "map_of m r = None" by (simp add: map_of_eq_None_iff)
  with Cons p show ?case by (auto simp: router_requests_def)
qed (simp add: router_requests_def)

lemma map_of_mark: "map_of (map (\<lambda>(k, a, w). (k, True, w)) m) room = map_option (\<lambda>(a, w). (True, w)) (map_of m room)"
  by (induction m) auto

lemma no_closes_worker: "router_closings room (concat (map (\<lambda>(room, asked, ws). if asked then [] else [CreateRouter room mediaCodecs]) m)) = 0"
  by (induction m) (auto simp: router_closings_def)

lemma rejects_concat:
  "router_requests room (concat (map (\<lambda>(room, asked, ws). if asked then [] else reject_waiters err ws) m)) = 0"
  "router_closings room (concat (map (\<lambda>(room, asked, ws). if asked then [] else reject_waiters err ws) m)) = 0"
  by (induction m) (auto simp: router_requests_def router_closings_def reject_waiters_def count_list_0_iff)

lemma map_of_filter_asked:
  "distinct (map fst m) \<Longrightarrow> map_of (filter (\<lambda>(room, asked, ws). asked) m) room = Some (True, ws) \<longleftrightarrow> map_of m room = Some (True, ws)"
proof (induction m)
  case (Cons p m)
  then have "fst p = room \<Longrightarrow> map_of m room = None" by (auto simp: map_of_eq_None_iff)
  with Cons show ?case by (cases p) (auto dest: map_of_SomeD)
qed simp

lemma balance_worker:
  assumes ok: "sfu_ok s"
  shows "router_balance room s (fst (on_worker res s)) (snd (on_worker res s)) 0 \<and> sfu_ok (fst (on_worker res s))"
proof (cases "sfu_worker s = Starting")
  case False
  with ok show ?thesis by (simp add: on_worker_def router_balance_def router_requests_def router_closings_def)
next
  case True
  have wf: "jm_wf (pending s)" using ok by (simp add: sfu_ok_def)
  show ?thesis
  proof (cases res)
    case (Inl err)
    let ?p = "filter (\<lambda>(room, asked, ws). asked) (pending s)"
    have "jm_wf ?p" using wf by (rule distinct_map_filter)
    moreover have "map_of ?p r = None" if "map_of (pending s) r = None" for r
      using that by (auto simp: map_of_eq_None_iff)
    ultimately show ?thesis using True Inl ok
      by (auto simp: on_worker_def router_balance_def rejects_concat live_routers_def asked_router_def map_of_filter_asked [OF wf] sfu_ok_def)
  next
    case (Inr u)
    let ?p = "map (\<lambda>(room, asked, ws). (room, True, ws)) (pending s)"
    have mf: "map (fst \<circ> (\<lambda>(room, asked, ws). (room, True, ws))) (pending s) = map fst (pending s)" by auto
    have "sfu_ok (fst (on_worker res s))" using True Inr ok by (simp add: on_worker_def sfu_ok_def map_of_mark mf)
    moreover have "of_bool (\<exists>ws. map_of (pending s) room = Some (False, ws)) + of_bool (asked_router s room)
      \<le> (of_bool (\<exists>ws. map_of ?p room = Some (True, ws)) :: nat)"
      by (cases "map_of (pending s) room") (auto simp: asked_router_def map_of_mark)
    ultimately show ?thesis using True Inr
      by (simp add: on_worker_def router_balance_def count_asked [OF wf] no_closes_worker live_routers_def asked_router_def)
  qed
qed

lemma balance_router:
  assumes ok: "sfu_ok s"
  shows "router_balance room s (fst (on_router env room' res s)) (snd (on_router env room' res s)) (of_bool (router_failure room (RouterDone room' res)))
    \<and> sfu_ok (fst (on_router env room' res s))"
proof (cases "asked_router s room'")
  case False
  then have "on_router env room' res s = (s, [])"
    by (auto simp: on_router_def asked_router_def split: option.split bool.split)
  with ok show ?thesis by (simp add: router_balance_def router_requests_def router_closings_def)
next
  case True
  then obtain ws where p: "jm_get (pending s) room' = Some (True, ws)" by (auto simp: asked_router_def)
  have none: "jm_get (routers s) room' = None" using sfu_okD [OF ok] p by (cases "jm_get (routers s) room'") auto
  show ?thesis
  proof (cases res)
    case (Inl err)
    have g: "on_router env room' res s = (s\<lparr>pending := jm_del (pending s) room'\<rparr>, reject_waiters err ws)"
      by (simp add: on_router_def p Inl)
    let ?s = "s\<lparr>pending := jm_del (pending s) room'\<rparr>"
    have "live_routers s room \<le> of_bool (room' = room) + live_routers ?s room"
      by (cases "room' = room") (simp_all add: live_routers_def asked_router_def none)
    moreover have "sfu_ok ?s" using ok by (auto simp: sfu_ok_def)
    ultimately show ?thesis by (simp add: g [unfolded Inl] Inl router_balance_def)
  next
    case (Inr q)
    obtain i caps where q: "q = (i, caps)" by fastforce
    let ?r = "\<lparr>rt_id = i, rtpCapabilities = caps, rt_closed = False\<rparr>"
    let ?s = "s\<lparr>pending := jm_del (pending s) room', routers := jm_set (routers s) room' ?r\<rparr>"
    have g: "on_router env room' res s = run_waiters env room' ?r ws ?s" by (simp add: on_router_def p Inr q Let_def)
    have ok': "sfu_ok ?s" using ok by (auto simp: sfu_ok_def)
    have "live_routers ?s room = live_routers s room"
      by (cases "room = room'") (simp_all add: live_routers_def asked_router_def p none)
    with balance_kept [OF kept_run_waiters [of ?s env room' ?r ws], of room 0] ok' show ?thesis by (simp add: g [unfolded Inr] Inr router_balance_def)
  qed
qed

lemma kept_updates:
  "routers_kept s (s\<lparr>in_room_rel := m\<rparr>, [])" "routers_kept s (upd_session ref f s, [])" "routers_kept s (upd_session ref f s, [ToSocket a b])"
  by (simp_all add: routers_kept_def)

lemma balance_same: "router_balance room s s [] n"
  by (simp add: router_balance_def router_requests_def router_closings_def)

lemma balance_ack: "router_balance room s s [Ack sock a] n"
  by (simp add: router_balance_def router_requests_def router_closings_def)

lemma balance_rooms:
  assumes "router_balance room (s\<lparr>in_room_rel := m\<rparr>) s' out n"
  shows "router_balance room s s' out n"
  using assms by (simp add: router_balance_def live_routers_def asked_router_def)

lemma sfu_ok_rooms [simp]: "sfu_ok (s\<lparr>in_room_rel := m\<rparr>) = sfu_ok s"
  by (simp add: sfu_ok_def)

lemma balance_step:
  assumes ok: "sfu_ok s"
  shows "router_balance room s (fst (sfu_step env e s)) (snd (sfu_step env e s)) (of_bool (router_failure room e)) \<and> sfu_ok (fst (sfu_step env e s))"
proof -
  have kept: ?thesis if "routers_kept s (sfu_step env e s)" using balance_kept [OF that] ok by blast
  show ?thesis
  proof (cases e)
    case (GetCaps sock room')
    with balance_get_or_create [OF ok, of room env room' "WaitCaps sock" 0] ok show ?thesis by (simp add: on_get_caps_def balance_ack)
  next
    case (CreateTransportReq sock room' dir)
    with balance_get_or_create [OF ok, of room env room' "WaitTransport sock (if dir = ''send'' then SendDir else RecvDir)" 0] ok
    show ?thesis by (simp add: on_create_transport_def balance_ack)
  next
    case (SfuLeave sock room')
    with balance_leave [OF ok] show ?thesis by simp
  next
    case (SfuDisconnect sock)
    let ?s = "s\<lparr>in_room_rel := filter (\<lambda>x. fst x \<noteq> sock) (in_room_rel s)\<rparr>"
    from balance_disconnect [of ?s room sock] ok
    have b: "router_balance room ?s (fst (on_sfu_disconnect sock ?s)) (snd (on_sfu_disconnect sock ?s)) 0" and k: "sfu_ok (fst (on_sfu_disconnect sock ?s))"
      by simp_all
    from balance_rooms [OF b] k SfuDisconnect show ?thesis by simp
  next
    case (WorkerDone res)
    with balance_worker [OF ok] show ?thesis by simp
  next
    case (RouterDone room' res)
    with balance_router [OF ok] show ?thesis by simp
  qed (rule kept, simp add: kept_requests kept_call_result kept_updates)+
qed

interpretation sfu: event_machine "\<lambda>e s. fst (sfu_step env e s)" sfu_ok for env
  by unfold_locales (simp add: balance_step)

lemma sfu_run_fold: "fst (sfu_run env es s) = fold (\<lambda>e s. fst (sfu_step env e s)) es s"
  by (induction es arbitrary: s) (simp_all add: Let_def split_beta)

lemma sfu_ok_run: "sfu_ok s \<Longrightarrow> sfu_ok (fst (sfu_run env es s))"
  unfolding sfu_run_fold by (rule sfu.run_good)

lemma balance_run:
  "sfu_ok s \<Longrightarrow> router_balance room s (fst (sfu_run env es s)) (snd (sfu_run env es s)) (length (filter (router_failure room) es))"
proof (induction es arbitrary: s)
  case (Cons e es)
  obtain s1 o1 where 1: "sfu_step env e s = (s1, o1)" by fastforce
  obtain s2 o2 where 2: "sfu_run env es s1 = (s2, o2)" by fastforce
  from balance_step [OF Cons.prems, of room env e] 1 have b: "router_balance room s s1 o1 (of_bool (router_failure room e))" and ok: "sfu_ok s1" by auto
  from balance_then [OF b, of s2 o2] Cons.IH [OF ok] 1 2 show ?case by (cases "router_failure room e") simp_all
qed (simp add: balance_same)

lemma live_le_1: "sfu_ok s \<Longrightarrow> live_routers s room \<le> 1"
  using sfu_okD by (auto simp: live_routers_def asked_router_def)

lemma sfu_init_ok: "sfu_ok sfu_init"
  by (simp add: sfu_ok_def sfu_init_def)

section \<open>A session that outlives its socket\<close>

fun event_sock :: "sfu_event \<Rightarrow> string option" where
  "event_sock (GetCaps sock _) = Some sock"
| "event_sock (CreateTransportReq sock _ _) = Some sock"
| "event_sock (ConnectTransportReq sock _ _) = Some sock"
| "event_sock (ProduceReq sock _ _ _) = Some sock"
| "event_sock (ConsumeReq sock _ _ _ _) = Some sock"
| "event_sock (ResumeReq sock _) = Some sock"
| "event_sock (CloseProducerReq sock _) = Some sock"
| "event_sock (ListProducers sock _) = Some sock"
| "event_sock (SfuLeave sock _) = Some sock"
| "event_sock (SfuDisconnect sock) = Some sock"
| "event_sock _ = None"

definition creating :: "string \<Rightarrow> sfu_call \<Rightarrow> bool" where
  "creating sock c \<longleftrightarrow> (\<exists>room dir. c = CallTransport sock room dir)"

definition waiting :: "string \<Rightarrow> sfu_wait \<Rightarrow> bool" where
  "waiting sock w \<longleftrightarrow> (\<exists>dir. w = WaitTransport sock dir)"

definition nothing_in_flight :: "string \<Rightarrow> sfu_state \<Rightarrow> bool" where
  "nothing_in_flight sock s \<longleftrightarrow> (\<forall>c \<in> set (sfu_calls s). \<not> creating sock c) \<and>
    (\<forall>room asked ws. jm_get (pending s) room = Some (asked, ws) \<longrightarrow> (\<forall>w \<in> set ws. \<not> waiting sock w))"

definition has_session :: "string \<Rightarrow> string \<Rightarrow> sfu_state \<Rightarrow> bool" where
  "has_session sock room s \<longleftrightarrow> (\<exists>ref. jm_get (sessions s) sock = Some ref \<and> ref < length (store s) \<and> ses_roomId (store s ! ref) = room)"

definition dormant :: "string \<Rightarrow> string \<Rightarrow> sfu_state \<Rightarrow> bool" where
  "dormant sock room s \<longleftrightarrow> sfu_ok s \<and> nothing_in_flight sock s \<and> has_session sock room s \<and> getRouter s room \<noteq> None"

text \<open>What a step leaves of the sessions of a socket that takes no part in it.\<close>

definition session_kept :: "string \<Rightarrow> sfu_state \<Rightarrow> sfu_state \<Rightarrow> bool" where
  "session_kept sock s s' \<longleftrightarrow> jm_get (sessions s') sock = jm_get (sessions s) sock \<and> length (store s) \<le> length (store s') \<and>
    (\<forall>ref < length (store s). ses_roomId (store s' ! ref) = ses_roomId (store s ! ref))"

lemma session_kept_refl: "session_kept sock s s"
  by (simp add: session_kept_def)

lemma session_kept_trans: "session_kept sock s t \<Longrightarrow> session_kept sock t u \<Longrightarrow> session_kept sock s u"
  by (auto simp: session_kept_def)

lemma has_session_kept: "session_kept sock s s' \<Longrightarrow> has_session sock room s \<Longrightarrow> has_session sock room s'"
  by (auto simp: session_kept_def has_session_def)

lemma session_kept_same: "sessions s' = sessions s \<Longrightarrow> store s' = store s \<Longrightarrow> session_kept sock s s'"
  by (simp add: session_kept_def)

lemma upd_session_room: "(\<And>x. ses_roomId (f x) = ses_roomId x) \<Longrightarrow> ses_roomId (store (upd_session ref f s) ! i) = ses_roomId (store s ! i)"
  by (cases "i = ref"; cases "ref < length (store s)") (simp_all add: upd_session_def list_update_beyond)

lemma session_kept_upd: "(\<And>x. ses_roomId (f x) = ses_roomId x) \<Longrightarrow> session_kept sock s (upd_session ref f s)"
  by (simp add: session_kept_def upd_session_room)

lemma session_kept_close: "q \<noteq> sock \<Longrightarrow> session_kept sock s (fst (closeSession q s))"
  by (auto simp: session_kept_def closeSession_def Let_def upd_session_room split: option.split)

lemma session_kept_create: "q \<noteq> sock \<Longrightarrow> session_kept sock s (snd (create_session q room s))"
  by (simp add: session_kept_def create_session_def nth_append)

lemma session_kept_ensure:
  assumes "q \<noteq> sock" "ensureSession q room s = (ref, s1, out)"
  shows "session_kept sock s s1"
proof (cases "getSession s q")
  case None
  with assms(2) have "s1 = snd (create_session q room s)" by (auto simp: ensureSession_def split: prod.splits)
  with session_kept_create [OF assms(1)] show ?thesis by simp
next
  case (Some ref0)
  show ?thesis
  proof (cases "ses_roomId (store s ! ref0) = room")
    case True
    with Some assms(2) show ?thesis by (simp add: ensureSession_def session_kept_refl)
  next
    case False
    with Some assms(2) have "s1 = snd (create_session q room (fst (closeSession q s)))"
      by (auto simp: ensureSession_def split: prod.splits)
    with session_kept_trans [OF session_kept_close [OF assms(1)] session_kept_create [OF assms(1)]] show ?thesis by simp
  qed
qed

lemma session_kept_transport:
  assumes "q \<noteq> sock"
  shows "session_kept sock s (fst (transport_made q room dir t s))"
proof -
  obtain ref s1 out where e: "ensureSession q room s = (ref, s1, out)" by (metis prod.collapse)
  have "session_kept sock s1 (upd_session ref (\<lambda>x. x\<lparr>sendTransport := Some t\<rparr>) s1)"
    "session_kept sock s1 (upd_session ref (\<lambda>x. x\<lparr>recvTransport := Some t\<rparr>) s1)" by (rule session_kept_upd, simp)+
  with session_kept_ensure [OF assms e] show ?thesis
    by (cases dir) (auto simp: transport_made_def e Let_def intro: session_kept_trans)
qed

lemma transport_made_calls: "sfu_calls (fst (transport_made q room dir t s)) = sfu_calls s"
proof -
  obtain ref s1 out where e: "ensureSession q room s = (ref, s1, out)" by (metis prod.collapse)
  then show ?thesis by (cases dir) (simp_all add: transport_made_def Let_def ensureSession_facts(3) [OF e])
qed

lemma session_kept_finish:
  assumes "\<not> creating sock c" "finish_call c res s = Some r"
  shows "session_kept sock s (fst r) \<and> sfu_calls (fst r) = sfu_calls s"
proof (cases c)
  case (CallTransport q room dir)
  with assms have q: "q \<noteq> sock" by (auto simp: creating_def)
  from assms(2) CallTransport session_kept_transport [OF q] show ?thesis
    by (cases res) (auto simp: transport_made_calls session_kept_refl)
qed (use assms in \<open>cases res; auto simp: session_kept_refl producer_made_def consumer_made_def session_kept_upd\<close>)+

lemma session_kept_call:
  assumes "nothing_in_flight sock s"
  shows "session_kept sock s (fst (on_call_result i res s)) \<and> set (sfu_calls (fst (on_call_result i res s))) \<subseteq> set (sfu_calls s)"
proof (cases "i < length (sfu_calls s)")
  case True
  let ?s = "s\<lparr>sfu_calls := take i (sfu_calls s) @ drop (Suc i) (sfu_calls s)\<rparr>"
  have "\<not> creating sock (sfu_calls s ! i)" using assms True by (simp add: nothing_in_flight_def)
  moreover have "session_kept sock s ?s" by (rule session_kept_same) simp_all
  moreover have "set (sfu_calls ?s) \<subseteq> set (sfu_calls s)" by (auto dest: in_set_takeD in_set_dropD)
  ultimately show ?thesis using session_kept_finish [of sock "sfu_calls s ! i" res ?s] True
    by (auto simp: on_call_result_def session_kept_refl intro: session_kept_trans split: option.split)
qed (simp add: on_call_result_def session_kept_refl)

lemma kept_request_sessions:
  "session_kept sock s (fst (on_connect_transport q tid dtls s))" "session_kept sock s (fst (on_produce q tid kind rtp s))"
  "session_kept sock s (fst (on_consume q room pid caps can s))" "session_kept sock s (fst (on_resume_consumer q cid s))"
  "session_kept sock s (fst (on_close_producer q pid s))" "session_kept sock s (fst (on_list_producers q room s))"
  by (auto simp: on_connect_transport_def on_produce_def on_consume_def on_resume_consumer_def on_close_producer_def on_list_producers_def
    intro: session_kept_same session_kept_upd split: option.split)

definition calls_harmless :: "string \<Rightarrow> sfu_state \<Rightarrow> sfu_state \<Rightarrow> bool" where
  "calls_harmless sock s s' \<longleftrightarrow> (\<forall>c \<in> set (sfu_calls s'). c \<in> set (sfu_calls s) \<or> \<not> creating sock c)"

lemma request_calls:
  "calls_harmless sock s (fst (on_connect_transport q tid dtls s))" "calls_harmless sock s (fst (on_produce q tid kind rtp s))"
  "calls_harmless sock s (fst (on_consume q room pid caps can s))" "calls_harmless sock s (fst (on_resume_consumer q cid s))"
  "calls_harmless sock s (fst (on_close_producer q pid s))" "calls_harmless sock s (fst (on_list_producers q room s))"
  by (simp_all add: calls_harmless_def creating_def on_connect_transport_def on_produce_def on_consume_def on_resume_consumer_def
    on_close_producer_def on_list_producers_def split: option.split)

lemma with_router_sessions: "sessions (fst (with_router env room r w s)) = sessions s \<and> store (fst (with_router env room r w s)) = store s"
  by (cases w) simp_all

lemma with_router_calls: "\<not> waiting sock w \<Longrightarrow> c \<in> set (sfu_calls (fst (with_router env room r w s))) \<Longrightarrow> c \<in> set (sfu_calls s) \<or> \<not> creating sock c"
  by (cases w) (auto simp: waiting_def creating_def)

lemma run_waiters_sessions: "sessions (fst (run_waiters env room r ws s)) = sessions s \<and> store (fst (run_waiters env room r ws s)) = store s"
  using with_router_sessions by (induction ws arbitrary: s) (simp_all add: Let_def split_beta)

lemma run_waiters_calls:
  "\<forall>w \<in> set ws. \<not> waiting sock w \<Longrightarrow> c \<in> set (sfu_calls (fst (run_waiters env room r ws s))) \<Longrightarrow> c \<in> set (sfu_calls s) \<or> \<not> creating sock c"
proof (induction ws arbitrary: s)
  case (Cons w ws)
  then show ?case using with_router_calls [of sock w c env room r s] by (auto simp: Let_def split_beta)
qed simp

lemma nothing_in_flight_same:
  "sfu_calls s' = sfu_calls s \<Longrightarrow> pending s' = pending s \<Longrightarrow> nothing_in_flight sock s' = nothing_in_flight sock s"
  by (simp add: nothing_in_flight_def)

text \<open>Each step of another socket, of the worker or of mediasoup.\<close>

lemma idle_get_or_create:
  fixes env :: sfu_env and room :: string
  assumes ok: "sfu_ok s" and idle: "nothing_in_flight sock s" and w: "\<not> waiting sock w"
  defines "s' \<equiv> fst (getOrCreateRouter env room w s)"
  shows "nothing_in_flight sock s' \<and> session_kept sock s s' \<and> routers s' = routers s"
proof (cases "getRouter s room")
  case (Some r)
  then have "s' = fst (with_router env room r w s)" by (simp add: s'_def getOrCreateRouter_def)
  with with_router_calls [OF w, of _ env room r s] with_router_sessions [of env room r w s] kept_with_router [of s env room r w] idle show ?thesis
    by (auto simp: nothing_in_flight_def routers_kept_def session_kept_same)
next
  case None
  obtain s1 out where g: "getWorker env s = (s1, out)" by fastforce
  have "\<exists>asked ws. pending s' = jm_set (pending s) room (asked, ws @ [w]) \<and> (\<forall>v \<in> set ws. \<not> waiting sock v) \<and>
    sfu_calls s' = sfu_calls s \<and> sessions s' = sessions s \<and> store s' = store s \<and> routers s' = routers s"
  proof (cases "jm_get (pending s) room")
    case (Some p)
    obtain asked ws where p: "p = (asked, ws)" by fastforce
    with Some idle have "\<forall>v \<in> set ws. \<not> waiting sock v" by (auto simp: nothing_in_flight_def)
    with None Some p show ?thesis by (auto simp: s'_def getOrCreateRouter_def)
  next
    case None
    with \<open>getRouter s room = None\<close> g getWorker_facts [OF g] show ?thesis
      by (intro exI [of _ "sfu_worker s = Running"] exI [of _ "[]"]) (auto simp: s'_def getOrCreateRouter_def)
  qed
  then obtain asked ws where s': "pending s' = jm_set (pending s) room (asked, ws @ [w])" "\<forall>v \<in> set ws. \<not> waiting sock v"
    "sfu_calls s' = sfu_calls s" "sessions s' = sessions s" "store s' = store s" "routers s' = routers s" by blast
  with idle w show ?thesis by (auto simp: nothing_in_flight_def session_kept_same)
qed

lemma idle_worker:
  assumes ok: "sfu_ok s" and idle: "nothing_in_flight sock s"
  shows "nothing_in_flight sock (fst (on_worker res s)) \<and> session_kept sock s (fst (on_worker res s)) \<and> routers (fst (on_worker res s)) = routers s"
proof -
  have wf: "jm_wf (pending s)" using ok by (simp add: sfu_ok_def)
  have f: "map_of (pending s) room = Some (asked, ws)"
    if "map_of (filter (\<lambda>(room, asked, ws). asked) (pending s)) room = Some (asked, ws)" for room asked ws
    using map_of_SomeD [OF that] wf by (intro map_of_is_SomeI) auto
  have m: "\<exists>a. map_of (pending s) room = Some (a, ws)"
    if "map_of (map (\<lambda>(room, asked, ws). (room, True, ws)) (pending s)) room = Some (asked, ws)" for room asked ws
    using that by (auto simp: map_of_mark)
  show ?thesis using idle
    by (cases res) (auto simp: on_worker_def nothing_in_flight_def session_kept_same session_kept_refl dest!: f m)
qed

lemma idle_router:
  fixes env :: sfu_env and room' :: string and res :: "(string \<times> doc) result"
  assumes ok: "sfu_ok s" and idle: "nothing_in_flight sock s"
  defines "s' \<equiv> fst (on_router env room' res s)"
  shows "nothing_in_flight sock s' \<and> session_kept sock s s' \<and> (getRouter s room \<noteq> None \<longrightarrow> getRouter s' room \<noteq> None)"
proof (cases "asked_router s room'")
  case False
  then have "s' = s" by (auto simp: s'_def on_router_def asked_router_def split: option.split bool.split)
  with idle show ?thesis by (simp add: session_kept_refl)
next
  case True
  then obtain ws where p: "jm_get (pending s) room' = Some (True, ws)" by (auto simp: asked_router_def)
  show ?thesis
  proof (cases res)
    case (Inl err)
    with p idle show ?thesis by (auto simp: s'_def on_router_def nothing_in_flight_def session_kept_same getRouter_def)
  next
    case (Inr q)
    obtain i caps where q: "q = (i, caps)" by fastforce
    let ?r = "\<lparr>rt_id = i, rtpCapabilities = caps, rt_closed = False\<rparr>"
    let ?s = "s\<lparr>pending := jm_del (pending s) room', routers := jm_set (routers s) room' ?r\<rparr>"
    have s': "s' = fst (run_waiters env room' ?r ws ?s)" by (simp add: s'_def on_router_def p Inr q Let_def)
    have ws: "\<forall>w \<in> set ws. \<not> waiting sock w" using idle p unfolding nothing_in_flight_def by blast
    have k: "routers s' = routers ?s" "pending s' = pending ?s" using kept_run_waiters [of ?s env room' ?r ws] by (simp_all add: s' routers_kept_def)
    have "nothing_in_flight sock s'"
      using run_waiters_calls [OF ws, of _ env room' ?r ?s] idle k(2) by (fastforce simp: nothing_in_flight_def s' [symmetric])
    moreover have "session_kept sock s s'" using run_waiters_sessions [of env room' ?r ws ?s] by (intro session_kept_same) (simp_all add: s')
    moreover have "getRouter s room \<noteq> None \<longrightarrow> getRouter s' room \<noteq> None" using k(1) by (auto simp: getRouter_def split: option.splits)
    ultimately show ?thesis by blast
  qed
qed

lemma has_session_room: "has_session sock room s \<Longrightarrow> roomHasSessions s room"
  by (auto simp: has_session_def roomHasSessions_def list_ex_iff dest!: map_of_SomeD intro: bexI [rotated])

lemma idle_close_router:
  assumes "has_session sock room s"
  shows "getRouter (fst (closeRouterIfEmpty room' s)) room = getRouter s room"
  using has_session_room [OF assms] by (auto simp: closeRouterIfEmpty_def getRouter_def split: option.split)

lemma close_router_rest:
  "sessions (fst (closeRouterIfEmpty room s)) = sessions s" "store (fst (closeRouterIfEmpty room s)) = store s"
  "sfu_calls (fst (closeRouterIfEmpty room s)) = sfu_calls s" "pending (fst (closeRouterIfEmpty room s)) = pending s"
  by (simp_all add: closeRouterIfEmpty_def split: option.split)

lemma idle_close_session_and_router:
  assumes "q \<noteq> sock" "has_session sock room s" "nothing_in_flight sock s" "closeSession q s = (s1, o1)" "closeRouterIfEmpty room' s1 = (s2, o2)"
  shows "nothing_in_flight sock s2 \<and> session_kept sock s s2 \<and> getRouter s2 room = getRouter s room"
proof -
  have k: "session_kept sock s s1" using session_kept_close [OF assms(1), of s] assms(4) by simp
  have same: "routers s1 = routers s" "pending s1 = pending s" "sfu_calls s1 = sfu_calls s" using closeSession_facts [of q s] assms(4) by simp_all
  from close_router_rest [of room' s1] assms(5) have s2: "sessions s2 = sessions s1" "store s2 = store s1" "sfu_calls s2 = sfu_calls s1" "pending s2 = pending s1"
    by simp_all
  have "getRouter s2 room = getRouter s1 room" using idle_close_router [OF has_session_kept [OF k assms(2)], of room'] assms(5) by simp
  then have "getRouter s2 room = getRouter s room" using same by (simp add: getRouter_def)
  moreover have "session_kept sock s s2" using session_kept_trans [OF k session_kept_same [OF s2(1,2)]] .
  ultimately show ?thesis using assms(3) nothing_in_flight_same [of s2 s sock] s2 same by simp
qed

definition idle_step :: "string \<Rightarrow> string \<Rightarrow> sfu_state \<Rightarrow> sfu_state \<Rightarrow> bool" where
  "idle_step sock room s s' \<longleftrightarrow> nothing_in_flight sock s' \<and> session_kept sock s s' \<and> (getRouter s room \<noteq> None \<longrightarrow> getRouter s' room \<noteq> None)"

lemma idle_routers_same: "nothing_in_flight sock s' \<Longrightarrow> session_kept sock s s' \<Longrightarrow> routers s' = routers s \<Longrightarrow> idle_step sock room s s'"
  by (simp add: idle_step_def getRouter_def)

lemma idle_request:
  assumes "nothing_in_flight sock s" "routers_kept s r" "session_kept sock s (fst r)" "calls_harmless sock s (fst r)"
  shows "idle_step sock room s (fst r)"
  using assms by (intro idle_routers_same) (auto simp: nothing_in_flight_def calls_harmless_def routers_kept_def)

lemma idle_requests:
  assumes "nothing_in_flight sock s"
  shows "idle_step sock room s (fst (on_connect_transport q tid dtls s))" "idle_step sock room s (fst (on_produce q tid kind rtp s))"
    "idle_step sock room s (fst (on_consume q room' pid caps can s))" "idle_step sock room s (fst (on_resume_consumer q cid s))"
    "idle_step sock room s (fst (on_close_producer q pid s))" "idle_step sock room s (fst (on_list_producers q room' s))"
  by (rule idle_request [OF assms kept_requests(1) kept_request_sessions(1) request_calls(1)]
    idle_request [OF assms kept_requests(2) kept_request_sessions(2) request_calls(2)]
    idle_request [OF assms kept_requests(3) kept_request_sessions(3) request_calls(3)]
    idle_request [OF assms kept_requests(4) kept_request_sessions(4) request_calls(4)]
    idle_request [OF assms kept_requests(5) kept_request_sessions(5) request_calls(5)]
    idle_request [OF assms kept_requests(6) kept_request_sessions(6) request_calls(6)])+

lemma idle_upd:
  assumes "nothing_in_flight sock s" "\<And>x. ses_roomId (f x) = ses_roomId x"
  shows "idle_step sock room s (upd_session ref f s)"
  using assms nothing_in_flight_same [of "upd_session ref f s" s sock] by (simp add: idle_routers_same session_kept_upd)

lemma idle_refl: "nothing_in_flight sock s \<Longrightarrow> idle_step sock room s s"
  by (simp add: idle_step_def session_kept_refl)

lemma idle_leave:
  assumes "q \<noteq> sock" "has_session sock room s" "nothing_in_flight sock s"
  shows "idle_step sock room s (fst (on_sfu_leave q room' s))"
proof -
  obtain s1 o1 where 1: "closeSession q s = (s1, o1)" by fastforce
  obtain s2 o2 where 2: "closeRouterIfEmpty room' s1 = (s2, o2)" by fastforce
  from idle_close_session_and_router [OF assms 1 2] idle_refl [OF assms(3)] 1 2 show ?thesis
    by (auto simp: on_sfu_leave_def idle_step_def split: option.split)
qed

lemma idle_disconnect:
  assumes "q \<noteq> sock" "has_session sock room s" "nothing_in_flight sock s"
  shows "idle_step sock room s (fst (on_sfu_disconnect q s))"
proof (cases "getSession s q")
  case None
  with idle_refl [OF assms(3)] show ?thesis by (simp add: on_sfu_disconnect_def)
next
  case (Some ref)
  obtain s1 o1 where 1: "closeSession q s = (s1, o1)" by fastforce
  obtain s2 o2 where 2: "closeRouterIfEmpty (ses_roomId (store s ! ref)) s1 = (s2, o2)" by fastforce
  have "idle_step sock room s s1"
    using closeSession_facts [of q s] session_kept_close [OF assms(1), of s] assms(3) 1 nothing_in_flight_same [of s1 s sock]
    by (simp add: idle_routers_same)
  with idle_close_session_and_router [OF assms 1 2] Some 1 2 show ?thesis
    by (simp add: on_sfu_disconnect_def idle_step_def Let_def)
qed

lemma idle_sfu_step:
  assumes d: "dormant sock room s" and other: "event_sock e \<noteq> Some sock"
  shows "idle_step sock room s (fst (sfu_step env e s))"
proof -
  have ok: "sfu_ok s" and idle: "nothing_in_flight sock s" and has: "has_session sock room s" using d by (simp_all add: dormant_def)
  show ?thesis
  proof (cases e)
    case (EnterRoom q r)
    then show ?thesis by (intro idle_routers_same) (auto intro: session_kept_same nothing_in_flight_same [THEN iffD2, OF _ _ idle])
  next
    case (QuitRoom q r)
    then show ?thesis by (intro idle_routers_same) (auto intro: session_kept_same nothing_in_flight_same [THEN iffD2, OF _ _ idle])
  next
    case (GetCaps q r)
    with idle_get_or_create [OF ok idle, of "WaitCaps q" env r] idle_refl [OF idle] show ?thesis
      by (auto simp: on_get_caps_def waiting_def intro: idle_routers_same)
  next
    case (CreateTransportReq q r dir)
    with other idle_get_or_create [OF ok idle, of "WaitTransport q (if dir = ''send'' then SendDir else RecvDir)" env r] idle_refl [OF idle] show ?thesis
      by (auto simp: on_create_transport_def waiting_def intro: idle_routers_same)
  next
    case (SfuLeave q r)
    with idle_leave [OF _ has idle] other show ?thesis by simp
  next
    case (SfuDisconnect q)
    let ?s = "s\<lparr>in_room_rel := filter (\<lambda>x. fst x \<noteq> q) (in_room_rel s)\<rparr>"
    have "has_session sock room ?s" "nothing_in_flight sock ?s" using has idle by (simp_all add: has_session_def nothing_in_flight_def)
    with idle_disconnect [of q sock room ?s] SfuDisconnect other show ?thesis by (simp add: idle_step_def session_kept_def getRouter_def)
  next
    case (WorkerDone res)
    with idle_worker [OF ok idle] show ?thesis by (simp add: idle_routers_same)
  next
    case (RouterDone r res)
    with idle_router [OF ok idle] show ?thesis by (simp add: idle_step_def)
  next
    case (CallDone i res)
    with session_kept_call [OF idle, of i res] kept_call_result [of s i res] idle show ?thesis
      by (intro idle_routers_same) (auto simp: routers_kept_def nothing_in_flight_def)
  qed (simp_all add: idle_requests [OF idle] idle_upd [OF idle])
qed

lemma dormant_step: "dormant sock room s \<Longrightarrow> event_sock e \<noteq> Some sock \<Longrightarrow> dormant sock room (fst (sfu_step env e s))"
  using idle_sfu_step [of sock room s e env] balance_step [of s room env e]
  by (auto simp: dormant_def idle_step_def intro: has_session_kept)

lemma dormant_run: "dormant sock room s \<Longrightarrow> \<forall>e \<in> set es. event_sock e \<noteq> Some sock \<Longrightarrow> dormant sock room (fst (sfu_run env es s))"
  unfolding sfu_run_fold by (induction es arbitrary: s) (simp_all add: dormant_step)

section \<open>Properties\<close>

text \<open>
  C16. There is one router per room: whatever messages, results and failures come, the routers asked of the worker for a room are at most
  those that failed, those that were closed and one more, so two requests that race never make two routers.
\<close>

theorem one_router_per_room:
  "router_requests room (snd (sfu_run env es sfu_init))
    \<le> length (filter (router_failure room) es) + router_closings room (snd (sfu_run env es sfu_init)) + 1"
  using balance_run [OF sfu_init_ok, of room env es] live_le_1 [OF sfu_ok_run [OF sfu_init_ok], of env es room]
  by (simp add: router_balance_def)

lemma roomHasSessions_iff: "roomHasSessions s room \<longleftrightarrow> (\<exists>(q, ref) \<in> set (sessions s). ses_roomId (store s ! ref) = room)"
  by (force simp: roomHasSessions_def list_ex_iff)

text \<open>
  C30. When the socket that disconnects had the last session of its room, the session goes, all its producers, consumers and transports
  are closed, and so is the router of the room.
\<close>

theorem last_disconnect_closes_router:
  assumes "getSession s sock = Some ref" "ses_roomId (store s ! ref) = room" "room \<noteq> []"
    and "\<forall>(q, r) \<in> set (sessions s). q \<noteq> sock \<longrightarrow> ses_roomId (store s ! r) \<noteq> room"
  shows "case sfu_step env (SfuDisconnect sock) s of (s', out) \<Rightarrow>
    getSession s' sock = None \<and> getRouter s' room = None \<and> (getRouter s room \<noteq> None \<longrightarrow> CloseRouter room \<in> set out) \<and>
    set (map CloseConsumer (jm_keys (consumers (store s ! ref))) @ map CloseProducer (jm_keys (producers (store s ! ref)))
      @ close_opt (sendTransport (store s ! ref)) @ close_opt (recvTransport (store s ! ref))) \<subseteq> set out"
proof -
  let ?s = "s\<lparr>in_room_rel := filter (\<lambda>x. fst x \<noteq> sock) (in_room_rel s)\<rparr>"
  obtain s1 o1 where 1: "closeSession sock ?s = (s1, o1)" by fastforce
  have o1: "o1 = map CloseConsumer (jm_keys (consumers (store s ! ref))) @ map CloseProducer (jm_keys (producers (store s ! ref)))
      @ close_opt (sendTransport (store s ! ref)) @ close_opt (recvTransport (store s ! ref))"
    and s1: "sessions s1 = jm_del (sessions s) sock" "\<And>i. ses_roomId (store s1 ! i) = ses_roomId (store s ! i)" "routers s1 = routers s"
    using 1 assms(1) upd_session_room [of "\<lambda>x. x\<lparr>producers := [], consumers := []\<rparr>" ref ?s]
    by (auto simp: closeSession_def getSession_def Let_def)
  have "\<not> roomHasSessions s1 room" using assms(4) by (auto simp: roomHasSessions_iff s1 jm_set_del)
  then have "closeRouterIfEmpty room s1 = (case getRouter s room of None \<Rightarrow> (s1, [])
      | Some r \<Rightarrow> (s1\<lparr>routers := jm_del (routers s1) room\<rparr>, [CloseRouter room]))"
    by (simp add: closeRouterIfEmpty_def getRouter_def s1 split: option.split)
  then show ?thesis using assms(1-3) 1 o1
    by (auto simp: on_sfu_disconnect_def getSession_def getRouter_def s1 Let_def split: option.split)
qed

definition demo_env :: sfu_env where
  "demo_env = \<lparr>MEDIASOUP_LISTEN_IP = None, MEDIASOUP_ANNOUNCED_IP = None, MEDIASOUP_MIN_PORT = None, MEDIASOUP_MAX_PORT = None,
    MEDIASOUP_LOG_LEVEL = None\<rparr>"

definition demo_start :: "sfu_event list" where
  "demo_start = [EnterRoom ''a'' ''r'', CreateTransportReq ''a'' ''r'' ''send'', WorkerDone (ok ()), RouterDone ''r'' (ok (''R'', DNull))]"

definition demo_transport :: sfu_transport where
  "demo_transport = \<lparr>tr_id = ''T'', iceParameters = DNull, iceCandidates = DNull, dtlsParameters = DNull\<rparr>"

lemmas demo_eval = demo_start_def demo_env_def demo_transport_def sfu_init_def on_create_transport_def sfu_inRoom_def getOrCreateRouter_def getRouter_def
  getWorker_def on_worker_def on_router_def on_call_result_def transport_made_def ensureSession_def create_session_def getSession_def
  upd_session_def close_opt_def

theorem last_disconnect_closes_router_witness:
  "let s = fst (sfu_run demo_env (demo_start @ [CallDone 0 (GotTransport demo_transport)]) sfu_init) in
   case sfu_step demo_env (SfuDisconnect ''a'') s of (s', out) \<Rightarrow>
    getSession s' ''a'' = None \<and> getRouter s' ''r'' = None \<and> (getRouter s ''r'' \<noteq> None \<longrightarrow> CloseRouter ''r'' \<in> set out) \<and>
    set (map CloseConsumer (jm_keys (consumers (store s ! 0))) @ map CloseProducer (jm_keys (producers (store s ! 0)))
      @ close_opt (sendTransport (store s ! 0)) @ close_opt (recvTransport (store s ! 0))) \<subseteq> set out"
  unfolding Let_def
  by (rule last_disconnect_closes_router) (simp_all add: demo_eval new_session_def Let_def)

text \<open>
  A socket that disconnects while its transport is being made leaves a session behind for ever: the session is made after the
  disconnect, no event of any other socket, of the worker or of mediasoup removes it, and the router of the room is never closed.
\<close>

theorem session_outlives_socket:
  assumes s: "s = fst (sfu_run env es0 sfu_init)" and none: "getSession s sock = None"
    and call: "i < length (sfu_calls s)" "sfu_calls s ! i = CallTransport sock room dir"
    and only: "nothing_in_flight sock (s\<lparr>sfu_calls := take i (sfu_calls s) @ drop (Suc i) (sfu_calls s)\<rparr>)"
    and router: "getRouter s room \<noteq> None" and others: "\<forall>e \<in> set es. event_sock e \<noteq> Some sock"
  shows "let s' = fst (sfu_run env (SfuDisconnect sock # CallDone i (GotTransport t) # es) s)
    in getSession s' sock \<noteq> None \<and> getRouter s' room \<noteq> None"
proof -
  define s2 where "s2 = fst (sfu_step env (CallDone i (GotTransport t)) (fst (sfu_step env (SfuDisconnect sock) s)))"
  have "sfu_ok s" unfolding s by (rule sfu_ok_run [OF sfu_init_ok])
  then have ok: "sfu_ok s2" unfolding s2_def by (simp only: balance_step)
  have "has_session sock room s2 \<and> nothing_in_flight sock s2 \<and> getRouter s2 room \<noteq> None"
    using none call only router
    by (cases dir) (simp_all add: s2_def on_sfu_disconnect_def getSession_def on_call_result_def transport_made_def ensureSession_def
      create_session_def upd_session_def nothing_in_flight_def has_session_def getRouter_def new_session_def Let_def)
  with ok have "dormant sock room s2" by (simp add: dormant_def)
  from dormant_run [OF this others, of env] show ?thesis
    by (auto simp: s2_def dormant_def has_session_def getSession_def Let_def split_beta)
qed

theorem session_outlives_socket_witness:
  "let s' = fst (sfu_run demo_env [SfuDisconnect ''a'', CallDone 0 (GotTransport demo_transport), EnterRoom ''b'' ''r'', SfuDisconnect ''b'']
      (fst (sfu_run demo_env demo_start sfu_init)))
    in getSession s' ''a'' \<noteq> None \<and> getRouter s' ''r'' \<noteq> None"
  by (rule session_outlives_socket [OF refl, where dir = SendDir]) (simp_all add: demo_eval nothing_in_flight_def Let_def)

text \<open>
  A socket that leaves the room while its transport is being made can go on publishing into it: its producer is accepted and announced
  to the members of the room although the socket is no longer one of them.
\<close>

theorem produce_after_leaving:
  assumes none: "getSession s sock = None" and call: "i < length (sfu_calls s)" "sfu_calls s ! i = CallTransport sock room SendDir"
  shows "case sfu_run env [SfuLeave sock room, QuitRoom sock room, CallDone i (GotTransport t), ProduceReq sock (tr_id t) kind rtp,
      CallDone (length (sfu_calls s) - 1) (GotProducer pid kind)] s of (s', out) \<Rightarrow>
    \<not> sfu_inRoom s' sock room \<and> ToOthers room sock (NewProducer sock pid kind) \<in> set out \<and> Ack sock (AckProduced pid) \<in> set out"
proof -
  have n: "length (sfu_calls s) - Suc 0 = length (take i (sfu_calls s) @ drop (Suc i) (sfu_calls s))" using call(1) by simp
  have at_end: "(take i (sfu_calls s) @ drop (Suc i) (sfu_calls s) @ [c]) ! (length (sfu_calls s) - Suc 0) = c" for c
    using nth_append_length [of "take i (sfu_calls s) @ drop (Suc i) (sfu_calls s)" c "[]"] by (simp only: n append_assoc)
  show ?thesis using none call
    by (simp add: on_sfu_leave_def getSession_def on_call_result_def transport_made_def ensureSession_def create_session_def upd_session_def
      on_produce_def has_id_def new_session_def at_end sfu_inRoom_def producer_made_def Let_def)
qed

theorem produce_after_leaving_witness:
  "case sfu_run demo_env [SfuLeave ''a'' ''r'', QuitRoom ''a'' ''r'', CallDone 0 (GotTransport demo_transport),
      ProduceReq ''a'' (tr_id demo_transport) ''video'' DNull, CallDone (length (sfu_calls (fst (sfu_run demo_env demo_start sfu_init))) - 1) (GotProducer ''P'' ''video'')]
      (fst (sfu_run demo_env demo_start sfu_init)) of (s', out) \<Rightarrow>
    \<not> sfu_inRoom s' ''a'' ''r'' \<and> ToOthers ''r'' ''a'' (NewProducer ''a'' ''P'' ''video'') \<in> set out \<and> Ack ''a'' (AckProduced ''P'') \<in> set out"
  by (rule produce_after_leaving) (simp_all add: demo_eval Let_def)

end
