(* ===== verification/RtcConfig.thy ===== *)
theory RtcConfig imports ServerRoutes begin

text \<open>
  The ICE configuration of the client (\<open>utils.ts\<close>): the cached answer of \<open>/turn-credentials\<close>, its refresh, and the
  fallback to STUN. The answer of the server is an input; the last section composes the client with the
  server's route.
\<close>

definition STUN_FALLBACK :: "ice_server list" where
  "STUN_FALLBACK = [Stun ''stun:stun.l.google.com:19302'']"

record cached_rtc =
  rc_servers :: "ice_server list"
  rc_expiresAt :: int
  rc_turnAvailable :: bool

record rtc_state =
  rtc_cached :: "cached_rtc option"
  rtc_inFlight :: bool

text \<open>What the fetch gives: it fails, has a status that is not ok, or a body; a body that is not JSON is \<open>None\<close>.\<close>

datatype rtc_answer = Unreachable | RefusedWith nat | Answered "turn_reply option"

definition fetch_rtc_request :: "string option \<Rightarrow> turn_request" where
  "fetch_rtc_request userId = \<lparr>tr_authorization = None, tr_token = None, tr_ttl = None,
     tr_userId = (case userId of None \<Rightarrow> None | Some u \<Rightarrow> if u = [] then None else Some (JStr u))\<rparr>"

text \<open>A call while another is in flight shares its promise and sends nothing.\<close>

definition fetchRtcConfig :: "string option \<Rightarrow> rtc_state \<Rightarrow> turn_request option \<times> rtc_state" where
  "fetchRtcConfig userId s =
    (if rtc_inFlight s then (None, s) else (Some (fetch_rtc_request userId), s\<lparr>rtc_inFlight := True\<rparr>))"

definition fallback_rtc :: cached_rtc where
  "fallback_rtc = \<lparr>rc_servers = STUN_FALLBACK, rc_expiresAt = 0, rc_turnAvailable = False\<rparr>"

definition cache_of :: "rtc_answer \<Rightarrow> cached_rtc" where
  "cache_of a =
    (case a of
       Answered (Some r) \<Rightarrow>
         if tp_iceServers r = [] then fallback_rtc
         else \<lparr>rc_servers = tp_iceServers r, rc_expiresAt = tp_expiresAt r, rc_turnAvailable = tp_turnAvailable r\<rparr>
     | _ \<Rightarrow> fallback_rtc)"

definition rtc_fetched :: "rtc_answer \<Rightarrow> rtc_state \<Rightarrow> ice_server list \<times> rtc_state" where
  "rtc_fetched a s = (rc_servers (cache_of a), s\<lparr>rtc_cached := Some (cache_of a), rtc_inFlight := False\<rparr>)"

definition getCachedRtcConfig :: "rtc_state \<Rightarrow> ice_server list" where
  "getCachedRtcConfig s = (case rtc_cached s of None \<Rightarrow> STUN_FALLBACK | Some c \<Rightarrow> rc_servers c)"

definition rtcConfigIsFresh :: "int \<Rightarrow> int \<Rightarrow> rtc_state \<Rightarrow> bool" where
  "rtcConfigIsFresh now safetyMs s =
    (case rtc_cached s of
       None \<Rightarrow> False
     | Some c \<Rightarrow> if \<not> rc_turnAvailable c then True else rc_expiresAt c > now + safetyMs)"

text \<open>
  \<open>ensureRtcConfig\<close> of \<open>pages/Index.tsx\<close>, which runs before a connection is made: \<open>answer\<close> is what its fetch, or the
  one in flight it joins, gives.
\<close>

definition ensureRtcConfig :: "int \<Rightarrow> rtc_answer \<Rightarrow> rtc_state \<Rightarrow> rtc_state" where
  "ensureRtcConfig now answer s = (if rtcConfigIsFresh now 30000 s then s else snd (rtc_fetched answer s))"

section \<open>With the server\<close>

definition server_answer :: "(string \<Rightarrow> string \<Rightarrow> string) \<Rightarrow> turn_env \<Rightarrow> nat \<Rightarrow> string option \<Rightarrow> rtc_answer" where
  "server_answer hmac env now userId =
    (case turn_credentials hmac env now (fetch_rtc_request userId) of Inl status \<Rightarrow> RefusedWith status | Inr r \<Rightarrow> Answered (Some r))"

lemma server_answer_cache:
  "let c = cache_of (server_answer hmac env now userId) in
    rc_turnAvailable c \<longrightarrow> rc_expiresAt c = (int (now div 1000) + 300) * 1000"
  by (auto simp: server_answer_def cache_of_def fallback_rtc_def turn_credentials_def fetch_rtc_request_def turn_ttl_def Let_def
    split: if_splits)

lemma gate_refuses:
  assumes "truthy (te_token env)"
  shows "server_answer hmac env now userId = RefusedWith 401"
proof -
  have "turn_token (fetch_rtc_request userId) = []" by (simp add: turn_token_def fetch_rtc_request_def bearer_slice_def)
  moreover have "Some [] \<noteq> te_token env" using assms by (cases "te_token env") (auto simp: truthy_def)
  ultimately show ?thesis using assms by (simp add: server_answer_def turn_credentials_def)
qed

text \<open>The fetches of a page: at each of them the server answers, or cannot be reached, and the answer is cached.\<close>

definition page_fetch :: "(string \<Rightarrow> string \<Rightarrow> string) \<Rightarrow> turn_env \<Rightarrow> string option \<Rightarrow> nat option \<Rightarrow> rtc_state \<Rightarrow> rtc_state" where
  "page_fetch hmac env userId t s = snd (rtc_fetched (case t of None \<Rightarrow> Unreachable | Some now \<Rightarrow> server_answer hmac env now userId) s)"

text \<open>
  A connection is never made with TURN credentials about to expire: after \<open>ensureRtcConfig\<close> the cached credentials are
  good for more than half a minute, when the clocks agree and the answer of the server, with its five minutes, took less than four
  minutes to arrive.
\<close>

theorem ice_credentials_fresh:
  assumes "sent \<le> arrived" "arrived < sent + 240000" "\<not> rtcConfigIsFresh (int arrived) 30000 s \<longrightarrow> answer = server_answer hmac env sent userId"
  shows "\<exists>c. rtc_cached (ensureRtcConfig (int arrived) answer s) = Some c \<and> (rc_turnAvailable c \<longrightarrow> rc_expiresAt c > int arrived + 30000)"
proof (cases "rtcConfigIsFresh (int arrived) 30000 s")
  case True
  then show ?thesis by (auto simp: ensureRtcConfig_def rtcConfigIsFresh_def split: option.splits if_splits)
next
  case False
  have "int sent < (int (sent div 1000) + 1) * 1000" by (simp add: zdiv_int)
  with False assms server_answer_cache [of hmac env sent userId] show ?thesis
    by (auto simp: ensureRtcConfig_def rtc_fetched_def Let_def)
qed

theorem ice_credentials_fresh_witness:
  "\<exists>c. rtc_cached (ensureRtcConfig (int 7000) (server_answer (\<lambda>s u. s @ u) demo_turn_env 5000 None) \<lparr>rtc_cached = None, rtc_inFlight = False\<rparr>) = Some c
    \<and> (rc_turnAvailable c \<longrightarrow> rc_expiresAt c > int 7000 + 30000)"
  by (rule ice_credentials_fresh [where sent = 5000 and hmac = "\<lambda>s u. s @ u" and env = demo_turn_env and userId = None]) simp_all

text \<open>
  The bearer gate of the route shuts the client out: with \<open>TURN_CREDENTIALS_TOKEN\<close> set, the client, which never sends a token, holds
  nothing but the STUN fallback after every fetch.
\<close>

theorem token_gate_shuts_out_client:
  assumes "truthy (te_token env)" "ts \<noteq> []"
  shows "getCachedRtcConfig (fold (page_fetch hmac env userId) ts s) = STUN_FALLBACK"
proof -
  have "cache_of (case t of None \<Rightarrow> Unreachable | Some now \<Rightarrow> server_answer hmac env now userId) = fallback_rtc" for t
    using gate_refuses [OF assms(1), of hmac _ userId] by (simp add: cache_of_def split: option.split)
  then have "getCachedRtcConfig (page_fetch hmac env userId t s) = STUN_FALLBACK" for t s
    by (simp add: page_fetch_def rtc_fetched_def getCachedRtcConfig_def fallback_rtc_def)
  with assms(2) show ?thesis by (cases ts rule: rev_cases) simp_all
qed

theorem token_gate_shuts_out_client_witness:
  "getCachedRtcConfig (fold (page_fetch (\<lambda>s u. s @ u) (demo_turn_env\<lparr>te_token := Some ''t''\<rparr>) None) [None, Some 5] \<lparr>rtc_cached = None, rtc_inFlight = False\<rparr>)
    = STUN_FALLBACK"
  by (rule token_gate_shuts_out_client) (simp_all add: truthy_def)

end
