(* ===== verification/AuthClient.thy ===== *)
theory AuthClient imports JsonText AuthProps begin

text \<open>
  The client's side of the authentication (\<open>lib/authClient.ts\<close>): the session in the local storage, the two requests,
  the token in the address of the page, and what the page does with it on mount (\<open>pages/Index.tsx\<close>). The storage is a map from keys to texts; the answers of the server are inputs.
\<close>

definition STORAGE_KEY :: string where "STORAGE_KEY = ''vc:auth-session-v1''"

record auth_session =
  as_token :: string
  as_email :: string
  as_expiresAt :: nat

type_synonym local_storage = "(string, string) jmap"

definition session_doc :: "auth_session \<Rightarrow> doc" where
  "session_doc s = DObj [(''token'', DStr (as_token s)), (''email'', DStr (as_email s)), (''expiresAt'', DNum (as_expiresAt s))]"

fun doc_field :: "doc \<Rightarrow> string \<Rightarrow> doc option" where
  "doc_field (DObj fs) k = map_of fs k"
| "doc_field _ k = None"

definition loadSession :: "nat \<Rightarrow> local_storage \<Rightarrow> auth_session option \<times> local_storage" where
  "loadSession now store =
    (case jm_get store STORAGE_KEY of
       None \<Rightarrow> (None, store)
     | Some raw \<Rightarrow>
         if raw = [] then (None, store)
         else case json_parse raw of
           None \<Rightarrow> (None, store)
         | Some parsed \<Rightarrow>
            (case (doc_field parsed ''token'', doc_field parsed ''email'', doc_field parsed ''expiresAt'') of
               (Some (DStr token), Some (DStr email), Some (DNum expiresAt)) \<Rightarrow>
                 if expiresAt \<le> now then (None, jm_del store STORAGE_KEY)
                 else (Some \<lparr>as_token = token, as_email = email, as_expiresAt = expiresAt\<rparr>, store)
             | _ \<Rightarrow> (None, store)))"

definition saveSession :: "auth_session \<Rightarrow> local_storage \<Rightarrow> local_storage" where
  "saveSession s store = jm_set store STORAGE_KEY (json_text (session_doc s))"

definition clearSession :: "local_storage \<Rightarrow> local_storage" where
  "clearSession store = jm_del store STORAGE_KEY"

text \<open>What a request to the server gives: an error of the network or of \<open>json()\<close>, or a status with a body.\<close>

datatype http_answer = NoAnswer string | HttpAnswer nat jsval

definition resp_ok :: "nat \<Rightarrow> bool" where
  "resp_ok status \<longleftrightarrow> 200 \<le> status \<and> status < 300"

definition error_text :: "nat \<Rightarrow> jsval \<Rightarrow> jsval" where
  "error_text status data =
    (case jget data ''error'' of None \<Rightarrow> Some (JStr (''HTTP '' @ nat_str status)) | Some JNull \<Rightarrow> Some (JStr (''HTTP '' @ nat_str status))
     | Some e \<Rightarrow> Some e)"

definition ok_field :: "jsval \<Rightarrow> bool" where
  "ok_field data = (case jget data ''ok'' of None \<Rightarrow> False | Some JNull \<Rightarrow> False | Some (JBool b) \<Rightarrow> b | Some (JNum q) \<Rightarrow> q \<noteq> 0
     | Some (JStr s) \<Rightarrow> s \<noteq> [] | Some _ \<Rightarrow> True)"

text \<open>The result of asking for a link: an error, or the address of a preview.\<close>

definition requestMagicLink :: "http_answer \<Rightarrow> jsval + jsval" where
  "requestMagicLink a =
    (case a of
       NoAnswer e \<Rightarrow> Inl (Some (JStr e))
     | HttpAnswer status data \<Rightarrow>
         if data = None \<or> data = Some JNull then Inl (if resp_ok status then Some (JStr ''TypeError'') else error_text status None)
         else if \<not> resp_ok status \<or> \<not> ok_field data then Inl (error_text status data)
         else Inr (jget data ''previewUrl''))"

definition exp_seconds :: "jsval \<Rightarrow> rat" where
  "exp_seconds data = (case jget data ''expSeconds'' of Some (JNum q) \<Rightarrow> q | _ \<Rightarrow> 86400)"

text \<open>\<open>now\<close> is the clock when the answer is read. The fields of the body are used as they come.\<close>

record redeemed =
  rd_token :: jsval
  rd_email :: jsval
  rd_expiresAt :: rat

definition redeemMagicToken :: "nat \<Rightarrow> http_answer \<Rightarrow> jsval + redeemed" where
  "redeemMagicToken now a =
    (case a of
       NoAnswer e \<Rightarrow> Inl (Some (JStr e))
     | HttpAnswer status data \<Rightarrow>
         if data = None \<or> data = Some JNull then Inl (if resp_ok status then Some (JStr ''TypeError'') else error_text status None)
         else if \<not> resp_ok status \<or> \<not> ok_field data then Inl (error_text status data)
         else Inr \<lparr>rd_token = jget data ''token'', rd_email = jget data ''email'', rd_expiresAt = of_nat now + exp_seconds data * 1000\<rparr>)"

section \<open>The address of the page\<close>

text \<open>An address: what stands before the query, the decoded parameters, and the fragment.\<close>

record page_url =
  url_base :: string
  url_params :: "(string \<times> string) list"
  url_hash :: string

definition consumeMagicParamFromUrl :: "page_url \<Rightarrow> string option \<times> page_url" where
  "consumeMagicParamFromUrl url =
    (case map_of (url_params url) ''magic'' of
       None \<Rightarrow> (None, url)
     | Some token \<Rightarrow>
         if token = [] then (None, url)
         else (Some token, url\<lparr>url_params := filter (\<lambda>(k, v). k \<noteq> ''magic'') (url_params url)\<rparr>))"

section \<open>The page\<close>

text \<open>
  What \<open>pages/Index.tsx\<close> keeps of it: the address, the local storage, the session and the error it shows, at first
  \<open>null\<close>. On mount the session is the stored one; then an effect looks for a token in the address, which is taken out, and asks
  the server to redeem it; \<open>on_redeemed\<close> goes on when the answer is there.
\<close>

record auth_page =
  ap_url :: page_url
  ap_store :: local_storage
  ap_session :: "auth_session option"
  ap_error :: jsval

definition page_start :: "nat \<Rightarrow> page_url \<Rightarrow> local_storage \<Rightarrow> auth_page" where
  "page_start now url store =
    (let (session, store') = loadSession now store in \<lparr>ap_url = url, ap_store = store', ap_session = session, ap_error = Some JNull\<rparr>)"

text \<open>The body of the request, when there is one.\<close>

definition redeem_effect :: "auth_page \<Rightarrow> jsval \<times> auth_page" where
  "redeem_effect p =
    (case consumeMagicParamFromUrl (ap_url p) of
       (None, url) \<Rightarrow> (None, p\<lparr>ap_url := url\<rparr>)
     | (Some magic, url) \<Rightarrow> (Some (JObj [(''token'', JStr magic)]), p\<lparr>ap_url := url\<rparr>))"

text \<open>
  An answer as the interface \<open>AuthSession\<close> declares it: two strings and a number of milliseconds. For an answer with other fields
  \<open>on_redeemed\<close> is \<open>None\<close>: what the page does with one is not modelled.
\<close>

definition answered_session :: "redeemed \<Rightarrow> auth_session option" where
  "answered_session r =
    (case (rd_token r, rd_email r) of
       (Some (JStr token), Some (JStr email)) \<Rightarrow>
         if of_nat (nat \<lfloor>rd_expiresAt r\<rfloor>) = rd_expiresAt r
         then Some \<lparr>as_token = token, as_email = email, as_expiresAt = nat \<lfloor>rd_expiresAt r\<rfloor>\<rparr> else None
     | _ \<Rightarrow> None)"

definition on_redeemed :: "jsval + redeemed \<Rightarrow> auth_page \<Rightarrow> auth_page option" where
  "on_redeemed result p =
    (case result of
       Inl e \<Rightarrow> Some (p\<lparr>ap_error := e\<rparr>)
     | Inr r \<Rightarrow> map_option (\<lambda>s. p\<lparr>ap_store := saveSession s (ap_store p), ap_session := Some s\<rparr>) (answered_session r))"

section \<open>Properties\<close>

lemma session_read_back: "json_parse (json_text (session_doc s)) = Some (session_doc s)"
  by (rule json_parse_text) (simp add: session_doc_def)

lemma json_text_session_nonempty: "json_text (session_doc s) \<noteq> []"
  by (simp add: session_doc_def)

lemma load_saved:
  "loadSession now (saveSession s store) =
    (if as_expiresAt s \<le> now then (None, clearSession (saveSession s store)) else (Some s, saveSession s store))"
  by (simp add: loadSession_def saveSession_def clearSession_def session_read_back json_text_session_nonempty)
    (simp add: session_doc_def)

lemma consume_clears: "consumeMagicParamFromUrl url = (Some t, url') \<Longrightarrow> consumeMagicParamFromUrl url' = (None, url')"
  by (auto simp: consumeMagicParamFromUrl_def split: option.splits if_splits dest!: map_of_SomeD)

lemma answered_session_strings:
  "answered_session \<lparr>rd_token = Some (JStr t), rd_email = Some (JStr e), rd_expiresAt = of_nat n\<rparr> = Some \<lparr>as_token = t, as_email = e, as_expiresAt = n\<rparr>"
  by (simp add: answered_session_def)

lemma page_start_saved:
  "page_start later url (saveSession s store) =
    (if later < as_expiresAt s then \<lparr>ap_url = url, ap_store = saveSession s store, ap_session = Some s, ap_error = Some JNull\<rparr>
     else \<lparr>ap_url = url, ap_store = clearSession (saveSession s store), ap_session = None, ap_error = Some JNull\<rparr>)"
  by (simp add: page_start_def load_saved)

lemma redeem_answers:
  assumes "redeem lib inp body st = (Resp status data, st')"
  shows "status \<noteq> 200 \<and> redeemMagicToken now (HttpAnswer status (Some data)) = Inl (jget (Some data) ''error'')
    \<or> status = 200 \<and> (\<exists>token email. jget (Some data) ''token'' = Some (JStr token) \<and> jget (Some data) ''email'' = Some (JStr email)
        \<and> redeemMagicToken now (HttpAnswer status (Some data))
            = Inr \<lparr>rd_token = Some (JStr token), rd_email = Some (JStr email), rd_expiresAt = of_nat (now + 86400000)\<rparr>)"
  using assms
  by (auto simp: redeem_def redeemMagicToken_def fail_def error_text_def resp_ok_def ok_field_def exp_seconds_def
      signSession_def SESSION_TTL_SECONDS_def Let_def split: if_splits prod.splits sum.splits)

text \<open>
  C29. A link that is opened signs the page in, and for 24 hours: the page asks the server to redeem the token of its
  address, from which it has taken the token, so that a reload does not ask again. When the server redeems it, the page's session, and the one it saves, has
  the answer's token in its field \<open>token\<close>, the answer's address in its field \<open>email\<close>, and ends 24 hours after the answer was read; a page loaded from the
  storage before then has exactly that session, one loaded later has none and removes the entry. When the server
  refuses, the page shows the server's own error, and its session and the storage stay as they were.
\<close>

theorem session_survives_reload:
  assumes "redeem_effect p0 = (Some body, p1)" and "redeem lib inp (Some body) st = (Resp status data, st')"
  shows "body = JObj [(''token'', JStr (the (fst (consumeMagicParamFromUrl (ap_url p0)))))] \<and> fst (redeem_effect p1) = None
    \<and> (if status = 200
       then \<exists>token email. jget (Some data) ''token'' = Some (JStr token) \<and> jget (Some data) ''email'' = Some (JStr email)
         \<and> (let s = \<lparr>as_token = token, as_email = email, as_expiresAt = now + 86400000\<rparr>; store = saveSession s (ap_store p) in
              on_redeemed (redeemMagicToken now (HttpAnswer status (Some data))) p = Some (p\<lparr>ap_store := store, ap_session := Some s\<rparr>)
              \<and> (later < now + 86400000 \<longrightarrow> ap_session (page_start later url store) = Some s \<and> ap_store (page_start later url store) = store)
              \<and> (now + 86400000 \<le> later \<longrightarrow> ap_session (page_start later url store) = None
                   \<and> ap_store (page_start later url store) = clearSession store))
       else on_redeemed (redeemMagicToken now (HttpAnswer status (Some data))) p = Some (p\<lparr>ap_error := jget (Some data) ''error''\<rparr>))"
proof -
  obtain magic url' where m: "consumeMagicParamFromUrl (ap_url p0) = (Some magic, url')" "body = JObj [(''token'', JStr magic)]"
      "p1 = p0\<lparr>ap_url := url'\<rparr>"
    using assms(1) by (auto simp: redeem_effect_def split: prod.splits option.splits)
  have "fst (redeem_effect p1) = None" by (simp add: redeem_effect_def m(3) consume_clears [OF m(1)])
  with m show ?thesis using redeem_answers [OF assms(2), of now]
    by (auto simp: on_redeemed_def answered_session_strings page_start_saved Let_def simp del: of_nat_add)
qed

theorem session_survives_reload_witness:
  "let link = jw_sign plain_jwt \<lparr>cl_sub = ''a@b.c'', cl_kind = ''magic'', cl_jti = ''j''\<rparr> ''k'' 600 0;
       session = jw_sign plain_jwt \<lparr>cl_sub = ''a@b.c'', cl_kind = ''session'', cl_jti = ''s''\<rparr> ''k'' SESSION_TTL_SECONDS 60000;
       p = page_start 0 \<lparr>url_base = ''h'', url_params = [(''magic'', link), (''x'', ''y'')], url_hash = []\<rparr> [];
       answer = Resp 200 (JObj [(''ok'', JBool True), (''token'', JStr session), (''email'', JStr ''a@b.c''), (''expSeconds'', JNum (of_nat SESSION_TTL_SECONDS))]);
       s = \<lparr>as_token = session, as_email = ''a@b.c'', as_expiresAt = 60100 + 86400000\<rparr>
   in fst (redeem plain_jwt (at_time 60000 ''s'') (fst (redeem_effect p)) (started\<lparr>au_secret := Some ''k''\<rparr>)) = answer
     \<and> on_redeemed (redeemMagicToken 60100 (case answer of Resp status data \<Rightarrow> HttpAnswer status (Some data))) p
         = Some (p\<lparr>ap_store := saveSession s [], ap_session := Some s\<rparr>)
     \<and> ap_session (page_start 5000000 (ap_url p) (saveSession s [])) = Some s"
proof -
  let ?st = "started\<lparr>au_secret := Some ''k''\<rparr>"
  let ?link = "jw_sign plain_jwt \<lparr>cl_sub = ''a@b.c'', cl_kind = ''magic'', cl_jti = ''j''\<rparr> ''k'' 600 0"
  let ?session = "jw_sign plain_jwt \<lparr>cl_sub = ''a@b.c'', cl_kind = ''session'', cl_jti = ''s''\<rparr> ''k'' SESSION_TTL_SECONDS 60000"
  let ?p = "page_start 0 \<lparr>url_base = ''h'', url_params = [(''magic'', ?link), (''x'', ''y'')], url_hash = []\<rparr> []"
  note r = plain.redeem_signed [of ?st "''k''" "at_time 60000 ''s''" "\<lparr>cl_sub = ''a@b.c'', cl_kind = ''magic'', cl_jti = ''j''\<rparr>" 600 0]
  have free: "\<not> isJtiRedeemed ''j'' ?st" by (simp add: started_def isJtiRedeemed_def)
  then have red: "redeem plain_jwt (at_time 60000 ''s'') (Some (JObj [(''token'', JStr ?link)])) ?st
    = (Resp 200 (JObj [(''ok'', JBool True), (''token'', JStr (jw_sign plain_jwt \<lparr>cl_sub = ''a@b.c'', cl_kind = ''session'', cl_jti = ''s''\<rparr> ''k'' SESSION_TTL_SECONDS 60000)),
        (''email'', JStr ''a@b.c''), (''expSeconds'', JNum (of_nat SESSION_TTL_SECONDS))]), markJtiRedeemed 60000 ''j'' ?st)"
    using r by (simp add: at_time_def)
  have link: "?link \<noteq> []" using plain.sign_text by blast
  have eff: "redeem_effect ?p = (Some (JObj [(''token'', JStr ?link)]), snd (redeem_effect ?p))"
    by (simp add: redeem_effect_def consumeMagicParamFromUrl_def page_start_def loadSession_def link)
  have store: "ap_store ?p = []" by (simp add: page_start_def loadSession_def)
  from session_survives_reload [OF eff red, of 60100 ?p 5000000 "ap_url ?p"] have
    "on_redeemed (redeemMagicToken 60100 (HttpAnswer 200 (Some (JObj [(''ok'', JBool True), (''token'', JStr ?session), (''email'', JStr ''a@b.c''),
        (''expSeconds'', JNum (of_nat SESSION_TTL_SECONDS))])))) ?p
      = Some (?p\<lparr>ap_store := saveSession \<lparr>as_token = ?session, as_email = ''a@b.c'', as_expiresAt = 60100 + 86400000\<rparr> [],
          ap_session := Some \<lparr>as_token = ?session, as_email = ''a@b.c'', as_expiresAt = 60100 + 86400000\<rparr>\<rparr>)"
    "ap_session (page_start 5000000 (ap_url ?p) (saveSession \<lparr>as_token = ?session, as_email = ''a@b.c'', as_expiresAt = 60100 + 86400000\<rparr> []))
      = Some \<lparr>as_token = ?session, as_email = ''a@b.c'', as_expiresAt = 60100 + 86400000\<rparr>"
    by (auto simp: Let_def store)
  moreover have "fst (redeem_effect ?p) = Some (JObj [(''token'', JStr ?link)])" using eff by (metis fst_conv)
  ultimately show ?thesis unfolding Let_def response.case using red by (metis fst_conv)
qed

end
