(* ===== verification/RoomClient.thy ===== *)
theory RoomClient imports RoomRefinement begin

text \<open>
  The room of a client (\<open>pages/Index.tsx\<close>): the roster it shows, the mode of the room, the flags of the cameras and
  microphones, and the actions of the user that change them. \<open>client_recv\<close> is the effect of a message of the server on this state;
  the second half puts clients and server together.
\<close>

section \<open>The state of a client\<close>

datatype app_state = AppUsername | AppLobby | AppRoom

record room_user =
  ru_id :: string
  ru_username :: jsval
  ru_stream :: "nat option"
  ru_video :: bool
  ru_audio :: bool

record room_client =
  cl_id :: string
  cl_username :: jsval
  cl_app :: app_state
  cl_room :: string
  cl_rooms :: json
  cl_users :: "room_user list"
  cl_mode :: room_mode
  cl_passwordError :: "string option"
  cl_pendingJoin :: "(string \<times> string option) option"

text \<open>A flag that is absent, or \<open>null\<close>, counts as on.\<close>

definition flag_or_on :: "jsval \<Rightarrow> bool" where
  "flag_or_on v = (case v of None \<Rightarrow> True | Some JNull \<Rightarrow> True | Some (JBool b) \<Rightarrow> b | Some _ \<Rightarrow> True)"

definition user_of_json :: "json \<Rightarrow> room_user" where
  "user_of_json j = \<lparr>ru_id = str_of (jget (Some j) ''id''), ru_username = jget (Some j) ''username'', ru_stream = None,
     ru_video = flag_or_on (jget (Some j) ''isVideoEnabled''), ru_audio = flag_or_on (jget (Some j) ''isAudioEnabled'')\<rparr>"

definition self_user :: "room_client \<Rightarrow> room_user" where
  "self_user c = \<lparr>ru_id = cl_id c, ru_username = cl_username c, ru_stream = None, ru_video = True, ru_audio = True\<rparr>"

definition set_flag :: "string \<Rightarrow> string \<Rightarrow> bool \<Rightarrow> room_user \<Rightarrow> room_user" where
  "set_flag i kind enabled u =
    (if ru_id u \<noteq> i then u
     else if kind = ''video'' then u\<lparr>ru_video := enabled\<rparr>
     else if kind = ''audio'' then u\<lparr>ru_audio := enabled\<rparr>
     else u)"

section \<open>Messages of the server\<close>

definition on_active_rooms :: "json \<Rightarrow> room_client \<Rightarrow> room_client" where
  "on_active_rooms rooms c = c\<lparr>cl_rooms := rooms\<rparr>"

definition on_join_error :: "json \<Rightarrow> room_client \<Rightarrow> room_client" where
  "on_join_error d c = c\<lparr>cl_passwordError := opt_str (jget (Some d) ''message''), cl_pendingJoin := None\<rparr>"

definition on_add_user :: "json \<Rightarrow> room_client \<Rightarrow> room_client" where
  "on_add_user j c = c\<lparr>cl_users := cl_users c @ [user_of_json j]\<rparr>"

definition on_room_users :: "json \<Rightarrow> room_client \<Rightarrow> room_client" where
  "on_room_users j c =
    (case j of JArr us \<Rightarrow> c\<lparr>cl_users := map user_of_json us @ [self_user c], cl_app := AppRoom\<rparr> | _ \<Rightarrow> c)"

definition mode_of_text :: "string \<Rightarrow> room_mode" where
  "mode_of_text t = (if t = ''sfu'' then Sfu else Mesh)"

definition on_room_mode :: "json \<Rightarrow> room_client \<Rightarrow> room_client" where
  "on_room_mode d c =
    (if jget (Some d) ''roomName'' \<noteq> Some (JStr (cl_room c)) then c
     else c\<lparr>cl_mode := mode_of_text (str_of (jget (Some d) ''mode''))\<rparr>)"

definition on_media_change :: "json \<Rightarrow> room_client \<Rightarrow> room_client" where
  "on_media_change d c =
    c\<lparr>cl_users := map (set_flag (str_of (jget (Some d) ''userId'')) (str_of (jget (Some d) ''kind'')) (bool_of (jget (Some d) ''enabled''))) (cl_users c)\<rparr>"

definition on_remove_user :: "string \<Rightarrow> room_client \<Rightarrow> room_client" where
  "on_remove_user i c = c\<lparr>cl_users := filter (\<lambda>u. ru_id u \<noteq> i) (cl_users c)\<rparr>"

definition client_recv :: "string \<Rightarrow> payload \<Rightarrow> room_client \<Rightarrow> room_client" where
  "client_recv ev p c =
    (case p of
       Text j \<Rightarrow>
         if ev = ''fetch active rooms'' then on_active_rooms j c
         else if ev = ''add new room user'' then on_add_user j c
         else if ev = ''fetch room users'' then on_room_users j c
         else c
     | Plain j \<Rightarrow>
         if ev = ''join room error'' then on_join_error j c
         else if ev = ''room-mode'' then on_room_mode j c
         else if ev = ''media state change'' then on_media_change j c
         else if ev = ''remove room user'' then on_remove_user (str_of (Some j)) c
         else c)"

section \<open>Actions of the user\<close>

text \<open>Each gives the new state and the event the server gets, if any.\<close>

definition handleUsernameSubmit :: "string \<Rightarrow> room_client \<Rightarrow> room_client" where
  "handleUsernameSubmit name c = c\<lparr>cl_username := Some (JStr name), cl_app := AppLobby\<rparr>"

definition room_request :: "string \<Rightarrow> string option \<Rightarrow> jsval" where
  "room_request roomName password = Some (JObj ((''roomName'', JStr roomName) # (case password of None \<Rightarrow> [] | Some p \<Rightarrow> [(''password'', JStr p)])))"

definition handleJoinRoom :: "string \<Rightarrow> string option \<Rightarrow> room_client \<Rightarrow> room_client \<times> event" where
  "handleJoinRoom roomName password c = (c\<lparr>cl_room := roomName, cl_passwordError := None\<rparr>, Join (cl_id c) (room_request roomName password))"

definition handleCreateRoom :: "string \<Rightarrow> string option \<Rightarrow> room_client \<Rightarrow> room_client \<times> event" where
  "handleCreateRoom roomName password c = (c\<lparr>cl_room := roomName, cl_passwordError := None\<rparr>, Create (cl_id c) (room_request roomName password))"

definition handleLeaveRoom :: "room_client \<Rightarrow> room_client \<times> event option" where
  "handleLeaveRoom c =
    (c\<lparr>cl_users := [], cl_room := [], cl_app := AppLobby\<rparr>, if cl_room c \<noteq> [] then Some (Leave (cl_id c) (Some (JStr (cl_room c)))) else None)"

definition handleToggle :: "string \<Rightarrow> bool \<Rightarrow> room_client \<Rightarrow> room_client \<times> event option" where
  "handleToggle kind enabled c =
    (c\<lparr>cl_users := map (set_flag (cl_id c) kind enabled) (cl_users c)\<rparr>,
     if cl_room c = [] then None
     else Some (Media (cl_id c) (Some (JObj [(''roomName'', JStr (cl_room c)), (''kind'', JStr kind), (''enabled'', JBool enabled)]))))"

text \<open>
  After a reconnection the socket has a new identifier; the client asks for its room again, by the bare name.
\<close>

definition rejoin_event :: "room_client \<Rightarrow> event option" where
  "rejoin_event c = (if cl_room c \<noteq> [] then Some (Join (cl_id c) (Some (JStr (cl_room c)))) else None)"

definition on_reconnect :: "string \<Rightarrow> room_client \<Rightarrow> room_client \<times> event option" where
  "on_reconnect new_id c = (c\<lparr>cl_id := new_id\<rparr>, rejoin_event (c\<lparr>cl_id := new_id\<rparr>))"

definition new_client :: "string \<Rightarrow> jsval \<Rightarrow> room_client" where
  "new_client i name = \<lparr>cl_id = i, cl_username = name, cl_app = AppLobby, cl_room = [], cl_rooms = JArr [], cl_users = [], cl_mode = Mesh,
     cl_passwordError = None, cl_pendingJoin = None\<rparr>"

section \<open>Clients and server together\<close>

text \<open>Who hears an emission, by the rooms the server has when it is made.\<close>

definition reaches :: "'a config \<Rightarrow> 'a server \<Rightarrow> audience \<Rightarrow> string \<Rightarrow> bool" where
  "reaches cf st aud y \<longleftrightarrow> jm_has (sv_sockets st) y \<and>
    (case aud of
       ToSocket x \<Rightarrow> y = x
     | ToRoom r \<Rightarrow> y \<in> set (members (cf_io cf) (sv_io st) r)
     | ToRoomExcept r x \<Rightarrow> y \<in> set (members (cf_io cf) (sv_io st) r) \<and> y \<noteq> x
     | ToAllExceptRoom r \<Rightarrow> y \<notin> set (members (cf_io cf) (sv_io st) r)
     | ToAll \<Rightarrow> True)"

definition hear :: "'a config \<Rightarrow> 'a server \<Rightarrow> string \<Rightarrow> emission \<Rightarrow> room_client \<Rightarrow> room_client" where
  "hear cf st y e c = (case e of Emit aud ev p \<Rightarrow> if reaches cf st aud y then client_recv ev p c else c)"

record 'a room_system =
  sy_server :: "'a server"
  sy_client :: "string \<Rightarrow> room_client"

definition hear_all :: "'a config \<Rightarrow> 'a server \<Rightarrow> emission list \<Rightarrow> (string \<Rightarrow> room_client) \<Rightarrow> string \<Rightarrow> room_client" where
  "hear_all cf st out cl y = fold (hear cf st y) out (cl y)"

definition deliver :: "'a config \<Rightarrow> 'a server \<times> emission list \<Rightarrow> (string \<Rightarrow> room_client) \<Rightarrow> 'a room_system" where
  "deliver cf r cl = (case r of (st, out) \<Rightarrow> \<lparr>sy_server = st, sy_client = hear_all cf st out cl\<rparr>)"

lemma deliver_eq: "deliver cf r cl = (case r of (st, out) \<Rightarrow> \<lparr>sy_server = st, sy_client = (\<lambda>y. fold (hear cf st y) out (cl y))\<rparr>)"
  by (simp add: deliver_def hear_all_def [abs_def])

definition sys_act :: "'a config \<Rightarrow> event \<Rightarrow> 'a room_system \<Rightarrow> 'a room_system" where
  "sys_act cf e sy = deliver cf (act cf e (sy_server sy)) (sy_client sy)"

definition sys_settle :: "'a config \<Rightarrow> 'a room_system \<Rightarrow> 'a room_system" where
  "sys_settle cf sy = (sys_act cf (Run 0) ^^ length (sv_tasks (sy_server sy))) sy"

definition sys_handle :: "'a config \<Rightarrow> event \<Rightarrow> 'a room_system \<Rightarrow> 'a room_system" where
  "sys_handle cf e sy = sys_settle cf (sys_act cf e sy)"

datatype user_act =
    UConnect string jsval
  | UJoin string string "string option"
  | UCreate string string "string option"
  | ULeave string
  | UToggle string string bool
  | UDisconnect string

definition set_client :: "string \<Rightarrow> room_client \<Rightarrow> 'a room_system \<Rightarrow> 'a room_system" where
  "set_client x c sy = sy\<lparr>sy_client := (sy_client sy)(x := c)\<rparr>"

definition handle_opt :: "'a config \<Rightarrow> event option \<Rightarrow> 'a room_system \<Rightarrow> 'a room_system" where
  "handle_opt cf e sy = (case e of None \<Rightarrow> sy | Some e \<Rightarrow> sys_handle cf e sy)"

text \<open>
  One action of a user with everything it leads to. The lobby is where rooms are joined and created, the room where they are left.
\<close>

fun sys_step :: "'a config \<Rightarrow> user_act \<Rightarrow> 'a room_system \<Rightarrow> 'a room_system" where
  "sys_step cf (UConnect x name) sy =
    (if jm_has (sv_sockets (sy_server sy)) x then sy else sys_handle cf (Connect x name) (set_client x (new_client x name) sy))"
| "sys_step cf (UJoin x r p) sy =
    (if jm_has (sv_sockets (sy_server sy)) x \<and> cl_app (sy_client sy x) = AppLobby
     then case handleJoinRoom r p (sy_client sy x) of (c, e) \<Rightarrow> sys_handle cf e (set_client x c sy) else sy)"
| "sys_step cf (UCreate x r p) sy =
    (if jm_has (sv_sockets (sy_server sy)) x \<and> cl_app (sy_client sy x) = AppLobby
     then case handleCreateRoom r p (sy_client sy x) of (c, e) \<Rightarrow> sys_handle cf e (set_client x c sy) else sy)"
| "sys_step cf (ULeave x) sy =
    (if jm_has (sv_sockets (sy_server sy)) x \<and> cl_app (sy_client sy x) = AppRoom
     then case handleLeaveRoom (sy_client sy x) of (c, e) \<Rightarrow> handle_opt cf e (set_client x c sy) else sy)"
| "sys_step cf (UToggle x kind b) sy =
    (if jm_has (sv_sockets (sy_server sy)) x \<and> cl_app (sy_client sy x) = AppRoom
     then case handleToggle kind b (sy_client sy x) of (c, e) \<Rightarrow> handle_opt cf e (set_client x c sy) else sy)"
| "sys_step cf (UDisconnect x) sy = sys_handle cf (Disconnect x) sy"

definition sys_run :: "'a config \<Rightarrow> user_act list \<Rightarrow> 'a room_system \<Rightarrow> 'a room_system" where
  "sys_run cf as sy = fold (sys_step cf) as sy"

definition new_system :: "'a \<Rightarrow> 'a room_system" where
  "new_system a = \<lparr>sy_server = new_server a, sy_client = (\<lambda>x. new_client x None)\<rparr>"

end
