(* ===== verification/RoomSystem.thy ===== *)
theory RoomSystem imports RoomClient begin

text \<open>
  Clients and signaling server together: whatever the users do, each member of a room shows exactly the members of the room, with the
  names and flags the server has, and every member has the mode the server has for the room.
\<close>

section \<open>What a client hears\<close>

definition flags_of :: "'a server \<Rightarrow> room_user \<Rightarrow> bool" where
  "flags_of st u \<longleftrightarrow> (case jm_get (sv_sockets st) (ru_id u) of None \<Rightarrow> False
     | Some s \<Rightarrow> ru_username u = so_username s \<and> ru_video u = video_on s \<and> ru_audio u = audio_on s)"

lemma flags_of_socket:
  "flags_of st u \<Longrightarrow> \<exists>s. jm_get (sv_sockets st) (ru_id u) = Some s \<and> ru_username u = so_username s \<and> ru_video u = video_on s \<and> ru_audio u = audio_on s"
  by (auto simp: flags_of_def split: option.splits)

definition roster_ok :: "'a server \<Rightarrow> string set \<Rightarrow> string \<Rightarrow> room_client \<Rightarrow> bool" where
  "roster_ok st ms x c \<longleftrightarrow> distinct (map ru_id (cl_users c)) \<and> set (map ru_id (cl_users c)) = ms \<and>
    (\<forall>u \<in> set (cl_users c). ru_id u \<noteq> x \<longrightarrow> flags_of st u)"

definition member_ok :: "'a config \<Rightarrow> 'a server \<Rightarrow> string set \<Rightarrow> string \<Rightarrow> string \<Rightarrow> room_client \<Rightarrow> bool" where
  "member_ok cf st X r x c \<longleftrightarrow> jm_has (sv_sockets st) x \<and> cl_room c = r \<and> cl_app c = AppRoom \<and> name_ok r \<and>
    roster_ok st (set (members (cf_io cf) (sv_io st) r) - X) x c \<and> jm_get (sv_modes st) r = Some (cl_mode c)"

text \<open>\<open>X\<close> are the sockets on their way into a room: members for the server, but not announced yet.\<close>

definition system_ok :: "('a \<Rightarrow> bool) \<Rightarrow> 'a config \<Rightarrow> string set \<Rightarrow> string set \<Rightarrow> 'a room_system \<Rightarrow> bool" where
  "system_ok good cf ids X sy \<longleftrightarrow> good (sv_io (sy_server sy)) \<and>
    (\<forall>x s. jm_get (sv_sockets (sy_server sy)) x = Some s \<longrightarrow> x \<in> ids \<and> cl_id (sy_client sy x) = x \<and> cl_room (sy_client sy x) \<notin> ids \<and>
       cl_username (sy_client sy x) = so_username s) \<and>
    (\<forall>r x. r \<notin> ids \<longrightarrow> x \<in> set (members (cf_io cf) (sv_io (sy_server sy)) r) \<longrightarrow> x \<notin> X \<longrightarrow> member_ok cf (sy_server sy) X r x (sy_client sy x))"

lemma user_of_user_json:
  "user_of_json (user_json y s) = \<lparr>ru_id = y, ru_username = so_username s, ru_stream = None, ru_video = video_on s, ru_audio = audio_on s\<rparr>"
  by (simp add: user_of_json_def user_json_def flag_or_on_def field_def split: option.split)

lemma mode_text_back: "mode_of_text (mode_text m) = m"
  by (cases m) (simp_all add: mode_of_text_def mode_text_def)

lemma recv_mode: "client_recv ''room-mode'' (mode_message r m n) c = (if cl_room c = r then c\<lparr>cl_mode := m\<rparr> else c)"
  by (simp add: client_recv_def mode_message_def on_room_mode_def mode_text_back)

lemma recv_add: "client_recv ''add new room user'' (Text (user_json y s)) c = c\<lparr>cl_users := cl_users c @
    [\<lparr>ru_id = y, ru_username = so_username s, ru_stream = None, ru_video = video_on s, ru_audio = audio_on s\<rparr>]\<rparr>"
  by (simp add: client_recv_def on_add_user_def user_of_user_json)

lemma recv_rooms: "client_recv ''fetch active rooms'' (Text j) c = c\<lparr>cl_rooms := j\<rparr>"
  by (simp add: client_recv_def on_active_rooms_def)

lemma recv_users: "client_recv ''fetch room users'' (Text (JArr us)) c = c\<lparr>cl_users := map user_of_json us @ [self_user c], cl_app := AppRoom\<rparr>"
  by (simp add: client_recv_def on_room_users_def)

lemma recv_remove: "client_recv ''remove room user'' (Plain (JStr i)) c = c\<lparr>cl_users := filter (\<lambda>u. ru_id u \<noteq> i) (cl_users c)\<rparr>"
  by (simp add: client_recv_def on_remove_user_def)

text \<open>What the invariant says of a client depends on these fields only.\<close>

definition same_room :: "room_client \<Rightarrow> room_client \<Rightarrow> bool" where
  "same_room c d \<longleftrightarrow> cl_id c = cl_id d \<and> cl_username c = cl_username d \<and> cl_app c = cl_app d \<and> cl_room c = cl_room d \<and> cl_users c = cl_users d \<and>
    cl_mode c = cl_mode d"

lemma member_ok_same: "same_room c d \<Longrightarrow> member_ok cf st X r x c = member_ok cf st X r x d"
  by (simp add: same_room_def member_ok_def roster_ok_def)

lemma same_room_refl [simp]: "same_room c c"
  by (simp add: same_room_def)

lemma hear_rooms: "same_room (hear cf st y (active_rooms cf aud st') c) c"
  by (simp add: hear_def active_rooms_def recv_rooms same_room_def)

lemma hear_error: "same_room (hear cf st y (Emit aud ''join room error'' (Plain d)) c) c"
  by (simp add: hear_def client_recv_def on_join_error_def same_room_def)

text \<open>Steps that change neither membership, sockets nor modes, and leave the clients as they were.\<close>

lemma system_ok_same:
  assumes "system_ok good cf ids X sy" "sv_io (sy_server sy') = sv_io (sy_server sy)" "sv_sockets (sy_server sy') = sv_sockets (sy_server sy)"
    "sv_modes (sy_server sy') = sv_modes (sy_server sy)" "\<And>y. same_room (sy_client sy' y) (sy_client sy y)"
  shows "system_ok good cf ids X sy'"
proof -
  have "member_ok cf (sy_server sy') X r x (sy_client sy' x) = member_ok cf (sy_server sy) X r x (sy_client sy x)" for r x
    using member_ok_same [OF assms(5)] assms(2-4) by (simp add: member_ok_def roster_ok_def flags_of_def)
  with assms show ?thesis by (simp add: system_ok_def same_room_def)
qed

text \<open>The identifiers the users connect with, and the names of the rooms they ask for.\<close>

definition names_apart :: "string set \<Rightarrow> user_act \<Rightarrow> bool" where
  "names_apart ids a \<longleftrightarrow> (case a of UConnect x name \<Rightarrow> x \<in> ids | UJoin x r p \<Rightarrow> r \<notin> ids | UCreate x r p \<Rightarrow> r \<notin> ids | _ \<Rightarrow> True)"

section \<open>The steps\<close>

text \<open>
  The identifiers of sockets are told apart from the names of rooms, and a name of a valid length passes the check of
  \<open>leave room\<close>.
\<close>

locale room_clients = signaling cf good for cf :: "'a config" and good :: "'a \<Rightarrow> bool" +
  fixes ids :: "string set"
  assumes parser: "schema_parser (cf_parse cf)"
    and accepts_leave: "1 \<le> length r \<Longrightarrow> length r \<le> 128 \<Longrightarrow> cf_parse cf LeaveRoomPayload (Some (JStr r)) = Some (Some (JStr r))"
    and parse_enum: "cf_parse cf (ZEnum vs) v = Some w \<Longrightarrow> \<exists>k \<in> set vs. w = Some (JStr k)"
    and no_empty_id: "[] \<notin> ids"
begin

abbreviation ok_sys :: "string set \<Rightarrow> 'a room_system \<Rightarrow> bool" where
  "ok_sys \<equiv> system_ok good cf ids"

lemma ok_member:
  "ok_sys X sy \<Longrightarrow> r \<notin> ids \<Longrightarrow> x \<in> set (members (cf_io cf) (sv_io (sy_server sy)) r) \<Longrightarrow> x \<notin> X \<Longrightarrow> member_ok cf (sy_server sy) X r x (sy_client sy x)"
  by (simp add: system_ok_def)

lemma ok_socket:
  "ok_sys X sy \<Longrightarrow> jm_get (sv_sockets (sy_server sy)) x = Some s \<Longrightarrow>
    x \<in> ids \<and> cl_id (sy_client sy x) = x \<and> cl_room (sy_client sy x) \<notin> ids \<and> cl_username (sy_client sy x) = so_username s"
  by (simp add: system_ok_def)

lemma one_room:
  assumes "ok_sys {} sy" "r \<notin> ids" "r' \<notin> ids" "x \<in> set (members (cf_io cf) (sv_io (sy_server sy)) r)"
    "x \<in> set (members (cf_io cf) (sv_io (sy_server sy)) r')"
  shows "r = r'"
  using ok_member [OF assms(1,2,4)] ok_member [OF assms(1,3,5)] by (simp add: member_ok_def)

text \<open>Reconciling a room: its members hear of a change of the mode.\<close>

lemma reconcile_out:
  assumes "jm_get (sv_modes st) r = Some m" "0 < roomSize cf r st"
  shows "snd (snd (reconcileMode cf r st)) = (if m = new_mode cf r st then [] else [Emit (ToRoom r) ''room-mode'' (mode_message r (new_mode cf r st) (roomSize cf r st))])"
  using assms by (auto simp: reconcileMode_def new_mode_def Let_def)

lemma reconcile_out_form:
  "snd (snd (reconcileMode cf r st)) = [] \<or>
    snd (snd (reconcileMode cf r st)) = [Emit (ToRoom r) ''room-mode'' (mode_message r (new_mode cf r st) (roomSize cf r st))]"
  by (auto simp: reconcileMode_def new_mode_def Let_def)

definition heard_reconcile :: "'a server \<Rightarrow> string \<Rightarrow> 'a server \<Rightarrow> string \<Rightarrow> room_client \<Rightarrow> room_client" where
  "heard_reconcile st' r st y c = fold (hear cf st' y) (snd (snd (reconcileMode cf r st))) c"

lemma heard_reconcile_rest:
  "cl_id (heard_reconcile st' r st y c) = cl_id c" "cl_username (heard_reconcile st' r st y c) = cl_username c"
  "cl_app (heard_reconcile st' r st y c) = cl_app c" "cl_room (heard_reconcile st' r st y c) = cl_room c"
  "cl_users (heard_reconcile st' r st y c) = cl_users c"
  using reconcile_out_form [of r st] by (auto simp: heard_reconcile_def hear_def recv_mode)

lemma heard_reconcile_other: "cl_room c \<noteq> r \<Longrightarrow> heard_reconcile st' r st y c = c"
  using reconcile_out_form [of r st] by (auto simp: heard_reconcile_def hear_def recv_mode)

lemma heard_reconcile_mode:
  assumes "jm_get (sv_modes st) r = Some (cl_mode c)" "0 < roomSize cf r st" "cl_room c = r" "reaches cf st' (ToRoom r) y"
  shows "cl_mode (heard_reconcile st' r st y c) = new_mode cf r st"
  using assms by (simp add: heard_reconcile_def reconcile_out [OF assms(1,2)] hear_def recv_mode)

lemma member_size: "x \<in> set (members (cf_io cf) (sv_io st) r) \<Longrightarrow> 0 < roomSize cf r st"
  by (auto simp: roomSize_def intro: length_pos_if_in_set)

lemma member_ok_reconciled:
  assumes ok: "member_ok cf st X r x c" and mem: "x \<in> set (members (cf_io cf) (sv_io st) r)"
    and st': "sv_io st' = sv_io st" "sv_sockets st' = sv_sockets st" "sv_modes st' = sv_modes (fst (snd (reconcileMode cf r' st)))"
  shows "member_ok cf st' X r x (heard_reconcile st' r' st x c)"
proof (cases "r' = r")
  case True
  have size: "0 < roomSize cf r st" using mem by (rule member_size)
  have room: "cl_room c = r" and mode: "jm_get (sv_modes st) r = Some (cl_mode c)" using ok by (simp_all add: member_ok_def)
  have "reaches cf st' (ToRoom r) x" using ok mem st' by (simp add: reaches_def member_ok_def)
  from heard_reconcile_mode [OF mode size room this] have "cl_mode (heard_reconcile st' r st x c) = new_mode cf r st" .
  with ok size True show ?thesis
    by (simp add: member_ok_def roster_ok_def flags_of_def heard_reconcile_rest st' reconcile_get)
next
  case False
  have "cl_room c = r" using ok by (simp add: member_ok_def)
  then have "heard_reconcile st' r' st x c = c" using False heard_reconcile_other by metis
  with ok False show ?thesis by (simp add: member_ok_def roster_ok_def flags_of_def st' reconcile_get)
qed

lemma ok_reconciled:
  assumes ok: "ok_sys X sy" and st: "sy_server sy = st"
    and st': "sv_io st' = sv_io st" "sv_sockets st' = sv_sockets st" "sv_modes st' = sv_modes (fst (snd (reconcileMode cf r st)))"
    and cl: "\<And>y. same_room (cl y) (heard_reconcile st' r st y (sy_client sy y))"
  shows "ok_sys X \<lparr>sy_server = st', sy_client = cl\<rparr>"
proof -
  have "member_ok cf st' X r' x (cl x)" if "r' \<notin> ids" "x \<in> set (members (cf_io cf) (sv_io st) r')" "x \<notin> X" for r' x
    using member_ok_reconciled [OF ok_member [OF ok that(1) _ that(3)], of st' r] that(2) st st' by (simp add: member_ok_same [OF cl])
  then show ?thesis using ok cl st st' by (auto simp: system_ok_def same_room_def heard_reconcile_rest)
qed

lemma fold_hear_append: "fold (hear cf st y) (a @ b) c = fold (hear cf st y) b (fold (hear cf st y) a c)"
  by simp

lemma same_room_hear_rooms: "same_room (fold (hear cf st y) [active_rooms cf aud st'] c) c"
  by (simp add: hear_rooms)

text \<open>The tasks that reconcile a room, and the announcement of the rooms.\<close>

lemma ok_reconcile_task:
  assumes ok: "ok_sys X \<lparr>sy_server = st, sy_client = cl\<rparr>" and t: "t = ReconcileRoom r \<or> t = LeftRoom r"
  shows "ok_sys X (deliver cf (run_task cf t st) cl)"
proof -
  obtain m st1 out where rec: "reconcileMode cf r st = (m, st1, out)" by (metis prod.collapse)
  let ?st' = "gcRoomPassword cf r st1"
  have fields: "sv_io ?st' = sv_io st" "sv_sockets ?st' = sv_sockets st" "sv_modes ?st' = sv_modes (fst (snd (reconcileMode cf r st)))"
    using reconcile_fields [of cf r st] by (simp_all add: rec)
  have srv: "sy_server \<lparr>sy_server = st, sy_client = cl\<rparr> = st" by simp
  have same: "same_room (hear cf ?st' y (active_rooms cf ToAll ?st') (heard_reconcile ?st' r st y (cl y))) (heard_reconcile ?st' r st y (cl y))" for y
    by (rule hear_rooms)
  from t show ?thesis
  proof
    assume "t = ReconcileRoom r"
    then have "deliver cf (run_task cf t st) cl = \<lparr>sy_server = ?st', sy_client = (\<lambda>y. heard_reconcile ?st' r st y (cl y))\<rparr>"
      by (simp add: deliver_eq reconcile_and_gc_def rec heard_reconcile_def)
    then show ?thesis using ok_reconciled [OF ok srv fields] by simp
  next
    assume "t = LeftRoom r"
    then have "deliver cf (run_task cf t st) cl =
        \<lparr>sy_server = ?st', sy_client = (\<lambda>y. hear cf ?st' y (active_rooms cf ToAll ?st') (heard_reconcile ?st' r st y (cl y)))\<rparr>"
      by (simp add: deliver_eq reconcile_and_gc_def rec heard_reconcile_def)
    then show ?thesis using ok_reconciled [OF ok srv fields, of "\<lambda>y. hear cf ?st' y (active_rooms cf ToAll ?st') (heard_reconcile ?st' r st y (cl y))"] same
      by simp
  qed
qed

lemma ok_announce_task:
  assumes ok: "ok_sys X \<lparr>sy_server = st, sy_client = cl\<rparr>"
  shows "ok_sys X (deliver cf (run_task cf Announce st) cl)"
  by (rule system_ok_same [OF ok]) (simp_all add: deliver_eq hear_rooms)

text \<open>The tasks of a step run one after the other.\<close>

lemma sys_act_run:
  assumes "sv_tasks (sy_server sy) = t # ts"
  shows "sys_act cf (Run 0) sy = deliver cf (run_task cf t ((sy_server sy)\<lparr>sv_tasks := ts\<rparr>)) (sy_client sy)"
  using assms by (simp add: sys_act_def)

lemma deliver_server: "sy_server (deliver cf r cl) = fst r"
  by (simp add: deliver_eq split: prod.split)

lemma ok_tasks: "ok_sys X sy \<Longrightarrow> ok_sys X \<lparr>sy_server = (sy_server sy)\<lparr>sv_tasks := ts\<rparr>, sy_client = sy_client sy\<rparr>"
  by (rule system_ok_same [of good cf ids X sy]) simp_all

lemma settle_induct:
  "sv_tasks (sy_server sy) = ts \<Longrightarrow> ok_sys {} sy \<Longrightarrow> \<forall>t \<in> set ts. t = Announce \<or> (\<exists>r. t = ReconcileRoom r \<or> t = LeftRoom r)
    \<Longrightarrow> ok_sys {} (sys_settle cf sy) \<and> sv_tasks (sy_server (sys_settle cf sy)) = []"
proof (induction ts arbitrary: sy)
  case Nil
  then show ?case by (simp add: sys_settle_def)
next
  case (Cons t ts)
  let ?sy = "sys_act cf (Run 0) sy"
  have run: "?sy = deliver cf (run_task cf t ((sy_server sy)\<lparr>sv_tasks := ts\<rparr>)) (sy_client sy)" using sys_act_run [OF Cons.prems(1)] .
  have "ok_sys {} ?sy" unfolding run
    using Cons.prems(3) ok_reconcile_task [OF ok_tasks [OF Cons.prems(2)]] ok_announce_task [OF ok_tasks [OF Cons.prems(2)]] by auto
  moreover have ts: "sv_tasks (sy_server ?sy) = ts" unfolding run deliver_server by (simp only: run_task_tasks) simp
  ultimately have "ok_sys {} (sys_settle cf ?sy) \<and> sv_tasks (sy_server (sys_settle cf ?sy)) = []" using Cons.IH Cons.prems(3) by simp
  moreover have "sys_settle cf sy = sys_settle cf ?sy"
    by (simp add: sys_settle_def Cons.prems(1) ts funpow_swap1)
  ultimately show ?case by simp
qed

text \<open>A socket that has joined is announced: it gets the mode and the roster, the others its description.\<close>

definition joined_self :: "'a server \<Rightarrow> string \<Rightarrow> string \<Rightarrow> room_mode \<Rightarrow> room_client \<Rightarrow> room_client" where
  "joined_self st x r m c = c\<lparr>cl_mode := m, cl_users := map user_of_json (peer_list cf x r st) @ [self_user c], cl_app := AppRoom\<rparr>"

lemma peer_list_users:
  assumes "\<forall>y \<in> set (members (cf_io cf) (sv_io st) r). jm_has (sv_sockets st) y"
  shows "map ru_id (map user_of_json (peer_list cf x r st)) = filter (\<lambda>y. y \<noteq> x) (members (cf_io cf) (sv_io st) r)"
    and "\<forall>u \<in> set (map user_of_json (peer_list cf x r st)). flags_of st u"
proof -
  define us where "us ms = map user_of_json (concat (map (\<lambda>y. if y = x then [] else (case jm_get (sv_sockets st) y of None \<Rightarrow> [] | Some s \<Rightarrow> [user_json y s])) ms))" for ms
  have "\<forall>y \<in> set ms. jm_has (sv_sockets st) y \<Longrightarrow> map ru_id (us ms) = filter (\<lambda>y. y \<noteq> x) ms \<and> (\<forall>u \<in> set (us ms). flags_of st u)" for ms
    by (induction ms) (auto simp: us_def user_of_user_json flags_of_def)
  from this [OF assms] show "map ru_id (map user_of_json (peer_list cf x r st)) = filter (\<lambda>y. y \<noteq> x) (members (cf_io cf) (sv_io st) r)"
    "\<forall>u \<in> set (map user_of_json (peer_list cf x r st)). flags_of st u"
    by (simp_all add: us_def peer_list_def)
qed

text \<open>What each client holds once the four messages of the announcement have gone out.\<close>

definition announced_client :: "'a server \<Rightarrow> 'a server \<Rightarrow> string \<Rightarrow> sock \<Rightarrow> string \<Rightarrow> string \<Rightarrow> room_client \<Rightarrow> room_client" where
  "announced_client st1 st x s r y c =
    (if y = x then joined_self st1 x r (new_mode cf r st) c
     else if y \<in> set (members (cf_io cf) (sv_io st) r) then
       (heard_reconcile st1 r st y c)\<lparr>cl_users := cl_users c @
          [\<lparr>ru_id = x, ru_username = so_username s, ru_stream = None, ru_video = video_on s, ru_audio = audio_on s\<rparr>]\<rparr>
     else heard_reconcile st1 r st y c)"

lemma announce_join_clients:
  assumes x: "x \<in> set (members (cf_io cf) (sv_io st) r)" "jm_get (sv_sockets st) x = Some s0" "cl_room (cl x) = r"
    and conn: "\<forall>y \<in> set (members (cf_io cf) (sv_io st) r). jm_has (sv_sockets st) y"
  defines "st1 \<equiv> fst (snd (reconcileMode cf r st))"
  shows "sy_server (deliver cf (announce_join cf aud x s r st) cl) = st1"
    and "same_room (sy_client (deliver cf (announce_join cf aud x s r st) cl) y) (announced_client st1 st x s0 r y (cl y))"
proof -
  obtain m st' out where rec: "reconcileMode cf r st = (m, st', out)" by (metis prod.collapse)
  have st': "st' = st1" "sv_io st1 = sv_io st" "sv_sockets st1 = sv_sockets st" using reconcile_fields [of cf r st] by (simp_all add: st1_def rec)
  have out: "out = snd (snd (reconcileMode cf r st))" by (simp add: rec)
  have m: "m = new_mode cf r st" using reconcile_mode [of cf r st] member_size [OF x(1)] by (simp add: rec)
  have s1: "sock_now x s st1 = s0" using x(2) st' by (simp add: sock_now_def)
  define n where "n = roomSize cf r st1"
  have ann: "announce_join cf aud x s r st = (st1, out @ [Emit (ToSocket x) ''room-mode'' (mode_message r m n), active_rooms cf aud st1,
      Emit (ToRoomExcept r x) ''add new room user'' (Text (user_json x s0)),
      Emit (ToSocket x) ''fetch room users'' (Text (JArr (peer_list cf x r st1)))])"
    by (simp add: announce_join_def rec st' emitRoomRoster_def s1 n_def)
  then show "sy_server (deliver cf (announce_join cf aud x s r st) cl) = st1" by (simp add: deliver_eq)
  define c1 where "c1 = heard_reconcile st1 r st y (cl y)"
  define c2 where "c2 = hear cf st1 y (Emit (ToSocket x) ''room-mode'' (mode_message r m n)) c1"
  define c3 where "c3 = hear cf st1 y (active_rooms cf aud st1) c2"
  have final: "sy_client (deliver cf (announce_join cf aud x s r st) cl) y
    = hear cf st1 y (Emit (ToSocket x) ''fetch room users'' (Text (JArr (peer_list cf x r st1))))
       (hear cf st1 y (Emit (ToRoomExcept r x) ''add new room user'' (Text (user_json x s0))) c3)"
    by (simp add: ann deliver_eq c1_def c2_def c3_def heard_reconcile_def out)
  have c3: "same_room c3 c2" unfolding c3_def by (rule hear_rooms)
  have here: "reaches cf st1 (ToRoomExcept r x) y \<longleftrightarrow> y \<in> set (members (cf_io cf) (sv_io st) r) \<and> y \<noteq> x"
    "reaches cf st1 (ToSocket x) y \<longleftrightarrow> y = x" using conn x(2) st' by (auto simp: reaches_def)
  note rest = heard_reconcile_rest [of st1 r st y "cl y", folded c1_def]
  have c2: "c2 = (if y = x then c1\<lparr>cl_mode := m\<rparr> else c1)"
    using x(3) rest(4) by (auto simp: c2_def hear_def here recv_mode)
  show "same_room (sy_client (deliver cf (announce_join cf aud x s r st) cl) y) (announced_client st1 st x s0 r y (cl y))"
    unfolding final using c3 rest
    by (auto simp: hear_def here recv_add recv_users announced_client_def joined_self_def self_user_def same_room_def c2 c1_def m)
qed

lemma member_ok_announced_self:
  assumes good: "good (sv_io st)" and x: "x \<in> set (members (cf_io cf) (sv_io st) r)" "jm_get (sv_sockets st) x = Some s0" "cl_room c = r" "name_ok r" "cl_id c = x"
    and conn: "\<forall>y \<in> set (members (cf_io cf) (sv_io st) r). jm_has (sv_sockets st) y"
  defines "st1 \<equiv> fst (snd (reconcileMode cf r st))"
  shows "member_ok cf st1 {} r x (joined_self st1 x r (new_mode cf r st) c)"
proof -
  have st1: "sv_io st1 = sv_io st" "sv_sockets st1 = sv_sockets st" using reconcile_fields [of cf r st] by (simp_all add: st1_def)
  have conn1: "\<forall>y \<in> set (members (cf_io cf) (sv_io st1) r). jm_has (sv_sockets st1) y" using conn st1 by simp
  have mode: "jm_get (sv_modes st1) r = Some (new_mode cf r st)" using member_size [OF x(1)] by (simp add: st1_def reconcile_get)
  note users = peer_list_users [OF conn1, of x]
  have ids: "map ru_id (cl_users (joined_self st1 x r (new_mode cf r st) c)) = filter (\<lambda>y. y \<noteq> x) (members (cf_io cf) (sv_io st) r) @ [x]"
    using users(1) x(5) st1 by (simp add: joined_self_def self_user_def)
  have "roster_ok st1 (set (members (cf_io cf) (sv_io st1) r) - {}) x (joined_self st1 x r (new_mode cf r st) c)"
    unfolding roster_ok_def ids using users(2) x(1,5) st1 distinct_members [OF good]
    by (auto simp: joined_self_def self_user_def)
  then show ?thesis using x mode st1 by (simp add: member_ok_def joined_self_def)
qed

lemma member_ok_announced_other:
  assumes ok: "member_ok cf st1 {x} r y c" and x: "x \<in> set (members (cf_io cf) (sv_io st1) r)" "jm_get (sv_sockets st1) x = Some s0"
  shows "member_ok cf st1 {} r y (c\<lparr>cl_users := cl_users c @
    [\<lparr>ru_id = x, ru_username = so_username s0, ru_stream = None, ru_video = video_on s0, ru_audio = audio_on s0\<rparr>]\<rparr>)"
  using assms by (auto simp: member_ok_def roster_ok_def flags_of_def)

lemma ok_announce_join:
  assumes ok: "ok_sys {x} \<lparr>sy_server = st, sy_client = cl\<rparr>" and r: "r \<notin> ids" "name_ok r"
    and x: "x \<in> set (members (cf_io cf) (sv_io st) r)" "jm_get (sv_sockets st) x = Some s0" "cl_room (cl x) = r"
    and only: "\<And>r'. r' \<notin> ids \<Longrightarrow> x \<in> set (members (cf_io cf) (sv_io st) r') \<Longrightarrow> r' = r"
  shows "ok_sys {} (deliver cf (announce_join cf aud x s r st) cl)"
proof -
  define st1 where "st1 = fst (snd (reconcileMode cf r st))"
  have good: "good (sv_io st)" using ok by (simp add: system_ok_def)
  have mem: "member_ok cf st {x} r' y (cl y)" if "r' \<notin> ids" "y \<in> set (members (cf_io cf) (sv_io st) r')" "y \<noteq> x" for r' y
    using ok_member [OF ok that(1), of y] that(2,3) by simp
  have conn: "\<forall>y \<in> set (members (cf_io cf) (sv_io st) r). jm_has (sv_sockets st) y"
    using mem [OF r(1)] x(2) by (auto simp: member_ok_def)
  have st1: "sv_io st1 = sv_io st" "sv_sockets st1 = sv_sockets st" using reconcile_fields [of cf r st] by (simp_all add: st1_def)
  note cl' = announce_join_clients [where cl = cl and aud = aud and s = s, OF x conn, folded st1_def]
  let ?cl = "sy_client (deliver cf (announce_join cf aud x s r st) cl)"
  have sock: "cl_id (cl x) = x" using ok_socket [OF ok, of x] x(2) by simp
  have ann: "member_ok cf st1 {} r' y (announced_client st1 st x s0 r y (cl y))"
    if r': "r' \<notin> ids" and y: "y \<in> set (members (cf_io cf) (sv_io st) r')" for r' y
  proof (cases "y = x")
    case True
    then have "r' = r" using only r' y by blast
    with True member_ok_announced_self [where c = "cl x", OF good x r(2) sock conn] show ?thesis by (simp add: announced_client_def st1_def)
  next
    case False
    have old: "member_ok cf st1 {x} r' y (heard_reconcile st1 r st y (cl y))"
      by (rule member_ok_reconciled [OF mem [OF r' y False] y]) (simp_all add: st1 st1_def)
    show ?thesis
    proof (cases "r' = r")
      case True
      with member_ok_announced_other [OF old [unfolded True]] False y x st1 show ?thesis
        by (simp add: announced_client_def heard_reconcile_rest)
    next
      case neq: False
      have "y \<notin> set (members (cf_io cf) (sv_io st) r)"
      proof
        assume "y \<in> set (members (cf_io cf) (sv_io st) r)"
        from mem [OF r(1) this False] mem [OF r' y False] neq show False by (simp add: member_ok_def)
      qed
      moreover have "x \<notin> set (members (cf_io cf) (sv_io st1) r')" using only r' neq st1 by auto
      ultimately show ?thesis using old False by (simp add: announced_client_def member_ok_def)
    qed
  qed
  have rest: "cl_id (?cl y) = cl_id (cl y) \<and> cl_room (?cl y) = cl_room (cl y) \<and> cl_username (?cl y) = cl_username (cl y)" for y
    using cl'(2) [of y] by (auto simp: same_room_def announced_client_def joined_self_def heard_reconcile_rest split: if_splits)
  show ?thesis
    unfolding system_ok_def cl'(1) using good ok_socket [OF ok] rest ann st1
    by (simp add: member_ok_same [OF cl'(2)])
qed

text \<open>Between the steps nothing is pending and the handlers of every socket are registered.\<close>

definition sys_settled :: "'a room_system \<Rightarrow> bool" where
  "sys_settled sy \<longleftrightarrow> ok_sys {} sy \<and> sv_tasks (sy_server sy) = [] \<and>
    (\<forall>x s. jm_get (sv_sockets (sy_server sy)) x = Some s \<longrightarrow> so_media s \<noteq> None)"

lemma settle_one:
  assumes "sv_tasks (sy_server sy) = [t]"
  shows "sys_settle cf sy = deliver cf (run_task cf t ((sy_server sy)\<lparr>sv_tasks := []\<rparr>)) (sy_client sy)"
  using sys_act_run [OF assms] by (simp add: sys_settle_def assms)

lemma run_task_sockets_other: "\<not> (\<exists>x. t = Register x) \<Longrightarrow> sv_sockets (fst (run_task cf t st)) = sv_sockets st"
  by (cases t) (auto simp: run_task_left announce_join_fst reconcile_and_gc_fst simp del: run_task.simps(4))

lemma settle_sockets:
  "sv_tasks (sy_server sy) = ts \<Longrightarrow> \<forall>t \<in> set ts. \<not> (\<exists>x. t = Register x) \<Longrightarrow> sv_sockets (sy_server (sys_settle cf sy)) = sv_sockets (sy_server sy)"
proof (induction ts arbitrary: sy)
  case Nil
  then show ?case by (simp add: sys_settle_def)
next
  case (Cons t ts)
  let ?sy = "sys_act cf (Run 0) sy"
  have run: "?sy = deliver cf (run_task cf t ((sy_server sy)\<lparr>sv_tasks := ts\<rparr>)) (sy_client sy)" using sys_act_run [OF Cons.prems(1)] .
  have ts: "sv_tasks (sy_server ?sy) = ts" unfolding run deliver_server by (simp only: run_task_tasks) simp
  have keep: "sv_sockets (sy_server ?sy) = sv_sockets (sy_server sy)" unfolding run deliver_server
    using Cons.prems(2) by (subst run_task_sockets_other) simp_all
  have "sys_settle cf sy = sys_settle cf ?sy"
    by (simp add: sys_settle_def Cons.prems(1) ts funpow_swap1)
  then show ?case using Cons.IH [OF ts] Cons.prems(2) keep by simp
qed

lemma settle_enter:
  assumes ok: "ok_sys {} \<lparr>sy_server = st, sy_client = cl\<rparr>" and r: "r \<notin> ids" "name_ok r"
    and x: "jm_get (sv_sockets st) x = Some s" "cl_room (cl x) = r"
    and out: "\<And>r'. r' \<notin> ids \<Longrightarrow> x \<notin> set (members (cf_io cf) (sv_io st) r')"
    and t: "t = JoinedRoom x s r \<or> t = CreatedRoom x s r"
    and st1: "sv_io st1 = sv_io st" "sv_sockets st1 = sv_sockets st" "sv_modes st1 = sv_modes st" "sv_tasks st1 = []"
  shows "ok_sys {} (sys_settle cf \<lparr>sy_server = enter_room cf x r t st1, sy_client = cl\<rparr>)
    \<and> sv_tasks (sy_server (sys_settle cf \<lparr>sy_server = enter_room cf x r t st1, sy_client = cl\<rparr>)) = []
    \<and> sv_sockets (sy_server (sys_settle cf \<lparr>sy_server = enter_room cf x r t st1, sy_client = cl\<rparr>)) = sv_sockets st"
proof -
  let ?st = "(enter_room cf x r t st1)\<lparr>sv_tasks := []\<rparr>"
  have good: "good (sv_io st)" using ok by (simp add: system_ok_def)
  have members: "set (members (cf_io cf) (sv_io ?st) r') = (if r' = r then insert x (set (members (cf_io cf) (sv_io st) r')) else set (members (cf_io cf) (sv_io st) r'))" for r'
    using good by (simp add: st1 set_join)
  have fresh: "ok_sys {x} \<lparr>sy_server = ?st, sy_client = cl\<rparr>"
    unfolding system_ok_def
  proof (intro conjI allI impI)
    fix r' y assume a: "r' \<notin> ids" "y \<in> set (members (cf_io cf) (sv_io (sy_server \<lparr>sy_server = ?st, sy_client = cl\<rparr>)) r')" "y \<notin> {x}"
    then have "y \<in> set (members (cf_io cf) (sv_io st) r')" using members by (auto split: if_splits)
    with ok_member [OF ok a(1), of y] have m: "member_ok cf st {} r' y (cl y)" by simp
    have "set (members (cf_io cf) (sv_io ?st) r') - {x} = set (members (cf_io cf) (sv_io st) r')" unfolding members using out [OF a(1)] by auto
    with m show "member_ok cf (sy_server \<lparr>sy_server = ?st, sy_client = cl\<rparr>) {x} r' y (sy_client \<lparr>sy_server = ?st, sy_client = cl\<rparr> y)"
      by (simp add: member_ok_def roster_ok_def flags_of_def st1)
  qed (use good ok in \<open>auto simp: system_ok_def good_join st1\<close>)
  have x': "x \<in> set (members (cf_io cf) (sv_io ?st) r)" "jm_get (sv_sockets ?st) x = Some s" using members [of r] x(1) st1 by auto
  have only: "r' = r" if "r' \<notin> ids" "x \<in> set (members (cf_io cf) (sv_io ?st) r')" for r'
    using that members [of r'] out [OF that(1)] by (auto split: if_splits)
  have tasks: "sv_tasks (sy_server \<lparr>sy_server = enter_room cf x r t st1, sy_client = cl\<rparr>) = [t]" by (simp add: st1)
  have run: "run_task cf t ?st = announce_join cf (if t = JoinedRoom x s r then ToAllExceptRoom r else ToAll) x s r ?st"
    using t by auto
  have "sv_sockets (fst (run_task cf t ?st)) = sv_sockets st" using t st1 by (subst run_task_sockets_other) auto
  moreover have "sv_tasks (fst (run_task cf t ?st)) = []" by (simp only: run_task_tasks) simp
  ultimately show ?thesis
    using ok_announce_join [OF fresh r x' x(2) only] unfolding settle_one [OF tasks] deliver_server
    by (simp add: run)
qed

text \<open>A socket that goes: it is no longer in any room, and those that shared its room have struck it off.\<close>

lemma ok_removed:
  assumes ok: "ok_sys {} \<lparr>sy_server = st, sy_client = cl\<rparr>" and good: "good (sv_io st')"
    and members: "\<And>r. r \<notin> ids \<Longrightarrow> set (members (cf_io cf) (sv_io st') r) = set (members (cf_io cf) (sv_io st) r) - {x}"
    and modes: "sv_modes st' = sv_modes st"
    and sockets: "\<And>y. y \<noteq> x \<Longrightarrow> jm_get (sv_sockets st') y = jm_get (sv_sockets st) y"
    and self: "\<And>s. jm_get (sv_sockets st') x = Some s \<Longrightarrow> x \<in> ids \<and> cl_id (cl' x) = x \<and> cl_room (cl' x) \<notin> ids \<and> cl_username (cl' x) = so_username s"
    and others: "\<And>y. y \<noteq> x \<Longrightarrow> same_room (cl' y) ((cl y)\<lparr>cl_users := filter (\<lambda>u. ru_id u \<noteq> x) (cl_users (cl y))\<rparr>) \<or>
      same_room (cl' y) (cl y) \<and> (\<forall>r. r \<notin> ids \<longrightarrow> y \<in> set (members (cf_io cf) (sv_io st) r) \<longrightarrow> x \<notin> set (members (cf_io cf) (sv_io st) r))"
  shows "ok_sys {} \<lparr>sy_server = st', sy_client = cl'\<rparr>"
proof -
  have mem: "member_ok cf st' {} r y (cl' y)" if r: "r \<notin> ids" and y: "y \<in> set (members (cf_io cf) (sv_io st') r)" for r y
  proof -
    have ne: "y \<noteq> x" and y': "y \<in> set (members (cf_io cf) (sv_io st) r)" using y members [OF r] by auto
    have old: "member_ok cf st {} r y (cl y)" using ok_member [OF ok r, of y] y' by simp
    have fl: "flags_of st' u = flags_of st u" if "ru_id u \<noteq> x" for u using sockets [OF that] by (simp add: flags_of_def)
    from others [OF ne] show ?thesis
    proof
      assume s: "same_room (cl' y) ((cl y)\<lparr>cl_users := filter (\<lambda>u. ru_id u \<noteq> x) (cl_users (cl y))\<rparr>)"
      have "roster_ok st' (set (members (cf_io cf) (sv_io st') r) - {}) y ((cl y)\<lparr>cl_users := filter (\<lambda>u. ru_id u \<noteq> x) (cl_users (cl y))\<rparr>)"
        using old members [OF r] fl by (auto simp: member_ok_def roster_ok_def distinct_map_filter)
      with old have "member_ok cf st' {} r y ((cl y)\<lparr>cl_users := filter (\<lambda>u. ru_id u \<noteq> x) (cl_users (cl y))\<rparr>)"
        by (simp add: member_ok_def modes sockets [OF ne])
      then show ?thesis by (simp only: member_ok_same [OF s])
    next
      assume s: "same_room (cl' y) (cl y) \<and> (\<forall>r. r \<notin> ids \<longrightarrow> y \<in> set (members (cf_io cf) (sv_io st) r) \<longrightarrow> x \<notin> set (members (cf_io cf) (sv_io st) r))"
      then have "x \<notin> set (members (cf_io cf) (sv_io st) r)" using r y' by blast
      then have same: "set (members (cf_io cf) (sv_io st') r) = set (members (cf_io cf) (sv_io st) r)" and notin: "x \<notin> ru_id ` set (cl_users (cl y))"
        using members [OF r] old by (auto simp: member_ok_def roster_ok_def)
      have eq: "(ru_id u \<noteq> y \<longrightarrow> flags_of st' u) = (ru_id u \<noteq> y \<longrightarrow> flags_of st u)" if "u \<in> set (cl_users (cl y))" for u
        using fl [of u] notin that by (metis imageI)
      have "member_ok cf st' {} r y (cl y)"
        using old by (simp add: member_ok_def roster_ok_def same modes sockets [OF ne] eq cong: ball_cong)
      then show ?thesis by (simp only: member_ok_same [OF conjunct1 [OF s]])
    qed
  qed
  have idr: "cl_id (cl' y) = cl_id (cl y) \<and> cl_room (cl' y) = cl_room (cl y) \<and> cl_username (cl' y) = cl_username (cl y)" if "y \<noteq> x" for y
    using others [OF that] by (auto simp: same_room_def)
  have "y \<in> ids \<and> cl_id (cl' y) = y \<and> cl_room (cl' y) \<notin> ids \<and> cl_username (cl' y) = so_username s" if "jm_get (sv_sockets st') y = Some s" for y s
    using that self [of s] idr [of y] sockets [of y] ok_socket [OF ok, of y s] by (cases "y = x") auto
  with mem good show ?thesis by (simp add: system_ok_def)
qed

lemma hear_removes:
  "fold (hear cf st y) (map (remove_user x) rs) c =
    (if jm_has (sv_sockets st) y \<and> y \<noteq> x \<and> (\<exists>r \<in> set rs. y \<in> set (members (cf_io cf) (sv_io st) r))
     then c\<lparr>cl_users := filter (\<lambda>u. ru_id u \<noteq> x) (cl_users c)\<rparr> else c)"
proof (induction rs arbitrary: c)
  case (Cons r rs)
  then show ?case by (cases "jm_get (sv_sockets st) y") (auto simp: hear_def remove_user_def recv_remove reaches_def)
qed simp

section \<open>One action of a user\<close>

lemma sys_settledD:
  assumes "sys_settled sy"
  shows "ok_sys {} sy" "sv_tasks (sy_server sy) = []"
    and "jm_get (sv_sockets (sy_server sy)) x = Some s \<Longrightarrow> so_media s \<noteq> None"
  using assms by (auto simp: sys_settled_def)

lemma lobby_out:
  assumes "sys_settled sy" "cl_app (sy_client sy x) = AppLobby" "r \<notin> ids"
  shows "x \<notin> set (members (cf_io cf) (sv_io (sy_server sy)) r)"
  using ok_member [OF sys_settledD(1) [OF assms(1)] assms(3)] assms(2) by (auto simp: member_ok_def)

lemma ok_set_client:
  assumes ok: "ok_sys {} sy" and out: "\<And>r. r \<notin> ids \<Longrightarrow> x \<notin> set (members (cf_io cf) (sv_io (sy_server sy)) r)"
    and c: "cl_id c = cl_id (sy_client sy x)" "cl_username c = cl_username (sy_client sy x)" "cl_room c \<notin> ids"
  shows "ok_sys {} (set_client x c sy)"
  using ok out c by (auto simp: system_ok_def set_client_def)

lemma settled_unchanged: "sys_settled sy \<Longrightarrow> sys_settle cf sy = sy"
  by (simp add: sys_settled_def sys_settle_def)

lemma handled_ready: "jm_get (sv_sockets st) x = Some s \<Longrightarrow> so_media s \<noteq> None \<Longrightarrow> handled x f st = f s"
  by (auto simp: handled_def)

lemma settled_enter:
  assumes sy: "sys_settled sy" and x: "jm_get (sv_sockets (sy_server sy)) x = Some s" and out: "\<And>r'. r' \<notin> ids \<Longrightarrow> x \<notin> set (members (cf_io cf) (sv_io (sy_server sy)) r')"
    and r: "r \<notin> ids" "name_ok r" and c: "cl_id c = x" "cl_username c = cl_username (sy_client sy x)" "cl_room c = r"
    and t: "t = JoinedRoom x s r \<or> t = CreatedRoom x s r"
    and st1: "sv_io st1 = sv_io (sy_server sy)" "sv_sockets st1 = sv_sockets (sy_server sy)" "sv_modes st1 = sv_modes (sy_server sy)" "sv_tasks st1 = []"
  shows "sys_settled (sys_settle cf (deliver cf (enter_room cf x r t st1, []) (sy_client (set_client x c sy))))"
proof -
  let ?cl = "sy_client (set_client x c sy)"
  have ok: "ok_sys {} (set_client x c sy)" using ok_set_client [OF sys_settledD(1) [OF sy] out, of c] c r ok_socket [OF sys_settledD(1) [OF sy] x] by simp
  have ok': "ok_sys {} \<lparr>sy_server = sy_server sy, sy_client = ?cl\<rparr>"
    by (rule system_ok_same [OF ok]) (simp_all add: set_client_def)
  have room: "cl_room (?cl x) = r" using c by (simp add: set_client_def)
  have d: "deliver cf (enter_room cf x r t st1, []) ?cl = \<lparr>sy_server = enter_room cf x r t st1, sy_client = ?cl\<rparr>" by (simp add: deliver_eq)
  from settle_enter [where cl = ?cl, OF ok' r x room out t st1] sys_settledD(3) [OF sy] show ?thesis unfolding d sys_settled_def by simp
qed

lemma join_data:
  assumes "cf_parse cf JoinRoomPayload (room_request r p) = Some data"
  shows "fst (join_target data) = r \<and> name_ok r"
proof -
  have "cf_parse cf CreateRoomPayload (room_request r p) = Some data"
  proof -
    from schema_parser.parse_union [OF parser assms [unfolded JoinRoomPayload_def]] obtain sc where
      sc: "sc \<in> set [bounded_string 128, ZObject [(''roomName'', bounded_string 128), (''password'', ZOptional (bounded_string 128))]]"
        "cf_parse cf sc (room_request r p) = Some data" by blast
    moreover have "cf_parse cf (bounded_string 128) (room_request r p) \<noteq> Some data"
      using schema_parser.parse_bounded [OF parser, of 128 "room_request r p" data] by (auto simp: room_request_def)
    ultimately show ?thesis by (auto simp: CreateRoomPayload_def)
  qed
  note d = schema_parser.parse_object [OF parser this [unfolded CreateRoomPayload_def]]
  from d [of "''roomName''" "bounded_string 128"] have "cf_parse cf (bounded_string 128) (Some (JStr r)) = Some (jget data ''roomName'')"
    by (simp add: room_request_def)
  from schema_parser.parse_bounded [OF parser this] have rn: "jget data ''roomName'' = Some (JStr r)" "name_ok r" by (auto simp: name_ok_def)
  moreover have "\<not> is_str data" using rn(1) by (cases data rule: is_str.cases) auto
  ultimately show ?thesis by (simp add: join_target_def)
qed

lemma create_data:
  assumes "cf_parse cf CreateRoomPayload (room_request r p) = Some data"
  shows "str_of (jget data ''roomName'') = r \<and> name_ok r"
proof -
  from schema_parser.parse_object [OF parser assms [unfolded CreateRoomPayload_def], of "''roomName''" "bounded_string 128"]
  have "cf_parse cf (bounded_string 128) (Some (JStr r)) = Some (jget data ''roomName'')" by (simp add: room_request_def)
  from schema_parser.parse_bounded [OF parser this] show ?thesis by (auto simp: name_ok_def)
qed

lemma settled_set_client:
  assumes "sys_settled sy" "\<And>r. r \<notin> ids \<Longrightarrow> x \<notin> set (members (cf_io cf) (sv_io (sy_server sy)) r)"
    "cl_id c = cl_id (sy_client sy x)" "cl_username c = cl_username (sy_client sy x)" "cl_room c \<notin> ids"
  shows "sys_settled (set_client x c sy)"
  using ok_set_client [OF sys_settledD(1) [OF assms(1)] assms(2-5)] assms(1) by (simp add: sys_settled_def set_client_def)

lemma settled_deliver_same:
  assumes "sys_settled sy" "\<And>y. same_room (fold (hear cf (sy_server sy) y) out (sy_client sy y)) (sy_client sy y)"
  shows "sys_settled (sys_settle cf (deliver cf (sy_server sy, out) (sy_client sy)))"
proof -
  let ?sy = "deliver cf (sy_server sy, out) (sy_client sy)"
  have "ok_sys {} ?sy" by (rule system_ok_same [OF sys_settledD(1) [OF assms(1)]]) (simp_all add: deliver_eq assms(2))
  then have "sys_settled ?sy" using assms(1) by (simp add: sys_settled_def deliver_eq)
  with settled_unchanged show ?thesis by simp
qed

lemma settled_join:
  assumes sy: "sys_settled sy" and r: "r \<notin> ids"
  shows "sys_settled (sys_step cf (UJoin x r p) sy)"
proof (cases "jm_has (sv_sockets (sy_server sy)) x \<and> cl_app (sy_client sy x) = AppLobby")
  case True
  then obtain s where x: "jm_get (sv_sockets (sy_server sy)) x = Some s" by auto
  have out: "r' \<notin> ids \<Longrightarrow> x \<notin> set (members (cf_io cf) (sv_io (sy_server sy)) r')" for r' using lobby_out [OF sy] True by blast
  have id: "cl_id (sy_client sy x) = x" using ok_socket [OF sys_settledD(1) [OF sy] x] by simp
  define c where "c = fst (handleJoinRoom r p (sy_client sy x))"
  have c: "cl_id c = x" "cl_username c = cl_username (sy_client sy x)" "cl_room c = r" by (simp_all add: c_def handleJoinRoom_def id)
  have step: "sys_step cf (UJoin x r p) sy = sys_settle cf (deliver cf (on_join_room cf x s (room_request r p) (sy_server sy)) (sy_client (set_client x c sy)))"
    using True x sys_settledD(3) [OF sy x]
    by (simp add: handleJoinRoom_def c_def sys_handle_def sys_act_def handled_ready id set_client_def)
  have base: "sys_settled (set_client x c sy)" by (rule settled_set_client [OF sy out]) (simp_all add: c id r)
  show ?thesis
  proof (cases "cf_parse cf JoinRoomPayload (room_request r p)")
    case None
    with settled_deliver_same [OF base, of "[]"] show ?thesis unfolding step by (simp add: on_join_room_def set_client_def)
  next
    case (Some data)
    have jt: "fst (join_target data) = r" "name_ok r" using join_data [OF Some] by simp_all
    show ?thesis
    proof (cases "checkRoomPassword r (snd (join_target data)) (sy_server sy)")
      case True
      then have "on_join_room cf x s (room_request r p) (sy_server sy) = (enter_room cf x r (JoinedRoom x s r) (sy_server sy), [])"
        using Some jt(1) by (auto simp: on_join_room_def split: prod.split)
      with settled_enter [OF sy x out r jt(2) c disjI1 [OF refl] refl refl refl sys_settledD(2) [OF sy]] show ?thesis unfolding step by simp
    next
      case False
      then have "on_join_room cf x s (room_request r p) (sy_server sy) =
          (sy_server sy, [Emit (ToSocket x) ''join room error'' (Plain (JObj [(''message'', JStr ''Incorrect password'')]))])"
        using Some jt(1) by (auto simp: on_join_room_def split: prod.split)
      with settled_deliver_same [OF base, of "[Emit (ToSocket x) ''join room error'' (Plain (JObj [(''message'', JStr ''Incorrect password'')]))]"]
      show ?thesis unfolding step by (simp add: set_client_def hear_error)
    qed
  qed
qed (use sy in auto)

lemma settled_create:
  assumes sy: "sys_settled sy" and r: "r \<notin> ids"
  shows "sys_settled (sys_step cf (UCreate x r p) sy)"
proof (cases "jm_has (sv_sockets (sy_server sy)) x \<and> cl_app (sy_client sy x) = AppLobby")
  case True
  then obtain s where x: "jm_get (sv_sockets (sy_server sy)) x = Some s" by auto
  have out: "r' \<notin> ids \<Longrightarrow> x \<notin> set (members (cf_io cf) (sv_io (sy_server sy)) r')" for r' using lobby_out [OF sy] True by blast
  have id: "cl_id (sy_client sy x) = x" using ok_socket [OF sys_settledD(1) [OF sy] x] by simp
  define c where "c = fst (handleCreateRoom r p (sy_client sy x))"
  have c: "cl_id c = x" "cl_username c = cl_username (sy_client sy x)" "cl_room c = r" by (simp_all add: c_def handleCreateRoom_def id)
  have step: "sys_step cf (UCreate x r p) sy = sys_settle cf (deliver cf (on_create_room cf x s (room_request r p) (sy_server sy)) (sy_client (set_client x c sy)))"
    using True x sys_settledD(3) [OF sy x]
    by (simp add: handleCreateRoom_def c_def sys_handle_def sys_act_def handled_ready id set_client_def)
  have base: "sys_settled (set_client x c sy)" by (rule settled_set_client [OF sy out]) (simp_all add: c id r)
  show ?thesis
  proof (cases "cf_parse cf CreateRoomPayload (room_request r p)")
    case None
    with settled_deliver_same [OF base, of "[]"] show ?thesis unfolding step by (simp add: on_create_room_def set_client_def)
  next
    case (Some data)
    have jt: "str_of (jget data ''roomName'') = r" "name_ok r" using create_data [OF Some] by simp_all
    obtain st1 where st1: "on_create_room cf x s (room_request r p) (sy_server sy) = (enter_room cf x r (CreatedRoom x s r) st1, [])"
      "sv_io st1 = sv_io (sy_server sy)" "sv_sockets st1 = sv_sockets (sy_server sy)" "sv_modes st1 = sv_modes (sy_server sy)" "sv_tasks st1 = []"
      using Some jt(1) sys_settledD(2) [OF sy] by (auto simp: on_create_room_def Let_def split: option.split)
    with settled_enter [OF sy x out r jt(2) c disjI2 [OF refl] st1(2-5)] show ?thesis unfolding step by simp
  qed
qed (use sy in auto)

text \<open>A new connection is in no room yet.\<close>

lemma settled_connect:
  assumes sy: "sys_settled sy" and x: "x \<in> ids"
  shows "sys_settled (sys_step cf (UConnect x name) sy)"
proof (cases "jm_has (sv_sockets (sy_server sy)) x")
  case False
  let ?st = "sy_server sy" and ?cl = "sy_client (set_client x (new_client x name) sy)"
  let ?st' = "(on_connection cf x name ?st)\<lparr>sv_tasks := [], sv_sockets := jm_set (jm_set (sv_sockets ?st) x \<lparr>so_username = name, so_media = None\<rparr>) x
    \<lparr>so_username = name, so_media = Some (True, True)\<rparr>\<rparr>"
  let ?out = "[active_rooms cf (ToSocket x) ((on_connection cf x name ?st)\<lparr>sv_tasks := []\<rparr>)]"
  have tasks: "sv_tasks ?st = []" and good: "good (sv_io ?st)" using sy by (simp_all add: sys_settled_def system_ok_def)
  have out: "x \<notin> set (members (cf_io cf) (sv_io ?st) r)" if "r \<notin> ids" for r
    using ok_member [OF sys_settledD(1) [OF sy] that, of x] False by (auto simp: member_ok_def)
  have step: "sys_step cf (UConnect x name) sy = deliver cf (?st', ?out) ?cl"
  proof -
    have act: "sys_act cf (Connect x name) (set_client x (new_client x name) sy) = \<lparr>sy_server = on_connection cf x name ?st, sy_client = ?cl\<rparr>"
      using False by (simp add: sys_act_def deliver_eq set_client_def fun_upd_def)
    have one: "sv_tasks (sy_server \<lparr>sy_server = on_connection cf x name ?st, sy_client = ?cl\<rparr>) = [Register x]"
      by (simp add: on_connection_def tasks)
    have get: "jm_get (sv_sockets ((on_connection cf x name ?st)\<lparr>sv_tasks := []\<rparr>)) x = Some \<lparr>so_username = name, so_media = None\<rparr>"
      by (simp add: on_connection_def)
    have sockets: "sv_sockets (on_connection cf x name ?st) = jm_set (sv_sockets ?st) x \<lparr>so_username = name, so_media = None\<rparr>"
      by (simp add: on_connection_def)
    show ?thesis using False unfolding sys_step.simps sys_handle_def act settle_one [OF one] by (simp add: get sockets)
  qed
  have same: "same_room (fold (hear cf ?st' y) ?out c) c" for y c by (rule same_room_hear_rooms)
  have ok: "ok_sys {} \<lparr>sy_server = ?st, sy_client = sy_client sy\<rparr>" using sys_settledD(1) [OF sy] by (cases sy) simp
  have "ok_sys {} \<lparr>sy_server = ?st', sy_client = (\<lambda>y. fold (hear cf ?st' y) ?out (?cl y))\<rparr>"
  proof (rule ok_removed [OF ok, of _ x])
    show "good (sv_io ?st')" using good by (simp add: on_connection_def good_join)
    show "set (members (cf_io cf) (sv_io ?st') r) = set (members (cf_io cf) (sv_io ?st) r) - {x}" if "r \<notin> ids" for r
    proof -
      have "r \<noteq> x" using that x by blast
      then show ?thesis using good out [OF that] by (simp add: on_connection_def set_join)
    qed
    show "sv_modes ?st' = sv_modes ?st" by (simp add: on_connection_def)
    show "jm_get (sv_sockets ?st') y = jm_get (sv_sockets ?st) y" if "y \<noteq> x" for y using that by simp
    show "x \<in> ids \<and> cl_id (fold (hear cf ?st' x) ?out (?cl x)) = x \<and> cl_room (fold (hear cf ?st' x) ?out (?cl x)) \<notin> ids \<and>
        cl_username (fold (hear cf ?st' x) ?out (?cl x)) = so_username s" if "jm_get (sv_sockets ?st') x = Some s" for s
      using that same [of x "?cl x"] x no_empty_id by (auto simp: same_room_def set_client_def new_client_def)
    show "same_room (fold (hear cf ?st' y) ?out (?cl y)) ((sy_client sy y)\<lparr>cl_users := filter (\<lambda>u. ru_id u \<noteq> x) (cl_users (sy_client sy y))\<rparr>) \<or>
        same_room (fold (hear cf ?st' y) ?out (?cl y)) (sy_client sy y) \<and>
        (\<forall>r. r \<notin> ids \<longrightarrow> y \<in> set (members (cf_io cf) (sv_io ?st) r) \<longrightarrow> x \<notin> set (members (cf_io cf) (sv_io ?st) r))" if "y \<noteq> x" for y
      using that same [of y "?cl y"] out by (auto simp: set_client_def)
  qed
  moreover have "so_media s \<noteq> None" if "jm_get (sv_sockets ?st') y = Some s" for y s
    using that sys_settledD(3) [OF sy, of y s] by (cases "y = x") auto
  ultimately show ?thesis unfolding step by (simp add: sys_settled_def deliver_eq)
qed (use sy in auto)


text \<open>
  Leaving, or losing the connection: the rooms struck off are those \<open>rs\<close>, whose members hear of it, and each leaves a task.
\<close>

lemma settled_gone:
  assumes sy: "sys_settled sy" and x: "jm_get (sv_sockets (sy_server sy)) x = Some s0"
    and c: "cl_id c = cl_id (sy_client sy x)" "cl_username c = cl_username (sy_client sy x)" "cl_room c \<notin> ids"
    and good: "good (sv_io st')"
    and members: "\<And>r. r \<notin> ids \<Longrightarrow> set (members (cf_io cf) (sv_io st') r) = set (members (cf_io cf) (sv_io (sy_server sy)) r) - {x}"
    and st': "sv_modes st' = sv_modes (sy_server sy)" "\<And>y. y \<noteq> x \<Longrightarrow> jm_get (sv_sockets st') y = jm_get (sv_sockets (sy_server sy)) y"
    and self: "jm_get (sv_sockets st') x = None \<or> jm_get (sv_sockets st') x = Some s0"
    and rs: "\<And>r. r \<notin> ids \<Longrightarrow> x \<in> set (members (cf_io cf) (sv_io (sy_server sy)) r) \<Longrightarrow> r \<in> set rs"
    and tasks: "\<forall>t \<in> set (sv_tasks st'). t = Announce \<or> (\<exists>r. t = ReconcileRoom r \<or> t = LeftRoom r)"
  shows "sys_settled (sys_settle cf (deliver cf (st', map (remove_user x) rs) (sy_client (set_client x c sy))))"
proof -
  let ?st = "sy_server sy" and ?sy = "deliver cf (st', map (remove_user x) rs) (sy_client (set_client x c sy))"
  let ?cl' = "\<lambda>y. fold (hear cf st' y) (map (remove_user x) rs) (sy_client (set_client x c sy) y)"
  have ok: "ok_sys {} \<lparr>sy_server = ?st, sy_client = sy_client sy\<rparr>" using sys_settledD(1) [OF sy] by (cases sy) simp
  have "ok_sys {} \<lparr>sy_server = st', sy_client = ?cl'\<rparr>"
  proof (rule ok_removed [OF ok good, of x])
    show "x \<in> ids \<and> cl_id (?cl' x) = x \<and> cl_room (?cl' x) \<notin> ids \<and> cl_username (?cl' x) = so_username s"
      if "jm_get (sv_sockets st') x = Some s" for s
      using that self c ok_socket [OF sys_settledD(1) [OF sy] x] by (simp add: hear_removes set_client_def)
    fix y assume y: "y \<noteq> x"
    show "same_room (?cl' y) ((sy_client sy y)\<lparr>cl_users := filter (\<lambda>u. ru_id u \<noteq> x) (cl_users (sy_client sy y))\<rparr>) \<or>
        same_room (?cl' y) (sy_client sy y) \<and>
        (\<forall>r. r \<notin> ids \<longrightarrow> y \<in> set (members (cf_io cf) (sv_io ?st) r) \<longrightarrow> x \<notin> set (members (cf_io cf) (sv_io ?st) r))"
    proof (cases "\<exists>r. r \<notin> ids \<and> y \<in> set (members (cf_io cf) (sv_io ?st) r) \<and> x \<in> set (members (cf_io cf) (sv_io ?st) r)")
      case True
      then obtain r where r: "r \<notin> ids" "y \<in> set (members (cf_io cf) (sv_io ?st) r)" "x \<in> set (members (cf_io cf) (sv_io ?st) r)" by blast
      then have "jm_has (sv_sockets st') y" "y \<in> set (members (cf_io cf) (sv_io st') r)" "r \<in> set rs"
        using ok_member [OF sys_settledD(1) [OF sy] r(1,2)] members [OF r(1)] st'(2) [OF y] rs y by (auto simp: member_ok_def)
      then show ?thesis using y by (auto simp: hear_removes set_client_def)
    next
      case False
      then show ?thesis using y by (auto simp: hear_removes set_client_def)
    qed
  qed (use members st' in auto)
  then have start: "ok_sys {} ?sy" by (simp add: deliver_eq)
  have settle: "ok_sys {} (sys_settle cf ?sy) \<and> sv_tasks (sy_server (sys_settle cf ?sy)) = []"
    by (rule settle_induct [OF refl start]) (use tasks in \<open>simp add: deliver_eq\<close>)
  have regs: "so_media s \<noteq> None" if "jm_get (sv_sockets st') y = Some s" for y s
    using that sys_settledD(3) [OF sy, of y s] sys_settledD(3) [OF sy x] self st'(2) [of y] by (cases "y = x") auto
  have "sv_sockets (sy_server (sys_settle cf ?sy)) = sv_sockets (sy_server ?sy)"
    by (rule settle_sockets [OF refl]) (use tasks in \<open>auto simp: deliver_eq\<close>)
  with settle regs show ?thesis by (simp add: sys_settled_def deliver_eq)
qed

lemma settled_disconnect:
  assumes sy: "sys_settled sy"
  shows "sys_settled (sys_step cf (UDisconnect x) sy)"
proof (cases "jm_get (sv_sockets (sy_server sy)) x")
  case None
  with settled_deliver_same [OF sy, of "[]"] show ?thesis by (simp add: sys_handle_def sys_act_def)
next
  case (Some s0)
  let ?st = "sy_server sy"
  define rs where "rs = filter (\<lambda>r. r \<noteq> x) (io_of (cf_io cf) (sv_io ?st) x)"
  define st' where "st' = fst (on_disconnect cf x ?st)"
  have good: "good (sv_io ?st)" using sys_settledD(1) [OF sy] by (simp add: system_ok_def)
  have st': "sv_io st' = io_drop (cf_io cf) (sv_io ?st) x" "sv_sockets st' = jm_del (sv_sockets ?st) x" "sv_modes st' = sv_modes ?st"
    "sv_tasks st' = map ReconcileRoom rs @ [Announce]"
    using sys_settledD(2) [OF sy] by (simp_all add: st'_def on_disconnect_def rs_def Let_def)
  have step: "sys_step cf (UDisconnect x) sy = sys_settle cf (deliver cf (st', map (remove_user x) rs) (sy_client (set_client x (sy_client sy x) sy)))"
    using Some by (simp add: sys_handle_def sys_act_def st'_def on_disconnect_def rs_def set_client_def Let_def)
  have x: "x \<in> ids" using ok_socket [OF sys_settledD(1) [OF sy] Some] by simp
  show ?thesis unfolding step
  proof (rule settled_gone [OF sy Some])
    show "r \<in> set rs" if "r \<notin> ids" "x \<in> set (members (cf_io cf) (sv_io ?st) r)" for r
      using that x set_of [OF good] by (auto simp: rs_def)
  qed (use ok_socket [OF sys_settledD(1) [OF sy] Some] good in \<open>auto simp: st' good_drop set_drop\<close>)
qed

lemma settled_leave:
  assumes sy: "sys_settled sy"
  shows "sys_settled (sys_step cf (ULeave x) sy)"
proof (cases "jm_has (sv_sockets (sy_server sy)) x \<and> cl_app (sy_client sy x) = AppRoom")
  case True
  let ?st = "sy_server sy" and ?r = "cl_room (sy_client sy x)"
  from True obtain s where x: "jm_get (sv_sockets ?st) x = Some s" by auto
  have id: "cl_id (sy_client sy x) = x" "?r \<notin> ids" using ok_socket [OF sys_settledD(1) [OF sy] x] by simp_all
  have good: "good (sv_io ?st)" using sys_settledD(1) [OF sy] by (simp add: system_ok_def)
  have here: "r = ?r \<and> name_ok ?r" if "r \<notin> ids" "x \<in> set (members (cf_io cf) (sv_io ?st) r)" for r
    using ok_member [OF sys_settledD(1) [OF sy] that] by (simp add: member_ok_def)
  define c where "c = fst (handleLeaveRoom (sy_client sy x))"
  have c: "cl_id c = cl_id (sy_client sy x)" "cl_username c = cl_username (sy_client sy x)" "cl_room c \<notin> ids"
    using no_empty_id by (simp_all add: c_def handleLeaveRoom_def)
  show ?thesis
  proof (cases "?r = []")
    case empty: True
    then have "x \<notin> set (members (cf_io cf) (sv_io ?st) r)" if "r \<notin> ids" for r using here [OF that] by (auto simp: name_ok_def)
    with settled_set_client [OF sy _ c] True empty show ?thesis by (simp add: handleLeaveRoom_def handle_opt_def c_def)
  next
    case named: False
    define res where "res = on_leave_room cf x (Some (JStr ?r)) ?st"
    have step: "sys_step cf (ULeave x) sy = sys_settle cf (deliver cf res (sy_client (set_client x c sy)))"
      using True x sys_settledD(3) [OF sy x] named
      by (simp add: handleLeaveRoom_def handle_opt_def c_def sys_handle_def sys_act_def handled_ready id set_client_def res_def)
    show ?thesis
    proof (cases "x \<in> set (members (cf_io cf) (sv_io ?st) ?r)")
      case member: True
      have "cf_parse cf LeaveRoomPayload (Some (JStr ?r)) = Some (Some (JStr ?r))"
        using here [OF id(2) member] accepts_leave by (simp add: name_ok_def)
      then have res: "res = (defer_task (LeftRoom ?r) (?st\<lparr>sv_io := io_leave (cf_io cf) (sv_io ?st) x ?r\<rparr>), map (remove_user x) [?r])"
        using named member set_of [OF good] by (simp add: res_def on_leave_room_def)
      show ?thesis unfolding step res
      proof (rule settled_gone [OF sy x c])
        show "set (members (cf_io cf) (sv_io (defer_task (LeftRoom ?r) (?st\<lparr>sv_io := io_leave (cf_io cf) (sv_io ?st) x ?r\<rparr>))) r) =
            set (members (cf_io cf) (sv_io ?st) r) - {x}" if "r \<notin> ids" for r
          using good here [OF that] by (auto simp: set_leave)
      qed (use good x here sys_settledD(2) [OF sy] in \<open>auto simp: good_leave\<close>)
    next
      case False
      then have out: "x \<notin> set (members (cf_io cf) (sv_io ?st) r)" if "r \<notin> ids" for r using here [OF that] by blast
      have "res = (?st, []) \<or> res = (defer_task Announce ?st, [])"
        using schema_parser.parse_leave [OF parser, of "Some (JStr ?r)"] schema_parser.parse_optional [OF parser] schema_parser.parse_bounded [OF parser]
          False set_of [OF good] unfolding res_def on_leave_room_def LeaveRoomPayload_def by (fastforce split: option.splits)
      then obtain st' where res: "res = (st', map (remove_user x) [])" and fields: "sv_io st' = sv_io ?st" "sv_sockets st' = sv_sockets ?st"
        "sv_modes st' = sv_modes ?st" "\<forall>t \<in> set (sv_tasks st'). t = Announce" using sys_settledD(2) [OF sy] by auto
      show ?thesis unfolding step res
        by (rule settled_gone [OF sy x c]) (use good out x fields in auto)
    qed
  qed
qed (use sy in auto)


text \<open>Switching a camera or a microphone: the server has the new flag, and so have the others in the room.\<close>

definition media_now :: "string \<Rightarrow> bool \<Rightarrow> sock \<Rightarrow> sock" where
  "media_now kind b s = s\<lparr>so_media := Some (if kind = ''video'' then (b, audio_on s) else (video_on s, b))\<rparr>"

lemma media_now_flags:
  "so_username (media_now kind b s) = so_username s" "video_on (media_now kind b s) = (if kind = ''video'' then b else video_on s)"
  "audio_on (media_now kind b s) = (if kind = ''video'' then audio_on s else b)"
  by (simp_all add: media_now_def video_on_def audio_on_def)

lemma flags_toggled:
  assumes "jm_get (sv_sockets st) x = Some s" "sv_sockets st' = jm_set (sv_sockets st) x (media_now kind b s)" "kind = ''video'' \<or> kind = ''audio''"
    "flags_of st u"
  shows "flags_of st' (set_flag x kind b u)"
  using assms by (auto simp: flags_of_def set_flag_def media_now_flags split: option.splits)

lemma set_flag_id [simp]: "ru_id (set_flag x kind b u) = ru_id u"
  by (simp add: set_flag_def)

lemma flag_ids [simp]: "map ru_id (map (set_flag x kind b) us) = map ru_id us"
  by simp

lemma set_flag_other: "ru_id u \<noteq> x \<Longrightarrow> set_flag x kind b u = u"
  by (simp add: set_flag_def)

lemma roster_mapped:
  "roster_ok st' ms y (c\<lparr>cl_users := map (set_flag x kind b) (cl_users c)\<rparr>) \<longleftrightarrow> distinct (map ru_id (cl_users c)) \<and>
    set (map ru_id (cl_users c)) = ms \<and> (\<forall>u \<in> set (cl_users c). ru_id u \<noteq> y \<longrightarrow> flags_of st' (set_flag x kind b u))"
proof -
  have ids: "map ru_id (cl_users (c\<lparr>cl_users := map (set_flag x kind b) (cl_users c)\<rparr>)) = map ru_id (cl_users c)" by simp
  have users: "set (cl_users (c\<lparr>cl_users := map (set_flag x kind b) (cl_users c)\<rparr>)) = set_flag x kind b ` set (cl_users c)" by simp
  show ?thesis unfolding roster_ok_def ids users ball_simps(9) set_flag_id ..
qed

lemma own_roster:
  assumes "roster_ok st ms x c" "\<And>u. ru_id u \<noteq> x \<Longrightarrow> flags_of st' u = flags_of st u"
  shows "roster_ok st' ms x (c\<lparr>cl_users := map (set_flag x kind b) (cl_users c)\<rparr>)"
  unfolding roster_mapped using assms by (auto simp: roster_ok_def set_flag_other)

lemma heard_roster:
  assumes "roster_ok st ms y c" "\<And>u. flags_of st u \<Longrightarrow> flags_of st' (set_flag x kind b u)"
  shows "roster_ok st' ms y (c\<lparr>cl_users := map (set_flag x kind b) (cl_users c)\<rparr>)"
  unfolding roster_mapped using assms by (auto simp: roster_ok_def)

lemma hear_media:
  "hear cf st y (Emit aud ''media state change'' (Plain (JObj [(''userId'', JStr x), (''kind'', JStr kind), (''enabled'', JBool b)]))) c =
    (if reaches cf st aud y then c\<lparr>cl_users := map (set_flag x kind b) (cl_users c)\<rparr> else c)"
  by (simp add: hear_def client_recv_def on_media_change_def)

lemma media_data:
  assumes "cf_parse cf MediaStateChangePayload (Some (JObj [(''roomName'', JStr r), (''kind'', JStr kind), (''enabled'', JBool b)])) = Some data"
  shows "str_of (jget data ''roomName'') = r" "str_of (jget data ''kind'') = ''video'' \<or> str_of (jget data ''kind'') = ''audio''"
proof -
  note obj = schema_parser.parse_object [OF parser assms [unfolded MediaStateChangePayload_def]]
  from obj [of "''roomName''" "bounded_string 128"] have "cf_parse cf (bounded_string 128) (Some (JStr r)) = Some (jget data ''roomName'')" by simp
  from schema_parser.parse_bounded [OF parser this] show "str_of (jget data ''roomName'') = r" by auto
  from obj [of "''kind''" "ZEnum [''video'', ''audio'']"] have "cf_parse cf (ZEnum [''video'', ''audio'']) (Some (JStr kind)) = Some (jget data ''kind'')" by simp
  from parse_enum [OF this] show "str_of (jget data ''kind'') = ''video'' \<or> str_of (jget data ''kind'') = ''audio''" by auto
qed

lemma ok_toggled:
  assumes ok: "ok_sys {} sy" and x: "jm_get (sv_sockets (sy_server sy)) x = Some s" and kind: "kind = ''video'' \<or> kind = ''audio''"
    and st': "st' = (sy_server sy)\<lparr>sv_sockets := jm_set (sv_sockets (sy_server sy)) x (media_now kind b s)\<rparr>"
    and own: "cl' x = (sy_client sy x)\<lparr>cl_users := map (set_flag x k b') (cl_users (sy_client sy x))\<rparr>"
    and others: "\<And>y. y \<noteq> x \<Longrightarrow> cl' y = (if reaches cf st' (ToRoomExcept (cl_room (sy_client sy x)) x) y
      then (sy_client sy y)\<lparr>cl_users := map (set_flag x kind b) (cl_users (sy_client sy y))\<rparr> else sy_client sy y)"
  shows "ok_sys {} \<lparr>sy_server = st', sy_client = cl'\<rparr>"
proof -
  let ?st = "sy_server sy"
  have io: "sv_io st' = sv_io ?st" and modes: "sv_modes st' = sv_modes ?st" and so: "sv_sockets st' = jm_set (sv_sockets ?st) x (media_now kind b s)"
    by (simp_all add: st')
  have fl: "flags_of st' u = flags_of ?st u" if "ru_id u \<noteq> x" for u using that by (simp add: flags_of_def so)
  have "member_ok cf st' {} r y (cl' y)" if r: "r \<notin> ids" and y: "y \<in> set (members (cf_io cf) (sv_io ?st) r)" for r y
  proof -
    have old: "member_ok cf ?st {} r y (sy_client sy y)" using ok_member [OF ok r y] by simp
    have has: "jm_has (sv_sockets st') y" using old by (auto simp: member_ok_def so)
    consider "y = x" | "y \<noteq> x" "reaches cf st' (ToRoomExcept (cl_room (sy_client sy x)) x) y"
      | "y \<noteq> x" "\<not> reaches cf st' (ToRoomExcept (cl_room (sy_client sy x)) x) y" by blast
    then show ?thesis
    proof cases
      case 1
      with old own_roster [where st' = st', OF _ fl] show ?thesis by (simp add: own member_ok_def io modes so)
    next
      case 2
      with old has heard_roster [where st = ?st and st' = st', OF _ flags_toggled [OF x so kind]] show ?thesis
        by (simp add: others member_ok_def io modes)
    next
      case 3
      have "x \<notin> set (members (cf_io cf) (sv_io ?st) r)"
        using 3 ok_member [OF ok r, of x] y has by (auto simp: reaches_def io member_ok_def)
      then have notin: "x \<notin> ru_id ` set (cl_users (sy_client sy y))" using old by (auto simp: member_ok_def roster_ok_def)
      have eq: "(ru_id u \<noteq> y \<longrightarrow> flags_of st' u) = (ru_id u \<noteq> y \<longrightarrow> flags_of ?st u)" if "u \<in> set (cl_users (sy_client sy y))" for u
        using fl [of u] notin that by (metis imageI)
      show ?thesis using old has by (simp add: 3 others member_ok_def roster_ok_def io modes eq cong: ball_cong)
    qed
  qed
  moreover have "y \<in> ids \<and> cl_id (cl' y) = y \<and> cl_room (cl' y) \<notin> ids \<and> cl_username (cl' y) = so_username s'"
    if "jm_get (sv_sockets st') y = Some s'" for y s'
    using that ok_socket [OF ok, of y] ok_socket [OF ok x] by (cases "y = x") (auto simp: so own others media_now_flags)
  ultimately show ?thesis using ok by (simp add: system_ok_def io)
qed

lemma settled_toggle:
  assumes sy: "sys_settled sy"
  shows "sys_settled (sys_step cf (UToggle x kind b) sy)"
proof (cases "jm_has (sv_sockets (sy_server sy)) x \<and> cl_app (sy_client sy x) = AppRoom")
  case True
  let ?st = "sy_server sy" and ?r = "cl_room (sy_client sy x)"
  from True obtain s where x: "jm_get (sv_sockets ?st) x = Some s" by auto
  have id: "cl_id (sy_client sy x) = x" "?r \<notin> ids" using ok_socket [OF sys_settledD(1) [OF sy] x] by simp_all
  define c where "c = (sy_client sy x)\<lparr>cl_users := map (set_flag x kind b) (cl_users (sy_client sy x))\<rparr>"
  define raw where "raw = Some (JObj [(''roomName'', JStr ?r), (''kind'', JStr kind), (''enabled'', JBool b)])"
  have own: "sys_settled (set_client x c sy)"
  proof -
    have m: "member_ok cf ?st {} r x (sy_client sy x) \<Longrightarrow> member_ok cf ?st {} r x c" for r
      using own_roster [where st' = ?st, OF _ refl] by (simp add: c_def member_ok_def)
    have "cl_id c = cl_id (sy_client sy x) \<and> cl_room c = cl_room (sy_client sy x) \<and> cl_username c = cl_username (sy_client sy x)" by (simp add: c_def)
    then have "ok_sys {} (set_client x c sy)"
      using sys_settledD(1) [OF sy] m unfolding system_ok_def set_client_def by simp
    then show ?thesis using sy by (simp add: sys_settled_def set_client_def)
  qed
  show ?thesis
  proof (cases "?r \<noteq> [] \<and> cf_parse cf MediaStateChangePayload raw \<noteq> None")
    case False
    have "sys_step cf (UToggle x kind b) sy = set_client x c sy \<or> sys_step cf (UToggle x kind b) sy = sys_settle cf (deliver cf (?st, []) (sy_client (set_client x c sy)))"
      using True False x sys_settledD(3) [OF sy x]
      by (auto simp: handleToggle_def c_def id handle_opt_def sys_handle_def sys_act_def handled_ready on_media_state_def raw_def set_client_def)
    then show ?thesis using own settled_deliver_same [OF own, of "[]"] by (auto simp: set_client_def)
  next
    case ok: True
    then obtain data where data: "cf_parse cf MediaStateChangePayload raw = Some data" by auto
    define k where "k = str_of (jget data ''kind'')"
    define en where "en = bool_of (jget data ''enabled'')"
    have d: "str_of (jget data ''roomName'') = ?r" "k = ''video'' \<or> k = ''audio''"
      using media_data [OF data [unfolded raw_def]] by (simp_all add: k_def)
    let ?st' = "?st\<lparr>sv_sockets := jm_set (sv_sockets ?st) x (media_now k en s)\<rparr>"
    let ?out = "[Emit (ToRoomExcept ?r x) ''media state change'' (Plain (JObj [(''userId'', JStr x), (''kind'', JStr k), (''enabled'', JBool en)]))]"
    let ?cl' = "sy_client (deliver cf (?st', ?out) (sy_client (set_client x c sy)))"
    have res: "on_media_state cf x s raw ?st = (?st', ?out)"
      by (simp add: on_media_state_def data Let_def d(1) k_def en_def media_now_def)
    have step: "sys_step cf (UToggle x kind b) sy = sys_settle cf (deliver cf (?st', ?out) (sy_client (set_client x c sy)))"
      using True ok x sys_settledD(3) [OF sy x] res
      by (simp add: handleToggle_def c_def id handle_opt_def sys_handle_def sys_act_def handled_ready raw_def set_client_def)
    have "ok_sys {} \<lparr>sy_server = ?st', sy_client = ?cl'\<rparr>"
    proof (rule ok_toggled [OF sys_settledD(1) [OF sy] x d(2) refl])
      show "?cl' x = (sy_client sy x)\<lparr>cl_users := map (set_flag x kind b) (cl_users (sy_client sy x))\<rparr>"
        by (simp add: deliver_eq hear_media set_client_def c_def reaches_def)
    qed (simp add: deliver_eq hear_media set_client_def)
    then have "sys_settled (deliver cf (?st', ?out) (sy_client (set_client x c sy)))"
      using sys_settledD(2) [OF sy] sys_settledD(3) [OF sy] by (auto simp: sys_settled_def deliver_eq media_now_def)
    with settled_unchanged show ?thesis unfolding step by simp
  qed
qed (use sy in auto)

text \<open>Every action the names allow keeps the invariant.\<close>

lemma settled_step: "names_apart ids a \<Longrightarrow> sys_settled sy \<Longrightarrow> sys_settled (sys_step cf a sy)"
  using settled_connect settled_join settled_create settled_leave settled_toggle settled_disconnect
  by (cases a) (simp_all add: names_apart_def del: sys_step.simps)

lemma settled_run: "\<forall>a \<in> set as. names_apart ids a \<Longrightarrow> sys_settled sy \<Longrightarrow> sys_settled (sys_run cf as sy)"
  unfolding sys_run_def by (induction as arbitrary: sy) (simp_all add: settled_step del: sys_step.simps)

lemma settled_new: "good a \<Longrightarrow> \<forall>r. members (cf_io cf) a r = [] \<Longrightarrow> sys_settled (new_system a)"
  by (simp add: sys_settled_def system_ok_def new_server_def new_system_def)

lemma run_member:
  assumes "good a" "\<forall>r. members (cf_io cf) a r = []" "\<forall>u \<in> set as. names_apart ids u" "r \<notin> ids"
    "x \<in> set (members (cf_io cf) (sv_io (sy_server (sys_run cf as (new_system a)))) r)"
  shows "member_ok cf (sy_server (sys_run cf as (new_system a))) {} r x (sy_client (sys_run cf as (new_system a)) x)"
  using ok_member [OF sys_settledD(1) [OF settled_run [OF assms(3) settled_new [OF assms(1,2)]]] assms(4,5)] by simp

end

section \<open>The rosters\<close>

text \<open>Clients and server with the adapter socket.io keeps in memory and the reference parser.\<close>

lemma zparse_leave: "1 \<le> length r \<Longrightarrow> length r \<le> 128 \<Longrightarrow> zparse LeaveRoomPayload (Some (JStr r)) = Some (Some (JStr r))"
  by (simp add: LeaveRoomPayload_def bounded_string_def)

lemma zparse_enum: "zparse (ZEnum vs) v = Some w \<Longrightarrow> \<exists>k \<in> set vs. w = Some (JStr k)"
  by (auto split: option.splits json.splits if_splits)

definition demo_ids :: "string set" where
  "demo_ids = {''a'', ''b'', ''c''}"

interpretation demo_room: room_clients demo_cf mem_good demo_ids
  by (intro room_clients.intro room_clients_axioms.intro demo.signaling_axioms)
    (simp_all add: demo_cf_def demo_ids_def zod.schema_parser_axioms zparse_leave zparse_enum del: zparse.simps)

definition demo_users :: "user_act list" where
  "demo_users = [UConnect ''a'' None, UConnect ''b'' None, UConnect ''c'' None, UCreate ''a'' ''r'' (Some ''s''), UJoin ''b'' ''r'' (Some ''s''),
     UToggle ''b'' ''video'' False, UJoin ''c'' ''r'' (Some ''s''), UDisconnect ''a'']"

text \<open>
  C7. Whatever the users do, one action after the other, everyone in a room is in it on their own screen too, with a roster that has
  exactly the members of the room, each once, every other member with the name and the camera and microphone flags the server has, and
  with the mode the server has for the room.
\<close>

theorem rosters_agree:
  assumes "room_clients cf good ids" and "good a" "\<forall>r. members (cf_io cf) a r = []"
    and "\<forall>u \<in> set as. names_apart ids u" and "r \<notin> ids"
  defines "sy \<equiv> sys_run cf as (new_system a)"
  assumes "x \<in> set (members (cf_io cf) (sv_io (sy_server sy)) r)"
  shows "cl_app (sy_client sy x) = AppRoom \<and> cl_room (sy_client sy x) = r \<and>
    distinct (map ru_id (cl_users (sy_client sy x))) \<and>
    set (map ru_id (cl_users (sy_client sy x))) = set (members (cf_io cf) (sv_io (sy_server sy)) r) \<and>
    (\<forall>u \<in> set (cl_users (sy_client sy x)). ru_id u \<noteq> x \<longrightarrow> (\<exists>s. jm_get (sv_sockets (sy_server sy)) (ru_id u) = Some s \<and>
       ru_username u = so_username s \<and> ru_video u = video_on s \<and> ru_audio u = audio_on s)) \<and>
    jm_get (sv_modes (sy_server sy)) r = Some (cl_mode (sy_client sy x))"
proof -
  have "member_ok cf (sy_server sy) {} r x (sy_client sy x)"
    using room_clients.run_member [OF assms(1-5), of x] assms(7) by (simp add: sy_def)
  then show ?thesis by (auto simp: member_ok_def roster_ok_def dest: flags_of_socket)
qed

theorem rosters_agree_witness:
  "set (map ru_id (cl_users (sy_client (sys_run demo_cf demo_users (new_system [])) ''c''))) = {''b'', ''c''} \<and>
    map ru_video (cl_users (sy_client (sys_run demo_cf demo_users (new_system [])) ''c'')) = [False, True]"
proof -
  have run: "members (cf_io demo_cf) (sv_io (sy_server (sys_run demo_cf demo_users (new_system [])))) ''r'' = [''b'', ''c'']"
    "map ru_video (cl_users (sy_client (sys_run demo_cf demo_users (new_system [])) ''c'')) = [False, True]"
    by code_simp+
  have "mem_good []" "\<forall>r. members (cf_io demo_cf) [] r = []" "\<forall>u \<in> set demo_users. names_apart demo_ids u"
    by (simp_all add: mem_empty demo_cf_def demo_users_def names_apart_def demo_ids_def)
  from rosters_agree [OF demo_room.room_clients_axioms this, of "''r''" "''c''"] run show ?thesis by (simp add: demo_ids_def)
qed

section \<open>Coming back\<close>

text \<open>
  C39. A client that loses its connection while in a room with a password does not get back: it asks for the room by its bare name,
  the server answers ``Incorrect password'' and changes nothing, and the client goes on showing the room it is not in, with the old roster.
\<close>

theorem reconnect_is_turned_away:
  assumes "cl_room c \<noteq> []" "jm_get (sv_passwords st) (cl_room c) = Some p"
    and "jm_get (sv_sockets st) new_id = Some s" "so_media s = Some m"
    and "cf_parse cf JoinRoomPayload (Some (JStr (cl_room c))) = Some (Some (JStr (cl_room c)))"
  shows "\<exists>c' e out. on_reconnect new_id c = (c', Some e) \<and> act cf e st = (st, out) \<and>
    fold (hear cf st new_id) out c' = c\<lparr>cl_id := new_id, cl_passwordError := Some ''Incorrect password'', cl_pendingJoin := None\<rparr>"
  using assms by (simp add: on_reconnect_def rejoin_event_def handled_def on_join_room_def join_target_def checkRoomPassword_def hear_def reaches_def
    client_recv_def on_join_error_def)

definition demo_back :: "user_act list" where
  "demo_back = [UConnect ''a'' None, UConnect ''b'' None, UCreate ''a'' ''r'' (Some ''s''), UJoin ''b'' ''r'' (Some ''s''), UDisconnect ''b'',
     UConnect ''c'' None]"

theorem reconnect_is_turned_away_witness:
  "(let sy = sys_run demo_cf demo_back (new_system []); c = sy_client sy ''b'' in cl_app c = AppRoom \<and>
     (\<exists>c' e out. on_reconnect ''c'' c = (c', Some e) \<and> act demo_cf e (sy_server sy) = (sy_server sy, out) \<and>
        fold (hear demo_cf (sy_server sy) ''c'') out c' = c\<lparr>cl_id := ''c'', cl_passwordError := Some ''Incorrect password'', cl_pendingJoin := None\<rparr>))"
proof -
  define sy where "sy = sys_run demo_cf demo_back (new_system [])"
  have facts: "cl_app (sy_client sy ''b'') = AppRoom" "cl_room (sy_client sy ''b'') = ''r''" "jm_get (sv_passwords (sy_server sy)) ''r'' = Some ''s''"
    "jm_get (sv_sockets (sy_server sy)) ''c'' = Some \<lparr>so_username = None, so_media = Some (True, True)\<rparr>"
    unfolding sy_def by code_simp+
  have "cf_parse demo_cf JoinRoomPayload (Some (JStr ''r'')) = Some (Some (JStr ''r''))" by code_simp
  with reconnect_is_turned_away [of "sy_client sy ''b''" "sy_server sy" "''s''" "''c''" "\<lparr>so_username = None, so_media = Some (True, True)\<rparr>" "(True, True)" demo_cf] facts
  show ?thesis unfolding Let_def sy_def [symmetric] by simp
qed

end
