(* ===== verification/SfuClient.thy ===== *)
theory SfuClient imports Abr Rooms begin

text \<open>
  The client of the forwarding unit (\<open>lib/sfuClient.ts\<close>, \<open>hooks/useSfu.ts\<close>). The hook is a machine cut at its awaits: its inputs are the
  messages of the server, the renders of the page and the answers to its own calls, its outputs the calls it makes and the objects it closes.
  A consumer and its track are known by the number of the call that made them, since the server gives every consumer an identifier of
  its own; a device by the number of the run that made it.
\<close>

section \<open>Calls\<close>

text \<open>No acknowledgement within eight seconds is \<open>None\<close>; one that comes later is dropped.\<close>

datatype 'd ack = AckOk 'd | AckErr string

definition rpc_result :: "string \<Rightarrow> 'd ack option \<Rightarrow> string + 'd" where
  "rpc_result event a = (case a of None \<Rightarrow> Inl (event @ '' timed out'') | Some (AckOk d) \<Rightarrow> Inr d | Some (AckErr e) \<Rightarrow> Inl (event @ '': '' @ e))"

definition createDevice :: "unit ack option \<Rightarrow> string + unit \<Rightarrow> string + unit" where
  "createDevice caps loaded = rbind (rpc_result ''sfu:get-rtp-capabilities'' caps) (\<lambda>_. loaded)"

text \<open>The identifier of the transport is the one the server gives.\<close>

definition makeTransport :: "string ack option \<Rightarrow> string + unit \<Rightarrow> string + string" where
  "makeTransport params made = rbind (rpc_result ''sfu:create-transport'' params) (\<lambda>i. rbind made (\<lambda>_. Inr i))"

record remote_producer =
  producerSocketId :: string
  producerId :: string

definition consumeProducer :: "unit ack option \<Rightarrow> string + unit \<Rightarrow> unit ack option \<Rightarrow> string + unit" where
  "consumeProducer data local resumed =
    rbind (rpc_result ''sfu:consume'' data) (\<lambda>_. rbind local (\<lambda>_. rbind (rpc_result ''sfu:resume-consumer'' resumed) (\<lambda>_. Inr ())))"

definition listProducers :: "remote_producer list ack option \<Rightarrow> string + remote_producer list" where
  "listProducers a = rpc_result ''sfu:list-producers'' a"

section \<open>State\<close>

record local_track =
  track_id :: string
  is_video :: bool

record produce_encoding =
  pe_rid :: string
  pe_active :: bool
  pe_maxBitrate :: int
  pe_scale :: rat

text \<open>Video goes out in the layers of the bitrate controller, audio as it is.\<close>

definition produce_options :: "local_track \<Rightarrow> produce_encoding list option" where
  "produce_options t = (if is_video t then Some (map (\<lambda>l. \<lparr>pe_rid = spec_rid l, pe_active = True, pe_maxBitrate = initialMaxBitrate l,
     pe_scale = scaleResolutionDownBy l\<rparr>) DEFAULT_LAYERS) else None)"

text \<open>How far a run of the setup is; each waits for the answer to one call.\<close>

datatype init_phase =
    AwaitDevice
  | AwaitSend
  | AwaitRecv string
  | AwaitProduce string local_track "local_track list"
  | AwaitList
  | AwaitConsume nat "remote_producer list"
  | Ended

record init_run =
  run_room :: string
  run_tracks :: "local_track list"
  run_phase :: init_phase
  run_cancelled :: bool

record consume_call =
  call_remote :: remote_producer
  call_done :: bool

record sfu_hook =
  hk_room :: "string option"
  hk_stream :: "(nat \<times> local_track list) option"
  hk_mode :: room_mode
  hk_cipher :: bool
  hk_device :: "nat option"
  hk_send :: "string option"
  hk_recv :: "string option"
  hk_producers :: "(string, string) jmap"
  hk_consumers :: "(nat, string) jmap"
  hk_owners :: "(nat, string) jmap"
  hk_abr :: "string option"
  hk_producerCount :: nat
  hk_consumerCount :: nat
  hk_remoteStreams :: "(string, nat list) jmap"
  hk_runs :: "init_run list"
  hk_calls :: "consume_call list"

datatype hook_out =
    AskDevice nat string
  | AskTransport nat string bool
  | AskProduce string string "produce_encoding list option"
  | AskList nat string
  | AskConsume nat nat string string
  | AskCloseProducer string
  | CloseConsumer nat
  | CloseProducer string
  | CloseTransport string
  | StartAbr string
  | StopAbr
  | TransformSender string
  | TransformReceiver nat

section \<open>Remote streams\<close>

definition addTrackToStream :: "string \<Rightarrow> nat \<Rightarrow> (string, nat list) jmap \<Rightarrow> (string, nat list) jmap" where
  "addTrackToStream s k prev = jm_set prev s ((case jm_get prev s of None \<Rightarrow> [] | Some stream \<Rightarrow> stream) @ [k])"

definition removeTrackFromStream :: "string \<Rightarrow> nat \<Rightarrow> (string, nat list) jmap \<Rightarrow> (string, nat list) jmap" where
  "removeTrackFromStream s k prev = (case jm_get prev s of None \<Rightarrow> prev
     | Some stream \<Rightarrow> if filter (\<lambda>t. t \<noteq> k) stream = [] then jm_del prev s else jm_set prev s (filter (\<lambda>t. t \<noteq> k) stream))"

section \<open>Consuming\<close>

text \<open>Asks for a consumer of the producer; nothing happens before there are a device and a transport to receive on.\<close>

definition can_consume :: "sfu_hook \<Rightarrow> bool" where
  "can_consume h \<longleftrightarrow> hk_room h \<noteq> None \<and> hk_device h \<noteq> None \<and> hk_recv h \<noteq> None"

definition consumeRemote :: "remote_producer \<Rightarrow> sfu_hook \<Rightarrow> sfu_hook \<times> hook_out list" where
  "consumeRemote remote h =
    (case (hk_room h, hk_device h, hk_recv h) of
       (Some r, Some d, Some t) \<Rightarrow> (h\<lparr>hk_calls := hk_calls h @ [\<lparr>call_remote = remote, call_done = False\<rparr>]\<rparr>,
          [AskConsume (length (hk_calls h)) d t (producerId remote)])
     | _ \<Rightarrow> (h, []))"

text \<open>What follows the await, when the consumer is there.\<close>

definition consumed :: "nat \<Rightarrow> sfu_hook \<Rightarrow> sfu_hook \<times> hook_out list" where
  "consumed k h =
    (let remote = call_remote (hk_calls h ! k); cs = jm_set (hk_consumers h) k (producerId remote) in
     (h\<lparr>hk_consumers := cs, hk_owners := jm_set (hk_owners h) k (producerSocketId remote), hk_consumerCount := length cs,
        hk_remoteStreams := addTrackToStream (producerSocketId remote) k (hk_remoteStreams h)\<rparr>,
      if hk_cipher h then [TransformReceiver k] else []))"

text \<open>Dropping a consumer, with its track in the stream of its owner.\<close>

definition drop_consumer :: "nat \<Rightarrow> sfu_hook \<Rightarrow> sfu_hook" where
  "drop_consumer k h =
    h\<lparr>hk_consumers := jm_del (hk_consumers h) k, hk_owners := jm_del (hk_owners h) k,
      hk_remoteStreams := (case jm_get (hk_owners h) k of None \<Rightarrow> hk_remoteStreams h | Some owner \<Rightarrow> removeTrackFromStream owner k (hk_remoteStreams h))\<rparr>"

definition count_consumers :: "sfu_hook \<Rightarrow> sfu_hook" where
  "count_consumers h = h\<lparr>hk_consumerCount := length (hk_consumers h)\<rparr>"

definition onProducerClosed :: "string \<Rightarrow> sfu_hook \<Rightarrow> sfu_hook \<times> hook_out list" where
  "onProducerClosed pid h =
    (let ks = map fst (filter (\<lambda>(k, p). p = pid) (hk_consumers h)) in
     (count_consumers (fold drop_consumer ks h), map CloseConsumer ks))"

definition onConsumerClosed :: "nat \<Rightarrow> sfu_hook \<Rightarrow> sfu_hook \<times> hook_out list" where
  "onConsumerClosed k h =
    (if \<not> jm_has (hk_consumers h) k then (h, []) else (count_consumers (drop_consumer k h), [CloseConsumer k]))"

definition consumer_ended :: "nat \<Rightarrow> sfu_hook \<Rightarrow> sfu_hook" where
  "consumer_ended k h =
    h\<lparr>hk_consumers := jm_del (hk_consumers h) k, hk_owners := jm_del (hk_owners h) k, hk_consumerCount := length (jm_del (hk_consumers h) k),
      hk_remoteStreams := removeTrackFromStream (producerSocketId (call_remote (hk_calls h ! k))) k (hk_remoteStreams h)\<rparr>"

section \<open>Tearing down\<close>

definition stop_abr :: "sfu_hook \<Rightarrow> hook_out list" where
  "stop_abr h = (if hk_abr h = None then [] else [StopAbr])"

definition close_transport :: "string option \<Rightarrow> hook_out list" where
  "close_transport t = (case t of None \<Rightarrow> [] | Some i \<Rightarrow> [CloseTransport i])"

definition teardown :: "sfu_hook \<Rightarrow> sfu_hook \<times> hook_out list" where
  "teardown h =
    (h\<lparr>hk_abr := None, hk_consumers := [], hk_owners := [], hk_producers := [], hk_send := None, hk_recv := None, hk_device := None,
       hk_producerCount := 0, hk_consumerCount := 0, hk_remoteStreams := []\<rparr>,
     stop_abr h @ map CloseConsumer (jm_keys (hk_consumers h)) @ map CloseProducer (jm_keys (hk_producers h))
       @ close_transport (hk_send h) @ close_transport (hk_recv h))"

section \<open>Setting up\<close>

definition set_phase :: "nat \<Rightarrow> init_phase \<Rightarrow> sfu_hook \<Rightarrow> sfu_hook" where
  "set_phase i p h = h\<lparr>hk_runs := (hk_runs h)[i := (hk_runs h ! i)\<lparr>run_phase := p\<rparr>]\<rparr>"

text \<open>Catching up on the producers that are there already, one after the other.\<close>

fun catch_up :: "nat \<Rightarrow> remote_producer list \<Rightarrow> sfu_hook \<Rightarrow> sfu_hook \<times> hook_out list" where
  "catch_up i [] h = (set_phase i Ended h, [])"
| "catch_up i (remote # rest) h =
    (if run_cancelled (hk_runs h ! i) then (set_phase i Ended h, [])
     else if can_consume h then (case consumeRemote remote h of (h', out) \<Rightarrow> (set_phase i (AwaitConsume (length (hk_calls h)) rest) h', out))
     else catch_up i rest h)"

text \<open>Publishing the own tracks, one after the other.\<close>

definition produce_next :: "nat \<Rightarrow> string \<Rightarrow> local_track list \<Rightarrow> sfu_hook \<Rightarrow> sfu_hook \<times> hook_out list" where
  "produce_next i t tracks h =
    (case tracks of
       [] \<Rightarrow> (set_phase i AwaitList h, [AskList i (run_room (hk_runs h ! i))])
     | track # rest \<Rightarrow>
         if run_cancelled (hk_runs h ! i) then (set_phase i Ended h, [])
         else (set_phase i (AwaitProduce t track rest) h, [AskProduce t (track_id track) (produce_options track)]))"

text \<open>The controller is bound when the sender of the track is found in the peer connection under the transport.\<close>

definition attachAbr :: "bool \<Rightarrow> string \<Rightarrow> sfu_hook \<Rightarrow> sfu_hook \<times> hook_out list" where
  "attachAbr found track h = (if \<not> found then (h, []) else (h\<lparr>hk_abr := Some track\<rparr>, stop_abr h @ [StartAbr track]))"

definition produced :: "string \<Rightarrow> bool \<Rightarrow> local_track \<Rightarrow> sfu_hook \<Rightarrow> sfu_hook \<times> hook_out list" where
  "produced pid found track h =
    (let ps = jm_set (hk_producers h) pid (track_id track);
         h1 = h\<lparr>hk_producers := ps, hk_producerCount := length ps\<rparr>;
         sender_out = (if hk_cipher h \<and> found then [TransformSender (track_id track)] else []) in
     if is_video track then (case attachAbr found (track_id track) h1 of (h2, out) \<Rightarrow> (h2, sender_out @ out)) else (h1, sender_out))"

definition then_do :: "sfu_hook \<times> hook_out list \<Rightarrow> (sfu_hook \<Rightarrow> sfu_hook \<times> hook_out list) \<Rightarrow> sfu_hook \<times> hook_out list" where
  "then_do r f = (case r of (h, out) \<Rightarrow> (case f h of (h', out') \<Rightarrow> (h', out @ out')))"

lemma then_do_parts [simp]: "fst (then_do r f) = fst (f (fst r))" "snd (then_do r f) = snd r @ snd (f (fst r))"
  by (simp_all add: then_do_def split: prod.split)

definition got_device :: "nat \<Rightarrow> sfu_hook \<Rightarrow> sfu_hook \<times> hook_out list" where
  "got_device i h = (set_phase i AwaitSend (h\<lparr>hk_device := Some i\<rparr>), [AskTransport i (run_room (hk_runs h ! i)) True])"

definition got_transport :: "nat \<Rightarrow> string \<Rightarrow> sfu_hook \<Rightarrow> sfu_hook \<times> hook_out list" where
  "got_transport i t h =
    (case run_phase (hk_runs h ! i) of
       AwaitSend \<Rightarrow> (set_phase i (AwaitRecv t) (h\<lparr>hk_send := Some t\<rparr>), [AskTransport i (run_room (hk_runs h ! i)) False])
     | AwaitRecv s \<Rightarrow> produce_next i s (run_tracks (hk_runs h ! i)) (h\<lparr>hk_recv := Some t\<rparr>)
     | _ \<Rightarrow> (h, []))"

text \<open>The effect that starts a run, or tears down in mesh mode; a new run cancels the ones before.\<close>

definition cancel_runs :: "sfu_hook \<Rightarrow> sfu_hook" where
  "cancel_runs h = h\<lparr>hk_runs := map (\<lambda>r. r\<lparr>run_cancelled := True\<rparr>) (hk_runs h)\<rparr>"

definition start_init :: "sfu_hook \<Rightarrow> sfu_hook \<times> hook_out list" where
  "start_init h =
    (case hk_room h of None \<Rightarrow> (h, [])
     | Some r \<Rightarrow>
         (case hk_mode h of Mesh \<Rightarrow> teardown h
          | Sfu \<Rightarrow> (case hk_stream h of None \<Rightarrow> (h, [])
              | Some (_, tracks) \<Rightarrow> (h\<lparr>hk_runs := hk_runs h @ [\<lparr>run_room = r, run_tracks = tracks, run_phase = AwaitDevice, run_cancelled = False\<rparr>]\<rparr>,
                  [AskDevice (length (hk_runs h)) r]))))"

definition on_mode :: "string \<Rightarrow> room_mode \<Rightarrow> sfu_hook \<Rightarrow> sfu_hook \<times> hook_out list" where
  "on_mode r m h = (if hk_room h \<noteq> Some r \<or> hk_mode h = m then (h, []) else start_init (cancel_runs (h\<lparr>hk_mode := m\<rparr>)))"

definition on_render :: "string option \<Rightarrow> (nat \<times> local_track list) option \<Rightarrow> sfu_hook \<Rightarrow> sfu_hook \<times> hook_out list" where
  "on_render room stream h =
    (let h1 = h\<lparr>hk_room := room, hk_stream := stream\<rparr> in
     if room \<noteq> hk_room h then then_do (teardown (cancel_runs h1)) start_init
     else if stream \<noteq> hk_stream h then start_init (cancel_runs h1)
     else (h, []))"

section \<open>The machine\<close>

datatype hook_event =
    RoomModeMsg string room_mode
  | Render "string option" "(nat \<times> local_track list) option"
  | DeviceAnswer nat "unit ack option" "string + unit"
  | TransportAnswer nat "string ack option" "string + unit"
  | ProduceAnswer nat "string + string \<times> bool"
  | ListAnswer nat "remote_producer list ack option"
  | ConsumeAnswer nat "unit ack option" "string + unit" "unit ack option"
  | NewProducer remote_producer
  | ProducerClosed string
  | ConsumerClosed nat
  | ConsumerEnded nat
  | ProducerEnded string

definition live_phase :: "nat \<Rightarrow> sfu_hook \<Rightarrow> init_phase" where
  "live_phase i h = (if i < length (hk_runs h) then run_phase (hk_runs h ! i) else Ended)"

text \<open>An answer ends the run when it is an error; otherwise a cancelled run stops where the code tests for it.\<close>

definition init_answer :: "nat \<Rightarrow> string + 'a \<Rightarrow> ('a \<Rightarrow> sfu_hook \<Rightarrow> sfu_hook \<times> hook_out list) \<Rightarrow> sfu_hook \<Rightarrow> sfu_hook \<times> hook_out list" where
  "init_answer i a f h = (case a of Inl e \<Rightarrow> (set_phase i Ended h, [])
     | Inr v \<Rightarrow> if run_cancelled (hk_runs h ! i) then (set_phase i Ended h, []) else f v h)"

definition on_produced :: "nat \<Rightarrow> string + string \<times> bool \<Rightarrow> sfu_hook \<Rightarrow> sfu_hook \<times> hook_out list" where
  "on_produced i a h =
    (case live_phase i h of
       AwaitProduce t track rest \<Rightarrow>
         (case a of Inl e \<Rightarrow> (set_phase i Ended h, [])
          | Inr (pid, found) \<Rightarrow> then_do (produced pid found track h) (produce_next i t rest))
     | _ \<Rightarrow> (h, []))"

text \<open>The run that waits for the consumer goes on, whatever the outcome.\<close>

definition waiting_run :: "nat \<Rightarrow> sfu_hook \<Rightarrow> (nat \<times> remote_producer list) option" where
  "waiting_run k h = (case find (\<lambda>i. case run_phase (hk_runs h ! i) of AwaitConsume k' _ \<Rightarrow> k' = k | _ \<Rightarrow> False) [0..<length (hk_runs h)] of
     None \<Rightarrow> None
   | Some i \<Rightarrow> (case run_phase (hk_runs h ! i) of AwaitConsume _ rest \<Rightarrow> Some (i, rest) | _ \<Rightarrow> None))"

definition on_consumed :: "nat \<Rightarrow> string + unit \<Rightarrow> sfu_hook \<Rightarrow> sfu_hook \<times> hook_out list" where
  "on_consumed k a h =
    (if k < length (hk_calls h) \<and> \<not> call_done (hk_calls h ! k) then
       let h1 = h\<lparr>hk_calls := (hk_calls h)[k := (hk_calls h ! k)\<lparr>call_done := True\<rparr>]\<rparr> in
       then_do (case a of Inl e \<Rightarrow> (h1, []) | Inr _ \<Rightarrow> consumed k h1)
         (\<lambda>h. case waiting_run k h of None \<Rightarrow> (h, []) | Some (i, rest) \<Rightarrow> catch_up i rest h)
     else (h, []))"

definition listening :: "sfu_hook \<Rightarrow> bool" where
  "listening h \<longleftrightarrow> hk_room h \<noteq> None \<and> hk_mode h = Sfu"

fun hook_step :: "hook_event \<Rightarrow> sfu_hook \<Rightarrow> sfu_hook \<times> hook_out list" where
  "hook_step (RoomModeMsg r m) h = on_mode r m h"
| "hook_step (Render room stream) h = on_render room stream h"
| "hook_step (DeviceAnswer i caps loaded) h =
    (if live_phase i h = AwaitDevice then init_answer i (createDevice caps loaded) (\<lambda>_. got_device i) h else (h, []))"
| "hook_step (TransportAnswer i params made) h =
    (case live_phase i h of
       AwaitSend \<Rightarrow> init_answer i (makeTransport params made) (got_transport i) h
     | AwaitRecv _ \<Rightarrow> init_answer i (makeTransport params made) (got_transport i) h
     | _ \<Rightarrow> (h, []))"
| "hook_step (ProduceAnswer i a) h = on_produced i a h"
| "hook_step (ListAnswer i a) h =
    (if live_phase i h = AwaitList then (case listProducers a of Inl e \<Rightarrow> (set_phase i Ended h, []) | Inr ps \<Rightarrow> catch_up i ps h) else (h, []))"
| "hook_step (ConsumeAnswer k data local resumed) h = on_consumed k (consumeProducer data local resumed) h"
| "hook_step (NewProducer remote) h = (if listening h then consumeRemote remote h else (h, []))"
| "hook_step (ProducerClosed pid) h = (if listening h then onProducerClosed pid h else (h, []))"
| "hook_step (ConsumerClosed k) h = (if listening h then onConsumerClosed k h else (h, []))"
| "hook_step (ConsumerEnded k) h = (if k < length (hk_calls h) \<and> call_done (hk_calls h ! k) then (consumer_ended k h, []) else (h, []))"
| "hook_step (ProducerEnded pid) h =
    (h\<lparr>hk_producers := jm_del (hk_producers h) pid, hk_producerCount := length (jm_del (hk_producers h) pid)\<rparr>, [AskCloseProducer pid])"

definition new_hook :: sfu_hook where
  "new_hook = \<lparr>hk_room = None, hk_stream = None, hk_mode = Mesh, hk_cipher = True, hk_device = None, hk_send = None, hk_recv = None,
     hk_producers = [], hk_consumers = [], hk_owners = [], hk_abr = None, hk_producerCount = 0, hk_consumerCount = 0, hk_remoteStreams = [],
     hk_runs = [], hk_calls = []\<rparr>"

definition hook_run :: "hook_event list \<Rightarrow> sfu_hook \<Rightarrow> sfu_hook \<times> hook_out list" where
  "hook_run es h = fold (\<lambda>e r. then_do r (hook_step e)) es (h, [])"

end
