(* ===== verification/SfuClientProps.thy ===== *)
theory SfuClientProps imports SfuClient begin

text \<open>
  Properties of the client of the forwarding unit: what the page shows is what it consumes, the producers found on arrival are all asked
  for, and what happens when answers come late.
\<close>

declare map_of_eq_Some_iff [simp del] Some_eq_map_of_iff [simp del]

section \<open>The invariant\<close>

definition tracks_shown :: "sfu_hook \<Rightarrow> string \<Rightarrow> nat set" where
  "tracks_shown h s = (case jm_get (hk_remoteStreams h) s of None \<Rightarrow> {} | Some stream \<Rightarrow> set stream)"

definition tracks_ok :: "sfu_hook \<Rightarrow> bool" where
  "tracks_ok h \<longleftrightarrow> jm_wf (hk_consumers h) \<and> (\<forall>k. jm_has (hk_consumers h) k \<longleftrightarrow> jm_has (hk_owners h) k) \<and>
    (\<forall>k s. jm_get (hk_owners h) k = Some s \<longrightarrow> k < length (hk_calls h) \<and> call_done (hk_calls h ! k) \<and> producerSocketId (call_remote (hk_calls h ! k)) = s) \<and>
    (\<forall>k p. jm_get (hk_consumers h) k = Some p \<longrightarrow> producerId (call_remote (hk_calls h ! k)) = p) \<and>
    (\<forall>s k. k \<in> tracks_shown h s \<longleftrightarrow> jm_get (hk_owners h) k = Some s) \<and> (\<forall>s. jm_get (hk_remoteStreams h) s \<noteq> Some [])"

definition hook_ok :: "sfu_hook \<Rightarrow> bool" where
  "hook_ok h \<longleftrightarrow> tracks_ok h \<and> hk_consumerCount h = length (hk_consumers h) \<and> hk_producerCount h = length (hk_producers h)"

lemma tracks_ok_cong:
  "hk_consumers h' = hk_consumers h \<Longrightarrow> hk_owners h' = hk_owners h \<Longrightarrow> hk_remoteStreams h' = hk_remoteStreams h \<Longrightarrow> hk_calls h' = hk_calls h
    \<Longrightarrow> tracks_ok h' = tracks_ok h"
  by (simp add: tracks_ok_def tracks_shown_def)

lemma hook_ok_cong:
  "hk_consumers h' = hk_consumers h \<Longrightarrow> hk_owners h' = hk_owners h \<Longrightarrow> hk_remoteStreams h' = hk_remoteStreams h \<Longrightarrow> hk_calls h' = hk_calls h
    \<Longrightarrow> hk_consumerCount h' = hk_consumerCount h \<Longrightarrow> hk_producerCount h' = length (hk_producers h') \<Longrightarrow> hook_ok h \<Longrightarrow> hook_ok h'"
  using tracks_ok_cong [of h' h] by (simp add: hook_ok_def)

lemma tracks_okD:
  assumes "tracks_ok h"
  shows "jm_get (hk_consumers h) k = None \<longleftrightarrow> jm_get (hk_owners h) k = None"
    and "jm_get (hk_owners h) k = Some s \<Longrightarrow> k < length (hk_calls h) \<and> call_done (hk_calls h ! k) \<and> producerSocketId (call_remote (hk_calls h ! k)) = s"
    and "k < length (hk_calls h) \<Longrightarrow> \<not> call_done (hk_calls h ! k) \<Longrightarrow> jm_get (hk_owners h) k = None"
    and "jm_has (hk_owners h) k \<Longrightarrow> jm_get (hk_consumers h) k = Some (producerId (call_remote (hk_calls h ! k)))"
proof -
  show 1: "jm_get (hk_consumers h) k = None \<longleftrightarrow> jm_get (hk_owners h) k = None" using assms unfolding tracks_ok_def by metis
  show 2: "jm_get (hk_owners h) k = Some s \<Longrightarrow> k < length (hk_calls h) \<and> call_done (hk_calls h ! k) \<and> producerSocketId (call_remote (hk_calls h ! k)) = s" for s
    using assms unfolding tracks_ok_def by simp
  show "k < length (hk_calls h) \<Longrightarrow> \<not> call_done (hk_calls h ! k) \<Longrightarrow> jm_get (hk_owners h) k = None"
    using 2 by (cases "jm_get (hk_owners h) k") auto
  show "jm_has (hk_owners h) k \<Longrightarrow> jm_get (hk_consumers h) k = Some (producerId (call_remote (hk_calls h ! k)))"
    using 1 assms unfolding tracks_ok_def by (cases "jm_get (hk_consumers h) k") auto
qed

lemma shown_add: "k' \<in> (case jm_get (addTrackToStream s k m) s' of None \<Rightarrow> {} | Some ts \<Rightarrow> set ts) \<longleftrightarrow>
    k' \<in> (case jm_get m s' of None \<Rightarrow> {} | Some ts \<Rightarrow> set ts) \<or> s' = s \<and> k' = k"
  by (auto simp: addTrackToStream_def split: option.splits)

lemma shown_remove: "k' \<in> (case jm_get (removeTrackFromStream s k m) s' of None \<Rightarrow> {} | Some ts \<Rightarrow> set ts) \<longleftrightarrow>
    k' \<in> (case jm_get m s' of None \<Rightarrow> {} | Some ts \<Rightarrow> set ts) \<and> (s' = s \<longrightarrow> k' \<noteq> k)"
  by (auto simp: removeTrackFromStream_def filter_empty_conv split: option.splits)

lemma add_not_empty: "(\<forall>s. jm_get m s \<noteq> Some []) \<Longrightarrow> jm_get (addTrackToStream s k m) s' \<noteq> Some []"
  by (simp add: addTrackToStream_def)

lemma remove_not_empty: "(\<forall>s. jm_get m s \<noteq> Some []) \<Longrightarrow> jm_get (removeTrackFromStream s k m) s' \<noteq> Some []"
  by (simp add: removeTrackFromStream_def split: option.splits)

lemma tracks_ok_drop: "tracks_ok h \<Longrightarrow> tracks_ok (drop_consumer k h)"
proof -
  assume ok: "tracks_ok h"
  show ?thesis
  proof (cases "jm_get (hk_owners h) k")
    case None
    with tracks_okD(1) [OF ok] have "jm_get (hk_consumers h) k = None" by simp
    with ok None show ?thesis by (auto simp: tracks_ok_def drop_consumer_def tracks_shown_def)
  next
    case (Some s)
    with ok show ?thesis unfolding tracks_ok_def drop_consumer_def tracks_shown_def
      by (auto simp: shown_remove remove_not_empty split: if_splits)
  qed
qed

lemma drop_rest [simp]:
  "hk_calls (drop_consumer k h) = hk_calls h" "hk_producerCount (drop_consumer k h) = hk_producerCount h"
  "hk_producers (drop_consumer k h) = hk_producers h"
  by (simp_all add: drop_consumer_def)

lemma fold_drop:
  "tracks_ok h \<Longrightarrow> tracks_ok (fold drop_consumer ks h) \<and> hk_producerCount (fold drop_consumer ks h) = hk_producerCount h \<and>
    hk_producers (fold drop_consumer ks h) = hk_producers h"
  by (induction ks arbitrary: h) (auto simp: tracks_ok_drop)

lemma count_ok: "tracks_ok h \<Longrightarrow> hk_producerCount h = length (hk_producers h) \<Longrightarrow> hook_ok (count_consumers h)"
  by (simp add: hook_ok_def count_consumers_def tracks_ok_cong [of "h\<lparr>hk_consumerCount := _\<rparr>" h])

lemma consumer_ended_ok: "hook_ok h \<Longrightarrow> k < length (hk_calls h) \<Longrightarrow> hook_ok (consumer_ended k h)"
proof -
  assume ok: "hook_ok h" and "k < length (hk_calls h)"
  let ?s = "producerSocketId (call_remote (hk_calls h ! k))"
  have "tracks_ok (consumer_ended k h)"
    using ok unfolding hook_ok_def tracks_ok_def consumer_ended_def tracks_shown_def
    by (auto simp: shown_remove remove_not_empty split: if_splits)
  then show ?thesis using ok by (simp add: hook_ok_def consumer_ended_def)
qed

lemma tracks_ok_add:
  assumes ok: "tracks_ok h" and k: "k < length (hk_calls h)" "call_done (hk_calls h ! k)" "jm_get (hk_owners h) k = None"
  shows "tracks_ok (fst (consumed k h))"
proof -
  have cnew: "jm_get (hk_consumers h) k = None" using tracks_okD(1) [OF ok] k by simp
  show ?thesis using ok k cnew unfolding tracks_ok_def consumed_def Let_def tracks_shown_def fst_conv
    by (intro conjI) (simp_all add: shown_add add_not_empty, auto)
qed

lemma consumed_ok:
  assumes "hook_ok h" and k: "k < length (hk_calls h)" "\<not> call_done (hk_calls h ! k)"
  defines "h1 \<equiv> h\<lparr>hk_calls := (hk_calls h)[k := (hk_calls h ! k)\<lparr>call_done := True\<rparr>]\<rparr>"
  shows "hook_ok h1" "hook_ok (fst (consumed k h1))"
proof -
  have new: "jm_get (hk_owners h) k = None" using assms(1) tracks_okD(3) [OF _ k] by (simp add: hook_ok_def)
  have call: "hk_calls h1 ! j = (if j = k then (hk_calls h ! k)\<lparr>call_done := True\<rparr> else hk_calls h ! j)" if "j < length (hk_calls h)" for j
    using that by (simp add: h1_def nth_list_update)
  have rest: "length (hk_calls h1) = length (hk_calls h)" "hk_consumers h1 = hk_consumers h" "hk_owners h1 = hk_owners h"
    "hk_remoteStreams h1 = hk_remoteStreams h" "hk_producerCount h1 = hk_producerCount h" "hk_producers h1 = hk_producers h"
    "hk_consumerCount h1 = hk_consumerCount h" by (simp_all add: h1_def)
  have in_calls: "jm_get (hk_consumers h) j = Some p \<Longrightarrow> j < length (hk_calls h)" for j p
    using assms(1) tracks_okD(1,2) [of h j] unfolding hook_ok_def by (cases "jm_get (hk_owners h) j") auto
  have t1: "tracks_ok h1"
    using assms(1) call in_calls unfolding hook_ok_def tracks_ok_def tracks_shown_def rest by (auto split: if_splits)
  then show ok1: "hook_ok h1" using assms(1) by (simp add: hook_ok_def rest)
  have "tracks_ok (fst (consumed k h1))"
    by (rule tracks_ok_add [OF t1]) (use k new call rest in auto)
  then show "hook_ok (fst (consumed k h1))" using ok1 by (simp add: hook_ok_def consumed_def Let_def)
qed

section \<open>Every step keeps it\<close>

lemma set_phase_rest [simp]:
  "hk_mode (set_phase i p h) = hk_mode h" "hk_consumers (set_phase i p h) = hk_consumers h" "hk_remoteStreams (set_phase i p h) = hk_remoteStreams h"
  "hk_consumerCount (set_phase i p h) = hk_consumerCount h" "hk_calls (set_phase i p h) = hk_calls h" "hk_room (set_phase i p h) = hk_room h"
  "hk_device (set_phase i p h) = hk_device h" "hk_recv (set_phase i p h) = hk_recv h" "hk_send (set_phase i p h) = hk_send h"
  "length (hk_runs (set_phase i p h)) = length (hk_runs h)"
  by (simp_all add: set_phase_def)

named_theorems hook_oks

lemma set_phase_ok [hook_oks]: "hook_ok h \<Longrightarrow> hook_ok (set_phase i p h)"
  by (rule hook_ok_cong [of _ h]) (simp_all add: set_phase_def hook_ok_def)

lemma cancel_ok [hook_oks]: "hook_ok h \<Longrightarrow> hook_ok (cancel_runs h)"
  by (rule hook_ok_cong [of _ h]) (simp_all add: cancel_runs_def hook_ok_def)

lemma teardown_ok [hook_oks]: "hook_ok (fst (teardown h))"
  by (simp add: hook_ok_def tracks_ok_def teardown_def tracks_shown_def)

lemma tracks_ok_call: 
  assumes ok: "tracks_ok h"
  shows "tracks_ok (h\<lparr>hk_calls := hk_calls h @ [c]\<rparr>)"
proof -
  have same: "(hk_calls h @ [c]) ! k = hk_calls h ! k" if "jm_has (hk_owners h) k" for k
    using that tracks_okD(2) [OF ok, of k] by (auto simp: nth_append)
  have sameC: "(hk_calls h @ [c]) ! k = hk_calls h ! k" if "jm_has (hk_consumers h) k" for k
    by (rule same) (use that tracks_okD(1) [OF ok, of k] in simp)
  show ?thesis using ok unfolding tracks_ok_def tracks_shown_def
    by (simp add: same sameC) (auto simp: less_Suc_eq)
qed

lemma consumeRemote_ok [hook_oks]: "hook_ok h \<Longrightarrow> hook_ok (fst (consumeRemote remote h))"
  by (auto simp: consumeRemote_def hook_ok_def tracks_ok_call split: option.splits)

lemma catch_up_ok [hook_oks]: "hook_ok h \<Longrightarrow> hook_ok (fst (catch_up i rs h))"
proof (induction i rs h rule: catch_up.induct)
  case (2 i remote rest h)
  then show ?case using consumeRemote_ok [OF "2.prems", of remote] by (auto simp: hook_oks split_beta)
qed (simp add: hook_oks)

lemma produce_next_ok [hook_oks]: "hook_ok h \<Longrightarrow> hook_ok (fst (produce_next i t ts h))"
  by (simp add: produce_next_def hook_oks split: list.split)

lemma produced_ok [hook_oks]: "hook_ok h \<Longrightarrow> hook_ok (fst (produced pid found track h))"
  by (rule hook_ok_cong [of _ h]) (simp_all add: produced_def attachAbr_def Let_def)

lemma then_do_ok [hook_oks]: "hook_ok (fst r) \<Longrightarrow> (\<And>h. hook_ok h \<Longrightarrow> hook_ok (fst (f h))) \<Longrightarrow> hook_ok (fst (then_do r f))"
  by simp

lemma got_device_ok [hook_oks]: "hook_ok h \<Longrightarrow> hook_ok (fst (got_device i h))"
  unfolding got_device_def fst_conv by (rule set_phase_ok, rule hook_ok_cong [of _ h]) (simp_all add: hook_ok_def)

lemma refs_ok [hook_oks]:
  "hook_ok h \<Longrightarrow> hook_ok (h\<lparr>hk_send := a\<rparr>)" "hook_ok h \<Longrightarrow> hook_ok (h\<lparr>hk_recv := a\<rparr>)" "hook_ok h \<Longrightarrow> hook_ok (h\<lparr>hk_mode := m\<rparr>)"
  "hook_ok h \<Longrightarrow> hook_ok (h\<lparr>hk_room := r, hk_stream := st\<rparr>)" "hook_ok h \<Longrightarrow> hook_ok (h\<lparr>hk_runs := rs\<rparr>)"
  "hook_ok h \<Longrightarrow> hook_ok (h\<lparr>hk_stream := st\<rparr>)"
  by (rule hook_ok_cong [of _ h]; simp add: hook_ok_def)+

lemma got_transport_ok [hook_oks]: "hook_ok h \<Longrightarrow> hook_ok (fst (got_transport i t h))"
  by (auto simp: got_transport_def hook_oks split: init_phase.split)

lemma start_init_ok [hook_oks]: "hook_ok h \<Longrightarrow> hook_ok (fst (start_init h))"
  by (auto simp: start_init_def hook_oks split: option.split room_mode.split)

lemma init_answer_ok [hook_oks]: "hook_ok h \<Longrightarrow> (\<And>v h. hook_ok h \<Longrightarrow> hook_ok (fst (f v h))) \<Longrightarrow> hook_ok (fst (init_answer i a f h))"
  by (auto simp: init_answer_def hook_oks split: sum.split)

lemma on_consumed_ok [hook_oks]:
  assumes "hook_ok h"
  shows "hook_ok (fst (on_consumed k a h))"
proof (cases "k < length (hk_calls h) \<and> \<not> call_done (hk_calls h ! k)")
  case True
  with consumed_ok [OF assms, of k] show ?thesis unfolding on_consumed_def Let_def
    by (simp split: sum.split) (intro conjI impI allI then_do_ok; simp add: hook_oks split: option.split prod.split)
qed (use assms in \<open>auto simp: on_consumed_def\<close>)

lemma hook_step_ok: "hook_ok h \<Longrightarrow> hook_ok (fst (hook_step e h))"
proof (cases e)
  case (Render room stream)
  then show "hook_ok h \<Longrightarrow> ?thesis" by (simp add: on_render_def Let_def hook_oks)
next
  case (ProducerClosed pid)
  then show "hook_ok h \<Longrightarrow> ?thesis" using fold_drop [of h] by (auto simp: onProducerClosed_def Let_def hook_ok_def intro!: count_ok [unfolded hook_ok_def])
next
  case (ConsumerClosed k)
  then show "hook_ok h \<Longrightarrow> ?thesis" using tracks_ok_drop [of h k] count_ok [of "drop_consumer k h"] by (auto simp: onConsumerClosed_def hook_ok_def)
next
  case (ProducerEnded pid)
  then show "hook_ok h \<Longrightarrow> ?thesis" using hook_ok_cong [of "fst (hook_step e h)" h] by simp
qed (auto simp: on_mode_def on_produced_def hook_oks consumer_ended_ok split: init_phase.split sum.split)

interpretation hook: event_machine "\<lambda>e h. fst (hook_step e h)" hook_ok
  by unfold_locales (rule hook_step_ok)

lemma hook_run_fst: "fst (fold (\<lambda>e r. then_do r (hook_step e)) es r) = fold (\<lambda>e h. fst (hook_step e h)) es (fst r)"
  by (induction es arbitrary: r) simp_all

lemma new_hook_ok: "hook_ok new_hook"
  by (simp add: hook_ok_def tracks_ok_def new_hook_def tracks_shown_def)

lemma hook_run_ok: "hook_ok (fst (hook_run es new_hook))"
  unfolding hook_run_def hook_run_fst fst_conv by (rule hook.run_good [OF new_hook_ok])

text \<open>
  C15. Whatever happens, in whatever order messages and answers come: the counters are the numbers of producers and consumers, every
  remote stream has a track, and the tracks shown for a peer are exactly those of the consumers the hook holds for that peer's producers.
\<close>

theorem streams_match_consumers:
  fixes es :: "hook_event list"
  defines "h \<equiv> fst (hook_run es new_hook)"
  shows "hk_producerCount h = length (hk_producers h) \<and> hk_consumerCount h = length (hk_consumers h) \<and>
    jm_get (hk_remoteStreams h) s \<noteq> Some [] \<and>
    (k \<in> set (case jm_get (hk_remoteStreams h) s of None \<Rightarrow> [] | Some stream \<Rightarrow> stream) \<longleftrightarrow>
      jm_has (hk_consumers h) k \<and> producerSocketId (call_remote (hk_calls h ! k)) = s \<and>
      jm_get (hk_consumers h) k = Some (producerId (call_remote (hk_calls h ! k))))"
proof -
  have ok: "hook_ok h" unfolding h_def by (rule hook_run_ok)
  then have t: "tracks_ok h" and counts: "hk_producerCount h = length (hk_producers h) \<and> hk_consumerCount h = length (hk_consumers h)" by (simp_all add: hook_ok_def)
  have "k \<in> set (case jm_get (hk_remoteStreams h) s of None \<Rightarrow> [] | Some stream \<Rightarrow> stream) \<longleftrightarrow> k \<in> tracks_shown h s"
    by (simp add: tracks_shown_def split: option.split)
  also have "\<dots> \<longleftrightarrow> jm_get (hk_owners h) k = Some s" using t by (simp add: tracks_ok_def)
  also have "\<dots> \<longleftrightarrow> jm_has (hk_consumers h) k \<and> producerSocketId (call_remote (hk_calls h ! k)) = s"
    using tracks_okD(1,2) [OF t, of k] by (cases "jm_get (hk_owners h) k") auto
  finally have in_stream: "k \<in> set (case jm_get (hk_remoteStreams h) s of None \<Rightarrow> [] | Some stream \<Rightarrow> stream) \<longleftrightarrow>
      jm_has (hk_consumers h) k \<and> producerSocketId (call_remote (hk_calls h ! k)) = s" .
  have "jm_has (hk_consumers h) k \<Longrightarrow> jm_get (hk_consumers h) k = Some (producerId (call_remote (hk_calls h ! k)))"
    using tracks_okD(1,4) [OF t, of k] by simp
  moreover have "jm_get (hk_remoteStreams h) s \<noteq> Some []" using t by (simp add: tracks_ok_def)
  ultimately show ?thesis using counts in_stream by blast
qed

text \<open>A run waits for a call that has been made, and for one that no other run waits for.\<close>

definition waits_for :: "sfu_hook \<Rightarrow> nat \<Rightarrow> nat option" where
  "waits_for h i = (case run_phase (hk_runs h ! i) of AwaitConsume k _ \<Rightarrow> Some k | _ \<Rightarrow> None)"

definition waits_ok :: "sfu_hook \<Rightarrow> bool" where
  "waits_ok h \<longleftrightarrow> (\<forall>i < length (hk_runs h). \<forall>k. waits_for h i = Some k \<longrightarrow> k < length (hk_calls h))"

named_theorems waits_oks

lemma waits_ok_keep [waits_oks]:
  "waits_ok h \<Longrightarrow> hk_runs h' = hk_runs h \<Longrightarrow> length (hk_calls h) \<le> length (hk_calls h') \<Longrightarrow> waits_ok h'"
  by (fastforce simp: waits_ok_def waits_for_def)

lemma waits_ok_phase:
  "waits_ok h \<Longrightarrow> (\<forall>k rest. p = AwaitConsume k rest \<longrightarrow> k < length (hk_calls h)) \<Longrightarrow> waits_ok (set_phase i p h)"
  unfolding waits_ok_def
proof (intro allI impI)
  fix j k assume ok: "\<forall>i < length (hk_runs h). \<forall>k. waits_for h i = Some k \<longrightarrow> k < length (hk_calls h)"
    and p: "\<forall>k rest. p = AwaitConsume k rest \<longrightarrow> k < length (hk_calls h)"
    and j: "j < length (hk_runs (set_phase i p h))" "waits_for (set_phase i p h) j = Some k"
  show "k < length (hk_calls (set_phase i p h))"
  proof (cases "j = i")
    case True
    with j p show ?thesis by (cases p) (auto simp: waits_for_def set_phase_def)
  next
    case False
    with j ok show ?thesis by (auto simp: waits_for_def set_phase_def)
  qed
qed

lemma waits_ok_phases [waits_oks]:
  "waits_ok h \<Longrightarrow> waits_ok (set_phase i Ended h)" "waits_ok h \<Longrightarrow> waits_ok (set_phase i AwaitList h)" "waits_ok h \<Longrightarrow> waits_ok (set_phase i AwaitSend h)"
  "waits_ok h \<Longrightarrow> waits_ok (set_phase i (AwaitRecv t) h)" "waits_ok h \<Longrightarrow> waits_ok (set_phase i (AwaitProduce t x xs) h)"
  by (simp_all add: waits_ok_phase)

lemma waits_ok_refs [waits_oks]:
  "waits_ok h \<Longrightarrow> waits_ok (h\<lparr>hk_send := a\<rparr>)" "waits_ok h \<Longrightarrow> waits_ok (h\<lparr>hk_recv := a\<rparr>)" "waits_ok h \<Longrightarrow> waits_ok (h\<lparr>hk_device := d\<rparr>)"
  "waits_ok h \<Longrightarrow> waits_ok (h\<lparr>hk_mode := m\<rparr>)" "waits_ok h \<Longrightarrow> waits_ok (h\<lparr>hk_room := r, hk_stream := st\<rparr>)" "waits_ok h \<Longrightarrow> waits_ok (h\<lparr>hk_stream := st\<rparr>)"
  by (rule waits_ok_keep [of h]; simp)+

lemma waits_ok_catch_up [waits_oks]: "waits_ok h \<Longrightarrow> waits_ok (fst (catch_up i rs h))"
proof (induction i rs h rule: catch_up.induct)
  case (2 i remote rest h)
  have "waits_ok (set_phase i (AwaitConsume (length (hk_calls h)) rest) (fst (consumeRemote remote h)))" if "can_consume h"
    by (rule waits_ok_phase, rule waits_ok_keep [OF "2.prems"]) (use that in \<open>auto simp: consumeRemote_def can_consume_def\<close>)
  with 2 show ?case by (auto simp: waits_oks split_beta)
qed (simp add: waits_oks)

lemma waits_ok_produce_next [waits_oks]: "waits_ok h \<Longrightarrow> waits_ok (fst (produce_next i t ts h))"
  by (simp add: produce_next_def waits_oks split: list.split)

lemma waits_ok_teardown [waits_oks]: "waits_ok h \<Longrightarrow> waits_ok (fst (teardown h))"
  by (rule waits_ok_keep [of h]) (simp_all add: teardown_def)

lemma waits_ok_start [waits_oks]: "waits_ok h \<Longrightarrow> waits_ok (fst (start_init h))"
  by (auto simp: start_init_def waits_oks split: option.split room_mode.split)
    (auto simp: waits_ok_def waits_for_def nth_append)

lemma waits_ok_cancel [waits_oks]: "waits_ok h \<Longrightarrow> waits_ok (cancel_runs h)"
  by (simp add: waits_ok_def waits_for_def cancel_runs_def)

lemma produced_runs [simp]: "hk_runs (fst (produced pid found track h)) = hk_runs h" "hk_calls (fst (produced pid found track h)) = hk_calls h"
  by (simp_all add: produced_def attachAbr_def Let_def)

lemma fold_drop_runs: "hk_runs (fold drop_consumer ks h) = hk_runs h \<and> hk_calls (fold drop_consumer ks h) = hk_calls h"
  by (induction ks arbitrary: h) (simp_all add: drop_consumer_def)

lemma waits_ok_init_answer: "waits_ok h \<Longrightarrow> (\<And>v. waits_ok (fst (f v h))) \<Longrightarrow> waits_ok (fst (init_answer i a f h))"
  by (auto simp: init_answer_def waits_oks split: sum.split)

lemma waits_ok_on_consumed: "waits_ok h \<Longrightarrow> waits_ok (fst (on_consumed k a h))"
proof -
  assume ok: "waits_ok h"
  define h1 where "h1 = h\<lparr>hk_calls := (hk_calls h)[k := (hk_calls h ! k)\<lparr>call_done := True\<rparr>]\<rparr>"
  define r where "r = (case a of Inl e \<Rightarrow> (h1, []) | Inr _ \<Rightarrow> consumed k h1)"
  have "waits_ok (fst r)" by (rule waits_ok_keep [OF ok]) (auto simp: r_def h1_def consumed_def Let_def split: sum.split)
  then show ?thesis using ok unfolding on_consumed_def Let_def h1_def [symmetric] r_def [symmetric]
    by (auto simp: waits_oks split: prod.splits option.splits)
qed

lemma waits_ok_step: "waits_ok h \<Longrightarrow> waits_ok (fst (hook_step e h))"
proof (cases e)
  case (DeviceAnswer i caps loaded)
  have "waits_ok h \<Longrightarrow> waits_ok (fst (got_device i h))" by (simp add: got_device_def waits_oks)
  with DeviceAnswer show "waits_ok h \<Longrightarrow> ?thesis" by (simp add: waits_ok_init_answer)
next
  case (TransportAnswer i params made)
  have "waits_ok h \<Longrightarrow> waits_ok (fst (got_transport i t h))" for t
    by (simp add: got_transport_def waits_oks split: init_phase.split)
  with TransportAnswer show "waits_ok h \<Longrightarrow> ?thesis" by (simp add: waits_ok_init_answer split: init_phase.split)
next
  case (ProduceAnswer i a)
  have "waits_ok h \<Longrightarrow> waits_ok (fst (produced pid found track h))" for pid found track by (rule waits_ok_keep [of h]) simp_all
  with ProduceAnswer show "waits_ok h \<Longrightarrow> ?thesis"
    by (auto simp: on_produced_def waits_oks split: init_phase.split sum.split)
next
  case (ConsumeAnswer k data local resumed)
  then show "waits_ok h \<Longrightarrow> ?thesis" using waits_ok_on_consumed by simp
next
  case (Render room stream)
  then show "waits_ok h \<Longrightarrow> ?thesis" by (simp add: on_render_def Let_def waits_oks)
next
  case (RoomModeMsg r m)
  then show "waits_ok h \<Longrightarrow> ?thesis" by (simp add: on_mode_def waits_oks)
next
  case (NewProducer p)
  then show "waits_ok h \<Longrightarrow> ?thesis" by (auto simp: consumeRemote_def intro: waits_ok_keep split: option.split)
next
  case (ProducerClosed pid)
  then show "waits_ok h \<Longrightarrow> ?thesis" by (auto simp: onProducerClosed_def count_consumers_def Let_def fold_drop_runs intro: waits_ok_keep)
qed (auto simp: waits_oks onConsumerClosed_def count_consumers_def drop_consumer_def consumer_ended_def intro: waits_ok_keep split: sum.split)

interpretation hook_waits: event_machine "\<lambda>e h. fst (hook_step e h)" waits_ok
  by unfold_locales (rule waits_ok_step)

lemma new_hook_waits: "waits_ok new_hook"
  by (simp add: waits_ok_def new_hook_def)

text \<open>A run that is not cancelled is the last one; its room is the current one, and what it made is still there.\<close>

definition run_ready :: "sfu_hook \<Rightarrow> init_phase \<Rightarrow> bool" where
  "run_ready h p \<longleftrightarrow> (case p of AwaitDevice \<Rightarrow> True | Ended \<Rightarrow> True | AwaitSend \<Rightarrow> hk_device h \<noteq> None | AwaitRecv _ \<Rightarrow> hk_device h \<noteq> None
     | _ \<Rightarrow> hk_device h \<noteq> None \<and> hk_recv h \<noteq> None)"

definition live_ok :: "sfu_hook \<Rightarrow> bool" where
  "live_ok h \<longleftrightarrow> (\<forall>i < length (hk_runs h). \<not> run_cancelled (hk_runs h ! i) \<longrightarrow>
     Suc i = length (hk_runs h) \<and> hk_room h \<noteq> None \<and> hk_mode h = Sfu \<and> run_ready h (run_phase (hk_runs h ! i)))"

lemma run_ready_keep:
  "run_ready h p \<Longrightarrow> (hk_device h \<noteq> None \<Longrightarrow> hk_device h' \<noteq> None) \<Longrightarrow> (hk_recv h \<noteq> None \<Longrightarrow> hk_recv h' \<noteq> None) \<Longrightarrow> run_ready h' p"
  by (cases p) (auto simp: run_ready_def)

lemma live_ok_keep:
  assumes "live_ok h" "hk_runs h' = hk_runs h" "hk_room h' = hk_room h" "hk_mode h' = hk_mode h"
    "hk_device h \<noteq> None \<Longrightarrow> hk_device h' \<noteq> None" "hk_recv h \<noteq> None \<Longrightarrow> hk_recv h' \<noteq> None"
  shows "live_ok h'"
  unfolding live_ok_def assms(2-4)
proof (intro allI impI)
  fix i assume "i < length (hk_runs h)" "\<not> run_cancelled (hk_runs h ! i)"
  with assms(1) have "Suc i = length (hk_runs h)" "hk_room h \<noteq> None" "hk_mode h = Sfu" "run_ready h (run_phase (hk_runs h ! i))"
    by (simp_all add: live_ok_def)
  with run_ready_keep [OF this(4) assms(5,6)]
  show "Suc i = length (hk_runs h) \<and> hk_room h \<noteq> None \<and> hk_mode h = Sfu \<and> run_ready h' (run_phase (hk_runs h ! i))" by blast
qed

lemma live_ok_phase: "live_ok h \<Longrightarrow> run_ready h p \<or> run_cancelled (hk_runs h ! i) \<Longrightarrow> live_ok (set_phase i p h)"
  unfolding live_ok_def
proof (intro allI impI)
  fix j assume ok: "\<forall>i < length (hk_runs h). \<not> run_cancelled (hk_runs h ! i) \<longrightarrow>
     Suc i = length (hk_runs h) \<and> hk_room h \<noteq> None \<and> hk_mode h = Sfu \<and> run_ready h (run_phase (hk_runs h ! i))"
    and p: "run_ready h p \<or> run_cancelled (hk_runs h ! i)"
    and j: "j < length (hk_runs (set_phase i p h))" "\<not> run_cancelled (hk_runs (set_phase i p h) ! j)"
  have r: "run_ready (set_phase i p h) q = run_ready h q" for q by (simp add: run_ready_def set_phase_def split: init_phase.split)
  show "Suc j = length (hk_runs (set_phase i p h)) \<and> hk_room (set_phase i p h) \<noteq> None \<and> hk_mode (set_phase i p h) = Sfu \<and>
      run_ready (set_phase i p h) (run_phase (hk_runs (set_phase i p h) ! j))"
    unfolding r using ok p j by (cases "j = i") (auto simp: set_phase_def)
qed

lemma live_ok_Ended: "live_ok h \<Longrightarrow> live_ok (set_phase i Ended h)"
  by (simp add: live_ok_phase run_ready_def)

lemma live_ok_catch_up: "live_ok h \<Longrightarrow> live_ok (fst (catch_up i rs h))"
proof (induction i rs h rule: catch_up.induct)
  case (2 i remote rest h)
  have "live_ok (set_phase i (AwaitConsume (length (hk_calls h)) rest) (fst (consumeRemote remote h)))" if "can_consume h"
    by (rule live_ok_phase, rule live_ok_keep [OF "2.prems"]) (use that in \<open>auto simp: consumeRemote_def can_consume_def run_ready_def\<close>)
  with 2 show ?case by (auto simp: live_ok_Ended split_beta)
qed (simp add: live_ok_Ended)

lemma live_ok_produce_next:
  "live_ok h \<Longrightarrow> run_cancelled (hk_runs h ! i) \<or> hk_device h \<noteq> None \<and> hk_recv h \<noteq> None \<Longrightarrow> live_ok (fst (produce_next i t ts h))"
  by (auto simp: produce_next_def live_ok_Ended run_ready_def intro!: live_ok_phase split: list.split)

lemma live_ok_cancelled:
  assumes "\<forall>r \<in> set (hk_runs h). run_cancelled r"
  shows "live_ok (fst (start_init h))"
proof -
  have same: "live_ok h'" if "hk_runs h' = hk_runs h" for h' using assms that by (auto simp: live_ok_def)
  have new: "live_ok (h\<lparr>hk_runs := hk_runs h @ [\<lparr>run_room = r, run_tracks = ts, run_phase = AwaitDevice, run_cancelled = False\<rparr>]\<rparr>)"
    if "hk_room h = Some r" "hk_mode h = Sfu" for r ts
  proof -
    have "run_cancelled (hk_runs h ! i)" if "i < length (hk_runs h)" for i using assms that by auto
    with that show ?thesis by (simp add: live_ok_def run_ready_def nth_append)
  qed
  show ?thesis by (auto simp: start_init_def same new teardown_def split: option.split room_mode.split)
qed

lemma live_ok_on_consumed: "live_ok h \<Longrightarrow> live_ok (fst (on_consumed k a h))"
proof -
  assume ok: "live_ok h"
  define h1 where "h1 = h\<lparr>hk_calls := (hk_calls h)[k := (hk_calls h ! k)\<lparr>call_done := True\<rparr>]\<rparr>"
  define r where "r = (case a of Inl e \<Rightarrow> (h1, []) | Inr _ \<Rightarrow> consumed k h1)"
  have "live_ok (fst r)" by (rule live_ok_keep [OF ok]) (auto simp: r_def h1_def consumed_def Let_def split: sum.split)
  then show ?thesis using ok unfolding on_consumed_def Let_def h1_def [symmetric] r_def [symmetric]
    by (auto simp: live_ok_catch_up split: option.splits)
qed

lemma produced_refs [simp]:
  "hk_room (fst (produced pid found track h)) = hk_room h" "hk_mode (fst (produced pid found track h)) = hk_mode h"
  "hk_device (fst (produced pid found track h)) = hk_device h" "hk_recv (fst (produced pid found track h)) = hk_recv h"
  by (simp_all add: produced_def attachAbr_def Let_def)

lemma fold_drop_refs:
  "hk_room (fold drop_consumer ks h) = hk_room h \<and> hk_mode (fold drop_consumer ks h) = hk_mode h \<and> hk_device (fold drop_consumer ks h) = hk_device h
    \<and> hk_recv (fold drop_consumer ks h) = hk_recv h"
  by (induction ks arbitrary: h) (simp_all add: drop_consumer_def)

lemma live_phaseD: "live_phase i h = p \<Longrightarrow> p \<noteq> Ended \<Longrightarrow> i < length (hk_runs h) \<and> run_phase (hk_runs h ! i) = p"
  by (auto simp: live_phase_def split: if_splits)

lemma live_ok_init_answer:
  "live_ok h \<Longrightarrow> (\<And>v. \<not> run_cancelled (hk_runs h ! i) \<Longrightarrow> live_ok (fst (f v h))) \<Longrightarrow> live_ok (fst (init_answer i a f h))"
  by (auto simp: init_answer_def live_ok_Ended split: sum.split)

lemma live_ok_step: "live_ok h \<Longrightarrow> live_ok (fst (hook_step e h))"
proof (cases e)
  case (DeviceAnswer i caps loaded)
  have "live_ok h \<Longrightarrow> live_ok (fst (got_device i h))" unfolding got_device_def fst_conv
    by (rule live_ok_phase, rule live_ok_keep [of h]) (simp_all add: run_ready_def)
  with DeviceAnswer show "live_ok h \<Longrightarrow> ?thesis" by (simp add: live_ok_init_answer)
next
  case (TransportAnswer i params made)
  have "live_ok (fst (got_transport i t h))" if ok: "live_ok h" and live: "live_phase i h = p" "p = AwaitSend \<or> (\<exists>s. p = AwaitRecv s)" for t p
  proof -
    have i: "i < length (hk_runs h)" "run_phase (hk_runs h ! i) = p" using live live_phaseD [OF live(1)] by auto
    have refs: "live_ok (h\<lparr>hk_send := Some t\<rparr>)" "live_ok (h\<lparr>hk_recv := Some t\<rparr>)" by (rule live_ok_keep [OF ok]; simp)+
    have dev: "run_cancelled (hk_runs h ! i) \<or> hk_device h \<noteq> None" using ok i live(2) by (auto simp: live_ok_def run_ready_def)
    show ?thesis using live(2) i refs dev
      by (auto simp: got_transport_def run_ready_def intro!: live_ok_phase live_ok_produce_next)
  qed
  with TransportAnswer show "live_ok h \<Longrightarrow> ?thesis" by (auto intro!: live_ok_init_answer split: init_phase.split)
next
  case (ProduceAnswer i a)
  have "live_ok (fst (on_produced i a h))" if ok: "live_ok h"
  proof (cases "live_phase i h")
    case (AwaitProduce t track rest)
    have "i < length (hk_runs h)" "run_phase (hk_runs h ! i) = AwaitProduce t track rest" using live_phaseD [OF AwaitProduce] by auto
    with ok have "run_cancelled (hk_runs h ! i) \<or> hk_device h \<noteq> None \<and> hk_recv h \<noteq> None" by (auto simp: live_ok_def run_ready_def)
    moreover have "live_ok (fst (produced pid found track h))" for pid found by (rule live_ok_keep [OF ok]) simp_all
    ultimately show ?thesis using ok AwaitProduce by (auto simp: on_produced_def live_ok_Ended live_ok_produce_next split: sum.split)
  qed (use ok in \<open>simp_all add: on_produced_def\<close>)
  with ProduceAnswer show "live_ok h \<Longrightarrow> ?thesis" by simp
next
  case (ConsumeAnswer k data local resumed)
  then show "live_ok h \<Longrightarrow> ?thesis" using live_ok_on_consumed by simp
next
  case (Render room stream)
  then show "live_ok h \<Longrightarrow> ?thesis" by (simp add: on_render_def Let_def live_ok_cancelled cancel_runs_def teardown_def)
next
  case (RoomModeMsg r m)
  then show "live_ok h \<Longrightarrow> ?thesis" by (simp add: on_mode_def live_ok_cancelled cancel_runs_def)
next
  case (NewProducer p)
  then show "live_ok h \<Longrightarrow> ?thesis" by (auto simp: consumeRemote_def intro: live_ok_keep split: option.split)
next
  case (ProducerClosed pid)
  then show "live_ok h \<Longrightarrow> ?thesis" by (auto simp: onProducerClosed_def count_consumers_def Let_def fold_drop_runs fold_drop_refs intro!: live_ok_keep [of h])
qed (auto simp: live_ok_Ended live_ok_catch_up onConsumerClosed_def count_consumers_def drop_consumer_def consumer_ended_def intro: live_ok_keep split: sum.split)

interpretation hook_live: event_machine "\<lambda>e h. fst (hook_step e h)" live_ok
  by unfold_locales (rule live_ok_step)

lemma hook_run_invs: "waits_ok (fst (hook_run es new_hook))" "live_ok (fst (hook_run es new_hook))"
  unfolding hook_run_def hook_run_fst fst_conv
  by (rule hook_waits.run_good [OF new_hook_waits]) (rule hook_live.run_good, simp add: live_ok_def new_hook_def)

section \<open>Late and early answers\<close>

lemma catch_up_cancelled: "run_cancelled (hk_runs h ! i) \<Longrightarrow> catch_up i rest h = (set_phase i Ended h, [])"
  by (cases rest) simp_all

lemma waiting_run_index:
  assumes "waiting_run k h = Some (i, rest)"
  shows "i < length (hk_runs h) \<and> run_phase (hk_runs h ! i) = AwaitConsume k rest"
proof -
  define P where "P i = (case run_phase (hk_runs h ! i) of AwaitConsume k' _ \<Rightarrow> k' = k | _ \<Rightarrow> False)" for i
  from assms obtain j where j: "find P [0..<length (hk_runs h)] = Some j" "(case run_phase (hk_runs h ! j) of AwaitConsume _ rest \<Rightarrow> Some (j, rest) | _ \<Rightarrow> None) = Some (i, rest)"
    unfolding waiting_run_def P_def [symmetric] by (auto split: option.splits)
  from find_SomeD [OF j(1)] have "j < length (hk_runs h)" "P j" by auto
  with j(2) show ?thesis by (auto simp: P_def split: init_phase.splits)
qed

text \<open>The answers to a consume call that succeeds.\<close>

abbreviation consume_ok :: "nat \<Rightarrow> hook_event" where
  "consume_ok k \<equiv> ConsumeAnswer k (Some (AckOk ())) (Inr ()) (Some (AckOk ()))"

lemma consume_ok_result: "consumeProducer (Some (AckOk ())) (Inr ()) (Some (AckOk ())) = Inr ()"
  by (simp add: consumeProducer_def rpc_result_def)

text \<open>
  When the room goes back to mesh mode while a consumer is being made, the answer that comes after the teardown puts the consumer
  and its stream back: the hook is in mesh mode with a live consumer that nothing will close.
\<close>

theorem late_consumer_outlives_teardown:
  assumes "hk_room h = Some r" "hk_mode h = Sfu" and "k < length (hk_calls h)" "\<not> call_done (hk_calls h ! k)"
  defines "remote \<equiv> call_remote (hk_calls h ! k)"
    and "h' \<equiv> fst (hook_run [RoomModeMsg r Mesh, consume_ok k] h)"
  shows "hk_mode h' = Mesh \<and> hk_consumers h' = [(k, producerId remote)] \<and> hk_consumerCount h' = 1 \<and> hk_remoteStreams h' = [(producerSocketId remote, [k])]"
proof -
  define h1 where "h1 = fst (hook_step (RoomModeMsg r Mesh) h)"
  have h1: "hk_mode h1 = Mesh" "hk_consumers h1 = []" "hk_owners h1 = []" "hk_remoteStreams h1 = []" "hk_calls h1 = hk_calls h"
    "\<forall>i < length (hk_runs h1). run_cancelled (hk_runs h1 ! i)"
    using assms(1,2) by (simp_all add: h1_def on_mode_def start_init_def cancel_runs_def teardown_def)
  define h2 where "h2 = fst (consumed k (h1\<lparr>hk_calls := (hk_calls h1)[k := (hk_calls h1 ! k)\<lparr>call_done := True\<rparr>]\<rparr>))"
  have h2: "hk_mode h2 = Mesh" "hk_consumers h2 = [(k, producerId remote)]" "hk_consumerCount h2 = 1" "hk_remoteStreams h2 = [(producerSocketId remote, [k])]"
    "hk_runs h2 = hk_runs h1"
    using assms(3) by (simp_all add: h2_def consumed_def Let_def h1 remote_def addTrackToStream_def)
  have "fst (hook_step (consume_ok k) h1) = (case waiting_run k h2 of None \<Rightarrow> h2 | Some (i, rest) \<Rightarrow> set_phase i Ended h2)"
  proof -
    have "catch_up i rest h2 = (set_phase i Ended h2, [])" if "waiting_run k h2 = Some (i, rest)" for i rest
      using waiting_run_index [OF that] h1(6) h2(5) by (simp add: catch_up_cancelled)
    then show ?thesis using assms(3,4) h1(5)
      by (auto simp: consume_ok_result on_consumed_def Let_def h2_def split: option.split)
  qed
  moreover have "h' = fst (hook_step (consume_ok k) h1)" by (simp add: h'_def h1_def hook_run_def hook_run_fst del: hook_step.simps)
  ultimately show ?thesis using h2 by (auto split: option.splits)
qed

definition demo_peer :: remote_producer where
  "demo_peer = \<lparr>producerSocketId = ''b'', producerId = ''p''\<rparr>"

definition demo_setup :: "hook_event list" where
  "demo_setup = [Render (Some ''r'') (Some (0, [\<lparr>track_id = ''v'', is_video = True\<rparr>])), RoomModeMsg ''r'' Sfu, DeviceAnswer 0 (Some (AckOk ())) (Inr ()),
     TransportAnswer 0 (Some (AckOk ''s'')) (Inr ()), TransportAnswer 0 (Some (AckOk ''t'')) (Inr ()), ProduceAnswer 0 (Inr (''own'', True))]"

theorem late_consumer_outlives_teardown_witness:
  "hk_consumers (fst (hook_run [RoomModeMsg ''r'' Mesh, consume_ok 0] (fst (hook_run (demo_setup @ [NewProducer demo_peer]) new_hook)))) = [(0, ''p'')]"
proof -
  define h where "h = fst (hook_run (demo_setup @ [NewProducer demo_peer]) new_hook)"
  have "hk_room h = Some ''r''" "hk_mode h = Sfu" "0 < length (hk_calls h)" "\<not> call_done (hk_calls h ! 0)" "producerId (call_remote (hk_calls h ! 0)) = ''p''"
    unfolding h_def by code_simp+
  with late_consumer_outlives_teardown [of h "''r''" 0] show ?thesis by (simp add: h_def)
qed

section \<open>Catching up\<close>

lemma fold_then_do:
  "fold (\<lambda>e r. then_do r (hook_step e)) es (h, out) =
    (fst (fold (\<lambda>e r. then_do r (hook_step e)) es (h, [])), out @ snd (fold (\<lambda>e r. then_do r (hook_step e)) es (h, [])))"
proof (induction es arbitrary: h out)
  case (Cons e es)
  have t: "then_do (h, x) (hook_step e) = (fst (hook_step e h), x @ snd (hook_step e h))" for x by (simp add: prod_eq_iff del: hook_step.simps)
  show ?case unfolding fold_Cons o_apply t append_Nil
    by (subst (1 2 3) Cons.IH) simp
qed simp

lemma hook_run_Cons:
  "hook_run (e # es) h = (fst (hook_run es (fst (hook_step e h))), snd (hook_step e h) @ snd (hook_run es (fst (hook_step e h))))"
proof -
  have t: "then_do (h, []) (hook_step e) = (fst (hook_step e h), snd (hook_step e h))" by (simp add: prod_eq_iff del: hook_step.simps)
  show ?thesis unfolding hook_run_def fold_Cons o_apply t by (rule fold_then_do)
qed

text \<open>The answers to the consume calls that follow call number \<open>n\<close>, each a success or a failure.\<close>

type_synonym consume_answer = "unit ack option \<times> (string + unit) \<times> unit ack option"

fun answers :: "nat \<Rightarrow> consume_answer list \<Rightarrow> hook_event list" where
  "answers n [] = []"
| "answers n ((a, b, c) # as) = ConsumeAnswer n a b c # answers (Suc n) as"

definition asked :: "hook_out list \<Rightarrow> string list" where
  "asked out = concat (map (\<lambda>a. case a of AskConsume k d t p \<Rightarrow> [p] | _ \<Rightarrow> []) out)"

lemma asked_append [simp]: "asked (a @ b) = asked a @ asked b" "asked [] = []"
  by (simp_all add: asked_def)

lemma waiting_run_only:
  assumes "i < length (hk_runs h)" "run_phase (hk_runs h ! i) = AwaitConsume k rest"
    and "\<And>j. j < length (hk_runs h) \<Longrightarrow> waits_for h j = Some k \<Longrightarrow> j = i"
  shows "waiting_run k h = Some (i, rest)"
proof -
  define P where "P i = (case run_phase (hk_runs h ! i) of AwaitConsume k' _ \<Rightarrow> k' = k | _ \<Rightarrow> False)" for i
  have P: "P j \<Longrightarrow> waits_for h j = Some k" for j by (auto simp: P_def waits_for_def split: init_phase.splits)
  have "find P [0..<length (hk_runs h)] = Some j \<Longrightarrow> j = i" for j using find_SomeD [of P "[0..<length (hk_runs h)]" j] P assms(3) by auto
  moreover have "find P [0..<length (hk_runs h)] \<noteq> None" using assms(1,2) by (auto simp: find_None_iff P_def)
  ultimately have "find P [0..<length (hk_runs h)] = Some i" by auto
  then show ?thesis using assms(2) unfolding waiting_run_def P_def [symmetric] by simp
qed

lemma waiting_run_none:
  assumes "\<And>j. j < length (hk_runs h) \<Longrightarrow> waits_for h j \<noteq> Some k"
  shows "waiting_run k h = None"
proof (rule ccontr)
  assume "waiting_run k h \<noteq> None"
  then obtain i rest where "waiting_run k h = Some (i, rest)" by (cases "waiting_run k h") auto
  from waiting_run_index [OF this] assms [of i] show False by (simp add: waits_for_def)
qed

definition catching_up :: "nat \<Rightarrow> sfu_hook \<Rightarrow> bool" where
  "catching_up i h \<longleftrightarrow> can_consume h \<and> i < length (hk_runs h) \<and> \<not> run_cancelled (hk_runs h ! i) \<and>
    (\<forall>j < length (hk_runs h). \<forall>k. waits_for h j = Some k \<longrightarrow> j \<noteq> i \<longrightarrow> k < length (hk_calls h))"

lemma asked_transforms [simp]: "asked (snd (consumed k h)) = []"
  by (simp add: consumed_def Let_def asked_def)

lemma consumed_rest [simp]:
  "hk_runs (fst (consumed k h)) = hk_runs h" "hk_calls (fst (consumed k h)) = hk_calls h" "can_consume (fst (consumed k h)) = can_consume h"
  "hk_room (fst (consumed k h)) = hk_room h" "hk_device (fst (consumed k h)) = hk_device h" "hk_recv (fst (consumed k h)) = hk_recv h"
  by (simp_all add: consumed_def Let_def can_consume_def)

lemma catch_up_all:
  "catching_up i h \<Longrightarrow> length as = length ps \<Longrightarrow>
    asked (snd (catch_up i ps h) @ snd (hook_run (answers (length (hk_calls h)) as) (fst (catch_up i ps h)))) = map producerId ps \<and>
    run_phase (hk_runs (fst (hook_run (answers (length (hk_calls h)) as) (fst (catch_up i ps h)))) ! i) = Ended"
proof (induction ps arbitrary: h as)
  case Nil
  then show ?case by (simp add: hook_run_def set_phase_def catching_up_def)
next
  case (Cons p ps)
  from Cons.prems(2) obtain a b c as' where as: "as = (a, b, c) # as'" "length as' = length ps" by (cases as) auto
  let ?n = "length (hk_calls h)"
  obtain d t where dt: "hk_room h \<noteq> None" "hk_device h = Some d" "hk_recv h = Some t" using Cons.prems(1) by (auto simp: catching_up_def can_consume_def)
  define h1 where "h1 = set_phase i (AwaitConsume ?n ps) (h\<lparr>hk_calls := hk_calls h @ [\<lparr>call_remote = p, call_done = False\<rparr>]\<rparr>)"
  have c1: "catch_up i (p # ps) h = (h1, [AskConsume ?n d t (producerId p)])"
    using Cons.prems(1) dt by (auto simp: catching_up_def consumeRemote_def h1_def)
  define h2 where "h2 = h1\<lparr>hk_calls := (hk_calls h1)[?n := (hk_calls h1 ! ?n)\<lparr>call_done := True\<rparr>]\<rparr>"
  define r where "r = (case consumeProducer a b c of Inl e \<Rightarrow> (h2, []) | Inr _ \<Rightarrow> consumed ?n h2)"
  have r: "asked (snd r) = []" "hk_runs (fst r) = hk_runs h1" "length (hk_calls (fst r)) = Suc ?n" "can_consume (fst r) = can_consume h"
    by (auto simp: r_def h2_def h1_def can_consume_def split: sum.split)
  have runs: "length (hk_runs h1) = length (hk_runs h)" "run_phase (hk_runs h1 ! i) = AwaitConsume ?n ps" "\<not> run_cancelled (hk_runs h1 ! i)"
    "\<And>j. j \<noteq> i \<Longrightarrow> hk_runs h1 ! j = hk_runs h ! j"
    using Cons.prems(1) by (auto simp: h1_def set_phase_def catching_up_def)
  have others: "waits_for (fst r) j = Some k \<Longrightarrow> j < length (hk_runs h) \<Longrightarrow> j \<noteq> i \<Longrightarrow> k < ?n" for j k
    using Cons.prems(1) runs(4) [of j] by (auto simp: catching_up_def waits_for_def r(2))
  have "waiting_run ?n (fst r) = Some (i, ps)"
    by (rule waiting_run_only) (use Cons.prems(1) runs others in \<open>auto simp: r(2) catching_up_def\<close>)
  moreover have "hook_step (ConsumeAnswer ?n a b c) h1 = then_do r (\<lambda>h. case waiting_run ?n h of None \<Rightarrow> (h, []) | Some (i, rest) \<Rightarrow> catch_up i rest h)"
  proof -
    have "?n < length (hk_calls h1)" "\<not> call_done (hk_calls h1 ! ?n)" by (simp_all add: h1_def)
    then show ?thesis unfolding r_def h2_def by (simp add: on_consumed_def Let_def)
  qed
  ultimately have step: "hook_step (ConsumeAnswer ?n a b c) h1 = (fst (catch_up i ps (fst r)), snd r @ snd (catch_up i ps (fst r)))"
    by (simp add: prod_eq_iff)
  have "catching_up i (fst r)" using Cons.prems(1) others runs r by (auto simp: catching_up_def less_Suc_eq)
  from Cons.IH [OF this as(2)] r show ?case unfolding c1 as fst_conv snd_conv answers.simps hook_run_Cons step
    by (simp add: asked_def)
qed

lemma reachable_catching_up:
  assumes "h = fst (hook_run es new_hook)" "i < length (hk_runs h)" "run_phase (hk_runs h ! i) = AwaitList" "\<not> run_cancelled (hk_runs h ! i)"
  shows "catching_up i h" "listening h"
proof -
  have ok: "waits_ok h" "live_ok h" using hook_run_invs assms(1) by simp_all
  from ok(2) assms(2-4) have "hk_room h \<noteq> None \<and> hk_mode h = Sfu \<and> hk_device h \<noteq> None \<and> hk_recv h \<noteq> None"
    by (auto simp: live_ok_def run_ready_def)
  then show "catching_up i h" "listening h" using ok(1) assms(2-4) by (auto simp: catching_up_def can_consume_def waits_ok_def listening_def)
qed

text \<open>
  C28. Arriving in a room: once the list of its producers is there, the hook asks for every producer of the list, in order and each once,
  whatever becomes of each request, and the setup comes to its end; this is for a run that is still live when the list arrives, with no other event before the last answer.
\<close>

theorem catch_up_asks_for_all:
  fixes es :: "hook_event list" and as :: "consume_answer list"
  defines "h \<equiv> fst (hook_run es new_hook)"
  defines "res \<equiv> \<lambda>i ps. hook_run (ListAnswer i (Some (AckOk ps)) # answers (length (hk_calls h)) as) h"
  assumes "i < length (hk_runs h)" "run_phase (hk_runs h ! i) = AwaitList" "\<not> run_cancelled (hk_runs h ! i)" and "length as = length ps"
  shows "asked (snd (res i ps)) = map producerId ps \<and> run_phase (hk_runs (fst (res i ps)) ! i) = Ended"
proof -
  have h: "h = fst (hook_run es new_hook)" by (simp add: h_def)
  have "hook_step (ListAnswer i (Some (AckOk ps))) h = catch_up i ps h"
    using assms(3,4) by (simp add: live_phase_def listProducers_def rpc_result_def)
  with catch_up_all [OF reachable_catching_up(1) [OF h assms(3-5)] assms(6)] show ?thesis
    unfolding res_def hook_run_Cons by (simp add: asked_def)
qed

definition demo_peers :: "remote_producer list" where
  "demo_peers = [demo_peer, \<lparr>producerSocketId = ''c'', producerId = ''q''\<rparr>]"

theorem catch_up_asks_for_all_witness:
  "asked (snd (hook_run (ListAnswer 0 (Some (AckOk demo_peers)) # answers 0 [(None, Inr (), None), (Some (AckOk ()), Inr (), Some (AckOk ()))])
     (fst (hook_run demo_setup new_hook)))) = [''p'', ''q'']"
proof -
  have "0 < length (hk_runs (fst (hook_run demo_setup new_hook)))" "run_phase (hk_runs (fst (hook_run demo_setup new_hook)) ! 0) = AwaitList"
    "\<not> run_cancelled (hk_runs (fst (hook_run demo_setup new_hook)) ! 0)" "length (hk_calls (fst (hook_run demo_setup new_hook))) = 0"
    by code_simp+
  with catch_up_asks_for_all [of 0 demo_setup "[(None, Inr (), None), (Some (AckOk ()), Inr (), Some (AckOk ()))]" demo_peers] show ?thesis
    by (simp add: demo_peers_def demo_peer_def)
qed

section \<open>Announced and listed\<close>

lemma catch_up_keeps:
  "hk_consumers (fst (catch_up i ps h)) = hk_consumers h \<and> hk_remoteStreams (fst (catch_up i ps h)) = hk_remoteStreams h \<and>
    (\<exists>cs. hk_calls (fst (catch_up i ps h)) = hk_calls h @ cs)"
  by (induction i ps h rule: catch_up.induct) (auto simp: consumeRemote_def split: prod.splits option.splits)

lemma consume_ok_step:
  assumes "k < length (hk_calls h)" "\<not> call_done (hk_calls h ! k)"
  defines "h' \<equiv> fst (hook_step (consume_ok k) h)"
  shows "hk_consumers h' = jm_set (hk_consumers h) k (producerId (call_remote (hk_calls h ! k)))"
    "hk_remoteStreams h' = addTrackToStream (producerSocketId (call_remote (hk_calls h ! k))) k (hk_remoteStreams h)"
    "\<exists>cs. hk_calls h' = (hk_calls h)[k := (hk_calls h ! k)\<lparr>call_done := True\<rparr>] @ cs"
proof -
  define h1 where "h1 = fst (consumed k (h\<lparr>hk_calls := (hk_calls h)[k := (hk_calls h ! k)\<lparr>call_done := True\<rparr>]\<rparr>))"
  have h1: "hk_consumers h1 = jm_set (hk_consumers h) k (producerId (call_remote (hk_calls h ! k)))"
    "hk_remoteStreams h1 = addTrackToStream (producerSocketId (call_remote (hk_calls h ! k))) k (hk_remoteStreams h)"
    "hk_calls h1 = (hk_calls h)[k := (hk_calls h ! k)\<lparr>call_done := True\<rparr>]"
    using assms(1) by (simp_all add: h1_def consumed_def Let_def)
  have h': "h' = (case waiting_run k h1 of None \<Rightarrow> h1 | Some (i, rest) \<Rightarrow> fst (catch_up i rest h1))"
    using assms(1,2) by (auto simp: h'_def consume_ok_result on_consumed_def Let_def h1_def split: option.split)
  show "hk_consumers h' = jm_set (hk_consumers h) k (producerId (call_remote (hk_calls h ! k)))"
    "hk_remoteStreams h' = addTrackToStream (producerSocketId (call_remote (hk_calls h ! k))) k (hk_remoteStreams h)"
    "\<exists>cs. hk_calls h' = (hk_calls h)[k := (hk_calls h ! k)\<lparr>call_done := True\<rparr>] @ cs"
    unfolding h' h1 [symmetric] using catch_up_keeps by (auto split: option.split)
qed

text \<open>
  A producer that is announced after the hook can receive and before the list of the producers is answered is in that list too: the
  hook asks for it twice and gets two consumers of it, and the stream of its owner has its track twice.
\<close>

theorem announced_and_listed_consumed_twice:
  fixes es :: "hook_event list" and p :: remote_producer
  defines "h \<equiv> fst (hook_run es new_hook)"
  defines "res \<equiv> \<lambda>i. hook_run [NewProducer p, ListAnswer i (Some (AckOk [p])), consume_ok (length (hk_calls h)), consume_ok (Suc (length (hk_calls h)))] h"
  assumes "i < length (hk_runs h)" "run_phase (hk_runs h ! i) = AwaitList" "\<not> run_cancelled (hk_runs h ! i)"
  shows "take 2 (asked (snd (res i))) = [producerId p, producerId p] \<and>
    (\<forall>k \<in> {length (hk_calls h), Suc (length (hk_calls h))}. jm_get (hk_consumers (fst (res i))) k = Some (producerId p) \<and>
       k \<in> set (case jm_get (hk_remoteStreams (fst (res i))) (producerSocketId p) of None \<Rightarrow> [] | Some stream \<Rightarrow> stream))"
proof -
  have h: "h = fst (hook_run es new_hook)" by (simp add: h_def)
  note ok = reachable_catching_up [OF h assms(3-5)]
  let ?k = "length (hk_calls h)" and ?c = "\<lparr>call_remote = p, call_done = False\<rparr>"
  obtain r d t where dt: "hk_room h = Some r" "hk_device h = Some d" "hk_recv h = Some t" using ok(1) by (auto simp: catching_up_def can_consume_def)
  define h1 where "h1 = h\<lparr>hk_calls := hk_calls h @ [?c]\<rparr>"
  have s1: "hook_step (NewProducer p) h = (h1, [AskConsume ?k d t (producerId p)])" using ok(2) dt by (simp add: consumeRemote_def h1_def)
  define h2 where "h2 = set_phase i (AwaitConsume (Suc ?k) []) (h1\<lparr>hk_calls := hk_calls h1 @ [?c]\<rparr>)"
  have s2: "hook_step (ListAnswer i (Some (AckOk [p]))) h1 = (h2, [AskConsume (Suc ?k) d t (producerId p)])"
    using assms(3-5) dt by (simp add: live_phase_def listProducers_def rpc_result_def can_consume_def consumeRemote_def h2_def h1_def)
  have calls: "?k < length (hk_calls h2)" "hk_calls h2 ! ?k = ?c" "hk_calls h2 ! Suc ?k = ?c" "Suc ?k < length (hk_calls h2)"
    by (simp_all add: h2_def h1_def nth_append)
  define h3 where "h3 = fst (hook_step (consume_ok ?k) h2)"
  note s3 = consume_ok_step [of ?k h2, folded h3_def]
  obtain cs where cs: "hk_calls h3 = (hk_calls h2)[?k := (hk_calls h2 ! ?k)\<lparr>call_done := True\<rparr>] @ cs" using s3(3) calls by auto
  have c3: "Suc ?k < length (hk_calls h3)" "hk_calls h3 ! Suc ?k = ?c" using calls by (simp_all add: cs nth_append)
  define h4 where "h4 = fst (hook_step (consume_ok (Suc ?k)) h3)"
  note s4 = consume_ok_step [of "Suc ?k" h3, folded h4_def]
  have "fst (res i) = h4" "asked (snd (res i)) = producerId p # producerId p # asked (snd (hook_step (consume_ok ?k) h2)) @ asked (snd (hook_step (consume_ok (Suc ?k)) h3))"
    unfolding res_def hook_run_Cons s1 s2 fst_conv snd_conv h3_def [symmetric] h4_def [symmetric] by (simp_all add: hook_run_def asked_def del: hook_step.simps)
  moreover have "hk_consumers h4 = jm_set (jm_set (hk_consumers h2) ?k (producerId p)) (Suc ?k) (producerId p)"
    "hk_remoteStreams h4 = addTrackToStream (producerSocketId p) (Suc ?k) (addTrackToStream (producerSocketId p) ?k (hk_remoteStreams h2))"
    using s3 s4 calls c3 by simp_all
  ultimately show ?thesis by (simp add: addTrackToStream_def)
qed

theorem announced_and_listed_consumed_twice_witness:
  "{0, 1} \<subseteq> set (case jm_get (hk_remoteStreams (fst (hook_run [NewProducer demo_peer, ListAnswer 0 (Some (AckOk [demo_peer])), consume_ok 0, consume_ok (Suc 0)]
     (fst (hook_run demo_setup new_hook))))) (producerSocketId demo_peer) of None \<Rightarrow> [] | Some stream \<Rightarrow> stream)"
proof -
  have "0 < length (hk_runs (fst (hook_run demo_setup new_hook)))" "run_phase (hk_runs (fst (hook_run demo_setup new_hook)) ! 0) = AwaitList"
    "\<not> run_cancelled (hk_runs (fst (hook_run demo_setup new_hook)) ! 0)" "length (hk_calls (fst (hook_run demo_setup new_hook))) = 0"
    by code_simp+
  with announced_and_listed_consumed_twice [of 0 demo_setup demo_peer] show ?thesis by simp
qed

section \<open>A transport that comes too late\<close>

definition quiet :: "string \<Rightarrow> sfu_hook \<times> hook_out list \<Rightarrow> bool" where
  "quiet t r \<longleftrightarrow> hk_send (fst r) \<noteq> Some t \<and> hk_recv (fst r) \<noteq> Some t \<and> CloseTransport t \<notin> set (snd r)"

lemma quiet_then: "quiet t r \<Longrightarrow> (\<And>h. quiet t (h, []) \<Longrightarrow> quiet t (f h)) \<Longrightarrow> quiet t (then_do r f)"
  by (simp add: quiet_def)

lemma quiet_keep:
  "quiet t (h, []) \<Longrightarrow> hk_send (fst r) = hk_send h \<Longrightarrow> hk_recv (fst r) = hk_recv h \<Longrightarrow> CloseTransport t \<notin> set (snd r) \<Longrightarrow> quiet t r"
  by (simp add: quiet_def)

lemma quiet_teardown: "quiet t (h, []) \<Longrightarrow> quiet t (teardown h)"
  by (auto simp: quiet_def teardown_def stop_abr_def close_transport_def split: option.splits)

lemma quiet_start: "quiet t (h, []) \<Longrightarrow> quiet t (start_init h)"
  by (auto simp: start_init_def quiet_teardown intro: quiet_keep split: option.split room_mode.split)

lemma quiet_consumeRemote: "quiet t (h, []) \<Longrightarrow> quiet t (consumeRemote p h)"
  by (rule quiet_keep [of t h]) (auto simp: consumeRemote_def split: option.split)

lemma quiet_phase: "quiet t (h, out) \<Longrightarrow> quiet t (set_phase i p h, out)"
  by (simp add: quiet_def)

lemma quiet_catch_up: "quiet t (h, []) \<Longrightarrow> quiet t (catch_up i ps h)"
proof (induction i ps h rule: catch_up.induct)
  case (2 i p ps h)
  then show ?case using quiet_consumeRemote [OF "2.prems", of p] by (auto simp: quiet_phase split: prod.split)
qed (simp add: quiet_phase)

lemma quiet_produce: "quiet t (h, []) \<Longrightarrow> quiet t (produce_next i s ts h)"
  by (rule quiet_keep [of t h]) (auto simp: produce_next_def split: list.split)

lemma quiet_produced: "quiet t (h, []) \<Longrightarrow> quiet t (produced pid found track h)"
  by (rule quiet_keep [of t h]) (auto simp: produced_def attachAbr_def stop_abr_def Let_def)

lemma quiet_init_answer: "quiet t (h, []) \<Longrightarrow> (\<And>v. a = Inr v \<Longrightarrow> quiet t (f v h)) \<Longrightarrow> quiet t (init_answer i a f h)"
  by (auto simp: init_answer_def quiet_phase split: sum.split)

lemma quiet_consumed: "quiet t (h, []) \<Longrightarrow> quiet t (on_consumed k a h)"
proof -
  assume q: "quiet t (h, [])"
  define h1 where "h1 = h\<lparr>hk_calls := (hk_calls h)[k := (hk_calls h ! k)\<lparr>call_done := True\<rparr>]\<rparr>"
  have "quiet t (case a of Inl e \<Rightarrow> (h1, []) | Inr _ \<Rightarrow> consumed k h1)"
    by (rule quiet_keep [OF q]) (auto simp: h1_def consumed_def Let_def split: sum.split)
  then show ?thesis using q unfolding on_consumed_def Let_def h1_def [symmetric]
    by (auto intro!: quiet_then quiet_catch_up split: option.split)
qed

lemma fold_drop_send: "hk_send (fold drop_consumer ks h) = hk_send h \<and> hk_recv (fold drop_consumer ks h) = hk_recv h"
  by (induction ks arbitrary: h) (simp_all add: drop_consumer_def)

text \<open>The server gives the identifier \<open>t\<close> to a transport.\<close>

fun names_transport :: "string \<Rightarrow> hook_event \<Rightarrow> bool" where
  "names_transport t (TransportAnswer i (Some (AckOk u)) made) = (u = t)"
| "names_transport t e = False"

lemma quiet_step: "quiet t (h, []) \<Longrightarrow> \<not> names_transport t e \<Longrightarrow> quiet t (hook_step e h)"
proof (cases e)
  case (TransportAnswer i params made)
  assume q: "quiet t (h, [])" and n: "\<not> names_transport t e"
  have "quiet t (got_transport i u h)" if "u \<noteq> t" for u
    using q that unfolding got_transport_def
    by (auto intro!: quiet_phase quiet_produce split: init_phase.split) (auto simp: quiet_def)
  moreover have "u \<noteq> t" if "makeTransport params made = Inr u" for u
    using n that TransportAnswer
    by (cases params; cases "the params"; cases made) (auto simp: makeTransport_def rpc_result_def)
  ultimately show ?thesis using q TransportAnswer by (auto intro!: quiet_init_answer split: init_phase.split)
next
  case (DeviceAnswer i caps loaded)
  then show "quiet t (h, []) \<Longrightarrow> ?thesis" by (auto simp: got_device_def intro!: quiet_init_answer quiet_phase) (auto simp: quiet_def)
next
  case (ProduceAnswer i a)
  then show "quiet t (h, []) \<Longrightarrow> ?thesis"
    by (auto simp: on_produced_def intro!: quiet_then quiet_produced quiet_produce quiet_phase split: init_phase.split sum.split)
next
  case (Render room stream)
  have "quiet t (h, []) \<Longrightarrow> quiet t (cancel_runs (h\<lparr>hk_room := room, hk_stream := stream\<rparr>), []) \<and>
      quiet t (cancel_runs (h\<lparr>hk_stream := stream\<rparr>), [])" by (simp add: quiet_def cancel_runs_def)
  with Render show "quiet t (h, []) \<Longrightarrow> ?thesis"
    by (simp add: on_render_def Let_def quiet_then quiet_teardown quiet_start)
next
  case (RoomModeMsg r m)
  have "quiet t (h, []) \<Longrightarrow> quiet t (cancel_runs (h\<lparr>hk_mode := m\<rparr>), [])" by (simp add: quiet_def cancel_runs_def)
  with RoomModeMsg show "quiet t (h, []) \<Longrightarrow> ?thesis" by (simp add: on_mode_def quiet_start)
next
  case (ProducerClosed pid)
  then show "quiet t (h, []) \<Longrightarrow> ?thesis" by (auto simp: quiet_def onProducerClosed_def count_consumers_def Let_def fold_drop_send)
qed (auto simp: quiet_consumeRemote quiet_consumed quiet_catch_up quiet_phase onConsumerClosed_def count_consumers_def drop_consumer_def consumer_ended_def
  intro: quiet_keep split: sum.split)

lemma quiet_run: "quiet t (h, []) \<Longrightarrow> \<forall>e \<in> set es. \<not> names_transport t e \<Longrightarrow> quiet t (hook_run es h)"
proof (induction es arbitrary: h)
  case Nil
  then show ?case by (simp add: hook_run_def)
next
  case (Cons e es)
  then have q: "quiet t (hook_step e h)" using quiet_step by simp
  then have "quiet t (hook_run es (fst (hook_step e h)))" using Cons by (simp add: quiet_def)
  with q show ?case unfolding hook_run_Cons by (simp add: quiet_def)
qed

text \<open>
  When the room goes back to mesh mode while the server makes a transport, the hook takes the answer, drops the transport and never
  closes it, whatever happens afterwards.
\<close>

theorem late_transport_never_closed:
  assumes "hk_room h = Some r" "hk_mode h = Sfu" "i < length (hk_runs h)" "run_phase (hk_runs h ! i) = AwaitSend"
    and "hk_send h \<noteq> Some t" "hk_recv h \<noteq> Some t" and "\<forall>e \<in> set es. \<not> names_transport t e"
  shows "CloseTransport t \<notin> set (snd (hook_run (RoomModeMsg r Mesh # TransportAnswer i (Some (AckOk t)) (Inr ()) # es) h))"
proof -
  define h1 where "h1 = fst (hook_step (RoomModeMsg r Mesh) h)"
  have q: "quiet t (hook_step (RoomModeMsg r Mesh) h)" by (rule quiet_step) (use assms in \<open>simp_all add: quiet_def\<close>)
  then have q1: "quiet t (h1, [])" by (simp add: quiet_def h1_def del: hook_step.simps)
  have h1: "i < length (hk_runs h1)" "run_phase (hk_runs h1 ! i) = AwaitSend" "run_cancelled (hk_runs h1 ! i)"
    using assms(1-4) by (simp_all add: h1_def on_mode_def start_init_def cancel_runs_def teardown_def)
  then have s2: "hook_step (TransportAnswer i (Some (AckOk t)) (Inr ())) h1 = (set_phase i Ended h1, [])"
    by (simp add: live_phase_def init_answer_def makeTransport_def rpc_result_def)
  have "quiet t (hook_run es (set_phase i Ended h1))" by (rule quiet_run [OF _ assms(7)]) (use q1 in \<open>simp add: quiet_phase\<close>)
  with q show ?thesis unfolding hook_run_Cons h1_def [symmetric] s2 by (simp add: quiet_def h1_def)
qed

theorem late_transport_never_closed_witness:
  "CloseTransport ''s'' \<notin> set (snd (hook_run [RoomModeMsg ''r'' Mesh, TransportAnswer 0 (Some (AckOk ''s'')) (Inr ()), Render None None]
     (fst (hook_run (take 3 demo_setup) new_hook))))"
proof -
  have "hk_room (fst (hook_run (take 3 demo_setup) new_hook)) = Some ''r''" "hk_mode (fst (hook_run (take 3 demo_setup) new_hook)) = Sfu"
    "0 < length (hk_runs (fst (hook_run (take 3 demo_setup) new_hook)))" "run_phase (hk_runs (fst (hook_run (take 3 demo_setup) new_hook)) ! 0) = AwaitSend"
    "hk_send (fst (hook_run (take 3 demo_setup) new_hook)) \<noteq> Some ''s''" "hk_recv (fst (hook_run (take 3 demo_setup) new_hook)) \<noteq> Some ''s''"
    by code_simp+
  from late_transport_never_closed [OF this, of "[Render None None]"] show ?thesis by simp
qed

end
