(* ===== verification/MeshCalls.thy ===== *)
theory MeshCalls imports SignalingProps begin

text \<open>
  The calls of a room in mesh mode (\<open>pages/Index.tsx\<close>): one peer connection per member, made by the side that joins and answered by
  the side that is there, with the ICE restarts, their timers, and the restarts by the heartbeat. The handlers are cut where they wait for the camera; between two messages
  the operations of the browser on one connection are one step. Descriptions are the texts the browser makes, given from outside.
\<close>

section \<open>Peer connections\<close>

text \<open>
  The signaling states of an \<open>RTCPeerConnection\<close> as WebRTC 1.0 defines them: an offer that arrives while an own offer is out rolls the
  own one back, an answer is accepted only for an own offer. \<open>None\<close> is the \<open>InvalidStateError\<close>.
\<close>

record session_desc =
  sd_answer :: bool
  sd_sdp :: string

datatype signal_state = Stable | HaveLocalOffer | HaveRemoteOffer | PcClosed

datatype ice_state = IceNew | IceChecking | IceConnected | IceCompleted | IceDisconnected | IceFailed | IceClosed

record peer_conn =
  pc_offerer :: bool
  pc_signal :: signal_state
  pc_local :: "session_desc option"
  pc_remote :: "session_desc option"
  pc_pending :: "session_desc option"
  pc_sends :: bool
  pc_ice :: ice_state
  pc_timer :: bool

definition set_local_offer :: "session_desc \<Rightarrow> peer_conn \<Rightarrow> peer_conn option" where
  "set_local_offer d pc = (if pc_signal pc = Stable \<or> pc_signal pc = HaveLocalOffer
     then Some (pc\<lparr>pc_signal := HaveLocalOffer, pc_pending := Some d\<rparr>) else None)"

definition set_remote :: "session_desc \<Rightarrow> peer_conn \<Rightarrow> peer_conn option" where
  "set_remote d pc =
    (if sd_answer d then
       (if pc_signal pc = HaveLocalOffer then Some (pc\<lparr>pc_signal := Stable, pc_local := pc_pending pc, pc_remote := Some d, pc_pending := None\<rparr>) else None)
     else if pc_signal pc = PcClosed then None
     else Some (pc\<lparr>pc_signal := HaveRemoteOffer, pc_pending := Some d\<rparr>))"

definition set_local_answer :: "session_desc \<Rightarrow> peer_conn \<Rightarrow> peer_conn option" where
  "set_local_answer d pc = (if pc_signal pc = HaveRemoteOffer
     then Some (pc\<lparr>pc_signal := Stable, pc_remote := pc_pending pc, pc_local := Some d, pc_pending := None\<rparr>) else None)"

section \<open>The client\<close>

text \<open>A handler that waits for the camera: with the users to call, or with an offer to answer.\<close>

datatype mesh_task = CallAll "string list" | AnswerOffer string session_desc

record mesh_client =
  mc_id :: string
  mc_mode :: room_mode
  mc_stream :: bool
  mc_pcs :: "(string, peer_conn) jmap"
  mc_tasks :: "mesh_task list"

datatype mesh_out = ToServer event | Throws

definition desc_json :: "session_desc \<Rightarrow> json" where
  "desc_json d = JObj [(''type'', JStr (if sd_answer d then ''answer'' else ''offer'')), (''sdp'', JStr (sd_sdp d))]"

definition desc_of_json :: "jsval \<Rightarrow> session_desc" where
  "desc_of_json v = \<lparr>sd_answer = (jget v ''type'' = Some (JStr ''answer'')), sd_sdp = str_of (jget v ''sdp'')\<rparr>"

definition emit_offer :: "string \<Rightarrow> session_desc \<Rightarrow> mesh_client \<Rightarrow> mesh_out" where
  "emit_offer to d c = ToServer (Offer (mc_id c) (Some (JObj [(''to'', JStr to), (''offer'', desc_json d)])))"

definition emit_answer :: "string \<Rightarrow> session_desc \<Rightarrow> mesh_client \<Rightarrow> mesh_out" where
  "emit_answer to d c = ToServer (Answer (mc_id c) (Some (JObj [(''to'', JStr to), (''answer'', desc_json d)])))"

definition createPC :: "string \<Rightarrow> bool \<Rightarrow> mesh_client \<Rightarrow> mesh_client" where
  "createPC remoteId isOfferer c = c\<lparr>mc_pcs := jm_set (mc_pcs c) remoteId
     \<lparr>pc_offerer = isOfferer, pc_signal = Stable, pc_local = None, pc_remote = None, pc_pending = None, pc_sends = mc_stream c,
      pc_ice = IceNew, pc_timer = False\<rparr>\<rparr>"

definition put_pc :: "string \<Rightarrow> peer_conn \<Rightarrow> mesh_client \<Rightarrow> mesh_client" where
  "put_pc remoteId pc c = c\<lparr>mc_pcs := jm_set (mc_pcs c) remoteId pc\<rparr>"

text \<open>Offers the connection to the peer, with the description the browser makes.\<close>

definition offer_to :: "string \<Rightarrow> string \<Rightarrow> mesh_client \<Rightarrow> mesh_client \<times> mesh_out list" where
  "offer_to to sdp c =
    (case jm_get (mc_pcs c) to of None \<Rightarrow> (c, [])
     | Some pc \<Rightarrow>
         let d = \<lparr>sd_answer = False, sd_sdp = sdp\<rparr> in
         (case set_local_offer d pc of None \<Rightarrow> (c, [Throws]) | Some pc' \<Rightarrow> (put_pc to pc' c, [emit_offer to d c])))"

fun call_all :: "string list \<Rightarrow> (string \<Rightarrow> string) \<Rightarrow> mesh_client \<Rightarrow> mesh_client \<times> mesh_out list" where
  "call_all [] sdp c = (c, [])"
| "call_all (u # us) sdp c = (case offer_to u (sdp u) (createPC u True c) of (c1, out1) \<Rightarrow>
     (case call_all us sdp c1 of (c2, out2) \<Rightarrow> (c2, out1 @ out2)))"

text \<open>An answer that fails leaves the connection as it is and the promise rejected.\<close>

definition answer_offer :: "string \<Rightarrow> session_desc \<Rightarrow> string \<Rightarrow> mesh_client \<Rightarrow> mesh_client \<times> mesh_out list" where
  "answer_offer from_id offer sdp c =
    (let c1 = (case jm_get (mc_pcs c) from_id of Some _ \<Rightarrow> c | None \<Rightarrow> createPC from_id False c);
         pc = the (jm_get (mc_pcs c1) from_id);
         d = \<lparr>sd_answer = True, sd_sdp = sdp\<rparr> in
     (case set_remote offer pc of None \<Rightarrow> (c1, [Throws])
      | Some pc1 \<Rightarrow> (case set_local_answer d pc1 of None \<Rightarrow> (put_pc from_id pc1 c1, [Throws])
          | Some pc2 \<Rightarrow> (put_pc from_id pc2 c1, [emit_answer from_id d c1]))))"

section \<open>Messages\<close>

definition on_users :: "string list \<Rightarrow> mesh_client \<Rightarrow> mesh_client" where
  "on_users us c = c\<lparr>mc_tasks := mc_tasks c @ [CallAll us]\<rparr>"

definition on_offer_msg :: "string \<Rightarrow> session_desc \<Rightarrow> mesh_client \<Rightarrow> mesh_client" where
  "on_offer_msg from_id d c = (if mc_mode c \<noteq> Mesh then c else c\<lparr>mc_tasks := mc_tasks c @ [AnswerOffer from_id d]\<rparr>)"

definition on_answer_msg :: "string \<Rightarrow> session_desc \<Rightarrow> mesh_client \<Rightarrow> mesh_client \<times> mesh_out list" where
  "on_answer_msg from_id d c =
    (case jm_get (mc_pcs c) from_id of None \<Rightarrow> (c, [Throws])
     | Some pc \<Rightarrow> (case set_remote d pc of None \<Rightarrow> (c, [Throws]) | Some pc' \<Rightarrow> (put_pc from_id pc' c, [])))"

text \<open>The camera is there, or was refused: the task goes on.\<close>

definition prepared :: "nat \<Rightarrow> bool \<Rightarrow> (string \<Rightarrow> string) \<Rightarrow> mesh_client \<Rightarrow> mesh_client \<times> mesh_out list" where
  "prepared n camera sdp c =
    (if n < length (mc_tasks c) then
       let c1 = c\<lparr>mc_tasks := take n (mc_tasks c) @ drop (Suc n) (mc_tasks c), mc_stream := mc_stream c \<or> camera\<rparr> in
       (case mc_tasks c ! n of
          CallAll us \<Rightarrow> if mc_mode c1 = Mesh then call_all us sdp c1 else (c1, [])
        | AnswerOffer from_id d \<Rightarrow> answer_offer from_id d (sdp from_id) c1)
     else (c, []))"

definition receive :: "emission \<Rightarrow> mesh_client \<Rightarrow> mesh_client \<times> mesh_out list" where
  "receive e c =
    (case e of Emit aud ev p \<Rightarrow>
      (case p of
         Plain j \<Rightarrow>
           if ev = ''offer'' then (on_offer_msg (str_of (jget (Some j) ''from'')) (desc_of_json (jget (Some j) ''offer'')) c, [])
           else if ev = ''answer'' then on_answer_msg (str_of (jget (Some j) ''from'')) (desc_of_json (jget (Some j) ''answer'')) c
           else (c, [])
       | _ \<Rightarrow> (c, [])))"

section \<open>Leaving and upgrading\<close>

definition close_peer :: "string \<Rightarrow> mesh_client \<Rightarrow> mesh_client" where
  "close_peer p c = c\<lparr>mc_pcs := jm_del (mc_pcs c) p\<rparr>"

definition cleanupPeerConnections :: "mesh_client \<Rightarrow> mesh_client" where
  "cleanupPeerConnections c = c\<lparr>mc_pcs := []\<rparr>"

definition stopLocalStream :: "mesh_client \<Rightarrow> mesh_client" where
  "stopLocalStream c = c\<lparr>mc_stream := False\<rparr>"

definition leave_calls :: "mesh_client \<Rightarrow> mesh_client" where
  "leave_calls c = stopLocalStream (cleanupPeerConnections c)"

definition mode_changed :: "room_mode \<Rightarrow> mesh_client \<Rightarrow> mesh_client" where
  "mode_changed m c = (if mc_mode c = Mesh \<and> m = Sfu then (cleanupPeerConnections c)\<lparr>mc_mode := m\<rparr> else c\<lparr>mc_mode := m\<rparr>)"

section \<open>ICE restarts\<close>

definition restartIceForPeer :: "string \<Rightarrow> string \<Rightarrow> mesh_client \<Rightarrow> mesh_client \<times> mesh_out list" where
  "restartIceForPeer p sdp c = (case offer_to p sdp c of (c', out) \<Rightarrow> (c', filter (\<lambda>x. x \<noteq> Throws) out))"

text \<open>The heartbeat calls it for a peer that does not answer, whichever side made the connection.\<close>

definition on_unhealthy :: "string \<Rightarrow> string \<Rightarrow> mesh_client \<Rightarrow> mesh_client \<times> mesh_out list" where
  "on_unhealthy p sdp c = restartIceForPeer p sdp c"

text \<open>The events of one connection: a change of its ICE state, and its timer. Gives whether to restart.\<close>

datatype ice_event = IceChange ice_state | TimerFires

definition ice_step :: "ice_event \<Rightarrow> peer_conn \<Rightarrow> peer_conn \<times> bool" where
  "ice_step e pc =
    (case e of
       IceChange s \<Rightarrow>
         let pc1 = pc\<lparr>pc_ice := s\<rparr> in
         if s = IceConnected \<or> s = IceCompleted then (pc1\<lparr>pc_timer := False\<rparr>, False)
         else if s = IceDisconnected then (pc1\<lparr>pc_timer := True\<rparr>, False)
         else if s = IceFailed then (pc1\<lparr>pc_timer := False\<rparr>, pc_offerer pc)
         else (pc1, False)
     | TimerFires \<Rightarrow> if pc_timer pc then (pc\<lparr>pc_timer := False\<rparr>, pc_ice pc = IceDisconnected \<and> pc_offerer pc) else (pc, False))"

definition ice_event_on :: "string \<Rightarrow> ice_event \<Rightarrow> string \<Rightarrow> mesh_client \<Rightarrow> mesh_client \<times> mesh_out list" where
  "ice_event_on p e sdp c =
    (case jm_get (mc_pcs c) p of None \<Rightarrow> (c, [])
     | Some pc \<Rightarrow> (case ice_step e pc of (pc', restart) \<Rightarrow>
         if restart then restartIceForPeer p sdp (put_pc p pc' c) else (put_pc p pc' c, [])))"

section \<open>Two ends\<close>

text \<open>The two ends of a call have settled on each other's descriptions.\<close>

definition in_call :: "peer_conn \<Rightarrow> peer_conn \<Rightarrow> bool" where
  "in_call a b \<longleftrightarrow> pc_signal a = Stable \<and> pc_signal b = Stable \<and> pc_local a \<noteq> None \<and> pc_remote a \<noteq> None \<and>
     pc_local a = pc_remote b \<and> pc_remote a = pc_local b"

text \<open>The server passes a message on: what it sends for an event of a client.\<close>

definition passed_on :: "'a config \<Rightarrow> 'a server \<Rightarrow> mesh_out \<Rightarrow> emission list" where
  "passed_on cf st out = (case out of ToServer e \<Rightarrow> snd (act cf e st) | Throws \<Rightarrow> [])"

text \<open>A client gets the messages for its socket, and those for the room of its own identifier.\<close>

definition addressed :: "audience \<Rightarrow> string \<Rightarrow> bool" where
  "addressed aud x = (case aud of ToSocket y \<Rightarrow> y = x | ToRoom r \<Rightarrow> r = x | _ \<Rightarrow> False)"

definition receive_all :: "emission list \<Rightarrow> mesh_client \<Rightarrow> mesh_client \<times> mesh_out list" where
  "receive_all es c = fold (\<lambda>e (c, out). if addressed (case e of Emit aud _ _ \<Rightarrow> aud) (mc_id c)
     then (case receive e c of (c', out') \<Rightarrow> (c', out @ out')) else (c, out)) es (c, [])"

definition via_server :: "'a config \<Rightarrow> 'a server \<Rightarrow> mesh_out list \<Rightarrow> mesh_client \<Rightarrow> mesh_client \<times> mesh_out list" where
  "via_server cf st out c = receive_all (concat (map (passed_on cf st) out)) c"

section \<open>Calls and restarts\<close>

lemma desc_back [simp]: "desc_of_json (Some (desc_json d)) = d"
  by (simp add: desc_of_json_def desc_json_def)

text \<open>What the server needs to pass descriptions between two clients: both connected, and the parser accepts what the clients send.\<close>

definition relays :: "'a config \<Rightarrow> 'a server \<Rightarrow> string \<Rightarrow> bool" where
  "relays cf st x \<longleftrightarrow> (case jm_get (sv_sockets st) x of None \<Rightarrow> False | Some s \<Rightarrow> so_media s \<noteq> None)"

definition accepts_calls :: "(schema \<Rightarrow> jsval \<Rightarrow> jsval option) \<Rightarrow> string \<Rightarrow> bool" where
  "accepts_calls parse to \<longleftrightarrow>
    (\<forall>d. parse OfferPayload (Some (JObj [(''to'', JStr to), (''offer'', desc_json d)])) = Some (Some (JObj [(''to'', JStr to), (''offer'', desc_json d)]))) \<and>
    (\<forall>d. parse AnswerPayload (Some (JObj [(''to'', JStr to), (''answer'', desc_json d)])) = Some (Some (JObj [(''to'', JStr to), (''answer'', desc_json d)])))"

lemma offer_passed:
  assumes "relays cf st (mc_id c)" "relays cf st to" "accepts_calls (cf_parse cf) to"
  shows "passed_on cf st (emit_offer to d c) = [Emit (ToSocket to) ''offer'' (Plain (JObj [(''from'', JStr (mc_id c)), (''offer'', desc_json d)]))]"
  using assms by (auto simp: passed_on_def emit_offer_def relays_def accepts_calls_def handled_def on_offer_def field_def split: option.splits)

lemma answer_passed:
  assumes "relays cf st (mc_id c)" "accepts_calls (cf_parse cf) to"
  shows "passed_on cf st (emit_answer to d c) = [Emit (ToRoom to) ''answer'' (Plain (JObj [(''from'', JStr (mc_id c)), (''answer'', desc_json d)]))]"
  using assms by (auto simp: passed_on_def emit_answer_def relays_def accepts_calls_def handled_def on_answer_def field_def split: option.splits)

lemma receive_offer:
  "receive (Emit aud ''offer'' (Plain (JObj [(''from'', JStr x), (''offer'', desc_json d)]))) c = (on_offer_msg x d c, [])"
  by (simp add: receive_def)

lemma receive_answer:
  "receive (Emit aud ''answer'' (Plain (JObj [(''from'', JStr x), (''answer'', desc_json d)]))) c = on_answer_msg x d c"
  by (simp add: receive_def)

lemma offer_arrives:
  assumes "relays cf st (mc_id a)" "relays cf st (mc_id b)" "accepts_calls (cf_parse cf) (mc_id b)"
  shows "via_server cf st [emit_offer (mc_id b) d a] b = (on_offer_msg (mc_id a) d b, [])"
  by (simp add: via_server_def offer_passed [OF assms] receive_all_def addressed_def receive_offer)

lemma answer_arrives:
  assumes "relays cf st (mc_id b)" "accepts_calls (cf_parse cf) (mc_id a)"
  shows "via_server cf st [emit_answer (mc_id a) d b] a = on_answer_msg (mc_id b) d a"
  by (simp add: via_server_def answer_passed [OF assms] receive_all_def addressed_def receive_answer split: prod.split)

lemma put_pc_fields [simp]:
  "mc_id (put_pc p pc c) = mc_id c" "mc_mode (put_pc p pc c) = mc_mode c" "mc_tasks (put_pc p pc c) = mc_tasks c" "mc_stream (put_pc p pc c) = mc_stream c"
  "mc_pcs (put_pc p pc c) = jm_set (mc_pcs c) p pc"
  by (simp_all add: put_pc_def)

lemma createPC_fields [simp]:
  "mc_id (createPC p o1 c) = mc_id c" "mc_mode (createPC p o1 c) = mc_mode c" "mc_tasks (createPC p o1 c) = mc_tasks c" "mc_stream (createPC p o1 c) = mc_stream c"
  by (simp_all add: createPC_def)

text \<open>Calling everybody: one offer to each, from a connection of one's own making.\<close>

definition calling_pc :: "bool \<Rightarrow> string \<Rightarrow> peer_conn" where
  "calling_pc stream sdp = \<lparr>pc_offerer = True, pc_signal = HaveLocalOffer, pc_local = None, pc_remote = None,
     pc_pending = Some \<lparr>sd_answer = False, sd_sdp = sdp\<rparr>, pc_sends = stream, pc_ice = IceNew, pc_timer = False\<rparr>"

lemma offer_new:
  "offer_to u sdp (createPC u True c) =
    (c\<lparr>mc_pcs := jm_set (jm_set (mc_pcs c) u \<lparr>pc_offerer = True, pc_signal = Stable, pc_local = None, pc_remote = None, pc_pending = None,
       pc_sends = mc_stream c, pc_ice = IceNew, pc_timer = False\<rparr>) u (calling_pc (mc_stream c) sdp)\<rparr>, [emit_offer u \<lparr>sd_answer = False, sd_sdp = sdp\<rparr> c])"
  by (simp add: offer_to_def createPC_def set_local_offer_def calling_pc_def put_pc_def emit_offer_def Let_def)

lemma call_all_result:
  "snd (call_all us sdp c) = map (\<lambda>u. emit_offer u \<lparr>sd_answer = False, sd_sdp = sdp u\<rparr> c) us \<and>
    (\<forall>p. jm_get (mc_pcs (fst (call_all us sdp c))) p = (if p \<in> set us then Some (calling_pc (mc_stream c) (sdp p)) else jm_get (mc_pcs c) p)) \<and>
    mc_id (fst (call_all us sdp c)) = mc_id c \<and> mc_mode (fst (call_all us sdp c)) = mc_mode c \<and> mc_stream (fst (call_all us sdp c)) = mc_stream c \<and>
    mc_tasks (fst (call_all us sdp c)) = mc_tasks c"
proof (induction us arbitrary: c)
  case (Cons u us)
  define c1 where "c1 = fst (offer_to u (sdp u) (createPC u True c))"
  have c1: "mc_id c1 = mc_id c" "mc_stream c1 = mc_stream c" "mc_mode c1 = mc_mode c" "mc_tasks c1 = mc_tasks c"
    "\<And>p. jm_get (mc_pcs c1) p = (if p = u then Some (calling_pc (mc_stream c) (sdp u)) else jm_get (mc_pcs c) p)"
    by (simp_all add: c1_def offer_new)
  have emit: "emit_offer v d c1 = emit_offer v d c" for v d by (simp add: emit_offer_def c1)
  have step: "call_all (u # us) sdp c = (fst (call_all us sdp c1), emit_offer u \<lparr>sd_answer = False, sd_sdp = sdp u\<rparr> c # snd (call_all us sdp c1))"
    by (simp add: c1_def offer_new split: prod.split)
  show ?case unfolding step using Cons [of c1] c1 emit by auto
qed simp

lemma offer_passed_if:
  assumes "relays cf st (mc_id a)" "accepts_calls (cf_parse cf) u"
  shows "passed_on cf st (emit_offer u d a) = (if jm_has (sv_sockets st) u
    then [Emit (ToSocket u) ''offer'' (Plain (JObj [(''from'', JStr (mc_id a)), (''offer'', desc_json d)]))] else [])"
  using assms by (auto simp: passed_on_def emit_offer_def relays_def accepts_calls_def handled_def on_offer_def field_def split: option.splits)

lemma not_addressed:
  "\<forall>e \<in> set es. \<not> addressed (case e of Emit aud _ _ \<Rightarrow> aud) (mc_id c) \<Longrightarrow>
    fold (\<lambda>e (c, out). if addressed (case e of Emit aud _ _ \<Rightarrow> aud) (mc_id c) then (case receive e c of (c', out') \<Rightarrow> (c', out @ out')) else (c, out)) es (c, out)
      = (c, out)"
  by (induction es) auto

lemma offers_arrive:
  assumes "relays cf st (mc_id a)" "relays cf st (mc_id b)" "\<forall>u \<in> set us. accepts_calls (cf_parse cf) u" "distinct us" "mc_id b \<in> set us"
  shows "via_server cf st (map (\<lambda>u. emit_offer u (d u) a) us) b = (on_offer_msg (mc_id a) (d (mc_id b)) b, [])"
proof -
  let ?out = "\<lambda>us. concat (map (passed_on cf st) (map (\<lambda>u. emit_offer u (d u) a) us))"
  obtain xs ys where us: "us = xs @ mc_id b # ys" using assms(5) by (meson split_list)
  have others: "\<forall>e \<in> set (?out zs). \<not> addressed (case e of Emit aud _ _ \<Rightarrow> aud) (mc_id b)" if "set zs \<subseteq> set us" "mc_id b \<notin> set zs" for zs
    using that assms(1,3) by (auto simp: offer_passed_if addressed_def subset_iff split: if_splits)
  have x: "\<forall>e \<in> set (?out xs). \<not> addressed (case e of Emit aud _ _ \<Rightarrow> aud) (mc_id b)" using assms(4) us by (intro others) auto
  have y: "\<forall>e \<in> set (?out ys). \<not> addressed (case e of Emit aud _ _ \<Rightarrow> aud) (mc_id (on_offer_msg (mc_id a) (d (mc_id b)) b))"
  proof -
    have "mc_id (on_offer_msg (mc_id a) (d (mc_id b)) b) = mc_id b" by (simp add: on_offer_msg_def)
    then show ?thesis using assms(4) us others [of ys] by auto
  qed
  have acc: "accepts_calls (cf_parse cf) (mc_id b)" using assms(3,5) by blast
  have split: "?out us = ?out xs @ Emit (ToSocket (mc_id b)) ''offer'' (Plain (JObj [(''from'', JStr (mc_id a)), (''offer'', desc_json (d (mc_id b)))])) # ?out ys"
    using offer_passed [OF assms(1,2) acc] by (simp add: us)
  have here: "addressed (ToSocket (mc_id b)) (mc_id b)" by (simp add: addressed_def)
  show ?thesis unfolding via_server_def receive_all_def split fold_append fold_Cons o_apply not_addressed [OF x]
    by (simp add: here receive_offer not_addressed [OF y] del: map_map)
qed

text \<open>Answering: the connection that is there, or a new one, ends up stable with the offer and the answer.\<close>

definition answering_pc :: "mesh_client \<Rightarrow> string \<Rightarrow> peer_conn" where
  "answering_pc b x = (case jm_get (mc_pcs b) x of Some pc \<Rightarrow> pc
     | None \<Rightarrow> \<lparr>pc_offerer = False, pc_signal = Stable, pc_local = None, pc_remote = None, pc_pending = None, pc_sends = mc_stream b, pc_ice = IceNew, pc_timer = False\<rparr>)"

lemma answer_offer_ok:
  assumes "\<not> sd_answer offer" "pc_signal (answering_pc b x) \<noteq> PcClosed"
  shows "\<exists>b'. answer_offer x offer sdp b = (b', [emit_answer x \<lparr>sd_answer = True, sd_sdp = sdp\<rparr> b]) \<and> mc_id b' = mc_id b \<and>
    jm_get (mc_pcs b') x = Some ((answering_pc b x)\<lparr>pc_signal := Stable, pc_remote := Some offer, pc_local := Some \<lparr>sd_answer = True, sd_sdp = sdp\<rparr>, pc_pending := None\<rparr>)"
  using assms
  by (cases "jm_get (mc_pcs b) x")
    (auto simp: answer_offer_def answering_pc_def createPC_def set_remote_def set_local_answer_def Let_def put_pc_def emit_answer_def)

text \<open>From an offer that is out to a call: the other end answers, the answer is accepted.\<close>

lemma offer_answered:
  fixes sdp :: "string \<Rightarrow> string"
  assumes "relays cf st (mc_id b)" "accepts_calls (cf_parse cf) (mc_id a)" and mode: "mc_mode b = Mesh" "mc_tasks b = []" and d: "\<not> sd_answer d"
    and a: "jm_get (mc_pcs a) (mc_id b) = Some pa" "pc_signal pa = HaveLocalOffer" "pc_pending pa = Some d"
    and b: "pc_signal (answering_pc (b\<lparr>mc_stream := mc_stream b \<or> cam\<rparr>) (mc_id a)) \<noteq> PcClosed"
  defines "r \<equiv> prepared 0 cam sdp (on_offer_msg (mc_id a) d b)"
  shows "\<exists>pa' pb'. jm_get (mc_pcs (fst (via_server cf st (snd r) a))) (mc_id b) = Some pa' \<and> jm_get (mc_pcs (fst r)) (mc_id a) = Some pb' \<and> in_call pa' pb' \<and>
    pc_local pa' = Some d \<and> pc_offerer pa' = pc_offerer pa \<and> pc_offerer pb' = pc_offerer (answering_pc b (mc_id a)) \<and> pc_sends pa' = pc_sends pa \<and>
    pc_sends pb' = pc_sends (answering_pc (b\<lparr>mc_stream := mc_stream b \<or> cam\<rparr>) (mc_id a)) \<and> snd (via_server cf st (snd r) a) = []"
proof -
  let ?b = "b\<lparr>mc_tasks := [], mc_stream := mc_stream b \<or> cam\<rparr>"
  have same: "answering_pc ?b (mc_id a) = answering_pc (b\<lparr>mc_stream := mc_stream b \<or> cam\<rparr>) (mc_id a)" by (simp add: answering_pc_def split: option.split)
  obtain b' where b': "answer_offer (mc_id a) d (sdp (mc_id a)) ?b = (b', [emit_answer (mc_id a) \<lparr>sd_answer = True, sd_sdp = sdp (mc_id a)\<rparr> ?b])" "mc_id b' = mc_id b"
    "jm_get (mc_pcs b') (mc_id a) = Some ((answering_pc ?b (mc_id a))\<lparr>pc_signal := Stable, pc_remote := Some d,
       pc_local := Some \<lparr>sd_answer = True, sd_sdp = sdp (mc_id a)\<rparr>, pc_pending := None\<rparr>)"
    using answer_offer_ok [OF d, of ?b "mc_id a"] b same by auto
  have emit: "emit_answer (mc_id a) \<lparr>sd_answer = True, sd_sdp = sdp (mc_id a)\<rparr> ?b = emit_answer (mc_id a) \<lparr>sd_answer = True, sd_sdp = sdp (mc_id a)\<rparr> b"
    by (simp add: emit_answer_def)
  have r: "r = (b', [emit_answer (mc_id a) \<lparr>sd_answer = True, sd_sdp = sdp (mc_id a)\<rparr> b])"
    using mode b'(1) emit by (simp add: r_def on_offer_msg_def prepared_def Let_def)
  have off: "pc_offerer (answering_pc ?b (mc_id a)) = pc_offerer (answering_pc b (mc_id a))" by (simp add: answering_pc_def split: option.split)
  show ?thesis unfolding r fst_conv snd_conv answer_arrives [OF assms(1,2)]
    using a b'(3) same off by (auto simp: on_answer_msg_def set_remote_def in_call_def)
qed

section \<open>The calls of a room\<close>

lemma zparse_accepts: "1 \<le> length to \<Longrightarrow> length to \<le> 64 \<Longrightarrow> accepts_calls zparse to"
  by (simp add: accepts_calls_def OfferPayload_def AnswerPayload_def session_description_def socketId_def bounded_string_def desc_json_def field_def)

definition demo_client :: "string \<Rightarrow> mesh_task list \<Rightarrow> mesh_client" where
  "demo_client x ts = \<lparr>mc_id = x, mc_mode = Mesh, mc_stream = False, mc_pcs = [], mc_tasks = ts\<rparr>"

lemma demo_relay:
  "relays demo_cf demo_pair ''a''" "relays demo_cf demo_pair ''b''" "accepts_calls (cf_parse demo_cf) ''a''" "accepts_calls (cf_parse demo_cf) ''b''"
proof -
  show "relays demo_cf demo_pair ''a''" "relays demo_cf demo_pair ''b''" by code_simp+
  show "accepts_calls (cf_parse demo_cf) ''a''" "accepts_calls (cf_parse demo_cf) ''b''" by (simp_all add: demo_cf_def zparse_accepts)
qed

text \<open>
  C8. Whoever joins a mesh room calls everybody who is there. Through the server each call comes about: the one called answers, and in the
  end both sides hold each other's descriptions, the joiner as the offering side, both sending what their camera gives.
\<close>

theorem calls_come_about:
  fixes sdpA sdpB :: "string \<Rightarrow> string" and camA camB :: bool
  assumes "relays cf st (mc_id a)" "relays cf st (mc_id b)" "\<forall>u \<in> set us. accepts_calls (cf_parse cf) u" "accepts_calls (cf_parse cf) (mc_id a)"
    and "distinct us" "mc_id b \<in> set us" and "mc_mode a = Mesh" "mc_tasks a = [CallAll us]"
    and "mc_mode b = Mesh" "mc_tasks b = []" "jm_get (mc_pcs b) (mc_id a) = None"
  defines "calling \<equiv> prepared 0 camA sdpA a"
  defines "answered \<equiv> prepared 0 camB sdpB (fst (via_server cf st (snd calling) b))"
  shows "\<exists>pa pb. jm_get (mc_pcs (fst (via_server cf st (snd answered) (fst calling)))) (mc_id b) = Some pa \<and> jm_get (mc_pcs (fst answered)) (mc_id a) = Some pb \<and>
    in_call pa pb \<and> pc_offerer pa \<and> \<not> pc_offerer pb \<and> pc_sends pa = (mc_stream a \<or> camA) \<and> pc_sends pb = (mc_stream b \<or> camB)"
proof -
  let ?a = "a\<lparr>mc_tasks := [], mc_stream := mc_stream a \<or> camA\<rparr>"
  let ?d = "\<lambda>u. \<lparr>sd_answer = False, sd_sdp = sdpA u\<rparr>"
  have calling: "calling = call_all us sdpA ?a" using assms(7,8) by (simp add: calling_def prepared_def Let_def)
  note all = call_all_result [of us sdpA ?a, folded calling]
  have out: "snd calling = map (\<lambda>u. emit_offer u (?d u) a) us" using all by (simp add: emit_offer_def)
  have b1: "fst (via_server cf st (snd calling) b) = on_offer_msg (mc_id a) (?d (mc_id b)) b"
    unfolding out using offers_arrive [of cf st a b us ?d] assms(1-3,5,6) by simp
  have id: "mc_id (fst calling) = mc_id a" using all by simp
  have pa: "jm_get (mc_pcs (fst calling)) (mc_id b) = Some (calling_pc (mc_stream a \<or> camA) (sdpA (mc_id b)))" using all assms(6) by simp
  have new: "pc_signal (answering_pc (b\<lparr>mc_stream := mc_stream b \<or> camB\<rparr>) (mc_id a)) \<noteq> PcClosed"
    "pc_offerer (answering_pc b (mc_id a)) = False" "pc_sends (answering_pc (b\<lparr>mc_stream := mc_stream b \<or> camB\<rparr>) (mc_id a)) = (mc_stream b \<or> camB)"
    using assms(11) by (simp_all add: answering_pc_def)
  have "\<not> sd_answer (?d (mc_id b))" by simp
  from offer_answered [of cf st b "fst calling" "?d (mc_id b)" _ camB sdpB, unfolded id, OF assms(2,4,9,10) this pa _ _ new(1)]
  show ?thesis unfolding answered_def b1 using new by (auto simp: calling_pc_def)
qed

theorem calls_come_about_witness:
  "\<exists>pa pb. jm_get (mc_pcs (fst (via_server demo_cf demo_pair (snd (prepared 0 False (\<lambda>_. ''y'') (fst (via_server demo_cf demo_pair
       (snd (prepared 0 True (\<lambda>_. ''x'') (demo_client ''a'' [CallAll [''b'']]))) (demo_client ''b'' [])))))
       (fst (prepared 0 True (\<lambda>_. ''x'') (demo_client ''a'' [CallAll [''b''] ])))))) ''b'' = Some pa \<and> in_call pa pb \<and> pc_sends pa \<and> \<not> pc_sends pb"
proof -
  let ?a = "demo_client ''a'' [CallAll [''b'']]" and ?b = "demo_client ''b'' []"
  have ids: "mc_id ?a = ''a''" "mc_id ?b = ''b''" by (simp_all add: demo_client_def)
  from calls_come_about [of demo_cf demo_pair ?a ?b "[''b'']", unfolded ids, where camA = True and camB = False and sdpA = "\<lambda>_. ''x''"
      and sdpB = "\<lambda>_. ''y''"] demo_relay show ?thesis
    by (auto simp: demo_client_def)
qed

text \<open>
  An ICE restart driven by one side renews the call over the connection that is there, on both sides, whatever state of health it was in.
\<close>

theorem restart_renews_call:
  fixes sdpB :: "string \<Rightarrow> string" and sdp :: string and cam :: bool
  assumes "relays cf st (mc_id a)" "relays cf st (mc_id b)" "accepts_calls (cf_parse cf) (mc_id a)" "accepts_calls (cf_parse cf) (mc_id b)"
    and "mc_mode b = Mesh" "mc_tasks b = []" and "jm_get (mc_pcs a) (mc_id b) = Some pa" "jm_get (mc_pcs b) (mc_id a) = Some pb" "in_call pa pb"
  defines "restarted \<equiv> restartIceForPeer (mc_id b) sdp a"
  defines "answered \<equiv> prepared 0 cam sdpB (fst (via_server cf st (snd restarted) b))"
  shows "\<exists>pa' pb'. jm_get (mc_pcs (fst (via_server cf st (snd answered) (fst restarted)))) (mc_id b) = Some pa' \<and> jm_get (mc_pcs (fst answered)) (mc_id a) = Some pb' \<and>
    in_call pa' pb' \<and> pc_local pa' = Some \<lparr>sd_answer = False, sd_sdp = sdp\<rparr> \<and> pc_offerer pa' = pc_offerer pa \<and> pc_offerer pb' = pc_offerer pb \<and>
    pc_sends pa' = pc_sends pa \<and> pc_sends pb' = pc_sends pb"
proof -
  let ?d = "\<lparr>sd_answer = False, sd_sdp = sdp\<rparr>"
  have st: "pc_signal pa = Stable" "pc_signal pb = Stable" using assms(9) by (simp_all add: in_call_def)
  have r: "restarted = (put_pc (mc_id b) (pa\<lparr>pc_signal := HaveLocalOffer, pc_pending := Some ?d\<rparr>) a, [emit_offer (mc_id b) ?d a])"
    using assms(7) st by (simp add: restarted_def restartIceForPeer_def offer_to_def set_local_offer_def Let_def emit_offer_def)
  have b1: "fst (via_server cf st (snd restarted) b) = on_offer_msg (mc_id a) ?d b" unfolding r using offer_arrives [OF assms(1,2,4)] by simp
  have id: "mc_id (fst restarted) = mc_id a" by (simp add: r)
  have pa: "jm_get (mc_pcs (fst restarted)) (mc_id b) = Some (pa\<lparr>pc_signal := HaveLocalOffer, pc_pending := Some ?d\<rparr>)" by (simp add: r)
  have same: "answering_pc (b\<lparr>mc_stream := s\<rparr>) (mc_id a) = pb" "answering_pc b (mc_id a) = pb" for s using assms(8) by (simp_all add: answering_pc_def)
  have "\<not> sd_answer ?d" by simp
  from offer_answered [of cf st b "fst restarted" ?d _ cam sdpB, unfolded id same, OF assms(2,3,5,6) this pa] st
  show ?thesis unfolding answered_def b1 by auto
qed

definition demo_in_call :: "string \<Rightarrow> string \<Rightarrow> bool \<Rightarrow> mesh_client" where
  "demo_in_call x y offerer = (let offer = \<lparr>sd_answer = False, sd_sdp = ''o''\<rparr>; answer = \<lparr>sd_answer = True, sd_sdp = ''n''\<rparr> in
     \<lparr>mc_id = x, mc_mode = Mesh, mc_stream = True, mc_pcs = [(y, \<lparr>pc_offerer = offerer, pc_signal = Stable, pc_local = Some (if offerer then offer else answer),
        pc_remote = Some (if offerer then answer else offer), pc_pending = None, pc_sends = True, pc_ice = IceDisconnected, pc_timer = False\<rparr>)], mc_tasks = []\<rparr>)"

lemma demo_in_call_facts:
  "mc_id (demo_in_call x y o1) = x" "mc_mode (demo_in_call x y o1) = Mesh" "mc_tasks (demo_in_call x y o1) = []"
  "\<exists>pc. jm_get (mc_pcs (demo_in_call x y o1)) y = Some pc"
  "in_call (the (jm_get (mc_pcs (demo_in_call x y True)) y)) (the (jm_get (mc_pcs (demo_in_call y x False)) x))"
  by (simp_all add: demo_in_call_def Let_def in_call_def)

theorem restart_renews_call_witness:
  "\<exists>pa'. jm_get (mc_pcs (fst (via_server demo_cf demo_pair (snd (prepared 0 True (\<lambda>_. ''z'') (fst (via_server demo_cf demo_pair
       (snd (restartIceForPeer ''b'' ''w'' (demo_in_call ''a'' ''b'' True))) (demo_in_call ''b'' ''a'' False)))))
       (fst (restartIceForPeer ''b'' ''w'' (demo_in_call ''a'' ''b'' True)))))) ''b'' = Some pa' \<and> pc_local pa' = Some \<lparr>sd_answer = False, sd_sdp = ''w''\<rparr>"
proof -
  let ?a = "demo_in_call ''a'' ''b'' True" and ?b = "demo_in_call ''b'' ''a'' False"
  note f = demo_in_call_facts
  obtain pa pb where pc: "jm_get (mc_pcs ?a) ''b'' = Some pa" "jm_get (mc_pcs ?b) ''a'' = Some pb" using f(4) by meson
  then have "in_call pa pb" using f(5) [of "''a''" "''b''"] by simp
  from restart_renews_call [of demo_cf demo_pair ?a ?b, unfolded f(1-3), OF demo_relay(1,2,3,4) refl refl pc this, where sdp = "''w''" and sdpB = "\<lambda>_. ''z''" and cam = True]
  show ?thesis by blast
qed

text \<open>
  The heartbeat runs on both sides, and each restarts when the other stays silent: when both do, the offers cross, each side answers
  the other's and rejects the answer to its own, and the two sides are left with descriptions that do not match.
\<close>

theorem crossed_restarts_break_call:
  fixes ansA ansB :: "string \<Rightarrow> string" and sdpA sdpB :: string and camA camB :: bool
  assumes "relays cf st (mc_id a)" "relays cf st (mc_id b)" "accepts_calls (cf_parse cf) (mc_id a)" "accepts_calls (cf_parse cf) (mc_id b)"
    and "mc_mode a = Mesh" "mc_tasks a = []" "mc_mode b = Mesh" "mc_tasks b = []"
    and "jm_get (mc_pcs a) (mc_id b) = Some pa" "jm_get (mc_pcs b) (mc_id a) = Some pb" "in_call pa pb"
  defines "ra \<equiv> on_unhealthy (mc_id b) sdpA a" and "rb \<equiv> on_unhealthy (mc_id a) sdpB b"
  defines "a2 \<equiv> prepared 0 camA ansA (fst (via_server cf st (snd rb) (fst ra)))" and "b2 \<equiv> prepared 0 camB ansB (fst (via_server cf st (snd ra) (fst rb)))"
  defines "a3 \<equiv> via_server cf st (snd b2) (fst a2)" and "b3 \<equiv> via_server cf st (snd a2) (fst b2)"
  shows "snd a3 = [Throws] \<and> snd b3 = [Throws] \<and>
    (\<exists>pa' pb'. jm_get (mc_pcs (fst a3)) (mc_id b) = Some pa' \<and> jm_get (mc_pcs (fst b3)) (mc_id a) = Some pb' \<and>
      pc_signal pa' = Stable \<and> pc_signal pb' = Stable \<and> \<not> in_call pa' pb')"
proof -
  let ?da = "\<lparr>sd_answer = False, sd_sdp = sdpA\<rparr>" and ?db = "\<lparr>sd_answer = False, sd_sdp = sdpB\<rparr>"
  let ?pa = "pa\<lparr>pc_signal := HaveLocalOffer, pc_pending := Some ?da\<rparr>" and ?pb = "pb\<lparr>pc_signal := HaveLocalOffer, pc_pending := Some ?db\<rparr>"
  have st: "pc_signal pa = Stable" "pc_signal pb = Stable" using assms(11) by (simp_all add: in_call_def)
  have r: "ra = (put_pc (mc_id b) ?pa a, [emit_offer (mc_id b) ?da a])" "rb = (put_pc (mc_id a) ?pb b, [emit_offer (mc_id a) ?db b])"
    using assms(9,10) st by (simp_all add: ra_def rb_def on_unhealthy_def restartIceForPeer_def offer_to_def set_local_offer_def Let_def emit_offer_def)
  have ar: "fst (via_server cf st (snd rb) (fst ra)) = on_offer_msg (mc_id b) ?db (fst ra)"
    using offer_arrives [of cf st b "fst ra"] assms(1-3) by (simp add: r)
  have br: "fst (via_server cf st (snd ra) (fst rb)) = on_offer_msg (mc_id a) ?da (fst rb)"
    using offer_arrives [of cf st a "fst rb"] assms(1,2,4) by (simp add: r)
  define ca where "ca = (fst ra)\<lparr>mc_tasks := [], mc_stream := mc_stream (fst ra) \<or> camA\<rparr>"
  define cb where "cb = (fst rb)\<lparr>mc_tasks := [], mc_stream := mc_stream (fst rb) \<or> camB\<rparr>"
  have a2: "a2 = answer_offer (mc_id b) ?db (ansA (mc_id b)) ca" unfolding a2_def ar using assms(5,6) by (simp add: r ca_def on_offer_msg_def prepared_def Let_def)
  have b2: "b2 = answer_offer (mc_id a) ?da (ansB (mc_id a)) cb" unfolding b2_def br using assms(7,8) by (simp add: r cb_def on_offer_msg_def prepared_def Let_def)
  have pcs: "answering_pc ca (mc_id b) = ?pa" "answering_pc cb (mc_id a) = ?pb" by (simp_all add: answering_pc_def ca_def cb_def r)
  have ids: "mc_id ca = mc_id a" "mc_id cb = mc_id b" by (simp_all add: ca_def cb_def r)
  obtain a' where a': "a2 = (a', [emit_answer (mc_id b) \<lparr>sd_answer = True, sd_sdp = ansA (mc_id b)\<rparr> ca])" "mc_id a' = mc_id a"
    "jm_get (mc_pcs a') (mc_id b) = Some (?pa\<lparr>pc_signal := Stable, pc_remote := Some ?db, pc_local := Some \<lparr>sd_answer = True, sd_sdp = ansA (mc_id b)\<rparr>, pc_pending := None\<rparr>)"
    using answer_offer_ok [of ?db ca "mc_id b" "ansA (mc_id b)"] by (auto simp: a2 pcs ids)
  obtain b' where b': "b2 = (b', [emit_answer (mc_id a) \<lparr>sd_answer = True, sd_sdp = ansB (mc_id a)\<rparr> cb])" "mc_id b' = mc_id b"
    "jm_get (mc_pcs b') (mc_id a) = Some (?pb\<lparr>pc_signal := Stable, pc_remote := Some ?da, pc_local := Some \<lparr>sd_answer = True, sd_sdp = ansB (mc_id a)\<rparr>, pc_pending := None\<rparr>)"
    using answer_offer_ok [of ?da cb "mc_id a" "ansB (mc_id a)"] by (auto simp: b2 pcs ids)
  have "a3 = on_answer_msg (mc_id b) \<lparr>sd_answer = True, sd_sdp = ansB (mc_id a)\<rparr> a'"
    using answer_arrives [of cf st cb a'] assms(2,3) a' b' ids by (simp add: a3_def)
  moreover have "b3 = on_answer_msg (mc_id a) \<lparr>sd_answer = True, sd_sdp = ansA (mc_id b)\<rparr> b'"
    using answer_arrives [of cf st ca b'] assms(1,4) a' b' ids by (simp add: b3_def)
  ultimately show ?thesis using a'(3) b'(3) by (simp add: on_answer_msg_def set_remote_def in_call_def)
qed

theorem crossed_restarts_break_call_witness:
  "let a = demo_in_call ''a'' ''b'' True; b = demo_in_call ''b'' ''a'' False; ra = on_unhealthy ''b'' ''1'' a; rb = on_unhealthy ''a'' ''2'' b;
     a2 = prepared 0 True (\<lambda>_. ''3'') (fst (via_server demo_cf demo_pair (snd rb) (fst ra)));
     b2 = prepared 0 True (\<lambda>_. ''4'') (fst (via_server demo_cf demo_pair (snd ra) (fst rb)))
   in snd (via_server demo_cf demo_pair (snd b2) (fst a2)) = [Throws] \<and> snd (via_server demo_cf demo_pair (snd a2) (fst b2)) = [Throws]"
proof -
  let ?a = "demo_in_call ''a'' ''b'' True" and ?b = "demo_in_call ''b'' ''a'' False"
  note f = demo_in_call_facts
  obtain pa pb where pc: "jm_get (mc_pcs ?a) ''b'' = Some pa" "jm_get (mc_pcs ?b) ''a'' = Some pb" using f(4) by meson
  then have "in_call pa pb" using f(5) [of "''a''" "''b''"] by simp
  from crossed_restarts_break_call [of demo_cf demo_pair ?a ?b, unfolded f(1-3), OF demo_relay(1,2,3,4) refl refl refl refl pc this,
      where sdpA = "''1''" and sdpB = "''2''" and ansA = "\<lambda>_. ''3''" and ansB = "\<lambda>_. ''4''" and camA = True and camB = True]
  show ?thesis unfolding Let_def by blast
qed

text \<open>
  C40. A user who leaves a room while the browser still asks for the camera is called back by the pending handler: the camera goes on, every
  member of the room is called and sent the picture, and the server passes the offers on although the user is in no room with them.
\<close>

theorem leaving_while_asked_for_camera:
  fixes sdp :: "string \<Rightarrow> string"
  assumes "mc_tasks c = [CallAll us]" "mc_mode c = Mesh" "u \<in> set us"
    and "relays cf st (mc_id c)" "relays cf st u" "accepts_calls (cf_parse cf) u"
  defines "r \<equiv> prepared 0 True sdp (leave_calls c)"
  shows "mc_stream (fst r) \<and> (\<exists>pc. jm_get (mc_pcs (fst r)) u = Some pc \<and> pc_offerer pc \<and> pc_sends pc) \<and>
    Emit (ToSocket u) ''offer'' (Plain (JObj [(''from'', JStr (mc_id c)), (''offer'', desc_json \<lparr>sd_answer = False, sd_sdp = sdp u\<rparr>)]))
      \<in> set (concat (map (passed_on cf st) (snd r)))"
proof -
  let ?c = "(leave_calls c)\<lparr>mc_tasks := [], mc_stream := True\<rparr>"
  have r: "r = call_all us sdp ?c"
    using assms(1,2) by (simp add: r_def prepared_def Let_def leave_calls_def stopLocalStream_def cleanupPeerConnections_def)
  have id: "mc_id ?c = mc_id c" by (simp add: leave_calls_def stopLocalStream_def cleanupPeerConnections_def)
  note all = call_all_result [of us sdp ?c, folded r]
  have "passed_on cf st (emit_offer u \<lparr>sd_answer = False, sd_sdp = sdp u\<rparr> ?c) =
      [Emit (ToSocket u) ''offer'' (Plain (JObj [(''from'', JStr (mc_id c)), (''offer'', desc_json \<lparr>sd_answer = False, sd_sdp = sdp u\<rparr>)]))]"
    using offer_passed [of cf st ?c u] assms(4-6) id by simp
  moreover have "emit_offer u \<lparr>sd_answer = False, sd_sdp = sdp u\<rparr> ?c \<in> set (snd r)" using all assms(3) by simp
  ultimately show ?thesis using all assms(3) by (force simp: calling_pc_def)
qed

theorem leaving_while_asked_for_camera_witness:
  "mc_stream (fst (prepared 0 True (\<lambda>_. ''x'') (leave_calls (demo_client ''a'' [CallAll [''b'']]))))"
  using leaving_while_asked_for_camera [of "demo_client ''a'' [CallAll [''b'']]" "[''b'']" "''b''" demo_cf demo_pair "\<lambda>_. ''x''"] demo_relay
  by (simp add: demo_client_def)

section \<open>How often a call is restarted\<close>

text \<open>
  What happens to one connection once it is there: an ICE event, the heartbeat of its data channel giving up, an answer of the peer, or an offer
  of the peer that is answered; each with the description the browser makes, if it makes one. The run collects what is sent.
\<close>

datatype call_event =
    IceEvent ice_event string
  | HeartbeatLost string
  | AnswerIn session_desc
  | OfferIn session_desc string

fun call_step :: "string \<Rightarrow> call_event \<Rightarrow> mesh_client \<Rightarrow> mesh_client \<times> mesh_out list" where
  "call_step p (IceEvent e sdp) c = ice_event_on p e sdp c"
| "call_step p (HeartbeatLost sdp) c = on_unhealthy p sdp c"
| "call_step p (AnswerIn d) c = on_answer_msg p d c"
| "call_step p (OfferIn d sdp) c = answer_offer p d sdp c"

fun call_run :: "string \<Rightarrow> call_event list \<Rightarrow> mesh_client \<Rightarrow> mesh_client \<times> mesh_out list" where
  "call_run p [] c = (c, [])"
| "call_run p (e # es) c = (case call_step p e c of (c1, out1) \<Rightarrow> (case call_run p es c1 of (c2, out2) \<Rightarrow> (c2, out1 @ out2)))"

fun is_offer :: "mesh_out \<Rightarrow> bool" where
  "is_offer (ToServer (Offer x raw)) = True"
| "is_offer _ = False"

text \<open>The offers a connection sends after it was made are restarts.\<close>

definition restarts :: "mesh_out list \<Rightarrow> nat" where
  "restarts outs = length (filter is_offer outs)"

fun lost_or_failed :: "call_event \<Rightarrow> bool" where
  "lost_or_failed (IceEvent (IceChange s) sdp) \<longleftrightarrow> s = IceDisconnected \<or> s = IceFailed"
| "lost_or_failed _ \<longleftrightarrow> False"

fun beat_lost :: "call_event \<Rightarrow> bool" where
  "beat_lost (HeartbeatLost sdp) \<longleftrightarrow> True"
| "beat_lost _ \<longleftrightarrow> False"

definition outages :: "call_event list \<Rightarrow> nat" where
  "outages es = length (filter lost_or_failed es)"

definition heartbeats_lost :: "call_event list \<Rightarrow> nat" where
  "heartbeats_lost es = length (filter beat_lost es)"

lemma set_local_offer_kept: "set_local_offer d pc = Some pc' \<Longrightarrow> pc_offerer pc' = pc_offerer pc \<and> pc_timer pc' = pc_timer pc"
  by (auto simp: set_local_offer_def split: if_splits)

lemma set_remote_kept: "set_remote d pc = Some pc' \<Longrightarrow> pc_offerer pc' = pc_offerer pc \<and> pc_timer pc' = pc_timer pc"
  by (auto simp: set_remote_def split: if_splits)

lemma set_local_answer_kept: "set_local_answer d pc = Some pc' \<Longrightarrow> pc_offerer pc' = pc_offerer pc \<and> pc_timer pc' = pc_timer pc"
  by (auto simp: set_local_answer_def split: if_splits)

lemmas pc_kept = set_local_offer_kept set_remote_kept set_local_answer_kept

lemma restart_step:
  assumes "jm_get (mc_pcs c) p = Some pc" "restartIceForPeer p sdp c = (c', out)"
  shows "(\<exists>pc'. jm_get (mc_pcs c') p = Some pc' \<and> pc_offerer pc' = pc_offerer pc \<and> pc_timer pc' = pc_timer pc) \<and> restarts out \<le> 1"
  using assms by (auto simp: restartIceForPeer_def offer_to_def put_pc_def restarts_def emit_offer_def Let_def dest: pc_kept split: option.splits prod.splits)

lemma ice_step_bound:
  assumes "ice_step e pc = (pc', b)"
  shows "pc_offerer pc' = pc_offerer pc \<and> (b \<longrightarrow> pc_offerer pc)
    \<and> of_bool b + of_bool (pc_timer pc') \<le> of_bool (pc_timer pc) + (of_bool (lost_or_failed (IceEvent e sdp)) :: nat)"
  using assms by (auto simp: ice_step_def Let_def split: ice_event.splits if_splits)

lemma call_step_bound:
  assumes pc: "jm_get (mc_pcs c) p = Some pc" and step: "call_step p e c = (c', out)"
  shows "\<exists>pc'. jm_get (mc_pcs c') p = Some pc' \<and> pc_offerer pc' = pc_offerer pc \<and>
    restarts out + of_bool (pc_timer pc' \<and> pc_offerer pc) \<le> of_bool (pc_timer pc \<and> pc_offerer pc) + (if pc_offerer pc then outages [e] else 0) + heartbeats_lost [e]"
proof (cases e)
  case (IceEvent i sdp)
  obtain pc1 b where i: "ice_step i pc = (pc1, b)" by fastforce
  note bound = ice_step_bound [OF i, of sdp]
  have there: "jm_get (mc_pcs (put_pc p pc1 c)) p = Some pc1" by (simp add: put_pc_def)
  show ?thesis
  proof (cases b)
    case True
    then have r: "restartIceForPeer p sdp (put_pc p pc1 c) = (c', out)" using step i pc by (simp add: IceEvent ice_event_on_def)
    from restart_step [OF there r] bound True show ?thesis
      by (auto simp: IceEvent outages_def heartbeats_lost_def split: if_splits)
  next
    case False
    then have "c' = put_pc p pc1 c" "out = []" using step i pc by (simp_all add: IceEvent ice_event_on_def)
    with there bound False show ?thesis
      by (cases "pc_timer pc") (auto simp: IceEvent outages_def heartbeats_lost_def restarts_def split: if_splits)
  qed
next
  case (HeartbeatLost sdp)
  with restart_step [OF pc] step show ?thesis by (fastforce simp: on_unhealthy_def outages_def heartbeats_lost_def)
next
  case (AnswerIn d)
  with pc step show ?thesis
    by (auto simp: on_answer_msg_def put_pc_def restarts_def outages_def heartbeats_lost_def dest: pc_kept split: option.splits)
next
  case (OfferIn d sdp)
  with pc step show ?thesis
    by (auto simp: answer_offer_def put_pc_def restarts_def emit_answer_def outages_def heartbeats_lost_def Let_def dest!: pc_kept split: option.splits)
qed

lemma call_run_bound:
  "jm_get (mc_pcs c) p = Some pc \<Longrightarrow>
    restarts (snd (call_run p es c)) \<le> of_bool (pc_timer pc \<and> pc_offerer pc) + (if pc_offerer pc then outages es else 0) + heartbeats_lost es"
proof (induction es arbitrary: c pc)
  case (Cons e es)
  obtain c1 out1 where s: "call_step p e c = (c1, out1)" by fastforce
  from call_step_bound [OF Cons.prems s] obtain pc1 where pc1: "jm_get (mc_pcs c1) p = Some pc1" "pc_offerer pc1 = pc_offerer pc"
    "restarts out1 + of_bool (pc_timer pc1 \<and> pc_offerer pc)
      \<le> of_bool (pc_timer pc \<and> pc_offerer pc) + (if pc_offerer pc then outages [e] else 0) + heartbeats_lost [e]" by blast
  have "outages (e # es) = outages [e] + outages es" "heartbeats_lost (e # es) = heartbeats_lost [e] + heartbeats_lost es"
    by (simp_all add: outages_def heartbeats_lost_def)
  with Cons.IH [OF pc1(1)] pc1(2,3) s show ?case by (cases "pc_timer pc"; auto simp: restarts_def case_prod_unfold split: if_splits)
qed (simp add: restarts_def)

text \<open>
  C37. How often a connection is restarted after it was made, whatever happens to it and in whatever order, answers and offers of the peer included. On the answering side the
  ICE states never restart it, and on the offering side at most once for each change to \<open>disconnected\<close> or \<open>failed\<close>; besides
  there is, on either side, at most one restart each time the heartbeat gives the peer up, and there is no other. A loss that heals before the timer
  runs out does not restart the connection, one that does not heal restarts it once, and the heartbeat does restart it on both sides.
\<close>

theorem restarts_bounded:
  fixes es :: "call_event list" and c :: mesh_client and p sdp :: string
  defines "new \<equiv> \<lambda>isOfferer. createPC p isOfferer c"
  shows "restarts (snd (call_run p es (new False))) \<le> heartbeats_lost es
    \<and> restarts (snd (call_run p es (new True))) \<le> outages es + heartbeats_lost es
    \<and> snd (call_run p [IceEvent (IceChange IceDisconnected) sdp, IceEvent (IceChange IceConnected) sdp, IceEvent TimerFires sdp] (new True)) = []
    \<and> snd (call_run p [IceEvent (IceChange IceDisconnected) sdp, IceEvent TimerFires sdp] (new True)) = [emit_offer p \<lparr>sd_answer = False, sd_sdp = sdp\<rparr> c]
    \<and> snd (call_run p [HeartbeatLost sdp] (new isOfferer)) = [emit_offer p \<lparr>sd_answer = False, sd_sdp = sdp\<rparr> c]"
proof (intro conjI)
  have at: "\<exists>pc. jm_get (mc_pcs (new b)) p = Some pc \<and> pc_offerer pc = b \<and> \<not> pc_timer pc" for b by (simp add: new_def createPC_def)
  show "restarts (snd (call_run p es (new False))) \<le> heartbeats_lost es"
    using at [of False] call_run_bound [of "new False" p _ es] by fastforce
  show "restarts (snd (call_run p es (new True))) \<le> outages es + heartbeats_lost es"
    using at [of True] call_run_bound [of "new True" p _ es] by fastforce
qed (simp_all add: new_def createPC_def ice_event_on_def ice_step_def on_unhealthy_def restartIceForPeer_def offer_to_def put_pc_def
      set_local_offer_def emit_offer_def Let_def)

end
