(* ===== verification/WebRTCStats.thy ===== *)
theory WebRTCStats imports Prelude begin

text \<open>
  The statistics of the peer connections (\<open>hooks/useWebRTCStats.ts\<close>): what is read from the report of a connection, the rates and the loss
  between two samples, and the history the page draws. Numbers of the report are rational where the code has doubles; the report and the
  clock are inputs. The identifiers in a report are names, so that objects keyed by them keep their order of insertion.
\<close>

section \<open>The report\<close>

datatype candidate_type = Host | Srflx | Prflx | Relay | UnknownType

datatype media_kind = Video | Audio

text \<open>One entry; an absent field is \<open>None\<close>.\<close>

record stat =
  s_id :: string
  s_type :: string
  selectedCandidatePairId :: "string option"
  localCandidateId :: "string option"
  remoteCandidateId :: "string option"
  s_state :: "string option"
  nominated :: bool
  currentRoundTripTime :: "rat option"
  availableOutgoingBitrate :: "rat option"
  availableIncomingBitrate :: "rat option"
  s_bytesSent :: "nat option"
  s_bytesReceived :: "nat option"
  candidateType :: "string option"
  s_address :: "string option"
  s_ip :: "string option"
  s_port :: "nat option"
  s_protocol :: "string option"
  s_relayProtocol :: "string option"
  networkType :: "string option"
  s_priority :: "nat option"
  mimeType :: "string option"
  s_kind :: "string option"
  isRemote :: bool
  s_packetsLost :: "int option"
  s_packetsReceived :: "nat option"
  s_packetsSent :: "nat option"
  s_jitter :: "rat option"
  s_framesPerSecond :: "rat option"
  s_frameWidth :: "nat option"
  s_frameHeight :: "nat option"
  codecId :: "string option"

record prev_stats =
  bytesIn :: nat
  bytesOut :: nat
  prev_lost :: int
  prev_received :: nat
  prev_t :: int

definition MAX_HISTORY :: nat where
  "MAX_HISTORY = 60"

definition asCandidateType :: "string option \<Rightarrow> candidate_type" where
  "asCandidateType t =
    (if t = Some ''host'' then Host else if t = Some ''srflx'' then Srflx else if t = Some ''prflx'' then Prflx
     else if t = Some ''relay'' then Relay else UnknownType)"

definition codecFromMime :: "string option \<Rightarrow> string option" where
  "codecFromMime mime = (case mime of None \<Rightarrow> None
     | Some m \<Rightarrow> if m = [] then None else if CHR ''/'' \<in> set m then Some (tl (dropWhile (\<lambda>c. c \<noteq> CHR ''/'') m)) else Some m)"

text \<open>The entries of a type, by identifier; a later entry with the same one replaces the earlier.\<close>

definition by_id :: "string \<Rightarrow> stat list \<Rightarrow> (string, stat) jmap" where
  "by_id ty report = fold (\<lambda>s m. if s_type s = ty then jm_set m (s_id s) s else m) report []"

definition last_transport :: "stat list \<Rightarrow> stat option" where
  "last_transport report = (let ts = filter (\<lambda>s. s_type s = ''transport'') report in if ts = [] then None else Some (last ts))"

definition rtp :: "string \<Rightarrow> stat list \<Rightarrow> stat list" where
  "rtp ty report = filter (\<lambda>s. s_type s = ty \<and> \<not> isRemote s) report"

section \<open>What is shown of a connection\<close>

text \<open>The text of an address is made of the address and the port, each \<open>?\<close> when it is not known.\<close>

record candidate_info =
  ci_local :: bool
  ci_candidateType :: candidate_type
  ci_address :: "string option"
  ci_port :: "nat option"
  ci_protocol :: "string option"
  ci_relayProtocol :: "string option"
  ci_networkType :: "string option"
  ci_priority :: "nat option"

record pair_stats =
  localType :: candidate_type
  remoteType :: candidate_type
  localAddress :: "(string option \<times> nat option) option"
  remoteAddress :: "(string option \<times> nat option) option"
  sp_protocol :: "string option"
  sp_relayProtocol :: "string option"
  currentRoundTripTimeMs :: "rat option"
  sp_availableOutgoing :: "rat option"
  sp_availableIncoming :: "rat option"
  sp_bytesSent :: nat
  sp_bytesReceived :: nat
  sp_state :: "string option"

record media_stats =
  ms_kind :: media_kind
  ms_codec :: "string option"
  ms_bytes :: nat
  ms_packets :: nat
  ms_lost :: int
  ms_jitterMs :: rat
  ms_framesPerSecond :: "rat option"
  ms_frameWidth :: "nat option"
  ms_frameHeight :: "nat option"

record peer_stats =
  selectedPair :: "pair_stats option"
  candidates :: "candidate_info list"
  inbound :: "media_stats list"
  outbound :: "media_stats list"
  inboundBps :: rat
  outboundBps :: rat
  ps_packetLossPct :: rat

text \<open>The pair the transport names, else the first nominated pair that succeeded.\<close>

definition selected_stat :: "stat list \<Rightarrow> stat option" where
  "selected_stat report =
    (let pairs = by_id ''candidate-pair'' report;
         selectedId = Option.bind (last_transport report) selectedCandidatePairId in
     (case Option.bind selectedId (jm_get pairs) of
        Some p \<Rightarrow> if the selectedId \<noteq> [] then Some p else find (\<lambda>p. nominated p \<and> s_state p = Some ''succeeded'') (jm_values pairs)
      | None \<Rightarrow> find (\<lambda>p. nominated p \<and> s_state p = Some ''succeeded'') (jm_values pairs)))"

definition count_or_zero :: "nat option \<Rightarrow> nat" where
  "count_or_zero v = (case v of None \<Rightarrow> 0 | Some n \<Rightarrow> n)"

definition address_of :: "stat \<Rightarrow> string option \<times> nat option" where
  "address_of s = (case s_address s of Some a \<Rightarrow> Some a | None \<Rightarrow> s_ip s, s_port s)"

definition pair_info :: "stat list \<Rightarrow> stat \<Rightarrow> pair_stats" where
  "pair_info report p =
    (let localC = Option.bind (localCandidateId p) (jm_get (by_id ''local-candidate'' report));
         remoteC = Option.bind (remoteCandidateId p) (jm_get (by_id ''remote-candidate'' report)) in
     \<lparr>localType = asCandidateType (Option.bind localC candidateType), remoteType = asCandidateType (Option.bind remoteC candidateType),
      localAddress = map_option address_of localC, remoteAddress = map_option address_of remoteC,
      sp_protocol = Option.bind localC s_protocol, sp_relayProtocol = Option.bind localC s_relayProtocol,
      currentRoundTripTimeMs = map_option (\<lambda>r. r * 1000) (currentRoundTripTime p),
      sp_availableOutgoing = availableOutgoingBitrate p, sp_availableIncoming = availableIncomingBitrate p,
      sp_bytesSent = count_or_zero (s_bytesSent p), sp_bytesReceived = count_or_zero (s_bytesReceived p), sp_state = s_state p\<rparr>)"

definition candidate_of :: "bool \<Rightarrow> stat \<Rightarrow> candidate_info" where
  "candidate_of loc c = \<lparr>ci_local = loc, ci_candidateType = asCandidateType (candidateType c), ci_address = fst (address_of c), ci_port = s_port c,
     ci_protocol = s_protocol c, ci_relayProtocol = s_relayProtocol c, ci_networkType = (if loc then networkType c else None),
     ci_priority = (if loc then s_priority c else None)\<rparr>"

definition all_candidates :: "stat list \<Rightarrow> candidate_info list" where
  "all_candidates report = map (candidate_of True) (jm_values (by_id ''local-candidate'' report))
     @ map (candidate_of False) (jm_values (by_id ''remote-candidate'' report))"

definition kind_of :: "stat \<Rightarrow> media_kind option" where
  "kind_of s = (if s_kind s = Some ''video'' then Some Video else if s_kind s = Some ''audio'' then Some Audio else None)"

definition codec_of :: "stat list \<Rightarrow> stat \<Rightarrow> string option" where
  "codec_of report s = (case codecId s of None \<Rightarrow> None
     | Some i \<Rightarrow> if i = [] then None else codecFromMime (Option.bind (jm_get (by_id ''codec'' report) i) mimeType))"

definition inbound_of :: "stat list \<Rightarrow> media_stats list" where
  "inbound_of report = concat (map (\<lambda>s. case kind_of s of None \<Rightarrow> []
     | Some k \<Rightarrow> [\<lparr>ms_kind = k, ms_codec = codec_of report s, ms_bytes = count_or_zero (s_bytesReceived s), ms_packets = count_or_zero (s_packetsReceived s),
         ms_lost = (case s_packetsLost s of None \<Rightarrow> 0 | Some l \<Rightarrow> l), ms_jitterMs = (case s_jitter s of None \<Rightarrow> 0 | Some j \<Rightarrow> j * 1000),
         ms_framesPerSecond = s_framesPerSecond s, ms_frameWidth = s_frameWidth s, ms_frameHeight = s_frameHeight s\<rparr>]) (rtp ''inbound-rtp'' report))"

definition outbound_of :: "stat list \<Rightarrow> media_stats list" where
  "outbound_of report = concat (map (\<lambda>s. case kind_of s of None \<Rightarrow> []
     | Some k \<Rightarrow> [\<lparr>ms_kind = k, ms_codec = codec_of report s, ms_bytes = count_or_zero (s_bytesSent s), ms_packets = count_or_zero (s_packetsSent s),
         ms_lost = 0, ms_jitterMs = 0, ms_framesPerSecond = s_framesPerSecond s, ms_frameWidth = s_frameWidth s, ms_frameHeight = s_frameHeight s\<rparr>]) (rtp ''outbound-rtp'' report))"

definition rates :: "prev_stats option \<Rightarrow> prev_stats \<Rightarrow> rat \<times> rat \<times> rat" where
  "rates prev now =
    (case prev of
       Some p \<Rightarrow>
         if prev_t now > prev_t p then
           (let dt = (of_int (prev_t now - prev_t p) :: rat) / 1000;
                dLost = max 0 (prev_lost now - prev_lost p);
                dRecv = max 0 (int (prev_received now) - int (prev_received p));
                denom = dLost + dRecv in
            (max 0 (of_int (int (bytesIn now) - int (bytesIn p)) * 8 / dt),
             max 0 (of_int (int (bytesOut now) - int (bytesOut p)) * 8 / dt),
             if denom > 0 then of_int dLost / of_int denom * 100 else 0))
         else (0, 0, 0)
     | None \<Rightarrow> (0, 0, 0))"

definition sample_of :: "int \<Rightarrow> stat list \<Rightarrow> prev_stats" where
  "sample_of now report =
    \<lparr>bytesIn = sum_list (map ms_bytes (inbound_of report)), bytesOut = sum_list (map ms_bytes (outbound_of report)),
     prev_lost = sum_list (map ms_lost (inbound_of report)), prev_received = sum_list (map ms_packets (inbound_of report)), prev_t = now\<rparr>"

definition collectPeerStats :: "stat list \<Rightarrow> prev_stats option \<Rightarrow> int \<Rightarrow> peer_stats \<times> prev_stats" where
  "collectPeerStats report prev now =
    (let sample = sample_of now report in
     (case rates prev sample of (inBps, outBps, loss) \<Rightarrow>
       (\<lparr>selectedPair = map_option (pair_info report) (selected_stat report), candidates = all_candidates report,
         inbound = inbound_of report, outbound = outbound_of report, inboundBps = inBps, outboundBps = outBps, ps_packetLossPct = loss\<rparr>, sample)))"

datatype path = NotConnected | Direct | RelayedViaTurn | StunAssisted | PeerReflexive | UnknownPath

definition describePath :: "pair_stats option \<Rightarrow> path" where
  "describePath pair = (case pair of None \<Rightarrow> NotConnected
     | Some p \<Rightarrow>
         if localType p = Host \<and> remoteType p = Host then Direct
         else if localType p = Relay \<or> remoteType p = Relay then RelayedViaTurn
         else if localType p = Srflx \<or> remoteType p = Srflx then StunAssisted
         else if localType p = Prflx \<or> remoteType p = Prflx then PeerReflexive
         else UnknownPath)"

section \<open>The hook\<close>

record history_point =
  hp_t :: int
  hp_in :: rat
  hp_out :: rat
  hp_rtt :: rat

record stats_hook =
  st_stats :: "(string, peer_stats \<times> history_point list) jmap"
  st_prev :: "(string, prev_stats) jmap"

text \<open>What a tick has collected of each peer; \<open>None\<close> when its report could not be had. It is compared with the samples of the state the tick began in.\<close>

definition collect_all :: "(string \<times> stat list option) list \<Rightarrow> int \<Rightarrow> stats_hook \<Rightarrow> (string \<times> (peer_stats \<times> prev_stats) option) list" where
  "collect_all reports now h = map (\<lambda>(p, r). (p, map_option (\<lambda>rep. collectPeerStats rep (jm_get (st_prev h) p) now) r)) reports"

definition point_of :: "int \<Rightarrow> peer_stats \<Rightarrow> history_point" where
  "point_of now s = \<lparr>hp_t = now, hp_in = inboundBps s, hp_out = outboundBps s,
     hp_rtt = (case Option.bind (selectedPair s) currentRoundTripTimeMs of None \<Rightarrow> 0 | Some r \<Rightarrow> r)\<rparr>"

definition last_points :: "history_point list \<Rightarrow> history_point list" where
  "last_points hs = drop (length hs - (MAX_HISTORY - 1)) hs"

definition add_result :: "int \<Rightarrow> stats_hook \<Rightarrow> string \<times> (peer_stats \<times> prev_stats) option \<Rightarrow> stats_hook \<Rightarrow> stats_hook" where
  "add_result now old pr next = (case pr of (p, None) \<Rightarrow> next
     | (p, Some (s, sample)) \<Rightarrow>
         next\<lparr>st_prev := jm_set (st_prev next) p sample,
           st_stats := jm_set (st_stats next) p (s, last_points (case jm_get (st_stats old) p of None \<Rightarrow> [] | Some (_, hs) \<Rightarrow> hs) @ [point_of now s])\<rparr>)"

definition publish_stats :: "int \<Rightarrow> (string \<times> (peer_stats \<times> prev_stats) option) list \<Rightarrow> stats_hook \<Rightarrow> stats_hook" where
  "publish_stats now results h =
    (let h1 = fold (add_result now h) results \<lparr>st_stats = [], st_prev = st_prev h\<rparr> in
     h1\<lparr>st_prev := filter (\<lambda>(p, _). jm_has (st_stats h1) p) (st_prev h1)\<rparr>)"

text \<open>Ticks may overlap: each collects against the state it finds and publishes later, unless the hook has been torn down.\<close>

record stats_machine =
  sm_hook :: stats_hook
  sm_ticks :: "(int \<times> (string \<times> (peer_stats \<times> prev_stats) option) list) list"

datatype stats_event = Tick int "(string \<times> stat list option) list" | Publish nat

definition stats_step :: "stats_event \<Rightarrow> stats_machine \<Rightarrow> stats_machine" where
  "stats_step e m =
    (case e of
       Tick now reports \<Rightarrow> m\<lparr>sm_ticks := sm_ticks m @ [(now, collect_all reports now (sm_hook m))]\<rparr>
     | Publish n \<Rightarrow> if n < length (sm_ticks m)
         then m\<lparr>sm_hook := publish_stats (fst (sm_ticks m ! n)) (snd (sm_ticks m ! n)) (sm_hook m), sm_ticks := take n (sm_ticks m) @ drop (Suc n) (sm_ticks m)\<rparr>
         else m)"

definition stats_run :: "stats_event list \<Rightarrow> stats_machine" where
  "stats_run es = fold stats_step es \<lparr>sm_hook = \<lparr>st_stats = [], st_prev = []\<rparr>, sm_ticks = []\<rparr>"

section \<open>Ranges and history\<close>

definition in_range :: "peer_stats \<Rightarrow> bool" where
  "in_range s \<longleftrightarrow> 0 \<le> inboundBps s \<and> 0 \<le> outboundBps s \<and> 0 \<le> ps_packetLossPct s \<and> ps_packetLossPct s \<le> 100"

lemma loss_range: "0 \<le> (l :: int) \<Longrightarrow> 0 \<le> r \<Longrightarrow> 0 < l + r \<Longrightarrow> (of_int l / of_int (l + r) * 100 :: rat) \<le> 100 \<and> 0 \<le> (of_int l / of_int (l + r) * 100 :: rat)"
proof -
  assume a: "0 \<le> l" "0 \<le> r" "0 < l + r"
  have d: "0 < rat_of_int (l + r)" "rat_of_int l \<le> rat_of_int (l + r)" "0 \<le> rat_of_int l" using a by (simp_all only: of_int_0_less_iff of_int_le_iff of_int_0_le_iff)
  obtain x where x: "x = rat_of_int l / rat_of_int (l + r)" by simp
  have "x \<le> 1" using d unfolding x by (simp only: pos_divide_le_eq mult_1)
  moreover have "0 \<le> x" using d unfolding x by (intro divide_nonneg_pos)
  ultimately show ?thesis unfolding x [symmetric] by linarith
qed

lemma rates_range:
  "rates prev now = (i, u, l) \<Longrightarrow> 0 \<le> i \<and> 0 \<le> u \<and> 0 \<le> l \<and> l \<le> 100"
  using loss_range [of "max 0 (prev_lost now - prev_lost (the prev))" "max 0 (int (prev_received now) - int (prev_received (the prev)))"]
  by (auto simp: rates_def Let_def split: option.splits if_splits)

lemma collect_range: "in_range (fst (collectPeerStats report prev now))"
  using rates_range [of prev "sample_of now report"] by (auto simp: collectPeerStats_def in_range_def Let_def split: prod.split)

definition results_ok :: "(string \<times> (peer_stats \<times> prev_stats) option) list \<Rightarrow> bool" where
  "results_ok rs \<longleftrightarrow> (\<forall>(p, r) \<in> set rs. case r of None \<Rightarrow> True | Some (s, _) \<Rightarrow> in_range s)"

definition stats_ok :: "stats_hook \<Rightarrow> bool" where
  "stats_ok h \<longleftrightarrow> (\<forall>p s hs. jm_get (st_stats h) p = Some (s, hs) \<longrightarrow> in_range s \<and> hs \<noteq> [] \<and> length hs \<le> MAX_HISTORY)"

lemma collect_all_ok: "results_ok (collect_all reports now h)"
  using collect_range by (auto simp: results_ok_def collect_all_def split: option.splits) (metis fst_conv)

lemma length_last_points: "length (last_points hs) < MAX_HISTORY"
  by (simp add: last_points_def MAX_HISTORY_def)

lemma add_result_ok: "stats_ok next \<Longrightarrow> results_ok [pr] \<Longrightarrow> stats_ok (add_result now old pr next)"
  using length_last_points by (cases pr) (auto simp: add_result_def stats_ok_def results_ok_def Suc_le_eq split: option.splits prod.splits)

lemma fold_results_ok: "stats_ok h1 \<Longrightarrow> results_ok rs \<Longrightarrow> stats_ok (fold (add_result now old) rs h1)"
  by (induction rs arbitrary: h1) (simp_all add: add_result_ok results_ok_def)

lemma publish_ok: "results_ok rs \<Longrightarrow> stats_ok (publish_stats now rs h)"
proof -
  assume rs: "results_ok rs"
  have "stats_ok (fold (add_result now h) rs \<lparr>st_stats = [], st_prev = st_prev h\<rparr>)" by (rule fold_results_ok [OF _ rs]) (simp add: stats_ok_def)
  then show ?thesis by (simp add: publish_stats_def Let_def stats_ok_def)
qed

text \<open>Samples are kept of the peers shown, and of no others.\<close>

definition samples_match :: "stats_hook \<Rightarrow> bool" where
  "samples_match h \<longleftrightarrow> (\<forall>p. jm_has (st_prev h) p \<longleftrightarrow> jm_has (st_stats h) p)"

lemma fold_results_dom:
  "(jm_has (st_stats (fold (add_result now old) rs h1)) p \<longleftrightarrow> jm_has (st_stats h1) p \<or> (\<exists>r. (p, Some r) \<in> set rs)) \<and>
   (jm_has (st_prev (fold (add_result now old) rs h1)) p \<longleftrightarrow> jm_has (st_prev h1) p \<or> (\<exists>r. (p, Some r) \<in> set rs))"
proof (induction rs arbitrary: h1)
  case (Cons pr rs)
  obtain q r where pr: "pr = (q, r)" by (cases pr)
  have "jm_has (st_stats (add_result now old pr h1)) p \<longleftrightarrow> jm_has (st_stats h1) p \<or> p = q \<and> r \<noteq> None"
    "jm_has (st_prev (add_result now old pr h1)) p \<longleftrightarrow> jm_has (st_prev h1) p \<or> p = q \<and> r \<noteq> None"
    by (auto simp: pr add_result_def split: option.split prod.split)
  moreover have "(\<exists>r'. (p, Some r') \<in> set (pr # rs)) \<longleftrightarrow> p = q \<and> r \<noteq> None \<or> (\<exists>r'. (p, Some r') \<in> set rs)" unfolding pr by (cases r) auto
  ultimately show ?case using Cons [of "add_result now old pr h1"] unfolding fold_Cons o_apply by argo
qed simp

lemma get_filter_key: "map_of (filter (\<lambda>(k, _). P k) m) k = (if P k then map_of m k else None)"
  by (induction m) auto

lemma publish_samples: "samples_match (publish_stats now rs h)"
proof -
  let ?h1 = "fold (add_result now h) rs \<lparr>st_stats = [], st_prev = st_prev h\<rparr>"
  have "jm_has (st_stats ?h1) p \<Longrightarrow> jm_has (st_prev ?h1) p" for p
    using fold_results_dom [of now h rs "\<lparr>st_stats = [], st_prev = st_prev h\<rparr>" p] by auto
  then show ?thesis by (auto simp: samples_match_def publish_stats_def Let_def get_filter_key)
qed

definition machine_ok :: "stats_machine \<Rightarrow> bool" where
  "machine_ok m \<longleftrightarrow> stats_ok (sm_hook m) \<and> samples_match (sm_hook m) \<and> (\<forall>t \<in> set (sm_ticks m). results_ok (snd t))"

interpretation stats: event_machine stats_step machine_ok
proof
  fix m e assume ok: "machine_ok m"
  show "machine_ok (stats_step e m)"
  proof (cases e)
    case (Tick now reports)
    with ok collect_all_ok show ?thesis by (auto simp: stats_step_def machine_ok_def)
  next
    case (Publish n)
    have "set (take n (sm_ticks m) @ drop (Suc n) (sm_ticks m)) \<subseteq> set (sm_ticks m)" by (auto dest: in_set_takeD in_set_dropD)
    with ok Publish publish_ok publish_samples show ?thesis by (auto simp: stats_step_def machine_ok_def)
  qed
qed

text \<open>
  Whatever the browser reports, in whatever order overlapping ticks publish: the rates shown are not negative, the loss is a percentage,
  every peer shown has between 1 and 60 points of history, and samples are kept of exactly the peers shown.
\<close>

theorem stats_in_range:
  fixes es :: "stats_event list"
  defines "h \<equiv> sm_hook (stats_run es)"
  shows "(jm_has (st_prev h) p \<longleftrightarrow> jm_has (st_stats h) p) \<and>
    (case jm_get (st_stats h) p of None \<Rightarrow> True
     | Some (s, hs) \<Rightarrow> 0 \<le> inboundBps s \<and> 0 \<le> outboundBps s \<and> 0 \<le> ps_packetLossPct s \<and> ps_packetLossPct s \<le> 100 \<and> 1 \<le> length hs \<and> length hs \<le> 60)"
proof -
  have "machine_ok (stats_run es)" unfolding stats_run_def
    by (rule stats.run_good) (simp add: machine_ok_def stats_ok_def samples_match_def)
  then show ?thesis unfolding h_def
    by (auto simp: machine_ok_def stats_ok_def samples_match_def in_range_def MAX_HISTORY_def Suc_le_eq split: option.split prod.split)
qed

end
