(* ===== verification/Sampler.thy ===== *)
theory Sampler imports Sfu SignalingProps begin

text \<open>
  The metrics of the server (\<open>observability/metrics.ts\<close>, \<open>observability/sampler.ts\<close>): a periodic tick that reads the room manager, the
  sockets and the sessions of the forwarding unit and sets the gauges. The byte counters of mediasoup and the clock are inputs of a tick.
  The registry of the metrics library is a map from labels to values.
\<close>

section \<open>Gauges\<close>

record gauges =
  gaugeRooms :: nat
  gaugePeers :: nat
  gaugeRoomSize :: "(string, nat) jmap"
  gaugeRoomMode :: "(string \<times> room_mode, nat) jmap"
  gaugeRouters :: nat
  gaugeProducers :: nat
  gaugeConsumers :: nat
  gaugeSfuEgressBps :: rat
  gaugeSfuIngressBps :: rat

record byte_sample =
  bs_bytes :: rat
  bs_t :: int

record sampler =
  sa_gauges :: gauges
  prevEgress :: "byte_sample option"
  prevIngress :: "byte_sample option"

definition new_sampler :: sampler where
  "new_sampler = \<lparr>sa_gauges = \<lparr>gaugeRooms = 0, gaugePeers = 0, gaugeRoomSize = [], gaugeRoomMode = [], gaugeRouters = 0, gaugeProducers = 0,
     gaugeConsumers = 0, gaugeSfuEgressBps = 0, gaugeSfuIngressBps = 0\<rparr>, prevEgress = None, prevIngress = None\<rparr>"

section \<open>Bytes\<close>

text \<open>The first of four names under which a report has a number.\<close>

definition readBytes :: "jsval \<Rightarrow> rat" where
  "readBytes v =
    (case find (\<lambda>k. case jget v k of Some (JNum _) \<Rightarrow> True | _ \<Rightarrow> False) [''bytesSent'', ''byteCount'', ''rtpBytes'', ''bytes''] of
       None \<Rightarrow> 0
     | Some k \<Rightarrow> (case jget v k of Some (JNum x) \<Rightarrow> x | _ \<Rightarrow> 0))"

text \<open>The reports of one object; \<open>None\<close> when the worker refuses.\<close>

definition object_bytes :: "json list option \<Rightarrow> rat" where
  "object_bytes r = (case r of None \<Rightarrow> 0 | Some stats \<Rightarrow> sum_list (map (\<lambda>s. readBytes (Some s)) stats))"

definition bits_per_second :: "byte_sample option \<Rightarrow> rat \<Rightarrow> int \<Rightarrow> rat \<Rightarrow> rat" where
  "bits_per_second prev bytes now old =
    (case prev of None \<Rightarrow> old
     | Some p \<Rightarrow> let dt = of_int (now - bs_t p) / 1000 in if dt > 0 then max 0 ((bytes - bs_bytes p) * 8 / dt) else old)"

section \<open>The tick\<close>

text \<open>The rooms of the adapter that are not the private room of a socket.\<close>

definition real_rooms :: "'a config \<Rightarrow> 'a server \<Rightarrow> (string \<times> string list) list" where
  "real_rooms cf st = filter (\<lambda>(r, _). \<not> jm_has (sv_sockets st) r) (io_rooms (cf_io cf) (sv_io st))"

definition set_room :: "'a server \<Rightarrow> string \<times> string list \<Rightarrow> gauges \<Rightarrow> gauges" where
  "set_room st rm g = (case rm of (r, ms) \<Rightarrow>
     g\<lparr>gaugeRoomSize := jm_set (gaugeRoomSize g) r (length ms),
       gaugeRoomMode := jm_set (jm_set (gaugeRoomMode g) (r, Mesh) (of_bool (currentMode r st = Mesh))) (r, Sfu) (of_bool (currentMode r st = Sfu))\<rparr>)"

definition sample_rooms :: "'a config \<Rightarrow> 'a server \<Rightarrow> gauges \<Rightarrow> gauges" where
  "sample_rooms cf st g =
    (fold (set_room st) (real_rooms cf st) (g\<lparr>gaugeRoomSize := [], gaugeRoomMode := []\<rparr>))\<lparr>gaugeRooms := length (real_rooms cf st),
      gaugePeers := length (sv_sockets st)\<rparr>"

text \<open>The sessions are found through the rooms.\<close>

definition refreshAllSessionsCache :: "'a config \<Rightarrow> 'a server \<Rightarrow> sfu_state \<Rightarrow> (string, sfu_session) jmap" where
  "refreshAllSessionsCache cf st s =
    fold (\<lambda>(r, _) cache. fold (\<lambda>(sock, ses) cache. jm_set cache sock ses) (sessionsInRoom s r) cache) (real_rooms cf st) []"

definition sample_sfu :: "(string \<Rightarrow> json list option) \<Rightarrow> (string, sfu_session) jmap \<Rightarrow> rat \<times> rat \<times> nat \<times> nat \<times> nat" where
  "sample_sfu report cache =
    (let ses = jm_values cache;
         ps = concat (map (\<lambda>s. jm_keys (producers s)) ses);
         cs = concat (map (\<lambda>s. jm_keys (consumers s)) ses) in
     (sum_list (map (\<lambda>c. object_bytes (report c)) cs), sum_list (map (\<lambda>p. object_bytes (report p)) ps), length ps, length cs,
      length (remdups (map ses_roomId ses))))"

definition sampler_tick :: "'a config \<Rightarrow> int \<Rightarrow> (string \<Rightarrow> json list option) \<Rightarrow> 'a server \<Rightarrow> sfu_state \<Rightarrow> sampler \<Rightarrow> sampler" where
  "sampler_tick cf now report st s sa =
    (let g = sample_rooms cf st (sa_gauges sa) in
     (case sample_sfu report (refreshAllSessionsCache cf st s) of (egress, ingress, np, nc, nr) \<Rightarrow>
       \<lparr>sa_gauges = g\<lparr>gaugeProducers := np, gaugeConsumers := nc, gaugeRouters := nr,
          gaugeSfuEgressBps := bits_per_second (prevEgress sa) egress now (gaugeSfuEgressBps g),
          gaugeSfuIngressBps := bits_per_second (prevIngress sa) ingress now (gaugeSfuIngressBps g)\<rparr>,
        prevEgress = Some \<lparr>bs_bytes = egress, bs_t = now\<rparr>, prevIngress = Some \<lparr>bs_bytes = ingress, bs_t = now\<rparr>\<rparr>))"

section \<open>What the gauges say\<close>

lemma set_room_get:
  "jm_get (gaugeRoomSize (set_room st (r, ms) g)) r' = (if r' = r then Some (length ms) else jm_get (gaugeRoomSize g) r')"
  "jm_get (gaugeRoomMode (set_room st (r, ms) g)) (r', m) = (if r' = r then Some (of_bool (currentMode r st = m)) else jm_get (gaugeRoomMode g) (r', m))"
  by (cases m; auto simp: set_room_def)+

lemma fold_set_room:
  "distinct (map fst rms) \<Longrightarrow> jm_get (gaugeRoomSize (fold (set_room st) rms g)) r =
      (case map_of rms r of None \<Rightarrow> jm_get (gaugeRoomSize g) r | Some ms \<Rightarrow> Some (length ms)) \<and>
    jm_get (gaugeRoomMode (fold (set_room st) rms g)) (r, m) =
      (case map_of rms r of None \<Rightarrow> jm_get (gaugeRoomMode g) (r, m) | Some ms \<Rightarrow> Some (of_bool (currentMode r st = m)))"
proof (induction rms arbitrary: g)
  case (Cons rm rms)
  obtain r' ms where rm: "rm = (r', ms)" by (cases rm)
  from Cons.prems rm have "map_of rms r' = None" "distinct (map fst rms)" by (auto simp: map_of_eq_None_iff)
  with Cons.IH [of "set_room st rm g"] show ?case by (auto simp: rm set_room_get split: option.split)
qed simp

lemma map_of_filter_key: "map_of (filter (\<lambda>(k, _). P k) m) k = (if P k then map_of m k else None)"
  by (induction m) auto

definition bps_ok :: "sampler \<Rightarrow> bool" where
  "bps_ok sa \<longleftrightarrow> 0 \<le> gaugeSfuEgressBps (sa_gauges sa) \<and> 0 \<le> gaugeSfuIngressBps (sa_gauges sa)"

lemma bits_not_negative: "0 \<le> old \<Longrightarrow> 0 \<le> bits_per_second prev bytes now old"
  by (simp add: bits_per_second_def Let_def split: option.split)

lemma fold_set_room_bps:
  "gaugeSfuEgressBps (fold (set_room st) rms g) = gaugeSfuEgressBps g \<and> gaugeSfuIngressBps (fold (set_room st) rms g) = gaugeSfuIngressBps g"
  by (induction rms arbitrary: g) (auto simp: set_room_def split: prod.split)

lemma sample_rooms_bps [simp]:
  "gaugeSfuEgressBps (sample_rooms cf st g) = gaugeSfuEgressBps g" "gaugeSfuIngressBps (sample_rooms cf st g) = gaugeSfuIngressBps g"
  by (simp_all add: sample_rooms_def fold_set_room_bps)

lemma tick_bps: "bps_ok sa \<Longrightarrow> bps_ok (sampler_tick cf now report st s sa)"
  by (simp add: bps_ok_def sampler_tick_def bits_not_negative Let_def split: prod.split)

interpretation ticks: event_machine "\<lambda>(now, report, st, s) sa. sampler_tick cf now report st s sa" bps_ok for cf :: "'a config"
  by unfold_locales (auto simp: tick_bps)

text \<open>
  After every tick the gauges are those of the server: each room that is nobody's private room has its number of members and exactly
  one mode set, every other label has no value, and the bit rates are not negative, whatever the counters of the worker do.
\<close>

theorem gauges_match_server:
  fixes ticks :: "(int \<times> (string \<Rightarrow> json list option) \<times> 'a server \<times> sfu_state) list" and now :: int
    and report :: "string \<Rightarrow> json list option" and s :: sfu_state
  assumes "distinct (map fst (io_rooms (cf_io cf) (sv_io st)))"
  defines "g \<equiv> sa_gauges (fold (\<lambda>(now, report, st, s) sa. sampler_tick cf now report st s sa) (ticks @ [(now, report, st, s)]) new_sampler)"
  shows "jm_get (gaugeRoomSize g) r = (if jm_has (sv_sockets st) r then None else map_option length (map_of (io_rooms (cf_io cf) (sv_io st)) r)) \<and>
    jm_get (gaugeRoomMode g) (r, m) = (if jm_has (sv_sockets st) r \<or> map_of (io_rooms (cf_io cf) (sv_io st)) r = None then None
      else Some (of_bool (currentMode r st = m))) \<and>
    gaugePeers g = length (sv_sockets st) \<and> 0 \<le> gaugeSfuEgressBps g \<and> 0 \<le> gaugeSfuIngressBps g"
proof -
  define sa where "sa = fold (\<lambda>(now, report, st, s) sa. sampler_tick cf now report st s sa) ticks new_sampler"
  have g: "g = sa_gauges (sampler_tick cf now report st s sa)" by (simp add: g_def sa_def)
  have "bps_ok new_sampler" by (simp add: bps_ok_def new_sampler_def)
  then have "bps_ok sa" unfolding sa_def by (rule ticks.run_good)
  then have bps: "0 \<le> gaugeSfuEgressBps g \<and> 0 \<le> gaugeSfuIngressBps g" using tick_bps [of sa cf now report st s] by (simp add: g bps_ok_def)
  have d: "distinct (map fst (real_rooms cf st))" using assms(1) unfolding real_rooms_def by (rule distinct_map_filter)
  have rooms: "map_of (real_rooms cf st) r = (if jm_has (sv_sockets st) r then None else map_of (io_rooms (cf_io cf) (sv_io st)) r)"
    unfolding real_rooms_def by (subst map_of_filter_key) simp
  note fold = fold_set_room [OF d, of st "(sa_gauges sa)\<lparr>gaugeRoomSize := [], gaugeRoomMode := []\<rparr>" r m]
  have "jm_get (gaugeRoomSize g) r = map_option length (map_of (real_rooms cf st) r)"
    "jm_get (gaugeRoomMode g) (r, m) = map_option (\<lambda>_. of_bool (currentMode r st = m)) (map_of (real_rooms cf st) r)" "gaugePeers g = length (sv_sockets st)"
    using fold by (auto simp: g sampler_tick_def sample_rooms_def Let_def split: prod.split option.split)
  with bps show ?thesis by (auto simp: rooms)
qed

theorem gauges_match_server_witness:
  "jm_get (gaugeRoomSize (sa_gauges (fold (\<lambda>(now, report, st, s) sa. sampler_tick demo_cf now report st s sa) ([] @ [(5, \<lambda>_. None, demo_pair, sfu_init)]) new_sampler))) ''r'' = Some 2"
proof -
  have "distinct (map fst (io_rooms (cf_io demo_cf) (sv_io demo_pair)))" "map_of (io_rooms (cf_io demo_cf) (sv_io demo_pair)) ''r'' = Some [''a'', ''b'']"
    "\<not> jm_has (sv_sockets demo_pair) ''r''"
    by code_simp+
  with gauges_match_server [of demo_cf demo_pair "[]" 5 "\<lambda>_. None" sfu_init "''r''" Mesh] show ?thesis by simp
qed

text \<open>
  The sessions are counted through the rooms of the adapter: a session whose room has emptied is in no gauge.
\<close>

lemma fold_sessions:
  "dom (jm_get (fold (\<lambda>(sock, ses) cache. jm_set cache sock ses) xs cache)) = fst ` set xs \<union> dom (jm_get cache)"
proof (induction xs arbitrary: cache)
  case (Cons x xs)
  obtain sock ses where "x = (sock, ses)" by (cases x)
  moreover have "dom (jm_get (jm_set cache sock ses)) = insert sock (dom (jm_get cache))" by auto
  ultimately show ?case using Cons by (simp only: fold_simps case_prod_conv) auto
qed simp

lemma fold_rooms_sessions:
  "dom (jm_get (fold (\<lambda>(r, _) cache. fold (\<lambda>(sock, ses) cache. jm_set cache sock ses) (sessionsInRoom s r) cache) rms cache)) =
    (\<Union>r \<in> fst ` set rms. fst ` set (sessionsInRoom s r)) \<union> dom (jm_get cache)"
proof (induction rms arbitrary: cache)
  case (Cons rm rms)
  obtain r ms where "rm = (r, ms)" by (cases rm)
  with Cons show ?case by (simp only: fold_simps case_prod_conv fold_sessions) auto
qed simp

lemma cache_rooms:
  "dom (jm_get (refreshAllSessionsCache cf st s)) = (\<Union>r \<in> fst ` set (real_rooms cf st). fst ` set (sessionsInRoom s r))"
  by (simp only: refreshAllSessionsCache_def fold_rooms_sessions) simp

end
