(* ===== verification/SafetyNumbers.thy ===== *)
theory SafetyNumbers imports ChatCrypto begin

text \<open>
  The verification panel of the room (\<open>components/RoomView.tsx\<close>): the safety numbers, computed asynchronously whenever the keys change, and the
  keys the user has marked as verified. The public keys it is given are those of the chat state of \<open>pages/Index.tsx\<close>.
\<close>

section \<open>The panel\<close>

record panel =
  pn_my :: "string option"
  pn_keys :: "(string, string) jmap"
  pn_runs :: "(bool \<times> string \<times> (string, string) jmap) list"
  pn_numbers :: "(string, string) jmap"
  pn_verified :: "(string, bool) jmap"

definition new_panel :: panel where
  "new_panel = \<lparr>pn_my = None, pn_keys = [], pn_runs = [], pn_numbers = [], pn_verified = []\<rparr>"

text \<open>New keys from the parent; a computation of the numbers that ends; a click on the button of a peer.\<close>

datatype panel_event = NewKeys "string option" "(string, string) jmap" | NumbersReady nat | ToggleVerified string

definition compute_numbers :: "web_crypto \<Rightarrow> string \<Rightarrow> (string, string) jmap \<Rightarrow> (string, string) jmap" where
  "compute_numbers W my keys = map (\<lambda>(p, k). (p, safetyNumber W my k)) keys"

text \<open>The effect: the clean-up cancels the computation under way, and without an own key nothing is shown.\<close>

definition on_new_keys :: "string option \<Rightarrow> (string, string) jmap \<Rightarrow> panel \<Rightarrow> panel" where
  "on_new_keys my keys pn =
    (let pn1 = pn\<lparr>pn_my := my, pn_keys := keys, pn_runs := map (\<lambda>(c, r). (True, r)) (pn_runs pn)\<rparr> in
     (case my of
        None \<Rightarrow> pn1\<lparr>pn_numbers := []\<rparr>
      | Some m \<Rightarrow> if m = [] then pn1\<lparr>pn_numbers := []\<rparr> else pn1\<lparr>pn_runs := pn_runs pn1 @ [(False, m, keys)]\<rparr>))"

definition on_numbers_ready :: "web_crypto \<Rightarrow> nat \<Rightarrow> panel \<Rightarrow> panel" where
  "on_numbers_ready W n pn =
    (if n < length (pn_runs pn)
     then (case pn_runs pn ! n of (cancelled, my, keys) \<Rightarrow>
       (let pn1 = pn\<lparr>pn_runs := take n (pn_runs pn) @ drop (Suc n) (pn_runs pn)\<rparr>
        in if cancelled then pn1 else pn1\<lparr>pn_numbers := compute_numbers W my keys\<rparr>))
     else pn)"

text \<open>What a peer's row shows.\<close>

datatype badge = AwaitingKey | VerifiedBadge | EncryptedBadge

definition their_key :: "panel \<Rightarrow> string \<Rightarrow> string option" where
  "their_key pn p = (case jm_get (pn_keys pn) p of None \<Rightarrow> None | Some k \<Rightarrow> if k = [] then None else Some k)"

definition is_verified :: "panel \<Rightarrow> string \<Rightarrow> bool" where
  "is_verified pn k = (jm_get (pn_verified pn) k = Some True)"

definition row_badge :: "panel \<Rightarrow> string \<Rightarrow> badge" where
  "row_badge pn p = (case their_key pn p of None \<Rightarrow> AwaitingKey | Some k \<Rightarrow> if is_verified pn k then VerifiedBadge else EncryptedBadge)"

definition row_number :: "panel \<Rightarrow> string \<Rightarrow> string option" where
  "row_number pn p = (case their_key pn p of None \<Rightarrow> None
     | Some k \<Rightarrow> (case jm_get (pn_numbers pn) p of None \<Rightarrow> None | Some n \<Rightarrow> if n = [] then None else Some n))"

text \<open>The button is there when a number is, and marks the key the peer has now.\<close>

definition toggle_verified :: "string \<Rightarrow> panel \<Rightarrow> panel" where
  "toggle_verified p pn =
    (case their_key pn p of None \<Rightarrow> pn
     | Some k \<Rightarrow> if row_number pn p = None then pn else pn\<lparr>pn_verified := jm_set (pn_verified pn) k (\<not> is_verified pn k)\<rparr>)"

definition remotePeers :: "string \<Rightarrow> (string \<times> string) list \<Rightarrow> (string \<times> string) list" where
  "remotePeers username participants = filter (\<lambda>(p, name). name \<noteq> username) participants"

definition encryptedCount :: "panel \<Rightarrow> (string \<times> string) list \<Rightarrow> nat" where
  "encryptedCount pn ps = length (filter (\<lambda>(p, name). their_key pn p \<noteq> None) ps)"

definition verifiedCount :: "panel \<Rightarrow> (string \<times> string) list \<Rightarrow> nat" where
  "verifiedCount pn ps = length (filter (\<lambda>(p, name). row_badge pn p = VerifiedBadge) ps)"

definition panel_step :: "web_crypto \<Rightarrow> panel_event \<Rightarrow> panel \<Rightarrow> panel" where
  "panel_step W e = (case e of NewKeys my keys \<Rightarrow> on_new_keys my keys | NumbersReady n \<Rightarrow> on_numbers_ready W n | ToggleVerified p \<Rightarrow> toggle_verified p)"

definition panel_run :: "web_crypto \<Rightarrow> panel_event list \<Rightarrow> panel" where
  "panel_run W es = fold (panel_step W) es new_panel"

text \<open>No computation is under way.\<close>

definition settled :: "panel \<Rightarrow> bool" where
  "settled pn \<longleftrightarrow> list_all fst (pn_runs pn)"

section \<open>The numbers belong to the keys\<close>

definition current_numbers :: "web_crypto \<Rightarrow> panel \<Rightarrow> (string, string) jmap" where
  "current_numbers W pn = (case pn_my pn of None \<Rightarrow> [] | Some m \<Rightarrow> if m = [] then [] else compute_numbers W m (pn_keys pn))"

definition panel_ok :: "web_crypto \<Rightarrow> panel \<Rightarrow> bool" where
  "panel_ok W pn \<longleftrightarrow>
    (\<forall>(c, m, keys) \<in> set (pn_runs pn). c \<or> pn_my pn = Some m \<and> m \<noteq> [] \<and> keys = pn_keys pn) \<and>
    (settled pn \<longrightarrow> pn_numbers pn = current_numbers W pn)"

lemma new_keys_ok: "panel_ok W (on_new_keys my keys pn)"
  by (auto simp: panel_ok_def on_new_keys_def settled_def current_numbers_def list_all_iff Let_def split: option.split)

lemma list_all_remove: "n < length xs \<Longrightarrow> list_all P xs \<longleftrightarrow> list_all P (take n xs @ drop (Suc n) xs) \<and> P (xs ! n)"
  by (induction xs arbitrary: n) (auto simp: nth_Cons' take_Cons' drop_Cons' gr0_conv_Suc)

lemma panel_ok_shrink:
  assumes "panel_ok W pn" "set (pn_runs pn') \<subseteq> set (pn_runs pn)" "pn_my pn' = pn_my pn" "pn_keys pn' = pn_keys pn"
    and "settled pn' \<Longrightarrow> pn_numbers pn' = current_numbers W pn"
  shows "panel_ok W pn'"
proof -
  have "current_numbers W pn' = current_numbers W pn" unfolding current_numbers_def assms(3,4) ..
  with assms show ?thesis by (simp add: panel_ok_def subset_iff Ball_def)
qed

lemma numbers_ready_ok:
  assumes "panel_ok W pn" shows "panel_ok W (on_numbers_ready W n pn)"
proof (cases "n < length (pn_runs pn)")
  case lt: True
  obtain c m keys where r: "pn_runs pn ! n = (c, m, keys)" by (cases "pn_runs pn ! n") auto
  have m: "(c, m, keys) \<in> set (pn_runs pn)" using lt r by (metis nth_mem)
  have s: "set (take n (pn_runs pn) @ drop (Suc n) (pn_runs pn)) \<subseteq> set (pn_runs pn)" by (auto dest: in_set_takeD in_set_dropD)
  show ?thesis
  proof (cases c)
    case True
    have "settled pn \<longleftrightarrow> list_all fst (take n (pn_runs pn) @ drop (Suc n) (pn_runs pn))"
      using list_all_remove [OF lt, of fst] True r unfolding settled_def by (simp only: fst_conv simp_thms)
    with assms lt r s True show ?thesis by (intro panel_ok_shrink [OF assms]) (simp_all add: on_numbers_ready_def settled_def panel_ok_def)
  next
    case False
    with m assms have "pn_my pn = Some m" "m \<noteq> []" "keys = pn_keys pn" by (auto simp: panel_ok_def)
    with lt r s False show ?thesis by (intro panel_ok_shrink [OF assms]) (simp_all add: on_numbers_ready_def current_numbers_def)
  qed
qed (use assms in \<open>simp add: on_numbers_ready_def\<close>)

lemma toggle_fields [simp]:
  "pn_my (toggle_verified p pn) = pn_my pn" "pn_keys (toggle_verified p pn) = pn_keys pn" "pn_runs (toggle_verified p pn) = pn_runs pn"
  "pn_numbers (toggle_verified p pn) = pn_numbers pn"
  by (simp_all add: toggle_verified_def split: option.split)

lemma toggle_ok: "panel_ok W pn \<Longrightarrow> panel_ok W (toggle_verified p pn)"
proof -
  have "current_numbers W (toggle_verified p pn) = current_numbers W pn" by (simp add: current_numbers_def split: option.split)
  then show "panel_ok W pn \<Longrightarrow> panel_ok W (toggle_verified p pn)" by (simp add: panel_ok_def settled_def)
qed

interpretation panels: event_machine "panel_step W" "panel_ok W" for W
  by unfold_locales (auto simp: panel_step_def new_keys_ok numbers_ready_ok toggle_ok split: panel_event.split)

lemma panel_run_ok: "panel_ok W (panel_run W es)"
  unfolding panel_run_def by (rule panels.run_good) (simp add: panel_ok_def new_panel_def settled_def current_numbers_def)

lemma get_compute_numbers: "jm_get (compute_numbers W my keys) p = map_option (safetyNumber W my) (jm_get keys p)"
  by (induction keys) (auto simp: compute_numbers_def)

lemma settled_number:
  assumes "settled (panel_run W es)" "pn_my (panel_run W es) = Some my" "row_number (panel_run W es) p = Some n"
  shows "\<exists>k. jm_get (pn_keys (panel_run W es)) p = Some k \<and> k \<noteq> [] \<and> n = safetyNumber W my k"
  using assms panel_run_ok [of W es]
  by (auto simp: panel_ok_def current_numbers_def row_number_def their_key_def get_compute_numbers split: option.splits if_splits)

section \<open>The number determines the keys\<close>

definition ordered_keys :: "string \<Rightarrow> string \<Rightarrow> string" where
  "ordered_keys a b = (if str_less a b then a @ ''|'' @ b else b @ ''|'' @ a)"

definition digest16 :: "web_crypto \<Rightarrow> string \<Rightarrow> bytes" where
  "digest16 W s = take 16 (sha_256 W (utf8_encode s))"

lemma filter_groups4: "CHR '' '' \<notin> set h \<Longrightarrow> length h mod 4 = 0 \<Longrightarrow> concat (groups4 h) = h"
  by (induction h rule: groups4.induct) (auto simp: mod_Suc split: if_splits)

lemma filter_join_space: "(\<And>w. w \<in> set ws \<Longrightarrow> CHR '' '' \<notin> set w) \<Longrightarrow> filter (\<lambda>c. c \<noteq> CHR '' '') (join_space ws) = concat ws"
proof (induction ws)
  case (Cons w ws)
  have "filter (\<lambda>c. c \<noteq> CHR '' '') w = w" if "CHR '' '' \<notin> set w" for w :: string using that by (induction w) auto
  moreover have "filter (\<lambda>c. c \<noteq> CHR '' '') (concat (map ((@) '' '') ws)) = concat ws"
    using Cons.prems calculation by (induction ws) (auto simp: filter_concat)
  ultimately show ?case using Cons.prems by (simp add: join_space_def)
qed (simp add: join_space_def)

lemma groups4_chars: "w \<in> set (groups4 h) \<Longrightarrow> set w \<subseteq> set h"
  by (induction h rule: groups4.induct) auto

lemma hex_digit_inj: "a < 16 \<Longrightarrow> b < 16 \<Longrightarrow> hex_digit a = hex_digit b \<Longrightarrow> a = b"
  by (metis hex_val_digit option.inject)

lemma hex2_inj: "hex2 a = hex2 b \<Longrightarrow> a = b"
proof -
  assume h: "hex2 a = hex2 b"
  have "unat x div 16 < 16" "unat x mod 16 < 16" for x :: byte using unat_byte_lt [of x] by auto
  with h have "unat a div 16 = unat b div 16" "unat a mod 16 = unat b mod 16" by (auto simp: hex2_def intro: hex_digit_inj)
  then have "unat a = unat b" by (metis div_mult_mod_eq)
  then show ?thesis by (rule word_unat_eq_iff [THEN iffD2])
qed

lemma concat_hex2_inj: "concat (map hex2 xs) = concat (map hex2 ys) \<Longrightarrow> xs = ys"
proof (induction xs ys rule: list_induct2')
  case (4 x xs y ys)
  then show ?case using hex2_inj [of x y] by (auto simp: hex2_def)
qed (auto simp: hex2_def)

lemma hex2_no_space: "c \<in> set (hex2 b) \<Longrightarrow> c \<noteq> CHR '' ''"
proof
  assume "c \<in> set (hex2 b)" "c = CHR '' ''"
  moreover have "unat b div 16 < 16" "unat b mod 16 < 16" using unat_byte_lt [of b] by auto
  moreover have "hex_val CHR '' '' = None" by code_simp
  ultimately show False using hex_val_digit [of "unat b div 16"] hex_val_digit [of "unat b mod 16"] by (auto simp: hex2_def)
qed

definition digest_hex :: "web_crypto \<Rightarrow> string \<Rightarrow> string" where
  "digest_hex W s = concat (map hex2 (digest16 W s))"

lemma number_hex:
  assumes "length (sha_256 W (utf8_encode (ordered_keys x y))) = 32"
  shows "filter (\<lambda>c. c \<noteq> CHR '' '') (safetyNumber W x y) = digest_hex W (ordered_keys x y)" "length (digest_hex W (ordered_keys x y)) = 32"
proof -
  have len: "length (concat (map hex2 xs)) = 2 * length xs" for xs by (induction xs) (simp_all add: hex2_def)
  show h: "length (digest_hex W (ordered_keys x y)) = 32" using assms by (simp add: digest_hex_def len digest16_def)
  have "map (\<lambda>i. hex2 (sha_256 W (utf8_encode (ordered_keys x y)) ! i)) [0..<16] = map hex2 (digest16 W (ordered_keys x y))"
    using assms by (intro nth_equalityI) (simp_all add: digest16_def)
  then have s: "safetyNumber W x y = join_space (groups4 (digest_hex W (ordered_keys x y)))"
    by (simp add: safetyNumber_def ordered_keys_def digest_hex_def Let_def)
  have "CHR '' '' \<notin> set (digest_hex W (ordered_keys x y))" using hex2_no_space by (auto simp: digest_hex_def)
  then show "filter (\<lambda>c. c \<noteq> CHR '' '') (safetyNumber W x y) = digest_hex W (ordered_keys x y)"
    unfolding s using groups4_chars h by (subst filter_join_space) (auto simp: filter_groups4)
qed

lemma number_determines_digest:
  assumes "length (sha_256 W (utf8_encode (ordered_keys a b))) = 32" "length (sha_256 W (utf8_encode (ordered_keys c d))) = 32"
    and "safetyNumber W a b = safetyNumber W c d"
  shows "digest16 W (ordered_keys a b) = digest16 W (ordered_keys c d)"
  using number_hex(1) [OF assms(1)] number_hex(1) [OF assms(2)] assms(3) by (intro concat_hex2_inj) (simp add: digest_hex_def)

lemma number_nonempty: "(\<And>d. length (sha_256 W d) = 32) \<Longrightarrow> safetyNumber W a b \<noteq> []"
  using number_hex [of W a b] by (cases "safetyNumber W a b") auto

lemma bar_split: "CHR ''|'' \<notin> set a \<Longrightarrow> CHR ''|'' \<notin> set c \<Longrightarrow> a @ ''|'' @ b = c @ ''|'' @ d \<longleftrightarrow> a = c \<and> b = d"
proof (induction a arbitrary: c)
  case Nil then show ?case by (cases c) auto
next
  case (Cons x a) then show ?case by (cases c) auto
qed

lemma ordered_keys_swapped:
  assumes "CHR ''|'' \<notin> set a" "CHR ''|'' \<notin> set b" "CHR ''|'' \<notin> set c" "CHR ''|'' \<notin> set d"
    and "ordered_keys a b = ordered_keys c d" and "a \<noteq> c"
  shows "a = d \<and> b = c"
  using assms bar_split [of a c b d] bar_split [of a d b c] bar_split [of b c a d] bar_split [of b d a c]
  by (auto simp: ordered_keys_def split: if_splits)

lemma b64_no_bar: "b64ToBytes s = ok b \<Longrightarrow> CHR ''|'' \<notin> set s"
proof
  assume ok: "b64ToBytes s = ok b" and bar: "CHR ''|'' \<in> set s"
  let ?t = "filter (\<lambda>c. \<not> b64_space c) s"
  have "CHR ''|'' \<in> set ?t" using bar by (simp add: b64_space_def)
  moreover have "set ?t \<subseteq> set (b64_strip ?t) \<union> {CHR ''=''}"
  proof -
    have "set t = set (take (length t - n) t) \<union> set (take n (rev t))" for t :: string and n
      by (subst append_take_drop_id [of "length t - n" t, symmetric]) (simp only: set_append take_rev set_rev)
    from this [of ?t 2] this [of ?t 1] show ?thesis by (auto simp: b64_strip_def)
  qed
  ultimately have "CHR ''|'' \<in> set (b64_strip ?t)" by auto
  moreover have "b64_val CHR ''|'' = None" by code_simp
  ultimately have "None \<in> set (map b64_val (b64_strip ?t))" by force
  with ok show False by (simp add: b64ToBytes_def atob_def Let_def split: option.splits if_splits)
qed

section \<open>The keys of the chat\<close>

datatype chat_key_event = PeerKey "nat \<Rightarrow> bytes" "nat \<Rightarrow> bool" bool string string | PeerGone string | LeftRoom

definition chat_key_step :: "web_crypto \<Rightarrow> string \<Rightarrow> chat_key_event \<Rightarrow> chat_state \<Rightarrow> chat_state" where
  "chat_key_step W me e s =
    (case e of
       PeerKey ivs dc_sends has_media_key peer pub \<Rightarrow> fst (on_peer_pubkey W me ivs dc_sends has_media_key peer pub s)
     | PeerGone u \<Rightarrow> remove_chat_peer u s
     | LeftRoom \<Rightarrow> leave_chat s)"

definition chat_key_run :: "web_crypto \<Rightarrow> string \<Rightarrow> chat_keypair \<Rightarrow> chat_key_event list \<Rightarrow> chat_state" where
  "chat_key_run W me kp es = fold (chat_key_step W me) es (new_chat\<lparr>keypair := Some kp\<rparr>)"

text \<open>\<open>peerPubKeys\<close>, the part of the keys the panel is given.\<close>

definition shared_keys :: "chat_state \<Rightarrow> (string, string) jmap" where
  "shared_keys s = map (\<lambda>(p, pub, key). (p, pub)) (peer_keys s)"

lemma get_shared_keys: "jm_get (shared_keys s) p = map_option fst (jm_get (peer_keys s) p)"
proof -
  have "jm_get (map (\<lambda>(p, pub, key). (p, pub)) m) p = map_option fst (jm_get m p)" for m :: "(string, string \<times> ckey) jmap"
    by (induction m) auto
  then show ?thesis by (simp add: shared_keys_def)
qed

definition keys_derived :: "web_crypto \<Rightarrow> chat_keypair \<Rightarrow> chat_state \<Rightarrow> bool" where
  "keys_derived W kp s \<longleftrightarrow> keypair s = Some kp \<and>
    (\<forall>p pub key. jm_get (peer_keys s) p = Some (pub, key) \<longrightarrow> pub \<noteq> [] \<and> deriveSharedKey W (privateKey kp) pub = ok key)"

lemma dispatch_keeps_keys:
  "keypair (fst (encryptAndDispatchChat W me p iv dc q s)) = keypair s \<and> peer_keys (fst (encryptAndDispatchChat W me p iv dc q s)) = peer_keys s"
  by (simp add: encryptAndDispatchChat_def Let_def split: option.split)

lemma dispatch_all_keeps_keys:
  "keypair (fst (dispatch_all W me p ivs dc qs s)) = keypair s \<and> peer_keys (fst (dispatch_all W me p ivs dc qs s)) = peer_keys s"
proof (induction qs arbitrary: s ivs dc)
  case (Cons q qs)
  show ?case using Cons dispatch_keeps_keys [of W me p "ivs 0" "dc 0" q s] by (simp add: Let_def split: prod.split) (metis fst_conv)
qed simp

lemma flush_keeps_keys:
  "keypair (fst (flushPendingChats W me p ivs dc s)) = keypair s \<and> peer_keys (fst (flushPendingChats W me p ivs dc s)) = peer_keys s"
  by (simp add: flushPendingChats_def dispatch_all_keeps_keys split: option.split)

lemma peer_pubkey_derived:
  assumes "keys_derived W kp s" shows "keys_derived W kp (fst (on_peer_pubkey W me ivs dc mk peer pub s))"
proof (cases "peer = [] \<or> pub = [] \<or> map_option fst (jm_get (peer_keys s) peer) = Some pub")
  case False
  have kp: "keypair s = Some kp" using assms by (simp add: keys_derived_def)
  show ?thesis
  proof (cases "deriveSharedKey W (privateKey kp) pub")
    case (Inr key)
    let ?s1 = "s\<lparr>peer_keys := jm_set (peer_keys s) peer (pub, key)\<rparr>"
    have r: "fst (on_peer_pubkey W me ivs dc mk peer pub s) = fst (flushPendingChats W me peer ivs dc ?s1)"
      using False kp Inr by (simp add: on_peer_pubkey_def Let_def split: prod.split)
    show ?thesis using assms False Inr flush_keeps_keys [of W me peer ivs dc ?s1] unfolding r by (auto simp: keys_derived_def)
  qed (use assms False kp in \<open>simp add: on_peer_pubkey_def\<close>)
qed (use assms in \<open>auto simp: on_peer_pubkey_def keys_derived_def\<close>)

lemma other_keys_derived:
  "keys_derived W kp s \<Longrightarrow> keys_derived W kp (remove_chat_peer u s)" "keys_derived W kp s \<Longrightarrow> keys_derived W kp (leave_chat s)"
  by (auto simp: keys_derived_def remove_chat_peer_def leave_chat_def split: if_splits)

interpretation chat_keys: event_machine "chat_key_step W me" "keys_derived W kp" for W me kp
  by unfold_locales (simp add: chat_key_step_def peer_pubkey_derived other_keys_derived split: chat_key_event.split)

lemma chat_key_run_derived: "keys_derived W kp (chat_key_run W me kp es)"
  unfolding chat_key_run_def by (rule chat_keys.run_good) (simp add: keys_derived_def new_chat_def)

lemma derived_no_bar: "deriveSharedKey W priv pub = ok key \<Longrightarrow> CHR ''|'' \<notin> set pub"
  by (cases "b64ToBytes pub") (auto simp: deriveSharedKey_def dest: b64_no_bar)

lemma own_key_no_bar: "CHR ''|'' \<notin> set (publicKeyB64 (generateChatKeypair W pub priv))"
  by (rule b64_no_bar [of _ "export_pub W Raw pub"]) (simp add: generateChatKeypair_def)

text \<open>
  C9. If the numbers that two users read to each other are the same, nobody replaced their keys: when no computation is under way on either side and the
  digest does not collide on the two texts, each user's panel shows the number of the key the other one generated, and both encrypt under one key. The
  relay may have announced any keys before, in any order.
\<close>

theorem equal_numbers_no_interception:
  fixes W :: web_crypto and pubA privA pubB privB :: ckey and pA pB :: panel and sA sB :: chat_state
  defines "kpA \<equiv> generateChatKeypair W pubA privA" and "kpB \<equiv> generateChatKeypair W pubB privB"
  assumes web: "web_crypto W" and gen: "ecdh_generated W pubA privA" "ecdh_generated W pubB privB" and other: "publicKeyB64 kpA \<noteq> publicKeyB64 kpB"
    and chats: "sA = chat_key_run W nameA kpA csA" "sB = chat_key_run W nameB kpB csB"
    and panels: "pA = panel_run W psA" "pB = panel_run W psB" "settled pA" "settled pB"
    and props: "pn_my pA = Some (publicKeyB64 kpA)" "pn_keys pA = shared_keys sA" "pn_my pB = Some (publicKeyB64 kpB)" "pn_keys pB = shared_keys sB"
    and shown: "row_number pA b = Some number" "row_number pB a = Some number"
    and keys: "jm_get (pn_keys pA) b = Some x" "jm_get (pn_keys pB) a = Some y"
    and no_collision: "digest16 W (ordered_keys (publicKeyB64 kpA) x) = digest16 W (ordered_keys (publicKeyB64 kpB) y)
      \<Longrightarrow> ordered_keys (publicKeyB64 kpA) x = ordered_keys (publicKeyB64 kpB) y"
  shows "x = publicKeyB64 kpB \<and> y = publicKeyB64 kpA \<and> (\<exists>key. jm_get (peer_keys sA) b = Some (x, key) \<and> jm_get (peer_keys sB) a = Some (y, key))"
proof -
  let ?a = "publicKeyB64 kpA" and ?b = "publicKeyB64 kpB"
  from keys props obtain kA kB where kA: "jm_get (peer_keys sA) b = Some (x, kA)" and kB: "jm_get (peer_keys sB) a = Some (y, kB)"
    by (auto simp: get_shared_keys)
  have "keys_derived W kpA sA" "keys_derived W kpB sB" by (simp_all add: chats chat_key_run_derived)
  with kA kB have dA: "deriveSharedKey W privA x = ok kA" and dB: "deriveSharedKey W privB y = ok kB"
    by (auto simp: keys_derived_def kpA_def kpB_def generateChatKeypair_def)
  have nA: "number = safetyNumber W ?a x" and nB: "number = safetyNumber W ?b y"
    using settled_number [of W psA ?a b number] settled_number [of W psB ?b a number] panels props shown keys by auto
  have "digest16 W (ordered_keys ?a x) = digest16 W (ordered_keys ?b y)"
    using nA nB by (intro number_determines_digest) (simp_all add: web_crypto.length_digest [OF web])
  then have "ordered_keys ?a x = ordered_keys ?b y" by (rule no_collision)
  then have xy: "?a = y \<and> x = ?b"
    using derived_no_bar [OF dA] derived_no_bar [OF dB] own_key_no_bar other by (intro ordered_keys_swapped) (simp_all add: kpA_def kpB_def)
  then have "ok kA = ok (pair_key W privA pubB)" "ok kB = ok (pair_key W privB pubA)"
    using dA dB web_crypto.derive_ok [OF web gen(2), of privA] web_crypto.derive_ok [OF web gen(1), of privB]
    by (auto simp: kpA_def kpB_def generateChatKeypair_def)
  then have "kA = kB" using web_crypto.pair_key_agree [OF web gen] by simp
  with xy kA kB show ?thesis by auto
qed

definition demo_public :: "byte \<Rightarrow> string" where
  "demo_public n = publicKeyB64 (generateChatKeypair plain_crypto (demo_key n) (demo_key n))"

definition demo_chat_of :: "byte \<Rightarrow> string \<Rightarrow> byte \<Rightarrow> chat_state" where
  "demo_chat_of n peer m = chat_key_run plain_crypto ''x'' (generateChatKeypair plain_crypto (demo_key n) (demo_key n))
     [PeerKey (\<lambda>i. []) (\<lambda>i. True) False peer (demo_public 7), PeerKey (\<lambda>i. []) (\<lambda>i. True) False peer (demo_public m)]"

definition demo_panel_events :: "byte \<Rightarrow> string \<Rightarrow> byte \<Rightarrow> panel_event list" where
  "demo_panel_events n peer m = [NewKeys (Some (demo_public n)) [(peer, demo_public 7)], NewKeys (Some (demo_public n)) (shared_keys (demo_chat_of n peer m)), NumbersReady 1, NumbersReady 0]"

lemma demo_public_eq: "demo_public m = demo_public n \<longleftrightarrow> m = n"
  by (simp add: demo_public_def generateChatKeypair_def bytesToB64_inj plain_crypto_def demo_key_def)

lemma demo_public_nonempty: "demo_public m \<noteq> []"
  by (simp add: demo_public_def generateChatKeypair_def plain_crypto_def demo_key_def btoa_nonempty)

lemma demo_peer_keys:
  "m \<noteq> 7 \<Longrightarrow> peer \<noteq> [] \<Longrightarrow> peer_keys (demo_chat_of n peer m) = [(peer, demo_public m, pair_key plain_crypto (demo_key n) (demo_key m))]"
proof -
  have "deriveSharedKey plain_crypto (demo_key n) (demo_public k) = ok (pair_key plain_crypto (demo_key n) (demo_key k))" for k
    using plain.derive_ok [of "demo_key k" "demo_key k" "demo_key n"] by (simp add: demo_public_def generateChatKeypair_def plain_crypto_def demo_key_def)
  then show "m \<noteq> 7 \<Longrightarrow> peer \<noteq> [] \<Longrightarrow> ?thesis"
    by (simp add: demo_chat_of_def chat_key_run_def chat_key_step_def on_peer_pubkey_def new_chat_def flushPendingChats_def demo_public_eq demo_public_nonempty
      generateChatKeypair_def)
qed

lemmas panel_eval = panel_run_def panel_step_def new_panel_def on_new_keys_def on_numbers_ready_def compute_numbers_def settled_def row_number_def their_key_def
  is_verified_def shared_keys_def

theorem equal_numbers_no_interception_witness:
  "\<exists>key. jm_get (peer_keys (demo_chat_of 1 ''B'' 2)) ''B'' = Some (demo_public 2, key) \<and> jm_get (peer_keys (demo_chat_of 2 ''A'' 1)) ''A'' = Some (demo_public 1, key)"
proof -
  let ?pA = "panel_run plain_crypto (demo_panel_events 1 ''B'' 2)" and ?pB = "panel_run plain_crypto (demo_panel_events 2 ''A'' 1)"
  have gen: "ecdh_generated plain_crypto (demo_key n) (demo_key n)" for n by (simp add: plain_crypto_def demo_key_def)
  note number = number_nonempty [OF plain.length_digest]
  have "demo_public 1 \<noteq> demo_public 2" by (simp add: demo_public_eq)
  moreover have "settled ?pA" "settled ?pB" "pn_my ?pA = Some (demo_public 1)" "pn_my ?pB = Some (demo_public 2)"
    "pn_keys ?pA = shared_keys (demo_chat_of 1 ''B'' 2)" "pn_keys ?pB = shared_keys (demo_chat_of 2 ''A'' 1)"
    "row_number ?pA ''B'' = Some (safetyNumber plain_crypto (demo_public 1) (demo_public 2))"
    "row_number ?pB ''A'' = Some (safetyNumber plain_crypto (demo_public 1) (demo_public 2))"
    "jm_get (pn_keys ?pA) ''B'' = Some (demo_public 2)" "jm_get (pn_keys ?pB) ''A'' = Some (demo_public 1)"
    using safetyNumber_commute [of plain_crypto "demo_public 1" "demo_public 2"] number
    by (simp_all add: demo_panel_events_def panel_eval demo_peer_keys demo_public_nonempty)
  moreover have "ordered_keys (demo_public 1) (demo_public 2) = ordered_keys (demo_public 2) (demo_public 1)"
    using str_less_linear [of "demo_public 1" "demo_public 2"] str_less_asym [of "demo_public 1" "demo_public 2"] by (auto simp: ordered_keys_def)
  ultimately show ?thesis
    using equal_numbers_no_interception [OF plain.web_crypto_axioms gen gen, of 1 2 "demo_chat_of 1 ''B'' 2" "''x''"
      "[PeerKey (\<lambda>i. []) (\<lambda>i. True) False ''B'' (demo_public 7), PeerKey (\<lambda>i. []) (\<lambda>i. True) False ''B'' (demo_public 2)]" "demo_chat_of 2 ''A'' 1" "''x''"
      "[PeerKey (\<lambda>i. []) (\<lambda>i. True) False ''A'' (demo_public 7), PeerKey (\<lambda>i. []) (\<lambda>i. True) False ''A'' (demo_public 1)]" ?pA "demo_panel_events 1 ''B'' 2" ?pB "demo_panel_events 2 ''A'' 1"
      "''B''" "safetyNumber plain_crypto (demo_public 1) (demo_public 2)" "''A''" "demo_public 2" "demo_public 1"]
    by (simp add: demo_public_def [symmetric] demo_chat_of_def [symmetric])
qed

text \<open>
  While the number of a new key is being computed the row still shows the number of the key before, and its button marks the new key.
\<close>

theorem new_key_verified_by_old_number:
  assumes "settled (panel_run W es)" "pn_my (panel_run W es) = Some my" "jm_get (pn_keys (panel_run W es)) p = Some old"
    and "row_number (panel_run W es) p = Some number" "jm_get keys p = Some new" "new \<noteq> []" "\<not> is_verified (panel_run W es) new"
  defines "q \<equiv> panel_run W (es @ [NewKeys (Some my) keys, ToggleVerified p])"
  shows "row_badge q p = VerifiedBadge \<and> row_number q p = Some (safetyNumber W my old)"
proof -
  let ?pn = "panel_run W es"
  have n: "jm_get (pn_numbers ?pn) p = Some number" "number \<noteq> []" using assms(4) by (auto simp: row_number_def split: option.splits if_splits)
  have old: "number = safetyNumber W my old" using settled_number [OF assms(1,2,4)] assms(3) by auto
  have my: "my \<noteq> []"
    using panel_run_ok [of W es] assms(1,2) n by (auto simp: panel_ok_def current_numbers_def)
  have q: "q = toggle_verified p (on_new_keys (Some my) keys ?pn)" by (simp add: q_def panel_run_def panel_step_def)
  let ?r = "on_new_keys (Some my) keys ?pn"
  have r: "their_key ?r p = Some new" "row_number ?r p = Some number" "pn_verified ?r = pn_verified ?pn"
    using my n assms(5,6) by (simp_all add: on_new_keys_def their_key_def row_number_def)
  then have "q = ?r\<lparr>pn_verified := jm_set (pn_verified ?r) new True\<rparr>" using assms(7) by (simp add: q toggle_verified_def is_verified_def)
  with r old show ?thesis by (simp add: row_badge_def row_number_def their_key_def is_verified_def)
qed

theorem new_key_verified_by_old_number_witness:
  "row_number (panel_run plain_crypto ([NewKeys (Some (demo_public 1)) [(''B'', demo_public 2)], NumbersReady 0] @ [NewKeys (Some (demo_public 1)) [(''B'', demo_public 3)], ToggleVerified ''B'']))
     ''B'' = Some (safetyNumber plain_crypto (demo_public 1) (demo_public 2))"
proof -
  let ?pn = "panel_run plain_crypto [NewKeys (Some (demo_public 1)) [(''B'', demo_public 2)], NumbersReady 0]"
  have "settled ?pn" "pn_my ?pn = Some (demo_public 1)" "jm_get (pn_keys ?pn) ''B'' = Some (demo_public 2)"
    "row_number ?pn ''B'' = Some (safetyNumber plain_crypto (demo_public 1) (demo_public 2))" "jm_get [(''B'', demo_public 3)] ''B'' = Some (demo_public 3)"
    "demo_public 3 \<noteq> []" "\<not> is_verified ?pn (demo_public 3)"
    using number_nonempty [OF plain.length_digest] by (simp_all add: panel_eval demo_public_nonempty)
  from new_key_verified_by_old_number [OF this] show ?thesis by simp
qed

end
