(* ===== verification/Lobby.thy ===== *)
theory Lobby imports RoomClient AuthClient begin

text \<open>
  The screens before the room: signing in and choosing a name (\<open>components/UsernameModal.tsx\<close>), the lobby with its dialogs
  (\<open>components/RoomLobby.tsx\<close>), and logging out (\<open>handleLogout\<close> of \<open>pages/Index.tsx\<close>). A handler gives the new state and what it asks of the
  page; a button that is disabled, and the submission of its form, does nothing. Texts are of 8-bit characters.
\<close>

section \<open>The name\<close>

datatype modal_step = AuthChoice | MagicSent | UsernameStep

record username_modal =
  um_initialEmail :: "string option"
  um_step :: modal_step
  um_email :: string
  um_username :: string
  um_linkBusy :: bool
  um_linkError :: jsval
  um_previewUrl :: jsval

text \<open>The page passes the email of a session only when there is one, and then it is not empty.\<close>

definition new_modal :: "string option \<Rightarrow> username_modal" where
  "new_modal initialEmail = \<lparr>um_initialEmail = initialEmail, um_step = (if initialEmail = None then AuthChoice else UsernameStep),
     um_email = (case initialEmail of None \<Rightarrow> [] | Some e \<Rightarrow> e), um_username = [], um_linkBusy = False, um_linkError = None, um_previewUrl = None\<rparr>"

definition has_at :: "string \<Rightarrow> bool" where
  "has_at s \<longleftrightarrow> CHR ''@'' \<in> set s"

text \<open>The request for a link, if the form sends one.\<close>

definition handleEmailSubmit :: "username_modal \<Rightarrow> username_modal \<times> string option" where
  "handleEmailSubmit m =
    (let trimmed = toLowerCase (trim (um_email m)) in
     if um_linkBusy m \<or> \<not> has_at (trim (um_email m)) then (m, None)
     else if \<not> has_at trimmed then (m\<lparr>um_linkError := Some (JStr ''Please enter a valid email.'')\<rparr>, None)
     else (m\<lparr>um_linkBusy := True, um_linkError := None, um_previewUrl := None\<rparr>, Some trimmed))"

text \<open>Its answer, as \<open>requestMagicLink\<close> gives it.\<close>

definition on_link_answer :: "jsval + jsval \<Rightarrow> username_modal \<Rightarrow> username_modal" where
  "on_link_answer result m =
    (let m1 = m\<lparr>um_linkBusy := False\<rparr> in
     (case result of
        Inl e \<Rightarrow> if e = None then m1 else m1\<lparr>um_linkError := e\<rparr>
      | Inr url \<Rightarrow> m1\<lparr>um_previewUrl := (if url = Some JNull then None else url), um_step := MagicSent\<rparr>))"

definition handleGuest :: "username_modal \<Rightarrow> username_modal" where
  "handleGuest m = m\<lparr>um_step := UsernameStep\<rparr>"

text \<open>What the modal hands to the page: the name and the email.\<close>

definition handleNameSubmit :: "username_modal \<Rightarrow> (string \<times> string option) option" where
  "handleNameSubmit m =
    (if trim (um_username m) \<noteq> [] then Some (trim (um_username m), if trim (um_email m) = [] then None else Some (trim (um_email m))) else None)"

text \<open>The line \<open>Signed in as\<close> of the last step.\<close>

definition signed_in_as :: "username_modal \<Rightarrow> string option" where
  "signed_in_as m = (if um_step m = UsernameStep \<and> um_email m \<noteq> [] then Some (um_email m) else None)"

datatype modal_event = TypeEmail string | SubmitEmail | LinkAnswer http_answer | Guest | BackToChoice | TypeName string | SessionEmail string

definition modal_step :: "modal_event \<Rightarrow> username_modal \<Rightarrow> username_modal" where
  "modal_step e m =
    (case e of
       TypeEmail s \<Rightarrow> if um_step m = AuthChoice then m\<lparr>um_email := s\<rparr> else m
     | SubmitEmail \<Rightarrow> if um_step m = AuthChoice then fst (handleEmailSubmit m) else m
     | LinkAnswer a \<Rightarrow> if um_linkBusy m then on_link_answer (requestMagicLink a) m else m
     | Guest \<Rightarrow> if um_step m = AuthChoice then handleGuest m else m
     | BackToChoice \<Rightarrow> if um_step m = MagicSent \<or> um_step m = UsernameStep \<and> um_initialEmail m = None then m\<lparr>um_step := AuthChoice\<rparr> else m
     | TypeName s \<Rightarrow> if um_step m = UsernameStep then m\<lparr>um_username := s\<rparr> else m
     | SessionEmail e \<Rightarrow> m\<lparr>um_initialEmail := Some e, um_email := e, um_step := UsernameStep\<rparr>)"

text \<open>
  A guest who has typed an address before is shown as signed in with it, and a guest who asked for a link first is taken from the name
  to the message about the link when the answer comes.
\<close>

lemma guest_shown_as_signed_in: "e \<noteq> [] \<Longrightarrow> signed_in_as (fold modal_step [TypeEmail e, Guest] (new_modal None)) = Some e"
  by (simp add: modal_step_def new_modal_def handleGuest_def signed_in_as_def)

lemma guest_taken_back:
  "um_step (fold modal_step [TypeEmail ''a@b'', SubmitEmail, Guest, TypeName ''Al'', LinkAnswer (HttpAnswer 200 (Some (JObj [(''ok'', JBool True)])))] (new_modal None)) = MagicSent"
  by code_simp

section \<open>The lobby\<close>

record lobby =
  lo_newName :: string
  lo_newPassword :: string
  lo_createOpen :: bool
  lo_joinPassword :: string
  lo_joinOpen :: bool
  lo_roomToJoin :: "string option"

definition new_lobby :: lobby where
  "new_lobby = \<lparr>lo_newName = [], lo_newPassword = [], lo_createOpen = False, lo_joinPassword = [], lo_joinOpen = False, lo_roomToJoin = None\<rparr>"

text \<open>The properties the page passes: create or join a room, clear the error, the room a password is asked for.\<close>

datatype lobby_call = OnCreateRoom string "string option" | OnJoinRoom string "string option" | ClearError | PendingJoin "string option" | AlertExists

definition or_undefined :: "string \<Rightarrow> string option" where
  "or_undefined s = (if s = [] then None else Some s)"

text \<open>A room of the list has a name and says whether it has a password.\<close>

definition lobby_create :: "(string \<times> bool) list \<Rightarrow> lobby \<Rightarrow> lobby \<times> lobby_call list" where
  "lobby_create rooms l =
    (let roomName = trim (lo_newName l) in
     if roomName = [] then (l, [])
     else if list_ex (\<lambda>(n, pw). n = roomName) rooms then (l, [AlertExists])
     else (l\<lparr>lo_newName := [], lo_newPassword := [], lo_createOpen := False\<rparr>, [OnCreateRoom roomName (or_undefined (trim (lo_newPassword l)))]))"

definition handleJoinClick :: "(string \<times> bool) list \<Rightarrow> string \<Rightarrow> lobby \<Rightarrow> lobby \<times> lobby_call list" where
  "handleJoinClick rooms roomName l =
    (case find (\<lambda>(n, pw). n = roomName) rooms of
       Some (n, True) \<Rightarrow> (l\<lparr>lo_roomToJoin := Some roomName, lo_joinPassword := [], lo_joinOpen := True\<rparr>, [PendingJoin (Some roomName)])
     | _ \<Rightarrow> (l, [OnJoinRoom roomName None]))"

definition handleJoinWithPassword :: "lobby \<Rightarrow> lobby \<times> lobby_call list" where
  "handleJoinWithPassword l =
    (case lo_roomToJoin l of None \<Rightarrow> (l, [])
     | Some r \<Rightarrow> if r = [] then (l, []) else (l, [ClearError, OnJoinRoom r (or_undefined (trim (lo_joinPassword l)))]))"

definition handlePasswordDialogClose :: "bool \<Rightarrow> lobby \<Rightarrow> lobby \<times> lobby_call list" where
  "handlePasswordDialogClose open_it l =
    (if open_it then (l\<lparr>lo_joinOpen := True\<rparr>, [])
     else (l\<lparr>lo_joinOpen := False, lo_roomToJoin := None, lo_joinPassword := []\<rparr>, [ClearError, PendingJoin None]))"

text \<open>The effect on an error of the page.\<close>

definition on_password_error :: "string option \<Rightarrow> lobby \<Rightarrow> lobby" where
  "on_password_error e l = (case e of None \<Rightarrow> l | Some t \<Rightarrow> if t = [] then l else l\<lparr>lo_joinOpen := True\<rparr>)"

text \<open>The page's side of the calls; the events go to the server.\<close>

definition page_call :: "lobby_call \<Rightarrow> room_client \<Rightarrow> room_client \<times> event list" where
  "page_call call c =
    (case call of
       OnCreateRoom r p \<Rightarrow> (case handleCreateRoom r p c of (c', e) \<Rightarrow> (c', [e]))
     | OnJoinRoom r p \<Rightarrow> (case handleJoinRoom r p c of (c', e) \<Rightarrow> (c', [e]))
     | ClearError \<Rightarrow> (c\<lparr>cl_passwordError := None\<rparr>, [])
     | PendingJoin r \<Rightarrow> (c\<lparr>cl_pendingJoin := map_option (\<lambda>x. (x, None)) r\<rparr>, [])
     | AlertExists \<Rightarrow> (c, []))"

text \<open>Logging out: the session in the storage goes, the server is told, and the socket is closed.\<close>

definition handleLogout :: "room_client \<Rightarrow> local_storage \<Rightarrow> room_client \<times> local_storage \<times> event list" where
  "handleLogout c store =
    (c\<lparr>cl_users := [], cl_rooms := JArr [], cl_room := [], cl_username := Some (JStr []), cl_app := AppUsername\<rparr>, clearSession store,
     (if cl_room c \<noteq> [] then [Leave (cl_id c) (Some (JStr (cl_room c)))] else []) @ [Disconnect (cl_id c)])"

lemma logout_forgets_session: "fst (loadSession now (fst (snd (handleLogout c store)))) = None"
  by (simp add: handleLogout_def clearSession_def loadSession_def)

section \<open>Passwords through the lobby\<close>

lemma trim_stripped: "s = [] \<or> \<not> js_space (hd s) \<and> \<not> js_space (last s) \<Longrightarrow> trim s = s"
proof -
  assume "s = [] \<or> \<not> js_space (hd s) \<and> \<not> js_space (last s)"
  then have "dropWhile js_space s = s" "dropWhile js_space (rev s) = rev s" by (cases s; cases "rev s"; auto simp: hd_rev [symmetric])+
  then show ?thesis by (simp add: trim_def)
qed

lemma trim_ends: "trim s = [] \<or> \<not> js_space (hd (trim s)) \<and> \<not> js_space (last (trim s))"
proof -
  let ?t = "dropWhile js_space s"
  have 1: "trim s \<noteq> [] \<Longrightarrow> \<not> js_space (last (trim s))"
    using hd_dropWhile [of js_space "rev ?t"] by (simp add: trim_def last_rev)
  obtain u where u: "?t = trim s @ u"
    using takeWhile_dropWhile_id [of js_space "rev ?t"] by (metis rev_append rev_rev_ident trim_def)
  have "trim s \<noteq> [] \<Longrightarrow> hd ?t = hd (trim s) \<and> ?t \<noteq> []" using u by simp
  then have "trim s \<noteq> [] \<Longrightarrow> \<not> js_space (hd (trim s))" using hd_dropWhile [of js_space s] by metis
  with 1 show ?thesis by blast
qed

lemma trim_trim [simp]: "trim (trim s) = trim s"
  by (rule trim_stripped) (rule trim_ends)

text \<open>
  The password of a room goes through two dialogs and the server: whoever types it again in the lobby, with any white space around it, gets in, and
  whoever types something else is refused and asked again for the same room.
\<close>

theorem typed_password_opens_room:
  assumes create: "lobby_create rooms l = (l', [OnCreateRoom r (Some p)])"
    and parse_create: "cf_parse cf CreateRoomPayload (room_request r (Some p)) = Some (room_request r (Some p))"
    and kept: "jm_get (sv_passwords st') r = jm_get (sv_passwords (fst (on_create_room cf a sa (room_request r (Some p)) st))) r"
    and dialog: "handleJoinClick rooms' r k = (k', [PendingJoin (Some r)])" "handleJoinWithPassword (k'\<lparr>lo_joinPassword := typed\<rparr>) = (k'', [ClearError, OnJoinRoom r q])"
    and parse_join: "cf_parse cf JoinRoomPayload (room_request r q) = Some (room_request r q)"
  shows "on_join_room cf b sb (room_request r q) st' =
      (if trim typed = trim (lo_newPassword l) then (enter_room cf b r (JoinedRoom b sb r) st', [])
       else (st', [Emit (ToSocket b) ''join room error'' (Plain (JObj [(''message'', JStr ''Incorrect password'')]))])) \<and>
    lo_roomToJoin k'' = Some r"
proof -
  from create have p: "p = trim (lo_newPassword l)" "p \<noteq> []" by (auto simp: lobby_create_def or_undefined_def Let_def split: if_splits)
  have pw: "jm_get (sv_passwords st') r = Some p"
    using p parse_create by (simp add: kept on_create_room_def room_request_def Let_def enter_room_def setRoomPassword_get)
  have q: "q = or_undefined (trim typed)" and k: "lo_roomToJoin k'' = Some r"
    using dialog by (auto simp: handleJoinClick_def handleJoinWithPassword_def split: option.splits bool.splits if_splits)
  have "join_target (room_request r q) = (r, q)" by (cases q) (simp_all add: join_target_def room_request_def)
  with parse_join pw p q k show ?thesis by (auto simp: on_join_room_def checkRoomPassword_def or_undefined_def)
qed

theorem typed_password_opens_room_witness:
  "on_join_room demo_cf ''b'' \<lparr>so_username = None, so_media = None\<rparr> (room_request ''r'' (Some ''s''))
     (fst (on_create_room demo_cf ''a'' \<lparr>so_username = None, so_media = None\<rparr> (room_request ''r'' (Some ''s'')) (new_server []))) =
   (enter_room demo_cf ''b'' ''r'' (JoinedRoom ''b'' \<lparr>so_username = None, so_media = None\<rparr> ''r'')
     (fst (on_create_room demo_cf ''a'' \<lparr>so_username = None, so_media = None\<rparr> (room_request ''r'' (Some ''s'')) (new_server []))), [])"
proof -
  let ?l = "new_lobby\<lparr>lo_newName := '' r'', lo_newPassword := ''s ''\<rparr>" and ?u = "\<lparr>so_username = None, so_media = None\<rparr>"
  let ?k = "new_lobby\<lparr>lo_roomToJoin := Some ''r'', lo_joinOpen := True\<rparr>"
  have 1: "lobby_create [] ?l = (new_lobby, [OnCreateRoom ''r'' (Some ''s'')])" by code_simp
  have 2: "cf_parse demo_cf CreateRoomPayload (room_request ''r'' (Some ''s'')) = Some (room_request ''r'' (Some ''s''))"
    "cf_parse demo_cf JoinRoomPayload (room_request ''r'' (Some ''s'')) = Some (room_request ''r'' (Some ''s''))" by code_simp+
  have 3: "handleJoinClick [(''r'', True)] ''r'' new_lobby = (?k, [PendingJoin (Some ''r'')])"
    "handleJoinWithPassword (?k\<lparr>lo_joinPassword := ''  s''\<rparr>) = (?k\<lparr>lo_joinPassword := ''  s''\<rparr>, [ClearError, OnJoinRoom ''r'' (Some ''s'')])" by code_simp+
  have 4: "trim ''  s'' = trim (lo_newPassword ?l)" by code_simp
  from typed_password_opens_room [where sa = ?u and sb = ?u and a = "''a''" and b = "''b''" and st = "new_server []", OF 1 2(1) refl 3 2(2)] 4 show ?thesis by simp
qed

text \<open>
  If a room gets its password after the list was drawn, the join is sent without one; the refusal opens the dialog with no room, and its button does nothing.
\<close>

lemma dialog_without_room:
  "lo_roomToJoin l = None \<Longrightarrow> handleJoinClick [(r, False)] r l = (l, [OnJoinRoom r None]) \<and>
    handleJoinWithPassword ((on_password_error (Some ''Incorrect password'') l)\<lparr>lo_joinPassword := p\<rparr>)
      = ((on_password_error (Some ''Incorrect password'') l)\<lparr>lo_joinPassword := p\<rparr>, []) \<and> lo_joinOpen (on_password_error (Some ''Incorrect password'') l)"
  by (simp add: handleJoinClick_def on_password_error_def handleJoinWithPassword_def)

end
