(* ===== verification/DriveLife.thy ===== *)
theory DriveLife imports DriveHook begin

text \<open>
  The effects of the drive hook (\<open>hooks/useDrive.ts\<close>): the identity and the binding of the holder, the node of the distributed table that is made
  when the peer identifier is known and replaced when it changes, and the timer that tells the node of the peers with an open channel. A node is the
  number of the creation it came from. State that React has been asked to set is queued until the next rendering, which is given the peer identifier of
  the page; the clean-ups of the effects that have changed run before the new effects, in the order of the source.
\<close>

section \<open>The effects\<close>

record drive_life =
  dl_identity :: bool
  dl_bound :: nat
  dl_self :: "string option"
  dl_runs :: "(bool \<times> string) list"
  dl_subs :: "nat list"
  dl_node :: "nat option"
  dl_queue :: "nat option list"
  dl_snap :: "nat option"
  dl_timer :: "nat option"
  dl_told :: "(nat \<times> string list) list"

text \<open>\<open>dl_runs\<close> are the creations begun, each with the mark its clean-up sets and its handle; \<open>dl_told\<close> is what the timer has told which node.\<close>

definition new_life :: drive_life where
  "new_life = \<lparr>dl_identity = False, dl_bound = 0, dl_self = None, dl_runs = [], dl_subs = [], dl_node = None, dl_queue = [], dl_snap = None,
     dl_timer = None, dl_told = []\<rparr>"

datatype life_event = IdentityReady | Render "string option" | Created nat | Timer "(string, channel) jmap"

text \<open>The clean-up of the effect that makes the node: the creation is cancelled, the node stopped and forgotten, and its snapshot cleared.\<close>

definition stop_node :: "drive_life \<Rightarrow> drive_life" where
  "stop_node d = d\<lparr>dl_runs := map (\<lambda>(c, h). (True, h)) (dl_runs d), dl_subs := (case dl_node d of None \<Rightarrow> dl_subs d | Some n \<Rightarrow> filter (\<lambda>m. m \<noteq> n) (dl_subs d)),
     dl_node := None, dl_queue := dl_queue d @ [None]\<rparr>"

text \<open>A creation ends: the node is started, unless its effect was cleaned up meanwhile.\<close>

definition on_created :: "nat \<Rightarrow> drive_life \<Rightarrow> drive_life" where
  "on_created n d =
    (if n < length (dl_runs d) \<and> \<not> fst (dl_runs d ! n) \<and> n \<notin> set (dl_subs d)
     then d\<lparr>dl_subs := dl_subs d @ [n], dl_node := Some n, dl_queue := dl_queue d @ [Some n]\<rparr> else d)"

definition given :: "string option \<Rightarrow> bool" where
  "given self \<longleftrightarrow> self \<noteq> None \<and> self \<noteq> Some []"

text \<open>
  A rendering: the queued snapshots are taken; if the identifier has changed, its effect is cleaned up and begun anew; the timer is renewed only when
  there being a snapshot has changed, and then takes the node there is.
\<close>

definition render_life :: "string option \<Rightarrow> drive_life \<Rightarrow> drive_life" where
  "render_life self d =
    (let snap = (if dl_queue d = [] then dl_snap d else last (dl_queue d));
         d1 = d\<lparr>dl_queue := [], dl_snap := snap\<rparr>;
         d2 = (if self \<noteq> dl_self d \<and> given (dl_self d) then stop_node d1 else d1);
         d3 = (if self \<noteq> dl_self d \<and> given self then d2\<lparr>dl_runs := dl_runs d2 @ [(False, the self)]\<rparr> else d2) in
     d3\<lparr>dl_self := self, dl_timer := (if (snap \<noteq> None) = (dl_snap d \<noteq> None) then dl_timer d else if snap = None then None else dl_node d2)\<rparr>)"

definition on_timer :: "(string, channel) jmap \<Rightarrow> drive_life \<Rightarrow> drive_life" where
  "on_timer dcs d =
    (case dl_timer d of None \<Rightarrow> d | Some n \<Rightarrow> d\<lparr>dl_told := dl_told d @ [(n, open_peers dcs)], dl_queue := dl_queue d @ [Some n]\<rparr>)"

text \<open>
  The effect that makes the identity has no dependencies and runs once, on mount: a second \<open>IdentityReady\<close> changes nothing.
\<close>

definition life_step :: "life_event \<Rightarrow> drive_life \<Rightarrow> drive_life" where
  "life_step e d =
    (case e of
       IdentityReady \<Rightarrow> if dl_identity d then d else d\<lparr>dl_identity := True, dl_bound := Suc (dl_bound d)\<rparr>
     | Created n \<Rightarrow> on_created n d
     | Render self \<Rightarrow> render_life self d
     | Timer dcs \<Rightarrow> on_timer dcs d)"

definition life_run :: "life_event list \<Rightarrow> drive_life" where
  "life_run es = fold life_step es new_life"

section \<open>One node, and the right one\<close>

text \<open>Every creation that is not cancelled is the last one, and of the identifier there is.\<close>

definition life_ok :: "drive_life \<Rightarrow> bool" where
  "life_ok d \<longleftrightarrow>
    dl_subs d = (case dl_node d of None \<Rightarrow> [] | Some n \<Rightarrow> [n]) \<and>
    (\<forall>i < length (dl_runs d). fst (dl_runs d ! i) \<or> Some (snd (dl_runs d ! i)) = dl_self d \<and> given (dl_self d) \<and> Suc i = length (dl_runs d)) \<and>
    (case dl_node d of None \<Rightarrow> True | Some n \<Rightarrow> n < length (dl_runs d) \<and> \<not> fst (dl_runs d ! n)) \<and>
    dl_bound d = of_bool (dl_identity d)"

lemma life_ok_same:
  assumes "life_ok d" "dl_runs d' = dl_runs d" "dl_node d' = dl_node d" "dl_subs d' = dl_subs d" "dl_self d' = dl_self d" "dl_bound d' = dl_bound d"
    "dl_identity d' = dl_identity d"
  shows "life_ok d'"
  using assms(1) unfolding life_ok_def assms(2-) .

lemma stop_node_facts:
  "life_ok d \<Longrightarrow> dl_subs (stop_node d) = [] \<and> dl_node (stop_node d) = None \<and> (\<forall>i < length (dl_runs d). fst (dl_runs (stop_node d) ! i)) \<and>
    length (dl_runs (stop_node d)) = length (dl_runs d) \<and> dl_bound (stop_node d) = dl_bound d \<and> dl_identity (stop_node d) = dl_identity d"
  by (auto simp: life_ok_def stop_node_def split: option.splits prod.splits)

lemma created_ok: "life_ok d \<Longrightarrow> life_ok (on_created n d)"
proof -
  assume ok: "life_ok d"
  show ?thesis
  proof (cases "n < length (dl_runs d) \<and> \<not> fst (dl_runs d ! n) \<and> n \<notin> set (dl_subs d)")
    case True
    then have "dl_node d = None"
      using ok by (cases "dl_node d") (auto simp: life_ok_def, metis Suc_inject)
    with ok True show ?thesis by (simp add: life_ok_def on_created_def)
  next
    case False
    then have "on_created n d = d" unfolding on_created_def by (rule if_not_P)
    with ok show ?thesis by simp
  qed
qed

lemma render_ok: "life_ok d \<Longrightarrow> life_ok (render_life self d)"
proof -
  assume ok: "life_ok d"
  define d1 where "d1 = d\<lparr>dl_queue := [], dl_snap := (if dl_queue d = [] then dl_snap d else last (dl_queue d))\<rparr>"
  define d2 where "d2 = (if self \<noteq> dl_self d \<and> given (dl_self d) then stop_node d1 else d1)"
  have ok1: "life_ok d1" using ok by (rule life_ok_same) (simp_all add: d1_def)
  have f: "dl_runs d1 = dl_runs d" "dl_node d1 = dl_node d" "dl_subs d1 = dl_subs d" "dl_self d1 = dl_self d" "dl_bound d1 = dl_bound d" "dl_identity d1 = dl_identity d"
    by (simp_all add: d1_def)
  have r: "dl_runs (render_life self d) = (if self \<noteq> dl_self d \<and> given self then dl_runs d2 @ [(False, the self)] else dl_runs d2)"
    "dl_node (render_life self d) = dl_node d2" "dl_subs (render_life self d) = dl_subs d2" "dl_self (render_life self d) = self"
    "dl_bound (render_life self d) = dl_bound d2" "dl_identity (render_life self d) = dl_identity d2"
    by (simp_all add: render_life_def Let_def d2_def d1_def)
  show ?thesis
  proof (cases "self = dl_self d")
    case True
    show ?thesis by (rule life_ok_same [OF ok]) (simp_all add: render_life_def Let_def True)
  next
    case changed: False
    have dead: "dl_subs d2 = [] \<and> dl_node d2 = None \<and> (\<forall>i < length (dl_runs d2). fst (dl_runs d2 ! i)) \<and> dl_bound d2 = of_bool (dl_identity d2)"
    proof (cases "given (dl_self d)")
      case True
      then show ?thesis using stop_node_facts [OF ok1] changed ok1 by (simp add: d2_def life_ok_def)
    next
      case False
      then have "\<forall>i < length (dl_runs d). fst (dl_runs d ! i)" using ok by (auto simp: life_ok_def)
      with ok False show ?thesis by (auto simp: d2_def f life_ok_def split: option.splits)
    qed
    then show ?thesis using changed by (auto simp: life_ok_def r nth_append given_def)
  qed
qed

interpretation life: event_machine life_step life_ok
proof
  fix d e assume ok: "life_ok d"
  show "life_ok (life_step e d)"
  proof (cases e)
    case IdentityReady with ok show ?thesis by (auto simp: life_step_def life_ok_def split: option.splits)
  next
    case (Timer dcs) show ?thesis by (rule life_ok_same [OF ok]) (simp_all add: Timer life_step_def on_timer_def split: option.split)
  qed (use ok in \<open>simp_all add: life_step_def created_ok render_ok\<close>)
qed

lemma life_run_ok: "life_ok (life_run es)"
  unfolding life_run_def by (rule life.run_good) (simp add: life_ok_def new_life_def)

text \<open>
  C31. However the peer identifier changes and whenever the creations end, a message of the distributed table is handled by at most one node, the last
  one made, and that node was made for the identifier the page has; the holder is bound once.
\<close>

theorem one_node_for_own_id:
  fixes es :: "life_event list"
  defines "d \<equiv> life_run es"
  shows "ingestRemote call_dht call_drive (dl_subs d) drive_subs peer (DhtEnvelope m) =
      (case dl_node d of None \<Rightarrow> [] | Some n \<Rightarrow> [call_dht n peer m]) \<and>
    (case dl_node d of None \<Rightarrow> True | Some n \<Rightarrow> Suc n = length (dl_runs d) \<and> dl_self d = Some (snd (dl_runs d ! n)) \<and> snd (dl_runs d ! n) \<noteq> []) \<and>
    dl_bound d \<le> 1"
proof -
  have ok: "life_ok d" unfolding d_def by (rule life_run_ok)
  show ?thesis
  proof (cases "dl_node d")
    case None
    with ok show ?thesis by (simp add: life_ok_def ingestRemote_def)
  next
    case (Some n)
    with ok have n: "n < length (dl_runs d)" "\<not> fst (dl_runs d ! n)" by (simp_all add: life_ok_def)
    with ok have "Some (snd (dl_runs d ! n)) = dl_self d \<and> given (dl_self d) \<and> Suc n = length (dl_runs d)" unfolding life_ok_def by blast
    with ok Some show ?thesis by (auto simp: life_ok_def ingestRemote_def given_def)
  qed
qed

text \<open>
  The timer is renewed only when a rendering sees that there is a snapshot where there was none. If the node of the new identifier is ready before the
  page renders without one, the timer stays with the node that was stopped, and the new one is never told of any peer.
\<close>

definition stale :: "drive_life \<Rightarrow> bool" where
  "stale d \<longleftrightarrow> dl_node d = Some 1 \<and> dl_timer d = Some 0 \<and> dl_snap d \<noteq> None \<and> None \<notin> set (dl_queue d) \<and> dl_self d = Some ''b'' \<and>
    (\<forall>(n, ps) \<in> set (dl_told d). n = 0)"

theorem replaced_node_never_told:
  assumes "d = life_run [Render (Some ''a''), Created 0, Render (Some ''a''), Render (Some ''b''), Created 1, Render (Some ''b'')]"
    and "list_all (\<lambda>e. case e of Render s \<Rightarrow> s = Some ''b'' | Timer dcs \<Rightarrow> True | _ \<Rightarrow> False) es"
  shows "dl_node (fold life_step es d) = Some 1 \<and> list_all (\<lambda>(n, ps). n = 0) (dl_told (fold life_step es d))"
proof -
  have "stale d" unfolding assms(1) by code_simp
  with assms(2) have "stale (fold life_step es d)"
  proof (induction es arbitrary: d)
    case (Cons e es)
    have "dl_queue d \<noteq> [] \<Longrightarrow> None \<notin> set (dl_queue d) \<Longrightarrow> \<exists>y. last (dl_queue d) = Some y" by (metis last_in_set not_None_eq)
    with Cons.prems have "stale (life_step e d)" by (cases e) (auto simp: life_step_def render_life_def on_timer_def stale_def Let_def)
    with Cons show ?case by simp
  qed simp
  then show ?thesis by (auto simp: stale_def list_all_iff)
qed

theorem replaced_node_never_told_witness:
  "dl_told (fold life_step [Timer [(''x'', IsOpen)], Render (Some ''b''), Timer [(''x'', IsOpen)]]
     (life_run [Render (Some ''a''), Created 0, Render (Some ''a''), Render (Some ''b''), Created 1, Render (Some ''b'')])) = [(0, [''x'']), (0, [''x''])] \<and>
   dl_node (fold life_step [Timer [(''x'', IsOpen)], Render (Some ''b''), Timer [(''x'', IsOpen)]]
     (life_run [Render (Some ''a''), Created 0, Render (Some ''a''), Render (Some ''b''), Created 1, Render (Some ''b'')])) = Some 1"
proof -
  have "list_all (\<lambda>e. case e of Render s \<Rightarrow> s = Some ''b'' | Timer dcs \<Rightarrow> True | _ \<Rightarrow> False) [Timer [(''x'', IsOpen)], Render (Some ''b''), Timer [(''x'', IsOpen)]]"
    by simp
  note r = replaced_node_never_told [OF refl this]
  have "dl_told (fold life_step [Timer [(''x'', IsOpen)], Render (Some ''b''), Timer [(''x'', IsOpen)]]
     (life_run [Render (Some ''a''), Created 0, Render (Some ''a''), Render (Some ''b''), Created 1, Render (Some ''b'')])) = [(0, [''x'']), (0, [''x''])]"
    by code_simp
  with r show ?thesis by blast
qed

end
