(* ===== verification/ArpPanel.thy ===== *)
theory ArpPanel imports ArpSession begin

text \<open>
  The panel that watches the transport of one peer (\<open>components/ARPVisualizer.tsx\<close>): the choice of the peer, the samples of its session, the injected
  loss and the demo traffic. A step is a change of the state of the panel with the effects that depend on what has changed, in the order of the
  source; the effect that picks a peer changes the state again. The page's map of sessions is part of the state.
\<close>

definition POLL_INTERVAL_MS :: nat where "POLL_INTERVAL_MS = 200"
definition HISTORY_SECONDS :: nat where "HISTORY_SECONDS = 60"
definition HISTORY_MAX :: nat where "HISTORY_MAX = HISTORY_SECONDS * 1000 div POLL_INTERVAL_MS"

text \<open>\<open>toFixed\<close> of a number that is not negative.\<close>

definition to_fixed :: "nat \<Rightarrow> rat \<Rightarrow> rat" where
  "to_fixed d x = of_int \<lfloor>x * 10 ^ d + 1 / 2\<rfloor> / 10 ^ d"

record arp_sample =
  as_t :: rat
  as_cwnd :: rat
  as_ssthresh :: rat
  as_rttMs :: rat
  as_inFlight :: nat
  as_throughputKbps :: rat

record arp_panel =
  ap_sessions :: "(string, arp_session) jmap"
  ap_open :: bool
  ap_selected :: "string option"
  ap_snapshot :: "arp_session_snapshot option"
  ap_history :: "arp_sample list"
  ap_lossPct :: nat
  ap_lastAcked :: nat
  ap_lastAt :: rat
  ap_chartStart :: rat
  ap_polling :: bool

definition new_arp_panel :: arp_panel where
  "new_arp_panel = \<lparr>ap_sessions = [], ap_open = False, ap_selected = None, ap_snapshot = None, ap_history = [], ap_lossPct = 0, ap_lastAcked = 0,
     ap_lastAt = 0, ap_chartStart = 0, ap_polling = False\<rparr>"

definition session_of :: "arp_panel \<Rightarrow> arp_session option" where
  "session_of p = Option.bind (ap_selected p) (jm_get (ap_sessions p))"

text \<open>One sample of the polling loop.\<close>

definition add_sample :: "arp_sample \<Rightarrow> arp_sample list \<Rightarrow> arp_sample list" where
  "add_sample x prev = (if HISTORY_MAX \<le> length prev then drop (length prev - HISTORY_MAX + 1) prev else prev) @ [x]"

definition arp_sample_of :: "rat \<Rightarrow> arp_session_snapshot \<Rightarrow> arp_panel \<Rightarrow> arp_sample" where
  "arp_sample_of now snap p =
    (let lastAt = (if ap_lastAt p = 0 then now - of_nat POLL_INTERVAL_MS else ap_lastAt p);
         dtSec = max ((now - lastAt) / 1000) (1 / 1000);
         ackedDelta = ss_bytesAcked (sn_sender snap) - ap_lastAcked p in
     \<lparr>as_t = to_fixed 2 ((now - ap_chartStart p) / 1000), as_cwnd = to_fixed 2 (ss_cwnd (sn_sender snap)), as_ssthresh = ss_ssthresh (sn_sender snap),
      as_rttMs = to_fixed 2 (ss_rttSrtt (sn_sender snap)), as_inFlight = ss_inFlight (sn_sender snap),
      as_throughputKbps = to_fixed 1 (of_nat ackedDelta * 8 / dtSec / 1000)\<rparr>)"

definition sample :: "rat \<Rightarrow> arp_panel \<Rightarrow> arp_panel" where
  "sample now p =
    (case session_of p of
       None \<Rightarrow> p\<lparr>ap_snapshot := None\<rparr>
     | Some ses \<Rightarrow>
         (let snap = session_snapshot ses in
          p\<lparr>ap_snapshot := Some snap, ap_lastAcked := ss_bytesAcked (sn_sender snap), ap_lastAt := now,
            ap_history := add_sample (arp_sample_of now snap p) (ap_history p)\<rparr>))"

section \<open>Effects\<close>

text \<open>The peers that can be chosen, and the effect that chooses one.\<close>

definition availablePeers :: "arp_panel \<Rightarrow> string list \<Rightarrow> string list" where
  "availablePeers p participants = filter (jm_has (ap_sessions p)) participants"

definition pick_peer :: "string list \<Rightarrow> arp_panel \<Rightarrow> arp_panel" where
  "pick_peer participants p =
    (let avail = availablePeers p participants in
     if \<not> ap_open p then p
     else if (case ap_selected p of None \<Rightarrow> False | Some i \<Rightarrow> i \<noteq> [] \<and> i \<in> set avail) then p
     else p\<lparr>ap_selected := (case avail of [] \<Rightarrow> None | i # _ \<Rightarrow> Some i)\<rparr>)"

text \<open>The slider sets the loss of the session that is selected.\<close>

definition apply_loss :: "arp_panel \<Rightarrow> arp_panel" where
  "apply_loss p =
    (case (ap_selected p, session_of p) of
       (Some i, Some ses) \<Rightarrow> p\<lparr>ap_sessions := jm_set (ap_sessions p) i (ses\<lparr>ses_lossPct := of_nat (ap_lossPct p) / 100\<rparr>)\<rparr>
     | _ \<Rightarrow> p)"

definition reset_chart :: "rat \<Rightarrow> arp_panel \<Rightarrow> arp_panel" where
  "reset_chart now p =
    (if ap_selected p = None then p\<lparr>ap_history := [], ap_snapshot := None\<rparr>
     else p\<lparr>ap_history := [], ap_chartStart := now,
       ap_lastAcked := (case session_of p of None \<Rightarrow> 0 | Some ses \<Rightarrow> ss_bytesAcked (sn_sender (session_snapshot ses))), ap_lastAt := 0\<rparr>)"

definition start_polling :: "rat \<Rightarrow> arp_panel \<Rightarrow> arp_panel" where
  "start_polling now p =
    (if ap_open p \<and> ap_selected p \<noteq> None then sample now (p\<lparr>ap_polling := True\<rparr>) else p\<lparr>ap_polling := False\<rparr>)"

definition commit :: "rat \<Rightarrow> arp_panel \<Rightarrow> arp_panel \<Rightarrow> arp_panel" where
  "commit now old new =
    (let p1 = (if ap_selected new \<noteq> ap_selected old \<or> ap_lossPct new \<noteq> ap_lossPct old then apply_loss new else new);
         p2 = (if ap_selected new \<noteq> ap_selected old then reset_chart now p1 else p1) in
     if ap_selected new \<noteq> ap_selected old \<or> ap_open new \<noteq> ap_open old then start_polling now p2 else p2)"

definition change :: "rat \<Rightarrow> string list \<Rightarrow> (arp_panel \<Rightarrow> arp_panel) \<Rightarrow> arp_panel \<Rightarrow> arp_panel" where
  "change now participants f p =
    (let p1 = commit now p (f p) in commit now p1 (pick_peer participants p1))"

definition demo_bytes :: "nat \<Rightarrow> bytes" where
  "demo_bytes kb = map word_of_nat [0..<kb * 1024]"

definition sendDemoBytes :: "session_env \<Rightarrow> nat \<Rightarrow> arp_panel \<Rightarrow> arp_panel" where
  "sendDemoBytes w kb p =
    (case (ap_selected p, session_of p) of
       (Some i, Some ses) \<Rightarrow> p\<lparr>ap_sessions := jm_set (ap_sessions p) i (session_send w (demo_bytes kb) ses)\<rparr>
     | _ \<Rightarrow> p)"

datatype arp_panel_event =
    SetOpen bool rat "string list" | SelectPeer string rat "string list" | SetLoss nat rat "string list"
  | Sessions "(string, arp_session) jmap" rat "string list" | Poll rat | SendDemo session_env nat

definition arp_panel_step :: "arp_panel_event \<Rightarrow> arp_panel \<Rightarrow> arp_panel" where
  "arp_panel_step e p =
    (case e of
       SetOpen b now ps \<Rightarrow> change now ps (\<lambda>p. p\<lparr>ap_open := b\<rparr>) p
     | SelectPeer i now ps \<Rightarrow> change now ps (\<lambda>p. p\<lparr>ap_selected := (if i = [] then None else Some i)\<rparr>) p
     | SetLoss l now ps \<Rightarrow> change now ps (\<lambda>p. p\<lparr>ap_lossPct := l\<rparr>) p
     | Sessions m now ps \<Rightarrow> change now ps (\<lambda>p. p\<lparr>ap_sessions := m\<rparr>) p
     | Poll now \<Rightarrow> if ap_polling p then sample now p else p
     | SendDemo w kb \<Rightarrow> sendDemoBytes w kb p)"

definition arp_panel_run :: "arp_panel_event list \<Rightarrow> arp_panel" where
  "arp_panel_run es = fold arp_panel_step es new_arp_panel"

section \<open>What the chart shows\<close>

text \<open>At most a minute of samples, each with a throughput that is not negative, and none without a peer.\<close>

definition chart_ok :: "arp_panel \<Rightarrow> bool" where
  "chart_ok p \<longleftrightarrow> length (ap_history p) \<le> HISTORY_MAX \<and> (\<forall>x \<in> set (ap_history p). 0 \<le> as_throughputKbps x) \<and>
    (ap_selected p = None \<longrightarrow> ap_history p = [] \<and> ap_snapshot p = None) \<and> (ap_polling p \<longrightarrow> ap_open p \<and> ap_selected p \<noteq> None)"

lemma length_add_sample: "length prev \<le> HISTORY_MAX \<Longrightarrow> length (add_sample x prev) \<le> HISTORY_MAX"
  by (auto simp: add_sample_def HISTORY_MAX_def HISTORY_SECONDS_def POLL_INTERVAL_MS_def)

lemma to_fixed_nonneg: "0 \<le> x \<Longrightarrow> 0 \<le> to_fixed d x"
  by (simp add: to_fixed_def)

lemma throughput_nonneg: "0 \<le> as_throughputKbps (arp_sample_of now snap p)"
  by (simp add: arp_sample_of_def Let_def to_fixed_nonneg)

lemma set_add_sample: "x \<in> set (add_sample y prev) \<Longrightarrow> x = y \<or> x \<in> set prev"
  by (auto simp: add_sample_def dest: in_set_dropD split: if_splits)

lemma sample_fields [simp]:
  "ap_selected (sample now p) = ap_selected p" "ap_open (sample now p) = ap_open p" "ap_polling (sample now p) = ap_polling p"
  "ap_lossPct (sample now p) = ap_lossPct p" "ap_sessions (sample now p) = ap_sessions p"
  by (simp_all add: sample_def Let_def split: option.split)

lemma sample_ok: "chart_ok p \<Longrightarrow> chart_ok (sample now p)"
proof -
  assume ok: "chart_ok p"
  show ?thesis
  proof (cases "session_of p")
    case None
    with ok show ?thesis by (simp add: chart_ok_def sample_def)
  next
    case (Some ses)
    then have "ap_selected p \<noteq> None" by (cases "ap_selected p") (simp_all add: session_of_def)
    with ok Some show ?thesis
      using length_add_sample throughput_nonneg by (auto simp: chart_ok_def sample_def Let_def dest!: set_add_sample)
  qed
qed

lemma apply_loss_fields [simp]:
  "ap_selected (apply_loss p) = ap_selected p" "ap_open (apply_loss p) = ap_open p" "ap_polling (apply_loss p) = ap_polling p"
  "ap_history (apply_loss p) = ap_history p" "ap_snapshot (apply_loss p) = ap_snapshot p"
  by (simp_all add: apply_loss_def split: option.split)

text \<open>A change that leaves the samples alone is committed well, whatever it does to the rest.\<close>

lemma commit_ok:
  assumes "chart_ok old" "ap_history new = ap_history old" "ap_snapshot new = ap_snapshot old" "ap_polling new = ap_polling old"
  shows "chart_ok (commit now old new)"
proof -
  define p1 where "p1 = (if ap_selected new \<noteq> ap_selected old \<or> ap_lossPct new \<noteq> ap_lossPct old then apply_loss new else new)"
  define p2 where "p2 = (if ap_selected new \<noteq> ap_selected old then reset_chart now p1 else p1)"
  have p1: "ap_selected p1 = ap_selected new" "ap_open p1 = ap_open new" "ap_polling p1 = ap_polling old" "ap_history p1 = ap_history old"
    "ap_snapshot p1 = ap_snapshot old"
    using assms by (simp_all add: p1_def)
  have fields: "ap_selected p2 = ap_selected new \<and> ap_open p2 = ap_open new \<and> ap_polling p2 = ap_polling old"
    using p1 by (simp add: p2_def reset_chart_def)
  have good: "length (ap_history p2) \<le> HISTORY_MAX \<and> (\<forall>x \<in> set (ap_history p2). 0 \<le> as_throughputKbps x) \<and>
      (ap_selected p2 = None \<longrightarrow> ap_history p2 = [] \<and> ap_snapshot p2 = None)"
    using assms(1) p1 by (auto simp: p2_def reset_chart_def chart_ok_def)
  have "chart_ok (start_polling now p2)"
  proof (cases "ap_open p2 \<and> ap_selected p2 \<noteq> None")
    case True
    then have "chart_ok (p2\<lparr>ap_polling := True\<rparr>)" using good by (simp add: chart_ok_def)
    with True show ?thesis by (simp add: start_polling_def sample_ok)
  next
    case False
    with good show ?thesis by (auto simp: start_polling_def chart_ok_def)
  qed
  moreover have "chart_ok p2" if "ap_selected new = ap_selected old" "ap_open new = ap_open old"
    using good fields assms(1) that by (simp add: chart_ok_def)
  ultimately show ?thesis unfolding commit_def Let_def p1_def [symmetric] p2_def [symmetric] by auto
qed

lemma change_ok:
  assumes "chart_ok p" "ap_history (f p) = ap_history p" "ap_snapshot (f p) = ap_snapshot p" "ap_polling (f p) = ap_polling p"
  shows "chart_ok (change now ps f p)"
proof -
  have "chart_ok (commit now p (f p))" by (rule commit_ok [OF assms])
  then show ?thesis unfolding change_def Let_def by (rule commit_ok) (simp_all add: pick_peer_def Let_def)
qed

lemma send_demo_ok: "chart_ok p \<Longrightarrow> chart_ok (sendDemoBytes w kb p)"
  by (auto simp: sendDemoBytes_def chart_ok_def split: option.split)

interpretation arp_chart: event_machine arp_panel_step chart_ok
  by unfold_locales (auto simp: arp_panel_step_def change_ok sample_ok send_demo_ok split: arp_panel_event.split)

text \<open>Whatever the user and the room do, the chart keeps at most a minute of samples and is empty when no peer is selected.\<close>

theorem chart_in_bounds:
  fixes es :: "arp_panel_event list"
  defines "p \<equiv> arp_panel_run es"
  shows "length (ap_history p) \<le> 300 \<and> (ap_selected p = None \<longrightarrow> ap_history p = []) \<and> list_all (\<lambda>x. 0 \<le> as_throughputKbps x) (ap_history p)"
proof -
  have "chart_ok p" unfolding p_def arp_panel_run_def
    by (rule arp_chart.run_good) (simp add: chart_ok_def new_arp_panel_def)
  then show ?thesis by (simp add: chart_ok_def HISTORY_MAX_def HISTORY_SECONDS_def POLL_INTERVAL_MS_def list_all_iff)
qed

section \<open>The loss of the others\<close>

lemma commit_other: "ap_selected new \<noteq> Some i \<Longrightarrow> jm_get (ap_sessions (commit now old new)) i = jm_get (ap_sessions new) i"
  by (simp add: commit_def start_polling_def reset_chart_def apply_loss_def Let_def split: option.split)

lemma commit_keeps [simp]:
  "ap_selected (commit now old new) = ap_selected new" "ap_open (commit now old new) = ap_open new"
  by (simp_all add: commit_def start_polling_def reset_chart_def Let_def)

lemma commit_has: "jm_has (ap_sessions (commit now old new)) i \<longleftrightarrow> jm_has (ap_sessions new) i"
  by (auto simp: commit_def start_polling_def reset_chart_def apply_loss_def session_of_def Let_def split: option.split)

lemma pick_keeps:
  "ap_selected p = Some i \<Longrightarrow> i \<noteq> [] \<Longrightarrow> i \<in> set ps \<Longrightarrow> jm_has (ap_sessions p) i \<Longrightarrow> pick_peer ps p = p"
  by (simp add: pick_peer_def availablePeers_def Let_def)

text \<open>The loss set on one peer's session stays there when another peer is selected, wherever the slider goes then.\<close>

theorem loss_stays_behind:
  assumes "b \<noteq> []" "b \<in> set ps" "jm_has (ap_sessions p) b" "a \<noteq> b"
  shows "let q = fold arp_panel_step [SelectPeer b t1 ps, SetLoss l t2 ps] p in ap_selected q = Some b \<and> jm_get (ap_sessions q) a = jm_get (ap_sessions p) a"
proof -
  have step: "ap_selected (change now ps f p) = Some b \<and> jm_has (ap_sessions (change now ps f p)) b \<and> jm_get (ap_sessions (change now ps f p)) a = jm_get (ap_sessions p) a"
    if "ap_selected (f p) = Some b" "ap_sessions (f p) = ap_sessions p" "jm_has (ap_sessions p) b" for now f p
  proof -
    have "pick_peer ps (commit now p (f p)) = commit now p (f p)" using that assms(1,2) by (intro pick_keeps [of _ b]) (simp_all add: commit_has del: not_None_eq)
    then show ?thesis using that assms(4) by (simp add: change_def Let_def commit_other commit_has del: not_None_eq)
  qed
  let ?p1 = "arp_panel_step (SelectPeer b t1 ps) p"
  have 1: "ap_selected ?p1 = Some b \<and> jm_has (ap_sessions ?p1) b \<and> jm_get (ap_sessions ?p1) a = jm_get (ap_sessions p) a"
    unfolding arp_panel_step_def arp_panel_event.case by (rule step) (use assms in simp_all)
  have "ap_selected (arp_panel_step (SetLoss l t2 ps) ?p1) = Some b \<and> jm_get (ap_sessions (arp_panel_step (SetLoss l t2 ps) ?p1)) a = jm_get (ap_sessions ?p1) a"
    using step [of "\<lambda>p. p\<lparr>ap_lossPct := l\<rparr>" ?p1 t2] 1 by (simp only: arp_panel_step_def arp_panel_event.case) simp
  with 1 show ?thesis by (simp add: Let_def)
qed

end
