(* ===== verification/Spec2Isabelle.thy ===== *)
theory Spec2Isabelle imports ErasureCode ArpSystem KademliaProps RoomRefinement AuthProps ServerRoutes Heartbeat MediaCrypto DriveProps DriveHook Abr FileTransfer SfuProps RtcConfig AuthClient RoomSystem SfuClientProps MeshCalls WebRTCStats Sampler SafetyNumbers Lobby DriveLife ArpPanel begin

text \<open>
  A verification development for CCN, an application for calls, chat, file transfer and file storage between browsers, with a signaling server.

  \<^bold>\<open>The program.\<close> The server (\<open>backend/src\<close>) authenticates users by magic links, keeps rooms with passwords, relays the messages with which two
  browsers set up a connection, and forwards media for rooms that have grown past a threshold. The client (\<open>frontend/src\<close>) is a React page,
  \<open>pages/Index.tsx\<close>, over libraries that do not depend on React: an erasure code, a reliable transport over an unreliable data channel, a distributed hash
  table, encryption of chat, media and files, a heartbeat and a bitrate controller. Client and server share nothing but messages; in the client the page
  owns the connections and hands the libraries a way to send and the frames that arrive.

  \<^bold>\<open>How it is modelled.\<close> A function is a HOL function of the same name. A class or a hook is a record of its fields, and each method a function that gives the
  new record, the frames it sends, and an \<open>Inl\<close> value where the code throws. Code that awaits a peer, the server, the camera, a timer or a digest that another event can overtake is cut at the await: what runs before and after are
  separate steps, so that any other step can come between, and a pending promise is an entry of a list or a map in the state. Other calls of the browser, those of Web Crypto in
  the handlers of the chat, of the media key and of the drive and the description of a connection, are one step with the handler they are in. Random values, the clock
  and the answers of the network are inputs of a step. A component that reacts to events has one function from events to states
  (\<open>*_act\<close>, \<open>*_step\<close>) and the theorems are about every list of events. Maps of JavaScript are association lists in the order of insertion
  (\<open>('k, 'v) jmap\<close>), bytes are words of 8 bits, sequence numbers and identifiers words of their width, other numbers \<open>nat\<close>, \<open>int\<close> or
  \<open>rat\<close> with the truncation of the code written out.

  \<^bold>\<open>The theories and the code.\<close>
  \<^item> \<open>Prelude\<close>: results, maps, comparison of byte strings, and the interfaces \<open>event_machine\<close>, \<open>step_system\<close>, \<open>keyed_store\<close> and \<open>comparator\<close>, which
    give an invariant of one step to every run. \<open>Base64\<close>, \<open>JsonText\<close>, \<open>Linear\<close>: \<open>btoa\<close>/\<open>atob\<close>, \<open>JSON.stringify\<close>/\<open>JSON.parse\<close>,
    and elimination over a field, with their round trips and correctness.
  \<^item> \<open>GF256\<close>, \<open>ReedSolomon\<close>, \<open>ErasureCode\<close>: \<open>lib/erasure\<close>. The table arithmetic is that of polynomials modulo 0x11d, the type of its elements is a field, and any \<open>k\<close>
    of \<open>k + m\<close> shards give the data.
  \<^item> \<open>ArpProtocol\<close>, \<open>ArpSender\<close>, \<open>ArpSession\<close>, \<open>ArpSystem\<close>: \<open>lib/arpProtocol.ts\<close>, \<open>lib/arpSession.ts\<close>: frames, sender, receiver, session, and two
    sessions over a channel that loses, duplicates and reorders. \<open>ArpPanel\<close>: the panel that watches them (\<open>components/ARPVisualizer.tsx\<close>).
  \<^item> \<open>NodeId\<close>, \<open>RoutingTable\<close>, \<open>Kademlia\<close>, \<open>KademliaProps\<close>: \<open>lib/dht\<close>: identifiers, buckets, the node with its pending requests and iterative lookups.
  \<^item> \<open>WebCrypto\<close>, \<open>ChatCrypto\<close>, \<open>SafetyNumbers\<close>, \<open>MediaCrypto\<close>: \<open>lib/chatCrypto.ts\<close>, the verification panel of \<open>components/RoomView.tsx\<close>, and
    \<open>lib/mediaE2EE\<close> with \<open>hooks/useMediaE2EE.ts\<close>; the handlers of \<open>pages/Index.tsx\<close> that queue, flush and exchange keys.
  \<^item> \<open>DriveManifest\<close>, \<open>DriveClient\<close>, \<open>DriveProps\<close>, \<open>DriveHook\<close>, \<open>DriveLife\<close>: \<open>lib/drive\<close> and \<open>hooks/useDrive.ts\<close>: sealing, manifests, the shard store, upload and
    download as machines of tasks, and the effects that make and replace the node of the hash table.
  \<^item> \<open>FileTransfer\<close>, \<open>MeshCalls\<close>, \<open>RoomClient\<close>, \<open>RoomSystem\<close>, \<open>Lobby\<close>: the rest of \<open>pages/Index.tsx\<close>: files over the data channels, offers, answers, candidates and ICE restarts,
    the roster of a room, the dialogs before it, and logging out. \<open>RoomSystem\<close> and \<open>MeshCalls\<close> put clients and the signaling server together.
  \<^item> \<open>Validate\<close>, \<open>Rooms\<close>, \<open>Signaling\<close>, \<open>SignalingProps\<close>, \<open>RoomRefinement\<close>: \<open>validate/socket.ts\<close>, \<open>rooms/manager.ts\<close>, \<open>sfu/mode.ts\<close>, \<open>signaling\<close>: what a client may send, the rooms, each
    handler with the work it leaves pending, and an abstract room that the server refines.
  \<^item> \<open>Auth\<close>, \<open>AuthProps\<close>, \<open>ServerRoutes\<close>, \<open>AuthClient\<close>, \<open>RtcConfig\<close>: \<open>auth\<close>, \<open>mail\<close>, \<open>turn\<close> of the server, \<open>lib/authClient.ts\<close> with the page's redeeming of a link, and \<open>utils.ts\<close>, the cache of ICE
    credentials.
  \<^item> \<open>Sfu\<close>, \<open>SfuProps\<close>, \<open>Sampler\<close>: \<open>sfu\<close> of the server with the objects of mediasoup as numbered handles, and the gauges of \<open>observability\<close>.
    \<open>SfuClient\<close>, \<open>SfuClientProps\<close>, \<open>Abr\<close>: \<open>lib/sfuClient.ts\<close>, \<open>hooks/useSfu.ts\<close>, \<open>lib/abr/abr.ts\<close>.
  \<^item> \<open>Heartbeat\<close>: \<open>lib/resilience/heartbeat.ts\<close> and \<open>hooks/useConnectionHealth.ts\<close>. \<open>WebRTCStats\<close>: \<open>hooks/useWebRTCStats.ts\<close>.

  \<^bold>\<open>What the lemmas show.\<close> Every state machine has an invariant (\<open>*_ok\<close>, \<open>*_good\<close>, \<open>system_ok\<close>) kept by each operation and lifted to runs by an interpretation of
  \<open>event_machine\<close> or \<open>step_system\<close>. On these rest the properties, numbered in the text before each: safety of the rooms and of the relay, one use of a magic
  link, delivery in order over a bad channel, files and shards that come back byte for byte, initialisation vectors that are never used twice over the life of a room, rosters
  that agree with the server, tracks that match their consumers, a single router for a room, and bounds of windows, tables, histories and bitrates.
  Where the code falls short of its own purpose the theorem says so: a download that gives up although the file can be recovered, a reconnection without
  the password, a camera that comes on after the user has left. Theorems beside the numbered properties record further such behaviour.

  \<^bold>\<open>What is a parameter.\<close> The browser's cryptography (\<open>web_crypto\<close>), the token library (\<open>jwt\<close>), the parser of schemas (\<open>schema_parser\<close>) and the rooms of
  socket.io (\<open>room_adapter\<close>) are records of functions and the documented behaviour the code relies on is the \<open>assumes\<close> of a locale, interpreted by an instance that
  computes and used by the witnesses. Collision resistance is never assumed in general: a theorem that needs it names the two texts; and the one about
  initialisation vectors names how far apart the random starts of the counters must lie. Mediasoup, WebRTC
  and SMTP appear as inputs: each answer, failure or event they can give is a constructor of an event or an argument.

  \<^bold>\<open>Bounds and fuel.\<close> The loop of an iterative lookup runs at most 16 times, as in the code. The parser of JSON texts takes as fuel twice the length of
  the text, which is enough for every text that \<open>JSON.stringify\<close> writes (its round trip is proved). All other recursions are structural or have a measure. Where a
  computation could wait for ever there is a theorem that it ends (\<open>upload_settles\<close>, \<open>rooms_settle\<close>, \<open>abr_backs_off\<close>) or one that shows when it does not
  (\<open>malformed_answer_hangs\<close>).

  \<^bold>\<open>Not modelled.\<close> The markup of the components and the generated widgets of \<open>components/ui\<close>: they draw modelled state. \<open>server.ts\<close> only wires handlers. Tests, smoke
  scripts and build configuration hold no program logic. Strings are of 8-bit characters, so surrogates and normalisation of Unicode are left out; the
  doubles of the bitrate controller, of the statistics and of the timers are rationals. A manifest that arrives with other fields than its interface declares
  is outside the model, and so is the cleaning up of a page that is being closed.
\<close>

end
